(* ===== verification/Js_Prelude.thy ===== *)
theory Js_Prelude
  imports Main
begin

text \<open>
  The JavaScript values the modelled scripts compute with.

  \<^item> A Number is an \<open>int option\<close>: \<open>None\<close> is \<open>NaN\<close>, \<open>Some i\<close> an integral Number. The date code
    keeps every integer far below \<open>2 ^ 53\<close>, where IEEE doubles add, subtract and multiply
    exactly and where a quotient that is floored, ceiled or truncated at once is the exact one.
  \<^item> A String is a \<open>string\<close> (ASCII). The string helpers here are the methods of
    \<open>String.prototype\<close> the scripts call.
  \<^item> A thrown error is the left side of a sum.

  The theory also declares the collections of simplification rules that the components share.
\<close>

named_theorems js_simps \<open>unfolding of the Number and String primitives\<close>
named_theorems cal_simps \<open>reading a field of a calendar date that was just built\<close>

datatype js_error = TypeError | JsError string

type_synonym num = "int option"
type_synonym 'a result = "js_error + 'a"

section \<open>Numbers\<close>

text \<open>Remainder \<open>a % b\<close>: truncating, so it takes the sign of the dividend.\<close>

definition js_div :: "int \<Rightarrow> int \<Rightarrow> int" where
  "js_div a b = sgn a * sgn b * (\<bar>a\<bar> div \<bar>b\<bar>)"

definition js_mod :: "int \<Rightarrow> int \<Rightarrow> int" where
  "js_mod a b = a - b * js_div a b"

text \<open>\<open>Math.ceil (a / b)\<close> and \<open>Math.round (a / b)\<close> for a positive integer \<open>b\<close>.\<close>

definition ceil_div :: "int \<Rightarrow> int \<Rightarrow> int" where
  "ceil_div a b = - ((- a) div b)"

definition round_div :: "int \<Rightarrow> int \<Rightarrow> int" where
  "round_div a b = (2 * a + b) div (2 * b)"

fun nmap :: "(int \<Rightarrow> int) \<Rightarrow> num \<Rightarrow> num" where
  "nmap f (Some a) = Some (f a)"
| "nmap f None = None"

fun nmap2 :: "(int \<Rightarrow> int \<Rightarrow> int) \<Rightarrow> num \<Rightarrow> num \<Rightarrow> num" where
  "nmap2 f (Some a) (Some b) = Some (f a b)"
| "nmap2 f _ _ = None"

definition nadd :: "num \<Rightarrow> num \<Rightarrow> num" where "nadd = nmap2 (+)"
definition nsub :: "num \<Rightarrow> num \<Rightarrow> num" where "nsub = nmap2 (-)"
definition nmin :: "num \<Rightarrow> num \<Rightarrow> num" where "nmin = nmap2 min"

text \<open>A comparison with \<open>NaN\<close> is false, whichever way round.\<close>

fun nrel :: "(int \<Rightarrow> int \<Rightarrow> bool) \<Rightarrow> num \<Rightarrow> num \<Rightarrow> bool" where
  "nrel r (Some a) (Some b) = r a b"
| "nrel r _ _ = False"

definition nlt :: "num \<Rightarrow> num \<Rightarrow> bool" where "nlt = nrel (<)"
definition ngt :: "num \<Rightarrow> num \<Rightarrow> bool" where "ngt = nrel (>)"
definition nle :: "num \<Rightarrow> num \<Rightarrow> bool" where "nle = nrel (\<le>)"
definition neq :: "num \<Rightarrow> num \<Rightarrow> bool" where "neq = nrel (=)"

lemmas num_defs = nadd_def nsub_def nmin_def nlt_def ngt_def nle_def neq_def
declare num_defs [js_simps]

lemma nmap_None_iff [simp]: "nmap f x = None \<longleftrightarrow> x = None"
  by (cases x) auto

lemma js_div_pos: "0 \<le> a \<Longrightarrow> 0 < b \<Longrightarrow> js_div a b = a div b"
  by (auto simp: js_div_def sgn_if)

lemma js_mod_pos: "0 \<le> a \<Longrightarrow> 0 < b \<Longrightarrow> js_mod a b = a mod b"
  by (simp add: js_mod_def js_div_pos minus_mult_div_eq_mod)

lemma js_div_neg: "a \<le> 0 \<Longrightarrow> 0 < b \<Longrightarrow> js_div a b = - ((- a) div b)"
  by (auto simp: js_div_def sgn_if)

lemma js_mod_neg: "a \<le> 0 \<Longrightarrow> 0 < b \<Longrightarrow> js_mod a b = - ((- a) mod b)"
  using minus_mult_div_eq_mod [of "- a" b] by (simp add: js_mod_def js_div_neg)

lemma js_mod_div_eq: "b * js_div a b + js_mod a b = a"
  by (simp add: js_mod_def)

lemma js_mod_bound: "0 < b \<Longrightarrow> \<bar>js_mod a b\<bar> < b"
  by (cases "0 \<le> a") (simp_all add: js_mod_pos js_mod_neg)

lemma js_mod_sign: "0 < b \<Longrightarrow> (0 \<le> a \<longrightarrow> 0 \<le> js_mod a b) \<and> (a \<le> 0 \<longrightarrow> js_mod a b \<le> 0)"
  by (auto simp: js_mod_pos js_mod_neg)

lemma js_div_sign: "0 < b \<Longrightarrow> (0 \<le> a \<longrightarrow> 0 \<le> js_div a b) \<and> (a \<le> 0 \<longrightarrow> js_div a b \<le> 0)"
  by (auto simp: js_div_pos js_div_neg pos_imp_zdiv_nonneg_iff)

lemma js_mod_eq_0_iff: "0 < b \<Longrightarrow> js_mod a b = 0 \<longleftrightarrow> a mod b = 0"
  by (cases "0 \<le> a") (auto simp: js_mod_pos js_mod_neg zmod_zminus1_not_zero
      dvd_eq_mod_eq_0 [symmetric])

lemma ceil_div_ge: "0 < b \<Longrightarrow> a \<le> b * ceil_div a b"
  and ceil_div_lt: "0 < b \<Longrightarrow> b * ceil_div a b < a + b"
proof -
  assume b: "0 < b"
  have "b * ((- a) div b) + (- a) mod b = - a" by (rule mult_div_mod_eq)
  moreover have "0 \<le> (- a) mod b" "(- a) mod b < b" using b by simp_all
  ultimately show "a \<le> b * ceil_div a b" "b * ceil_div a b < a + b"
    unfolding ceil_div_def by linarith+
qed

lemma round_div_exact: "0 < b \<Longrightarrow> round_div (b * q) b = q"
proof -
  assume b: "0 < b"
  have "round_div (b * q) b = (b + (2 * b) * q) div (2 * b)"
    by (simp add: round_div_def algebra_simps)
  also have "\<dots> = q + b div (2 * b)"
    using b by (subst div_mult_self2) simp_all
  also have "b div (2 * b) = 0"
    using b by (simp add: div_pos_pos_trivial)
  finally show ?thesis by simp
qed

section \<open>Strings\<close>

definition ascii_lower :: "char \<Rightarrow> char" where
  "ascii_lower c = (let n = of_char c :: nat in if 65 \<le> n \<and> n \<le> 90 then char_of (n + 32) else c)"

definition ascii_upper :: "char \<Rightarrow> char" where
  "ascii_upper c = (let n = of_char c :: nat in if 97 \<le> n \<and> n \<le> 122 then char_of (n - 32) else c)"

text \<open>The same on the bits of a character, which evaluates faster.\<close>

lemma ascii_lower_bits [code]:
  "ascii_lower (Char b0 b1 b2 b3 b4 b5 b6 b7) =
     (if \<not> b7 \<and> b6 \<and> \<not> b5 \<and> (b0 \<or> b1 \<or> b2 \<or> b3 \<or> b4) \<and> \<not> (b4 \<and> b3 \<and> (b2 \<or> b1 \<and> b0))
      then Char b0 b1 b2 b3 b4 True b6 b7 else Char b0 b1 b2 b3 b4 b5 b6 b7)"
  unfolding ascii_lower_def Let_def
  by (cases b0; cases b1; cases b2; cases b3; cases b4; cases b5; cases b6; cases b7)
    (simp_all add: char_of_def of_char_def bit_iff_odd)

lemma ascii_upper_bits [code]:
  "ascii_upper (Char b0 b1 b2 b3 b4 b5 b6 b7) =
     (if \<not> b7 \<and> b6 \<and> b5 \<and> (b0 \<or> b1 \<or> b2 \<or> b3 \<or> b4) \<and> \<not> (b4 \<and> b3 \<and> (b2 \<or> b1 \<and> b0))
      then Char b0 b1 b2 b3 b4 False b6 b7 else Char b0 b1 b2 b3 b4 b5 b6 b7)"
  unfolding ascii_upper_def Let_def
  by (cases b0; cases b1; cases b2; cases b3; cases b4; cases b5; cases b6; cases b7)
    (simp_all add: char_of_def of_char_def bit_iff_odd)

definition toLowerCase :: "string \<Rightarrow> string" where "toLowerCase = map ascii_lower"
definition toUpperCase :: "string \<Rightarrow> string" where "toUpperCase = map ascii_upper"

definition is_digit :: "char \<Rightarrow> bool" where
  "is_digit c \<longleftrightarrow> c \<in> set ''0123456789''"

definition digit_char :: "nat \<Rightarrow> char" where
  "digit_char n = ''0123456789'' ! n"

definition digit_val :: "char \<Rightarrow> nat" where
  "digit_val c = (of_char c :: nat) - 48"

text \<open>Hexadecimal digits.\<close>

definition hex_char :: "nat \<Rightarrow> char" where
  "hex_char n = ''0123456789ABCDEF'' ! n"

definition hex_val :: "char \<Rightarrow> nat option" where
  "hex_val c = (let n = of_char c :: nat in
     if 48 \<le> n \<and> n \<le> 57 then Some (n - 48) else if 65 \<le> n \<and> n \<le> 70 then Some (n - 55)
     else if 97 \<le> n \<and> n \<le> 102 then Some (n - 87) else None)"

lemma hex_cases: "n < 16 \<Longrightarrow> n \<in> {0, 1, 2, 3, 4, 5, 6, 7, 8, 9, 10, 11, 12, 13, 14, 15}" for n :: nat
  by (simp, presburger)

lemma hex_val_hex_char [simp]: "n < 16 \<Longrightarrow> hex_val (hex_char n) = Some n"
  by (drule hex_cases) (auto simp: hex_char_def hex_val_def Let_def)

lemma of_char_lt [simp]: "of_char c < (256 :: nat)"
  by (metis mod_less_divisor of_char_mod_256 zero_less_numeral)

text \<open>Decimal notation of a natural number and of a Number (\<open>'' + n\<close>).\<close>

fun nat_str :: "nat \<Rightarrow> string" where
  "nat_str n = (if n < 10 then [digit_char n] else nat_str (n div 10) @ [digit_char (n mod 10)])"

declare nat_str.simps [simp del]

definition int_str :: "int \<Rightarrow> string" where
  "int_str i = (if i < 0 then ''-'' @ nat_str (nat (- i)) else nat_str (nat i))"

definition num_str :: "num \<Rightarrow> string" where
  "num_str x = (case x of None \<Rightarrow> ''NaN'' | Some i \<Rightarrow> int_str i)"

text \<open>The value of a string of digits (\<open>+s\<close> for \<open>s\<close> matching \<open>\d*\<close>; the empty string is 0).\<close>

definition digits_val :: "string \<Rightarrow> nat" where
  "digits_val s = foldl (\<lambda>n c. 10 * n + digit_val c) 0 s"

definition starts_with :: "string \<Rightarrow> string \<Rightarrow> bool" where
  "starts_with p s \<longleftrightarrow> take (length p) s = p"

text \<open>\<open>s.indexOf(p)\<close>, with \<open>None\<close> for \<open>-1\<close>.\<close>

fun index_of :: "string \<Rightarrow> string \<Rightarrow> nat option" where
  "index_of p [] = (if p = [] then Some 0 else None)"
| "index_of p (c # s) =
     (if starts_with p (c # s) then Some 0 else map_option Suc (index_of p s))"

text \<open>\<open>s.replace(p, r)\<close> for a string pattern: the first occurrence only.\<close>

definition replace_first :: "string \<Rightarrow> string \<Rightarrow> string \<Rightarrow> string" where
  "replace_first p r s =
     (case index_of p s of None \<Rightarrow> s
      | Some i \<Rightarrow> take i s @ r @ drop (i + length p) s)"

text \<open>\<open>s.replace(/p/i, r)\<close> for a pattern of plain characters.\<close>

definition replace_first_i :: "string \<Rightarrow> string \<Rightarrow> string \<Rightarrow> string" where
  "replace_first_i p r s =
     (case index_of (toLowerCase p) (toLowerCase s) of None \<Rightarrow> s
      | Some i \<Rightarrow> take i s @ r @ drop (i + length p) s)"

text \<open>\<open>s.split(c)\<close> for a one-character separator, and \<open>xs.join(c)\<close>.\<close>

fun split_char :: "char \<Rightarrow> string \<Rightarrow> string list" where
  "split_char d [] = [[]]"
| "split_char d (c # s) =
     (if c = d then [] # split_char d s
      else (case split_char d s of [] \<Rightarrow> [[c]] | x # xs \<Rightarrow> (c # x) # xs))"

fun join_char :: "char \<Rightarrow> string list \<Rightarrow> string" where
  "join_char d [] = []"
| "join_char d [x] = x"
| "join_char d (x # xs) = x @ d # join_char d xs"

lemma split_char_nonempty [simp]: "split_char d s \<noteq> []"
  by (cases s) (auto split: list.splits)

lemma join_split: "join_char d (split_char d s) = s"
proof (induction s)
  case (Cons c s)
  obtain x xs where "split_char d s = x # xs"
    by (meson list.exhaust split_char_nonempty)
  with Cons show ?case by (cases xs) auto
qed simp

lemma digit_cases: "n < 10 \<Longrightarrow> n \<in> {0, 1, 2, 3, 4, 5, 6, 7, 8, 9}" for n :: nat
  by auto

lemma digit_char_of: "n < 10 \<Longrightarrow> (of_char (digit_char n) :: nat) = 48 + n"
  by (drule digit_cases) (auto simp: digit_char_def)

lemma is_digit_digit_char [simp]: "n < 10 \<Longrightarrow> is_digit (digit_char n)"
  by (drule digit_cases) (auto simp: digit_char_def is_digit_def)

lemma digit_val_digit_char [simp]: "n < 10 \<Longrightarrow> digit_val (digit_char n) = n"
  by (simp add: digit_val_def digit_char_of)

lemma digits_val_Nil [simp]: "digits_val [] = 0"
  by (simp add: digits_val_def)

lemma digits_val_snoc [simp]: "digits_val (s @ [c]) = 10 * digits_val s + digit_val c"
  by (simp add: digits_val_def)

lemma foldl_digits: "foldl (\<lambda>n c. 10 * n + digit_val c) k s = k * 10 ^ length s + digits_val s"
proof (induction s rule: rev_induct)
  case (snoc c s)
  then show ?case by (simp add: algebra_simps)
qed simp

lemma digits_val_append: "digits_val (s @ t) = digits_val s * 10 ^ length t + digits_val t"
proof -
  have "digits_val (s @ t) = foldl (\<lambda>n c. 10 * n + digit_val c) (digits_val s) t"
    by (simp add: digits_val_def)
  then show ?thesis by (simp only: foldl_digits)
qed

lemma digits_val_zeros [simp]: "digits_val (replicate k (CHR ''0'') @ s) = digits_val s"
  by (induction k) (simp_all add: digits_val_def digit_val_def)

lemma nat_str_nonempty [simp]: "nat_str n \<noteq> []"
  by (subst nat_str.simps) simp

lemma nat_str_digits: "list_all is_digit (nat_str n)"
proof (induction n rule: nat_str.induct)
  case (1 n)
  then show ?case by (subst nat_str.simps) auto
qed

lemma digits_val_nat_str [simp]: "digits_val (nat_str n) = n"
proof (induction n rule: nat_str.induct)
  case (1 n)
  show ?case
  proof (cases "n < 10")
    case True
    then show ?thesis by (simp add: nat_str.simps digits_val_def)
  next
    case False
    with 1 show ?thesis by (simp add: nat_str.simps [of n])
  qed
qed

lemma length_nat_str_le: "n < 10 ^ k \<Longrightarrow> 0 < k \<Longrightarrow> length (nat_str n) \<le> k"
proof (induction n arbitrary: k rule: nat_str.induct)
  case (1 n)
  show ?case
  proof (cases "n < 10")
    case True
    with 1 show ?thesis by (simp add: nat_str.simps)
  next
    case False
    with \<open>n < 10 ^ k\<close> obtain j where j: "k = Suc j" "0 < j"
      by (cases k; cases "k = 1") (auto simp: Suc_lessI neq0_conv)
    with False 1 have "length (nat_str (n div 10)) \<le> j"
      by (intro "1.IH") auto
    with False j show ?thesis by (simp add: nat_str.simps [of n])
  qed
qed

end
