(* ===== verification/Js_Date.thy ===== *)
theory Js_Date
  imports Js_Prelude
begin

text \<open>
  The \<open>Date\<close> object of the language (ECMAScript 5.1, section 15.9), as far as the scripts use it.

  A time value is a Number of milliseconds since 1970 (\<open>NaN\<close> for an invalid date). A clock says how
  an instant is read off: \<open>UTC\<close> for the \<open>getUTC.../setUTC...\<close> methods, \<open>Local z\<close> for the local ones in
  the host's zone \<open>z\<close>. A clock maps an instant to a wall time and back; the calendar fields are
  functions of the wall time. A local wall time can be missing (a clock put forward), so
  \<open>to_wall c (of_wall c w) = w\<close> is the law of the locale \<open>gapless_clock\<close>, which holds of \<open>UTC\<close> and of
  every fixed offset. \<open>TimeClip\<close> turns a time value outside \<open>\<plusminus> 8.64e15\<close> into \<open>NaN\<close>.
\<close>

section \<open>Days, years and months\<close>

abbreviation msPerDay :: int where "msPerDay \<equiv> 86400000"

definition Day :: "int \<Rightarrow> int" where "Day w = w div msPerDay"
definition TimeWithinDay :: "int \<Rightarrow> int" where "TimeWithinDay w = w mod msPerDay"

definition InLeapYear :: "int \<Rightarrow> bool" where
  "InLeapYear y \<longleftrightarrow> y mod 4 = 0 \<and> y mod 100 \<noteq> 0 \<or> y mod 400 = 0"

definition DaysInYear :: "int \<Rightarrow> int" where
  "DaysInYear y = (if InLeapYear y then 366 else 365)"

definition DayFromYear :: "int \<Rightarrow> int" where
  "DayFromYear y =
     365 * (y - 1970) + (y - 1969) div 4 - (y - 1901) div 100 + (y - 1601) div 400"

text \<open>The greatest year that starts at or before day \<open>d\<close>: a linear estimate is off by one at most.\<close>

definition YearFromDay :: "int \<Rightarrow> int" where
  "YearFromDay d =
     (let y = (400 * d) div 146097 + 1970
      in if DayFromYear (y + 1) \<le> d then y + 1 else if DayFromYear y \<le> d then y else y - 1)"

definition month_start :: "bool \<Rightarrow> int \<Rightarrow> int" where
  "month_start leap m =
     [0, 31, 59, 90, 120, 151, 181, 212, 243, 273, 304, 334] ! nat m + (if leap \<and> 2 \<le> m then 1 else 0)"

definition month_length :: "bool \<Rightarrow> int \<Rightarrow> int" where
  "month_length leap m =
     (if m = 1 then (if leap then 29 else 28) else if m = 3 \<or> m = 5 \<or> m = 8 \<or> m = 10 then 30 else 31)"

definition month_of_yday :: "bool \<Rightarrow> int \<Rightarrow> int" where
  "month_of_yday leap n =
     (let l = (if leap then 1 else 0) in
      if n < 31 then 0 else if n < 59 + l then 1 else if n < 90 + l then 2
      else if n < 120 + l then 3 else if n < 151 + l then 4 else if n < 181 + l then 5
      else if n < 212 + l then 6 else if n < 243 + l then 7 else if n < 273 + l then 8
      else if n < 304 + l then 9 else if n < 334 + l then 10 else 11)"

definition YearDay :: "int \<Rightarrow> int" where
  "YearDay d = d - DayFromYear (YearFromDay d)"

definition MonthFromDay :: "int \<Rightarrow> int" where
  "MonthFromDay d = month_of_yday (InLeapYear (YearFromDay d)) (YearDay d)"

definition DateFromDay :: "int \<Rightarrow> int" where
  "DateFromDay d = YearDay d - month_start (InLeapYear (YearFromDay d)) (MonthFromDay d) + 1"

definition MakeDay :: "int \<Rightarrow> int \<Rightarrow> int \<Rightarrow> int" where
  "MakeDay y m d =
     (let ym = y + m div 12; mn = m mod 12
      in DayFromYear ym + month_start (InLeapYear ym) mn + d - 1)"

definition MakeTime :: "int \<Rightarrow> int \<Rightarrow> int \<Rightarrow> int \<Rightarrow> int" where
  "MakeTime h m s ms = h * 3600000 + m * 60000 + s * 1000 + ms"

definition MakeDate :: "int \<Rightarrow> int \<Rightarrow> int" where
  "MakeDate day time = day * msPerDay + time"

definition TimeClip :: "int \<Rightarrow> num" where
  "TimeClip t = (if \<bar>t\<bar> \<le> 8640000000000000 then Some t else None)"

section \<open>Fields of a wall time\<close>

datatype dfield = FullYear | Month | Date | Hours | Minutes | Seconds | Milliseconds

fun get_field :: "dfield \<Rightarrow> int \<Rightarrow> int" where
  "get_field FullYear w = YearFromDay (Day w)"
| "get_field Month w = MonthFromDay (Day w)"
| "get_field Date w = DateFromDay (Day w)"
| "get_field Hours w = (w div 3600000) mod 24"
| "get_field Minutes w = (w div 60000) mod 60"
| "get_field Seconds w = (w div 1000) mod 60"
| "get_field Milliseconds w = w mod 1000"

abbreviation year_of :: "int \<Rightarrow> int" where "year_of w \<equiv> get_field FullYear w"
abbreviation month_of :: "int \<Rightarrow> int" where "month_of w \<equiv> get_field Month w"
abbreviation date_of :: "int \<Rightarrow> int" where "date_of w \<equiv> get_field Date w"
abbreviation hours_of :: "int \<Rightarrow> int" where "hours_of w \<equiv> get_field Hours w"
abbreviation minutes_of :: "int \<Rightarrow> int" where "minutes_of w \<equiv> get_field Minutes w"
abbreviation seconds_of :: "int \<Rightarrow> int" where "seconds_of w \<equiv> get_field Seconds w"
abbreviation ms_of :: "int \<Rightarrow> int" where "ms_of w \<equiv> get_field Milliseconds w"

definition WeekDay :: "int \<Rightarrow> int" where
  "WeekDay w = (Day w + 4) mod 7"

text \<open>The one-argument setters, on a wall time.\<close>

fun set_field :: "dfield \<Rightarrow> int \<Rightarrow> int \<Rightarrow> int" where
  "set_field FullYear v w = MakeDate (MakeDay v (month_of w) (date_of w)) (TimeWithinDay w)"
| "set_field Month v w = MakeDate (MakeDay (year_of w) v (date_of w)) (TimeWithinDay w)"
| "set_field Date v w = MakeDate (MakeDay (year_of w) (month_of w) v) (TimeWithinDay w)"
| "set_field Hours v w =
     MakeDate (Day w) (MakeTime v (minutes_of w) (seconds_of w) (ms_of w))"
| "set_field Minutes v w =
     MakeDate (Day w) (MakeTime (hours_of w) v (seconds_of w) (ms_of w))"
| "set_field Seconds v w =
     MakeDate (Day w) (MakeTime (hours_of w) (minutes_of w) v (ms_of w))"
| "set_field Milliseconds v w =
     MakeDate (Day w) (MakeTime (hours_of w) (minutes_of w) (seconds_of w) v)"

text \<open>\<open>setMonth(m, d)\<close> with both arguments.\<close>

definition set_month_date :: "int \<Rightarrow> int \<Rightarrow> int \<Rightarrow> int" where
  "set_month_date m d w = MakeDate (MakeDay (year_of w) m d) (TimeWithinDay w)"

section \<open>Clocks\<close>

text \<open>
  A zone gives its offset from UTC in minutes, east positive: \<open>z_utc\<close> at an instant, \<open>z_loc\<close> the offset
  the host uses to turn a wall time into an instant.
\<close>

record zone =
  z_utc :: "int \<Rightarrow> int"
  z_loc :: "int \<Rightarrow> int"

datatype clock = UTC | Local zone

fun to_wall :: "clock \<Rightarrow> int \<Rightarrow> int" where
  "to_wall UTC t = t"
| "to_wall (Local z) t = t + 60000 * z_utc z t"

fun of_wall :: "clock \<Rightarrow> int \<Rightarrow> int" where
  "of_wall UTC w = w"
| "of_wall (Local z) w = w - 60000 * z_loc z w"

definition fixed_zone :: "int \<Rightarrow> zone" where
  "fixed_zone k = \<lparr>z_utc = (\<lambda>_. k), z_loc = (\<lambda>_. k)\<rparr>"

definition getTimezoneOffset :: "zone \<Rightarrow> num \<Rightarrow> num" where
  "getTimezoneOffset z t = nmap (\<lambda>i. - z_utc z i) t"

section \<open>Methods of a Date object\<close>

definition date_get :: "clock \<Rightarrow> dfield \<Rightarrow> num \<Rightarrow> num" where
  "date_get c f t = nmap (\<lambda>i. get_field f (to_wall c i)) t"

definition date_get_day :: "clock \<Rightarrow> num \<Rightarrow> num" where
  "date_get_day c t = nmap (\<lambda>i. WeekDay (to_wall c i)) t"

text \<open>A setter clips its result; only \<open>setFullYear\<close> revives an invalid date (from wall time 0).\<close>

definition clip_wall :: "clock \<Rightarrow> int \<Rightarrow> num" where
  "clip_wall c w = TimeClip (of_wall c w)"

definition date_set :: "clock \<Rightarrow> dfield \<Rightarrow> num \<Rightarrow> num \<Rightarrow> num" where
  "date_set c f v t =
     (case v of None \<Rightarrow> None
      | Some x \<Rightarrow>
         (case t of
            None \<Rightarrow> if f = FullYear then clip_wall c (set_field f x 0) else None
          | Some i \<Rightarrow> clip_wall c (set_field f x (to_wall c i))))"

definition date_set_month :: "clock \<Rightarrow> num \<Rightarrow> num \<Rightarrow> num \<Rightarrow> num" where
  "date_set_month c m d t =
     (case (m, d, t) of
        (Some m', Some d', Some i) \<Rightarrow> clip_wall c (set_month_date m' d' (to_wall c i))
      | _ \<Rightarrow> None)"

definition date_set_time :: "num \<Rightarrow> num" where
  "date_set_time t = Option.bind t TimeClip"

text \<open>
  \<open>new Date(y, m, d, h, M, s, ms)\<close> and \<open>Date.UTC(y, m, d, h, M, s, ms)\<close>: a year from 0 to 99 means a
  year of the twentieth century.
\<close>

definition full_year :: "int \<Rightarrow> int" where
  "full_year y = (if 0 \<le> y \<and> y \<le> 99 then 1900 + y else y)"

definition date_of_fields ::
    "clock \<Rightarrow> int \<Rightarrow> int \<Rightarrow> int \<Rightarrow> int \<Rightarrow> int \<Rightarrow> int \<Rightarrow> int \<Rightarrow> num" where
  "date_of_fields c y m d h mi s ms =
     clip_wall c (MakeDate (MakeDay (full_year y) m d) (MakeTime h mi s ms))"

section \<open>Calendar lemmas\<close>

lemma div_plus_one: "0 < k \<Longrightarrow> (a + 1) div k = a div k + (if (a + 1) mod k = 0 then 1 else 0)"
  for a k :: int
proof -
  assume k: "0 < k"
  let ?q = "(a + 1) div k" and ?r = "(a + 1) mod k"
  have a: "a = k * ?q + (?r - 1)" using mult_div_mod_eq [of k "a + 1"] by linarith
  have r: "0 \<le> ?r" "?r < k" using k by simp_all
  show ?thesis
  proof (cases "?r = 0")
    case True
    then have "a = k * (?q - 1) + (k - 1)" using a by (simp add: algebra_simps)
    then have "a div k = ?q - 1" using k by (intro int_div_pos_eq [where r = "k - 1"]) simp_all
    with True show ?thesis by simp
  next
    case False
    with r have r': "0 \<le> ?r - 1" "?r - 1 < k" by linarith+
    have "a div k = ?q" by (rule int_div_pos_eq [OF a r'])
    with False show ?thesis by simp
  qed
qed

lemma DayFromYear_Suc: "DayFromYear (y + 1) = DayFromYear y + DaysInYear y"
proof -
  have 4: "(y - 1968) div 4 = (y - 1969) div 4 + (if y mod 4 = 0 then 1 else 0)"
    using div_plus_one [of 4 "y - 1969"] mod_mult_self1 [of y "-492" 4] by simp
  have 100: "(y - 1900) div 100 = (y - 1901) div 100 + (if y mod 100 = 0 then 1 else 0)"
    using div_plus_one [of 100 "y - 1901"] mod_mult_self1 [of y "-19" 100] by simp
  have 400: "(y - 1600) div 400 = (y - 1601) div 400 + (if y mod 400 = 0 then 1 else 0)"
    using div_plus_one [of 400 "y - 1601"] mod_mult_self1 [of y "-4" 400] by simp
  have "y mod 400 = 0 \<Longrightarrow> y mod 100 = 0" "y mod 100 = 0 \<Longrightarrow> y mod 4 = 0"
    using mod_mod_cancel [of 100 400 y] mod_mod_cancel [of 4 100 y] by simp_all
  then show ?thesis
    by (simp add: DayFromYear_def DaysInYear_def InLeapYear_def 4 100 400)
qed

lemma DaysInYear_pos: "365 \<le> DaysInYear y" "DaysInYear y \<le> 366"
  by (simp_all add: DaysInYear_def)

lemma DayFromYear_add: "DayFromYear y + 365 * int n \<le> DayFromYear (y + int n)"
proof (induction n)
  case (Suc n)
  have "DayFromYear (y + int (Suc n)) = DayFromYear (y + int n) + DaysInYear (y + int n)"
    using DayFromYear_Suc [of "y + int n"] by (simp add: algebra_simps)
  with Suc DaysInYear_pos(1) [of "y + int n"] show ?case by simp
qed simp

lemma DayFromYear_mono: "x \<le> y \<Longrightarrow> DayFromYear x + 365 * (y - x) \<le> DayFromYear y"
  using DayFromYear_add [of x "nat (y - x)"] by simp

lemma DayFromYear_bounds:
  "146097 * y - 287811596 \<le> 400 * DayFromYear y"
  "400 * DayFromYear y \<le> 146097 * y - 287810501"
proof -
  define a b c where "a = (y - 1969) div 4" "b = (y - 1901) div 100" "c = (y - 1601) div 400"
  have "4 * a \<le> y - 1969" "y - 1969 < 4 * a + 4"
    "100 * b \<le> y - 1901" "y - 1901 < 100 * b + 100"
    "400 * c \<le> y - 1601" "y - 1601 < 400 * c + 400"
    unfolding a_b_c_def by linarith+
  moreover have "400 * DayFromYear y = 146000 * y - 287620000 + 400 * a - 400 * b + 400 * c"
    by (simp add: DayFromYear_def a_b_c_def)
  ultimately show "146097 * y - 287811596 \<le> 400 * DayFromYear y"
    "400 * DayFromYear y \<le> 146097 * y - 287810501"
    by linarith+
qed

lemma YearFromDay_lower: "DayFromYear (YearFromDay d) \<le> d"
  and YearFromDay_upper: "d < DayFromYear (YearFromDay d + 1)"
proof -
  define q where "q = (400 * d) div 146097"
  have q: "146097 * q \<le> 400 * d" "400 * d < 146097 * q + 146097"
    unfolding q_def by linarith+
  have lo: "DayFromYear (q + 1970 - 1) \<le> d"
    using DayFromYear_bounds(2) [of "q + 1970 - 1"] q by simp
  have hi: "d < DayFromYear (q + 1970 + 1 + 1)"
    using DayFromYear_bounds(1) [of "q + 1970 + 1 + 1"] q by simp
  show "DayFromYear (YearFromDay d) \<le> d" "d < DayFromYear (YearFromDay d + 1)"
    using lo hi by (auto simp: YearFromDay_def Let_def q_def [symmetric] add.commute)
qed

lemma YearFromDay_eq: "DayFromYear y \<le> d \<Longrightarrow> d < DayFromYear (y + 1) \<Longrightarrow> YearFromDay d = y"
proof (rule ccontr)
  assume y: "DayFromYear y \<le> d" "d < DayFromYear (y + 1)" and ne: "YearFromDay d \<noteq> y"
  show False
  proof (cases "YearFromDay d < y")
    case True
    then show ?thesis
      using DayFromYear_mono [of "YearFromDay d + 1" y] YearFromDay_upper [of d] y by simp
  next
    case False
    with ne show ?thesis
      using DayFromYear_mono [of "y + 1" "YearFromDay d"] YearFromDay_lower [of d] y by simp
  qed
qed

lemma YearFromDay_mono: "d \<le> e \<Longrightarrow> YearFromDay d \<le> YearFromDay e"
proof (rule ccontr)
  assume "d \<le> e" "\<not> YearFromDay d \<le> YearFromDay e"
  then show False
    using DayFromYear_mono [of "YearFromDay e + 1" "YearFromDay d"] YearFromDay_lower [of d]
      YearFromDay_upper [of e] by simp
qed

lemma YearDay_range: "0 \<le> YearDay d" "YearDay d < DaysInYear (YearFromDay d)"
  using YearFromDay_lower [of d] YearFromDay_upper [of d]
  by (simp_all add: YearDay_def DayFromYear_Suc)

lemma month_cases: "0 \<le> m \<Longrightarrow> m < 12 \<Longrightarrow> m \<in> {0, 1, 2, 3, 4, 5, 6, 7, 8, 9, 10, 11}" for m :: int
  by simp presburger

lemma month_length_range: "28 \<le> month_length leap m" "month_length leap m \<le> 31"
  by (auto simp: month_length_def)

lemma month_of_yday_range: "0 \<le> month_of_yday leap n" "month_of_yday leap n < 12"
  by (auto simp: month_of_yday_def Let_def)

lemma yday_month_cases:
  fixes l n :: int
  obtains (Jan) "n < 31" | (Feb) "31 \<le> n" "n < 59 + l" | (Mar) "59 + l \<le> n" "n < 90 + l"
  | (Apr) "90 + l \<le> n" "n < 120 + l" | (May) "120 + l \<le> n" "n < 151 + l"
  | (Jun) "151 + l \<le> n" "n < 181 + l" | (Jul) "181 + l \<le> n" "n < 212 + l"
  | (Aug) "212 + l \<le> n" "n < 243 + l" | (Sep) "243 + l \<le> n" "n < 273 + l"
  | (Oct) "273 + l \<le> n" "n < 304 + l" | (Nov) "304 + l \<le> n" "n < 334 + l"
  | (Dec) "334 + l \<le> n"
  by (meson not_le)

lemma month_of_yday_split:
  assumes "0 \<le> n" "n < (if leap then 366 else 365)"
  shows "month_start leap (month_of_yday leap n) \<le> n \<and>
    n < month_start leap (month_of_yday leap n) + month_length leap (month_of_yday leap n)"
proof (cases leap)
  case True
  with assms show ?thesis
    by (cases rule: yday_month_cases [where n = n and l = 1])
      (simp_all add: month_of_yday_def month_start_def month_length_def)
next
  case False
  with assms show ?thesis
    by (cases rule: yday_month_cases [where n = n and l = 0])
      (simp_all add: month_of_yday_def month_start_def month_length_def)
qed

lemma month_start_of_yday:
  assumes "0 \<le> m" "m < 12" "1 \<le> d" "d \<le> month_length leap m"
  shows "month_of_yday leap (month_start leap m + d - 1) = m"
    and "0 \<le> month_start leap m + d - 1"
    and "month_start leap m + d - 1 < (if leap then 366 else 365)"
proof -
  have "month_of_yday leap (month_start leap m + d - 1) = m \<and> 0 \<le> month_start leap m + d - 1 \<and>
      month_start leap m + d - 1 < (if leap then 366 else 365)"
    using month_cases [OF assms(1,2)] assms(3,4)
    unfolding month_of_yday_def month_start_def month_length_def Let_def insert_iff empty_iff
    by (elim disjE; cases leap; simp)
  then show "month_of_yday leap (month_start leap m + d - 1) = m"
    "0 \<le> month_start leap m + d - 1" "month_start leap m + d - 1 < (if leap then 366 else 365)"
    by blast+
qed

lemma MonthFromDay_range: "0 \<le> MonthFromDay d" "MonthFromDay d < 12"
  by (simp_all add: MonthFromDay_def month_of_yday_range)

lemma DateFromDay_range:
  "1 \<le> DateFromDay d" "DateFromDay d \<le> month_length (InLeapYear (YearFromDay d)) (MonthFromDay d)"
  using month_of_yday_split [of "YearDay d" "InLeapYear (YearFromDay d)"] YearDay_range [of d]
  by (auto simp: DateFromDay_def MonthFromDay_def DaysInYear_def)

text \<open>A day is the one that its own year, month and date make.\<close>

lemma MakeDay_fields [cal_simps]: "MakeDay (YearFromDay d) (MonthFromDay d) (DateFromDay d) = d"
  using MonthFromDay_range [of d]
  by (simp add: MakeDay_def DateFromDay_def YearDay_def div_pos_pos_trivial Let_def)

text \<open>A calendar date with a month and a day in range is read back as it was made.\<close>

definition valid_ymd :: "int \<Rightarrow> int \<Rightarrow> int \<Rightarrow> bool" where
  "valid_ymd y m d \<longleftrightarrow> 0 \<le> m \<and> m < 12 \<and> 1 \<le> d \<and> d \<le> month_length (InLeapYear y) m"

lemma MakeDay_eq: "0 \<le> m \<Longrightarrow> m < 12 \<Longrightarrow>
    MakeDay y m d = DayFromYear y + month_start (InLeapYear y) m + d - 1"
  by (simp add: MakeDay_def Let_def)

lemma fields_MakeDay [cal_simps]:
  assumes "valid_ymd y m d"
  shows "YearFromDay (MakeDay y m d) = y" "MonthFromDay (MakeDay y m d) = m"
    "DateFromDay (MakeDay y m d) = d"
proof -
  let ?l = "InLeapYear y"
  from assms have m: "0 \<le> m" "m < 12" and d: "1 \<le> d" "d \<le> month_length ?l m"
    by (auto simp: valid_ymd_def)
  have eq: "MakeDay y m d = DayFromYear y + (month_start ?l m + d - 1)"
    using m by (simp add: MakeDay_eq)
  show y: "YearFromDay (MakeDay y m d) = y"
    using month_start_of_yday(2,3) [OF m d]
    by (intro YearFromDay_eq) (simp_all add: eq DayFromYear_Suc DaysInYear_def)
  have yd: "YearDay (MakeDay y m d) = month_start ?l m + d - 1"
    by (simp add: YearDay_def y) (simp add: eq)
  show mo: "MonthFromDay (MakeDay y m d) = m"
    using month_start_of_yday(1) [OF m d] by (simp add: MonthFromDay_def y yd)
  show "DateFromDay (MakeDay y m d) = d"
    by (simp add: DateFromDay_def y mo yd)
qed

lemma valid_ymd_fields: "valid_ymd (YearFromDay d) (MonthFromDay d) (DateFromDay d)"
  using MonthFromDay_range [of d] DateFromDay_range [of d] by (simp add: valid_ymd_def)

lemma MakeDay_month_carry: "MakeDay y m d = MakeDay (y + m div 12) (m mod 12) d"
  by (simp add: MakeDay_def Let_def)

lemma MakeDay_add: "MakeDay y m (d + k) = MakeDay y m d + k"
  by (simp add: MakeDay_def Let_def)

lemma succ_div_mod:
  fixes v k :: int
  assumes "0 < k"
  shows "(v + 1) div k = v div k + (if v mod k = k - 1 then 1 else 0)"
    and "(v + 1) mod k = (if v mod k = k - 1 then 0 else v mod k + 1)"
proof -
  have v: "k * (v div k) + v mod k = v" and r: "0 \<le> v mod k" "v mod k < k"
    using assms by (simp_all add: mult_div_mod_eq)
  let ?q = "v div k + (if v mod k = k - 1 then 1 else 0)"
  let ?r = "if v mod k = k - 1 then 0 else v mod k + 1"
  have eq: "v + 1 = k * ?q + ?r"
  proof (cases "v mod k = k - 1")
    case True
    then have "k * ?q + ?r = k * (v div k) + k" by (simp add: algebra_simps)
    with v True show ?thesis by linarith
  next
    case False
    with v show ?thesis by simp
  qed
  have b: "0 \<le> ?r" "?r < k" using r assms by (auto; linarith)+
  show "(v + 1) div k = ?q" "(v + 1) mod k = ?r"
    by (rule int_div_pos_eq [OF eq b], rule int_mod_pos_eq [OF eq b])
qed

section \<open>Wall times and clocks\<close>

lemma wall_split: "w = Day w * msPerDay + TimeWithinDay w" "0 \<le> TimeWithinDay w"
    "TimeWithinDay w < msPerDay"
  by (simp_all add: Day_def TimeWithinDay_def div_mult_mod_eq)

lemma Day_MakeDate [cal_simps]: "0 \<le> s \<Longrightarrow> s < msPerDay \<Longrightarrow> Day (MakeDate d s) = d"
  by (simp add: Day_def MakeDate_def)

lemma TimeWithinDay_MakeDate [cal_simps]:
  "0 \<le> s \<Longrightarrow> s < msPerDay \<Longrightarrow> TimeWithinDay (MakeDate d s) = s"
  by (simp add: TimeWithinDay_def MakeDate_def)

lemma MakeDate_split [cal_simps]: "MakeDate (Day w) (TimeWithinDay w) = w"
  using wall_split(1) [of w] by (simp add: MakeDate_def)

lemma MakeTime_fields [cal_simps]:
  "MakeTime (hours_of w) (minutes_of w) (seconds_of w) (ms_of w) = TimeWithinDay w"
proof -
  have "w div 60000 = w div 1000 div 60" "w div 3600000 = w div 60000 div 60"
    "w div msPerDay = w div 3600000 div 24"
    by (simp_all add: zdiv_zmult2_eq [symmetric])
  moreover have "w = 1000 * (w div 1000) + w mod 1000"
    "w div 1000 = 60 * (w div 1000 div 60) + (w div 1000) mod 60"
    "w div 60000 = 60 * (w div 60000 div 60) + (w div 60000) mod 60"
    "w div 3600000 = 24 * (w div 3600000 div 24) + (w div 3600000) mod 24"
    by (simp_all add: mult_div_mod_eq)
  moreover have "w = msPerDay * (w div msPerDay) + w mod msPerDay"
    by (rule mult_div_mod_eq [symmetric])
  ultimately show ?thesis
    unfolding MakeTime_def TimeWithinDay_def get_field.simps by linarith
qed

lemma time_fields_range:
  "0 \<le> hours_of w" "hours_of w < 24" "0 \<le> minutes_of w" "minutes_of w < 60"
  "0 \<le> seconds_of w" "seconds_of w < 60" "0 \<le> ms_of w" "ms_of w < 1000"
  by simp_all

declare get_field.simps [simp del]
declare time_fields_range [simp]

lemma MakeTime_range:
  assumes "0 \<le> h" "h < 24" "0 \<le> m" "m < 60" "0 \<le> s" "s < 60" "0 \<le> ms" "ms < 1000"
  shows "0 \<le> MakeTime h m s ms" "MakeTime h m s ms < msPerDay"
  using assms by (simp_all add: MakeTime_def)

lemma time_fields_MakeTime:
  assumes "0 \<le> h" "h < 24" "0 \<le> m" "m < 60" "0 \<le> s" "s < 60" "0 \<le> ms" "ms < 1000"
  shows "hours_of (MakeDate d (MakeTime h m s ms)) = h"
    "minutes_of (MakeDate d (MakeTime h m s ms)) = m"
    "seconds_of (MakeDate d (MakeTime h m s ms)) = s"
    "ms_of (MakeDate d (MakeTime h m s ms)) = ms"
proof -
  let ?w = "MakeDate d (MakeTime h m s ms)"
  have w: "?w = 1000 * (60 * (60 * (24 * d + h) + m) + s) + ms"
    by (simp add: MakeDate_def MakeTime_def)
  have s1: "?w div 1000 = 60 * (60 * (24 * d + h) + m) + s"
    using assms w by (intro int_div_pos_eq [where r = ms]) simp_all
  have s0: "?w mod 1000 = ms"
    using assms w by (intro int_mod_pos_eq [where q = "60 * (60 * (24 * d + h) + m) + s"]) simp_all
  have s2: "?w div 60000 = 60 * (24 * d + h) + m"
    using assms s1 zdiv_zmult2_eq [of 60 ?w 1000] by simp
  have s3: "?w div 3600000 = 24 * d + h"
    using assms s2 zdiv_zmult2_eq [of 60 ?w 60000] by simp
  show "hours_of ?w = h" "ms_of ?w = ms"
    using assms by (simp_all add: get_field.simps s0 s3)
  show "minutes_of ?w = m" "seconds_of ?w = s"
    using assms mod_mult_self4 [of 60 "24 * d + h" m] mod_mult_self4 [of 60 "60 * (24 * d + h) + m" s]
    by (simp_all only: get_field.simps s1 s2) simp_all
qed

lemma date_fields_MakeDate [cal_simps]:
  assumes "0 \<le> s" "s < msPerDay" "valid_ymd y m d"
  shows "year_of (MakeDate (MakeDay y m d) s) = y" "month_of (MakeDate (MakeDay y m d) s) = m"
    "date_of (MakeDate (MakeDay y m d) s) = d"
  using assms by (simp_all add: get_field.simps cal_simps)

lemma valid_ymd_wall [simp]: "valid_ymd (year_of w) (month_of w) (date_of w)"
  by (simp add: get_field.simps valid_ymd_fields)

text \<open>The clip bound in calendar terms: every wall time of these years is in range.\<close>

definition year_ok :: "int \<Rightarrow> bool" where
  "year_ok y \<longleftrightarrow> -271000 \<le> y \<and> y \<le> 275000"

lemma year_ok_bound: "year_ok (year_of w) \<Longrightarrow> \<bar>w\<bar> \<le> 8640000000000000 - 100 * msPerDay"
proof -
  assume "year_ok (year_of w)"
  then have y: "-271000 \<le> YearFromDay (Day w)" "YearFromDay (Day w) \<le> 275000"
    by (simp_all add: year_ok_def get_field.simps)
  have "-39880098596 \<le> 400 * DayFromYear (YearFromDay (Day w))"
    using DayFromYear_bounds(1) [of "YearFromDay (Day w)"] y by simp
  moreover have "400 * DayFromYear (YearFromDay (Day w) + 1) \<le> 39889010596"
    using DayFromYear_bounds(2) [of "YearFromDay (Day w) + 1"] y by simp
  ultimately have "-99700247 \<le> Day w" "Day w < 99722527"
    using YearFromDay_lower [of "Day w"] YearFromDay_upper [of "Day w"] by linarith+
  then show ?thesis
    using wall_split [of w] by linarith
qed

lemma TimeClip_near: "\<bar>w\<bar> \<le> 8640000000000000 - 100 * msPerDay \<Longrightarrow> \<bar>k\<bar> \<le> 100 * msPerDay \<Longrightarrow>
    TimeClip (w + k) = Some (w + k)"
  by (simp add: TimeClip_def)

subsection \<open>The clock interface\<close>

text \<open>
  What the date arithmetic relies on: setting the clock to a wall time and reading it gives that wall
  time, and instant and wall time are never more than a day apart.
\<close>

locale gapless_clock =
  fixes c :: clock
  assumes wall_of: "to_wall c (of_wall c w) = w"
    and skew: "\<bar>of_wall c w - w\<bar> \<le> msPerDay"
    and skew_to: "\<bar>to_wall c t - t\<bar> \<le> msPerDay"
begin

lemma TimeClip_wall: "year_ok (year_of (to_wall c t)) \<Longrightarrow> TimeClip t = Some t"
  using year_ok_bound [of "to_wall c t"] skew_to [of t] by (simp add: TimeClip_def)

lemma clip_wall_Some: "year_ok (year_of w) \<Longrightarrow> clip_wall c w = Some (of_wall c w)"
  using year_ok_bound [of w] skew [of w] by (simp add: clip_wall_def TimeClip_def)

lemma get_after_set: "year_ok (year_of w) \<Longrightarrow> date_get c f (clip_wall c w) = Some (get_field f w)"
  by (simp add: clip_wall_Some date_get_def wall_of)

lemma day_after_set: "year_ok (year_of w) \<Longrightarrow> date_get_day c (clip_wall c w) = Some (WeekDay w)"
  by (simp add: clip_wall_Some date_get_day_def wall_of)

lemma set_after_set:
  "year_ok (year_of w) \<Longrightarrow> date_set c f (Some v) (clip_wall c w) = clip_wall c (set_field f v w)"
  by (simp add: clip_wall_Some date_set_def wall_of)

end

text \<open>A clock that no change of offset disturbs: it runs alike in instants and in wall time.\<close>

locale steady_clock = gapless_clock +
  assumes shift: "to_wall c (t + k) = to_wall c t + k"
begin

lemma of_wall_add: "to_wall c (of_wall c w + k) = w + k"
  by (simp add: shift wall_of)

lemma wall_diff: "to_wall c s - to_wall c t = s - t"
  using shift [of t "s - t"] by simp

end

interpretation utc: steady_clock UTC
  by unfold_locales simp_all

lemma steady_fixed_zone: "\<bar>k\<bar> \<le> 1440 \<Longrightarrow> steady_clock (Local (fixed_zone k))"
  by unfold_locales (simp_all add: fixed_zone_def)

end
