(* ===== verification/Moment_Core.thy ===== *)
theory Moment_Core
  imports Js_Date Complex_Main
begin

text \<open>
  \<open>moment-2.8.1.js\<close>: the data (locale, parsing flags, configuration object, moment), the helpers of
  the sections "Constants" and "Helpers", the raw getters and setters and the constructors of native
  dates.

  A \<open>config\<close> is the object the parser fills, a \<open>moment\<close> what the \<open>Moment\<close> constructor keeps of it:
  the fields that \<open>copyConfig\<close> names, and a copy of the date. Both are plain records; an operation
  that mutates its receiver returns the new record. The host (clock, zone, registered locales) is
  the record \<open>env\<close>.
\<close>

section \<open>Data\<close>

record locale_data =
  l_abbr :: string
  l_months :: "string list"
  l_monthsShort :: "string list"
  l_weekdays :: "string list"
  l_weekdaysShort :: "string list"
  l_weekdaysMin :: "string list"
  l_longDateFormat :: "(string \<times> string) list"
  l_calendar :: "(string \<times> string) list"
  l_relativeTime :: "(string \<times> string) list"
  l_ordinal :: "int \<Rightarrow> string"
  l_dow :: int
  l_doy :: int
  l_invalidDate :: string

text \<open>
  The host: its zone and clock, what \<open>new Date(s)\<close> makes of a string and what a date prints as (both
  left to the implementation by the language), and the state of the module: the registered locales
  and the current one.
\<close>

record env =
  e_zone :: zone
  e_now :: int
  e_date_parse :: "string \<Rightarrow> num"
  e_date_text :: "num \<Rightarrow> string"
  e_locales :: "(string \<times> locale_data) list"
  e_locale :: locale_data

record parsing_flags =
  pf_empty :: bool
  pf_unusedTokens :: "string list"
  pf_unusedInput :: "string list"
  pf_overflow :: int
  pf_charsLeftOver :: int
  pf_nullInput :: bool
  pf_invalidMonth :: "string option"
  pf_invalidFormat :: bool
  pf_userInvalidated :: bool
  pf_iso :: bool
  pf_overflowDayOfYear :: bool
  pf_invalidWeekday :: "string option"
  pf_score :: "int option"

definition defaultParsingFlags :: parsing_flags where
  "defaultParsingFlags =
     \<lparr>pf_empty = False, pf_unusedTokens = [], pf_unusedInput = [], pf_overflow = -2,
      pf_charsLeftOver = 0, pf_nullInput = False, pf_invalidMonth = None,
      pf_invalidFormat = False, pf_userInvalidated = False, pf_iso = False,
      pf_overflowDayOfYear = False, pf_invalidWeekday = None, pf_score = None\<rparr>"

text \<open>What a caller passes as \<open>input\<close> (a moment apart, which is cloned) and as \<open>format\<close>.\<close>

datatype input =
  IUndefined | INull | IString string | INumber num | IDate num
  | IArray "int option list" | IObject "(string \<times> int) list"

datatype format = FUndefined | FString string | FArray "string list" | FIso8601

record week_info =
  w_GG :: "int option"
  w_W :: "int option"
  w_E :: "int option"
  w_gg :: "int option"
  w_w :: "int option"
  w_d :: "int option"
  w_e :: "int option"

definition empty_week_info :: week_info where
  "empty_week_info =
     \<lparr>w_GG = None, w_W = None, w_E = None, w_gg = None, w_w = None, w_d = None, w_e = None\<rparr>"

text \<open>
  The configuration object: \<open>c_a\<close> is \<open>_a\<close> (\<open>None\<close> while it is not set; a missing element of the
  array is \<open>None\<close> too), \<open>c_d\<close> is \<open>_d\<close> (\<open>None\<close> while it is not set).
\<close>

record config =
  c_i :: input
  c_f :: "format"
  c_strict :: bool
  c_tzm :: "int option"
  c_isUTC :: bool
  c_useUTC :: bool
  c_pf :: parsing_flags
  c_locale :: locale_data
  c_a :: "int option list option"
  c_w :: "week_info option"
  c_dayOfYear :: "int option"
  c_isPm :: "bool option"
  c_d :: "num option"
  c_isValid :: "bool option"

text \<open>
  A moment; \<open>m_offset\<close> is \<open>_offset || 0\<close>. \<open>m_a\<close> is the field \<open>_a\<close> that \<open>isDSTShifted\<close> reads.
\<close>

record moment =
  m_i :: input
  m_f :: "format"
  m_strict :: bool
  m_tzm :: "int option"
  m_isUTC :: bool
  m_offset :: int
  m_pf :: parsing_flags
  m_locale :: locale_data
  m_d :: num
  m_isValid :: "bool option"
  m_a :: "int option list option"

section \<open>Helpers\<close>

fun dfl2 :: "'a option \<Rightarrow> 'a \<Rightarrow> 'a" where
  "dfl2 (Some a) b = a"
| "dfl2 None b = b"

fun dfl3 :: "'a option \<Rightarrow> 'a option \<Rightarrow> 'a \<Rightarrow> 'a" where
  "dfl3 (Some a) b c = a"
| "dfl3 None (Some b) c = b"
| "dfl3 None None c = c"

definition absRound :: "rat \<Rightarrow> int" where
  "absRound x = (if x < 0 then ceiling x else floor x)"

text \<open>\<open>leftZeroFill\<close>: the loop prepends \<open>'0'\<close> while the output is shorter than the target.\<close>

function zero_fill :: "string \<Rightarrow> nat \<Rightarrow> string" where
  "zero_fill output n = (if length output < n then zero_fill (CHR ''0'' # output) n else output)"
  by pat_completeness auto
termination by (relation "measure (\<lambda>(output, n). n - length output)") auto

declare zero_fill.simps [simp del]

definition leftZeroFill :: "num \<Rightarrow> nat \<Rightarrow> bool \<Rightarrow> string" where
  "leftZeroFill number targetLength forceSign =
     (let output = num_str (nmap abs number); sign = nle (Some 0) number
      in (if sign then (if forceSign then ''+'' else '''') else ''-'') @ zero_fill output targetLength)"

text \<open>\<open>compareArrays\<close> with \<open>dontConvert\<close>: the number of positions where the arrays differ.\<close>

fun count_diffs :: "'a list \<Rightarrow> 'a list \<Rightarrow> nat" where
  "count_diffs (x # xs) (y # ys) = (if x \<noteq> y then 1 else 0) + count_diffs xs ys"
| "count_diffs _ _ = 0"

definition compareArrays :: "'a list \<Rightarrow> 'a list \<Rightarrow> int" where
  "compareArrays xs ys = int (count_diffs xs ys) + \<bar>int (length xs) - int (length ys)\<bar>"

definition unitAliases :: "(string \<times> string) list" where
  "unitAliases =
     [(''ms'', ''millisecond''), (''s'', ''second''), (''m'', ''minute''), (''h'', ''hour''),
      (''d'', ''day''), (''D'', ''date''), (''w'', ''week''), (''W'', ''isoWeek''),
      (''M'', ''month''), (''Q'', ''quarter''), (''y'', ''year''), (''DDD'', ''dayOfYear''),
      (''e'', ''weekday''), (''E'', ''isoWeekday''), (''gg'', ''weekYear''),
      (''GG'', ''isoWeekYear'')]"

definition camelFunctions :: "(string \<times> string) list" where
  "camelFunctions =
     [(''dayofyear'', ''dayOfYear''), (''isoweekday'', ''isoWeekday''), (''isoweek'', ''isoWeek''),
      (''weekyear'', ''weekYear''), (''isoweekyear'', ''isoWeekYear'')]"

text \<open>The replacement of \<open>/(.)s$/\<close> by its group drops a final \<open>s\<close> that has a character before it.\<close>

definition strip_plural :: "string \<Rightarrow> string" where
  "strip_plural u =
     (if 2 \<le> length u \<and> last u = CHR ''s'' \<and> u ! (length u - 2) \<noteq> CHR 0x0A then butlast u else u)"

definition normalizeUnits :: "string \<Rightarrow> string" where
  "normalizeUnits units =
     (if units = '''' then units
      else (let lowered = strip_plural (toLowerCase units)
            in (case map_of unitAliases units of Some u \<Rightarrow> u
                | None \<Rightarrow> (case map_of camelFunctions lowered of Some u \<Rightarrow> u | None \<Rightarrow> lowered))))"

fun assoc_set :: "string \<Rightarrow> 'a \<Rightarrow> (string \<times> 'a) list \<Rightarrow> (string \<times> 'a) list" where
  "assoc_set k v [] = [(k, v)]"
| "assoc_set k v ((k', v') # xs) = (if k = k' then (k, v) # xs else (k', v') # assoc_set k v xs)"

fun normalizeObjectUnits_loop ::
    "(string \<times> int) list \<Rightarrow> (string \<times> int) list \<Rightarrow> (string \<times> int) list" where
  "normalizeObjectUnits_loop [] acc = acc"
| "normalizeObjectUnits_loop ((prop, v) # xs) acc =
     (let normalizedProp = normalizeUnits prop
      in normalizeObjectUnits_loop xs
           (if normalizedProp \<noteq> '''' then assoc_set normalizedProp v acc else acc))"

definition normalizeObjectUnits :: "(string \<times> int) list \<Rightarrow> (string \<times> int) list" where
  "normalizeObjectUnits obj = normalizeObjectUnits_loop obj []"

text \<open>\<open>+s\<close> for a string of decimal digits with an optional sign; other strings are \<open>NaN\<close>.\<close>

definition to_number :: "string \<Rightarrow> num" where
  "to_number s =
     (let (neg, ds) = (case s of c # cs \<Rightarrow> if c = CHR ''-'' then (True, cs)
                          else if c = CHR ''+'' then (False, cs) else (False, s) | [] \<Rightarrow> (False, s))
      in if list_all is_digit ds \<and> (ds \<noteq> [] \<or> s = [])
         then Some (if neg then - int (digits_val ds) else int (digits_val ds)) else None)"

text \<open>\<open>toInt\<close> of a string or \<open>undefined\<close>: \<open>NaN\<close> counts as 0, an integer is kept.\<close>

definition toInt :: "string option \<Rightarrow> int" where
  "toInt s = (case Option.bind s to_number of None \<Rightarrow> 0 | Some i \<Rightarrow> i)"

text \<open>\<open>toInt\<close> of a quotient of integers.\<close>

definition toInt_rat :: "rat \<Rightarrow> int" where
  "toInt_rat x = (if 0 \<le> x then floor x else ceiling x)"

section \<open>Native dates\<close>

definition daysInMonth :: "int \<Rightarrow> int \<Rightarrow> num" where
  "daysInMonth year month = date_get UTC Date (date_of_fields UTC year (month + 1) 0 0 0 0 0)"

definition isLeapYear :: "int \<Rightarrow> bool" where
  "isLeapYear year \<longleftrightarrow>
     (js_mod year 4 = 0 \<and> js_mod year 100 \<noteq> 0) \<or> js_mod year 400 = 0"

definition daysInYear :: "int \<Rightarrow> int" where
  "daysInYear year = (if isLeapYear year then 366 else 365)"

text \<open>\<open>makeDate\<close> and \<open>makeUTCDate\<close>, on the clock of the native constructor.\<close>

definition makeClockDate ::
    "clock \<Rightarrow> int \<Rightarrow> int \<Rightarrow> int \<Rightarrow> int \<Rightarrow> int \<Rightarrow> int \<Rightarrow> int \<Rightarrow> num" where
  "makeClockDate c y m d h M s ms =
     (let date = date_of_fields c y m d h M s ms
      in if y < 1970 then date_set c FullYear (Some y) date else date)"

definition makeDate ::
    "env \<Rightarrow> int \<Rightarrow> int \<Rightarrow> int \<Rightarrow> int \<Rightarrow> int \<Rightarrow> int \<Rightarrow> int \<Rightarrow> num" where
  "makeDate e y m d h M s ms = makeClockDate (Local (e_zone e)) y m d h M s ms"

definition makeUTCDate :: "int \<Rightarrow> int \<Rightarrow> int \<Rightarrow> int \<Rightarrow> int \<Rightarrow> int \<Rightarrow> int \<Rightarrow> num" where
  "makeUTCDate y m d h M s ms = makeClockDate UTC y m d h M s ms"

section \<open>Overflow and validity\<close>

text \<open>
  The field that is out of range first: \<open>MONTH = 1\<close>, \<open>DATE = 2\<close>, \<dots>, \<open>MILLISECOND = 6\<close>, \<open>-1\<close> for none.
  An element that is missing compares false with everything.
\<close>

fun elem :: "int option list \<Rightarrow> nat \<Rightarrow> num" where
  "elem a i = (if i < length a then a ! i else None)"

definition overflow_of :: "int option list \<Rightarrow> int" where
  "overflow_of a =
     (if nlt (elem a 1) (Some 0) \<or> ngt (elem a 1) (Some 11) then 1
      else if nlt (elem a 2) (Some 1) \<or>
        ngt (elem a 2) (case (elem a 0, elem a 1) of
                (Some y, Some m) \<Rightarrow> daysInMonth y m | _ \<Rightarrow> None) then 2
      else if nlt (elem a 3) (Some 0) \<or> ngt (elem a 3) (Some 23) then 3
      else if nlt (elem a 4) (Some 0) \<or> ngt (elem a 4) (Some 59) then 4
      else if nlt (elem a 5) (Some 0) \<or> ngt (elem a 5) (Some 59) then 5
      else if nlt (elem a 6) (Some 0) \<or> ngt (elem a 6) (Some 999) then 6
      else -1)"

definition checkOverflow :: "config \<Rightarrow> config" where
  "checkOverflow m =
     (case c_a m of
        None \<Rightarrow> m
      | Some a \<Rightarrow>
          if pf_overflow (c_pf m) = -2
          then (let overflow = overflow_of a;
                    overflow = (if pf_overflowDayOfYear (c_pf m) \<and> (overflow < 0 \<or> overflow > 2)
                                then 2 else overflow)
                in m\<lparr>c_pf := (c_pf m)\<lparr>pf_overflow := overflow\<rparr>\<rparr>)
          else m)"

text \<open>A string field is truthy when it is set and not empty.\<close>

definition truthy_str :: "string option \<Rightarrow> bool" where
  "truthy_str s \<longleftrightarrow> (case s of None \<Rightarrow> False | Some t \<Rightarrow> t \<noteq> [])"

text \<open>The expression that \<open>isValid\<close> caches in \<open>_isValid\<close>.\<close>

definition valid_flags :: "num \<Rightarrow> parsing_flags \<Rightarrow> bool \<Rightarrow> bool" where
  "valid_flags d pf strict \<longleftrightarrow>
     (d \<noteq> None \<and> pf_overflow pf < 0 \<and> \<not> pf_empty pf \<and> \<not> truthy_str (pf_invalidMonth pf) \<and>
      \<not> pf_nullInput pf \<and> \<not> pf_invalidFormat pf \<and> \<not> pf_userInvalidated pf) \<and>
     (strict \<longrightarrow> pf_charsLeftOver pf = 0 \<and> pf_unusedTokens pf = [])"

definition config_date :: "config \<Rightarrow> num" where
  "config_date c = (case c_d c of None \<Rightarrow> None | Some t \<Rightarrow> t)"

definition isValid_config :: "config \<Rightarrow> bool \<times> config" where
  "isValid_config m =
     (case c_isValid m of
        Some v \<Rightarrow> (v, m)
      | None \<Rightarrow> (let v = valid_flags (config_date m) (c_pf m) (c_strict m)
                 in (v, m\<lparr>c_isValid := Some v\<rparr>)))"

definition isValid :: "moment \<Rightarrow> bool \<times> moment" where
  "isValid m =
     (case m_isValid m of
        Some v \<Rightarrow> (v, m)
      | None \<Rightarrow> (let v = valid_flags (m_d m) (m_pf m) (m_strict m)
                 in (v, m\<lparr>m_isValid := Some v\<rparr>)))"

section \<open>Constructors\<close>

text \<open>
  \<open>new Moment(config)\<close>: \<open>checkOverflow\<close>, then the fields of \<open>copyConfig\<close> and a copy of the date.
  Neither \<open>_a\<close> nor \<open>_isValid\<close> is copied.
\<close>

definition Moment :: "config \<Rightarrow> moment" where
  "Moment config =
     (let config = checkOverflow config
      in \<lparr>m_i = c_i config, m_f = c_f config, m_strict = c_strict config, m_tzm = c_tzm config,
          m_isUTC = c_isUTC config, m_offset = 0, m_pf = c_pf config, m_locale = c_locale config,
          m_d = Option.bind (config_date config) TimeClip, m_isValid = None, m_a = None\<rparr>)"

text \<open>\<open>new Moment(m, true)\<close> of a moment \<open>m\<close>, which is what \<open>moment(m)\<close> and \<open>m.clone()\<close> do.\<close>

definition clone :: "moment \<Rightarrow> moment" where
  "clone m = m\<lparr>m_d := Option.bind (m_d m) TimeClip, m_isValid := None, m_a := None\<rparr>"

section \<open>Raw getters and setters\<close>

definition clock_of :: "env \<Rightarrow> moment \<Rightarrow> clock" where
  "clock_of e m = (if m_isUTC m then UTC else Local (e_zone e))"

definition rawGetter :: "env \<Rightarrow> moment \<Rightarrow> dfield \<Rightarrow> num" where
  "rawGetter e m unit = date_get (clock_of e m) unit (m_d m)"

definition daysInMonth_num :: "num \<Rightarrow> num \<Rightarrow> num" where
  "daysInMonth_num y m = (case (y, m) of (Some y', Some m') \<Rightarrow> daysInMonth y' m' | _ \<Rightarrow> None)"

definition rawMonthSetter :: "env \<Rightarrow> moment \<Rightarrow> num \<Rightarrow> moment" where
  "rawMonthSetter e mom value =
     (let dayOfMonth = nmin (rawGetter e mom Date)
                         (daysInMonth_num (rawGetter e mom FullYear) value)
      in mom\<lparr>m_d := date_set_month (clock_of e mom) value dayOfMonth (m_d mom)\<rparr>)"

definition rawSetter :: "env \<Rightarrow> moment \<Rightarrow> dfield \<Rightarrow> num \<Rightarrow> moment" where
  "rawSetter e mom unit value =
     (if unit = Month then rawMonthSetter e mom value
      else mom\<lparr>m_d := date_set (clock_of e mom) unit value (m_d mom)\<rparr>)"

definition get_day :: "env \<Rightarrow> moment \<Rightarrow> num" where
  "get_day e m = date_get_day (clock_of e m) (m_d m)"

definition valueOf :: "moment \<Rightarrow> num" where
  "valueOf m = nadd (m_d m) (Some (m_offset m * 60000))"

definition toArray :: "env \<Rightarrow> moment \<Rightarrow> num list" where
  "toArray e m =
     map (rawGetter e m) [FullYear, Month, Date, Hours, Minutes, Seconds, Milliseconds]"

section \<open>Lemmas on the helpers\<close>

lemma isLeapYear_iff: "isLeapYear y \<longleftrightarrow> InLeapYear y"
  by (simp add: isLeapYear_def InLeapYear_def js_mod_eq_0_iff)

lemma daysInYear_eq: "daysInYear y = DaysInYear y"
  by (simp add: daysInYear_def DaysInYear_def isLeapYear_iff)

lemma zero_fill_eq: "zero_fill s n = replicate (n - length s) (CHR ''0'') @ s"
proof (induction s n rule: zero_fill.induct)
  case (1 s n)
  show ?case
  proof (cases "length s < n")
    case True
    with 1 have "zero_fill s n = replicate (n - Suc (length s)) (CHR ''0'') @ CHR ''0'' # s"
      by (simp add: zero_fill.simps [of s n])
    also have "\<dots> = replicate (Suc (n - Suc (length s))) (CHR ''0'') @ s"
      by (simp add: replicate_app_Cons_same)
    finally show ?thesis using True by (simp add: Suc_diff_Suc)
  next
    case False
    then show ?thesis by (simp add: zero_fill.simps [of s n])
  qed
qed

lemma leftZeroFill_nonneg:
  "0 \<le> i \<Longrightarrow> leftZeroFill (Some i) n False =
     replicate (n - length (nat_str (nat i))) (CHR ''0'') @ nat_str (nat i)"
  by (simp add: leftZeroFill_def num_str_def int_str_def nle_def zero_fill_eq Let_def)

lemma leftZeroFill_digits: "0 \<le> i \<Longrightarrow> list_all is_digit (leftZeroFill (Some i) n False)"
  using nat_str_digits [of "nat i"] is_digit_digit_char [of 0]
  by (auto simp: leftZeroFill_nonneg list_all_iff digit_char_def)

lemma leftZeroFill_val: "0 \<le> i \<Longrightarrow> digits_val (leftZeroFill (Some i) n False) = nat i"
  by (simp add: leftZeroFill_nonneg)

lemma leftZeroFill_length:
  "0 \<le> i \<Longrightarrow> nat i < 10 ^ n \<Longrightarrow> 0 < n \<Longrightarrow> length (leftZeroFill (Some i) n False) = n"
  using length_nat_str_le [of "nat i" n] by (simp add: leftZeroFill_nonneg)

lemma to_number_digits: "list_all is_digit s \<Longrightarrow> s \<noteq> [] \<Longrightarrow> to_number s = Some (int (digits_val s))"
  by (cases s) (auto simp: to_number_def is_digit_def)

lemma toInt_digits: "list_all is_digit s \<Longrightarrow> toInt (Some s) = int (digits_val s)"
  by (cases "s = []") (simp_all add: toInt_def to_number_digits, simp add: to_number_def)

lemma absRound_div: "0 < b \<Longrightarrow> absRound (of_int a / of_int b) = js_div a b"
proof -
  assume b: "0 < b"
  have "of_int a / of_int b < (0 :: rat) \<longleftrightarrow> a < 0"
    using b by (simp add: divide_less_0_iff)
  moreover have "ceiling (of_int a / of_int b :: rat) = - ((- a) div b)"
    using ceiling_divide_eq_div [of a b, where ?'a = rat] by simp
  ultimately show ?thesis
    using b by (simp add: absRound_def js_div_pos js_div_neg floor_divide_of_int_eq)
qed

lemma toInt_rat_div: "0 < b \<Longrightarrow> toInt_rat (of_int a / of_int b) = js_div a b"
proof -
  assume b: "0 < b"
  have "0 \<le> (of_int a / of_int b :: rat) \<longleftrightarrow> 0 \<le> a"
    using b by (simp add: zero_le_divide_iff)
  moreover have "ceiling (of_int a / of_int b :: rat) = - ((- a) div b)"
    using ceiling_divide_eq_div [of a b, where ?'a = rat] by simp
  ultimately show ?thesis
    using b by (simp add: toInt_rat_def js_div_pos js_div_neg floor_divide_of_int_eq)
qed

section \<open>Lemmas on native dates\<close>

lemma leap_century_shift: "1 \<le> y \<Longrightarrow> y \<le> 99 \<Longrightarrow> InLeapYear (1900 + y) = InLeapYear y"
proof -
  assume y: "1 \<le> y" "y \<le> 99"
  have "(1900 + y) mod 4 = y mod 4" "(1900 + y) mod 100 = y"
    using mod_mult_self4 [of 4 475 y] mod_mult_self4 [of 100 19 y] y by simp_all
  moreover have "y mod 100 = y" "y mod 400 = y" using y by simp_all
  moreover have "(1900 + y) mod 400 \<noteq> 0"
  proof
    assume "(1900 + y) mod 400 = 0"
    then have "(1900 + y) mod 400 mod 100 = 0" by simp
    with \<open>(1900 + y) mod 100 = y\<close> y show False by (simp add: mod_mod_cancel)
  qed
  ultimately show ?thesis using y by (simp add: InLeapYear_def)
qed

lemma month_length_full_year:
  "\<not> (y = 0 \<and> m = 1) \<Longrightarrow>
     month_length (InLeapYear (full_year y)) m = month_length (InLeapYear y) m"
  using leap_century_shift [of y] by (cases "y = 0") (auto simp: full_year_def month_length_def)

lemma year_ok_full_year: "year_ok y \<Longrightarrow> year_ok (full_year y)"
  by (simp add: year_ok_def full_year_def)

text \<open>The day before the first of a month is the last of the month before.\<close>

lemma MakeDay_zeroth: "MakeDay y (v + 1) 0 =
    MakeDay (y + v div 12) (v mod 12) (month_length (InLeapYear (y + v div 12)) (v mod 12))"
proof -
  let ?y = "y + v div 12" and ?m = "v mod 12"
  have m: "0 \<le> ?m" "?m < 12" by simp_all
  have v: "(v + 1) div 12 = v div 12 + (if ?m = 11 then 1 else 0)"
    "(v + 1) mod 12 = (if ?m = 11 then 0 else ?m + 1)"
    using succ_div_mod [of 12 v] by simp_all
  show ?thesis
  proof (cases "?m = 11")
    case True
    have "DayFromYear (y + (v div 12 + 1)) = DayFromYear ?y + DaysInYear ?y"
      using DayFromYear_Suc [of ?y] by (simp add: add.assoc)
    with True show ?thesis
      by (simp add: MakeDay_def v) (simp add: month_start_def month_length_def DaysInYear_def)
  next
    case False
    have "month_start l (?m + 1) = month_start l ?m + month_length l ?m" for l
      using month_cases [OF m] False
      by (auto simp: month_start_def month_length_def)
    with False show ?thesis by (simp add: MakeDay_def v Let_def)
  qed
qed

lemma date_get_UTC_MakeDate:
  assumes "valid_ymd y m d" "0 \<le> s" "s < msPerDay" "year_ok y"
  shows "date_get UTC f (clip_wall UTC (MakeDate (MakeDay y m d) s)) =
    Some (get_field f (MakeDate (MakeDay y m d) s))"
  using assms by (intro utc.get_after_set) (simp add: cal_simps)

lemma valid_ymd_last: "0 \<le> m \<Longrightarrow> m < 12 \<Longrightarrow> valid_ymd y m (month_length (InLeapYear y) m)"
  using month_length_range [of "InLeapYear y" m] by (simp add: valid_ymd_def)

lemma daysInMonth_carry:
  assumes "year_ok (full_year y + v div 12)"
  shows "daysInMonth y v = Some (month_length (InLeapYear (full_year y + v div 12)) (v mod 12))"
proof -
  let ?y = "full_year y + v div 12"
  have ok: "valid_ymd ?y (v mod 12) (month_length (InLeapYear ?y) (v mod 12))"
    by (rule valid_ymd_last) simp_all
  show ?thesis
    unfolding daysInMonth_def date_of_fields_def MakeDay_zeroth
    using date_get_UTC_MakeDate [OF ok, of 0 Date] assms ok
    by (simp add: MakeTime_def date_fields_MakeDate)
qed

lemma daysInMonth_eq:
  assumes "0 \<le> m" "m < 12" "year_ok y" "\<not> (y = 0 \<and> m = 1)"
  shows "daysInMonth y m = Some (month_length (InLeapYear y) m)"
  using daysInMonth_carry [of y m] assms
  by (simp add: year_ok_full_year month_length_full_year div_pos_pos_trivial)

text \<open>Building a date from its fields, on a clock without gaps.\<close>

definition valid_time :: "int \<Rightarrow> int \<Rightarrow> int \<Rightarrow> int \<Rightarrow> bool" where
  "valid_time h mi s ms \<longleftrightarrow>
     0 \<le> h \<and> h < 24 \<and> 0 \<le> mi \<and> mi < 60 \<and> 0 \<le> s \<and> s < 60 \<and> 0 \<le> ms \<and> ms < 1000"

lemma MakeTime_valid: "valid_time h mi s ms \<Longrightarrow> 0 \<le> MakeTime h mi s ms \<and> MakeTime h mi s ms < msPerDay"
  using MakeTime_range [of h mi s ms] by (simp add: valid_time_def)

lemma valid_time_fields: "valid_time (hours_of w) (minutes_of w) (seconds_of w) (ms_of w)"
  by (simp add: valid_time_def)

lemma valid_ymd_full_year:
  "valid_ymd y m d \<Longrightarrow> \<not> (y = 0 \<and> m = 1 \<and> d = 29) \<Longrightarrow> valid_ymd (full_year y) m d"
  using month_length_full_year [of y m]
  by (cases "y = 0 \<and> m = 1") (auto simp: valid_ymd_def full_year_def month_length_def InLeapYear_def)

context gapless_clock
begin

lemma makeClockDate_fields:
  assumes "valid_ymd y m d" "valid_time h mi s ms" "year_ok y" "\<not> (y = 0 \<and> m = 1 \<and> d = 29)"
  shows "makeClockDate c y m d h mi s ms =
    clip_wall c (MakeDate (MakeDay y m d) (MakeTime h mi s ms))"
proof -
  let ?t = "MakeTime h mi s ms"
  let ?w = "MakeDate (MakeDay (full_year y) m d) ?t"
  have t: "0 \<le> ?t" "?t < msPerDay" using MakeTime_valid [OF assms(2)] by simp_all
  have fy: "valid_ymd (full_year y) m d" using assms by (simp add: valid_ymd_full_year)
  have yo: "year_ok (year_of ?w)"
    using t fy assms(3) by (simp add: date_fields_MakeDate year_ok_full_year)
  have "date_set c FullYear (Some y) (clip_wall c ?w) = clip_wall c (set_field FullYear y ?w)"
    by (rule set_after_set [OF yo])
  also have "set_field FullYear y ?w = MakeDate (MakeDay y m d) ?t"
    using t fy by (simp add: date_fields_MakeDate cal_simps)
  finally show ?thesis
    by (simp add: makeClockDate_def date_of_fields_def Let_def full_year_def)
qed

end

end
