(* ===== verification/Moment_Duration.thy ===== *)
theory Moment_Duration
  imports Moment_Core
begin

text \<open>
  \<open>moment-2.8.1.js\<close>, section "Duration Prototype", with the \<open>Duration\<close> constructor, the part of
  \<open>moment.duration\<close> that takes a duration, a number or an object of units, and \<open>relativeTime\<close>.

  The three stored quantities and the bubbled fields are integers. The conversions \<open>as\<close> return
  fractions; they are exact rationals here, where the program has doubles.
\<close>

section \<open>Definitions\<close>

record duration_data =
  dd_milliseconds :: int
  dd_seconds :: int
  dd_minutes :: int
  dd_hours :: int
  dd_days :: int
  dd_months :: int
  dd_years :: int

record duration =
  du_milliseconds :: int
  du_days :: int
  du_months :: int
  du_data :: duration_data

definition daysToYears :: "rat \<Rightarrow> rat" where
  "daysToYears days = days * 400 / 146097"

definition yearsToDays :: "rat \<Rightarrow> rat" where
  "yearsToDays years = years * 146097 / 400"

definition bubble :: "int \<Rightarrow> int \<Rightarrow> int \<Rightarrow> duration_data" where
  "bubble milliseconds days months =
     (let seconds = absRound (of_int milliseconds / 1000);
          minutes = absRound (of_int seconds / 60);
          hours = absRound (of_int minutes / 60);
          days = days + absRound (of_int hours / 24);
          years = absRound (daysToYears (of_int days));
          days = days - absRound (yearsToDays (of_int years));
          months = months + absRound (of_int days / 30);
          days = js_mod days 30;
          years = years + absRound (of_int months / 12);
          months = js_mod months 12
      in \<lparr>dd_milliseconds = js_mod milliseconds 1000, dd_seconds = js_mod seconds 60,
          dd_minutes = js_mod minutes 60, dd_hours = js_mod hours 24, dd_days = days,
          dd_months = months, dd_years = years\<rparr>)"

definition mk_duration :: "int \<Rightarrow> int \<Rightarrow> int \<Rightarrow> duration" where
  "mk_duration ms days months =
     \<lparr>du_milliseconds = ms, du_days = days, du_months = months, du_data = bubble ms days months\<rparr>"

definition unit_or_0 :: "(string \<times> int) list \<Rightarrow> string \<Rightarrow> int" where
  "unit_or_0 obj u = (case map_of obj u of None \<Rightarrow> 0 | Some v \<Rightarrow> v)"

definition Duration :: "(string \<times> int) list \<Rightarrow> duration" where
  "Duration duration =
     (let normalizedInput = normalizeObjectUnits duration;
          years = unit_or_0 normalizedInput ''year'';
          quarters = unit_or_0 normalizedInput ''quarter'';
          months = unit_or_0 normalizedInput ''month'';
          weeks = unit_or_0 normalizedInput ''week'';
          days = unit_or_0 normalizedInput ''day'';
          hours = unit_or_0 normalizedInput ''hour'';
          minutes = unit_or_0 normalizedInput ''minute'';
          seconds = unit_or_0 normalizedInput ''second'';
          milliseconds = unit_or_0 normalizedInput ''millisecond''
      in mk_duration (milliseconds + seconds * 1000 + minutes * 60000 + hours * 3600000)
           (days + weeks * 7) (months + quarters * 3 + years * 12))"

datatype dur_input = DDuration duration | DNumber int string | DObject "(string \<times> int) list"

text \<open>\<open>moment.duration(input, key)\<close>; the key is the empty string when it is not given.\<close>

definition moment_duration :: "dur_input \<Rightarrow> duration" where
  "moment_duration input =
     Duration (case input of
         DDuration d \<Rightarrow> [(''ms'', du_milliseconds d), (''d'', du_days d), (''M'', du_months d)]
       | DNumber n key \<Rightarrow> [(if key \<noteq> '''' then key else ''milliseconds'', n)]
       | DObject obj \<Rightarrow> obj)"

definition dur_abs :: "duration \<Rightarrow> duration" where
  "dur_abs d =
     d\<lparr>du_milliseconds := \<bar>du_milliseconds d\<bar>, du_days := \<bar>du_days d\<bar>, du_months := \<bar>du_months d\<bar>,
       du_data := (du_data d)
         \<lparr>dd_milliseconds := \<bar>dd_milliseconds (du_data d)\<bar>, dd_seconds := \<bar>dd_seconds (du_data d)\<bar>,
          dd_minutes := \<bar>dd_minutes (du_data d)\<bar>, dd_hours := \<bar>dd_hours (du_data d)\<bar>,
          dd_months := \<bar>dd_months (du_data d)\<bar>, dd_years := \<bar>dd_years (du_data d)\<bar>\<rparr>\<rparr>"

definition dur_weeks :: "duration \<Rightarrow> int" where
  "dur_weeks d = absRound (of_int (dd_days (du_data d)) / 7)"

definition dur_valueOf :: "duration \<Rightarrow> int" where
  "dur_valueOf d =
     du_milliseconds d + du_days d * 86400000 + js_mod (du_months d) 12 * 2592000000 +
     toInt_rat (of_int (du_months d) / 12) * 31536000000"

definition dur_add :: "duration \<Rightarrow> dur_input \<Rightarrow> duration" where
  "dur_add d input =
     (let dur = moment_duration input
      in mk_duration (du_milliseconds d + du_milliseconds dur) (du_days d + du_days dur)
           (du_months d + du_months dur))"

definition dur_subtract :: "duration \<Rightarrow> dur_input \<Rightarrow> duration" where
  "dur_subtract d input =
     (let dur = moment_duration input
      in mk_duration (du_milliseconds d - du_milliseconds dur) (du_days d - du_days dur)
           (du_months d - du_months dur))"

text \<open>\<open>get(units)\<close> calls the getter named by the units and an \<open>s\<close>, for one of the fields; other names (\<open>None\<close>) are not modelled.\<close>

definition dur_get :: "duration \<Rightarrow> string \<Rightarrow> int option" where
  "dur_get d units =
     (let u = toLowerCase (normalizeUnits units) in
      if u = ''millisecond'' then Some (dd_milliseconds (du_data d))
      else if u = ''second'' then Some (dd_seconds (du_data d))
      else if u = ''minute'' then Some (dd_minutes (du_data d))
      else if u = ''hour'' then Some (dd_hours (du_data d))
      else if u = ''day'' then Some (dd_days (du_data d))
      else if u = ''week'' then Some (dur_weeks d)
      else if u = ''month'' then Some (dd_months (du_data d))
      else if u = ''year'' then Some (dd_years (du_data d))
      else None)"

definition dur_as :: "duration \<Rightarrow> string \<Rightarrow> rat result" where
  "dur_as d units =
     (let units = normalizeUnits units;
          days = of_int (du_days d) + of_int (du_milliseconds d) / 86400000
      in if units = ''month'' \<or> units = ''year''
         then (let months = of_int (du_months d) + daysToYears days * 12
               in Inr (if units = ''month'' then months else months / 12))
         else (let days = days + yearsToDays (of_int (du_months d) / 12)
               in if units = ''week'' then Inr (days / 7)
                  else if units = ''day'' then Inr days
                  else if units = ''hour'' then Inr (days * 24)
                  else if units = ''minute'' then Inr (days * 24 * 60)
                  else if units = ''second'' then Inr (days * 24 * 60 * 60)
                  else if units = ''millisecond'' then Inr (days * 24 * 60 * 60 * 1000)
                  else Inl (JsError (''Unknown unit '' @ units))))"

definition as_rat :: "duration \<Rightarrow> string \<Rightarrow> rat" where
  "as_rat d units = (case dur_as d units of Inr x \<Rightarrow> x | Inl _ \<Rightarrow> 0)"

section \<open>Relative time\<close>

record thresholds =
  th_s :: int
  th_m :: int
  th_h :: int
  th_d :: int
  th_M :: int

definition relativeTimeThresholds :: thresholds where
  "relativeTimeThresholds = \<lparr>th_s = 45, th_m = 45, th_h = 22, th_d = 26, th_M = 11\<rparr>"

text \<open>\<open>moment.relativeTimeThreshold(threshold, limit)\<close>: a missing limit only reads.\<close>

datatype threshold_result = ThFalse | ThValue int | ThTrue

definition relativeTimeThreshold ::
    "thresholds \<Rightarrow> string \<Rightarrow> int option \<Rightarrow> threshold_result \<times> thresholds" where
  "relativeTimeThreshold t threshold limit =
     (if threshold \<notin> {''s'', ''m'', ''h'', ''d'', ''M''} then (ThFalse, t)
      else case limit of
        None \<Rightarrow> (ThValue (if threshold = ''s'' then th_s t else if threshold = ''m'' then th_m t
                  else if threshold = ''h'' then th_h t else if threshold = ''d'' then th_d t
                  else th_M t), t)
      | Some l \<Rightarrow> (ThTrue, if threshold = ''s'' then t\<lparr>th_s := l\<rparr>
                  else if threshold = ''m'' then t\<lparr>th_m := l\<rparr>
                  else if threshold = ''h'' then t\<lparr>th_h := l\<rparr>
                  else if threshold = ''d'' then t\<lparr>th_d := l\<rparr> else t\<lparr>th_M := l\<rparr>))"

definition js_round :: "rat \<Rightarrow> int" where
  "js_round x = floor (x + 1 / 2)"

text \<open>The pair \<open>args[0], args[1]\<close>; a missing number is \<open>None\<close>.\<close>

definition relativeTime_args :: "thresholds \<Rightarrow> duration \<Rightarrow> string \<times> int option" where
  "relativeTime_args t posNegDuration =
     (let duration = dur_abs (moment_duration (DDuration posNegDuration));
          seconds = js_round (as_rat duration ''s'');
          minutes = js_round (as_rat duration ''m'');
          hours = js_round (as_rat duration ''h'');
          days = js_round (as_rat duration ''d'');
          months = js_round (as_rat duration ''M'');
          years = js_round (as_rat duration ''y'')
      in if seconds < th_s t then (''s'', Some seconds)
         else if minutes = 1 then (''m'', None)
         else if minutes < th_m t then (''mm'', Some minutes)
         else if hours = 1 then (''h'', None)
         else if hours < th_h t then (''hh'', Some hours)
         else if days = 1 then (''d'', None)
         else if days < th_d t then (''dd'', Some days)
         else if months = 1 then (''M'', None)
         else if months < th_M t then (''MM'', Some months)
         else if years = 1 then (''y'', None)
         else (''yy'', Some years))"

text \<open>\<open>locale.relativeTime\<close> with the string entries the locale has; an unknown entry throws.\<close>

definition locale_relativeTime :: "locale_data \<Rightarrow> int \<Rightarrow> string \<Rightarrow> string result" where
  "locale_relativeTime l number s =
     (case map_of (l_relativeTime l) s of
        None \<Rightarrow> Inl TypeError
      | Some output \<Rightarrow> Inr (replace_first_i ''%d'' (int_str number) output))"

definition substituteTimeAgo :: "string \<Rightarrow> int option \<Rightarrow> locale_data \<Rightarrow> string result" where
  "substituteTimeAgo s number l =
     locale_relativeTime l (case number of None \<Rightarrow> 1 | Some n \<Rightarrow> if n = 0 then 1 else n) s"

definition relativeTime :: "thresholds \<Rightarrow> duration \<Rightarrow> locale_data \<Rightarrow> string result" where
  "relativeTime t d l = (let args = relativeTime_args t d in substituteTimeAgo (fst args) (snd args) l)"

definition pastFuture :: "locale_data \<Rightarrow> int \<Rightarrow> string \<Rightarrow> string result" where
  "pastFuture l diff output =
     (case map_of (l_relativeTime l) (if diff > 0 then ''future'' else ''past'') of
        None \<Rightarrow> Inl TypeError
      | Some fmt \<Rightarrow> Inr (replace_first_i ''%s'' output fmt))"

definition humanize :: "thresholds \<Rightarrow> duration \<Rightarrow> locale_data \<Rightarrow> bool \<Rightarrow> string result" where
  "humanize t d l withSuffix =
     (case relativeTime t d l of
        Inl err \<Rightarrow> Inl err
      | Inr output \<Rightarrow> if withSuffix then pastFuture l (dur_valueOf d) output else Inr output)"

section \<open>Lemmas\<close>

lemma js_div_div: "0 < b \<Longrightarrow> 0 < c \<Longrightarrow> js_div (js_div a b) c = js_div a (b * c)"
  by (cases "0 \<le> a")
    (simp_all add: js_div_pos js_div_neg pos_imp_zdiv_nonneg_iff zdiv_zmult2_eq)

lemma absRound_numeral [simp]: "absRound (of_int a / numeral k) = js_div a (numeral k)"
  using absRound_div [of "numeral k" a] by simp

lemma absRound_years [simp]: "absRound (daysToYears (of_int d)) = js_div (400 * d) 146097"
  using absRound_numeral [of "400 * d"] by (simp add: daysToYears_def mult.commute)

lemma absRound_days [simp]: "absRound (yearsToDays (of_int y)) = js_div (146097 * y) 400"
  using absRound_numeral [of "146097 * y"] by (simp add: yearsToDays_def mult.commute)

lemma toInt_rat_numeral [simp]: "toInt_rat (of_int a / numeral k) = js_div a (numeral k)"
  using toInt_rat_div [of "numeral k" a] by simp

text \<open>The day count that \<open>bubble\<close> spreads over years, months and days.\<close>

definition bubble_days :: "int \<Rightarrow> int \<Rightarrow> int" where
  "bubble_days ms days = days + js_div ms 86400000"

definition bubble_years :: "int \<Rightarrow> int" where
  "bubble_years D = js_div (400 * D) 146097"

definition bubble_rest :: "int \<Rightarrow> int" where
  "bubble_rest D = D - js_div (146097 * bubble_years D) 400"

lemma bubble_fields:
  fixes ms days months
  defines "D \<equiv> bubble_days ms days"
  shows "dd_milliseconds (bubble ms days months) = js_mod ms 1000"
    "dd_seconds (bubble ms days months) = js_mod (js_div ms 1000) 60"
    "dd_minutes (bubble ms days months) = js_mod (js_div ms 60000) 60"
    "dd_hours (bubble ms days months) = js_mod (js_div ms 3600000) 24"
    "dd_days (bubble ms days months) = js_mod (bubble_rest D) 30"
    "dd_months (bubble ms days months) = js_mod (months + js_div (bubble_rest D) 30) 12"
    "dd_years (bubble ms days months) =
       bubble_years D + js_div (months + js_div (bubble_rest D) 30) 12"
  by (simp_all add: bubble_def js_div_div D_def bubble_days_def bubble_years_def bubble_rest_def Let_def)

lemma bubble_time: "dd_milliseconds (bubble ms days months) + 1000 * dd_seconds (bubble ms days months)
    + 60000 * dd_minutes (bubble ms days months) + 3600000 * dd_hours (bubble ms days months)
    = js_mod ms 86400000"
proof -
  have "js_div (js_div ms 1000) 60 = js_div ms 60000" "js_div (js_div ms 60000) 60 = js_div ms 3600000"
    "js_div (js_div ms 3600000) 24 = js_div ms 86400000"
    by (simp_all add: js_div_div)
  then show ?thesis
    using js_mod_div_eq [of 1000 ms] js_mod_div_eq [of 60 "js_div ms 1000"]
      js_mod_div_eq [of 60 "js_div ms 60000"] js_mod_div_eq [of 24 "js_div ms 3600000"]
      js_mod_div_eq [of 86400000 ms]
    by (simp add: bubble_fields)
qed

lemma bubble_rest_sign: "(0 \<le> D \<longrightarrow> 0 \<le> bubble_rest D) \<and> (D \<le> 0 \<longrightarrow> bubble_rest D \<le> 0)"
proof -
  have pos: "0 \<le> bubble_rest E" if "0 \<le> E" for E
  proof -
    define y where "y = (400 * E) div 146097"
    have "146097 * y \<le> 400 * E" unfolding y_def by linarith
    then have "(146097 * y) div 400 \<le> E" by linarith
    moreover have "0 \<le> y" using that by (simp add: y_def pos_imp_zdiv_nonneg_iff)
    ultimately show ?thesis
      using that by (simp add: bubble_rest_def bubble_years_def js_div_pos y_def [symmetric])
  qed
  have neg: "bubble_rest (- E) = - bubble_rest E" if "0 \<le> E" for E
  proof -
    have "bubble_years (- E) = - bubble_years E"
      using that by (simp add: bubble_years_def js_div_pos js_div_neg)
    moreover have "0 \<le> bubble_years E"
      using that js_div_sign [of 146097 "400 * E"] by (simp add: bubble_years_def)
    ultimately show ?thesis by (simp add: bubble_rest_def js_div_pos js_div_neg)
  qed
  show ?thesis using pos [of D] neg [of "- D"] pos [of "- D"] by auto
qed

lemma Duration_copy:
  "moment_duration (DDuration d) = mk_duration (du_milliseconds d) (du_days d) (du_months d)"
  by (simp add: moment_duration_def Duration_def normalizeObjectUnits_def normalizeUnits_def
      unitAliases_def unit_or_0_def Let_def)

lemma as_rat_units:
  fixes d :: duration
  defines "X \<equiv> as_rat d ''d''"
  shows "as_rat d ''s'' = X * 86400" "as_rat d ''m'' = X * 1440" "as_rat d ''h'' = X * 24"
    "as_rat d ''M'' = X * 4800 / 146097" "as_rat d ''y'' = X * 400 / 146097"
  by (simp_all add: X_def as_rat_def dur_as_def normalizeUnits_def unitAliases_def Let_def
      daysToYears_def yearsToDays_def field_simps)

lemma as_days_abs_nonneg: "0 \<le> as_rat (dur_abs d) ''d''"
  by (simp add: as_rat_def dur_as_def normalizeUnits_def unitAliases_def Let_def dur_abs_def
      yearsToDays_def)

lemma js_round_le: "js_round x < k \<longleftrightarrow> x < of_int k - 1 / 2"
  by (simp add: js_round_def floor_less_iff algebra_simps)

lemma js_round_ge: "k \<le> js_round x \<longleftrightarrow> of_int k - 1 / 2 \<le> x"
  by (simp add: js_round_def le_floor_iff algebra_simps)

end
