(* ===== verification/Moment_Arith.thy ===== *)
theory Moment_Arith
  imports Moment_Duration
begin

text \<open>
  \<open>moment-2.8.1.js\<close>, section "Moment Prototype": arithmetic, start and end of a unit, comparison,
  zones, differences, weeks. Operations that mutate their receiver return the new moment. The
  operands of comparisons are moments (\<open>moment(input)\<close> of a moment is \<open>clone\<close>).
\<close>

section \<open>Adding and subtracting\<close>

definition addOrSubtractDurationFromMoment :: "env \<Rightarrow> moment \<Rightarrow> duration \<Rightarrow> int \<Rightarrow> moment" where
  "addOrSubtractDurationFromMoment e mom duration isAdding =
     (let milliseconds = du_milliseconds duration; days = du_days duration;
          months = du_months duration;
          mom = (if milliseconds \<noteq> 0
                 then mom\<lparr>m_d := date_set_time (nadd (m_d mom) (Some (milliseconds * isAdding)))\<rparr>
                 else mom);
          mom = (if days \<noteq> 0
                 then rawSetter e mom Date (nadd (rawGetter e mom Date) (Some (days * isAdding)))
                 else mom)
      in if months \<noteq> 0
         then rawMonthSetter e mom (nadd (rawGetter e mom Month) (Some (months * isAdding)))
         else mom)"

text \<open>\<open>createAdder(1)\<close> and \<open>createAdder(-1)\<close> applied to a number and a period.\<close>

definition add :: "env \<Rightarrow> moment \<Rightarrow> int \<Rightarrow> string \<Rightarrow> moment" where
  "add e m val period =
     addOrSubtractDurationFromMoment e m (moment_duration (DNumber val period)) 1"

definition subtract :: "env \<Rightarrow> moment \<Rightarrow> int \<Rightarrow> string \<Rightarrow> moment" where
  "subtract e m val period =
     addOrSubtractDurationFromMoment e m (moment_duration (DNumber val period)) (-1)"

text \<open>Adding \<open>NaN\<close> adds nothing: the \<open>Duration\<close> constructor reads \<open>NaN || 0\<close>.\<close>

definition add_num :: "env \<Rightarrow> moment \<Rightarrow> num \<Rightarrow> string \<Rightarrow> moment" where
  "add_num e m val period = add e m (case val of None \<Rightarrow> 0 | Some n \<Rightarrow> n) period"

section \<open>Accessors\<close>

abbreviation year :: "env \<Rightarrow> moment \<Rightarrow> num" where "year e m \<equiv> rawGetter e m FullYear"
abbreviation month :: "env \<Rightarrow> moment \<Rightarrow> num" where "month e m \<equiv> rawGetter e m Month"
abbreviation date :: "env \<Rightarrow> moment \<Rightarrow> num" where "date e m \<equiv> rawGetter e m Date"
abbreviation hours :: "env \<Rightarrow> moment \<Rightarrow> num" where "hours e m \<equiv> rawGetter e m Hours"
abbreviation minutes :: "env \<Rightarrow> moment \<Rightarrow> num" where "minutes e m \<equiv> rawGetter e m Minutes"
abbreviation seconds :: "env \<Rightarrow> moment \<Rightarrow> num" where "seconds e m \<equiv> rawGetter e m Seconds"
abbreviation milliseconds :: "env \<Rightarrow> moment \<Rightarrow> num" where
  "milliseconds e m \<equiv> rawGetter e m Milliseconds"

definition set_unit :: "env \<Rightarrow> dfield \<Rightarrow> int \<Rightarrow> moment \<Rightarrow> moment" where
  "set_unit e unit v m = rawSetter e m unit (Some v)"

definition unix :: "moment \<Rightarrow> num" where
  "unix m = nmap (\<lambda>v. v div 1000) (valueOf m)"

definition set_day :: "env \<Rightarrow> num \<Rightarrow> moment \<Rightarrow> moment" where
  "set_day e input m = add_num e m (nsub input (get_day e m)) ''d''"

definition weekday :: "env \<Rightarrow> moment \<Rightarrow> num" where
  "weekday e m = nmap (\<lambda>d. js_mod (d + 7 - l_dow (m_locale m)) 7) (get_day e m)"

definition set_weekday :: "env \<Rightarrow> int \<Rightarrow> moment \<Rightarrow> moment" where
  "set_weekday e input m = add_num e m (nsub (Some input) (weekday e m)) ''d''"

definition isoWeekday :: "env \<Rightarrow> moment \<Rightarrow> num" where
  "isoWeekday e m =
     (case get_day e m of None \<Rightarrow> Some 7 | Some d \<Rightarrow> if d = 0 then Some 7 else Some d)"

definition set_isoWeekday :: "env \<Rightarrow> int \<Rightarrow> moment \<Rightarrow> moment" where
  "set_isoWeekday e input m =
     set_day e (case get_day e m of
         None \<Rightarrow> Some (input - 7)
       | Some d \<Rightarrow> if js_mod d 7 \<noteq> 0 then Some input else Some (input - 7)) m"

definition quarter :: "env \<Rightarrow> moment \<Rightarrow> num" where
  "quarter e m = nmap (\<lambda>mo. ceil_div (mo + 1) 3) (month e m)"

definition set_quarter :: "env \<Rightarrow> int \<Rightarrow> moment \<Rightarrow> moment" where
  "set_quarter e input m =
     rawMonthSetter e m (nmap (\<lambda>mo. (input - 1) * 3 + js_mod mo 3) (month e m))"

section \<open>Start and end of a unit\<close>

definition startOf :: "env \<Rightarrow> string \<Rightarrow> moment \<Rightarrow> moment" where
  "startOf e units m =
     (let units = normalizeUnits units;
          m = (if units = ''year'' then set_unit e Month 0 m else m);
          m = (if units \<in> {''year'', ''quarter'', ''month''} then set_unit e Date 1 m else m);
          m = (if units \<in> {''year'', ''quarter'', ''month'', ''week'', ''isoWeek'', ''day''}
               then set_unit e Hours 0 m else m);
          m = (if units \<in> {''year'', ''quarter'', ''month'', ''week'', ''isoWeek'', ''day'', ''hour''}
               then set_unit e Minutes 0 m else m);
          m = (if units \<in> {''year'', ''quarter'', ''month'', ''week'', ''isoWeek'', ''day'', ''hour'',
                 ''minute''} then set_unit e Seconds 0 m else m);
          m = (if units \<in> {''year'', ''quarter'', ''month'', ''week'', ''isoWeek'', ''day'', ''hour'',
                 ''minute'', ''second''} then set_unit e Milliseconds 0 m else m);
          m = (if units = ''week'' then set_weekday e 0 m
               else if units = ''isoWeek'' then set_isoWeekday e 1 m else m)
      in if units = ''quarter''
         then rawMonthSetter e m (nmap (\<lambda>mo. mo div 3 * 3) (month e m)) else m)"

definition endOf :: "env \<Rightarrow> string \<Rightarrow> moment \<Rightarrow> moment" where
  "endOf e units m =
     (let units = normalizeUnits units
      in subtract e (add e (startOf e units m) 1 (if units = ''isoWeek'' then ''week'' else units))
           1 ''ms'')"

section \<open>Zones\<close>

definition zone :: "env \<Rightarrow> moment \<Rightarrow> num" where
  "zone e m = (if m_isUTC m then Some (m_offset m) else getTimezoneOffset (e_zone e) (m_d m))"

definition set_zone :: "env \<Rightarrow> int \<Rightarrow> bool \<Rightarrow> moment \<Rightarrow> moment" where
  "set_zone e input keepLocalTime m =
     (let offset = m_offset m;
          input = (if \<bar>input\<bar> < 16 then input * 60 else input);
          localAdjust = (if \<not> m_isUTC m \<and> keepLocalTime
                         then getTimezoneOffset (e_zone e) (m_d m) else None);
          m = m\<lparr>m_offset := input, m_isUTC := True\<rparr>;
          m = (case localAdjust of None \<Rightarrow> m | Some a \<Rightarrow> subtract e m a ''m'')
      in if offset \<noteq> input \<and> \<not> keepLocalTime
         then addOrSubtractDurationFromMoment e m (moment_duration (DNumber (offset - input) ''m'')) 1
         else m)"

definition to_utc :: "env \<Rightarrow> bool \<Rightarrow> moment \<Rightarrow> moment" where
  "to_utc e keepLocalTime m = set_zone e 0 keepLocalTime m"

definition local :: "env \<Rightarrow> bool \<Rightarrow> moment \<Rightarrow> moment" where
  "local e keepLocalTime m =
     (if m_isUTC m
      then (let m = (set_zone e 0 keepLocalTime m)\<lparr>m_isUTC := False\<rparr>
            in if keepLocalTime
               then add_num e m (getTimezoneOffset (e_zone e) (m_d m)) ''m'' else m)
      else m)"

text \<open>A moment equal to \<open>input\<close> in the mode (local, UTC or fixed offset) of \<open>model\<close>.\<close>

definition makeAs :: "env \<Rightarrow> moment \<Rightarrow> moment \<Rightarrow> moment" where
  "makeAs e input model =
     (if m_isUTC model then set_zone e (m_offset model) False (clone input)
      else local e False (clone input))"

definition zoneAbbr :: "moment \<Rightarrow> string" where
  "zoneAbbr m = (if m_isUTC m then ''UTC'' else '''')"

definition zoneName :: "moment \<Rightarrow> string" where
  "zoneName m = (if m_isUTC m then ''Coordinated Universal Time'' else '''')"

definition isDST :: "env \<Rightarrow> moment \<Rightarrow> bool" where
  "isDST e m \<longleftrightarrow>
     nlt (zone e m) (zone e (set_unit e Month 0 (clone m))) \<or>
     nlt (zone e m) (zone e (set_unit e Month 5 (clone m)))"

definition hasAlignedHourOffset :: "env \<Rightarrow> moment \<Rightarrow> moment option \<Rightarrow> bool" where
  "hasAlignedHourOffset e m input =
     neq (nmap (\<lambda>d. js_mod d 60)
       (nsub (zone e m) (case input of None \<Rightarrow> Some 0 | Some i \<Rightarrow> zone e (clone i)))) (Some 0)"

definition toDate :: "moment \<Rightarrow> num" where
  "toDate m = (if m_offset m \<noteq> 0 then date_set_time (valueOf m) else m_d m)"

section \<open>Comparison\<close>

definition isAfter :: "env \<Rightarrow> moment \<Rightarrow> moment \<Rightarrow> string \<Rightarrow> bool" where
  "isAfter e m input units =
     ngt (valueOf (startOf e units (clone m))) (valueOf (startOf e units (clone input)))"

definition isBefore :: "env \<Rightarrow> moment \<Rightarrow> moment \<Rightarrow> string \<Rightarrow> bool" where
  "isBefore e m input units =
     nlt (valueOf (startOf e units (clone m))) (valueOf (startOf e units (clone input)))"

definition isSame :: "env \<Rightarrow> moment \<Rightarrow> moment \<Rightarrow> string \<Rightarrow> bool" where
  "isSame e m input units =
     neq (valueOf (startOf e units (clone m))) (valueOf (startOf e units (makeAs e input m)))"

fun pickBy_loop :: "(moment \<Rightarrow> moment \<Rightarrow> bool) \<Rightarrow> moment \<Rightarrow> moment list \<Rightarrow> moment" where
  "pickBy_loop fn res [] = res"
| "pickBy_loop fn res (m # ms) = pickBy_loop fn (if fn m res then m else res) ms"

text \<open>\<open>pickBy\<close>; of an empty list it returns \<open>moment()\<close>, which is the first argument here.\<close>

fun pickBy :: "moment \<Rightarrow> (moment \<Rightarrow> moment \<Rightarrow> bool) \<Rightarrow> moment list \<Rightarrow> moment" where
  "pickBy now fn [] = now"
| "pickBy now fn (m # ms) = pickBy_loop fn m ms"

definition moment_min :: "env \<Rightarrow> moment \<Rightarrow> moment list \<Rightarrow> moment" where
  "moment_min e now ms = pickBy now (\<lambda>m res. isBefore e m res ''millisecond'') ms"

definition moment_max :: "env \<Rightarrow> moment \<Rightarrow> moment list \<Rightarrow> moment" where
  "moment_max e now ms = pickBy now (\<lambda>m res. isAfter e m res ''millisecond'') ms"

section \<open>Differences\<close>

definition positiveMomentsDifference :: "env \<Rightarrow> moment \<Rightarrow> moment \<Rightarrow> num \<times> num" where
  "positiveMomentsDifference e base other =
     (let months = nadd (nsub (month e other) (month e base))
                     (nmap (\<lambda>y. y * 12) (nsub (year e other) (year e base)));
          months = (if isAfter e (add_num e (clone base) months ''M'') other ''millisecond''
                    then nmap (\<lambda>n. n - 1) months else months);
          milliseconds = nsub (valueOf other) (valueOf (add_num e (clone base) months ''M''))
      in (milliseconds, months))"

definition momentsDifference :: "env \<Rightarrow> moment \<Rightarrow> moment \<Rightarrow> num \<times> num" where
  "momentsDifference e base other =
     (let other = makeAs e other base
      in if isBefore e base other ''millisecond'' then positiveMomentsDifference e base other
         else (let res = positiveMomentsDifference e other base
               in (nmap uminus (fst res), nmap uminus (snd res))))"

definition nan_or_0 :: "num \<Rightarrow> int" where
  "nan_or_0 x = (case x of None \<Rightarrow> 0 | Some i \<Rightarrow> i)"

text \<open>\<open>moment.duration({from: a, to: b})\<close>.\<close>

definition duration_between :: "env \<Rightarrow> moment \<Rightarrow> moment \<Rightarrow> duration" where
  "duration_between e from to =
     (let diffRes = momentsDifference e (clone from) (clone to)
      in Duration [(''ms'', nan_or_0 (fst diffRes)), (''M'', nan_or_0 (snd diffRes))])"

definition rdiv :: "num \<Rightarrow> rat \<Rightarrow> rat option" where
  "rdiv x k = map_option (\<lambda>i. of_int i / k) x"

definition moment_daysInMonth :: "env \<Rightarrow> moment \<Rightarrow> num" where
  "moment_daysInMonth e m = daysInMonth_num (year e m) (month e m)"

text \<open>The value of \<open>output\<close> in \<open>diff\<close>, before it is rounded.\<close>

definition diff_month_output :: "env \<Rightarrow> moment \<Rightarrow> moment \<Rightarrow> rat option" where
  "diff_month_output e this that =
     (case (moment_daysInMonth e this, moment_daysInMonth e that,
            nadd (nmap (\<lambda>y. y * 12) (nsub (year e this) (year e that)))
              (nsub (month e this) (month e that)),
            nsub (nsub (valueOf this) (valueOf (startOf e ''month'' (clone this))))
              (nsub (valueOf that) (valueOf (startOf e ''month'' (clone that)))),
            nsub (nsub (zone e this) (zone e (startOf e ''month'' (clone this))))
              (nsub (zone e that) (zone e (startOf e ''month'' (clone that))))) of
        (Some d1, Some d2, Some months, Some part, Some zpart) \<Rightarrow>
          (let diff = of_int ((d1 + d2) * 43200000)
           in Some (of_int months + of_int part / diff - of_int zpart * 60000 / diff))
      | _ \<Rightarrow> None)"

definition diff_output :: "env \<Rightarrow> moment \<Rightarrow> moment \<Rightarrow> string \<Rightarrow> rat option" where
  "diff_output e this input units =
     (let that = makeAs e input this;
          zoneDiff = nmap (\<lambda>z. z * 60000) (nsub (zone e this) (zone e that));
          units = normalizeUnits units
      in if units = ''year'' \<or> units = ''month''
         then (let output = diff_month_output e this that
               in if units = ''year'' then map_option (\<lambda>x. x / 12) output else output)
         else (let diff = nsub (valueOf this) (valueOf that)
               in if units = ''second'' then rdiv diff 1000
                  else if units = ''minute'' then rdiv diff 60000
                  else if units = ''hour'' then rdiv diff 3600000
                  else if units = ''day'' then rdiv (nsub diff zoneDiff) 86400000
                  else if units = ''week'' then rdiv (nsub diff zoneDiff) 604800000
                  else rdiv diff 1))"

text \<open>\<open>diff(input, units)\<close>; with the flag \<open>asFloat\<close> it returns \<open>diff_output\<close> itself.\<close>

definition diff :: "env \<Rightarrow> moment \<Rightarrow> moment \<Rightarrow> string \<Rightarrow> num" where
  "diff e this input units = map_option absRound (diff_output e this input units)"

section \<open>Days and weeks of the year\<close>

definition dayOfYear :: "env \<Rightarrow> moment \<Rightarrow> num" where
  "dayOfYear e m =
     nmap (\<lambda>d. round_div d 86400000 + 1)
       (nsub (valueOf (startOf e ''day'' (clone m))) (valueOf (startOf e ''year'' (clone m))))"

definition set_dayOfYear :: "env \<Rightarrow> int \<Rightarrow> moment \<Rightarrow> moment" where
  "set_dayOfYear e input m = add_num e m (nsub (Some input) (dayOfYear e m)) ''d''"

definition weekOfYear :: "env \<Rightarrow> moment \<Rightarrow> int \<Rightarrow> int \<Rightarrow> num \<times> num" where
  "weekOfYear e mom firstDayOfWeek firstDayOfWeekOfYear =
     (let ende = firstDayOfWeekOfYear - firstDayOfWeek;
          daysToDayOfWeek = nsub (Some firstDayOfWeekOfYear) (get_day e mom);
          daysToDayOfWeek = (if ngt daysToDayOfWeek (Some ende)
                             then nmap (\<lambda>d. d - 7) daysToDayOfWeek else daysToDayOfWeek);
          daysToDayOfWeek = (if nlt daysToDayOfWeek (Some (ende - 7))
                             then nmap (\<lambda>d. d + 7) daysToDayOfWeek else daysToDayOfWeek);
          adjustedMoment = add_num e (clone mom) daysToDayOfWeek ''d''
      in (nmap (\<lambda>d. ceil_div d 7) (dayOfYear e adjustedMoment), year e adjustedMoment))"

text \<open>\<open>dayOfYearFromWeeks\<close>: the year and the day of the year of a week date.\<close>

definition dayOfYearFromWeeks :: "int \<Rightarrow> int \<Rightarrow> int \<Rightarrow> int \<Rightarrow> int \<Rightarrow> (int \<times> int) option" where
  "dayOfYearFromWeeks yr wk wday firstDayOfWeekOfYear firstDayOfWeek =
     (case date_get_day UTC (makeUTCDate yr 0 1 0 0 0 0) of
        None \<Rightarrow> None
      | Some d \<Rightarrow>
         (let d = (if d = 0 then 7 else d);
              daysToAdd = firstDayOfWeek - d + (if d > firstDayOfWeekOfYear then 7 else 0)
                            - (if d < firstDayOfWeek then 7 else 0);
              yday = 7 * (wk - 1) + (wday - firstDayOfWeek) + daysToAdd + 1
          in Some (if yday > 0 then yr else yr - 1,
                   if yday > 0 then yday else daysInYear (yr - 1) + yday)))"

definition weekYear :: "env \<Rightarrow> moment \<Rightarrow> num" where
  "weekYear e m = snd (weekOfYear e m (l_dow (m_locale m)) (l_doy (m_locale m)))"

definition set_weekYear :: "env \<Rightarrow> int \<Rightarrow> moment \<Rightarrow> moment" where
  "set_weekYear e input m = add_num e m (nsub (Some input) (weekYear e m)) ''y''"

definition isoWeekYear :: "env \<Rightarrow> moment \<Rightarrow> num" where
  "isoWeekYear e m = snd (weekOfYear e m 1 4)"

definition set_isoWeekYear :: "env \<Rightarrow> int \<Rightarrow> moment \<Rightarrow> moment" where
  "set_isoWeekYear e input m = add_num e m (nsub (Some input) (isoWeekYear e m)) ''y''"

definition week :: "env \<Rightarrow> moment \<Rightarrow> num" where
  "week e m = fst (weekOfYear e m (l_dow (m_locale m)) (l_doy (m_locale m)))"

definition set_week :: "env \<Rightarrow> int \<Rightarrow> moment \<Rightarrow> moment" where
  "set_week e input m = add_num e m (nmap (\<lambda>w. (input - w) * 7) (week e m)) ''d''"

definition isoWeek :: "env \<Rightarrow> moment \<Rightarrow> num" where
  "isoWeek e m = fst (weekOfYear e m 1 4)"

definition set_isoWeek :: "env \<Rightarrow> int \<Rightarrow> moment \<Rightarrow> moment" where
  "set_isoWeek e input m = add_num e m (nmap (\<lambda>w. (input - w) * 7) (isoWeek e m)) ''d''"

section \<open>Generic access by unit\<close>

text \<open>
  \<open>get(units)\<close> and \<open>set(units, value)\<close> on the accessors of this section. Of any other name (\<open>None\<close>)
  the program calls whatever method has it; where there is none \<open>get\<close> throws and \<open>set\<close> does nothing.
\<close>

definition get :: "env \<Rightarrow> moment \<Rightarrow> string \<Rightarrow> num option" where
  "get e m units =
     (let units = normalizeUnits units in
      if units = ''year'' then Some (year e m)
      else if units = ''month'' then Some (month e m)
      else if units = ''date'' then Some (date e m)
      else if units = ''day'' then Some (get_day e m)
      else if units = ''hour'' then Some (hours e m)
      else if units = ''minute'' then Some (minutes e m)
      else if units = ''second'' then Some (seconds e m)
      else if units = ''millisecond'' then Some (milliseconds e m)
      else if units = ''week'' then Some (week e m)
      else if units = ''isoWeek'' then Some (isoWeek e m)
      else if units = ''weekday'' then Some (weekday e m)
      else if units = ''isoWeekday'' then Some (isoWeekday e m)
      else if units = ''dayOfYear'' then Some (dayOfYear e m)
      else if units = ''quarter'' then Some (quarter e m)
      else if units = ''weekYear'' then Some (weekYear e m)
      else if units = ''isoWeekYear'' then Some (isoWeekYear e m)
      else None)"

definition set_by_unit :: "env \<Rightarrow> string \<Rightarrow> int \<Rightarrow> moment \<Rightarrow> moment option" where
  "set_by_unit e units v m =
     (let units = normalizeUnits units in
      if units = ''year'' then Some (set_unit e FullYear v m)
      else if units = ''month'' then Some (set_unit e Month v m)
      else if units = ''date'' then Some (set_unit e Date v m)
      else if units = ''day'' then Some (set_day e (Some v) m)
      else if units = ''hour'' then Some (set_unit e Hours v m)
      else if units = ''minute'' then Some (set_unit e Minutes v m)
      else if units = ''second'' then Some (set_unit e Seconds v m)
      else if units = ''millisecond'' then Some (set_unit e Milliseconds v m)
      else if units = ''week'' then Some (set_week e v m)
      else if units = ''isoWeek'' then Some (set_isoWeek e v m)
      else if units = ''weekday'' then Some (set_weekday e v m)
      else if units = ''isoWeekday'' then Some (set_isoWeekday e v m)
      else if units = ''dayOfYear'' then Some (set_dayOfYear e v m)
      else if units = ''quarter'' then Some (set_quarter e v m)
      else if units = ''weekYear'' then Some (set_weekYear e v m)
      else if units = ''isoWeekYear'' then Some (set_isoWeekYear e v m)
      else None)"

end
