(* ===== verification/Moment_Locale.thy ===== *)
theory Moment_Locale
  imports Moment_Arith
begin

text \<open>
  \<open>moment-2.8.1.js\<close>, section "Locale": the prototype of a locale, its methods, the registry
  \<open>locales\<close> and the functions that choose, define and set a locale.

  A locale is the record \<open>locale_data\<close>, copied into a moment where the program keeps a reference. The
  entries are strings (the program also takes functions for some of them). The scripts run in a
  browser, where \<open>hasModule\<close> is false and \<open>loadLocale\<close> reads the registry only. The compiled regular
  expressions that \<open>monthsParse\<close> and \<open>weekdaysParse\<close> cache are tests for a prefix.
\<close>

section \<open>The default locale\<close>

definition names :: "string \<Rightarrow> string list" where
  "names s = split_char (CHR ''_'') s"

text \<open>\<open>Locale.prototype\<close>.\<close>

definition Locale_prototype :: locale_data where
  "Locale_prototype =
     \<lparr>l_abbr = '''',
      l_months = names ''January_February_March_April_May_June_July_August_September_October_November_December'',
      l_monthsShort = names ''Jan_Feb_Mar_Apr_May_Jun_Jul_Aug_Sep_Oct_Nov_Dec'',
      l_weekdays = names ''Sunday_Monday_Tuesday_Wednesday_Thursday_Friday_Saturday'',
      l_weekdaysShort = names ''Sun_Mon_Tue_Wed_Thu_Fri_Sat'',
      l_weekdaysMin = names ''Su_Mo_Tu_We_Th_Fr_Sa'',
      l_longDateFormat = [(''LT'', ''h:mm A''), (''L'', ''MM/DD/YYYY''), (''LL'', ''MMMM D, YYYY''),
        (''LLL'', ''MMMM D, YYYY LT''), (''LLLL'', ''dddd, MMMM D, YYYY LT'')],
      l_calendar = [(''sameDay'', ''[Today at] LT''), (''nextDay'', ''[Tomorrow at] LT''),
        (''nextWeek'', ''dddd [at] LT''), (''lastDay'', ''[Yesterday at] LT''),
        (''lastWeek'', ''[Last] dddd [at] LT''), (''sameElse'', ''L'')],
      l_relativeTime = [(''future'', ''in %s''), (''past'', ''%s ago''), (''s'', ''a few seconds''),
        (''m'', ''a minute''), (''mm'', ''%d minutes''), (''h'', ''an hour''), (''hh'', ''%d hours''),
        (''d'', ''a day''), (''dd'', ''%d days''), (''M'', ''a month''), (''MM'', ''%d months''),
        (''y'', ''a year''), (''yy'', ''%d years'')],
      l_ordinal = (\<lambda>number. replace_first ''%d'' (int_str number) ''%d''),
      l_dow = 0, l_doy = 6, l_invalidDate = ''Invalid date''\<rparr>"

definition en_ordinal :: "int \<Rightarrow> string" where
  "en_ordinal number =
     (let b = js_mod number 10;
          output = (if toInt_rat (of_int (js_mod number 100) / 10) = 1 then ''th''
                    else if b = 1 then ''st'' else if b = 2 then ''nd''
                    else if b = 3 then ''rd'' else ''th'')
      in int_str number @ output)"

section \<open>Methods of a locale\<close>

text \<open>An entry of a configuration object, named as its key.\<close>

datatype locale_prop =
    PMonths "string list" | PMonthsShort "string list" | PWeekdays "string list"
  | PWeekdaysShort "string list" | PWeekdaysMin "string list"
  | PLongDateFormat "(string \<times> string) list" | PCalendar "(string \<times> string) list"
  | PRelativeTime "(string \<times> string) list" | POrdinalString string | POrdinal "int \<Rightarrow> string"
  | PWeek int int | PInvalidDate string | PAbbr string

fun set_prop :: "locale_prop \<Rightarrow> locale_data \<Rightarrow> locale_data" where
  "set_prop (PMonths x) l = l\<lparr>l_months := x\<rparr>"
| "set_prop (PMonthsShort x) l = l\<lparr>l_monthsShort := x\<rparr>"
| "set_prop (PWeekdays x) l = l\<lparr>l_weekdays := x\<rparr>"
| "set_prop (PWeekdaysShort x) l = l\<lparr>l_weekdaysShort := x\<rparr>"
| "set_prop (PWeekdaysMin x) l = l\<lparr>l_weekdaysMin := x\<rparr>"
| "set_prop (PLongDateFormat x) l = l\<lparr>l_longDateFormat := x\<rparr>"
| "set_prop (PCalendar x) l = l\<lparr>l_calendar := x\<rparr>"
| "set_prop (PRelativeTime x) l = l\<lparr>l_relativeTime := x\<rparr>"
| "set_prop (POrdinalString x) l = l\<lparr>l_ordinal := (\<lambda>number. replace_first ''%d'' (int_str number) x)\<rparr>"
| "set_prop (POrdinal x) l = l\<lparr>l_ordinal := x\<rparr>"
| "set_prop (PWeek dow doy) l = l\<lparr>l_dow := dow, l_doy := doy\<rparr>"
| "set_prop (PInvalidDate x) l = l\<lparr>l_invalidDate := x\<rparr>"
| "set_prop (PAbbr x) l = l\<lparr>l_abbr := x\<rparr>"

definition locale_set :: "locale_prop list \<Rightarrow> locale_data \<Rightarrow> locale_data" where
  "locale_set config l = fold set_prop config l"

text \<open>An array of strings read at an index and used as a string.\<close>

definition nth_str :: "string list \<Rightarrow> num \<Rightarrow> string" where
  "nth_str xs i =
     (case i of None \<Rightarrow> ''undefined''
      | Some k \<Rightarrow> if 0 \<le> k \<and> k < int (length xs) then xs ! nat k else ''undefined'')"

text \<open>A test of \<open>/^p/i\<close>, where a dot of \<open>p\<close> stands for any character.\<close>

fun prefix_test :: "string \<Rightarrow> string \<Rightarrow> bool" where
  "prefix_test [] s = True"
| "prefix_test (p # ps) [] = False"
| "prefix_test (p # ps) (c # s) =
     ((if p = CHR ''.'' then c \<noteq> CHR 0x0A else ascii_lower p = ascii_lower c) \<and> prefix_test ps s)"

text \<open>\<open>regex.replace('.', '')\<close> on alternatives joined by \<open>|\<close>: the first dot of all goes.\<close>

fun drop_first_dot :: "string list \<Rightarrow> string list" where
  "drop_first_dot [] = []"
| "drop_first_dot (x # xs) =
     (if CHR ''.'' \<in> set x then replace_first ''.'' '''' x # xs else x # drop_first_dot xs)"

definition name_test :: "string list \<Rightarrow> string \<Rightarrow> bool" where
  "name_test alternatives s = list_ex (\<lambda>p. prefix_test p s) (drop_first_dot alternatives)"

fun first_index :: "(nat \<Rightarrow> bool) \<Rightarrow> nat \<Rightarrow> nat \<Rightarrow> nat option" where
  "first_index P i 0 = None"
| "first_index P i (Suc n) = (if P i then Some i else first_index P (Suc i) n)"

definition monthsParse :: "locale_data \<Rightarrow> string \<Rightarrow> num" where
  "monthsParse l monthName =
     map_option int (first_index (\<lambda>i. name_test
       [nth_str (l_months l) (Some (int i)), nth_str (l_monthsShort l) (Some (int i))] monthName) 0 12)"

definition weekdaysParse :: "locale_data \<Rightarrow> string \<Rightarrow> num" where
  "weekdaysParse l weekdayName =
     map_option int (first_index (\<lambda>i. name_test
       [nth_str (l_weekdays l) (Some (int i)), nth_str (l_weekdaysShort l) (Some (int i)),
        nth_str (l_weekdaysMin l) (Some (int i))] weekdayName) 0 7)"

text \<open>\<open>.replace(/MMMM|MM|DD|dddd/g, function (val) \{ return val.slice(1); \})\<close>.\<close>

fun shorten_format :: "string \<Rightarrow> string" where
  "shorten_format [] = []"
| "shorten_format (c # s) =
     (if starts_with ''MMMM'' (c # s) then ''MMM'' @ shorten_format (drop 3 s)
      else if starts_with ''MM'' (c # s) then ''M'' @ shorten_format (drop 1 s)
      else if starts_with ''DD'' (c # s) then ''D'' @ shorten_format (drop 1 s)
      else if starts_with ''dddd'' (c # s) then ''ddd'' @ shorten_format (drop 3 s)
      else c # shorten_format s)"

definition truthy_lookup :: "(string \<times> string) list \<Rightarrow> string \<Rightarrow> string option" where
  "truthy_lookup m k = (case map_of m k of Some v \<Rightarrow> if v = '''' then None else Some v | None \<Rightarrow> None)"

definition longDateFormat :: "locale_data \<Rightarrow> string \<Rightarrow> string option" where
  "longDateFormat l key =
     (case truthy_lookup (l_longDateFormat l) key of
        Some output \<Rightarrow> Some output
      | None \<Rightarrow>
          (case truthy_lookup (l_longDateFormat l) (toUpperCase key) of
             Some output \<Rightarrow> Some (shorten_format output)
           | None \<Rightarrow> map_of (l_longDateFormat l) key))"

definition isPM :: "string \<Rightarrow> bool" where
  "isPM input \<longleftrightarrow> (case toLowerCase input of [] \<Rightarrow> False | c # _ \<Rightarrow> c = CHR ''p'')"

definition meridiem :: "num \<Rightarrow> num \<Rightarrow> bool \<Rightarrow> string" where
  "meridiem hrs mins isLower =
     (if ngt hrs (Some 11) then (if isLower then ''pm'' else ''PM'')
      else (if isLower then ''am'' else ''AM''))"

definition locale_calendar :: "locale_data \<Rightarrow> string \<Rightarrow> string option" where
  "locale_calendar l key = map_of (l_calendar l) key"

section \<open>The registry\<close>

definition normalizeLocale :: "string \<Rightarrow> string" where
  "normalizeLocale key = (if key \<noteq> '''' then replace_first ''_'' ''-'' (toLowerCase key) else key)"

definition loadLocale :: "(string \<times> locale_data) list \<Rightarrow> string \<Rightarrow> locale_data option" where
  "loadLocale locales name = map_of locales name"

fun chooseLocale_j ::
    "(string \<times> locale_data) list \<Rightarrow> string list \<Rightarrow> string list option \<Rightarrow> nat \<Rightarrow> locale_data option" where
  "chooseLocale_j locales split next 0 = None"
| "chooseLocale_j locales split next (Suc j) =
     (case loadLocale locales (join_char (CHR ''-'') (take (Suc j) split)) of
        Some l \<Rightarrow> Some l
      | None \<Rightarrow>
          (case next of
             Some n \<Rightarrow> if length n \<ge> Suc j \<and> compareArrays split n \<ge> int j then None
                       else chooseLocale_j locales split next j
           | None \<Rightarrow> chooseLocale_j locales split next j))"

definition next_split :: "string list \<Rightarrow> string list option" where
  "next_split rest =
     (case rest of [] \<Rightarrow> None
      | n # _ \<Rightarrow> (let next = normalizeLocale n
                  in if next = '''' then None else Some (split_char (CHR ''-'') next)))"

fun chooseLocale :: "(string \<times> locale_data) list \<Rightarrow> string list \<Rightarrow> locale_data option" where
  "chooseLocale locales [] = None"
| "chooseLocale locales (name # rest) =
     (let split = split_char (CHR ''-'') (normalizeLocale name)
      in case chooseLocale_j locales split (next_split rest) (length split) of
           Some l \<Rightarrow> Some l
         | None \<Rightarrow> chooseLocale locales rest)"

text \<open>\<open>moment.localeData(key)\<close> for no key, a string and an array.\<close>

datatype locale_key = KNone | KString string | KArray "string list"

definition localeData :: "env \<Rightarrow> locale_key \<Rightarrow> locale_data option" where
  "localeData e key =
     (case key of
        KNone \<Rightarrow> Some (e_locale e)
      | KString k \<Rightarrow>
          if k = '''' then Some (e_locale e)
          else (case loadLocale (e_locales e) k of
                  Some l \<Rightarrow> Some l
                | None \<Rightarrow> chooseLocale (e_locales e) [k])
      | KArray ks \<Rightarrow> chooseLocale (e_locales e) ks)"

definition use_locale :: "env \<Rightarrow> locale_data option \<Rightarrow> env" where
  "use_locale e data = (case data of None \<Rightarrow> e | Some l \<Rightarrow> e\<lparr>e_locale := l\<rparr>)"

text \<open>\<open>moment.defineLocale(name, values)\<close>; \<open>None\<close> is the value \<open>null\<close>, which deletes the entry.\<close>

definition defineLocale :: "env \<Rightarrow> string \<Rightarrow> locale_prop list option \<Rightarrow> locale_data option \<times> env" where
  "defineLocale e name values =
     (case values of
        Some vs \<Rightarrow>
          (let old = (case map_of (e_locales e) name of Some l \<Rightarrow> l | None \<Rightarrow> Locale_prototype);
               new = locale_set (vs @ [PAbbr name]) old;
               e = e\<lparr>e_locales := assoc_set name new (e_locales e)\<rparr>;
               e = use_locale e (localeData e (KString name))
           in (Some new, e))
      | None \<Rightarrow> (None, e\<lparr>e_locales := filter (\<lambda>p. fst p \<noteq> name) (e_locales e)\<rparr>))"

text \<open>\<open>moment.locale(key, values)\<close>: the outer option of \<open>values\<close> tells if it is given.\<close>

definition moment_locale ::
    "env \<Rightarrow> locale_key \<Rightarrow> locale_prop list option option \<Rightarrow> string \<times> env" where
  "moment_locale e key values =
     (let e = (case (key, values) of
                 (KString k, Some vs) \<Rightarrow>
                    if k = '''' then e
                    else (case defineLocale e k vs of (data, e') \<Rightarrow> use_locale e' data)
               | (KNone, _) \<Rightarrow> e
               | (_, _) \<Rightarrow> use_locale e (localeData e key))
      in (l_abbr (e_locale e), e))"

text \<open>The last statement of the script registers the English locale.\<close>

definition init_env :: "zone \<Rightarrow> int \<Rightarrow> (string \<Rightarrow> num) \<Rightarrow> (num \<Rightarrow> string) \<Rightarrow> env" where
  "init_env z now date_parse date_text =
     snd (moment_locale \<lparr>e_zone = z, e_now = now, e_date_parse = date_parse, e_date_text = date_text,
         e_locales = [], e_locale = Locale_prototype\<rparr>
       (KString ''en'') (Some (Some [POrdinal en_ordinal])))"

definition en :: locale_data where
  "en = Locale_prototype\<lparr>l_abbr := ''en'', l_ordinal := en_ordinal\<rparr>"

section \<open>Weekday names\<close>

datatype weekday_input = WNumber int | WString string

text \<open>
  \<open>parseWeekday(input, locale)\<close>: a string is a decimal number or a name. The outer \<open>None\<close> is \<open>null\<close>,
  for a name that is not found; the empty string counts as a number and gives \<open>NaN\<close>.
\<close>

definition parseWeekday :: "weekday_input \<Rightarrow> locale_data \<Rightarrow> num option" where
  "parseWeekday input l =
     (case input of
        WNumber n \<Rightarrow> Some (Some n)
      | WString s \<Rightarrow>
          if s = '''' then Some None
          else (case to_number s of
                  Some n \<Rightarrow> Some (Some n)
                | None \<Rightarrow> (case weekdaysParse l s of Some i \<Rightarrow> Some (Some i) | None \<Rightarrow> None)))"

text \<open>The setter \<open>day(input)\<close>: in the subtraction \<open>input - day\<close> the value \<open>null\<close> counts as 0.\<close>

definition set_day_input :: "env \<Rightarrow> weekday_input \<Rightarrow> moment \<Rightarrow> moment" where
  "set_day_input e input m =
     set_day e (case parseWeekday input (m_locale m) of None \<Rightarrow> Some 0 | Some n \<Rightarrow> n) m"

section \<open>Lemmas\<close>

lemma chooseLocale_j_Some:
  "chooseLocale_j locales split next j = Some l \<Longrightarrow>
     \<exists>k. 0 < k \<and> k \<le> j \<and> loadLocale locales (join_char (CHR ''-'') (take k split)) = Some l"
proof (induction j)
  case (Suc j)
  then show ?case
    by (cases "loadLocale locales (join_char (CHR ''-'') (take (Suc j) split))"; cases "next")
      (auto split: if_splits intro: le_SucI)
qed simp

lemma chooseLocale_j_exact:
  assumes "loadLocale locales (join_char (CHR ''-'') split) = Some l" "split \<noteq> []"
  shows "chooseLocale_j locales split next (length split) = Some l"
  using assms by (cases "length split") auto

lemma map_of_assoc_set [simp]: "map_of (assoc_set k v xs) = (map_of xs)(k \<mapsto> v)"
  by (induction k v xs rule: assoc_set.induct) auto

lemma en_init: "e_locale (init_env z now dp dt) = en" "e_locales (init_env z now dp dt) = [(''en'', en)]"
    "e_zone (init_env z now dp dt) = z" "e_now (init_env z now dp dt) = now"
    "e_date_parse (init_env z now dp dt) = dp" "e_date_text (init_env z now dp dt) = dt"
  by (simp_all add: init_env_def moment_locale_def defineLocale_def use_locale_def localeData_def
      loadLocale_def locale_set_def en_def Let_def Locale_prototype_def)

lemma en_week [simp]: "l_dow en = 0" "l_doy en = 6"
  by (simp_all add: en_def Locale_prototype_def)

lemmas choose_simps = normalizeLocale_def toLowerCase_def next_split_def loadLocale_def Let_def
  compareArrays_def replace_first_def ascii_lower_bits starts_with_def

section \<open>Properties\<close>

text \<open>
  The locale that \<open>chooseLocale\<close> returns is registered under a prefix of one of the names.
\<close>

theorem chooseLocale_registered:
  assumes "chooseLocale locales ns = Some l"
  shows "\<exists>name k. name \<in> set ns \<and> k > 0 \<and>
    map_of locales (join_char (CHR ''-'') (take k (split_char (CHR ''-'') (normalizeLocale name)))) = Some l"
  using assms
proof (induction ns)
  case (Cons name rest)
  let ?split = "split_char (CHR ''-'') (normalizeLocale name)"
  show ?case
  proof (cases "chooseLocale_j locales ?split (next_split rest) (length ?split)")
    case None
    with Cons show ?thesis by auto
  next
    case (Some l')
    with Cons.prems have "chooseLocale_j locales ?split (next_split rest) (length ?split) = Some l"
      by simp
    from chooseLocale_j_Some [OF this] show ?thesis by (auto simp: loadLocale_def)
  qed
qed simp

theorem chooseLocale_registered_witness:
  "\<exists>name k. name \<in> set [''de'', ''en-gb''] \<and> k > 0 \<and>
    map_of [(''en'', en)] (join_char (CHR ''-'') (take k (split_char (CHR ''-'') (normalizeLocale name)))) = Some en"
  by (rule chooseLocale_registered) (simp add: choose_simps)

text \<open>
  A name that is registered itself is chosen before everything that follows it.
\<close>

theorem chooseLocale_exact:
  assumes "map_of locales (normalizeLocale name) = Some l"
  shows "chooseLocale locales (name # rest) = Some l"
  using chooseLocale_j_exact [of locales "split_char (CHR ''-'') (normalizeLocale name)" l] assms
  by (simp add: loadLocale_def join_split)

theorem chooseLocale_exact_witness:
  "chooseLocale [(''fr-ca'', en)] (''FR_ca'' # [''en'']) = Some en"
  by (rule chooseLocale_exact) (simp add: choose_simps)

text \<open>
  Defining a locale registers it under its name, makes it current, and leaves the others alone.
\<close>

theorem defineLocale_current:
  assumes "name \<noteq> ''''" "defineLocale e name (Some vs) = (data, e')" "other \<noteq> name"
  shows "map_of (e_locales e') name = data \<and> data = Some (e_locale e') \<and> l_abbr (e_locale e') = name \<and>
    map_of (e_locales e') other = map_of (e_locales e) other"
  using assms
  by (auto simp: defineLocale_def Let_def use_locale_def localeData_def loadLocale_def locale_set_def)

theorem defineLocale_current_witness:
  "let (data, e') = defineLocale (init_env (fixed_zone 0) 0 (\<lambda>_. None) (\<lambda>_. '''')) ''fr'' (Some [PWeek 1 4])
   in map_of (e_locales e') ''fr'' = data \<and> data = Some (e_locale e') \<and> l_abbr (e_locale e') = ''fr'' \<and>
      map_of (e_locales e') ''en'' = map_of (e_locales (init_env (fixed_zone 0) 0 (\<lambda>_. None) (\<lambda>_. ''''))) ''en''"
  using defineLocale_current [of "''fr''" "init_env (fixed_zone 0) 0 (\<lambda>_. None) (\<lambda>_. '''')" "[PWeek 1 4]" _ _ "''en''"]
  by (auto simp: Let_def split: prod.splits)

text \<open>The names of the English months and weekdays, long and short, are parsed to their index.\<close>

theorem en_names_parse:
  "map (monthsParse en) (l_months en @ l_monthsShort en) = map Some ([0..11] @ [0..11]) \<and>
   map (weekdaysParse en) (l_weekdays en @ l_weekdaysShort en @ l_weekdaysMin en)
     = map Some ([0..6] @ [0..6] @ [0..6])"
  by code_simp

text \<open>
  A name whose successor in the list is no variant of it loses its own root: with only English
  registered, \<open>en-au\<close> followed by \<open>fr-ca\<close> finds nothing.
\<close>

theorem chooseLocale_skips_root:
  "chooseLocale [(''en'', en)] [''en-au'', ''fr-ca''] = None \<and>
   chooseLocale [(''en'', en)] [''en-au''] = Some en"
  by (simp add: choose_simps)

end
