(* ===== verification/Moment_Humanize.thy ===== *)
theory Moment_Humanize
  imports Moment_Locale
begin

text \<open>
  What durations promise: the decomposition into fields, the arithmetic, and the choice of words
  of \<open>humanize\<close> in the English locale.
\<close>

section \<open>Fields of a duration\<close>

text \<open>
  C9. The bubbled fields are in the ranges of their units, and milliseconds, seconds, minutes and
  hours together are the time that is left when whole days are carried over.
\<close>

theorem bubble_ranges:
  "let d = bubble ms days months in
     \<bar>dd_milliseconds d\<bar> < 1000 \<and> \<bar>dd_seconds d\<bar> < 60 \<and> \<bar>dd_minutes d\<bar> < 60 \<and> \<bar>dd_hours d\<bar> < 24 \<and>
     \<bar>dd_days d\<bar> < 30 \<and> \<bar>dd_months d\<bar> < 12 \<and>
     dd_milliseconds d + 1000 * dd_seconds d + 60000 * dd_minutes d + 3600000 * dd_hours d
       = js_mod ms 86400000"
  using bubble_time [of ms days months] by (simp add: bubble_fields js_mod_bound Let_def)

lemma sign_rules:
  assumes "0 < b"
  shows "0 \<le> a \<Longrightarrow> 0 \<le> js_div a b" "0 \<le> a \<Longrightarrow> 0 \<le> js_mod a b"
    "a \<le> 0 \<Longrightarrow> js_div a b \<le> 0" "a \<le> 0 \<Longrightarrow> js_mod a b \<le> 0"
  using js_div_sign [OF assms, of a] js_mod_sign [OF assms, of a] by auto

lemma bubble_rest_rules:
  "0 \<le> D \<Longrightarrow> 0 \<le> bubble_rest D" "D \<le> 0 \<Longrightarrow> bubble_rest D \<le> 0"
  "0 \<le> D \<Longrightarrow> 0 \<le> bubble_years D" "D \<le> 0 \<Longrightarrow> bubble_years D \<le> 0"
  using bubble_rest_sign [of D] sign_rules [of 146097 "400 * D"] by (auto simp: bubble_years_def)

lemma bubble_days_rules:
  "0 \<le> ms \<Longrightarrow> 0 \<le> days \<Longrightarrow> 0 \<le> bubble_days ms days"
  "ms \<le> 0 \<Longrightarrow> days \<le> 0 \<Longrightarrow> bubble_days ms days \<le> 0"
  using sign_rules [of 86400000 ms] by (auto simp: bubble_days_def)

definition data_fields :: "duration_data \<Rightarrow> int list" where
  "data_fields d = [dd_milliseconds d, dd_seconds d, dd_minutes d, dd_hours d, dd_days d, dd_months d,
     dd_years d]"

text \<open>
  Where the three stored quantities have one sign, every bubbled field has it too (or is 0).
\<close>

theorem bubble_sign:
  "(0 \<le> ms \<and> 0 \<le> days \<and> 0 \<le> months \<longrightarrow> list_all (\<lambda>x. 0 \<le> x) (data_fields (bubble ms days months))) \<and>
   (ms \<le> 0 \<and> days \<le> 0 \<and> months \<le> 0 \<longrightarrow> list_all (\<lambda>x. x \<le> 0) (data_fields (bubble ms days months)))"
  by (auto simp: data_fields_def bubble_fields
      intro!: sign_rules bubble_rest_rules bubble_days_rules add_nonneg_nonneg add_nonpos_nonpos)

theorem bubble_sign_witness:
  "list_all (\<lambda>x. 0 \<le> x) (data_fields (bubble 90061001 40 14)) \<and>
   list_all (\<lambda>x. x \<le> 0) (data_fields (bubble (-90061001) (-40) (-14)))"
  using bubble_sign [of 90061001 40 14] bubble_sign [of "-90061001" "-40" "-14"] by simp

text \<open>
  Subtracting what was added gives the duration back, for every duration that a constructor or an
  operation returns (its fields are the bubbled quantities).
\<close>

theorem dur_subtract_add:
  assumes "du_data d = bubble (du_milliseconds d) (du_days d) (du_months d)"
  shows "dur_subtract (dur_add d input) input = d"
  using assms by (simp add: dur_subtract_def dur_add_def Let_def mk_duration_def)

theorem dur_subtract_add_witness:
  "dur_subtract (dur_add (mk_duration 5 1 13) (DNumber 3 ''weeks'')) (DNumber 3 ''weeks'')
     = mk_duration 5 1 13"
  by (rule dur_subtract_add) (simp add: mk_duration_def)

text \<open>
  \<open>Duration.abs\<close> leaves the bubbled days negative: of minus three days it stores 3 days and
  reports -3.
\<close>

theorem dur_abs_days:
  "let d = dur_abs (moment_duration (DNumber (-3) ''days'')) in
     du_days d = 3 \<and> dur_get d ''days'' = Some (-3)"
  by code_simp

section \<open>Relative time\<close>

lemma relativeTime_chain:
  fixes X :: rat
  assumes "0 \<le> X"
  shows "45 \<le> js_round (X * 86400) \<Longrightarrow> 1 \<le> js_round (X * 1440)"
    "45 \<le> js_round (X * 1440) \<Longrightarrow> 1 \<le> js_round (X * 24)"
    "22 \<le> js_round (X * 24) \<Longrightarrow> 1 \<le> js_round X"
    "26 \<le> js_round X \<Longrightarrow> 1 \<le> js_round (X * 4800 / 146097)"
    "11 \<le> js_round (X * 4800 / 146097) \<Longrightarrow> 1 \<le> js_round (X * 400 / 146097)"
  by (simp_all add: js_round_ge)

text \<open>What a form and its number have to satisfy.\<close>

definition form_ok :: "string \<times> int option \<Rightarrow> bool" where
  "form_ok p =
     (case snd p of
        None \<Rightarrow> fst p \<in> {''m'', ''h'', ''d'', ''M'', ''y''}
      | Some k \<Rightarrow> fst p = ''s'' \<and> 0 \<le> k \<and> k < 45 \<or> fst p \<in> {''mm'', ''hh'', ''dd'', ''MM'', ''yy''} \<and> 2 \<le> k)"

lemma form_ok_singular: "a \<in> {''m'', ''h'', ''d'', ''M'', ''y''} \<Longrightarrow> form_ok (a, None)"
  by (simp add: form_ok_def)

lemma form_ok_plural: "b \<in> {''mm'', ''hh'', ''dd'', ''MM'', ''yy''} \<Longrightarrow> 2 \<le> k \<Longrightarrow> form_ok (b, Some k)"
  by (simp add: form_ok_def)

lemma unit_choice:
  assumes "1 \<le> k" "a \<in> {''m'', ''h'', ''d'', ''M'', ''y''}" "b \<in> {''mm'', ''hh'', ''dd'', ''MM'', ''yy''}"
    and "t \<le> k \<Longrightarrow> form_ok rest"
  shows "form_ok (if k = 1 then (a, None) else if k < (t :: int) then (b, Some k) else rest)"
  using assms form_ok_singular [OF assms(2)] form_ok_plural [OF assms(3), of k] by auto

text \<open>
  With the default thresholds a plural form always has a number from 2 on, a singular form none,
  and the form for seconds stands for less than 45.
\<close>

theorem relativeTime_plural: "form_ok (relativeTime_args relativeTimeThresholds d)"
proof -
  define X where "X = as_rat (dur_abs (moment_duration (DDuration d))) ''d''"
  have X: "0 \<le> X" by (simp add: X_def as_days_abs_nonneg)
  have s: "0 \<le> js_round (X * 86400)" using X by (simp add: js_round_ge)
  note c = relativeTime_chain [OF X]
  have t: "th_s relativeTimeThresholds = 45" "th_m relativeTimeThresholds = 45"
    "th_h relativeTimeThresholds = 22" "th_d relativeTimeThresholds = 26" "th_M relativeTimeThresholds = 11"
    by (simp_all add: relativeTimeThresholds_def)
  have last: "form_ok (if k = 1 then (''y'', None) else (''yy'', Some k))" if "1 \<le> k" for k
    using that by (simp add: form_ok_def)
  have first: "form_ok (if k < 45 then (''s'', Some k) else r)" if "0 \<le> k" "45 \<le> k \<Longrightarrow> form_ok r" for k r
    using that by (simp add: form_ok_def)
  show ?thesis
    unfolding relativeTime_args_def Let_def as_rat_units X_def [symmetric] t
    by (intro first unit_choice last c s; simp)
qed

text \<open>
  \<open>humanize\<close> in English always returns a text, with the number of the form it chose.
\<close>

theorem humanize_en_total: "\<exists>s. humanize relativeTimeThresholds d en withSuffix = Inr s"
proof -
  have t: "\<exists>s. locale_relativeTime en k key = Inr s"
    if "key \<in> set (map fst (l_relativeTime en))" for k key
    using that by (cases "map_of (l_relativeTime en) key") (auto simp: locale_relativeTime_def map_of_eq_None_iff)
  have "fst (relativeTime_args relativeTimeThresholds d) \<in> set (map fst (l_relativeTime en))"
    unfolding relativeTime_args_def Let_def by (simp add: en_def Locale_prototype_def)
  with t obtain s where "relativeTime relativeTimeThresholds d en = Inr s"
    by (auto simp: relativeTime_def substituteTimeAgo_def Let_def)
  moreover have "\<exists>r. pastFuture en k s = Inr r" for k s
    by (simp add: pastFuture_def en_def Locale_prototype_def)
  ultimately show ?thesis by (simp add: humanize_def)
qed

end
