(* ===== verification/Moment_Wall.thy ===== *)
theory Moment_Wall
  imports Moment_Arith
begin

text \<open>
  The wall-time view of a moment: what its clock shows, as a number of milliseconds. Every
  operation of the theory \<open>Moment_Arith\<close> acts on the wall time by a plain calendar function; the
  lemmas of the locales \<open>gapless_mode\<close> and \<open>steady_mode\<close> are these refinements, one per operation.

  A mode is local (\<open>False\<close>) or UTC with any fixed offset (\<open>True\<close>). The UTC mode satisfies the laws in
  every host; the local mode does where the host's zone has no clock change.
\<close>

section \<open>Specification\<close>

definition mode_clock :: "env \<Rightarrow> bool \<Rightarrow> clock" where
  "mode_clock e u = (if u then UTC else Local (e_zone e))"

definition wall_time :: "env \<Rightarrow> moment \<Rightarrow> num" where
  "wall_time e m = nmap (to_wall (clock_of e m)) (m_d m)"

text \<open>\<open>mom_at e u m w\<close>: in mode \<open>u\<close> the moment shows \<open>w\<close>, in a year the \<open>Date\<close> range covers.\<close>

definition mom_at :: "env \<Rightarrow> bool \<Rightarrow> moment \<Rightarrow> int \<Rightarrow> bool" where
  "mom_at e u m w \<longleftrightarrow> m_isUTC m = u \<and> wall_time e m = Some w \<and> year_ok (year_of w)"

definition set_month_w :: "int \<Rightarrow> int \<Rightarrow> int" where
  "set_month_w v w =
     (let y = year_of w + v div 12; mo = v mod 12
      in MakeDate (MakeDay y mo (min (date_of w) (month_length (InLeapYear y) mo))) (TimeWithinDay w))"

text \<open>The clamp of \<open>rawMonthSetter\<close> uses the year of the twentieth century for the years 0 to 99.\<close>

definition clamp_ok :: "int \<Rightarrow> int \<Rightarrow> bool" where
  "clamp_ok y v \<longleftrightarrow> \<not> (0 \<le> y \<and> y \<le> 99) \<or> 0 \<le> v \<and> v < 12 \<and> \<not> (y = 0 \<and> v = 1)"

definition day_start_w :: "int \<Rightarrow> int" where
  "day_start_w w = MakeDate (Day w) 0"

text \<open>The first wall time of the unit (of a normalized name) that \<open>w\<close> lies in.\<close>

definition start_w :: "int \<Rightarrow> string \<Rightarrow> int \<Rightarrow> int" where
  "start_w dow units w =
     (if units = ''year'' then MakeDate (MakeDay (year_of w) 0 1) 0
      else if units = ''quarter'' then MakeDate (MakeDay (year_of w) (month_of w div 3 * 3) 1) 0
      else if units = ''month'' then MakeDate (MakeDay (year_of w) (month_of w) 1) 0
      else if units = ''week'' then MakeDate (Day w - (WeekDay w + 7 - dow) mod 7) 0
      else if units = ''isoWeek'' then MakeDate (Day w - (WeekDay w + 6) mod 7) 0
      else if units = ''day'' then day_start_w w
      else if units = ''hour'' then w - w mod 3600000
      else if units = ''minute'' then w - w mod 60000
      else if units = ''second'' then w - w mod 1000
      else w)"

section \<open>Calendar facts about wall times\<close>

lemma min_day_valid: "0 \<le> m \<Longrightarrow> m < 12 \<Longrightarrow> 1 \<le> d \<Longrightarrow>
    valid_ymd y m (min d (month_length (InLeapYear y) m))"
  using month_length_range [of "InLeapYear y" m] by (auto simp: valid_ymd_def)

lemma date_of_pos: "1 \<le> date_of w" "date_of w \<le> 31"
  using valid_ymd_wall [of w] month_length_range [of "InLeapYear (year_of w)" "month_of w"]
  by (auto simp: valid_ymd_def simp del: valid_ymd_wall)

lemma month_of_range: "0 \<le> month_of w" "month_of w < 12"
  using valid_ymd_wall [of w] by (auto simp: valid_ymd_def simp del: valid_ymd_wall)

lemma set_month_w_fields:
  "year_of (set_month_w v w) = year_of w + v div 12" "month_of (set_month_w v w) = v mod 12"
  "date_of (set_month_w v w) =
     min (date_of w) (month_length (InLeapYear (year_of w + v div 12)) (v mod 12))"
  "TimeWithinDay (set_month_w v w) = TimeWithinDay w"
  using min_day_valid [of "v mod 12" "date_of w" "year_of w + v div 12"] date_of_pos [of w]
    wall_split [of w]
  by (simp_all add: set_month_w_def Let_def cal_simps)

lemma wall_of_fields:
  "MakeDate (MakeDay (year_of w) (month_of w) (date_of w)) (TimeWithinDay w) = w"
  by (simp add: get_field.simps cal_simps)

lemma set_date_add: "set_field Date (date_of w + k) w = w + k * msPerDay"
proof -
  have "set_field Date (date_of w + k) w =
      MakeDate (MakeDay (year_of w) (month_of w) (date_of w)) (TimeWithinDay w) + k * msPerDay"
    by (simp add: MakeDay_add MakeDate_def distrib_right)
  then show ?thesis by (simp only: wall_of_fields)
qed

lemma Day_add_days: "Day (w + k * msPerDay) = Day w + k"
  by (simp add: Day_def)

lemma WeekDay_range: "0 \<le> WeekDay w" "WeekDay w < 7"
  by (simp_all add: WeekDay_def)

lemma Day_MakeDate0 [simp]: "Day (MakeDate d 0) = d"
  by (simp add: Day_def MakeDate_def)

lemma TimeWithinDay_MakeDate0 [simp]: "TimeWithinDay (MakeDate d 0) = 0"
  by (simp add: TimeWithinDay_def MakeDate_def)

lemma year_of_MakeDate: "0 \<le> s \<Longrightarrow> s < msPerDay \<Longrightarrow> year_of (MakeDate (Day w) s) = year_of w"
  "0 \<le> s \<Longrightarrow> s < msPerDay \<Longrightarrow> month_of (MakeDate (Day w) s) = month_of w"
  "0 \<le> s \<Longrightarrow> s < msPerDay \<Longrightarrow> date_of (MakeDate (Day w) s) = date_of w"
  by (simp_all add: get_field.simps cal_simps)

text \<open>Zeroing the fields from the hour down, one at a time.\<close>

lemma zero_hours:
  "set_field Hours 0 w = MakeDate (Day w) (MakeTime 0 (minutes_of w) (seconds_of w) (ms_of w))"
  by simp

lemma time_zero_chain:
  "set_field Milliseconds 0 w = w - w mod 1000"
  "set_field Milliseconds 0 (set_field Seconds 0 w) = w - w mod 60000"
  "set_field Milliseconds 0 (set_field Seconds 0 (set_field Minutes 0 w)) = w - w mod 3600000"
  "set_field Milliseconds 0 (set_field Seconds 0 (set_field Minutes 0 (set_field Hours 0 w)))
     = day_start_w w"
proof -
  let ?h = "hours_of w" and ?m = "minutes_of w" and ?s = "seconds_of w" and ?ms = "ms_of w"
  have w: "w = MakeDate (Day w) (MakeTime ?h ?m ?s ?ms)"
    by (simp add: MakeTime_fields MakeDate_split)
  have step: "set_field Milliseconds 0 (MakeDate d (MakeTime h m s ms)) = MakeDate d (MakeTime h m s 0)"
    "set_field Seconds 0 (MakeDate d (MakeTime h m s ms)) = MakeDate d (MakeTime h m 0 ms)"
    "set_field Minutes 0 (MakeDate d (MakeTime h m s ms)) = MakeDate d (MakeTime h 0 s ms)"
    "set_field Hours 0 (MakeDate d (MakeTime h m s ms)) = MakeDate d (MakeTime 0 m s ms)"
    if "valid_time h m s ms" for d h m s ms
    using that MakeTime_valid [OF that] by (simp_all add: time_fields_MakeTime valid_time_def cal_simps)
  have v: "valid_time ?h ?m ?s ?ms" "valid_time 0 ?m ?s ?ms" "valid_time 0 0 ?s ?ms"
    "valid_time 0 0 0 ?ms" "valid_time ?h 0 ?s ?ms" "valid_time ?h 0 0 ?ms" "valid_time ?h ?m 0 ?ms"
    by (simp_all add: valid_time_def)
  have parts: "w mod 1000 = ?ms" "w mod 60000 = 1000 * ?s + ?ms"
    "w mod 3600000 = 60000 * ?m + (1000 * ?s + ?ms)"
    using zmod_zmult2_eq [of 60 w 1000] zmod_zmult2_eq [of 60 w 60000]
    by (simp_all add: get_field.simps)
  have eqs: "w - w mod 1000 = MakeDate (Day w) (MakeTime ?h ?m ?s 0)"
    "w - w mod 60000 = MakeDate (Day w) (MakeTime ?h ?m 0 0)"
    "w - w mod 3600000 = MakeDate (Day w) (MakeTime ?h 0 0 0)"
    unfolding parts using w by (simp_all add: MakeDate_def MakeTime_def)
  have eq0: "day_start_w w = MakeDate (Day w) (MakeTime 0 0 0 0)"
    by (simp add: day_start_w_def MakeTime_def)
  show "set_field Milliseconds 0 w = w - w mod 1000"
    unfolding eqs(1) by (subst w) (simp only: step [OF v(1)])
  show "set_field Milliseconds 0 (set_field Seconds 0 w) = w - w mod 60000"
    unfolding eqs(2) by (subst w) (simp only: step [OF v(1)] step [OF v(7)])
  show "set_field Milliseconds 0 (set_field Seconds 0 (set_field Minutes 0 w)) = w - w mod 3600000"
    unfolding eqs(3) by (subst w) (simp only: step [OF v(1)] step [OF v(5)] step [OF v(6)])
  show "set_field Milliseconds 0 (set_field Seconds 0 (set_field Minutes 0 (set_field Hours 0 w)))
     = day_start_w w"
    unfolding eq0 by (subst w) (simp only: step [OF v(1)] step [OF v(2)] step [OF v(3)] step [OF v(4)])
qed

lemma day_start_fields:
  "year_of (day_start_w w) = year_of w" "month_of (day_start_w w) = month_of w"
  "date_of (day_start_w w) = date_of w" "Day (day_start_w w) = Day w"
  "WeekDay (day_start_w w) = WeekDay w" "TimeWithinDay (day_start_w w) = 0"
  by (simp_all add: day_start_w_def year_of_MakeDate WeekDay_def)

lemma start_w_le: "dow \<in> {0..6} \<Longrightarrow> start_w dow u w \<le> w"
proof -
  assume dow: "dow \<in> {0..6}"
  have day: "MakeDate (Day w - k) 0 \<le> w" if "0 \<le> k" for k
    using wall_split [of w] that by (simp add: MakeDate_def algebra_simps)
  have y: "MakeDay (year_of w) 0 1 \<le> Day w"
    using YearFromDay_lower [of "Day w"] by (simp add: MakeDay_eq month_start_def get_field.simps)
  have m: "MakeDay (year_of w) (month_of w) 1 \<le> Day w"
    using MakeDay_fields [of "Day w"] MakeDay_add [of "year_of w" "month_of w" 1 "date_of w - 1"]
      date_of_pos [of w] by (simp add: get_field.simps)
  have q: "MakeDay (year_of w) (month_of w div 3 * 3) 1 \<le> MakeDay (year_of w) (month_of w) 1"
  proof -
    have "month_start l (mo div 3 * 3) \<le> month_start l mo" if "0 \<le> mo" "mo < 12" for l mo
      using month_cases [OF that] by (auto simp: month_start_def)
    moreover have "0 \<le> month_of w div 3 * 3" "month_of w div 3 * 3 < 12"
      using month_of_range [of w] by (simp_all add: pos_imp_zdiv_nonneg_iff)
    ultimately show ?thesis using month_of_range [of w] by (simp add: MakeDay_eq)
  qed
  have yday: "MakeDate d 0 \<le> w" if "d \<le> Day w" for d
    using day [of "Day w - d"] that by simp
  show ?thesis
    unfolding start_w_def day_start_w_def
    using day [of 0] day [of "(WeekDay w + 7 - dow) mod 7"] day [of "(WeekDay w + 6) mod 7"]
      yday [OF y] yday [OF m] yday [OF order_trans [OF q m]] by auto
qed

lemma year_of_zeroed:
  assumes "f \<in> {Hours, Minutes, Seconds, Milliseconds}"
  shows "year_of (set_field f 0 w) = year_of w"
proof -
  have "0 \<le> MakeTime h m s ms \<and> MakeTime h m s ms < msPerDay"
    if "h \<in> {0, hours_of w}" "m \<in> {0, minutes_of w}" "s \<in> {0, seconds_of w}" "ms \<in> {0, ms_of w}"
    for h m s ms
    using that by (intro MakeTime_valid) (auto simp: valid_time_def)
  with assms show ?thesis by (auto simp: year_of_MakeDate)
qed

lemma first_of_month_fields:
  "year_of (set_field Date 1 w) = year_of w" "month_of (set_field Date 1 w) = month_of w"
  "date_of (set_field Date 1 w) = 1" "Day (set_field Date 1 w) = MakeDay (year_of w) (month_of w) 1"
proof -
  have "valid_ymd (year_of w) (month_of w) 1"
    using min_day_valid [of "month_of w" 1 "year_of w"] month_of_range [of w]
      month_length_range [of "InLeapYear (year_of w)" "month_of w"] by simp
  then show "year_of (set_field Date 1 w) = year_of w" "month_of (set_field Date 1 w) = month_of w"
    "date_of (set_field Date 1 w) = 1" "Day (set_field Date 1 w) = MakeDay (year_of w) (month_of w) 1"
    using wall_split [of w] by (simp_all add: cal_simps)
qed

lemma set_month_w_same: "set_month_w (month_of w) w = w"
proof -
  have "date_of w \<le> month_length (InLeapYear (year_of w)) (month_of w)"
    using valid_ymd_wall [of w] unfolding valid_ymd_def by simp
  then show ?thesis
    using month_of_range [of w] wall_of_fields [of w]
    by (simp add: set_month_w_def Let_def div_pos_pos_trivial min_absorb1)
qed

text \<open>The durations that the code builds from a number and a unit.\<close>

lemma dur_units:
  "moment_duration (DNumber n ''ms'') = mk_duration n 0 0"
  "moment_duration (DNumber n ''m'') = mk_duration (n * 60000) 0 0"
  "moment_duration (DNumber n ''d'') = mk_duration 0 n 0"
  "moment_duration (DNumber n ''M'') = mk_duration 0 0 n"
  "moment_duration (DNumber n ''y'') = mk_duration 0 0 (n * 12)"
  by (simp_all add: moment_duration_def Duration_def normalizeObjectUnits_def normalizeUnits_def
      unitAliases_def unit_or_0_def Let_def)

lemma norm_unit_names:
  "normalizeUnits ''year'' = ''year''" "normalizeUnits ''month'' = ''month''"
  "normalizeUnits ''day'' = ''day''" "normalizeUnits ''week'' = ''week''"
  "normalizeUnits ''quarter'' = ''quarter''" "normalizeUnits ''hour'' = ''hour''"
  "normalizeUnits ''minute'' = ''minute''" "normalizeUnits ''second'' = ''second''"
  "normalizeUnits ''millisecond'' = ''millisecond''" "normalizeUnits ''isoWeek'' = ''isoWeek''"
  "normalizeUnits ''hours'' = ''hour''" "normalizeUnits ''minutes'' = ''minute''"
  "normalizeUnits ''seconds'' = ''second''" "normalizeUnits ''ms'' = ''millisecond''"
  "normalizeUnits ''months'' = ''month''" "normalizeUnits ''days'' = ''day''"
  by code_simp+

lemma dur_unit_names:
  "moment_duration (DNumber n ''millisecond'') = mk_duration n 0 0"
  "moment_duration (DNumber n ''second'') = mk_duration (n * 1000) 0 0"
  "moment_duration (DNumber n ''minute'') = mk_duration (n * 60000) 0 0"
  "moment_duration (DNumber n ''hour'') = mk_duration (n * 3600000) 0 0"
  "moment_duration (DNumber n ''seconds'') = mk_duration (n * 1000) 0 0"
  "moment_duration (DNumber n ''minutes'') = mk_duration (n * 60000) 0 0"
  "moment_duration (DNumber n ''hours'') = mk_duration (n * 3600000) 0 0"
  "moment_duration (DNumber n ''day'') = mk_duration 0 n 0"
  "moment_duration (DNumber n ''days'') = mk_duration 0 n 0"
  "moment_duration (DNumber n ''week'') = mk_duration 0 (n * 7) 0"
  "moment_duration (DNumber n ''month'') = mk_duration 0 0 n"
  "moment_duration (DNumber n ''months'') = mk_duration 0 0 n"
  "moment_duration (DNumber n ''quarter'') = mk_duration 0 0 (n * 3)"
  "moment_duration (DNumber n ''year'') = mk_duration 0 0 (n * 12)"
  by (simp_all add: moment_duration_def Duration_def normalizeObjectUnits_def norm_unit_names
      unit_or_0_def Let_def)

lemma mk_duration_sel [simp]:
  "du_milliseconds (mk_duration a b c) = a" "du_days (mk_duration a b c) = b"
  "du_months (mk_duration a b c) = c"
  by (simp_all add: mk_duration_def)

text \<open>What \<open>startOf\<close> does in each case of its switch.\<close>

definition zero_time :: "env \<Rightarrow> moment \<Rightarrow> moment" where
  "zero_time e m = set_unit e Milliseconds 0 (set_unit e Seconds 0 (set_unit e Minutes 0
     (set_unit e Hours 0 m)))"

lemma startOf_unit:
  "normalizeUnits units = ''year'' \<Longrightarrow>
     startOf e units m = zero_time e (set_unit e Date 1 (set_unit e Month 0 m))"
  "normalizeUnits units = ''quarter'' \<Longrightarrow>
     startOf e units m = rawMonthSetter e (zero_time e (set_unit e Date 1 m))
       (nmap (\<lambda>mo. mo div 3 * 3) (month e (zero_time e (set_unit e Date 1 m))))"
  "normalizeUnits units = ''month'' \<Longrightarrow> startOf e units m = zero_time e (set_unit e Date 1 m)"
  "normalizeUnits units = ''week'' \<Longrightarrow> startOf e units m = set_weekday e 0 (zero_time e m)"
  "normalizeUnits units = ''isoWeek'' \<Longrightarrow> startOf e units m = set_isoWeekday e 1 (zero_time e m)"
  "normalizeUnits units = ''day'' \<Longrightarrow> startOf e units m = zero_time e m"
  "normalizeUnits units = ''hour'' \<Longrightarrow> startOf e units m =
     set_unit e Milliseconds 0 (set_unit e Seconds 0 (set_unit e Minutes 0 m))"
  "normalizeUnits units = ''minute'' \<Longrightarrow> startOf e units m =
     set_unit e Milliseconds 0 (set_unit e Seconds 0 m)"
  "normalizeUnits units = ''second'' \<Longrightarrow> startOf e units m = set_unit e Milliseconds 0 m"
  "normalizeUnits units \<notin> {''year'', ''quarter'', ''month'', ''week'', ''isoWeek'', ''day'',
      ''hour'', ''minute'', ''second''} \<Longrightarrow> startOf e units m = m"
  by (simp_all add: startOf_def zero_time_def Let_def)

lemma set_unit_locale [simp]: "m_locale (set_unit e f v m) = m_locale m"
  by (simp add: set_unit_def rawSetter_def rawMonthSetter_def Let_def)

lemma zero_time_locale [simp]: "m_locale (zero_time e m) = m_locale m"
  by (simp add: zero_time_def)

section \<open>The laws of a mode\<close>

locale gapless_mode =
  fixes e :: env and u :: bool
  assumes gapless: "gapless_clock (mode_clock e u)"

sublocale gapless_mode \<subseteq> gapless_clock "mode_clock e u"
  by (rule gapless)

context gapless_mode
begin

lemma at_clock: "mom_at e u m w \<Longrightarrow> clock_of e m = mode_clock e u"
  by (simp add: mom_at_def clock_of_def mode_clock_def)

lemma at_instant:
  assumes "mom_at e u m w"
  obtains t where "m_d m = Some t" "to_wall (mode_clock e u) t = w" "TimeClip t = Some t"
    "clock_of e m = mode_clock e u" "m_isUTC m = u" "year_ok (year_of w)"
proof -
  from assms obtain t where t: "m_d m = Some t" "to_wall (mode_clock e u) t = w"
    by (cases "m_d m") (auto simp: mom_at_def wall_time_def at_clock [OF assms])
  with assms have "TimeClip t = Some t"
    by (intro TimeClip_wall) (simp add: mom_at_def)
  with t that assms at_clock [OF assms] show ?thesis by (auto simp: mom_at_def)
qed

lemma at_get: "mom_at e u m w \<Longrightarrow> rawGetter e m f = Some (get_field f w)"
  by (erule at_instant) (simp add: rawGetter_def date_get_def)

lemma at_day: "mom_at e u m w \<Longrightarrow> get_day e m = Some (WeekDay w)"
  by (erule at_instant) (simp add: get_day_def date_get_day_def)

lemma at_clone: "mom_at e u m w \<Longrightarrow> mom_at e u (clone m) w"
  by (erule at_instant) (simp add: mom_at_def clone_def wall_time_def clock_of_def)

lemma at_clip: "m_isUTC m = u \<Longrightarrow> year_ok (year_of w) \<Longrightarrow>
    m_d m = clip_wall (mode_clock e u) w \<Longrightarrow> mom_at e u m w"
  by (simp add: mom_at_def wall_time_def clip_wall_Some clock_of_def wall_of mode_clock_def [symmetric])

lemma at_set:
  assumes "mom_at e u m w" "f \<noteq> Month" "year_ok (year_of (set_field f v w))"
  shows "mom_at e u (rawSetter e m f (Some v)) (set_field f v w)"
proof (rule at_clip)
  show "m_isUTC (rawSetter e m f (Some v)) = u"
    using assms by (simp add: rawSetter_def mom_at_def)
  show "m_d (rawSetter e m f (Some v)) = clip_wall (mode_clock e u) (set_field f v w)"
    using assms by (auto elim!: at_instant simp: rawSetter_def date_set_def at_clock)
qed fact

lemma at_month:
  assumes "mom_at e u m w" "clamp_ok (year_of w) v" "year_ok (year_of w + v div 12)"
  shows "mom_at e u (rawMonthSetter e m (Some v)) (set_month_w v w)"
proof (rule at_clip)
  show "m_isUTC (rawMonthSetter e m (Some v)) = u"
    using assms by (simp add: rawMonthSetter_def mom_at_def Let_def)
  show "year_ok (year_of (set_month_w v w))"
    using assms by (simp add: set_month_w_fields)
  let ?y = "year_of w + v div 12"
  have "daysInMonth (year_of w) v = Some (month_length (InLeapYear ?y) (v mod 12))"
  proof (cases "0 \<le> year_of w \<and> year_of w \<le> 99")
    case True
    with assms(2) have "0 \<le> v" "v < 12" "\<not> (year_of w = 0 \<and> v = 1)"
      by (auto simp: clamp_ok_def)
    with True show ?thesis
      by (simp add: daysInMonth_eq year_ok_def)
  next
    case False
    then have "full_year (year_of w) = year_of w" by (simp add: full_year_def)
    with assms(3) show ?thesis by (simp add: daysInMonth_carry)
  qed
  then have "nmin (rawGetter e m Date) (daysInMonth_num (rawGetter e m FullYear) (Some v)) =
      Some (min (date_of w) (month_length (InLeapYear ?y) (v mod 12)))"
    using assms(1) by (simp add: at_get daysInMonth_num_def nmin_def)
  then show "m_d (rawMonthSetter e m (Some v)) = clip_wall (mode_clock e u) (set_month_w v w)"
    using assms(1) MakeDay_month_carry [of "year_of w" v]
    by (auto elim!: at_instant simp: rawMonthSetter_def Let_def date_set_month_def at_clock
        set_month_date_def set_month_w_def)
qed

lemma at_set_unit:
  "mom_at e u m w \<Longrightarrow> f \<noteq> Month \<Longrightarrow> year_ok (year_of (set_field f v w)) \<Longrightarrow>
     mom_at e u (set_unit e f v m) (set_field f v w)"
  by (simp add: set_unit_def at_set)

lemma at_zero_field:
  assumes "mom_at e u m w" "f \<in> {Hours, Minutes, Seconds, Milliseconds}"
  shows "mom_at e u (set_unit e f 0 m) (set_field f 0 w)"
  using assms by (intro at_set_unit) (auto simp: year_of_zeroed mom_at_def)

lemma at_zero_day:
  assumes "mom_at e u m w"
  shows "mom_at e u (set_unit e Milliseconds 0 (set_unit e Seconds 0 (set_unit e Minutes 0
    (set_unit e Hours 0 m)))) (day_start_w w)"
  unfolding time_zero_chain(4) [symmetric] by (intro at_zero_field assms) simp_all

lemma at_first_of_month:
  assumes "mom_at e u m w"
  shows "mom_at e u (set_unit e Date 1 m) (set_field Date 1 w)"
  using assms first_of_month_fields [of w] by (intro at_set_unit) (simp_all add: mom_at_def del: set_field.simps)

lemma at_add_days:
  assumes "mom_at e u m w" "year_ok (year_of (w + n * msPerDay))"
  shows "mom_at e u (add_num e m (Some n) ''d'') (w + n * msPerDay)"
proof (cases "n = 0")
  case True
  with assms show ?thesis
    by (simp add: add_num_def add_def addOrSubtractDurationFromMoment_def dur_units Let_def)
next
  case False
  have "mom_at e u (rawSetter e m Date (Some (date_of w + n))) (set_field Date (date_of w + n) w)"
    using assms by (intro at_set) (simp_all add: set_date_add del: set_field.simps)
  with False assms(1) show ?thesis
    by (simp add: add_num_def add_def addOrSubtractDurationFromMoment_def dur_units Let_def at_get
        nadd_def set_date_add del: set_field.simps)
qed

lemma at_add_months:
  assumes "mom_at e u m w" "clamp_ok (year_of w) (month_of w + n)"
    "year_ok (year_of w + (month_of w + n) div 12)"
  shows "mom_at e u (add_num e m (Some n) ''M'') (set_month_w (month_of w + n) w)"
proof (cases "n = 0")
  case True
  with assms show ?thesis
    by (simp add: add_num_def add_def addOrSubtractDurationFromMoment_def dur_units Let_def set_month_w_same)
next
  case False
  with assms at_month [OF assms] show ?thesis
    by (simp add: add_num_def add_def addOrSubtractDurationFromMoment_def dur_units Let_def at_get nadd_def)
qed

lemma at_start_week:
  assumes "mom_at e u m w" "l_dow (m_locale m) = dow" "dow \<in> {0..6}"
    and "year_ok (year_of (start_w dow ''week'' w))"
  shows "mom_at e u (set_weekday e 0 (zero_time e m)) (start_w dow ''week'' w)"
proof -
  let ?k = "(WeekDay w + 7 - dow) mod 7"
  have z: "mom_at e u (zero_time e m) (day_start_w w)"
    unfolding zero_time_def by (rule at_zero_day) fact
  have "0 \<le> WeekDay w + 7 - dow"
    using assms(3) WeekDay_range [of w] by simp
  then have wd: "weekday e (zero_time e m) = Some ?k"
    using at_day [OF z] assms(2) by (simp add: weekday_def day_start_fields js_mod_pos)
  have eq: "day_start_w w + - ?k * msPerDay = start_w dow ''week'' w"
    by (simp add: start_w_def day_start_w_def MakeDate_def algebra_simps)
  show ?thesis
    using at_add_days [OF z, of "- ?k"] assms(4)
    unfolding eq set_weekday_def wd by (simp add: nsub_def)
qed

lemma at_start_isoWeek:
  assumes "mom_at e u m w" "year_ok (year_of (start_w dow ''isoWeek'' w))"
  shows "mom_at e u (set_isoWeekday e 1 (zero_time e m)) (start_w dow ''isoWeek'' w)"
proof -
  let ?k = "(WeekDay w + 6) mod 7"
  have z: "mom_at e u (zero_time e m) (day_start_w w)"
    unfolding zero_time_def by (rule at_zero_day) fact
  note r = WeekDay_range [of w]
  have k: "(if WeekDay w \<noteq> 0 then 1 else - 6) - WeekDay w = - ?k"
    using r mod_add_self2 [of "WeekDay w - 1" 7] by (cases "WeekDay w = 0") (simp_all add: mod_pos_pos_trivial add.commute)
  have eq: "day_start_w w + - ?k * msPerDay = start_w dow ''isoWeek'' w"
    by (simp add: start_w_def day_start_w_def MakeDate_def algebra_simps)
  have "set_isoWeekday e 1 (zero_time e m) = add_num e (zero_time e m) (Some (- ?k)) ''d''"
    using at_day [OF z] r k
    by (auto simp: set_isoWeekday_def set_day_def day_start_fields nsub_def js_mod_pos)
  then show ?thesis
    using at_add_days [OF z, of "- ?k"] assms(2) unfolding eq by simp
qed

lemma at_start_month:
  assumes "mom_at e u m w"
  shows "mom_at e u (zero_time e (set_unit e Date 1 m)) (start_w dow ''month'' w)"
  using at_zero_day [OF at_first_of_month [OF assms]]
  by (simp add: zero_time_def start_w_def day_start_w_def first_of_month_fields del: set_field.simps)

lemma at_start_day:
  "mom_at e u m w \<Longrightarrow> mom_at e u (zero_time e m) (start_w dow ''day'' w)"
  unfolding zero_time_def start_w_def by (simp add: at_zero_day)

lemma at_start_year:
  assumes "mom_at e u m w"
  shows "mom_at e u (zero_time e (set_unit e Date 1 (set_unit e Month 0 m))) (start_w dow ''year'' w)"
proof -
  have "mom_at e u (set_unit e Month 0 m) (set_month_w 0 w)"
    using assms at_month [of m w 0] by (simp add: set_unit_def rawSetter_def clamp_ok_def mom_at_def)
  from at_start_month [OF this, of dow] show ?thesis
    by (simp add: start_w_def set_month_w_fields)
qed

lemma at_start_quarter:
  assumes "mom_at e u m w"
  shows "mom_at e u (rawMonthSetter e (zero_time e (set_unit e Date 1 m))
      (nmap (\<lambda>mo. mo div 3 * 3) (month e (zero_time e (set_unit e Date 1 m)))))
    (start_w dow ''quarter'' w)"
proof -
  let ?w = "MakeDate (MakeDay (year_of w) (month_of w) 1) 0"
  let ?v = "month_of w div 3 * 3"
  have m: "mom_at e u (zero_time e (set_unit e Date 1 m)) ?w"
    using at_start_month [OF assms, of dow] by (simp add: start_w_def)
  have v1: "valid_ymd (year_of w) (month_of w) 1"
    using month_of_range [of w] month_length_range [of "InLeapYear (year_of w)" "month_of w"]
    by (simp add: valid_ymd_def)
  then have f: "year_of ?w = year_of w" "month_of ?w = month_of w" "date_of ?w = 1"
    by (simp_all add: cal_simps)
  have v: "0 \<le> ?v" "?v < 12" "?v \<noteq> 1"
    using month_of_range [of w] by (simp_all add: pos_imp_zdiv_nonneg_iff) presburger
  have "mom_at e u (rawMonthSetter e (zero_time e (set_unit e Date 1 m)) (Some ?v)) (set_month_w ?v ?w)"
    using v m assms by (intro at_month) (simp_all add: f clamp_ok_def div_pos_pos_trivial mom_at_def)
  moreover have "set_month_w ?v ?w = start_w dow ''quarter'' w"
    using v month_length_range [of "InLeapYear (year_of w)" ?v]
    by (simp add: set_month_w_def f start_w_def div_pos_pos_trivial min_absorb1)
  ultimately show ?thesis using m by (simp add: at_get f)
qed

lemma at_startOf:
  assumes m: "mom_at e u m w" and dow: "l_dow (m_locale m) = dow" "dow \<in> {0..6}"
    and ok: "year_ok (year_of (start_w dow (normalizeUnits units) w))"
  shows "mom_at e u (startOf e units m) (start_w dow (normalizeUnits units) w)"
proof -
  note chain = time_zero_chain [symmetric]
  consider "normalizeUnits units = ''year''" | "normalizeUnits units = ''quarter''"
    | "normalizeUnits units = ''month''" | "normalizeUnits units = ''week''"
    | "normalizeUnits units = ''isoWeek''" | "normalizeUnits units = ''day''"
    | "normalizeUnits units \<in> {''hour'', ''minute'', ''second''}"
    | "normalizeUnits units \<notin> {''year'', ''quarter'', ''month'', ''week'', ''isoWeek'', ''day'',
        ''hour'', ''minute'', ''second''}"
    by blast
  then show ?thesis
  proof cases
    case 7
    then show ?thesis
      using at_zero_field [OF at_zero_field [OF at_zero_field [OF m, of Minutes], of Seconds], of Milliseconds]
        at_zero_field [OF at_zero_field [OF m, of Seconds], of Milliseconds]
        at_zero_field [OF m, of Milliseconds]
      by (auto simp: startOf_unit start_w_def chain(1,2,3) simp del: set_field.simps)
  next
    case 8
    with m show ?thesis by (simp add: startOf_unit start_w_def)
  qed (use m dow ok in \<open>simp_all add: startOf_unit at_start_year at_start_quarter at_start_month
      at_start_week at_start_isoWeek at_start_day\<close>)
qed

end

end
