(* ===== verification/Moment_Steady.thy ===== *)
theory Moment_Steady
  imports Moment_Wall
begin

text \<open>
  The wall-time view, continued: operations that go through the instant (\<open>valueOf\<close>, milliseconds),
  on a clock that runs steadily, and what rests on them: comparison, end of a unit, day and week of
  the year.
\<close>

section \<open>Operations that only move the date\<close>

definition moves :: "moment \<Rightarrow> moment \<Rightarrow> bool" where
  "moves m m' \<longleftrightarrow> m' = m\<lparr>m_d := m_d m'\<rparr>"

lemma moves_refl [simp]: "moves m m"
  by (simp add: moves_def)

lemma moves_trans: "moves m m' \<Longrightarrow> moves m' m'' \<Longrightarrow> moves m m''"
  unfolding moves_def by (metis moment.fold_congs(9) moment.surjective moment.update_convs(9))

lemma moves_upd [simp]: "moves m (m\<lparr>m_d := d\<rparr>)"
  by (simp add: moves_def)

lemma moves_rawMonthSetter [simp]: "moves m (rawMonthSetter e m v)"
  by (simp add: rawMonthSetter_def Let_def)

lemma moves_rawSetter [simp]: "moves m (rawSetter e m f v)"
  by (simp add: rawSetter_def)

lemma moves_set_unit [simp]: "moves m (set_unit e f v m)"
  by (simp add: set_unit_def)

lemma moves_rawMonthSetter_trans: "moves m m' \<Longrightarrow> moves m (rawMonthSetter e m' v)"
  by (erule moves_trans) simp

lemma moves_rawSetter_trans: "moves m m' \<Longrightarrow> moves m (rawSetter e m' f v)"
  by (erule moves_trans) simp

lemma moves_set_unit_trans: "moves m m' \<Longrightarrow> moves m (set_unit e f v m')"
  by (erule moves_trans) simp

lemma moves_addDuration [simp]: "moves m (addOrSubtractDurationFromMoment e m d k)"
  unfolding addOrSubtractDurationFromMoment_def Let_def
  by (auto intro!: moves_rawMonthSetter_trans moves_rawSetter_trans)

lemma moves_add [simp]: "moves m (add e m n p)" "moves m (subtract e m n p)" "moves m (add_num e m k p)"
  by (simp_all add: add_def subtract_def add_num_def)

lemma moves_add_trans :
  "moves m m' \<Longrightarrow> moves m (add_num e m' k p)" "moves m m' \<Longrightarrow> moves m (add e m' n p)"
  "moves m m' \<Longrightarrow> moves m (subtract e m' n p)"
  by (rule moves_trans, assumption, simp)+

lemma moves_startOf [simp]: "moves m (startOf e units m)"
  unfolding startOf_def Let_def set_weekday_def set_isoWeekday_def set_day_def
  by (auto intro!: moves_set_unit_trans moves_rawMonthSetter_trans moves_add_trans)

lemma moves_sel:
  assumes "moves m m'"
  shows "m_offset m' = m_offset m" "m_isUTC m' = m_isUTC m" "m_locale m' = m_locale m"
    "m_pf m' = m_pf m" "m_strict m' = m_strict m" "m_a m' = m_a m"
  using assms unfolding moves_def by (metis moment.select_convs moment.surjective moment.update_convs(9))+

section \<open>Ends of units\<close>

text \<open>The first wall time of the unit after the one that \<open>w\<close> lies in, and the last one of it.\<close>

definition next_w :: "int \<Rightarrow> string \<Rightarrow> int \<Rightarrow> int" where
  "next_w dow units w =
     (let s = start_w dow units w in
      if units = ''year'' then set_month_w 12 s
      else if units = ''quarter'' then set_month_w (month_of s + 3) s
      else if units = ''month'' then set_month_w (month_of s + 1) s
      else if units = ''week'' \<or> units = ''isoWeek'' then s + 7 * msPerDay
      else if units = ''day'' then s + msPerDay
      else if units = ''hour'' then s + 3600000
      else if units = ''minute'' then s + 60000
      else if units = ''second'' then s + 1000
      else s + 1)"

definition end_w :: "int \<Rightarrow> string \<Rightarrow> int \<Rightarrow> int" where
  "end_w dow units w = next_w dow units w - 1"

definition unit_names :: "string list" where
  "unit_names = [''year'', ''quarter'', ''month'', ''week'', ''isoWeek'', ''day'', ''hour'', ''minute'',
     ''second'', ''millisecond'']"

lemma norm_unit_idem: "u \<in> set unit_names \<Longrightarrow> normalizeUnits u = u"
  by (auto simp: unit_names_def norm_unit_names)

lemma start_of_year_fields:
  "year_of (start_w dow ''year'' w) = year_of w" "month_of (start_w dow ''year'' w) = 0"
  using min_day_valid [of 0 1 "year_of w"] month_length_range [of "InLeapYear (year_of w)" 0]
  by (simp_all add: start_w_def cal_simps)

lemma first_valid: "0 \<le> mo \<Longrightarrow> mo < 12 \<Longrightarrow> valid_ymd y mo 1"
  using month_length_range [of "InLeapYear y" mo] by (simp add: valid_ymd_def)

lemma start_of_month_fields:
  "year_of (start_w dow ''month'' w) = year_of w" "month_of (start_w dow ''month'' w) = month_of w"
  using month_of_range [of w] by (simp_all add: start_w_def cal_simps first_valid)

lemma start_of_quarter_fields:
  "year_of (start_w dow ''quarter'' w) = year_of w"
  "month_of (start_w dow ''quarter'' w) = month_of w div 3 * 3"
proof -
  have "0 \<le> month_of w div 3 * 3" "month_of w div 3 * 3 < 12"
    using month_of_range [of w] by (simp_all add: pos_imp_zdiv_nonneg_iff)
  then show "year_of (start_w dow ''quarter'' w) = year_of w"
    "month_of (start_w dow ''quarter'' w) = month_of w div 3 * 3"
    by (simp_all add: start_w_def cal_simps first_valid)
qed

text \<open>The unit that \<open>endOf\<close> adds and the number of months, days and milliseconds in it.\<close>

lemma add_period: "moment_duration (DNumber n p) = moment_duration (DNumber n' p') \<Longrightarrow>
    add e m n p = add_num e m (Some n') p'"
  by (simp add: add_num_def add_def)

definition end_period :: "string \<Rightarrow> string" where
  "end_period units = (if units = ''isoWeek'' then ''week'' else units)"

lemma ten_cases:
  assumes "x \<in> set [a, b, c, d, f, g, h, i, j, k]"
  obtains "x = a" | "x = b" | "x = c" | "x = d" | "x = f" | "x = g" | "x = h" | "x = i" | "x = j" | "x = k"
  using assms by auto

lemma unit_cases:
  assumes "U \<in> set unit_names"
  obtains "U = ''year''" | "U = ''quarter''" | "U = ''month''" | "U = ''week''" | "U = ''isoWeek''"
    | "U = ''day''" | "U = ''hour''" | "U = ''minute''" | "U = ''second''" | "U = ''millisecond''"
  by (rule ten_cases [OF assms [unfolded unit_names_def]])

lemma unit_step:
  assumes "U \<in> set unit_names"
  obtains (ms) k where "moment_duration (DNumber 1 (end_period U)) = mk_duration k 0 0"
      "next_w dow U w = start_w dow U w + k"
    | (days) k where "moment_duration (DNumber 1 (end_period U)) = mk_duration 0 k 0"
      "next_w dow U w = start_w dow U w + k * msPerDay"
    | (months) k where "moment_duration (DNumber 1 (end_period U)) = mk_duration 0 0 k"
      "next_w dow U w = set_month_w (month_of (start_w dow U w) + k) (start_w dow U w)"
      "year_of (start_w dow U w) = year_of w"
proof -
  note s = next_w_def Let_def end_period_def dur_unit_names start_of_year_fields
    start_of_quarter_fields start_of_month_fields
  show ?thesis
    using assms
  proof (cases rule: unit_cases)
    case 1 then show ?thesis by (intro months [of 12]) (simp_all add: s)
  next
    case 2 then show ?thesis by (intro months [of 3]) (simp_all add: s)
  next
    case 3 then show ?thesis by (intro months [of 1]) (simp_all add: s)
  next
    case 4 then show ?thesis by (intro days [of 7]) (simp_all add: s)
  next
    case 5 then show ?thesis by (intro days [of 7]) (simp_all add: s)
  next
    case 6 then show ?thesis by (intro days [of 1]) (simp_all add: s)
  next
    case 7 then show ?thesis by (intro ms [of 3600000]) (simp_all add: s)
  next
    case 8 then show ?thesis by (intro ms [of 60000]) (simp_all add: s)
  next
    case 9 then show ?thesis by (intro ms [of 1000]) (simp_all add: s)
  next
    case 10 then show ?thesis by (intro ms [of 1]) (simp_all add: s)
  qed
qed

section \<open>Weeks of the year\<close>

text \<open>
  The week a day belongs to is the week of the year in which its pivot day lies: the day \<open>doy\<close> of the
  week that starts on day \<open>dow\<close> (Thursday for ISO weeks). \<open>pivot_days\<close> is the distance to it as the
  code computes it.
\<close>

definition pivot_days :: "int \<Rightarrow> int \<Rightarrow> int \<Rightarrow> int" where
  "pivot_days dow doy d =
     (let k = doy - d; k = (if k > doy - dow then k - 7 else k)
      in if k < doy - dow - 7 then k + 7 else k)"

definition week_pivot :: "int \<Rightarrow> int \<Rightarrow> int \<Rightarrow> int" where
  "week_pivot dow doy w = w + pivot_days dow doy (WeekDay w) * msPerDay"

lemma pivot_days_spec:
  "dow \<in> {0..6} \<Longrightarrow> d \<in> {0..6} \<Longrightarrow> pivot_days dow doy d = doy - dow - (d - dow) mod 7"
  unfolding pivot_days_def Let_def by simp presburger

lemma ceil_div_succ: "ceil_div (d + 1) 7 = d div 7 + 1"
  unfolding ceil_div_def by presburger

section \<open>The laws of a steady mode\<close>

locale steady_mode =
  fixes e :: env and u :: bool
  assumes steady: "steady_clock (mode_clock e u)"

sublocale steady_mode \<subseteq> steady_clock "mode_clock e u"
  by (rule steady)

sublocale steady_mode \<subseteq> gapless_mode e u
  by unfold_locales

context steady_mode
begin

lemma at_shift:
  assumes "mom_at e u m w" "year_ok (year_of (w + n))"
  shows "mom_at e u (m\<lparr>m_d := date_set_time (nadd (m_d m) (Some n))\<rparr>) (w + n)"
proof -
  from assms(1) obtain t where t: "m_d m = Some t" "to_wall (mode_clock e u) t = w"
    "clock_of e m = mode_clock e u" "m_isUTC m = u" by (rule at_instant)
  then have "to_wall (mode_clock e u) (t + n) = w + n" by (simp add: shift)
  with assms(2) have "TimeClip (t + n) = Some (t + n)" by (intro TimeClip_wall) simp
  with t assms(2) shift [of t n] show ?thesis
    by (simp add: mom_at_def wall_time_def nadd_def date_set_time_def clock_of_def mode_clock_def)
qed

lemma at_add_ms:
  assumes "mom_at e u m w" "year_ok (year_of (w + n))"
  shows "mom_at e u (add_num e m (Some n) ''ms'') (w + n)"
  using assms at_shift [OF assms]
  by (cases "n = 0") (simp_all add: add_num_def add_def addOrSubtractDurationFromMoment_def dur_units Let_def)

lemma at_subtract_ms:
  assumes "mom_at e u m w" "year_ok (year_of (w - n))"
  shows "mom_at e u (subtract e m n ''ms'') (w - n)"
  using assms at_shift [of m w "- n"]
  by (cases "n = 0") (simp_all add: subtract_def addOrSubtractDurationFromMoment_def dur_units Let_def)

lemma at_value:
  assumes "mom_at e u m w" "mom_at e u m' w'" "m_offset m' = m_offset m"
  obtains t t' where "valueOf m = Some t" "valueOf m' = Some t'" "t' - t = w' - w"
proof -
  obtain s where s: "m_d m = Some s" "to_wall (mode_clock e u) s = w"
    using assms(1) by (rule at_instant)
  obtain s' where s': "m_d m' = Some s'" "to_wall (mode_clock e u) s' = w'"
    using assms(2) by (rule at_instant)
  show ?thesis
    using that [of "s + m_offset m * 60000" "s' + m_offset m' * 60000"] s s' wall_diff [of s' s] assms(3)
    by (simp add: valueOf_def nadd_def)
qed

lemma at_compare:
  assumes "mom_at e u m w" "mom_at e u m' w'" "m_offset m' = m_offset m"
  shows "isAfter e m m' ''millisecond'' \<longleftrightarrow> w > w'" "isBefore e m m' ''millisecond'' \<longleftrightarrow> w < w'"
proof -
  have "m_offset (clone m') = m_offset (clone m)"
    using assms(3) by (simp add: clone_def)
  with at_clone [OF assms(1)] at_clone [OF assms(2)] obtain t t'
    where "valueOf (clone m) = Some t" "valueOf (clone m') = Some t'" "t' - t = w' - w"
    by (rule at_value)
  then show "isAfter e m m' ''millisecond'' \<longleftrightarrow> w > w'" "isBefore e m m' ''millisecond'' \<longleftrightarrow> w < w'"
    by (auto simp: isAfter_def isBefore_def startOf_unit norm_unit_names nlt_def ngt_def)
qed

lemma at_add_unit:
  assumes U: "U \<in> set unit_names" and y: "year_of w \<notin> {0..99}"
    and s: "mom_at e u m (start_w dow U w)" and ok: "year_ok (year_of (next_w dow U w))"
  shows "mom_at e u (add e m 1 (end_period U)) (next_w dow U w)"
  using U
proof (cases rule: unit_step [of U dow w])
  case (ms k)
  with at_add_ms [OF s, of k] ok add_period [of 1 "end_period U" k "''ms''"] show ?thesis
    by (simp add: dur_units)
next
  case (days k)
  with at_add_days [OF s, of k] ok add_period [of 1 "end_period U" k "''d''"] show ?thesis
    by (simp add: dur_units)
next
  case (months k)
  with y have "clamp_ok (year_of (start_w dow U w)) (month_of (start_w dow U w) + k)"
    by (simp add: clamp_ok_def)
  with months at_add_months [OF s, of k] ok add_period [of 1 "end_period U" k "''M''"] show ?thesis
    by (simp add: dur_units set_month_w_fields)
qed

lemma at_endOf:
  assumes m: "mom_at e u m w" and dow: "l_dow (m_locale m) = dow" "dow \<in> {0..6}"
    and U: "normalizeUnits units = U" "U \<in> set unit_names"
    and y: "year_of w \<notin> {0..99}"
    and ok: "year_ok (year_of (start_w dow U w))" "year_ok (year_of (next_w dow U w))"
      "year_ok (year_of (end_w dow U w))"
  shows "mom_at e u (endOf e units m) (end_w dow U w)"
proof -
  have "mom_at e u (startOf e U m) (start_w dow U w)"
    using at_startOf [OF m dow, of U] norm_unit_idem [OF U(2)] ok(1) by simp
  from at_add_unit [OF U(2) y this ok(2)] at_subtract_ms [of _ "next_w dow U w" 1] ok(3) U(1)
  show ?thesis
    by (simp add: endOf_def Let_def end_w_def end_period_def)
qed

lemma at_dayOfYear:
  assumes "mom_at e u m w" "l_dow (m_locale m) \<in> {0..6}"
  shows "dayOfYear e m = Some (YearDay (Day w) + 1)"
proof -
  let ?c = "clone m" and ?dow = "l_dow (m_locale m)"
  have c: "mom_at e u ?c w" "m_locale ?c = m_locale m"
    using at_clone [OF assms(1)] by (simp_all add: clone_def)
  have y: "mom_at e u (startOf e ''year'' ?c) (start_w ?dow ''year'' w)"
    by (simp add: startOf_unit norm_unit_names at_start_year c)
  have d: "mom_at e u (startOf e ''day'' ?c) (start_w ?dow ''day'' w)"
    by (simp add: startOf_unit norm_unit_names at_start_day c)
  have "m_offset (startOf e ''day'' ?c) = m_offset (startOf e ''year'' ?c)"
    by (simp add: moves_sel(1) [OF moves_startOf])
  with y d obtain t t' where t: "valueOf (startOf e ''year'' ?c) = Some t"
    "valueOf (startOf e ''day'' ?c) = Some t'"
    "t' - t = start_w ?dow ''day'' w - start_w ?dow ''year'' w"
    by (rule at_value)
  have "start_w ?dow ''day'' w - start_w ?dow ''year'' w = YearDay (Day w) * 86400000"
    by (simp add: start_w_def day_start_w_def MakeDate_def MakeDay_eq month_start_def
        YearDay_def get_field.simps algebra_simps)
  with t(3) have "t' - t = YearDay (Day w) * 86400000" by simp
  with t(1,2) round_div_exact [of 86400000 "YearDay (Day w)"] show ?thesis
    by (simp add: dayOfYear_def nsub_def mult.commute)
qed

lemma at_week_of_year:
  assumes m: "mom_at e u m w" and l: "l_dow (m_locale m) \<in> {0..6}"
    and dow: "dow \<in> {0..6}" "doy \<in> {dow..dow + 6}"
    and ok: "year_ok (year_of (week_pivot dow doy w))"
  shows "weekOfYear e m dow doy =
    (Some (YearDay (Day (week_pivot dow doy w)) div 7 + 1), Some (year_of (week_pivot dow doy w)))"
proof -
  let ?k = "pivot_days dow doy (WeekDay w)"
  let ?a = "add_num e (clone m) (Some ?k) ''d''"
  have c: "mom_at e u (clone m) w" "m_locale (clone m) = m_locale m"
    using at_clone [OF m] by (simp_all add: clone_def)
  have a: "mom_at e u ?a (week_pivot dow doy w)"
    using at_add_days [OF c(1), of ?k] ok by (simp add: week_pivot_def)
  have "m_locale ?a = m_locale m"
    using moves_sel(3) [OF moves_add(3)] c(2) by simp
  then have "dayOfYear e ?a = Some (YearDay (Day (week_pivot dow doy w)) + 1)"
    using at_dayOfYear [OF a] l by simp
  moreover have "weekOfYear e m dow doy = (nmap (\<lambda>d. ceil_div d 7) (dayOfYear e ?a), year e ?a)"
    using at_day [OF m] by (simp add: weekOfYear_def Let_def pivot_days_def nsub_def ngt_def nlt_def)
  ultimately show ?thesis
    using at_get [OF a] by (simp add: ceil_div_succ)
qed

end

interpretation utc_mode: steady_mode e True for e
  by unfold_locales (simp_all add: mode_clock_def)

lemma local_zone_mode: "e_zone e = fixed_zone k \<Longrightarrow> \<bar>k\<bar> \<le> 1440 \<Longrightarrow> steady_mode e False"
  by unfold_locales (simp_all add: mode_clock_def fixed_zone_def)

end
