(* ===== verification/Moment_Calendar.thy ===== *)
theory Moment_Calendar
  imports Moment_Steady Moment_Locale
begin

text \<open>
  What the date arithmetic of \<open>moment-2.8.1.js\<close> promises: the properties of the helpers, of setting
  and adding units, of the start and end of units, and of the week numbering. They hold on every
  clock that satisfies the interface (\<open>gapless_clock\<close> or \<open>steady_clock\<close>): UTC, any fixed offset, and
  a local zone without clock changes.
\<close>

section \<open>Concrete moments for the witnesses\<close>

definition host :: env where
  "host = init_env (fixed_zone 60) 1400000000000 (\<lambda>_. None) (\<lambda>_. '''')"

definition sample :: "bool \<Rightarrow> int \<Rightarrow> moment" where
  "sample u t =
     \<lparr>m_i = INumber (Some t), m_f = FUndefined, m_strict = False, m_tzm = None, m_isUTC = u,
      m_offset = 0, m_pf = defaultParsingFlags, m_locale = en, m_d = Some t, m_isValid = None,
      m_a = None\<rparr>"

lemma sample_sel [simp]: "m_isUTC (sample u t) = u" "m_d (sample u t) = Some t"
    "m_locale (sample u t) = en" "m_offset (sample u t) = 0"
  by (simp_all add: sample_def)

lemma sample_utc_at: "year_ok (year_of t) \<Longrightarrow> mom_at e True (sample True t) t"
  by (simp add: mom_at_def wall_time_def clock_of_def)

lemma sample_local_at:
  "year_ok (year_of (t + 3600000)) \<Longrightarrow> mom_at host False (sample False t) (t + 3600000)"
  by (simp add: mom_at_def wall_time_def clock_of_def host_def en_init fixed_zone_def)

lemma host_steady: "steady_clock (mode_clock host u)"
proof (cases u)
  case True
  then show ?thesis by (simp add: mode_clock_def utc.steady_clock_axioms)
next
  case False
  have "steady_mode host False"
    by (rule local_zone_mode [of _ 60]) (simp_all add: host_def en_init)
  with False show ?thesis by (simp add: steady_mode_def)
qed

lemma host_gapless: "gapless_clock (mode_clock host u)"
  using host_steady [of u] by (simp add: steady_clock_def)

section \<open>Helpers\<close>

text \<open>
  \<open>daysInMonth\<close> is the Gregorian month length, for every month of every year in the range of
  dates except February of the year 0.
\<close>

theorem daysInMonth_gregorian:
  assumes "0 \<le> m" "m < 12" "year_ok y" "\<not> (y = 0 \<and> m = 1)"
  shows "daysInMonth y m =
    Some (if m = 1 then (if isLeapYear y then 29 else 28) else if m \<in> {3, 5, 8, 10} then 30 else 31)"
  using month_cases [OF assms(1,2)] daysInMonth_eq [OF assms]
  by (auto simp: isLeapYear_iff month_length_def month_start_def)

theorem daysInMonth_gregorian_witness: "daysInMonth 2016 1 = Some 29"
  using daysInMonth_gregorian [of 1 2016] by (simp add: year_ok_def isLeapYear_def js_mod_pos)

text \<open>
  February of the year 0 has 28 days for \<open>daysInMonth\<close> and 29 for \<open>isLeapYear\<close>: the native
  constructor reads the year as 1900. February 29 of that year becomes March 1.
\<close>

theorem year_zero_february:
  "daysInMonth 0 1 = Some 28 \<and> isLeapYear 0 \<and> daysInYear 0 = 366 \<and>
   makeUTCDate 0 1 29 0 0 0 0 = Some (MakeDate (MakeDay 0 2 1) 0)"
  by code_simp

text \<open>
  Reading the fields of a UTC moment and building a date from them gives the moment's instant
  back, February 29 of the year 0 excepted.
\<close>

theorem makeUTCDate_toArray:
  assumes "m_isUTC m" "m_d m = Some t" "year_ok (year_of t)"
    "\<not> (year_of t = 0 \<and> month_of t = 1 \<and> date_of t = 29)"
  shows "\<exists>y mo d h mi s ms. toArray e m = map Some [y, mo, d, h, mi, s, ms] \<and>
    makeUTCDate y mo d h mi s ms = Some t"
proof (intro exI conjI)
  show "toArray e m = map Some [year_of t, month_of t, date_of t, hours_of t, minutes_of t,
      seconds_of t, ms_of t]"
    using assms by (simp add: toArray_def rawGetter_def clock_of_def date_get_def)
  show "makeUTCDate (year_of t) (month_of t) (date_of t) (hours_of t) (minutes_of t) (seconds_of t)
      (ms_of t) = Some t"
    using utc.makeClockDate_fields [OF valid_ymd_wall valid_time_fields assms(3,4)] wall_of_fields [of t]
      utc.clip_wall_Some [OF assms(3)]
    by (simp add: makeUTCDate_def cal_simps)
qed

theorem makeUTCDate_toArray_witness:
  "\<exists>y mo d h mi s ms. toArray host (sample True 1409529600000) = map Some [y, mo, d, h, mi, s, ms] \<and>
    makeUTCDate y mo d h mi s ms = Some 1409529600000"
proof (rule makeUTCDate_toArray)
  show "year_ok (year_of 1409529600000)"
    "\<not> (year_of 1409529600000 = 0 \<and> month_of 1409529600000 = 1 \<and> date_of 1409529600000 = 29)"
    by code_simp+
qed simp_all

text \<open>
  C7. \<open>checkOverflow\<close> finds no overflow exactly when the seven fields are a date of the calendar and
  a time of day.
\<close>

theorem overflow_of_valid:
  assumes "year_ok y" "\<not> (y = 0 \<and> mo = 1)"
  shows "overflow_of (map Some [y, mo, d, h, mi, s, ms]) = -1 \<longleftrightarrow> valid_ymd y mo d \<and> valid_time h mi s ms"
proof (cases "0 \<le> mo \<and> mo < 12")
  case True
  with assms have "daysInMonth y mo = Some (month_length (InLeapYear y) mo)"
    by (intro daysInMonth_eq) auto
  with True show ?thesis
    by (auto simp: overflow_of_def valid_ymd_def valid_time_def nlt_def ngt_def not_less)
next
  case False
  then show ?thesis by (auto simp: overflow_of_def valid_ymd_def nlt_def ngt_def)
qed

theorem overflow_of_valid_witness:
  "overflow_of (map Some [2015, 1, 29, 0, 0, 0, 0]) \<noteq> -1"
  using overflow_of_valid [of 2015 1 29 0 0 0 0]
  by (simp add: year_ok_def valid_ymd_def month_length_def month_start_def InLeapYear_def)

section \<open>Adding units\<close>

text \<open>
  C3. Adding \<open>n\<close> months moves the calendar month by \<open>n\<close>, carries into the year, keeps the time of day
  and clamps the day to the length of the new month.
\<close>

theorem add_months_clamps:
  assumes "gapless_clock (mode_clock e u)" "mom_at e u m w" "year_of w \<notin> {0..99}"
    "year_ok (year_of w + (month_of w + n) div 12)"
  shows "\<exists>w'. wall_time e (add e m n ''months'') = Some w' \<and>
    year_of w' = year_of w + (month_of w + n) div 12 \<and> month_of w' = (month_of w + n) mod 12 \<and>
    date_of w' = min (date_of w) (month_length (InLeapYear (year_of w')) (month_of w')) \<and>
    TimeWithinDay w' = TimeWithinDay w"
proof -
  have "mom_at e u (add_num e m (Some n) ''M'') (set_month_w (month_of w + n) w)"
    using assms by (intro gapless_mode.at_add_months) (auto simp: gapless_mode_def clamp_ok_def)
  moreover have "add e m n ''months'' = add_num e m (Some n) ''M''"
    by (rule add_period) (simp add: dur_units dur_unit_names)
  ultimately show ?thesis
    by (intro exI [of _ "set_month_w (month_of w + n) w"]) (simp add: mom_at_def set_month_w_fields)
qed

text \<open>2016-01-31 and a month is 2016-02-29.\<close>

theorem add_months_clamps_witness:
  "\<exists>w'. wall_time host (add host (sample False 1454198400000) 1 ''months'') = Some w' \<and>
     year_of w' = 2016 \<and> month_of w' = 1 \<and> date_of w' = 29"
proof -
  have w: "year_of 1454202000000 = 2016" "month_of 1454202000000 = 0" "date_of 1454202000000 = 31"
    by code_simp+
  have "mom_at host False (sample False 1454198400000) 1454202000000"
    using sample_local_at [of 1454198400000] by (simp add: w year_ok_def)
  from add_months_clamps [OF host_gapless this, of 1] show ?thesis
    by (auto simp: w year_ok_def month_length_def month_start_def InLeapYear_def)
qed

text \<open>
  Adding \<open>n\<close> days moves the wall time by exactly \<open>n\<close> days of 24 hours, also across months and
  years, and subtracting them again gives the wall time back.
\<close>

theorem add_days_exact:
  assumes "gapless_clock (mode_clock e u)" "mom_at e u m w" "year_ok (year_of (w + n * msPerDay))"
  shows "wall_time e (add e m n ''days'') = Some (w + n * msPerDay) \<and>
    wall_time e (subtract e (add e m n ''days'') n ''days'') = Some w"
proof -
  note g = gapless_mode.intro [OF assms(1)]
  have eq: "add e m' k ''days'' = add_num e m' (Some k) ''d''" for m' k
    by (rule add_period) (simp add: dur_units dur_unit_names)
  have sub: "subtract e m' k ''days'' = add_num e m' (Some (- k)) ''d''" for m' k
    by (simp add: subtract_def add_num_def add_def addOrSubtractDurationFromMoment_def dur_units
        dur_unit_names Let_def)
  have a: "mom_at e u (add e m n ''days'') (w + n * msPerDay)"
    unfolding eq using assms by (intro gapless_mode.at_add_days [OF g])
  have "mom_at e u (subtract e (add e m n ''days'') n ''days'') (w + n * msPerDay + - n * msPerDay)"
    unfolding sub using assms(2) by (intro gapless_mode.at_add_days [OF g a]) (simp add: mom_at_def)
  with a show ?thesis by (simp add: mom_at_def)
qed

theorem add_days_exact_witness:
  "wall_time host (add host (sample True 1454198400000) 30 ''days'') = Some 1456790400000 \<and>
   wall_time host (subtract host (add host (sample True 1454198400000) 30 ''days'') 30 ''days'')
     = Some 1454198400000"
proof -
  have "year_ok (year_of 1454198400000)" "year_ok (year_of (1454198400000 + 30 * msPerDay))"
    by code_simp+
  with add_days_exact [OF host_gapless sample_utc_at, of 1454198400000 30] show ?thesis by simp
qed

section \<open>Start and end of a unit\<close>

lemma MakeDay_month_step:
  "MakeDay y (m + 1) 1 = MakeDay y m 1 + month_length (InLeapYear (y + m div 12)) (m mod 12)"
proof -
  have "MakeDay y (m + 1) 1 = MakeDay y (m + 1) 0 + 1"
    using MakeDay_add [of y "m + 1" 0 1] by simp
  also have "\<dots> = MakeDay (y + m div 12) (m mod 12) 1 +
      month_length (InLeapYear (y + m div 12)) (m mod 12)"
    using MakeDay_add [of "y + m div 12" "m mod 12" 1
        "month_length (InLeapYear (y + m div 12)) (m mod 12) - 1"]
    by (simp add: MakeDay_zeroth)
  finally show ?thesis using MakeDay_month_carry [of y m 1] by simp
qed

lemma MakeDay_next_month: "MakeDay y m 1 < MakeDay y (m + 1) 1"
  using MakeDay_month_step [of y m] month_length_range [of "InLeapYear (y + m div 12)" "m mod 12"] by simp

lemma MakeDay_months_mono: "m \<le> m' \<Longrightarrow> MakeDay y m 1 \<le> MakeDay y m' 1"
proof -
  have "MakeDay y m 1 \<le> MakeDay y (m + int k) 1" for k
  proof (induction k)
    case (Suc k)
    then show ?case using MakeDay_next_month [of y "m + int k"] by (simp add: algebra_simps)
  qed simp
  moreover assume "m \<le> m'"
  ultimately show ?thesis by (metis zle_iff_zadd)
qed

lemma Day_less_next_month: "month_of w < v \<Longrightarrow> Day w < MakeDay (year_of w) v 1"
proof -
  assume v: "month_of w < v"
  let ?y = "year_of w" and ?m = "month_of w"
  have "Day w = MakeDay ?y ?m 1 + (date_of w - 1)"
    using MakeDay_fields [of "Day w"] MakeDay_add [of ?y ?m 1 "date_of w - 1"]
    by (simp add: get_field.simps)
  moreover have "date_of w \<le> month_length (InLeapYear ?y) ?m"
    using valid_ymd_wall [of w] by (simp add: valid_ymd_def del: valid_ymd_wall)
  moreover have "MakeDay ?y (?m + 1) 1 = MakeDay ?y ?m 1 + month_length (InLeapYear ?y) ?m"
    using MakeDay_month_step [of ?y ?m] month_of_range [of w] by (simp add: div_pos_pos_trivial)
  ultimately have "Day w < MakeDay ?y (?m + 1) 1" by linarith
  also have "\<dots> \<le> MakeDay ?y v 1"
    using v by (intro MakeDay_months_mono) simp
  finally show ?thesis .
qed

lemma set_month_first:
  assumes "0 \<le> mo" "mo < 12"
  shows "set_month_w v (MakeDate (MakeDay y mo 1) 0) = MakeDate (MakeDay y v 1) 0"
proof -
  have f: "year_of (MakeDate (MakeDay y mo 1) 0) = y" "date_of (MakeDate (MakeDay y mo 1) 0) = 1"
    using first_valid [OF assms] by (simp_all add: cal_simps)
  have "min 1 (month_length (InLeapYear (y + v div 12)) (v mod 12)) = 1"
    using month_length_range [of "InLeapYear (y + v div 12)" "v mod 12"] by simp
  then show ?thesis
    by (simp add: set_month_w_def f MakeDay_month_carry [of y v])
qed

lemma before_day: "Day w < d \<Longrightarrow> w < MakeDate d 0"
proof -
  assume "Day w < d"
  then have "(Day w + 1) * msPerDay \<le> d * msPerDay"
    by (intro mult_right_mono) simp_all
  with wall_split [of w] show ?thesis by (simp add: MakeDate_def algebra_simps)
qed

lemma next_w_gt: "U \<in> set unit_names \<Longrightarrow> dow \<in> {0..6} \<Longrightarrow> w < next_w dow U w"
proof -
  assume U: "U \<in> set unit_names" and dow: "dow \<in> {0..6}"
  note r = month_of_range [of w]
  have q: "0 \<le> month_of w div 3 * 3" "month_of w div 3 * 3 < 12" "month_of w < month_of w div 3 * 3 + 3"
    using r by (simp_all add: pos_imp_zdiv_nonneg_iff)
  note s = next_w_def Let_def start_w_def day_start_w_def set_month_first
  have week: "w < MakeDate (Day w - k) 0 + 7 * msPerDay" if "k < 7" for k
    using before_day [of w "Day w - k + 7"] that by (simp add: MakeDate_def algebra_simps)
  have rest: "w < w - w mod k + k" if "0 < k" for k :: int
    using pos_mod_bound [OF that, of w] by linarith
  show ?thesis
    using U
  proof (cases rule: unit_cases)
    case 1 then show ?thesis using before_day [OF Day_less_next_month [of w 12]] r by (simp add: s)
  next
    case 2 then show ?thesis
      using before_day [OF Day_less_next_month [OF q(3)]] q
      by (simp add: s start_of_quarter_fields [unfolded start_w_def, simplified])
  next
    case 3 then show ?thesis
      using before_day [OF Day_less_next_month [of w "month_of w + 1"]] r
      by (simp add: s start_of_month_fields [unfolded start_w_def, simplified])
  next
    case 4 then show ?thesis using week [of "(WeekDay w + 7 - dow) mod 7"] by (simp add: s)
  next
    case 5 then show ?thesis using week [of "(WeekDay w + 6) mod 7"] by (simp add: s)
  next
    case 6 then show ?thesis using before_day [of w "Day w + 1"] by (simp add: s MakeDate_def algebra_simps)
  qed (use rest in \<open>simp_all add: s\<close>)
qed

text \<open>
  C1. \<open>startOf(units)\<close> moves a moment to the first wall time of the unit that it lies in (year,
  quarter, month, week of the locale, ISO week, day, hour, minute, second), which is not after it.
\<close>

theorem startOf_refines:
  assumes "gapless_clock (mode_clock e u)" "mom_at e u m w" "l_dow (m_locale m) \<in> {0..6}"
    and "start_w (l_dow (m_locale m)) (normalizeUnits units) w = s" "year_ok (year_of s)"
  shows "wall_time e (startOf e units m) = Some s \<and> s \<le> w"
  using gapless_mode.at_startOf [OF gapless_mode.intro [OF assms(1)] assms(2) refl assms(3), of units]
    start_w_le [OF assms(3), of "normalizeUnits units" w] assms(4,5)
  by (simp add: mom_at_def)

text \<open>The quarter of 2014-08-31T12:34:56 starts on 2014-07-01.\<close>

theorem startOf_refines_witness:
  "wall_time host (startOf host ''quarters'' (sample True 1409488496000)) = Some 1404172800000 \<and>
     1404172800000 \<le> (1409488496000 :: int)"
proof (rule startOf_refines [OF host_gapless])
  show "mom_at host True (sample True 1409488496000) 1409488496000"
    by (rule sample_utc_at) code_simp
  have "start_w 0 (normalizeUnits ''quarters'') 1409488496000 = 1404172800000" by code_simp
  then show "start_w (l_dow (m_locale (sample True 1409488496000))) (normalizeUnits ''quarters'')
      1409488496000 = 1404172800000"
    by simp
  show "year_ok (year_of 1404172800000)" by code_simp
qed simp

text \<open>
  C2. \<open>endOf(units)\<close> moves a moment to the millisecond before the next unit starts, which is not
  before it, on a clock without offset changes and outside the years 0 to 99.
\<close>

theorem endOf_refines:
  assumes "steady_clock (mode_clock e u)" "mom_at e u m w" "l_dow (m_locale m) = dow" "dow \<in> {0..6}"
    and "normalizeUnits units = U" "U \<in> set unit_names" "year_of w \<notin> {0..99}"
    and "year_ok (year_of (start_w dow U w))" "year_ok (year_of (next_w dow U w))"
      "year_ok (year_of (end_w dow U w))"
  shows "wall_time e (endOf e units m) = Some (next_w dow U w - 1) \<and> w \<le> next_w dow U w - 1"
  using steady_mode.at_endOf [OF steady_mode.intro [OF assms(1)] assms(2-)] next_w_gt [OF assms(6,4), of w]
  by (simp add: mom_at_def end_w_def)

text \<open>The month of 2014-08-31T12:34:56 ends on 2014-08-31 one millisecond before midnight.\<close>

theorem endOf_refines_witness:
  "wall_time host (endOf host ''month'' (sample True 1409488496000)) = Some 1409529599999 \<and>
     (1409488496000 :: int) \<le> 1409529599999"
proof -
  have at: "mom_at host True (sample True 1409488496000) 1409488496000"
    by (rule sample_utc_at) code_simp
  have n: "next_w 0 ''month'' 1409488496000 = 1409529600000" by code_simp
  have "year_of 1409488496000 \<notin> {0..99}" "year_ok (year_of (start_w 0 ''month'' 1409488496000))"
    "year_ok (year_of (next_w 0 ''month'' 1409488496000))"
    "year_ok (year_of (end_w 0 ''month'' 1409488496000))"
    by code_simp+
  from endOf_refines [OF host_steady at _ _ _ _ this, of "''month''"] n show ?thesis
    by (simp add: norm_unit_names unit_names_def)
qed

section \<open>Day and week of the year\<close>

text \<open>\<open>dayOfYear\<close> counts the days from January 1, which is day 1.\<close>

theorem dayOfYear_counts:
  assumes "steady_clock (mode_clock e u)" "mom_at e u m w" "l_dow (m_locale m) \<in> {0..6}"
  shows "dayOfYear e m = Some (Day w - DayFromYear (year_of w) + 1)"
  using steady_mode.at_dayOfYear [OF steady_mode.intro [OF assms(1)] assms(2,3)]
  by (simp add: YearDay_def get_field.simps)

theorem dayOfYear_counts_witness: "dayOfYear host (sample True 1409488496000) = Some 243"
proof -
  have "mom_at host True (sample True 1409488496000) 1409488496000"
    by (rule sample_utc_at) code_simp
  moreover have "Day 1409488496000 - DayFromYear (year_of 1409488496000) + 1 = 243" by code_simp
  ultimately show ?thesis using dayOfYear_counts [OF host_steady] by simp
qed

lemma WeekDay_thursday: "WeekDay (w + (3 - (WeekDay w - 1) mod 7) * msPerDay) = 4"
proof -
  have "(a + (3 - (a mod 7 - 1) mod 7)) mod 7 = 4" for a :: int
  proof -
    have "(a + (3 - (a mod 7 - 1) mod 7)) mod 7 = (a + (3 - (a - 1))) mod 7"
      by (metis mod_add_right_eq mod_diff_left_eq mod_diff_right_eq)
    then show ?thesis by simp
  qed
  from this [of "Day w + 4"] show ?thesis
    unfolding WeekDay_def Day_add_days by (simp only: ac_simps)
qed

text \<open>
  C5. The ISO week of a day is the number of the week of its Thursday in the Thursday's year, and
  \<open>isoWeekYear\<close> is that year.
\<close>

theorem isoWeek_of_thursday:
  assumes "steady_clock (mode_clock e u)" "mom_at e u m w" "l_dow (m_locale m) \<in> {0..6}"
    and "thu = w + (3 - (WeekDay w - 1) mod 7) * msPerDay" "year_ok (year_of thu)"
  shows "isoWeek e m = Some ((Day thu - DayFromYear (year_of thu)) div 7 + 1) \<and>
    isoWeekYear e m = Some (year_of thu) \<and> WeekDay thu = 4"
proof -
  have thu: "week_pivot 1 4 w = thu"
    using pivot_days_spec [of 1 "WeekDay w" 4] WeekDay_range [of w] assms(4) by (simp add: week_pivot_def)
  have "WeekDay thu = 4"
    unfolding assms(4) by (rule WeekDay_thursday)
  with thu steady_mode.at_week_of_year [OF steady_mode.intro [OF assms(1)] assms(2,3), of 1 4] assms(5)
  show ?thesis by (simp add: isoWeek_def isoWeekYear_def YearDay_def get_field.simps)
qed

text \<open>2016-01-02 is in week 53 of 2015.\<close>

theorem isoWeek_of_thursday_witness:
  "isoWeek host (sample True 1451692800000) = Some 53 \<and>
   isoWeekYear host (sample True 1451692800000) = Some 2015"
proof -
  have at: "mom_at host True (sample True 1451692800000) 1451692800000"
    by (rule sample_utc_at) code_simp
  have w: "1451520000000 = 1451692800000 + (3 - (WeekDay 1451692800000 - 1) mod 7) * msPerDay"
    "year_ok (year_of 1451520000000)" by code_simp+
  have "(Day 1451520000000 - DayFromYear (year_of 1451520000000)) div 7 + 1 = 53"
    "year_of 1451520000000 = 2015" by code_simp+
  with isoWeek_of_thursday [OF host_steady at _ w] show ?thesis by simp
qed

lemma thursday_mod:
  fixes D k d :: int
  assumes "(D + 4) mod 7 = d mod 7" "(D + k + 4) mod 7 = 4" "1 \<le> d" "d \<le> 7"
  shows "7 * (k div 7) + 4 - d + (if d > 4 then 7 else 0) = k"
proof -
  have "k mod 7 = ((D + k + 4) mod 7 - (D + 4) mod 7) mod 7"
    by (simp add: mod_diff_eq)
  also have "\<dots> = (4 - d) mod 7"
    unfolding assms(1,2) by (simp add: mod_diff_right_eq)
  also have "\<dots> = 4 - d + (if d > 4 then 7 else 0)"
    using assms(3,4) mod_add_self2 [of "4 - d" 7] by (auto simp: mod_pos_pos_trivial)
  finally show ?thesis using mult_div_mod_eq [of 7 k] by simp
qed

lemma dayOfYearFromWeeks_thursday:
  assumes yr: "year_ok yr" and thu: "(DayFromYear yr + k + 4) mod 7 = 4" "0 \<le> k" and wd: "1 \<le> wd" "wd \<le> 7"
  shows "\<exists>y yday. dayOfYearFromWeeks yr (k div 7 + 1) wd 4 1 = Some (y, yday) \<and> 0 < yday \<and>
    DayFromYear y + yday - 1 = DayFromYear yr + k + wd - 4"
proof -
  let ?d0 = "(DayFromYear yr + 4) mod 7"
  define d where "d = (if ?d0 = 0 then 7 else ?d0)"
  have jan1: "makeUTCDate yr 0 1 0 0 0 0 = Some (DayFromYear yr * msPerDay)"
    using utc.makeClockDate_fields [of yr 0 1 0 0 0 0] utc.clip_wall_Some [of "MakeDate (MakeDay yr 0 1) 0"]
      yr first_valid [of 0 yr]
    by (simp add: makeUTCDate_def valid_time_def MakeTime_def date_fields_MakeDate)
      (simp add: MakeDate_def MakeDay_eq month_start_def)
  have "(DayFromYear yr + 4) mod 7 = d mod 7" "1 \<le> d" "d \<le> 7"
    using pos_mod_bound [of 7 "DayFromYear yr + 4"] pos_mod_sign [of 7 "DayFromYear yr + 4"]
    by (auto simp: d_def)
  from thursday_mod [OF this(1) thu(1) this(2,3)]
  have k: "7 * (k div 7) + 4 - d + (if d > 4 then 7 else 0) = k" .
  define yday where "yday = 7 * (k div 7) + (wd - 1) + (1 - d + (if d > 4 then 7 else 0)) + 1"
  have yd: "yday = k + wd - 3" using k unfolding yday_def by simp
  have "date_get_day UTC (makeUTCDate yr 0 1 0 0 0 0) = Some ?d0"
    by (simp add: jan1 date_get_day_def WeekDay_def Day_def)
  then have "dayOfYearFromWeeks yr (k div 7 + 1) wd 4 1 =
      Some (if yday > 0 then yr else yr - 1, if yday > 0 then yday else daysInYear (yr - 1) + yday)"
    using \<open>1 \<le> d\<close> unfolding dayOfYearFromWeeks_def yday_def d_def Let_def by simp
  moreover have "daysInYear (yr - 1) \<ge> 365" "DayFromYear yr = DayFromYear (yr - 1) + daysInYear (yr - 1)"
    using DayFromYear_Suc [of "yr - 1"] by (simp_all add: daysInYear_eq) (simp add: DaysInYear_def)
  ultimately show ?thesis
    using yd thu(2) wd(1) by (cases "yday > 0") auto
qed

text \<open>
  C6. \<open>dayOfYearFromWeeks\<close> inverts the ISO week numbering: from the week year, the week and the
  weekday of a day it finds a year and a day of that year (possibly past its end) that denote the
  same day.
\<close>

theorem dayOfYearFromWeeks_inverts:
  assumes "steady_clock (mode_clock e u)" "mom_at e u m w" "l_dow (m_locale m) \<in> {0..6}"
    and "year_ok (year_of (w + (3 - (WeekDay w - 1) mod 7) * msPerDay))"
    and "isoWeekYear e m = Some yr" "isoWeek e m = Some wk" "isoWeekday e m = Some wd"
  shows "\<exists>y yday. dayOfYearFromWeeks yr wk wd 4 1 = Some (y, yday) \<and> 0 < yday \<and>
    DayFromYear y + yday - 1 = Day w"
proof -
  define thu where "thu = w + (3 - (WeekDay w - 1) mod 7) * msPerDay"
  let ?k = "Day thu - DayFromYear yr"
  have pivot: "week_pivot 1 4 w = thu"
    using pivot_days_spec [of 1 "WeekDay w" 4] WeekDay_range [of w] by (simp add: week_pivot_def thu_def)
  have y: "yr = year_of thu" "wk = ?k div 7 + 1"
    using steady_mode.at_week_of_year [OF steady_mode.intro [OF assms(1)] assms(2,3), of 1 4] pivot assms(4-6)
    by (simp_all add: isoWeek_def isoWeekYear_def YearDay_def get_field.simps thu_def)
  have dow: "get_day e m = Some (WeekDay w)"
    using gapless_mode.at_day [OF gapless_mode.intro assms(2)] assms(1) by (simp add: steady_clock_def)
  then have wd: "wd = (if WeekDay w = 0 then 7 else WeekDay w)"
    using assms(7) by (simp add: isoWeekday_def split: if_splits)
  have day: "Day thu = Day w + (3 - (WeekDay w - 1) mod 7)"
    unfolding thu_def by (rule Day_add_days)
  have thu4: "(DayFromYear yr + ?k + 4) mod 7 = 4"
    using WeekDay_thursday [of w, folded thu_def] by (simp add: WeekDay_def)
  have "0 \<le> ?k" using YearFromDay_lower [of "Day thu"] y by (simp add: get_field.simps)
  from dayOfYearFromWeeks_thursday [OF _ thu4 this, of wd] y wd WeekDay_range [of w] assms(4)
  obtain yy yday where "dayOfYearFromWeeks yr wk wd 4 1 = Some (yy, yday)" "0 < yday"
    "DayFromYear yy + yday - 1 = DayFromYear yr + ?k + wd - 4"
    by (auto simp: thu_def split: if_splits)
  moreover have "(WeekDay w - 1) mod 7 = wd - 1"
    using wd WeekDay_range [of w] by (auto simp: mod_pos_pos_trivial)
  ultimately show ?thesis using day by auto
qed

theorem dayOfYearFromWeeks_inverts_witness:
  "\<exists>y yday. dayOfYearFromWeeks 2015 53 6 4 1 = Some (y, yday) \<and> 0 < yday \<and>
     DayFromYear y + yday - 1 = Day 1451692800000"
proof (rule dayOfYearFromWeeks_inverts [OF host_steady])
  show at: "mom_at host True (sample True 1451692800000) 1451692800000"
    by (rule sample_utc_at) code_simp
  have "year_ok (year_of (1451692800000 + (3 - (WeekDay 1451692800000 - 1) mod 7) * msPerDay))"
    by code_simp
  then show "year_ok (year_of (1451692800000 + (3 - (WeekDay 1451692800000 - 1) mod 7) * msPerDay))" .
  have p: "week_pivot 1 4 1451692800000 = 1451520000000" "year_ok (year_of 1451520000000)"
    "YearDay (Day 1451520000000) div 7 + 1 = 53" "year_of 1451520000000 = 2015"
    by code_simp+
  have "weekOfYear host (sample True 1451692800000) 1 4 = (Some 53, Some 2015)"
    using utc_mode.at_week_of_year [OF at, of 1 4] p by simp
  then show "isoWeekYear host (sample True 1451692800000) = Some 2015"
    "isoWeek host (sample True 1451692800000) = Some 53"
    by (simp_all add: isoWeekYear_def isoWeek_def)
  have "WeekDay 1451692800000 = 6" by code_simp
  then show "isoWeekday host (sample True 1451692800000) = Some 6"
    using utc_mode.at_day [OF at] by (simp add: isoWeekday_def)
qed simp

text \<open>
  Past the last day of the year the day of the year overflows: Saturday of week 53 of 2015 is
  2016-01-02, and the code reads it as day 367 of 2015, which has 365 days.
\<close>

theorem week53_past_year_end:
  "dayOfYearFromWeeks 2015 53 6 4 1 = Some (2015, 367) \<and> daysInYear 2015 = 365"
  by code_simp

section \<open>Comparison, zones and differences\<close>

text \<open>A moment whose date is a valid time value.\<close>

definition dated :: "moment \<Rightarrow> int \<Rightarrow> bool" where
  "dated m t \<longleftrightarrow> m_d m = Some t \<and> TimeClip t = Some t"

lemma valueOf_dated: "dated m t \<Longrightarrow> valueOf (clone m) = Some (t + m_offset m * 60000)"
    "dated m t \<Longrightarrow> valueOf m = Some (t + m_offset m * 60000)"
  by (simp_all add: dated_def clone_def valueOf_def nadd_def)

lemma pickBy_loop_least:
  assumes "\<And>x y. fn x y \<longleftrightarrow> (key x :: int) < key y"
  shows "pickBy_loop fn r ms \<in> insert r (set ms) \<and>
    (\<forall>m \<in> insert r (set ms). key (pickBy_loop fn r ms) \<le> key m)"
proof (induction ms arbitrary: r)
  case (Cons m ms)
  show ?case
  proof (cases "fn m r")
    case True
    with Cons [of m] assms show ?thesis by (auto simp: intro: order_trans)
  next
    case False
    with Cons [of r] assms show ?thesis by (auto simp: not_less intro: order_trans)
  qed
qed simp

lemma pickBy_least:
  assumes "\<And>x y. x \<in> set ms \<Longrightarrow> y \<in> set ms \<Longrightarrow> fn x y \<longleftrightarrow> (key x :: int) < key y" "ms \<noteq> []"
  shows "pickBy now fn ms \<in> set ms \<and> (\<forall>m \<in> set ms. key (pickBy now fn ms) \<le> key m)"
proof -
  have loop: "pickBy_loop fn r xs = pickBy_loop (\<lambda>x y. key x < key y) r xs"
    if "insert r (set xs) \<subseteq> set ms" for r xs
    using that assms(1) by (induction xs arbitrary: r) auto
  from assms(2) obtain x xs where ms: "ms = x # xs" by (cases ms) auto
  with loop [of x xs] pickBy_loop_least [of "\<lambda>x y. key x < key y" key x xs] show ?thesis by simp
qed

text \<open>
  \<open>moment.min\<close> of a list of valid moments returns one of them, and none of them is earlier; for
  \<open>moment.max\<close> none is later.
\<close>

theorem moment_min_max:
  assumes "ms \<noteq> []" "\<And>m. m \<in> set ms \<Longrightarrow> \<exists>t. dated m t"
  shows "moment_min e now ms \<in> set ms \<and> moment_max e now ms \<in> set ms \<and>
    (\<forall>m \<in> set ms. the (valueOf (moment_min e now ms)) \<le> the (valueOf m) \<and>
       the (valueOf m) \<le> the (valueOf (moment_max e now ms)))"
proof -
  have start: "startOf e ''millisecond'' m = m" for m
    by (simp add: startOf_unit norm_unit_names)
  have cmp: "isBefore e x y ''millisecond'' \<longleftrightarrow> the (valueOf x) < the (valueOf y)"
    "isAfter e x y ''millisecond'' \<longleftrightarrow> - the (valueOf x) < - the (valueOf y)"
    if "x \<in> set ms" "y \<in> set ms" for x y
    using assms(2) [OF that(1)] assms(2) [OF that(2)]
    by (auto simp: isBefore_def isAfter_def start valueOf_dated nlt_def ngt_def)
  show ?thesis
    using pickBy_least [of ms "\<lambda>m res. isBefore e m res ''millisecond''" "\<lambda>m. the (valueOf m)" now, OF cmp(1) assms(1)]
      pickBy_least [of ms "\<lambda>m res. isAfter e m res ''millisecond''" "\<lambda>m. - the (valueOf m)" now, OF cmp(2) assms(1)]
    by (auto simp: moment_min_def moment_max_def)
qed

theorem moment_min_max_witness:
  "the (valueOf (moment_min host (sample True 0) [sample True 5, sample False 3, sample True 9])) \<le> 3 \<and>
   9 \<le> the (valueOf (moment_max host (sample True 0) [sample True 5, sample False 3, sample True 9]))"
proof -
  have "\<exists>t. dated m t" if "m \<in> set [sample True 5, sample False 3, sample True 9]" for m
    using that by (auto simp: dated_def TimeClip_def)
  note least = moment_min_max [of "[sample True 5, sample False 3, sample True 9]" host "sample True 0",
      OF _ this, simplified]
  have "valueOf (sample False 3) = Some 3" "valueOf (sample True 9) = Some 9"
    by (simp_all add: valueOf_def nadd_def)
  with least show ?thesis by simp
qed

text \<open>
  Changing the zone without \<open>keepLocalTime\<close> keeps the instant: \<open>valueOf\<close> is unchanged, and the
  moment is then in the given zone, read in hours when it is smaller than 16.
\<close>

theorem set_zone_keeps_instant:
  assumes "dated m t" "z = (if \<bar>input\<bar> < 16 then input * 60 else input)"
    "TimeClip (t + (m_offset m - z) * 60000) \<noteq> None"
  shows "valueOf (set_zone e input False m) = valueOf m \<and> zone e (set_zone e input False m) = Some z"
proof -
  have clip: "TimeClip (t + (m_offset m - z) * 60000) = Some (t + (m_offset m - z) * 60000)"
    using assms(3) by (simp add: TimeClip_def split: if_splits)
  have "set_zone e input False m =
      (if m_offset m \<noteq> z
       then m\<lparr>m_offset := z, m_isUTC := True, m_d := Some (t + (m_offset m - z) * 60000)\<rparr>
       else m\<lparr>m_offset := z, m_isUTC := True\<rparr>)"
    using assms(1) clip
    by (simp add: set_zone_def Let_def assms(2) [symmetric] addOrSubtractDurationFromMoment_def
        dur_units dated_def nadd_def date_set_time_def)
  with assms(1) show ?thesis
    by (simp add: valueOf_def zone_def dated_def nadd_def algebra_simps)
qed

theorem set_zone_keeps_instant_witness:
  "valueOf (set_zone host (-2) False (sample False 1409488496000)) = Some 1409488496000 \<and>
   zone host (set_zone host (-2) False (sample False 1409488496000)) = Some (-120)"
  using set_zone_keeps_instant [of "sample False 1409488496000" 1409488496000 "-120" "-2" host]
  by (simp add: dated_def TimeClip_def valueOf_def nadd_def)

lemma set_month_le:
  assumes "year_of w * 12 + v < year_of w' * 12 + month_of w'"
  shows "set_month_w v w < w'"
proof -
  let ?s = "set_month_w v w"
  let ?y = "year_of w + v div 12"
  have s: "year_of ?s = ?y" "month_of ?s = v mod 12"
    by (simp_all add: set_month_w_fields)
  define k where "k = (year_of w' - ?y) * 12 + month_of w'"
  have v: "v = 12 * (v div 12) + v mod 12" by (rule mult_div_mod_eq [symmetric])
  have "k = year_of w' * 12 - year_of w * 12 - 12 * (v div 12) + month_of w'"
    by (simp add: k_def algebra_simps)
  with assms v have "v mod 12 < k" by linarith
  have kdm: "k div 12 = year_of w' - ?y" "k mod 12 = month_of w'"
    using month_of_range [of w']
    by (intro int_div_pos_eq [where r = "month_of w'"] int_mod_pos_eq [where q = "year_of w' - ?y"];
        simp add: k_def)+
  have "Day ?s < MakeDay ?y k 1"
    using Day_less_next_month [of ?s k] s \<open>v mod 12 < k\<close> by simp
  also have "MakeDay ?y k 1 = MakeDay (year_of w') (month_of w') 1"
    using MakeDay_month_carry [of ?y k 1] kdm by simp
  also have "\<dots> \<le> Day w'"
    using MakeDay_fields [of "Day w'"] MakeDay_add [of "year_of w'" "month_of w'" 1 "date_of w' - 1"]
      date_of_pos [of w'] by (simp add: get_field.simps)
  finally have "?s < MakeDate (Day w') 0" by (rule before_day)
  also have "\<dots> \<le> w'" using wall_split [of w'] by (simp add: MakeDate_def)
  finally show ?thesis .
qed

lemma month_index_le: "w \<le> w' \<Longrightarrow> year_of w * 12 + month_of w \<le> year_of w' * 12 + month_of w'"
  using set_month_le [of w' "month_of w'" w] set_month_w_same [of w']
  by (rule_tac ccontr) (auto simp: not_le)

text \<open>
  C4. The difference of two moments of one mode, the first not after the second, is a whole number
  of months and a remainder, neither negative, that lead from the first to the second.
\<close>

theorem positiveMomentsDifference_exact:
  assumes st: "steady_clock (mode_clock e u)" and at: "mom_at e u base w" "mom_at e u other w'"
    and off: "m_offset other = m_offset base" and y: "year_of w \<notin> {0..99}" and le: "w \<le> w'"
  shows "\<exists>n ms. positiveMomentsDifference e base other = (Some ms, Some n) \<and> 0 \<le> n \<and> 0 \<le> ms \<and>
    wall_time e (add_num e base (Some n) ''M'') = Some (w' - ms)"
proof -
  note sm = steady_mode.intro [OF st]
  have gm: "gapless_mode e u" using st by (simp add: gapless_mode_def steady_clock_def)
  define N where "N = month_of w' - month_of w + (year_of w' - year_of w) * 12"
  have N0: "0 \<le> N" using month_index_le [OF le] by (simp add: N_def)
  have c: "mom_at e u (clone base) w" by (rule gapless_mode.at_clone [OF gm at(1)])
  have ok: "year_ok (year_of w + (month_of w + n) div 12)" if "0 \<le> n" "n \<le> N" for n
  proof -
    have "(month_of w + n) div 12 \<le> (month_of w' + (year_of w' - year_of w) * 12) div 12"
      using that by (intro zdiv_mono1) (simp_all add: N_def)
    then have "year_of w + (month_of w + n) div 12 \<le> year_of w'"
      using month_of_range [of w'] by (simp add: div_pos_pos_trivial)
    moreover have "0 \<le> (month_of w + n) div 12"
      using that month_of_range [of w] by (simp add: pos_imp_zdiv_nonneg_iff)
    ultimately show ?thesis using at by (simp add: mom_at_def year_ok_def)
  qed
  have add: "mom_at e u (add_num e b (Some n) ''M'') (set_month_w (month_of w + n) w)"
    if "0 \<le> n" "n \<le> N" "mom_at e u b w" for n b
    using that ok [OF that(1,2)] y by (intro gapless_mode.at_add_months [OF gm]) (auto simp: clamp_ok_def)
  have off': "m_offset (add_num e b k ''M'') = m_offset b" for b k
    by (rule moves_sel(1)) simp
  have cmp: "isAfter e (add_num e (clone base) (Some N) ''M'') other ''millisecond''
      \<longleftrightarrow> set_month_w (month_of w + N) w > w'"
    by (rule steady_mode.at_compare(1) [OF sm add [OF N0 order_refl c] at(2)])
      (simp add: off' off clone_def)
  define n where "n = (if set_month_w (month_of w + N) w > w' then N - 1 else N)"
  have n: "0 \<le> n" "n \<le> N" "set_month_w (month_of w + n) w \<le> w'"
  proof -
    show "0 \<le> n"
    proof (cases "N = 0")
      case True
      then have "set_month_w (month_of w + N) w = w" by (simp add: set_month_w_same)
      with True le show ?thesis by (simp add: n_def)
    qed (use N0 in \<open>simp add: n_def\<close>)
    show "n \<le> N" by (simp add: n_def)
    show "set_month_w (month_of w + n) w \<le> w'"
      using set_month_le [of w "month_of w + (N - 1)" w'] by (auto simp: n_def N_def)
  qed
  let ?b = "add_num e (clone base) (Some n) ''M''"
  have "m_offset other = m_offset ?b" by (simp add: off' off clone_def)
  with add [OF n(1,2) c] at(2) obtain t t' where t: "valueOf ?b = Some t" "valueOf other = Some t'"
    "t' - t = w' - set_month_w (month_of w + n) w"
    by (rule steady_mode.at_value [OF sm])
  have months: "nadd (nsub (month e other) (month e base))
      (nmap (\<lambda>y. y * 12) (nsub (year e other) (year e base))) = Some N"
    using gapless_mode.at_get [OF gm at(1)] gapless_mode.at_get [OF gm at(2)]
    by (simp add: nsub_def nadd_def N_def)
  have "(if isAfter e (add_num e (clone base) (Some N) ''M'') other ''millisecond''
      then nmap (\<lambda>n. n - 1) (Some N) else Some N) = Some n"
    by (simp add: cmp n_def)
  then have "positiveMomentsDifference e base other = (Some (t' - t), Some n)"
    using t by (simp only: positiveMomentsDifference_def Let_def months) (simp add: nsub_def)
  with t(3) n add [OF n(1,2) at(1)] show ?thesis by (auto simp: mom_at_def)
qed

text \<open>From 2014-01-31 to 2014-03-01 it is one month (to 2014-02-28) and a day.\<close>

theorem positiveMomentsDifference_exact_witness:
  "\<exists>n ms. positiveMomentsDifference host (sample True 1391126400000) (sample True 1393632000000)
      = (Some ms, Some n) \<and> 0 \<le> n \<and> 0 \<le> ms \<and>
    wall_time host (add_num host (sample True 1391126400000) (Some n) ''M'') = Some (1393632000000 - ms)"
proof (rule positiveMomentsDifference_exact [OF host_steady])
  show "mom_at host True (sample True 1391126400000) 1391126400000"
    "mom_at host True (sample True 1393632000000) 1393632000000"
    by (rule sample_utc_at, code_simp)+
  show "year_of 1391126400000 \<notin> {0..99}" by code_simp
qed simp_all

end
