(* ===== verification/Js_Regex.thy ===== *)
theory Js_Regex
  imports Js_Prelude
begin

text \<open>
  The part of JavaScript's regular expressions that the scripts use: character classes, sequence,
  ordered alternative, greedy options and repetitions of a class, capture groups and the end anchor.
  A match is found by backtracking in the order of the alternatives: \<open>rx_match\<close> lists the outcomes in
  that order, each with the rest of the input and the captured groups, and the first one counts.
\<close>

section \<open>Definitions\<close>

datatype rx =
    RChr "char \<Rightarrow> bool"
  | REps
  | REnd
  | RSeq rx rx
  | RAlt rx rx
  | ROpt rx
  | RStar "char \<Rightarrow> bool"
  | RGrp nat rx

type_synonym caps = "(nat \<times> string) list"

text \<open>What a greedy repetition of a class leaves, the longest match first.\<close>

fun star_rests :: "(char \<Rightarrow> bool) \<Rightarrow> string \<Rightarrow> string list" where
  "star_rests p [] = [[]]"
| "star_rests p (c # s) = (if p c then star_rests p s @ [c # s] else [c # s])"

fun rx_match :: "rx \<Rightarrow> string \<Rightarrow> caps \<Rightarrow> (string \<times> caps) list" where
  "rx_match (RChr p) s k = (case s of [] \<Rightarrow> [] | c # t \<Rightarrow> if p c then [(t, k)] else [])"
| "rx_match REps s k = [(s, k)]"
| "rx_match REnd s k = (if s = [] then [(s, k)] else [])"
| "rx_match (RSeq a b) s k = concat (map (\<lambda>(t, k'). rx_match b t k') (rx_match a s k))"
| "rx_match (RAlt a b) s k = rx_match a s k @ rx_match b s k"
| "rx_match (ROpt a) s k = rx_match a s k @ [(s, k)]"
| "rx_match (RStar p) s k = map (\<lambda>t. (t, k)) (star_rests p s)"
| "rx_match (RGrp i a) s k =
     map (\<lambda>(t, k'). (t, (i, take (length s - length t) s) # k')) (rx_match a s k)"

text \<open>A match: the text before it, the matched text, the text after it, the groups.\<close>

record rx_result =
  r_before :: string
  r_text :: string
  r_rest :: string
  r_caps :: caps

definition rx_exec_here :: "rx \<Rightarrow> string \<Rightarrow> rx_result option" where
  "rx_exec_here r s =
     (case rx_match r s [] of
        [] \<Rightarrow> None
      | (t, k) # _ \<Rightarrow> Some \<lparr>r_before = [], r_text = take (length s - length t) s, r_rest = t, r_caps = k\<rparr>)"

text \<open>\<open>r.exec(s)\<close> without an anchor: the leftmost position that has a match.\<close>

fun rx_exec :: "rx \<Rightarrow> string \<Rightarrow> rx_result option" where
  "rx_exec r [] = rx_exec_here r []"
| "rx_exec r (c # s) =
     (case rx_exec_here r (c # s) of
        Some x \<Rightarrow> Some x
      | None \<Rightarrow> map_option (\<lambda>x. x\<lparr>r_before := c # r_before x\<rparr>) (rx_exec r s))"

definition rx_test :: "rx \<Rightarrow> string \<Rightarrow> bool" where
  "rx_test r s \<longleftrightarrow> rx_exec r s \<noteq> None"

definition r_group :: "rx_result \<Rightarrow> nat \<Rightarrow> string option" where
  "r_group x i = map_of (r_caps x) i"

text \<open>
  \<open>s.match(/r/g)\<close> and \<open>s.replace(/r/g, f)\<close> for a pattern that matches no empty text (after an empty
  match the search would stop here).
\<close>

function rx_match_all :: "rx \<Rightarrow> string \<Rightarrow> string list" where
  "rx_match_all r s =
     (case rx_exec r s of
        None \<Rightarrow> []
      | Some x \<Rightarrow> r_text x # (if length (r_rest x) < length s then rx_match_all r (r_rest x) else []))"
  by pat_completeness auto
termination by (relation "measure (\<lambda>(r, s). length s)") auto

function rx_replace_all :: "rx \<Rightarrow> (rx_result \<Rightarrow> string) \<Rightarrow> string \<Rightarrow> string" where
  "rx_replace_all r f s =
     (case rx_exec r s of
        None \<Rightarrow> s
      | Some x \<Rightarrow> r_before x @ f x @
          (if length (r_rest x) < length s then rx_replace_all r f (r_rest x) else r_rest x))"
  by pat_completeness auto
termination by (relation "measure (\<lambda>(r, f, s). length s)") auto

declare rx_match_all.simps [simp del] rx_replace_all.simps [simp del]

text \<open>Notation for patterns.\<close>

definition r_char :: "char \<Rightarrow> rx" where "r_char c = RChr (\<lambda>x. x = c)"
definition r_char_i :: "char \<Rightarrow> rx" where "r_char_i c = RChr (\<lambda>x. ascii_lower x = ascii_lower c)"
definition r_set :: "string \<Rightarrow> rx" where "r_set cs = RChr (\<lambda>x. x \<in> set cs)"
definition r_dot :: rx where "r_dot = RChr (\<lambda>x. x \<notin> {CHR 0x0A, CHR 0x0D})"
definition r_digit :: rx where "r_digit = RChr is_digit"

definition is_space :: "char \<Rightarrow> bool" where
  "is_space c \<longleftrightarrow> c \<in> {CHR '' '', CHR 0x09, CHR 0x0A, CHR 0x0B, CHR 0x0C, CHR 0x0D, CHR 0xA0}"

fun r_seqs :: "rx list \<Rightarrow> rx" where
  "r_seqs [] = REps"
| "r_seqs [a] = a"
| "r_seqs (a # as) = RSeq a (r_seqs as)"

fun r_alts :: "rx list \<Rightarrow> rx" where
  "r_alts [] = RChr (\<lambda>_. False)"
| "r_alts [a] = a"
| "r_alts (a # as) = RAlt a (r_alts as)"

definition r_lit :: "string \<Rightarrow> rx" where "r_lit s = r_seqs (map r_char s)"
definition r_lit_i :: "string \<Rightarrow> rx" where "r_lit_i s = r_seqs (map r_char_i s)"
definition r_plus :: "(char \<Rightarrow> bool) \<Rightarrow> rx" where "r_plus p = RSeq (RChr p) (RStar p)"

definition r_times :: "nat \<Rightarrow> rx \<Rightarrow> rx" where "r_times n a = r_seqs (replicate n a)"

text \<open>\<open>a\{1,n\}\<close>, greedy.\<close>

fun r_upto :: "nat \<Rightarrow> rx \<Rightarrow> rx" where
  "r_upto 0 a = REps"
| "r_upto (Suc 0) a = a"
| "r_upto (Suc (Suc n)) a = RSeq a (ROpt (r_upto (Suc n) a))"

section \<open>Lemmas\<close>

lemma star_rests_suffix: "t \<in> set (star_rests p s) \<Longrightarrow> \<exists>u. s = u @ t \<and> list_all p u"
proof (induction p s rule: star_rests.induct)
  case (2 p c s)
  then show ?case
    by (auto split: if_splits simp: exI [of _ "[]"] intro: exI [of _ "c # u" for u])
qed simp

lemma rx_match_suffix: "(t, k') \<in> set (rx_match r s k) \<Longrightarrow> \<exists>u. s = u @ t"
proof (induction r arbitrary: s t k k')
  case (RSeq a b)
  then show ?case by fastforce
next
  case (RStar p)
  then show ?case using star_rests_suffix by fastforce
qed (auto split: list.splits if_splits)

lemma rx_exec_here_split:
  assumes "rx_exec_here r s = Some x"
  shows "r_before x = [] \<and> s = r_text x @ r_rest x"
proof -
  from assms obtain t k rest where "rx_match r s [] = (t, k) # rest"
    "x = \<lparr>r_before = [], r_text = take (length s - length t) s, r_rest = t, r_caps = k\<rparr>"
    by (auto simp: rx_exec_here_def split: list.splits)
  moreover from this rx_match_suffix [of t k r s "[]"] obtain u where "s = u @ t" by auto
  ultimately show ?thesis by simp
qed

lemma rx_exec_split: "rx_exec r s = Some x \<Longrightarrow> s = r_before x @ r_text x @ r_rest x"
proof (induction r s arbitrary: x rule: rx_exec.induct)
  case (1 r)
  then show ?case using rx_exec_here_split [of r "[]" x] by simp
next
  case (2 r c s)
  then show ?case
    using rx_exec_here_split [of r "c # s" x] by (cases "rx_exec_here r (c # s)") auto
qed

lemma rx_replace_all_none: "rx_exec r s = None \<Longrightarrow> rx_replace_all r f s = s"
  by (simp add: rx_replace_all.simps)

end
