(* ===== verification/Moment_Format.thy ===== *)
theory Moment_Format
  imports Moment_Locale Js_Regex
begin

text \<open>
  \<open>moment-2.8.1.js\<close>, section "Formatting": the tokens, the function of each token, the expansion of
  long date formats, \<open>format\<close>, \<open>toISOString\<close>, \<open>toString\<close>, \<open>from\<close> and \<open>calendar\<close>. The cache of
  compiled format functions is left out; it does not change results.
\<close>

section \<open>Tokens\<close>

text \<open>\<open>\[[^\[]*\]\<close>\<close>

definition rx_bracketed :: rx where
  "rx_bracketed = r_seqs [r_char (CHR ''[''), RStar (\<lambda>c. c \<noteq> CHR ''[''), r_char (CHR '']'')]"

text \<open>A character, repeated once and up to \<open>n\<close> times.\<close>

definition r_run :: "nat \<Rightarrow> char \<Rightarrow> rx" where
  "r_run n c = r_upto n (r_char c)"

definition formattingTokens :: rx where
  "formattingTokens =
     RAlt (RGrp 1 rx_bracketed)
       (RSeq (ROpt (RGrp 2 (r_char (CHR 0x5C))))
         (RGrp 3 (r_alts
           [r_lit ''Mo'', r_run 4 (CHR ''M''), r_lit ''Do'', r_lit ''DDDo'', r_run 4 (CHR ''D''),
            RSeq (r_lit ''dd'') (ROpt (r_run 2 (CHR ''d''))), RSeq (r_lit ''d'') (ROpt (r_lit ''o'')),
            RSeq (r_lit ''w'') (ROpt (r_set ''o|w'')), RSeq (r_lit ''W'') (ROpt (r_set ''o|W'')),
            r_lit ''Q'', r_lit ''YYYYYY'', r_lit ''YYYYY'', r_lit ''YYYY'', r_lit ''YY'',
            RSeq (r_lit ''gg'') (ROpt (RGrp 4 (RSeq (r_lit ''gg'') (ROpt (r_lit ''g''))))),
            RSeq (r_lit ''GG'') (ROpt (RGrp 5 (RSeq (r_lit ''GG'') (ROpt (r_lit ''G''))))),
            r_lit ''e'', r_lit ''E'', r_lit ''a'', r_lit ''A'', r_run 2 (CHR ''h''), r_run 2 (CHR ''H''),
            r_run 2 (CHR ''m''), r_run 2 (CHR ''s''), r_run 4 (CHR ''S''), r_lit ''X'',
            r_run 2 (CHR ''z''), r_run 2 (CHR ''Z''), r_dot])))"

definition localFormattingTokens :: rx where
  "localFormattingTokens =
     RAlt (RGrp 1 rx_bracketed)
       (RSeq (ROpt (RGrp 2 (r_char (CHR 0x5C))))
         (RGrp 3 (r_alts [r_lit ''LT'', r_run 4 (CHR ''L''), r_run 4 (CHR ''l'')])))"

text \<open>\<open>format.match(formattingTokens) || []\<close>\<close>

definition format_tokens :: "string \<Rightarrow> string list" where
  "format_tokens fmt = rx_match_all formattingTokens fmt"

section \<open>The function of a token\<close>

text \<open>The functions \<open>Z\<close> and \<open>ZZ\<close>, with the separator they print.\<close>

definition zone_text :: "env \<Rightarrow> moment \<Rightarrow> string \<Rightarrow> string" where
  "zone_text e m sep =
     (let a = nmap uminus (zone e m);
          (a, b) = (if nlt a (Some 0) then (nmap uminus a, ''-'') else (a, ''+''))
      in b @ leftZeroFill (nmap (\<lambda>n. js_div n 60) a) 2 False @ sep @
           leftZeroFill (nmap (\<lambda>n. js_mod n 60) a) 2 False)"

text \<open>
  \<open>formatTokenFunctions\<close>: the tokens that return a number, and the ones that return a text. The loops
  after the table add the ordinal tokens (\<open>Mo\<close>, \<dots>), the padded ones (\<open>MM\<close>, \<dots>) and \<open>DDDD\<close>.
\<close>

definition token_number :: "env \<Rightarrow> moment \<Rightarrow> string \<Rightarrow> num option" where
  "token_number e m t =
     (if t = ''M'' then Some (nmap (\<lambda>n. n + 1) (month e m))
      else if t = ''D'' then Some (date e m)
      else if t = ''DDD'' then Some (dayOfYear e m)
      else if t = ''d'' then Some (get_day e m)
      else if t = ''w'' then Some (week e m)
      else if t = ''W'' then Some (isoWeek e m)
      else if t = ''e'' then Some (weekday e m)
      else if t = ''E'' then Some (isoWeekday e m)
      else if t = ''H'' then Some (hours e m)
      else if t = ''h'' then Some (nmap (\<lambda>n. if js_mod n 12 = 0 then 12 else js_mod n 12) (hours e m))
      else if t = ''m'' then Some (minutes e m)
      else if t = ''s'' then Some (seconds e m)
      else if t = ''S'' then Some (nmap (\<lambda>n. js_div n 100) (milliseconds e m))
      else if t = ''X'' then Some (unix m)
      else if t = ''Q'' then Some (quarter e m)
      else None)"

definition token_text :: "env \<Rightarrow> moment \<Rightarrow> string \<Rightarrow> string option" where
  "token_text e m t =
     (let l = m_locale m in
      if t = ''MMM'' then Some (nth_str (l_monthsShort l) (month e m))
      else if t = ''MMMM'' then Some (nth_str (l_months l) (month e m))
      else if t = ''dd'' then Some (nth_str (l_weekdaysMin l) (get_day e m))
      else if t = ''ddd'' then Some (nth_str (l_weekdaysShort l) (get_day e m))
      else if t = ''dddd'' then Some (nth_str (l_weekdays l) (get_day e m))
      else if t = ''YY'' then Some (leftZeroFill (nmap (\<lambda>y. js_mod y 100) (year e m)) 2 False)
      else if t = ''YYYY'' then Some (leftZeroFill (year e m) 4 False)
      else if t = ''YYYYY'' then Some (leftZeroFill (year e m) 5 False)
      else if t = ''YYYYYY''
        then Some ((if nle (Some 0) (year e m) then ''+'' else ''-'') @
               leftZeroFill (nmap abs (year e m)) 6 False)
      else if t = ''gg'' then Some (leftZeroFill (nmap (\<lambda>y. js_mod y 100) (weekYear e m)) 2 False)
      else if t = ''gggg'' then Some (leftZeroFill (weekYear e m) 4 False)
      else if t = ''ggggg'' then Some (leftZeroFill (weekYear e m) 5 False)
      else if t = ''GG'' then Some (leftZeroFill (nmap (\<lambda>y. js_mod y 100) (isoWeekYear e m)) 2 False)
      else if t = ''GGGG'' then Some (leftZeroFill (isoWeekYear e m) 4 False)
      else if t = ''GGGGG'' then Some (leftZeroFill (isoWeekYear e m) 5 False)
      else if t = ''a'' then Some (meridiem (hours e m) (minutes e m) True)
      else if t = ''A'' then Some (meridiem (hours e m) (minutes e m) False)
      else if t = ''SS'' then Some (leftZeroFill (nmap (\<lambda>n. js_div n 10) (milliseconds e m)) 2 False)
      else if t = ''SSS'' then Some (leftZeroFill (milliseconds e m) 3 False)
      else if t = ''SSSS'' then Some (leftZeroFill (milliseconds e m) 3 False)
      else if t = ''Z'' then Some (zone_text e m '':'')
      else if t = ''ZZ'' then Some (zone_text e m '''')
      else if t = ''z'' then Some (zoneAbbr m)
      else if t = ''zz'' then Some (zoneName m)
      else None)"

definition ordinalizeTokens :: "string list" where
  "ordinalizeTokens = [''DDD'', ''w'', ''W'', ''M'', ''D'', ''d'']"

definition paddedTokens :: "string list" where
  "paddedTokens = [''M'', ''D'', ''H'', ''h'', ''m'', ''s'', ''w'', ''W'']"

definition padToken :: "num \<Rightarrow> nat \<Rightarrow> string" where
  "padToken n count = leftZeroFill n count False"

text \<open>A valid moment, the only kind that is formatted, has no field that is \<open>NaN\<close>.\<close>

definition ordinalizeToken :: "locale_data \<Rightarrow> num \<Rightarrow> string" where
  "ordinalizeToken l n = (case n of None \<Rightarrow> ''NaN'' | Some k \<Rightarrow> l_ordinal l k)"

definition formatTokenFunctions :: "env \<Rightarrow> moment \<Rightarrow> string \<Rightarrow> string option" where
  "formatTokenFunctions e m t =
     (case token_text e m t of
        Some s \<Rightarrow> Some s
      | None \<Rightarrow>
         (case token_number e m t of
            Some n \<Rightarrow> Some (num_str n)
          | None \<Rightarrow>
             if t = ''DDDD'' then map_option (\<lambda>n. padToken n 3) (token_number e m ''DDD'')
             else if t \<noteq> [] \<and> last t = CHR ''o'' \<and> butlast t \<in> set ordinalizeTokens
             then map_option (ordinalizeToken (m_locale m)) (token_number e m (butlast t))
             else if length t = 2 \<and> hd t = last t \<and> [hd t] \<in> set paddedTokens
             then map_option (\<lambda>n. padToken n 2) (token_number e m [hd t])
             else None))"

text \<open>Which tokens have a function does not depend on the moment.\<close>

definition known_tokens :: "string list" where
  "known_tokens =
     [''M'', ''D'', ''DDD'', ''d'', ''w'', ''W'', ''e'', ''E'', ''H'', ''h'', ''m'', ''s'', ''S'', ''X'', ''Q'',
      ''MMM'', ''MMMM'', ''dd'', ''ddd'', ''dddd'', ''YY'', ''YYYY'', ''YYYYY'', ''YYYYYY'', ''gg'',
      ''gggg'', ''ggggg'', ''GG'', ''GGGG'', ''GGGGG'', ''a'', ''A'', ''SS'', ''SSS'', ''SSSS'', ''Z'',
      ''ZZ'', ''z'', ''zz'', ''DDDD'']
     @ map (\<lambda>t. t @ ''o'') ordinalizeTokens @ map (\<lambda>t. t @ t) paddedTokens"

section \<open>Formatting\<close>

text \<open>\<open>/\[[\s\S]/\<close>: a bracket with a character after it.\<close>

fun has_open :: "string \<Rightarrow> bool" where
  "has_open (c # d # s) = (c = CHR ''['' \<or> has_open (d # s))"
| "has_open _ = False"

definition removeFormattingTokens :: "string \<Rightarrow> string" where
  "removeFormattingTokens input =
     (if has_open input
      then (let s = (if input \<noteq> [] \<and> hd input = CHR ''['' then tl input else input)
            in if s \<noteq> [] \<and> last s = CHR '']'' then butlast s else s)
      else filter (\<lambda>c. c \<noteq> CHR 0x5C) input)"

fun format_parts :: "env \<Rightarrow> moment \<Rightarrow> string list \<Rightarrow> string" where
  "format_parts e m [] = []"
| "format_parts e m (t # ts) =
     (case formatTokenFunctions e m t of Some s \<Rightarrow> s | None \<Rightarrow> removeFormattingTokens t)
       @ format_parts e m ts"

text \<open>\<open>makeFormatFunction\<close>: the result of \<open>match\<close> is \<open>null\<close> where nothing matches.\<close>

definition makeFormatFunction :: "string \<Rightarrow> env \<Rightarrow> moment \<Rightarrow> string result" where
  "makeFormatFunction fmt e m =
     (let array = format_tokens fmt in if array = [] then Inl TypeError else Inr (format_parts e m array))"

definition replaceLongDateFormatTokens :: "locale_data \<Rightarrow> string \<Rightarrow> string" where
  "replaceLongDateFormatTokens l input =
     (case longDateFormat l input of Some s \<Rightarrow> if s = '''' then input else s | None \<Rightarrow> input)"

fun expandFormat_loop :: "nat \<Rightarrow> string \<Rightarrow> locale_data \<Rightarrow> string" where
  "expandFormat_loop 0 fmt l = fmt"
| "expandFormat_loop (Suc i) fmt l =
     (if rx_test localFormattingTokens fmt
      then expandFormat_loop i
             (rx_replace_all localFormattingTokens (\<lambda>x. replaceLongDateFormatTokens l (r_text x)) fmt) l
      else fmt)"

text \<open>\<open>expandFormat\<close>: \<open>i\<close> runs from 5 down to 0.\<close>

definition expandFormat :: "string \<Rightarrow> locale_data \<Rightarrow> string" where
  "expandFormat fmt l = expandFormat_loop 6 fmt l"

definition formatMoment :: "env \<Rightarrow> moment \<Rightarrow> string \<Rightarrow> string result" where
  "formatMoment e m fmt =
     (if \<not> fst (isValid m) then Inr (l_invalidDate (m_locale m))
      else makeFormatFunction (expandFormat fmt (m_locale m)) e m)"

definition isoFormat :: string where
  "isoFormat = ''YYYY-MM-DDTHH:mm:ssZ''"

text \<open>\<open>format(inputString)\<close>; the empty string stands for no argument.\<close>

definition format_moment :: "env \<Rightarrow> moment \<Rightarrow> string \<Rightarrow> string result" where
  "format_moment e m inputString =
     formatMoment e m (if inputString = '''' then isoFormat else inputString)"

definition toISOString :: "env \<Rightarrow> moment \<Rightarrow> string result" where
  "toISOString e m =
     (let m = to_utc e False (clone m)
      in if nlt (Some 0) (year e m) \<and> nle (year e m) (Some 9999)
         then formatMoment e m ''YYYY-MM-DD[T]HH:mm:ss.SSS[Z]''
         else formatMoment e m ''YYYYYY-MM-DD[T]HH:mm:ss.SSS[Z]'')"

text \<open>The method \<open>locale(key)\<close> of a moment; a locale that is not found throws at its first use.\<close>

definition set_moment_locale :: "env \<Rightarrow> locale_key \<Rightarrow> moment \<Rightarrow> moment result" where
  "set_moment_locale e key m =
     (case localeData e key of None \<Rightarrow> Inl TypeError | Some l \<Rightarrow> Inr (m\<lparr>m_locale := l\<rparr>))"

definition toString_moment :: "env \<Rightarrow> moment \<Rightarrow> string result" where
  "toString_moment e m =
     (case set_moment_locale e (KString ''en'') (clone m) of
        Inl err \<Rightarrow> Inl err
      | Inr m' \<Rightarrow> format_moment e m' ''ddd MMM DD YYYY HH:mm:ss [GMT]ZZ'')"

section \<open>Relative and calendar time\<close>

definition from_moment :: "thresholds \<Rightarrow> env \<Rightarrow> moment \<Rightarrow> moment \<Rightarrow> bool \<Rightarrow> string result" where
  "from_moment t e this time withoutSuffix =
     (case localeData e (KString (l_abbr (m_locale this))) of
        None \<Rightarrow> Inl TypeError
      | Some l \<Rightarrow> humanize t (duration_between e time this) l (\<not> withoutSuffix))"

definition calendar_key :: "rat \<Rightarrow> string" where
  "calendar_key d =
     (if d < -6 then ''sameElse''
      else if d < -1 then ''lastWeek''
      else if d < 0 then ''lastDay''
      else if d < 1 then ''sameDay''
      else if d < 2 then ''nextDay''
      else if d < 7 then ''nextWeek''
      else ''sameElse'')"

text \<open>\<open>calendar(time)\<close>: a difference that is \<open>NaN\<close> compares false everywhere.\<close>

definition calendar :: "env \<Rightarrow> moment \<Rightarrow> moment \<Rightarrow> string result" where
  "calendar e this now =
     (let sod = startOf e ''day'' (makeAs e now this);
          output = diff_output e this sod ''days'';
          fmt = (case output of None \<Rightarrow> ''sameElse'' | Some d \<Rightarrow> calendar_key d)
      in format_moment e this (case locale_calendar (m_locale this) fmt of None \<Rightarrow> '''' | Some f \<Rightarrow> f))"

end
