(* ===== verification/Moment_Parse.thy ===== *)
theory Moment_Parse
  imports Moment_Format
begin

text \<open>
  \<open>moment-2.8.1.js\<close>, section "Parsing" and the top level constructors: from a string with a format,
  with a list of formats or in ISO 8601, from an array, an object, a number or a date.

  The array \<open>_a\<close> is a list of \<open>int option\<close>, \<open>None\<close> for an element that is missing. A token that found
  no input has the input \<open>None\<close> (\<open>undefined\<close>).
\<close>

section \<open>Patterns\<close>

definition r_digits :: "nat \<Rightarrow> rx" where "r_digits n = r_times n r_digit"
definition r_sign :: rx where "r_sign = r_set ''+-''"

definition parseTokenOneOrTwoDigits :: rx where "parseTokenOneOrTwoDigits = r_upto 2 r_digit"
definition parseTokenOneToThreeDigits :: rx where "parseTokenOneToThreeDigits = r_upto 3 r_digit"
definition parseTokenOneToFourDigits :: rx where "parseTokenOneToFourDigits = r_upto 4 r_digit"
definition parseTokenOneToSixDigits :: rx where
  "parseTokenOneToSixDigits = RSeq (ROpt r_sign) (r_upto 6 r_digit)"
definition parseTokenDigits :: rx where "parseTokenDigits = r_plus is_digit"

text \<open>Of the word pattern, the alternative for Arabic script has no match in 8-bit text.\<close>

definition is_word_char :: "char \<Rightarrow> bool" where
  "is_word_char c \<longleftrightarrow> c = CHR 0x27 \<or> (97 \<le> (of_char (ascii_lower c) :: nat) \<and>
     (of_char (ascii_lower c) :: nat) \<le> 122) \<or> (160 :: nat) \<le> of_char c"
definition parseTokenWord :: rx where "parseTokenWord = RSeq (RStar is_digit) (r_plus is_word_char)"

definition parseTokenTimezone :: rx where
  "parseTokenTimezone =
     RAlt (r_char_i (CHR ''Z''))
       (r_seqs [r_sign, r_digits 2, ROpt (r_char (CHR '':'')), r_digits 2])"
definition parseTokenT :: rx where "parseTokenT = r_char_i (CHR ''T'')"
definition parseTokenTimestampMs :: rx where
  "parseTokenTimestampMs =
     r_seqs [ROpt r_sign, r_plus is_digit,
       ROpt (RGrp 1 (RSeq (r_char (CHR ''.'')) (r_upto 3 r_digit)))]"
definition parseTokenOrdinal :: rx where "parseTokenOrdinal = r_upto 2 r_digit"
definition parseTokenOneDigit :: rx where "parseTokenOneDigit = r_digit"
definition parseTokenTwoDigits :: rx where "parseTokenTwoDigits = r_digits 2"
definition parseTokenThreeDigits :: rx where "parseTokenThreeDigits = r_digits 3"
definition parseTokenFourDigits :: rx where "parseTokenFourDigits = r_digits 4"
definition parseTokenSixDigits :: rx where "parseTokenSixDigits = RSeq (ROpt r_sign) (r_digits 6)"
definition parseTokenSignedNumber :: rx where
  "parseTokenSignedNumber = RSeq (ROpt r_sign) (r_plus is_digit)"
definition meridiemParse :: rx where
  "meridiemParse =
     r_seqs [RAlt (r_char_i (CHR ''a'')) (r_char_i (CHR ''p'')), ROpt (r_char (CHR ''.'')),
       ROpt (r_char_i (CHR ''m'')), ROpt (r_char (CHR ''.''))]"
definition parseTimezoneChunker :: rx where
  "parseTimezoneChunker = RGrp 1 (RAlt r_sign (r_digits 2))"
definition aspNetJsonRegex :: rx where
  "aspNetJsonRegex =
     r_seqs [ROpt (r_char (CHR ''/'')), r_lit_i ''Date'', r_char (CHR ''(''),
       RGrp 1 (RSeq (ROpt (r_char (CHR ''-''))) (r_plus is_digit))]"

text \<open>\<open>isoRegex\<close>, which is anchored at both ends; group 6 is the separator of date and time.\<close>

definition isoRegex :: rx where
  "isoRegex =
     r_seqs
       [RStar is_space, RAlt (RSeq r_sign (r_digits 6)) (r_digits 4), r_char (CHR ''-''),
        r_alts
          [RGrp 1 (r_seqs [r_digits 2, r_char (CHR ''-''), r_digits 2]),
           RGrp 2 (r_seqs [r_char (CHR ''W''), r_digits 2, REnd]),
           RGrp 3 (r_seqs [r_char (CHR ''W''), r_digits 2, r_char (CHR ''-''), r_digit]),
           RGrp 4 (r_digits 3)],
        ROpt (RGrp 5 (r_seqs
          [RGrp 6 (RAlt (r_char (CHR ''T'')) (r_char (CHR '' ''))),
           ROpt (RGrp 7 (RSeq (r_digits 2)
             (ROpt (RGrp 8 (r_seqs [r_char (CHR '':''), r_digits 2,
               ROpt (RGrp 9 (r_seqs [r_char (CHR '':''), r_digits 2,
                 ROpt (RGrp 10 (RSeq (r_char (CHR ''.'')) (r_plus is_digit)))]))]))))),
           ROpt (RGrp 11 (RAlt
             (r_seqs [r_sign, r_digits 2, ROpt (RSeq (ROpt (r_char (CHR '':''))) (r_digits 2))])
             (RSeq (RStar is_space) (r_char (CHR ''Z'')))))])),
        REnd]"

definition isoDates :: "(string \<times> rx) list" where
  "isoDates =
     [(''YYYYYY-MM-DD'', r_seqs [r_sign, r_digits 6, r_char (CHR ''-''), r_digits 2, r_char (CHR ''-''), r_digits 2]),
      (''YYYY-MM-DD'', r_seqs [r_digits 4, r_char (CHR ''-''), r_digits 2, r_char (CHR ''-''), r_digits 2]),
      (''GGGG-[W]WW-E'', r_seqs [r_digits 4, r_lit ''-W'', r_digits 2, r_char (CHR ''-''), r_digit]),
      (''GGGG-[W]WW'', r_seqs [r_digits 4, r_lit ''-W'', r_digits 2]),
      (''YYYY-DDD'', r_seqs [r_digits 4, r_char (CHR ''-''), r_digits 3])]"

definition r_sep :: rx where "r_sep = RGrp 1 (RAlt (r_char (CHR ''T'')) (r_char (CHR '' '')))"

definition isoTimes :: "(string \<times> rx) list" where
  "isoTimes =
     [(''HH:mm:ss.SSSS'', r_seqs [r_sep, r_digits 2, r_char (CHR '':''), r_digits 2, r_char (CHR '':''),
         r_digits 2, r_char (CHR ''.''), r_plus is_digit]),
      (''HH:mm:ss'', r_seqs [r_sep, r_digits 2, r_char (CHR '':''), r_digits 2, r_char (CHR '':''), r_digits 2]),
      (''HH:mm'', r_seqs [r_sep, r_digits 2, r_char (CHR '':''), r_digits 2]),
      (''HH'', RSeq r_sep (r_digits 2))]"

section \<open>Tokens\<close>

text \<open>
  \<open>unescapeFormat\<close>: escaped brackets, bracketed text and escaped characters lose their marks. For
  the empty brackets all four groups are falsy and the callback returns \<open>undefined\<close>.
\<close>

definition rx_escape :: rx where
  "rx_escape =
     r_alts
       [RSeq (r_char (CHR 0x5C)) (RGrp 1 (r_char (CHR ''[''))),
        RSeq (r_char (CHR 0x5C)) (RGrp 2 (r_char (CHR '']''))),
        r_seqs [r_char (CHR ''[''), RGrp 3 (RStar (\<lambda>c. c \<notin> {CHR '']'', CHR ''[''})), r_char (CHR '']'')],
        RSeq (r_char (CHR 0x5C)) (RGrp 4 r_dot)]"

definition first_truthy :: "rx_result \<Rightarrow> nat list \<Rightarrow> string" where
  "first_truthy x is =
     (case filter truthy_str (map (r_group x) is) of Some g # _ \<Rightarrow> g | _ \<Rightarrow> ''undefined'')"

definition unescapeFormat :: "string \<Rightarrow> string" where
  "unescapeFormat s = rx_replace_all rx_escape (\<lambda>x. first_truthy x [1, 2, 3, 4]) s"

text \<open>
  \<open>getParseRegexForToken\<close>. In the default case the text is escaped, so that it stands for itself; the
  flag \<open>'i'\<close> is an argument of \<open>regexpEscape\<close> there and has no effect.
\<close>

definition getParseRegexForToken :: "string \<Rightarrow> bool \<Rightarrow> rx" where
  "getParseRegexForToken token strict =
     (if token = ''Q'' then parseTokenOneDigit
      else if token = ''DDDD'' then parseTokenThreeDigits
      else if token \<in> {''YYYY'', ''GGGG'', ''gggg''}
        then (if strict then parseTokenFourDigits else parseTokenOneToFourDigits)
      else if token \<in> {''Y'', ''G'', ''g''} then parseTokenSignedNumber
      else if token \<in> {''YYYYYY'', ''YYYYY'', ''GGGGG'', ''ggggg''}
        then (if strict then parseTokenSixDigits else parseTokenOneToSixDigits)
      else if token = ''S'' \<and> strict then parseTokenOneDigit
      else if token = ''SS'' \<and> strict then parseTokenTwoDigits
      else if token = ''SSS'' \<and> strict then parseTokenThreeDigits
      else if token \<in> {''S'', ''SS'', ''SSS'', ''DDD''} then parseTokenOneToThreeDigits
      else if token \<in> {''MMM'', ''MMMM'', ''dd'', ''ddd'', ''dddd''} then parseTokenWord
      else if token \<in> {''a'', ''A''} then meridiemParse
      else if token = ''X'' then parseTokenTimestampMs
      else if token \<in> {''Z'', ''ZZ''} then parseTokenTimezone
      else if token = ''T'' then parseTokenT
      else if token = ''SSSS'' then parseTokenDigits
      else if token \<in> {''MM'', ''DD'', ''YY'', ''GG'', ''gg'', ''HH'', ''hh'', ''mm'', ''ss'', ''ww'', ''WW''}
        then (if strict then parseTokenTwoDigits else parseTokenOneOrTwoDigits)
      else if token \<in> {''M'', ''D'', ''d'', ''H'', ''h'', ''m'', ''s'', ''w'', ''W'', ''e'', ''E''}
        then parseTokenOneOrTwoDigits
      else if token = ''Do'' then parseTokenOrdinal
      else r_lit (unescapeFormat (replace_first [CHR 0x5C] '''' token)))"

definition timezoneMinutesFromString :: "string \<Rightarrow> int" where
  "timezoneMinutesFromString s =
     (let possibleTzMatches = rx_match_all parseTokenTimezone s;
          tzChunk = (if possibleTzMatches = [] then '''' else last possibleTzMatches);
          parts = rx_match_all parseTimezoneChunker tzChunk
      in case parts of
           sign # h # rest \<Rightarrow>
             (let minutes = toInt (Some h) * 60 + toInt (case rest of [] \<Rightarrow> None | mi # _ \<Rightarrow> Some mi)
              in if sign = ''+'' then - minutes else minutes)
         | _ \<Rightarrow> 0)"

definition parseTwoDigitYear :: "string option \<Rightarrow> int" where
  "parseTwoDigitYear input = toInt input + (if toInt input > 68 then 1900 else 2000)"

text \<open>
  \<open>toInt(('0.' + input) * 1000)\<close> for digits: the first three of them, a short input filled up with
  zeros; doubles give the same for the up to twelve digits a clock prints. \<open>undefined\<close> gives 0.
\<close>

definition parse_ms :: "string option \<Rightarrow> int" where
  "parse_ms input =
     (case input of None \<Rightarrow> 0
      | Some s \<Rightarrow> if list_all is_digit s then toInt (Some (take 3 (s @ ''000''))) else 0)"

text \<open>
  \<open>new Date(parseFloat(input) * 1000)\<close> for a timestamp in seconds with up to three decimals, computed
  exactly (the product of doubles can be less than the exact value by a fraction of a millisecond,
  which the date cuts off).
\<close>

definition parse_timestamp :: "string option \<Rightarrow> num" where
  "parse_timestamp input =
     (case input of
        None \<Rightarrow> None
      | Some s \<Rightarrow>
          (let (whole, frac) = (case index_of ''.'' s of None \<Rightarrow> (s, '''') | Some i \<Rightarrow> (take i s, drop (i + 1) s));
               neg = (whole \<noteq> [] \<and> hd whole = CHR ''-'')
           in case to_number whole of
                None \<Rightarrow> None
              | Some n \<Rightarrow> TimeClip (n * 1000 + (if neg then - parse_ms (Some frac) else parse_ms (Some frac)))))"

definition set_elem :: "int option list \<Rightarrow> nat \<Rightarrow> int \<Rightarrow> int option list" where
  "set_elem a i v = (a @ replicate (Suc i - length a) None)[i := Some v]"

definition conf_a :: "config \<Rightarrow> int option list" where
  "conf_a c = (case c_a c of None \<Rightarrow> [] | Some a \<Rightarrow> a)"

definition set_a :: "nat \<Rightarrow> int \<Rightarrow> config \<Rightarrow> config" where
  "set_a i v c = c\<lparr>c_a := Some (set_elem (conf_a c) i v)\<rparr>"

definition conf_w :: "config \<Rightarrow> week_info" where
  "conf_w c = (case c_w c of None \<Rightarrow> empty_week_info | Some w \<Rightarrow> w)"

text \<open>\<open>config._w[token] = v\<close>.\<close>

definition set_w :: "string \<Rightarrow> int \<Rightarrow> config \<Rightarrow> config" where
  "set_w token v c =
     (let w = conf_w c in
      c\<lparr>c_w := Some (
        if token = ''GG'' then w\<lparr>w_GG := Some v\<rparr>
        else if token = ''W'' then w\<lparr>w_W := Some v\<rparr>
        else if token = ''E'' then w\<lparr>w_E := Some v\<rparr>
        else if token = ''gg'' then w\<lparr>w_gg := Some v\<rparr>
        else if token = ''w'' then w\<lparr>w_w := Some v\<rparr>
        else if token = ''d'' then w\<lparr>w_d := Some v\<rparr>
        else if token = ''e'' then w\<lparr>w_e := Some v\<rparr>
        else w)\<rparr>)"

text \<open>A regular expression tests \<open>undefined\<close> as the text of that name.\<close>

definition or_undefined :: "string option \<Rightarrow> string" where
  "or_undefined s = (case s of None \<Rightarrow> ''undefined'' | Some t \<Rightarrow> t)"

definition addTimeToArrayFromToken :: "string \<Rightarrow> string option \<Rightarrow> config \<Rightarrow> config" where
  "addTimeToArrayFromToken token input config =
     (if token = ''Q'' then (if input \<noteq> None then set_a 1 ((toInt input - 1) * 3) config else config)
      else if token \<in> {''M'', ''MM''} then (if input \<noteq> None then set_a 1 (toInt input - 1) config else config)
      else if token \<in> {''MMM'', ''MMMM''}
        then (case monthsParse (c_locale config) (or_undefined input) of
                Some a \<Rightarrow> set_a 1 a config
              | None \<Rightarrow> config\<lparr>c_pf := (c_pf config)\<lparr>pf_invalidMonth := input\<rparr>\<rparr>)
      else if token \<in> {''D'', ''DD'', ''Do''} then (if input \<noteq> None then set_a 2 (toInt input) config else config)
      else if token \<in> {''DDD'', ''DDDD''}
        then (if input \<noteq> None then config\<lparr>c_dayOfYear := Some (toInt input)\<rparr> else config)
      else if token = ''YY'' then set_a 0 (parseTwoDigitYear input) config
      else if token \<in> {''YYYY'', ''YYYYY'', ''YYYYYY''} then set_a 0 (toInt input) config
      else if token \<in> {''a'', ''A''} then config\<lparr>c_isPm := Some (isPM (or_undefined input))\<rparr>
      else if token \<in> {''H'', ''HH'', ''h'', ''hh''} then set_a 3 (toInt input) config
      else if token \<in> {''m'', ''mm''} then set_a 4 (toInt input) config
      else if token \<in> {''s'', ''ss''} then set_a 5 (toInt input) config
      else if token \<in> {''S'', ''SS'', ''SSS'', ''SSSS''} then set_a 6 (parse_ms input) config
      else if token = ''X'' then config\<lparr>c_d := Some (parse_timestamp input)\<rparr>
      else if token \<in> {''Z'', ''ZZ''}
        then config\<lparr>c_useUTC := True,
               c_tzm := Some (timezoneMinutesFromString (case input of None \<Rightarrow> '''' | Some s \<Rightarrow> s))\<rparr>
      else if token \<in> {''dd'', ''ddd'', ''dddd''}
        then (case weekdaysParse (c_locale config) (or_undefined input) of
                Some a \<Rightarrow> set_w ''d'' a config
              | None \<Rightarrow> config\<lparr>c_pf := (c_pf config)\<lparr>pf_invalidWeekday := input\<rparr>\<rparr>)
      else if token \<in> {''w'', ''ww'', ''W'', ''WW'', ''d'', ''e'', ''E''}
        then (if truthy_str input then set_w (take 1 token) (toInt input) config else config)
      else if token \<in> {''gggg'', ''GGGG'', ''GGGGG''}
        then (if truthy_str input then set_w (take 2 token) (toInt input) config else config)
      else if token \<in> {''gg'', ''GG''} then set_w token (parseTwoDigitYear input) config
      else config)"

section \<open>From an array of fields to a date\<close>

text \<open>The moment \<open>moment()\<close>, local and of the present instant.\<close>

definition now_config :: "env \<Rightarrow> bool \<Rightarrow> input \<Rightarrow> format \<Rightarrow> locale_data \<Rightarrow> bool \<Rightarrow> config" where
  "now_config e useUTC input fmt l strict =
     \<lparr>c_i = input, c_f = fmt, c_strict = strict, c_tzm = None, c_isUTC = useUTC, c_useUTC = useUTC,
      c_pf = defaultParsingFlags, c_locale = l, c_a = None, c_w = None, c_dayOfYear = None,
      c_isPm = None, c_d = None, c_isValid = None\<rparr>"

definition moment_now :: "env \<Rightarrow> moment" where
  "moment_now e =
     Moment ((now_config e False IUndefined FUndefined (e_locale e) False)\<lparr>c_d := Some (Some (e_now e))\<rparr>)"

text \<open>
  \<open>dayOfYearFromWeekInfo\<close>. Where \<open>dayOfYearFromWeeks\<close> computes with \<open>NaN\<close> (a week year out of range)
  the year is one less and the day of the year is \<open>NaN\<close>, which is not truthy.
\<close>

definition dayOfYearFromWeekInfo :: "env \<Rightarrow> config \<Rightarrow> config" where
  "dayOfYearFromWeekInfo e config =
     (let w = conf_w config;
          iso = (w_GG w \<noteq> None \<or> w_W w \<noteq> None \<or> w_E w \<noteq> None);
          dow = (if iso then 1 else l_dow (c_locale config));
          doy = (if iso then 4 else l_doy (c_locale config));
          now_year = nan_or_0 (snd (weekOfYear e (moment_now e) dow doy));
          wYear = dfl3 (if iso then w_GG w else w_gg w) (elem (conf_a config) 0) now_year;
          wk = dfl2 (if iso then w_W w else w_w w) 1;
          (wk, wday) =
            (if iso then (wk, dfl2 (w_E w) 1)
             else case w_d w of
                    Some d \<Rightarrow> (if d < dow then wk + 1 else wk, d)
                  | None \<Rightarrow> (wk, case w_e w of Some x \<Rightarrow> x + dow | None \<Rightarrow> dow))
      in case dayOfYearFromWeeks wYear wk wday doy dow of
           Some (y, yday) \<Rightarrow> (set_a 0 y config)\<lparr>c_dayOfYear := Some yday\<rparr>
         | None \<Rightarrow> (set_a 0 (wYear - 1) config)\<lparr>c_dayOfYear := None\<rparr>)"

definition currentDateArray :: "env \<Rightarrow> config \<Rightarrow> num list" where
  "currentDateArray e config =
     (let c = (if c_useUTC config then UTC else Local (e_zone e))
      in map (\<lambda>f. date_get c f (Some (e_now e))) [FullYear, Month, Date])"

text \<open>The two loops of \<open>dateFromConfig\<close>: default from the front, then fill up.\<close>

fun default_front :: "nat \<Rightarrow> nat \<Rightarrow> num list \<Rightarrow> int option list \<Rightarrow> nat \<times> int option list" where
  "default_front i 0 cur a = (i, a)"
| "default_front i (Suc n) cur a =
     (if elem a i = None then default_front (Suc i) n cur (set_elem a i (nan_or_0 (elem cur i)))
      else (i, a))"

fun fill_rest :: "nat \<Rightarrow> nat \<Rightarrow> int option list \<Rightarrow> int option list" where
  "fill_rest i 0 a = a"
| "fill_rest i (Suc n) a =
     fill_rest (Suc i) n
       (set_elem a i (case elem a i of None \<Rightarrow> if i = 2 then 1 else 0 | Some v \<Rightarrow> v))"

definition complete_fields :: "num list \<Rightarrow> int option list \<Rightarrow> int option list" where
  "complete_fields cur a = (let (i, a) = default_front 0 3 cur a in fill_rest i (7 - i) a)"

definition date_of_array :: "env \<Rightarrow> bool \<Rightarrow> int option list \<Rightarrow> num" where
  "date_of_array e useUTC a =
     (let v = (\<lambda>i. nan_or_0 (elem a i))
      in if useUTC then makeUTCDate (v 0) (v 1) (v 2) (v 3) (v 4) (v 5) (v 6)
         else makeDate e (v 0) (v 1) (v 2) (v 3) (v 4) (v 5) (v 6))"

text \<open>The day of the year, when it is set and not 0, decides month and day.\<close>

definition fromDayOfYear :: "env \<Rightarrow> config \<Rightarrow> config" where
  "fromDayOfYear e config =
     (case c_dayOfYear config of
        None \<Rightarrow> config
      | Some doy \<Rightarrow>
          if doy = 0 then config
          else
            (let yearToUse = dfl2 (elem (conf_a config) 0) (nan_or_0 (hd (currentDateArray e config)));
                 config = (if doy > daysInYear yearToUse
                           then config\<lparr>c_pf := (c_pf config)\<lparr>pf_overflowDayOfYear := True\<rparr>\<rparr> else config);
                 d = makeUTCDate yearToUse 0 doy 0 0 0 0
             in case (date_get UTC Month d, date_get UTC Date d) of
                  (Some mo, Some da) \<Rightarrow> set_a 2 da (set_a 1 mo config)
                | _ \<Rightarrow> config))"

definition dateFromConfig :: "env \<Rightarrow> config \<Rightarrow> config" where
  "dateFromConfig e config =
     (if c_d config \<noteq> None then config
      else
        (let currentDate = currentDateArray e config;
             config = (if c_w config \<noteq> None \<and> elem (conf_a config) 2 = None \<and> elem (conf_a config) 1 = None
                       then dayOfYearFromWeekInfo e config else config);
             config = fromDayOfYear e config;
             a = complete_fields currentDate (conf_a config);
             d = date_of_array e (c_useUTC config) a;
             d = (case c_tzm config of
                    None \<Rightarrow> d
                  | Some tzm \<Rightarrow> date_set UTC Minutes (nadd (date_get UTC Minutes d) (Some tzm)) d)
         in config\<lparr>c_a := Some a, c_d := Some d\<rparr>))"

definition dateFromObject :: "env \<Rightarrow> (string \<times> int) list \<Rightarrow> config \<Rightarrow> config" where
  "dateFromObject e obj config =
     (if c_d config \<noteq> None then config
      else
        (let normalizedInput = normalizeObjectUnits obj
         in dateFromConfig e (config\<lparr>c_a := Some (map (map_of normalizedInput)
              [''year'', ''month'', ''day'', ''hour'', ''minute'', ''second'', ''millisecond''])\<rparr>)))"

section \<open>From a string\<close>

text \<open>\<open>'' + config._i\<close>; what a date prints as is left to the host.\<close>

definition input_str :: "env \<Rightarrow> input \<Rightarrow> string" where
  "input_str e i =
     (case i of
        IUndefined \<Rightarrow> ''undefined''
      | INull \<Rightarrow> ''null''
      | IString s \<Rightarrow> s
      | INumber n \<Rightarrow> num_str n
      | IDate d \<Rightarrow> e_date_text e d
      | IArray a \<Rightarrow> join_char (CHR '','') (map (\<lambda>x. case x of None \<Rightarrow> '''' | Some k \<Rightarrow> int_str k) a)
      | IObject _ \<Rightarrow> ''[object Object]'')"

text \<open>The state of the loop over the tokens: the rest of the input, the length that was parsed, the configuration.\<close>

record scan =
  s_string :: string
  s_parsed :: nat
  s_config :: config

definition push_unusedInput :: "string \<Rightarrow> config \<Rightarrow> config" where
  "push_unusedInput s c = c\<lparr>c_pf := (c_pf c)\<lparr>pf_unusedInput := pf_unusedInput (c_pf c) @ [s]\<rparr>\<rparr>"

definition push_unusedToken :: "string \<Rightarrow> config \<Rightarrow> config" where
  "push_unusedToken t c = c\<lparr>c_pf := (c_pf c)\<lparr>pf_unusedTokens := pf_unusedTokens (c_pf c) @ [t]\<rparr>\<rparr>"

definition scan_token :: "string \<Rightarrow> scan \<Rightarrow> scan" where
  "scan_token token st =
     (let config = s_config st; s = s_string st;
          matched = map_option r_text (rx_exec (getParseRegexForToken token (c_strict config)) s);
          parsedInput = (case matched of Some t \<Rightarrow> if t = '''' then None else Some t | None \<Rightarrow> None);
          st = (case parsedInput of
                  None \<Rightarrow> st
                | Some p \<Rightarrow>
                    (let i = (case index_of p s of Some i \<Rightarrow> i | None \<Rightarrow> 0)
                     in \<lparr>s_string = drop (i + length p) s, s_parsed = s_parsed st + length p,
                         s_config = (if i > 0 then push_unusedInput (take i s) config else config)\<rparr>));
          config = s_config st;
          config =
            (if token \<in> set known_tokens
             then addTimeToArrayFromToken token (case matched of Some t \<Rightarrow> Some t | None \<Rightarrow> None)
                    (if parsedInput \<noteq> None then config\<lparr>c_pf := (c_pf config)\<lparr>pf_empty := False\<rparr>\<rparr>
                     else push_unusedToken token config)
             else if c_strict config \<and> parsedInput = None then push_unusedToken token config
             else config)
      in st\<lparr>s_config := config\<rparr>)"

text \<open>Hours of the afternoon, and midnight.\<close>

definition fix_hours :: "config \<Rightarrow> config" where
  "fix_hours config =
     (let h = elem (conf_a config) 3;
          config = (if c_isPm config = Some True \<and> nlt h (Some 12) then set_a 3 (nan_or_0 h + 12) config
                    else config)
      in if c_isPm config = Some False \<and> elem (conf_a config) 3 = Some 12 then set_a 3 0 config else config)"

definition makeDateFromStringAndFormat :: "env \<Rightarrow> string \<Rightarrow> config \<Rightarrow> config" where
  "makeDateFromStringAndFormat e fmt config =
     (let config = config\<lparr>c_a := Some [], c_pf := (c_pf config)\<lparr>pf_empty := True\<rparr>\<rparr>;
          s = input_str e (c_i config);
          tokens = format_tokens (expandFormat fmt (c_locale config));
          st = fold scan_token tokens \<lparr>s_string = s, s_parsed = 0, s_config = config\<rparr>;
          config = s_config st;
          config = config\<lparr>c_pf := (c_pf config)\<lparr>pf_charsLeftOver := int (length s) - int (s_parsed st)\<rparr>\<rparr>;
          config = (if s_string st \<noteq> '''' then push_unusedInput (s_string st) config else config)
      in checkOverflow (dateFromConfig e (fix_hours config)))"

definition find_format :: "(string \<times> rx) list \<Rightarrow> string \<Rightarrow> string option" where
  "find_format table s =
     (case filter (\<lambda>p. rx_test (snd p) s) table of [] \<Rightarrow> None | p # _ \<Rightarrow> Some (fst p))"

text \<open>
  The format that \<open>parseISO\<close> puts together. A string that matches \<open>isoRegex\<close> also matches a date
  pattern; otherwise the format would start with the text of \<open>undefined\<close>.
\<close>

definition iso_format_of :: "rx_result \<Rightarrow> string \<Rightarrow> string" where
  "iso_format_of match s =
     (case find_format isoDates s of
        Some f \<Rightarrow> f @ (case r_group match 6 of Some sep \<Rightarrow> sep | None \<Rightarrow> '' '')
      | None \<Rightarrow> ''undefined'') @
     (case find_format isoTimes s of Some f \<Rightarrow> f | None \<Rightarrow> '''') @
     (if rx_test parseTokenTimezone s then ''Z'' else '''')"

definition parseISO :: "env \<Rightarrow> config \<Rightarrow> config" where
  "parseISO e config =
     (let s = input_str e (c_i config)
      in case rx_exec_here isoRegex s of
           Some match \<Rightarrow>
             (let f = iso_format_of match s
              in makeDateFromStringAndFormat e f
                   (config\<lparr>c_f := FString f, c_pf := (c_pf config)\<lparr>pf_iso := True\<rparr>\<rparr>))
         | None \<Rightarrow> config\<lparr>c_isValid := Some False\<rparr>)"

text \<open>\<open>makeDateFromString\<close>; the fallback \<open>createFromInputFallback\<close> hands the string to the host.\<close>

definition makeDateFromString :: "env \<Rightarrow> string \<Rightarrow> config \<Rightarrow> config" where
  "makeDateFromString e s config =
     (let config = parseISO e config
      in if c_isValid config = Some False
         then config\<lparr>c_isValid := None, c_d := Some (e_date_parse e s)\<rparr> else config)"

section \<open>From a list of formats\<close>

text \<open>
  One candidate of \<open>makeDateFromStringAndArray\<close>. The copy made by \<open>copyConfig\<close> has neither \<open>_useUTC\<close> nor
  the parsing state.
\<close>

definition try_format :: "env \<Rightarrow> config \<Rightarrow> string \<Rightarrow> bool \<times> config" where
  "try_format e config fmt =
     (let temp = (now_config e False (c_i config) (FString fmt) (c_locale config) (c_strict config))
                   \<lparr>c_isUTC := c_isUTC config, c_tzm := c_tzm config\<rparr>
      in isValid_config (makeDateFromStringAndFormat e fmt temp))"

definition format_score :: "config \<Rightarrow> int" where
  "format_score c = pf_charsLeftOver (c_pf c) + int (length (pf_unusedTokens (c_pf c))) * 10"

fun best_format ::
    "env \<Rightarrow> config \<Rightarrow> string list \<Rightarrow> (int \<times> config) option \<Rightarrow> config \<Rightarrow> config" where
  "best_format e config [] best temp = (case best of None \<Rightarrow> temp | Some (_, c) \<Rightarrow> c)"
| "best_format e config (f # fs) best temp =
     (let (valid, temp) = try_format e config f
      in if \<not> valid then best_format e config fs best temp
         else
           (let currentScore = format_score temp;
                temp = temp\<lparr>c_pf := (c_pf temp)\<lparr>pf_score := Some currentScore\<rparr>\<rparr>;
                better = (case best of None \<Rightarrow> True | Some (scoreToBeat, _) \<Rightarrow> currentScore < scoreToBeat)
            in best_format e config fs (if better then Some (currentScore, temp) else best) temp))"

text \<open>
  \<open>makeDateFromStringAndArray\<close>: \<open>extend\<close> copies the fields of the winner over the configuration, which
  keeps its own \<open>_useUTC\<close> unless the winner has one (a zone was parsed).
\<close>

definition makeDateFromStringAndArray :: "env \<Rightarrow> string list \<Rightarrow> config \<Rightarrow> config" where
  "makeDateFromStringAndArray e fs config =
     (if fs = []
      then config\<lparr>c_pf := (c_pf config)\<lparr>pf_invalidFormat := True\<rparr>, c_d := Some None\<rparr>
      else
        (let best = best_format e config fs None config
         in best\<lparr>c_useUTC := c_useUTC config \<or> c_useUTC best\<rparr>))"

section \<open>The constructors\<close>

definition makeDateFromInput :: "env \<Rightarrow> config \<Rightarrow> config" where
  "makeDateFromInput e config =
     (case c_i config of
        IUndefined \<Rightarrow> config\<lparr>c_d := Some (Some (e_now e))\<rparr>
      | IDate d \<Rightarrow> config\<lparr>c_d := Some (date_set_time d)\<rparr>
      | IString s \<Rightarrow>
          (case rx_exec_here aspNetJsonRegex s of
             Some matched \<Rightarrow>
               config\<lparr>c_d := Some (date_set_time (Option.bind (r_group matched 1) to_number))\<rparr>
           | None \<Rightarrow> makeDateFromString e s config)
      | IArray a \<Rightarrow> dateFromConfig e (config\<lparr>c_a := Some a\<rparr>)
      | IObject obj \<Rightarrow> dateFromObject e obj config
      | INumber n \<Rightarrow> config\<lparr>c_d := Some (date_set_time n)\<rparr>
      | INull \<Rightarrow> config)"

text \<open>
  \<open>makeMoment\<close> for an input that is no moment and not \<open>null\<close>; a moment is cloned, and for \<open>null\<close> and an
  empty string without a format the result is \<open>moment.invalid\<close>.
\<close>

definition parse_config :: "env \<Rightarrow> config \<Rightarrow> config" where
  "parse_config e config =
     (case c_f config of
        FString f \<Rightarrow> if f = '''' then makeDateFromInput e config else makeDateFromStringAndFormat e f config
      | FArray fs \<Rightarrow> makeDateFromStringAndArray e fs config
      | FIso8601 \<Rightarrow> parseISO e config
      | FUndefined \<Rightarrow> makeDateFromInput e config)"

definition invalid_number :: "env \<Rightarrow> moment" where
  "invalid_number e =
     to_utc e False (Moment (makeDateFromInput e
       (now_config e True (INumber None) FUndefined (e_locale e) False)))"

text \<open>\<open>moment.invalid(flags)\<close>, for no flags and for the flag \<open>nullInput\<close>.\<close>

definition moment_invalid :: "env \<Rightarrow> bool \<Rightarrow> moment" where
  "moment_invalid e nullInput =
     (let m = invalid_number e
      in m\<lparr>m_pf := (if nullInput then (m_pf m)\<lparr>pf_nullInput := True\<rparr>
                    else (m_pf m)\<lparr>pf_userInvalidated := True\<rparr>)\<rparr>)"

text \<open>A locale that is not found throws where it is used first (for a string, in \<open>preparse\<close>).\<close>

definition makeMoment :: "env \<Rightarrow> bool \<Rightarrow> input \<Rightarrow> format \<Rightarrow> locale_key \<Rightarrow> bool \<Rightarrow> moment result" where
  "makeMoment e useUTC input fmt locale strict =
     (if input = INull \<or> (fmt = FUndefined \<and> input = IString '''') then Inr (moment_invalid e True)
      else case localeData e locale of
             None \<Rightarrow> Inl TypeError
           | Some l \<Rightarrow> Inr (Moment (parse_config e (now_config e useUTC input fmt l strict))))"

definition moment_new :: "env \<Rightarrow> input \<Rightarrow> format \<Rightarrow> locale_key \<Rightarrow> bool \<Rightarrow> moment result" where
  "moment_new e input fmt locale strict = makeMoment e False input fmt locale strict"

definition moment_utc :: "env \<Rightarrow> input \<Rightarrow> format \<Rightarrow> locale_key \<Rightarrow> bool \<Rightarrow> moment result" where
  "moment_utc e input fmt locale strict =
     (case makeMoment e True input fmt locale strict of
        Inl err \<Rightarrow> Inl err | Inr m \<Rightarrow> Inr (to_utc e False m))"

definition moment_unix :: "env \<Rightarrow> num \<Rightarrow> moment result" where
  "moment_unix e input = moment_new e (INumber (nmap (\<lambda>n. n * 1000) input)) FUndefined KNone False"

text \<open>The method \<open>parseZone\<close> and the constructor of that name.\<close>

definition parseZone :: "env \<Rightarrow> moment \<Rightarrow> moment" where
  "parseZone e m =
     (case m_tzm m of
        Some z \<Rightarrow> if z \<noteq> 0 then set_zone e z False m
                  else (case m_i m of
                          IString s \<Rightarrow> set_zone e (timezoneMinutesFromString s) False m | _ \<Rightarrow> m)
      | None \<Rightarrow> (case m_i m of
                   IString s \<Rightarrow> set_zone e (timezoneMinutesFromString s) False m | _ \<Rightarrow> m))"

definition moment_parseZone :: "env \<Rightarrow> input \<Rightarrow> format \<Rightarrow> locale_key \<Rightarrow> bool \<Rightarrow> moment result" where
  "moment_parseZone e input fmt locale strict =
     (case moment_new e input fmt locale strict of
        Inl err \<Rightarrow> Inl err | Inr m \<Rightarrow> Inr (parseZone e m))"

section \<open>Functions that build moments\<close>

definition array_moment :: "env \<Rightarrow> bool \<Rightarrow> int option list \<Rightarrow> moment" where
  "array_moment e useUTC a =
     (let m = Moment (parse_config e (now_config e useUTC (IArray a) FUndefined (e_locale e) False))
      in if useUTC then to_utc e False m else m)"

definition weeksInYear :: "env \<Rightarrow> int \<Rightarrow> int \<Rightarrow> int \<Rightarrow> num" where
  "weeksInYear e yr dow doy =
     fst (weekOfYear e (array_moment e False [Some yr, Some 11, Some (31 + dow - doy)]) dow doy)"

definition isoWeeksInYear :: "env \<Rightarrow> moment \<Rightarrow> num" where
  "isoWeeksInYear e m = Option.bind (year e m) (\<lambda>y. weeksInYear e y 1 4)"

definition moment_weeksInYear :: "env \<Rightarrow> moment \<Rightarrow> num" where
  "moment_weeksInYear e m =
     Option.bind (year e m) (\<lambda>y. weeksInYear e y (l_dow (m_locale m)) (l_doy (m_locale m)))"

text \<open>\<open>isDSTShifted\<close>; \<open>compareArrays\<close> converts the elements with \<open>toInt\<close>.\<close>

definition isDSTShifted :: "env \<Rightarrow> moment \<Rightarrow> bool" where
  "isDSTShifted e m =
     (case m_a m of
        None \<Rightarrow> False
      | Some a \<Rightarrow> fst (isValid m) \<and>
          compareArrays (map nan_or_0 a) (map nan_or_0 (toArray e (array_moment e (m_isUTC m) a))) > 0)"

text \<open>
  \<open>makeList\<close>: \<open>moment.months()\<close>, \<open>moment.weekdays()\<close> and the like, without and with an index.
\<close>

definition list_names :: "locale_data \<Rightarrow> string \<Rightarrow> string list" where
  "list_names l field =
     (if field = ''months'' then l_months l
      else if field = ''monthsShort'' then l_monthsShort l
      else if field = ''weekdays'' then l_weekdays l
      else if field = ''weekdaysShort'' then l_weekdaysShort l
      else if field = ''weekdaysMin'' then l_weekdaysMin l
      else [])"

definition list_getter :: "env \<Rightarrow> string \<Rightarrow> int \<Rightarrow> string" where
  "list_getter e field i =
     (let m = to_utc e False (moment_now e)
      in if starts_with ''week'' field
         then nth_str (list_names (e_locale e) field) (get_day e (set_day e (Some i) m))
         else nth_str (list_names (e_locale e) field) (month e (set_unit e Month i m)))"

definition makeList :: "env \<Rightarrow> string \<Rightarrow> string list" where
  "makeList e field =
     map (list_getter e field) (if starts_with ''week'' field then [0..6] else [0..11])"

end
