(* ===== verification/Moment_Roundtrip.thy ===== *)
theory Moment_Roundtrip
  imports Moment_Calendar Moment_Parse
begin

text \<open>
  Properties of formatting and parsing: what is printed can be read back, candidates of a list of
  formats are compared by their score, missing fields are filled in.
\<close>

section \<open>Matching digits\<close>

lemma rx_match_upto_digits:
  assumes "list_all is_digit ds" "length ds = Suc n"
  shows "\<exists>others. rx_match (r_upto (Suc n) r_digit) (ds @ rest) k = (rest, k) # others"
  using assms
proof (induction n arbitrary: ds)
  case 0
  then obtain d where "ds = [d]" "is_digit d" by (cases ds) auto
  then show ?case by (simp add: r_digit_def)
next
  case (Suc n)
  then obtain d ds' where ds: "ds = d # ds'" "is_digit d" "list_all is_digit ds'" "length ds' = Suc n"
    by (cases ds) auto
  with Suc.IH [of ds'] show ?case by (auto simp: r_digit_def)
qed

lemma r_seqs_Cons: "xs \<noteq> [] \<Longrightarrow> r_seqs (x # xs) = RSeq x (r_seqs xs)"
  by (cases xs) simp_all

lemma rx_match_times_digits:
  assumes "list_all is_digit ds" "length ds = Suc n"
  shows "rx_match (r_digits (Suc n)) (ds @ rest) k = [(rest, k)]"
  using assms
proof (induction n arbitrary: ds)
  case 0
  then obtain d where "ds = [d]" "is_digit d" by (cases ds) auto
  then show ?case by (simp add: r_digits_def r_times_def r_digit_def)
next
  case (Suc n)
  then obtain d ds' where ds: "ds = d # ds'" "is_digit d" "list_all is_digit ds'" "length ds' = Suc n"
    by (cases ds) auto
  have "r_digits (Suc (Suc n)) = RSeq r_digit (r_digits (Suc n))"
    by (simp add: r_digits_def r_times_def r_seqs_Cons)
  with ds Suc.IH [of ds'] show ?case by (simp add: r_digit_def)
qed

lemma rx_exec_first:
  assumes "rx_match r (ds @ rest) [] = (rest, k) # others"
  shows "rx_exec r (ds @ rest) = Some \<lparr>r_before = [], r_text = ds, r_rest = rest, r_caps = k\<rparr>"
proof -
  have "rx_exec_here r (ds @ rest) = Some \<lparr>r_before = [], r_text = ds, r_rest = rest, r_caps = k\<rparr>"
    using assms by (simp add: rx_exec_here_def)
  then show ?thesis by (cases "ds @ rest") simp_all
qed

lemma index_of_prefix: "index_of p (p @ s) = Some 0"
proof (cases "p @ s")
  case (Cons c t)
  then have "starts_with p (c # t)"
    unfolding starts_with_def by (metis append_eq_conv_conj)
  then show ?thesis unfolding Cons by simp
qed simp

section \<open>Scanning a token\<close>

text \<open>A known token whose pattern matches the front of the input.\<close>

lemma scan_known:
  assumes "rx_match (getParseRegexForToken token (c_strict c)) (ds @ rest) [] = (rest, k) # others"
    "ds \<noteq> []" "token \<in> set known_tokens"
  shows "scan_token token \<lparr>s_string = ds @ rest, s_parsed = n, s_config = c\<rparr> =
    \<lparr>s_string = rest, s_parsed = n + length ds,
     s_config = addTimeToArrayFromToken token (Some ds) (c\<lparr>c_pf := (c_pf c)\<lparr>pf_empty := False\<rparr>\<rparr>)\<rparr>"
  using rx_exec_first [OF assms(1)] assms(2,3)
  by (simp add: scan_token_def Let_def index_of_prefix)

text \<open>A separator that the input has too.\<close>

lemma scan_separator:
  assumes "rx_match (getParseRegexForToken token (c_strict c)) (ds @ rest) [] = (rest, k) # others"
    "ds \<noteq> []" "token \<notin> set known_tokens"
  shows "scan_token token \<lparr>s_string = ds @ rest, s_parsed = n, s_config = c\<rparr> =
    \<lparr>s_string = rest, s_parsed = n + length ds, s_config = c\<rparr>"
  using rx_exec_first [OF assms(1)] assms(2,3)
  by (simp add: scan_token_def Let_def index_of_prefix)

lemma known_date_tokens: "''YYYY'' \<in> set known_tokens" "''MM'' \<in> set known_tokens"
    "''DD'' \<in> set known_tokens" "''-'' \<notin> set known_tokens"
  by code_simp+

lemma dash_pattern: "getParseRegexForToken ''-'' strict = r_char (CHR ''-'')"
proof -
  have "unescapeFormat (replace_first [CHR 0x5C] '''' ''-'') = ''-''" by code_simp
  then show ?thesis by (simp add: getParseRegexForToken_def r_lit_def)
qed

lemma date_patterns:
  assumes "list_all is_digit ds"
  shows "length ds = 4 \<Longrightarrow> \<exists>others. rx_match (getParseRegexForToken ''YYYY'' strict) (ds @ rest) k = (rest, k) # others"
    "length ds = 2 \<Longrightarrow> \<exists>others. rx_match (getParseRegexForToken ''MM'' strict) (ds @ rest) k = (rest, k) # others"
    "length ds = 2 \<Longrightarrow> \<exists>others. rx_match (getParseRegexForToken ''DD'' strict) (ds @ rest) k = (rest, k) # others"
  using rx_match_upto_digits [OF assms, of 3] rx_match_times_digits [OF assms, of 3]
    rx_match_upto_digits [OF assms, of 1] rx_match_times_digits [OF assms, of 1]
  by (simp_all add: getParseRegexForToken_def parseTokenFourDigits_def parseTokenOneToFourDigits_def
      parseTokenTwoDigits_def parseTokenOneOrTwoDigits_def eval_nat_numeral)

section \<open>Dates in year-month-day notation\<close>

abbreviation ymd :: string where "ymd \<equiv> ''YYYY-MM-DD''"

lemma ymd_tokens: "format_tokens (expandFormat ymd l) = [''YYYY'', ''-'', ''MM'', ''-'', ''DD'']"
proof -
  have "\<not> rx_test localFormattingTokens ymd" by code_simp
  then have "expandFormat ymd l = ymd" by (simp add: expandFormat_def eval_nat_numeral)
  moreover have "format_tokens ymd = [''YYYY'', ''-'', ''MM'', ''-'', ''DD'']" by code_simp
  ultimately show ?thesis by simp
qed

lemma add_date_tokens:
  "addTimeToArrayFromToken ''YYYY'' (Some s) c = set_a 0 (toInt (Some s)) c"
  "addTimeToArrayFromToken ''MM'' (Some s) c = set_a 1 (toInt (Some s) - 1) c"
  "addTimeToArrayFromToken ''DD'' (Some s) c = set_a 2 (toInt (Some s)) c"
  by (simp_all add: addTimeToArrayFromToken_def)

lemma set_a_sel [simp]: "c_strict (set_a i v c) = c_strict c" "c_pf (set_a i v c) = c_pf c"
    "c_isPm (set_a i v c) = c_isPm c" "c_d (set_a i v c) = c_d c" "c_w (set_a i v c) = c_w c"
    "c_dayOfYear (set_a i v c) = c_dayOfYear c" "c_tzm (set_a i v c) = c_tzm c"
    "c_useUTC (set_a i v c) = c_useUTC c" "c_isUTC (set_a i v c) = c_isUTC c"
    "c_locale (set_a i v c) = c_locale c" "c_i (set_a i v c) = c_i c" "c_f (set_a i v c) = c_f c"
    "c_isValid (set_a i v c) = c_isValid c" "c_a (set_a i v c) = Some (set_elem (conf_a c) i v)"
    "(set_a i v c)\<lparr>c_pf := pf\<rparr> = set_a i v (c\<lparr>c_pf := pf\<rparr>)"
  by (simp_all add: set_a_def conf_a_def)

lemma scan_ymd:
  assumes ds: "list_all is_digit Y" "list_all is_digit M" "list_all is_digit D"
    "length Y = 4" "length M = 2" "length D = 2"
  shows "fold scan_token [''YYYY'', ''-'', ''MM'', ''-'', ''DD'']
      \<lparr>s_string = Y @ ''-'' @ M @ ''-'' @ D, s_parsed = 0, s_config = c\<rparr> =
    \<lparr>s_string = '''', s_parsed = 10,
     s_config = set_a 2 (toInt (Some D)) (set_a 1 (toInt (Some M) - 1) (set_a 0 (toInt (Some Y))
       (c\<lparr>c_pf := (c_pf c)\<lparr>pf_empty := False\<rparr>\<rparr>)))\<rparr>"
proof -
  have ne: "Y \<noteq> []" "M \<noteq> []" "D \<noteq> []" using ds by auto
  have dash: "rx_match (getParseRegexForToken ''-'' (c_strict c')) (''-'' @ rest) [] = [(rest, [])]" for c' rest
    by (simp add: dash_pattern r_char_def)
  have step1: "scan_token ''YYYY'' \<lparr>s_string = Y @ rest, s_parsed = n, s_config = c'\<rparr> =
      \<lparr>s_string = rest, s_parsed = n + 4,
       s_config = set_a 0 (toInt (Some Y)) (c'\<lparr>c_pf := (c_pf c')\<lparr>pf_empty := False\<rparr>\<rparr>)\<rparr>" for rest n c'
    using date_patterns(1) [OF ds(1,4), of "c_strict c'" rest "[]"]
    by (elim exE) (simp add: scan_known ne known_date_tokens add_date_tokens ds)
  have step2: "scan_token ''MM'' \<lparr>s_string = M @ rest, s_parsed = n, s_config = c'\<rparr> =
      \<lparr>s_string = rest, s_parsed = n + 2,
       s_config = set_a 1 (toInt (Some M) - 1) (c'\<lparr>c_pf := (c_pf c')\<lparr>pf_empty := False\<rparr>\<rparr>)\<rparr>" for rest n c'
    using date_patterns(2) [OF ds(2,5), of "c_strict c'" rest "[]"]
    by (elim exE) (simp add: scan_known ne known_date_tokens add_date_tokens ds)
  have step3: "scan_token ''DD'' \<lparr>s_string = D @ rest, s_parsed = n, s_config = c'\<rparr> =
      \<lparr>s_string = rest, s_parsed = n + 2,
       s_config = set_a 2 (toInt (Some D)) (c'\<lparr>c_pf := (c_pf c')\<lparr>pf_empty := False\<rparr>\<rparr>)\<rparr>" for rest n c'
    using date_patterns(3) [OF ds(3,6), of "c_strict c'" rest "[]"]
    by (elim exE) (simp add: scan_known ne known_date_tokens add_date_tokens ds)
  have sep: "scan_token ''-'' \<lparr>s_string = ''-'' @ rest, s_parsed = n, s_config = c'\<rparr> =
      \<lparr>s_string = rest, s_parsed = n + 1, s_config = c'\<rparr>" for rest n c'
    using scan_separator [OF dash _ known_date_tokens(4)] by simp
  show ?thesis
    using step3 [of "[]"] by (simp only: fold.simps o_apply id_apply append_Nil2 step1 step2 sep) simp
qed

lemma complete_ymd:
  "complete_fields cur (set_elem (set_elem (set_elem [] 0 y) 1 mo) 2 d) =
     [Some y, Some mo, Some d, Some 0, Some 0, Some 0, Some 0]"
  by (simp add: complete_fields_def set_elem_def eval_nat_numeral)

lemma overflow_fields:
  assumes "year_ok y" "\<not> (y = 0 \<and> mo = 1)" "valid_ymd y mo d" "valid_time h mi s ms"
  shows "overflow_of [Some y, Some mo, Some d, Some h, Some mi, Some s, Some ms] = -1"
proof -
  have "daysInMonth y mo = Some (month_length (InLeapYear y) mo)"
    using assms by (intro daysInMonth_eq) (auto simp: valid_ymd_def)
  with assms(3,4) show ?thesis
    by (auto simp: overflow_of_def valid_ymd_def valid_time_def nlt_def ngt_def)
qed

text \<open>A parse that leaves no input over, and the date of fields that come with neither week nor zone.\<close>

lemma parse_exactly:
  assumes "c_pf c = defaultParsingFlags" "format_tokens (expandFormat fmt (c_locale c)) = ts"
    "c_i c = IString s" "length s = n"
    "fold scan_token ts \<lparr>s_string = s, s_parsed = 0,
       s_config = c\<lparr>c_a := Some [], c_pf := defaultParsingFlags\<lparr>pf_empty := True\<rparr>\<rparr>\<rparr> =
     \<lparr>s_string = '''', s_parsed = n, s_config = c'\<rparr>"
    "pf_charsLeftOver (c_pf c') = 0"
  shows "makeDateFromStringAndFormat e fmt c = checkOverflow (dateFromConfig e (fix_hours c'))"
proof -
  have "c'\<lparr>c_pf := (c_pf c')\<lparr>pf_charsLeftOver := 0\<rparr>\<rparr> = c'" using assms(6) by simp
  with assms(1-5) show ?thesis
    by (simp add: makeDateFromStringAndFormat_def input_str_def Let_def)
qed

lemma dateFromConfig_fields:
  assumes "c_d c = None" "c_w c = None" "c_dayOfYear c = None" "c_tzm c = None"
    "complete_fields (currentDateArray e c) (conf_a c) = a"
    "date_of_array e (c_useUTC c) a = Some t"
  shows "dateFromConfig e c = c\<lparr>c_a := Some a, c_d := Some (Some t)\<rparr>"
  using assms by (simp add: dateFromConfig_def fromDayOfYear_def Let_def)

lemma fix_hours_24: "c_isPm c = None \<Longrightarrow> fix_hours c = c"
  by (simp add: fix_hours_def)

text \<open>Parsing a date that exists, in UTC.\<close>

lemma utc_midnight:
  assumes "valid_ymd y mo d" "year_ok y" "y \<noteq> 0"
  shows "makeUTCDate y mo d 0 0 0 0 = Some (MakeDate (MakeDay y mo d) 0)"
    "TimeClip (MakeDate (MakeDay y mo d) 0) = Some (MakeDate (MakeDay y mo d) 0)"
  using utc.makeClockDate_fields [OF assms(1) _ assms(2), of 0 0 0 0] assms
    utc.clip_wall_Some [of "MakeDate (MakeDay y mo d) 0"] date_fields_MakeDate [OF _ _ assms(1), of 0]
    utc.TimeClip_wall [of "MakeDate (MakeDay y mo d) 0"]
  by (simp_all add: makeUTCDate_def valid_time_def MakeTime_def)

lemma parse_ymd_config:
  assumes ds: "list_all is_digit Y" "list_all is_digit M" "list_all is_digit D"
    "length Y = 4" "length M = 2" "length D = 2"
    and f: "toInt (Some Y) = y" "toInt (Some M) = mo + 1" "toInt (Some D) = d"
    and ok: "valid_ymd y mo d" "year_ok y" "y \<noteq> 0"
    and c: "c_pf c = defaultParsingFlags" "c_i c = IString (Y @ ''-'' @ M @ ''-'' @ D)" "c_isPm c = None"
      "c_d c = None" "c_w c = None" "c_dayOfYear c = None" "c_tzm c = None"
    and t: "date_of_array e (c_useUTC c) [Some y, Some mo, Some d, Some 0, Some 0, Some 0, Some 0] = Some t"
  shows "makeDateFromStringAndFormat e ymd c =
    c\<lparr>c_pf := defaultParsingFlags\<lparr>pf_overflow := -1\<rparr>,
      c_a := Some [Some y, Some mo, Some d, Some 0, Some 0, Some 0, Some 0],
      c_d := Some (Some t)\<rparr>"
proof -
  let ?c = "set_a 2 d (set_a 1 mo (set_a 0 y (c\<lparr>c_a := Some [], c_pf := defaultParsingFlags\<rparr>)))"
  have pf: "defaultParsingFlags\<lparr>pf_empty := False\<rparr> = defaultParsingFlags"
    by (simp add: defaultParsingFlags_def)
  have "makeDateFromStringAndFormat e ymd c = checkOverflow (dateFromConfig e (fix_hours ?c))"
  proof (rule parse_exactly [OF c(1) ymd_tokens c(2), of 10])
    show "fold scan_token [''YYYY'', ''-'', ''MM'', ''-'', ''DD'']
        \<lparr>s_string = Y @ ''-'' @ M @ ''-'' @ D, s_parsed = 0,
         s_config = c\<lparr>c_a := Some [], c_pf := defaultParsingFlags\<lparr>pf_empty := True\<rparr>\<rparr>\<rparr> =
        \<lparr>s_string = '''', s_parsed = 10, s_config = ?c\<rparr>"
      unfolding scan_ymd [OF ds] f by (simp add: pf)
  qed (simp_all add: ds defaultParsingFlags_def)
  moreover have "fix_hours ?c = ?c" by (simp add: fix_hours_24 c)
  moreover have "dateFromConfig e ?c =
      ?c\<lparr>c_a := Some [Some y, Some mo, Some d, Some 0, Some 0, Some 0, Some 0],
         c_d := Some (Some t)\<rparr>"
    by (rule dateFromConfig_fields)
      (simp_all add: c t conf_a_def complete_ymd [simplified])
  moreover have "overflow_of [Some y, Some mo, Some d, Some 0, Some 0, Some 0, Some 0] = -1"
    using ok by (intro overflow_fields) (simp_all add: valid_time_def)
  ultimately show ?thesis
    by (simp add: checkOverflow_def defaultParsingFlags_def set_a_def)
qed

lemma moment_utc_parsed:
  assumes "fmt \<noteq> ''''" "localeData e locale = Some l"
    "makeDateFromStringAndFormat e fmt (now_config e True (IString s) (FString fmt) l strict) =
      (now_config e True (IString s) (FString fmt) l strict)
        \<lparr>c_pf := defaultParsingFlags\<lparr>pf_overflow := -1\<rparr>, c_a := a, c_d := Some (Some t)\<rparr>"
    "TimeClip t = Some t"
  shows "\<exists>m. moment_utc e (IString s) (FString fmt) locale strict = Inr m \<and>
    m_d m = Some t \<and> m_isUTC m \<and> m_offset m = 0 \<and> fst (isValid m)"
  using assms
  by (simp add: moment_utc_def makeMoment_def parse_config_def now_config_def Moment_def
      checkOverflow_def config_date_def to_utc_def set_zone_def isValid_def valid_flags_def
      defaultParsingFlags_def truthy_str_def split: option.splits)

lemma format_ymd:
  assumes "fst (isValid m)"
  shows "format_moment e m ymd = Inr (leftZeroFill (year e m) 4 False @ ''-'' @
    leftZeroFill (nmap (\<lambda>n. n + 1) (month e m)) 2 False @ ''-'' @ leftZeroFill (date e m) 2 False)"
  using assms
  by (simp add: format_moment_def formatMoment_def makeFormatFunction_def ymd_tokens
      formatTokenFunctions_def token_text_def token_number_def paddedTokens_def padToken_def
      ordinalizeTokens_def removeFormattingTokens_def Let_def)

lemma ymd_digits:
  assumes "valid_ymd y mo d" "1 \<le> y" "y \<le> 9999"
  shows "list_all is_digit (leftZeroFill (Some y) 4 False)" "list_all is_digit (leftZeroFill (Some (mo + 1)) 2 False)"
    "list_all is_digit (leftZeroFill (Some d) 2 False)" "length (leftZeroFill (Some y) 4 False) = 4"
    "length (leftZeroFill (Some (mo + 1)) 2 False) = 2" "length (leftZeroFill (Some d) 2 False) = 2"
    "toInt (Some (leftZeroFill (Some y) 4 False)) = y" "toInt (Some (leftZeroFill (Some (mo + 1)) 2 False)) = mo + 1"
    "toInt (Some (leftZeroFill (Some d) 2 False)) = d"
proof -
  have r: "0 \<le> mo" "mo \<le> 11" "1 \<le> d" "d \<le> 31"
    using assms(1) by (auto simp: valid_ymd_def month_length_def split: if_splits)
  have n: "0 \<le> y" "0 \<le> mo + 1" "0 \<le> d" using assms r by simp_all
  note dig = n [THEN leftZeroFill_digits]
  show "list_all is_digit (leftZeroFill (Some y) 4 False)" "list_all is_digit (leftZeroFill (Some (mo + 1)) 2 False)"
    "list_all is_digit (leftZeroFill (Some d) 2 False)" by (rule dig)+
  show "length (leftZeroFill (Some y) 4 False) = 4"
    "length (leftZeroFill (Some (mo + 1)) 2 False) = 2" "length (leftZeroFill (Some d) 2 False) = 2"
    using leftZeroFill_length [OF n(1), of 4] leftZeroFill_length [OF n(2), of 2]
      leftZeroFill_length [OF n(3), of 2] assms r by simp_all
  show "toInt (Some (leftZeroFill (Some y) 4 False)) = y" "toInt (Some (leftZeroFill (Some (mo + 1)) 2 False)) = mo + 1"
    "toInt (Some (leftZeroFill (Some d) 2 False)) = d"
    using n by (simp_all add: toInt_digits dig leftZeroFill_val)
qed

text \<open>
  C8. Printing a valid moment in UTC as \<open>YYYY-MM-DD\<close> and parsing the result with that format, strict or
  not, gives a valid moment at the start of that day, for all years from 1 to 9999.
\<close>

theorem date_roundtrip:
  assumes "m_isUTC m" "m_d m = Some t" "fst (isValid m)" "1 \<le> year_of t" "year_of t \<le> 9999"
  shows "\<exists>s m'. format_moment e m ''YYYY-MM-DD'' = Inr s \<and>
    moment_utc e (IString s) (FString ''YYYY-MM-DD'') KNone strict = Inr m' \<and>
    m_d m' = Some (day_start_w t) \<and> m_isUTC m' \<and> fst (isValid m')"
proof -
  let ?Y = "leftZeroFill (Some (year_of t)) 4 False" and ?M = "leftZeroFill (Some (month_of t + 1)) 2 False"
    and ?D = "leftZeroFill (Some (date_of t)) 2 False"
  have v: "valid_ymd (year_of t) (month_of t) (date_of t)" by simp
  have y: "year_ok (year_of t)" using assms by (simp add: year_ok_def)
  note dig = ymd_digits [OF v assms(4,5)]
  have "format_moment e m ymd = Inr (?Y @ ''-'' @ ?M @ ''-'' @ ?D)"
    using assms by (simp add: format_ymd rawGetter_def clock_of_def date_get_def)
  moreover have "\<exists>m'. moment_utc e (IString (?Y @ ''-'' @ ?M @ ''-'' @ ?D)) (FString ymd) KNone strict = Inr m' \<and>
      m_d m' = Some (MakeDate (MakeDay (year_of t) (month_of t) (date_of t)) 0) \<and>
      m_isUTC m' \<and> m_offset m' = 0 \<and> fst (isValid m')"
  proof (rule moment_utc_parsed [OF _ _ parse_ymd_config [OF dig v y] utc_midnight(2) [OF v y]])
    show "localeData e KNone = Some (e_locale e)" by (simp add: localeData_def)
  qed (use assms in \<open>simp_all add: now_config_def date_of_array_def nan_or_0_def utc_midnight v y\<close>)
  moreover have "MakeDate (MakeDay (year_of t) (month_of t) (date_of t)) 0 = day_start_w t"
    by (simp add: day_start_w_def get_field.simps cal_simps)
  ultimately show ?thesis by auto
qed

text \<open>The last instant of 2014-08-31.\<close>

theorem date_roundtrip_witness:
  "\<exists>s m'. format_moment host (sample True 1409529599999) ''YYYY-MM-DD'' = Inr s \<and>
    moment_utc host (IString s) (FString ''YYYY-MM-DD'') KNone True = Inr m' \<and>
    m_d m' = Some 1409443200000 \<and> m_isUTC m' \<and> fst (isValid m')"
proof -
  have "day_start_w 1409529599999 = 1409443200000" by code_simp
  moreover have "fst (isValid (sample True 1409529599999))" by code_simp
  moreover have "year_of 1409529599999 = 2014" by code_simp
  ultimately show ?thesis
    using date_roundtrip [of "sample True 1409529599999" 1409529599999 host True] by simp
qed

section \<open>Zone offsets\<close>

lemma digit_not: "is_digit d \<Longrightarrow> d \<notin> {CHR ''+'', CHR ''-'', CHR '':'', CHR ''Z'', CHR ''z''}"
    "\<not> is_digit (CHR '':'')" "\<not> is_digit (CHR ''+'')" "\<not> is_digit (CHR ''-'')"
  by (auto simp: is_digit_def)

lemma digit_lower: "is_digit d \<Longrightarrow> ascii_lower d = d" "ascii_lower (CHR ''Z'') = CHR ''z''"
    "ascii_lower (CHR ''+'') = CHR ''+''" "ascii_lower (CHR ''-'') = CHR ''-''" "ascii_lower (CHR '':'') = CHR '':''"
proof -
  have "list_all (\<lambda>d. ascii_lower d = d) ''0123456789''" by code_simp
  then show "is_digit d \<Longrightarrow> ascii_lower d = d" unfolding is_digit_def list_all_iff by blast
qed code_simp+

lemma zone_pattern:
  assumes "is_digit a" "is_digit b" "is_digit c" "is_digit d" "sg \<in> {CHR ''+'', CHR ''-''}" "sep \<in> {'''', '':''}"
  shows "rx_match_all parseTokenTimezone ([sg, a, b] @ sep @ [c, d]) = [[sg, a, b] @ sep @ [c, d]]"
proof -
  note ne = assms(1-4) [THEN digit_not(1)] digit_not(2)
  have "rx_match parseTokenTimezone ([sg, a, b] @ sep @ [c, d]) [] = [([], [])]"
    using assms ne
    by (auto simp: parseTokenTimezone_def r_sign_def r_set_def r_digits_def r_times_def eval_nat_numeral
        r_digit_def r_char_def r_char_i_def digit_lower)
  then have "rx_exec parseTokenTimezone ([sg, a, b] @ sep @ [c, d]) =
      Some \<lparr>r_before = [], r_text = [sg, a, b] @ sep @ [c, d], r_rest = [], r_caps = []\<rparr>"
    using rx_exec_first [of parseTokenTimezone "[sg, a, b] @ sep @ [c, d]" "[]"] by simp
  moreover have "rx_exec parseTokenTimezone [] = None"
    by code_simp
  ultimately show ?thesis
    by (subst rx_match_all.simps) (simp add: rx_match_all.simps [of _ "[]"])
qed

lemma match_all_here:
  assumes "rx_match r (u @ rest) [] = (rest, k) # others" "u \<noteq> []"
  shows "rx_match_all r (u @ rest) = u # rx_match_all r rest"
  using rx_exec_first [OF assms(1)] assms(2) by (subst rx_match_all.simps) simp

lemma match_all_skip:
  assumes "rx_match r (c # u @ rest) [] = []" "rx_match r (u @ rest) [] = (rest, k) # others" "u \<noteq> []"
  shows "rx_match_all r (c # u @ rest) = u # rx_match_all r rest"
proof -
  have "rx_exec_here r (c # u @ rest) = None" using assms(1) by (simp add: rx_exec_here_def)
  then show ?thesis using rx_exec_first [OF assms(2)] by (subst rx_match_all.simps) simp
qed

lemmas chunker_defs = parseTimezoneChunker_def r_sign_def r_set_def r_digits_def r_times_def
  r_digit_def eval_nat_numeral

lemma chunker_step:
  "sg \<in> {CHR ''+'', CHR ''-''} \<Longrightarrow> rx_match_all parseTimezoneChunker (sg # s) = [sg] # rx_match_all parseTimezoneChunker s"
  "is_digit a \<Longrightarrow> is_digit b \<Longrightarrow> rx_match_all parseTimezoneChunker (a # b # s) = [a, b] # rx_match_all parseTimezoneChunker s"
  "is_digit a \<Longrightarrow> is_digit b \<Longrightarrow> rx_match_all parseTimezoneChunker (CHR '':'' # a # b # s) = [a, b] # rx_match_all parseTimezoneChunker s"
  "rx_match_all parseTimezoneChunker [] = []"
proof -
  show "rx_match_all parseTimezoneChunker (sg # s) = [sg] # rx_match_all parseTimezoneChunker s"
    if "sg \<in> {CHR ''+'', CHR ''-''}"
    using that match_all_here [of parseTimezoneChunker "[sg]" s] digit_not
    by (auto simp: chunker_defs split: list.splits)
  show "rx_match_all parseTimezoneChunker (a # b # s) = [a, b] # rx_match_all parseTimezoneChunker s"
    if "is_digit a" "is_digit b"
    using match_all_here [of parseTimezoneChunker "[a, b]" s] that digit_not(1) [OF that(1)]
    by (simp add: chunker_defs)
  show "rx_match_all parseTimezoneChunker (CHR '':'' # a # b # s) = [a, b] # rx_match_all parseTimezoneChunker s"
    if "is_digit a" "is_digit b"
    using match_all_skip [of parseTimezoneChunker "CHR '':''" "[a, b]" s] that digit_not(1) [OF that(1)] digit_not(2)
    by (simp add: chunker_defs)
  show "rx_match_all parseTimezoneChunker [] = []" by code_simp
qed

lemma timezoneMinutes_digits:
  assumes "is_digit a" "is_digit b" "is_digit c" "is_digit d" "sg \<in> {CHR ''+'', CHR ''-''}" "sep \<in> {'''', '':''}"
  shows "timezoneMinutesFromString ([sg, a, b] @ sep @ [c, d]) =
    (let n = toInt (Some [a, b]) * 60 + toInt (Some [c, d]) in if sg = CHR ''+'' then - n else n)"
proof -
  have "rx_match_all parseTimezoneChunker ([sg, a, b] @ sep @ [c, d]) = [[sg], [a, b], [c, d]]"
    using assms by (auto simp: chunker_step)
  then show ?thesis
    unfolding timezoneMinutesFromString_def zone_pattern [OF assms] by (simp add: Let_def)
qed

lemma two_digits:
  "0 \<le> n \<Longrightarrow> n < 100 \<Longrightarrow> \<exists>a b. leftZeroFill (Some n) 2 False = [a, b] \<and> is_digit a \<and> is_digit b \<and> toInt (Some [a, b]) = n"
proof -
  assume n: "0 \<le> n" "n < 100"
  let ?s = "leftZeroFill (Some n) 2 False"
  have "length ?s = 2" using n leftZeroFill_length [OF n(1), of 2] by simp
  then obtain a b where s: "?s = [a, b]" by (auto simp: length_Suc_conv numeral_2_eq_2)
  with leftZeroFill_digits [OF n(1), of 2] leftZeroFill_val [OF n(1), of 2] n toInt_digits [of ?s]
  show ?thesis by auto
qed

text \<open>
  An offset of less than a hundred hours that is printed with the token \<open>Z\<close> or \<open>ZZ\<close> is read back as
  the same number of minutes, sign included.
\<close>

theorem zone_roundtrip:
  assumes "zone e m = Some z" "\<bar>z\<bar> < 6000" "sep = '''' \<or> sep = '':''"
  shows "timezoneMinutesFromString (zone_text e m sep) = z"
proof -
  define a where "a = \<bar>z\<bar>"
  have r: "0 \<le> a div 60" "a div 60 < 100" "0 \<le> a mod 60" "a mod 60 < 100" "a = a div 60 * 60 + a mod 60"
    using assms(2) by (auto simp: a_def)
  obtain p q where pq: "leftZeroFill (Some (a div 60)) 2 False = [p, q]" "is_digit p" "is_digit q"
      "toInt (Some [p, q]) = a div 60"
    using two_digits [OF r(1,2)] by blast
  obtain u v where uv: "leftZeroFill (Some (a mod 60)) 2 False = [u, v]" "is_digit u" "is_digit v"
      "toInt (Some [u, v]) = a mod 60"
    using two_digits [OF r(3,4)] by blast
  let ?sg = "if z > 0 then CHR ''-'' else CHR ''+''"
  have "zone_text e m sep = [?sg, p, q] @ sep @ [u, v]"
    using assms(1) pq(1) uv(1)
    by (auto simp: zone_text_def a_def nlt_def js_div_pos js_mod_pos split: if_splits)
  then show ?thesis
    using timezoneMinutes_digits [OF pq(2,3) uv(2,3), of ?sg sep] assms(3) pq(4) uv(4) r(5)
    by (auto simp: a_def Let_def split: if_splits)
qed

theorem zone_roundtrip_witness:
  "timezoneMinutesFromString (zone_text host (sample False 1409529599999) '':'') = -60"
  by (rule zone_roundtrip) code_simp+

section \<open>Fields that are missing\<close>

lemma elem_set_elem [simp]: "elem (set_elem a i v) j = (if j = i then Some v else elem a j)"
  by (auto simp: set_elem_def nth_append)

declare elem.simps [simp del]

lemma length_set_elem [simp]: "length (set_elem a i v) = max (length a) (Suc i)"
  by (simp add: set_elem_def)

lemma fill_rest_elem:
  "elem (fill_rest i n a) j =
     (if i \<le> j \<and> j < i + n \<and> elem a j = None then Some (if j = 2 then 1 else 0) else elem a j)"
  by (induction n arbitrary: i a) (auto split: option.splits)

lemma fill_rest_length: "length a \<le> i + n \<Longrightarrow> i \<le> length a \<Longrightarrow> length (fill_rest i n a) = i + n"
  by (induction n arbitrary: i a) auto

lemma default_front_3:
  "default_front 0 3 cur a =
     (if elem a 0 \<noteq> None then (0, a)
      else let a' = set_elem a 0 (nan_or_0 (elem cur 0)) in
        if elem a 1 \<noteq> None then (1, a')
        else let a'' = set_elem a' 1 (nan_or_0 (elem cur 1)) in
          if elem a 2 \<noteq> None then (2, a'') else (3, set_elem a'' 2 (nan_or_0 (elem cur 2))))"
  by (simp add: numeral_3_eq_3 numeral_2_eq_2 Let_def)

lemma all_le_two: "(\<forall>j \<le> Suc 0. P j) \<longleftrightarrow> P 0 \<and> P (Suc 0)"
    "(\<forall>j \<le> (2 :: nat). P j) \<longleftrightarrow> P 0 \<and> P (Suc 0) \<and> P 2"
proof -
  have "j \<le> Suc 0 \<longleftrightarrow> j = 0 \<or> j = Suc 0" "j \<le> 2 \<longleftrightarrow> j = 0 \<or> j = Suc 0 \<or> j = 2" for j by auto
  then show "(\<forall>j \<le> Suc 0. P j) \<longleftrightarrow> P 0 \<and> P (Suc 0)"
    "(\<forall>j \<le> (2 :: nat). P j) \<longleftrightarrow> P 0 \<and> P (Suc 0) \<and> P 2" by simp_all blast+
qed

lemma elem_complete:
  "j < 7 \<Longrightarrow> elem (complete_fields cur a) j =
     (if elem a j \<noteq> None then elem a j
      else if j = 0 \<or> (j = 1 \<and> elem a 0 = None) \<or> (j = 2 \<and> elem a 0 = None \<and> elem a 1 = None)
      then Some (nan_or_0 (elem cur j))
      else Some (if j = 2 then 1 else 0))"
  unfolding complete_fields_def default_front_3 Let_def
  by (cases "elem a 0 = None"; cases "elem a 1 = None"; cases "elem a 2 = None") (auto simp: fill_rest_elem)

text \<open>
  The fields that a parse leaves open are completed as documented: year, month and day come from the
  current date as long as nothing before them was given, every other missing field gets its least value,
  and what was given is kept.
\<close>

theorem complete_fields_spec:
  assumes "length a \<le> 7"
  shows "length (complete_fields cur a) = 7 \<and> (\<forall>i < 7. elem (complete_fields cur a) i = Some (
    case elem a i of
      Some v \<Rightarrow> v
    | None \<Rightarrow> if i < 3 \<and> (\<forall>j \<le> i. elem a j = None) then nan_or_0 (elem cur i)
              else if i = 2 then 1 else 0))"
proof (intro conjI allI impI)
  show "length (complete_fields cur a) = 7"
    using assms by (auto simp: complete_fields_def default_front_3 fill_rest_length Let_def)
next
  fix i :: nat
  assume "i < 7"
  then have "i = 0 \<or> i = 1 \<or> i = 2 \<or> 3 \<le> i" by linarith
  then show "elem (complete_fields cur a) i = Some (
    case elem a i of
      Some v \<Rightarrow> v
    | None \<Rightarrow> if i < 3 \<and> (\<forall>j \<le> i. elem a j = None) then nan_or_0 (elem cur i)
              else if i = 2 then 1 else 0)"
    unfolding elem_complete [OF \<open>i < 7\<close>] by (elim disjE) (auto simp: all_le_two split: option.split)
qed

text \<open>\<open>moment('14:30', 'HH:mm')\<close>: the current date, and zero seconds.\<close>

theorem complete_fields_spec_witness:
  "length (complete_fields [Some 2014, Some 7, Some 31] [None, None, None, Some 14, Some 30]) = 7 \<and>
   elem (complete_fields [Some 2014, Some 7, Some 31] [None, None, None, Some 14, Some 30]) 2 = Some 31 \<and>
   elem (complete_fields [Some 2014, Some 7, Some 31] [None, None, None, Some 14, Some 30]) 5 = Some 0"
  using complete_fields_spec [of "[None, None, None, Some 14, Some 30]" "[Some 2014, Some 7, Some 31]"]
  by (auto simp: elem.simps all_le_two nan_or_0_def)

section \<open>Lists of formats\<close>

definition scored :: "config \<Rightarrow> config" where
  "scored c = c\<lparr>c_pf := (c_pf c)\<lparr>pf_score := Some (format_score c)\<rparr>\<rparr>"

lemma best_format_keeps:
  assumes "\<forall>f \<in> set fs. fst (try_format e c f) \<longrightarrow> n \<le> format_score (snd (try_format e c f))"
  shows "best_format e c fs (Some (n, b)) temp = b"
  using assms by (induction fs arbitrary: temp) (auto simp: split_beta Let_def)

lemma best_format_improves:
  assumes "fst (try_format e c g)" "format_score (snd (try_format e c g)) < n"
    "\<forall>f \<in> set pre. fst (try_format e c f) \<longrightarrow>
       format_score (snd (try_format e c g)) < format_score (snd (try_format e c f))"
    "\<forall>f \<in> set post. fst (try_format e c f) \<longrightarrow>
       format_score (snd (try_format e c g)) \<le> format_score (snd (try_format e c f))"
  shows "best_format e c (pre @ g # post) (Some (n, b)) temp = scored (snd (try_format e c g))"
  using assms
proof (induction pre arbitrary: n b temp)
  case Nil
  then show ?case by (simp add: split_beta Let_def best_format_keeps scored_def)
next
  case (Cons f pre)
  then show ?case by (auto simp: split_beta Let_def)
qed

lemma best_format_first:
  assumes "fst (try_format e c g)"
    "\<forall>f \<in> set pre. fst (try_format e c f) \<longrightarrow>
       format_score (snd (try_format e c g)) < format_score (snd (try_format e c f))"
    "\<forall>f \<in> set post. fst (try_format e c f) \<longrightarrow>
       format_score (snd (try_format e c g)) \<le> format_score (snd (try_format e c f))"
  shows "best_format e c (pre @ g # post) None temp = scored (snd (try_format e c g))"
  using assms
proof (induction pre arbitrary: temp)
  case Nil
  then show ?case by (simp add: split_beta Let_def best_format_keeps scored_def)
next
  case (Cons f pre)
  then show ?case by (auto simp: split_beta Let_def best_format_improves)
qed

text \<open>The first of the elements with the least score.\<close>

lemma first_least:
  fixes score :: "'a \<Rightarrow> int"
  assumes "\<exists>x \<in> set xs. ok x"
  shows "\<exists>pre g post. xs = pre @ g # post \<and> ok g \<and>
    (\<forall>f \<in> set pre. ok f \<longrightarrow> score g < score f) \<and> (\<forall>f \<in> set post. ok f \<longrightarrow> score g \<le> score f)"
  using assms
proof (induction xs)
  case (Cons x xs)
  show ?case
  proof (cases "ok x \<and> (\<forall>f \<in> set xs. ok f \<longrightarrow> score x \<le> score f)")
    case True
    then show ?thesis by (intro exI [of _ "[]"] exI [of _ x] exI [of _ xs]) simp
  next
    case False
    with Cons.prems have "\<exists>x \<in> set xs. ok x" by auto
    then obtain pre g post where g: "xs = pre @ g # post" "ok g"
      "\<forall>f \<in> set pre. ok f \<longrightarrow> score g < score f" "\<forall>f \<in> set post. ok f \<longrightarrow> score g \<le> score f"
      using Cons.IH by blast
    with False have "ok x \<longrightarrow> score g < score x" by fastforce
    with g show ?thesis by (intro exI [of _ "x # pre"] exI [of _ g] exI [of _ post]) simp
  qed
qed simp

text \<open>
  Of a list of formats the parse takes a candidate that is valid when there is one: the first of those
  with the least score, where left over characters count one and unused tokens ten points.
\<close>

theorem formats_best_score:
  assumes "\<exists>f \<in> set fs. fst (try_format e c f)"
  shows "\<exists>pre g post. fs = pre @ g # post \<and> fst (try_format e c g) \<and>
    (let best = scored (snd (try_format e c g)) in
       makeDateFromStringAndArray e fs c = best\<lparr>c_useUTC := c_useUTC c \<or> c_useUTC best\<rparr>) \<and>
    (\<forall>f \<in> set pre. fst (try_format e c f) \<longrightarrow>
       format_score (snd (try_format e c g)) < format_score (snd (try_format e c f))) \<and>
    (\<forall>f \<in> set post. fst (try_format e c f) \<longrightarrow>
       format_score (snd (try_format e c g)) \<le> format_score (snd (try_format e c f)))"
  using first_least [OF assms, of "\<lambda>f. format_score (snd (try_format e c f))"]
  by (fastforce simp: makeDateFromStringAndArray_def best_format_first Let_def)

lemma parse_ymd_candidate:
  assumes "c_i c = IString (leftZeroFill (Some y) 4 False @ ''-'' @ leftZeroFill (Some (mo + 1)) 2 False @ ''-'' @
      leftZeroFill (Some d) 2 False)"
    "valid_ymd y mo d" "1 \<le> y" "y \<le> 9999" "c_tzm c = None" "makeDate e y mo d 0 0 0 0 = Some t"
  shows "try_format e c ymd = (True, (now_config e False (c_i c) (FString ymd) (c_locale c) (c_strict c))
    \<lparr>c_isUTC := c_isUTC c, c_pf := defaultParsingFlags\<lparr>pf_overflow := -1\<rparr>,
     c_a := Some (map Some [y, mo, d, 0, 0, 0, 0]), c_d := Some (Some t), c_isValid := Some True\<rparr>)"
proof -
  let ?c = "(now_config e False (c_i c) (FString ymd) (c_locale c) (c_strict c))\<lparr>c_isUTC := c_isUTC c, c_tzm := c_tzm c\<rparr>"
  have "makeDateFromStringAndFormat e ymd ?c = ?c\<lparr>c_pf := defaultParsingFlags\<lparr>pf_overflow := -1\<rparr>,
      c_a := Some [Some y, Some mo, Some d, Some 0, Some 0, Some 0, Some 0], c_d := Some (Some t)\<rparr>"
    using assms
    by (intro parse_ymd_config [OF ymd_digits [OF assms(2-4)]])
      (simp_all add: now_config_def year_ok_def date_of_array_def nan_or_0_def
        elem.simps)
  then show ?thesis
    using assms(5) by (simp add: try_format_def isValid_config_def now_config_def config_date_def valid_flags_def
        defaultParsingFlags_def truthy_str_def Let_def)
qed

text \<open>The format that fits is taken, not the one that leaves month and day over.\<close>

definition day_config :: config where
  "day_config = now_config host False (IString ''2014-08-31'') (FArray [''YYYY-MM-DD'', ''YYYY'']) en False"

theorem formats_best_score_witness:
  "c_a (makeDateFromStringAndArray host [''YYYY-MM-DD'', ''YYYY''] day_config) =
     Some (map Some [2014, 7, 31, 0, 0, 0, 0])"
proof -
  have "leftZeroFill (Some 2014) 4 False @ ''-'' @ leftZeroFill (Some (7 + 1)) 2 False @ ''-'' @
      leftZeroFill (Some 31) 2 False = ''2014-08-31''"
    "valid_ymd 2014 7 31" "makeDate host 2014 7 31 0 0 0 0 = Some 1409439600000"
    by code_simp+
  with parse_ymd_candidate [of day_config 2014 7 31 host 1409439600000]
  have v: "fst (try_format host day_config ymd)" "format_score (snd (try_format host day_config ymd)) = 0"
      "c_a (snd (try_format host day_config ymd)) = Some (map Some [2014, 7, 31, 0, 0, 0, 0])"
    by (simp_all add: day_config_def now_config_def format_score_def defaultParsingFlags_def)
  have y: "format_score (snd (try_format host day_config ''YYYY'')) = 6" by code_simp
  have "\<exists>f \<in> set [ymd, ''YYYY'']. fst (try_format host day_config f)" using v by auto
  from formats_best_score [OF this] obtain pre g post where
      g: "[ymd, ''YYYY''] = pre @ g # post"
      "let best = scored (snd (try_format host day_config g)) in
       makeDateFromStringAndArray host [ymd, ''YYYY''] day_config =
         best\<lparr>c_useUTC := c_useUTC day_config \<or> c_useUTC best\<rparr>"
      "\<forall>f \<in> set pre. fst (try_format host day_config f) \<longrightarrow>
         format_score (snd (try_format host day_config g)) < format_score (snd (try_format host day_config f))"
    by blast
  from g(1,3) v y have "g = ymd" by (cases pre) (auto simp: Cons_eq_append_conv)
  with g(2) v(3) show ?thesis by (simp add: scored_def Let_def)
qed

text \<open>
  With a list of formats \<open>moment.utc\<close> builds the date in local time: a copy of the configuration is
  parsed, which has lost \<open>_useUTC\<close>. The result is flagged as UTC and has the instant at which the day
  starts on the host, which is not the instant at which it starts in UTC.
\<close>

theorem utc_format_list_local:
  assumes "valid_ymd y mo d" "1 \<le> y" "y \<le> 9999" "makeDate e y mo d 0 0 0 0 = Some t" "TimeClip t = Some t"
  shows "\<exists>m. moment_utc e
      (IString (leftZeroFill (Some y) 4 False @ ''-'' @ leftZeroFill (Some (mo + 1)) 2 False @ ''-'' @
        leftZeroFill (Some d) 2 False))
      (FArray [''YYYY-MM-DD'']) KNone strict = Inr m \<and> m_isUTC m \<and> m_d m = Some t"
  using assms parse_ymd_candidate [OF _ assms(1-3) _ assms(4)]
  by (simp add: moment_utc_def makeMoment_def localeData_def parse_config_def makeDateFromStringAndArray_def
      now_config_def Moment_def checkOverflow_def config_date_def to_utc_def set_zone_def Let_def)

text \<open>On a host one hour ahead of UTC, 2014-08-31 starts an hour before it does in UTC.\<close>

theorem utc_format_list_local_witness:
  "\<exists>m. moment_utc host (IString ''2014-08-31'') (FArray [''YYYY-MM-DD'']) KNone False = Inr m \<and>
     m_isUTC m \<and> m_d m = Some 1409439600000 \<and> makeUTCDate 2014 7 31 0 0 0 0 = Some 1409443200000"
proof -
  have v: "valid_ymd 2014 7 31" "makeDate host 2014 7 31 0 0 0 0 = Some 1409439600000"
    "TimeClip 1409439600000 = Some 1409439600000" "makeUTCDate 2014 7 31 0 0 0 0 = Some 1409443200000"
    by code_simp+
  have "leftZeroFill (Some 2014) 4 False @ ''-'' @ leftZeroFill (Some (7 + 1)) 2 False @ ''-'' @
      leftZeroFill (Some 31) 2 False = ''2014-08-31''"
    by code_simp
  with utc_format_list_local [OF v(1) _ _ v(2,3), of False] v(4) show ?thesis by auto
qed

text \<open>
  A moment that was constructed keeps no array of its fields, so \<open>isDSTShifted\<close> answers no for each of
  them, whatever the input and the zone.
\<close>

theorem never_DST_shifted:
  assumes "moment_new e input fmt locale strict = Inr m \<or> moment_utc e input fmt locale strict = Inr m"
  shows "\<not> isDSTShifted e m"
proof -
  have "m_a (Moment c) = None" "m_offset (Moment c) = 0" for c
    by (simp_all add: Moment_def Let_def)
  then have utc: "m_a (to_utc e False (Moment c)) = None" "m_offset (to_utc e False (Moment c)) = 0" for c
    by (simp_all add: to_utc_def set_zone_def Let_def)
  have new: "m_a m = None \<and> m_offset m = 0" if "makeMoment e u input fmt locale strict = Inr m" for u m
    using that \<open>\<And>c. m_a (Moment c) = None\<close> \<open>\<And>c. m_offset (Moment c) = 0\<close> utc
    by (auto simp: makeMoment_def moment_invalid_def invalid_number_def Let_def split: if_splits option.splits)
  have "m_a m = None"
    using assms new
    by (auto simp: moment_new_def moment_utc_def to_utc_def set_zone_def Let_def split: sum.splits)
  then show ?thesis by (simp add: isDSTShifted_def)
qed

theorem never_DST_shifted_witness:
  "\<not> isDSTShifted host (Moment (parse_config host
     (now_config host False (IArray [Some 2014, Some 2, Some 30]) FUndefined (e_locale host) False)))"
proof (rule never_DST_shifted)
  have "localeData host KNone = Some (e_locale host)" by (simp add: localeData_def)
  then show "moment_new host (IArray [Some 2014, Some 2, Some 30]) FUndefined KNone False =
      Inr (Moment (parse_config host
        (now_config host False (IArray [Some 2014, Some 2, Some 30]) FUndefined (e_locale host) False))) \<or>
    moment_utc host (IArray [Some 2014, Some 2, Some 30]) FUndefined KNone False =
      Inr (Moment (parse_config host
        (now_config host False (IArray [Some 2014, Some 2, Some 30]) FUndefined (e_locale host) False)))"
    by (simp add: moment_new_def makeMoment_def)
qed

end
