(* ===== verification/Picker_State.thy ===== *)
theory Picker_State
  imports Moment_Parse
begin

text \<open>
  \<open>bootstrap-datetimepicker-3.1.1.js\<close>: the options and the state of a picker, and the functions that
  compute what the widget shows.

  The fields of the JavaScript object are the fields of the record \<open>picker\<close>. Of the page it keeps
  what the code reads and writes: the value of the input, the texts and classes of the cells, which
  parts are visible, the handlers that are bound, and the events that were triggered. The state of
  the moment module (its current locale) is the field \<open>p_env\<close>.
\<close>

section \<open>Data\<close>

text \<open>A date as the caller gives it; \<open>PvNull\<close> stands for \<open>null\<close>.\<close>

datatype pvalue = PvNull | PvString string | PvMoment moment | PvDate num

datatype mode_option = ModeNumber nat | ModeName string

record icons =
  i_time :: string
  i_date :: string
  i_up :: string
  i_down :: string

record options =
  o_format :: string
  o_pickDate :: bool
  o_pickTime :: bool
  o_useMinutes :: bool
  o_useSeconds :: bool
  o_useCurrent :: bool
  o_calendarWeeks :: bool
  o_minuteStepping :: int
  o_minDate :: pvalue
  o_maxDate :: pvalue
  o_showToday :: bool
  o_collapse :: bool
  o_language :: string
  o_defaultDate :: pvalue
  o_disabledDates :: "pvalue list"
  o_enabledDates :: "pvalue list"
  o_icons :: icons
  o_useStrict :: bool
  o_direction :: string
  o_sideBySide :: bool
  o_daysOfWeekDisabled :: "int list"
  o_minViewMode :: mode_option
  o_viewMode :: mode_option

text \<open>The data attributes of the input element that override options.\<close>

record edata =
  ed_dateFormat :: "string option"
  ed_datePickdate :: "bool option"
  ed_datePicktime :: "bool option"
  ed_dateUseminutes :: "bool option"
  ed_dateUseseconds :: "bool option"
  ed_dateUsecurrent :: "bool option"
  ed_calendarWeeks :: "bool option"
  ed_dateMinutestepping :: "int option"
  ed_dateMindate :: "pvalue option"
  ed_dateMaxdate :: "pvalue option"
  ed_dateShowtoday :: "bool option"
  ed_dateCollapse :: "bool option"
  ed_dateLanguage :: "string option"
  ed_dateDefaultdate :: "pvalue option"
  ed_dateDisableddates :: "pvalue list option"
  ed_dateEnableddates :: "pvalue list option"
  ed_dateIcons :: "icons option"
  ed_dateUsestrict :: "bool option"
  ed_dateDirection :: "string option"
  ed_dateSidebyside :: "bool option"
  ed_dateDaysofweekdisabled :: "int list option"

text \<open>A cell of the days view, a row of it, and the three views.\<close>

record day_cell =
  dc_old :: bool
  dc_new :: bool
  dc_active :: bool
  dc_disabled :: bool
  dc_today :: bool
  dc_text :: num

record cal_row =
  cr_week :: "num option"
  cr_cells :: "day_cell list"

record month_cell =
  mc_active :: bool
  mc_disabled :: bool

record year_cell =
  yc_old :: bool
  yc_active :: bool
  yc_disabled :: bool
  yc_text :: num

record date_view =
  v_dayTitle :: string
  v_dayPrevDisabled :: bool
  v_dayNextDisabled :: bool
  v_rows :: "cal_row list"
  v_monthTitle :: num
  v_monthPrevDisabled :: bool
  v_monthNextDisabled :: bool
  v_months :: "month_cell list"
  v_yearTitle :: string
  v_yearPrevDisabled :: bool
  v_yearNextDisabled :: bool
  v_years :: "year_cell list"

record time_view =
  t_hours :: string
  t_minutes :: string
  t_seconds :: string
  t_period :: string

datatype time_pane = PanePicker | PaneHours | PaneMinutes | PaneSeconds

datatype event =
    DpChange moment moment
  | DpError moment
  | DpShow moment
  | DpHide moment
  | NativeChange

text \<open>A handler that is bound: the element, the event and the function.\<close>

type_synonym handler = "string \<times> string \<times> string"

record picker =
  p_env :: env
  p_options :: options
  p_minDate :: moment
  p_maxDate :: moment
  p_disabledDates :: "string list option"
  p_enabledDates :: "string list option"
  p_format :: string
  p_use24hours :: bool
  p_date :: moment
  p_viewDate :: "moment option"
  p_unset :: bool
  p_errored :: bool
  p_minViewMode :: nat
  p_viewMode :: nat
  p_startViewMode :: nat
  p_isInput :: bool
  p_component :: bool
  p_input :: string
  p_data :: string
  p_disabled :: bool
  p_open :: bool
  p_transitioning :: bool
  p_shown :: string
  p_pane :: time_pane
  p_dow :: "string list"
  p_monthNames :: "string list"
  p_hourRows :: "string list list"
  p_minuteRows :: "string option list list"
  p_secondRows :: "string list list"
  p_dateView :: date_view
  p_timeView :: time_view
  p_handlers :: "handler list"
  p_globalHandlers :: "handler list"
  p_events :: "event list"

section \<open>Uses of the moment module\<close>

text \<open>\<open>moment(i, f, strict)\<close> in the current locale, which is always there.\<close>

definition parse_moment :: "env \<Rightarrow> input \<Rightarrow> format \<Rightarrow> bool \<Rightarrow> moment" where
  "parse_moment e i f strict =
     (case moment_new e i f KNone strict of Inr m \<Rightarrow> m | Inl _ \<Rightarrow> moment_invalid e False)"

text \<open>
  \<open>moment(\{y: \<dots>, M: \<dots>\})\<close> of fields that were read from moments; a field that is \<open>NaN\<close> makes an
  invalid date.
\<close>

definition object_moment :: "env \<Rightarrow> (string \<times> num) list \<Rightarrow> moment" where
  "object_moment e obj =
     (let m = parse_moment e (IObject (map (\<lambda>(k, v). (k, nan_or_0 v)) obj)) FUndefined False
      in if list_ex (\<lambda>(k, v). v = None) obj then m\<lparr>m_d := None\<rparr> else m)"

text \<open>\<open>m.format(f)\<close>; a format with no character at all would throw.\<close>

definition moment_text :: "env \<Rightarrow> moment \<Rightarrow> string \<Rightarrow> string" where
  "moment_text e m f = (case format_moment e m f of Inr s \<Rightarrow> s | Inl _ \<Rightarrow> '''')"

definition date_key :: "env \<Rightarrow> moment \<Rightarrow> string" where
  "date_key e m = moment_text e m ''YYYY-MM-DD''"

text \<open>\<open>moment.locale(picker.options.language)\<close>\<close>

definition use_language :: "picker \<Rightarrow> picker" where
  "use_language p = p\<lparr>p_env := snd (moment_locale (p_env p) (KString (o_language (p_options p))) None)\<rparr>"

section \<open>Options\<close>

definition default_icons :: icons where
  "default_icons = \<lparr>i_time = ''glyphicon glyphicon-time'', i_date = ''glyphicon glyphicon-calendar'',
     i_up = ''glyphicon glyphicon-chevron-up'', i_down = ''glyphicon glyphicon-chevron-down''\<rparr>"

definition defaults :: "env \<Rightarrow> options" where
  "defaults e =
     \<lparr>o_format = '''', o_pickDate = True, o_pickTime = True, o_useMinutes = True, o_useSeconds = False,
      o_useCurrent = True, o_calendarWeeks = False, o_minuteStepping = 1,
      o_minDate = PvMoment (object_moment e [(''y'', Some 1900)]),
      o_maxDate = PvMoment (add e (moment_now e) 100 ''y''),
      o_showToday = True, o_collapse = True, o_language = l_abbr (e_locale e),
      o_defaultDate = PvString '''', o_disabledDates = [], o_enabledDates = [],
      o_icons = default_icons, o_useStrict = False, o_direction = ''auto'', o_sideBySide = False,
      o_daysOfWeekDisabled = [], o_minViewMode = ModeNumber 0, o_viewMode = ModeNumber 0\<rparr>"

definition dataToOptions :: "edata \<Rightarrow> options \<Rightarrow> options" where
  "dataToOptions d o' =
     o'\<lparr>o_format := dfl2 (ed_dateFormat d) (o_format o'),
        o_pickDate := dfl2 (ed_datePickdate d) (o_pickDate o'),
        o_pickTime := dfl2 (ed_datePicktime d) (o_pickTime o'),
        o_useMinutes := dfl2 (ed_dateUseminutes d) (o_useMinutes o'),
        o_useSeconds := dfl2 (ed_dateUseseconds d) (o_useSeconds o'),
        o_useCurrent := dfl2 (ed_dateUsecurrent d) (o_useCurrent o'),
        o_calendarWeeks := dfl2 (ed_calendarWeeks d) (o_calendarWeeks o'),
        o_minuteStepping := dfl2 (ed_dateMinutestepping d) (o_minuteStepping o'),
        o_minDate := dfl2 (ed_dateMindate d) (o_minDate o'),
        o_maxDate := dfl2 (ed_dateMaxdate d) (o_maxDate o'),
        o_showToday := dfl2 (ed_dateShowtoday d) (o_showToday o'),
        o_collapse := dfl2 (ed_dateCollapse d) (o_collapse o'),
        o_language := dfl2 (ed_dateLanguage d) (o_language o'),
        o_defaultDate := dfl2 (ed_dateDefaultdate d) (o_defaultDate o'),
        o_disabledDates := dfl2 (ed_dateDisableddates d) (o_disabledDates o'),
        o_enabledDates := dfl2 (ed_dateEnableddates d) (o_enabledDates o'),
        o_icons := dfl2 (ed_dateIcons d) (o_icons o'),
        o_useStrict := dfl2 (ed_dateUsestrict d) (o_useStrict o'),
        o_direction := dfl2 (ed_dateDirection d) (o_direction o'),
        o_sideBySide := dfl2 (ed_dateSidebyside d) (o_sideBySide o'),
        o_daysOfWeekDisabled := dfl2 (ed_dateDaysofweekdisabled d) (o_daysOfWeekDisabled o')\<rparr>"

fun mode_of :: "mode_option \<Rightarrow> nat" where
  "mode_of (ModeNumber n) = n"
| "mode_of (ModeName s) = (if s = ''months'' then 1 else if s = ''years'' then 2 else 0)"

text \<open>The format of a picker whose options give none.\<close>

definition default_format :: "locale_data \<Rightarrow> options \<Rightarrow> string" where
  "default_format l o' =
     (let L = (case longDateFormat l ''L'' of Some s \<Rightarrow> s | None \<Rightarrow> ''undefined'');
          LT = (case longDateFormat l ''LT'' of Some s \<Rightarrow> s | None \<Rightarrow> ''undefined'');
          f = (if o_pickDate o' then L else '''');
          f = (if o_pickDate o' \<and> o_pickTime o' then f @ '' '' else f);
          f = f @ (if o_pickTime o' then LT else '''')
      in if o_useSeconds o'
         then (case index_of '' A'' LT of
                 Some _ \<Rightarrow> (case index_of '' A'' f of Some i \<Rightarrow> take i f | None \<Rightarrow> f) @ '':ss A''
               | None \<Rightarrow> f @ '':ss'')
         else f)"

definition uses_24_hours :: "string \<Rightarrow> bool" where
  "uses_24_hours f \<longleftrightarrow> CHR ''a'' \<notin> set (toLowerCase f) \<and> CHR ''h'' \<notin> set f"

section \<open>Enabled and disabled dates\<close>

definition pv_moment :: "picker \<Rightarrow> pvalue \<Rightarrow> moment" where
  "pv_moment p v =
     (case v of
        PvMoment m \<Rightarrow> clone m
      | PvDate d \<Rightarrow> parse_moment (p_env p) (IDate d) FUndefined False
      | PvString s \<Rightarrow> parse_moment (p_env p) (IString s) (FString (p_format p)) (o_useStrict (p_options p))
      | PvNull \<Rightarrow> parse_moment (p_env p) INull (FString (p_format p)) (o_useStrict (p_options p)))"

fun index_loop :: "picker \<Rightarrow> pvalue list \<Rightarrow> string list \<Rightarrow> string list" where
  "index_loop p [] acc = acc"
| "index_loop p (v # vs) acc =
     (let dDate = pv_moment p v
      in index_loop p vs (if fst (isValid dDate) then acc @ [date_key (p_env p) dDate] else acc))"

text \<open>\<open>indexGivenDates\<close>: the keys of the index; \<open>None\<close> is \<open>false\<close>, for no valid date.\<close>

definition indexGivenDates :: "picker \<Rightarrow> pvalue list \<Rightarrow> string list option" where
  "indexGivenDates p givenDatesArray =
     (let keys = index_loop p givenDatesArray [] in if keys = [] then None else Some keys)"

definition isInDisableDates :: "picker \<Rightarrow> moment \<Rightarrow> string option \<Rightarrow> bool" where
  "isInDisableDates p d timeUnit =
     (let e = p_env p;
          maxDate = clone (p_maxDate p);
          minDate = clone (p_minDate p);
          maxDate = (case timeUnit of None \<Rightarrow> maxDate | Some u \<Rightarrow> endOf e u maxDate);
          minDate = (case timeUnit of None \<Rightarrow> minDate | Some u \<Rightarrow> startOf e u minDate)
      in if isAfter e d maxDate ''millisecond'' \<or> isBefore e d minDate ''millisecond'' then True
         else case p_disabledDates p of None \<Rightarrow> False | Some keys \<Rightarrow> date_key e d \<in> set keys)"

definition isInEnableDates :: "picker \<Rightarrow> moment \<Rightarrow> bool" where
  "isInEnableDates p d =
     (case p_enabledDates p of None \<Rightarrow> True | Some keys \<Rightarrow> date_key (p_env p) d \<in> set keys)"

section \<open>What the widget shows\<close>

definition padLeft :: "string \<Rightarrow> string" where
  "padLeft s = (if length s \<ge> 2 then s else ''0'' @ s)"

text \<open>The header of the days view, without the column of week numbers.\<close>

definition fillDow :: "env \<Rightarrow> string list" where
  "fillDow e =
     (let weekdaysMin = makeList e ''weekdaysMin''
      in if l_dow (e_locale e) = 0 then map (\<lambda>i. weekdaysMin ! i) [0..<7]
         else map (\<lambda>i. if i = 7 then weekdaysMin ! 0 else weekdaysMin ! i) [1..<8])"

definition fillMonths :: "env \<Rightarrow> string list" where
  "fillMonths e = map (\<lambda>i. makeList e ''monthsShort'' ! i) [0..<12]"

text \<open>Rows of four cells with consecutive numbers from \<open>start\<close>, \<open>step\<close> apart.\<close>

definition number_rows :: "nat \<Rightarrow> nat \<Rightarrow> nat \<Rightarrow> string list list" where
  "number_rows n start step =
     map (\<lambda>i. map (\<lambda>j. padLeft (nat_str (start + step * (4 * i + j)))) [0..<4]) [0..<n]"

definition fillHours :: "bool \<Rightarrow> string list list" where
  "fillHours use24hours = (if use24hours then number_rows 6 0 1 else number_rows 3 1 1)"

text \<open>The loops of \<open>fillMinutes\<close>: \<open>current\<close> stops growing at 60, the cells after that stay empty.\<close>

fun minute_cells :: "nat \<Rightarrow> int \<Rightarrow> int \<Rightarrow> string option list \<times> int" where
  "minute_cells 0 step current = ([], current)"
| "minute_cells (Suc j) step current =
     (if current < 60
      then (let (cells, c) = minute_cells j step (current + step) in (Some (padLeft (int_str current)) # cells, c))
      else (let (cells, c) = minute_cells j step current in (None # cells, c)))"

fun minute_rows :: "nat \<Rightarrow> int \<Rightarrow> int \<Rightarrow> string option list list" where
  "minute_rows 0 step current = []"
| "minute_rows (Suc i) step current =
     (let (cells, c) = minute_cells 4 step current in cells # minute_rows i step c)"

text \<open>\<open>Math.ceil(60 / step / 4)\<close> rows, for a positive stepping.\<close>

definition fillMinutes :: "int \<Rightarrow> string option list list" where
  "fillMinutes stepping =
     (let step = (if stepping = 1 then 5 else stepping)
      in minute_rows (nat (ceil_div 60 (4 * step))) step 0)"

definition fillSeconds :: "string list list" where
  "fillSeconds = number_rows 3 0 5"

text \<open>The class names of the cell of a day.\<close>

definition day_cell_of :: "picker \<Rightarrow> moment \<Rightarrow> num \<Rightarrow> num \<Rightarrow> day_cell" where
  "day_cell_of p prevMonth yr mo =
     (let e = p_env p; y = year e prevMonth; m = month e prevMonth;
          is_old = (nlt y yr \<or> (neq y yr \<and> nlt m mo));
          is_new = (\<not> is_old \<and> (ngt y yr \<or> (neq y yr \<and> ngt m mo)));
          selected = object_moment e [(''y'', year e (p_date p)), (''M'', month e (p_date p)), (''d'', date e (p_date p))]
      in \<lparr>dc_old = is_old, dc_new = is_new,
          dc_active = isSame e prevMonth selected ''ms'',
          dc_disabled = (isInDisableDates p prevMonth (Some ''day'') \<or> \<not> isInEnableDates p prevMonth
            \<or> list_ex (\<lambda>d. neq (get_day e prevMonth) (Some d)) (o_daysOfWeekDisabled (p_options p))),
          dc_today = (o_showToday (p_options p) \<and> isSame e prevMonth (moment_now e) ''day''),
          dc_text = date e prevMonth\<rparr>)"

text \<open>A cell goes into the last row; with no row yet the program would throw.\<close>

definition add_cell :: "cal_row list \<Rightarrow> day_cell \<Rightarrow> cal_row list" where
  "add_cell rows c =
     (case rev rows of [] \<Rightarrow> [] | r # rs \<Rightarrow> rev (r\<lparr>cr_cells := cr_cells r @ [c]\<rparr> # rs))"

text \<open>The \<open>while\<close> loop of \<open>fillDate\<close>; every round moves on by a day, so 42 rounds are enough.\<close>

fun fill_days :: "nat \<Rightarrow> picker \<Rightarrow> num \<Rightarrow> num \<Rightarrow> moment \<Rightarrow> moment \<Rightarrow> cal_row list \<Rightarrow> cal_row list" where
  "fill_days 0 p yr mo prevMonth nextMonth rows = rows"
| "fill_days (Suc n) p yr mo prevMonth nextMonth rows =
     (let e = p_env p in
      if isBefore e prevMonth nextMonth ''millisecond''
      then
        (let rows = (if neq (weekday e prevMonth) (weekday e (startOf e ''week'' (moment_now e)))
                     then rows @ [\<lparr>cr_week = (if o_calendarWeeks (p_options p) then Some (week e prevMonth) else None),
                                   cr_cells = []\<rparr>]
                     else rows);
             rows = add_cell rows (day_cell_of p prevMonth yr mo);
             currentDate = date e prevMonth;
             prevMonth = add e prevMonth 1 ''d'';
             prevMonth = (if neq currentDate (date e prevMonth) then add e prevMonth 1 ''d'' else prevMonth)
         in fill_days n p yr mo prevMonth nextMonth rows)
      else rows)"

text \<open>The day on which the grid of a month starts: the week of the last day of the month before.\<close>

definition grid_start :: "env \<Rightarrow> moment \<Rightarrow> moment" where
  "grid_start e viewDate =
     (let prevMonth = subtract e (clone viewDate) 1 ''months'';
          days = moment_daysInMonth e prevMonth
      in startOf e ''week'' (rawSetter e prevMonth Date days))"

definition month_cells :: "picker \<Rightarrow> num \<Rightarrow> month_cell list" where
  "month_cells p yr =
     (let e = p_env p;
          startYear = year e (p_minDate p); startMonth = month e (p_minDate p);
          endYear = year e (p_maxDate p); endMonth = month e (p_maxDate p)
      in map (\<lambda>i. \<lparr>mc_active = (neq (year e (p_date p)) yr \<and> neq (month e (p_date p)) (Some i)),
                   mc_disabled = ((neq yr startYear \<and> ngt startMonth (Some i)) \<or> nlt yr startYear \<or>
                      (neq yr endYear \<and> nlt endMonth (Some i)) \<or> ngt yr endYear)\<rparr>) [0..11])"

definition year_cells :: "picker \<Rightarrow> num \<Rightarrow> year_cell list" where
  "year_cells p decade =
     (let e = p_env p
      in map (\<lambda>i. let y = nmap (\<lambda>d. d + i) decade in
             \<lparr>yc_old = (i = -1 \<or> i = 10), yc_active = neq (year e (p_date p)) y,
              yc_disabled = (nlt y (year e (p_minDate p)) \<or> ngt y (year e (p_maxDate p))),
              yc_text = y\<rparr>) [-1..10])"

definition date_view_of :: "picker \<Rightarrow> moment \<Rightarrow> date_view" where
  "date_view_of p viewDate =
     (let e = p_env p; yr = year e viewDate; mo = month e viewDate;
          startYear = year e (p_minDate p); startMonth = month e (p_minDate p);
          endYear = year e (p_maxDate p); endMonth = month e (p_maxDate p);
          prevMonth = grid_start e viewDate;
          nextMonth = add e (clone prevMonth) 42 ''d'';
          decade = nmap (\<lambda>y. js_div y 10 * 10) yr
      in \<lparr>v_dayTitle = nth_str (makeList e ''months'') mo @ '' '' @ num_str yr,
          v_dayPrevDisabled = ((neq yr startYear \<and> nle mo startMonth) \<or> nlt yr startYear),
          v_dayNextDisabled = ((neq yr endYear \<and> nle endMonth mo) \<or> ngt yr endYear),
          v_rows = fill_days 42 p yr mo prevMonth nextMonth [],
          v_monthTitle = yr,
          v_monthPrevDisabled = nlt (nmap (\<lambda>y. y - 1) yr) startYear,
          v_monthNextDisabled = ngt (nmap (\<lambda>y. y + 1) yr) endYear,
          v_months = month_cells p yr,
          v_yearTitle = num_str decade @ ''-'' @ num_str (nmap (\<lambda>d. d + 9) decade),
          v_yearPrevDisabled = ngt startYear decade,
          v_yearNextDisabled = nlt endYear (nmap (\<lambda>d. d + 9) decade),
          v_years = year_cells p decade\<rparr>)"

definition fillDate :: "picker \<Rightarrow> picker" where
  "fillDate p =
     (if \<not> o_pickDate (p_options p) then p
      else
        (let p = use_language p
         in case p_viewDate p of None \<Rightarrow> p | Some v \<Rightarrow> p\<lparr>p_dateView := date_view_of p v\<rparr>))"

definition hour_text :: "bool \<Rightarrow> num \<Rightarrow> string" where
  "hour_text use24hours h =
     padLeft (num_str
       (if use24hours then h
        else if h = Some 0 then Some 12 else if h \<noteq> Some 12 then nmap (\<lambda>n. js_mod n 12) h else h))"

definition fillTime :: "picker \<Rightarrow> picker" where
  "fillTime p =
     (let e = p_env p; d = p_date p
      in p\<lparr>p_timeView :=
            \<lparr>t_hours = hour_text (p_use24hours p) (hours e d),
             t_minutes = padLeft (num_str (minutes e d)), t_seconds = padLeft (num_str (seconds e d)),
             t_period = (if p_use24hours p then t_period (p_timeView p) else moment_text e d ''A'')\<rparr>\<rparr>)"

end
