(* ===== verification/Picker.thy ===== *)
theory Picker
  imports Picker_State
begin

text \<open>
  \<open>bootstrap-datetimepicker-3.1.1.js\<close>: the operations of a picker. A handler of a page event takes what
  the code reads from the event (its type, the element that was hit, its text). The \<open>change\<close> event
  that \<open>notifyChange\<close> triggers on an input element runs the handler \<open>change\<close> at once; its own
  notification has the type \<open>change\<close> and triggers no further one.
\<close>

section \<open>View mode, hiding, writing the input\<close>

record view_mode =
  vm_clsName :: string
  vm_navFnc :: string
  vm_navStep :: int

definition modes :: "view_mode list" where
  "modes =
     [\<lparr>vm_clsName = ''days'', vm_navFnc = ''month'', vm_navStep = 1\<rparr>,
      \<lparr>vm_clsName = ''months'', vm_navFnc = ''year'', vm_navStep = 1\<rparr>,
      \<lparr>vm_clsName = ''years'', vm_navFnc = ''year'', vm_navStep = 10\<rparr>]"

text \<open>A view mode past the table would throw; \<open>showMode\<close> keeps it at most 2.\<close>

definition mode_at :: "nat \<Rightarrow> view_mode" where
  "mode_at i = modes ! min i 2"

definition showMode :: "int \<Rightarrow> picker \<Rightarrow> picker" where
  "showMode dir p =
     (let p = (if dir \<noteq> 0
               then p\<lparr>p_viewMode := nat (max (int (p_minViewMode p)) (min 2 (int (p_viewMode p) + dir)))\<rparr>
               else p)
      in p\<lparr>p_shown := vm_clsName (mode_at (p_viewMode p))\<rparr>)"

definition trigger :: "event \<Rightarrow> picker \<Rightarrow> picker" where
  "trigger ev p = p\<lparr>p_events := p_events p @ [ev]\<rparr>"

definition detachDatePickerGlobalEvents :: "picker \<Rightarrow> picker" where
  "detachDatePickerGlobalEvents p =
     p\<lparr>p_globalHandlers := filter (\<lambda>(el, ev, f).
        \<not> (el = ''window'' \<and> ev = ''resize'') \<and> (p_isInput p \<or> \<not> (el = ''document'' \<and> ev = ''mousedown'')))
        (p_globalHandlers p)\<rparr>"

definition attachDatePickerGlobalEvents :: "picker \<Rightarrow> picker" where
  "attachDatePickerGlobalEvents p =
     p\<lparr>p_globalHandlers := p_globalHandlers p @ [(''window'', ''resize'', ''place'')] @
        (if p_isInput p then [] else [(''document'', ''mousedown'', ''hide'')])\<rparr>"

definition hide :: "picker \<Rightarrow> picker" where
  "hide p =
     (if p_transitioning p then p
      else
        (let p = p\<lparr>p_open := False, p_viewMode := p_startViewMode p\<rparr>;
             p = showMode 0 p;
             p = trigger (DpHide (clone (p_date p))) p
         in detachDatePickerGlobalEvents p))"

text \<open>The function \<open>set\<close> of the picker.\<close>

definition set_input :: "picker \<Rightarrow> picker" where
  "set_input p =
     (let p = use_language p;
          formatted = (if p_unset p then '''' else moment_text (p_env p) (clone (p_date p)) (p_format p));
          p = p\<lparr>p_input := formatted, p_data := formatted\<rparr>
      in if o_pickTime (p_options p) then p else hide p)"

section \<open>Notification and setting the value\<close>

text \<open>\<open>notifyError(date)\<close> of a moment and of a text.\<close>

definition notifyError :: "pvalue \<Rightarrow> picker \<Rightarrow> picker" where
  "notifyError d p = trigger (DpError (pv_moment p d)) (p\<lparr>p_errored := True\<rparr>)"

text \<open>\<open>notifyChange(oldDate, 'change')\<close>\<close>

definition notifyChange_quiet :: "moment \<Rightarrow> picker \<Rightarrow> picker" where
  "notifyChange_quiet oldDate p =
     (if isSame (p_env p) (clone (p_date p)) (clone oldDate) ''ms'' \<and> \<not> p_errored p then p
      else trigger (DpChange (clone (p_date p)) (clone oldDate)) (p\<lparr>p_errored := False\<rparr>))"

definition update :: "picker \<Rightarrow> picker" where
  "update p =
     (let p = use_language p;
          p = (if p_input p \<noteq> ''''
               then p\<lparr>p_date := parse_moment (p_env p) (IString (p_input p)) (FString (p_format p))
                        (o_useStrict (p_options p))\<rparr> else p);
          p = p\<lparr>p_viewDate := Some (startOf (p_env p) ''month'' (clone (p_date p)))\<rparr>
      in fillTime (fillDate p))"

definition is_falsy :: "pvalue \<Rightarrow> bool" where
  "is_falsy v \<longleftrightarrow> v = PvNull \<or> v = PvString ''''"

text \<open>A moment that is passed in gets the language of the picker, which is a registered one.\<close>

definition value_moment :: "picker \<Rightarrow> pvalue \<Rightarrow> moment" where
  "value_moment p v =
     (case v of
        PvMoment m \<Rightarrow>
          (case set_moment_locale (p_env p) (KString (o_language (p_options p))) m of Inr m' \<Rightarrow> m' | Inl _ \<Rightarrow> m)
      | _ \<Rightarrow> pv_moment p v)"

definition setValue :: "pvalue \<Rightarrow> picker \<Rightarrow> picker" where
  "setValue newDate p =
     (let p = use_language p;
          p = (if is_falsy newDate then set_input (p\<lparr>p_unset := True\<rparr>) else p\<lparr>p_unset := False\<rparr>);
          d = value_moment p newDate
      in if fst (isValid d)
         then
           (let p = set_input (p\<lparr>p_date := d\<rparr>);
                e = p_env p;
                p = p\<lparr>p_viewDate := Some (object_moment e [(''y'', year e (p_date p)), (''M'', month e (p_date p))])\<rparr>
            in fillTime (fillDate p))
         else notifyError (PvMoment d) p)"

text \<open>The handler of the \<open>change\<close> event of the input, with the value that the input has then.\<close>

definition change :: "picker \<Rightarrow> picker" where
  "change p =
     (let p = use_language p;
          oldDate = clone (p_date p);
          newDate = parse_moment (p_env p) (IString (p_input p)) (FString (p_format p)) (o_useStrict (p_options p))
      in if fst (isValid newDate) \<and> \<not> isInDisableDates p newDate None \<and> isInEnableDates p newDate
         then set_input (notifyChange_quiet oldDate (setValue (PvMoment newDate) (update p)))
         else notifyError (PvMoment newDate)
                (notifyChange_quiet oldDate (p\<lparr>p_viewDate := Some oldDate, p_unset := True\<rparr>)))"

text \<open>\<open>notifyChange(oldDate, eventType)\<close> for another type: \<open>element.change()\<close> follows.\<close>

definition notifyChange :: "moment \<Rightarrow> picker \<Rightarrow> picker" where
  "notifyChange oldDate p =
     (if isSame (p_env p) (clone (p_date p)) (clone oldDate) ''ms'' \<and> \<not> p_errored p then p
      else
        (let p = trigger (DpChange (clone (p_date p)) (clone oldDate)) (p\<lparr>p_errored := False\<rparr>);
             p = trigger NativeChange p
         in if p_isInput p \<and> (''element'', ''change'', ''change'') \<in> set (p_handlers p) then change p else p))"

definition getDate :: "picker \<Rightarrow> moment option" where
  "getDate p = (if p_unset p then None else Some (clone (p_date p)))"

definition setDate :: "pvalue \<Rightarrow> picker \<Rightarrow> picker" where
  "setDate d p =
     (let oldDate = clone (p_date p)
      in notifyChange oldDate (setValue (if is_falsy d then PvNull else d) p))"

definition refresh :: "picker \<Rightarrow> picker" where
  "refresh p = (if p_viewDate p \<noteq> None then update p else p)"

definition setDisabledDates :: "pvalue list \<Rightarrow> picker \<Rightarrow> picker" where
  "setDisabledDates dates p = refresh (p\<lparr>p_disabledDates := indexGivenDates p dates\<rparr>)"

definition setEnabledDates :: "pvalue list \<Rightarrow> picker \<Rightarrow> picker" where
  "setEnabledDates dates p = refresh (p\<lparr>p_enabledDates := indexGivenDates p dates\<rparr>)"

definition setMaxDate :: "pvalue \<Rightarrow> picker \<Rightarrow> picker" where
  "setMaxDate d p = refresh (p\<lparr>p_maxDate := pv_moment p d\<rparr>)"

definition setMinDate :: "pvalue \<Rightarrow> picker \<Rightarrow> picker" where
  "setMinDate d p = refresh (p\<lparr>p_minDate := pv_moment p d\<rparr>)"

section \<open>Clicks in the calendar\<close>

text \<open>The element that was hit: none, a header cell, a month, a year, a day, another one.\<close>

datatype target_kind =
  NoTarget | Header string | MonthSpan nat | YearSpan string | DayCell string bool bool | OtherTarget

record target =
  tg_kind :: target_kind
  tg_disabled :: bool

definition parseInt :: "string \<Rightarrow> num" where
  "parseInt s =
     (let (sign, t) = (case s of c # cs \<Rightarrow> if c = CHR ''-'' then (-1, cs) else (1, s) | [] \<Rightarrow> (1, s));
          ds = takeWhile is_digit t
      in if ds = [] then None else Some (sign * int (digits_val ds)))"

text \<open>\<open>parseInt(s, 10) || n\<close>\<close>

definition parseInt_or :: "string \<Rightarrow> int \<Rightarrow> int" where
  "parseInt_or s n = (case parseInt s of None \<Rightarrow> n | Some k \<Rightarrow> if k = 0 then n else k)"

definition with_time :: "picker \<Rightarrow> (string \<times> num) list \<Rightarrow> moment" where
  "with_time p ymd =
     (let e = p_env p
      in object_moment e (ymd @ [(''h'', hours e (p_date p)), (''m'', minutes e (p_date p)),
           (''s'', seconds e (p_date p))]))"

text \<open>The month and year of the day that was hit, from the view and the class of the cell.\<close>

definition day_month :: "num \<Rightarrow> num \<Rightarrow> bool \<Rightarrow> bool \<Rightarrow> num \<times> num" where
  "day_month mo yr is_old is_new =
     (if is_old
      then (if mo = Some 0 then (Some 11, nmap (\<lambda>y. y - 1) yr) else (nmap (\<lambda>n. n - 1) mo, yr))
      else if is_new
      then (if mo = Some 11 then (Some 0, nmap (\<lambda>y. y + 1) yr) else (nmap (\<lambda>n. n + 1) mo, yr))
      else (mo, yr))"

definition click_header :: "string \<Rightarrow> moment \<Rightarrow> picker \<Rightarrow> picker" where
  "click_header cls v p =
     (if cls = ''picker-switch'' then showMode 1 p
      else if cls = ''prev'' \<or> cls = ''next''
      then
        (let mode = mode_at (p_viewMode p);
             step = (if cls = ''prev'' then - vm_navStep mode else vm_navStep mode)
         in fillDate (p\<lparr>p_viewDate := Some (add (p_env p) v step (vm_navFnc mode))\<rparr>))
      else p)"

definition click_span :: "moment \<Rightarrow> moment \<Rightarrow> picker \<Rightarrow> picker" where
  "click_span oldDate v p =
     (let e = p_env p;
          p = p\<lparr>p_viewDate := Some v\<rparr>;
          p = (if p_viewMode p = p_minViewMode p
               then notifyChange oldDate (set_input (p\<lparr>p_date := with_time p
                      [(''y'', year e v), (''M'', month e v), (''d'', date e v)]\<rparr>))
               else p)
      in fillDate (showMode (-1) p))"

definition click_day :: "string \<Rightarrow> bool \<Rightarrow> bool \<Rightarrow> moment \<Rightarrow> moment \<Rightarrow> picker \<Rightarrow> picker" where
  "click_day txt is_old is_new oldDate v p =
     (let e = p_env p;
          d = parseInt_or txt 1;
          (mo, yr) = day_month (month e v) (year e v) is_old is_new;
          p = p\<lparr>p_date := with_time p [(''y'', yr), (''M'', mo), (''d'', Some d)]\<rparr>;
          p = p\<lparr>p_viewDate := Some (object_moment e [(''y'', yr), (''M'', mo), (''d'', Some (min 28 d))])\<rparr>
      in notifyChange oldDate (set_input (fillDate p)))"

definition click :: "target \<Rightarrow> picker \<Rightarrow> picker" where
  "click tg p =
     (let p = p\<lparr>p_unset := False\<rparr>; e = p_env p; oldDate = clone (p_date p)
      in if tg_disabled tg then p
         else case p_viewDate p of
           None \<Rightarrow> p
         | Some v \<Rightarrow>
             (case tg_kind tg of
                NoTarget \<Rightarrow> p
              | OtherTarget \<Rightarrow> p
              | Header cls \<Rightarrow> click_header cls v p
              | MonthSpan i \<Rightarrow> click_span oldDate (set_unit e Month (int i) v) p
              | YearSpan txt \<Rightarrow> click_span oldDate (set_unit e FullYear (parseInt_or txt 0) v) p
              | DayCell txt is_old is_new \<Rightarrow> click_day txt is_old is_new oldDate v p))"

section \<open>Actions of the time picker\<close>

datatype direction = DirAdd | DirSubtract

definition step_date :: "direction \<Rightarrow> env \<Rightarrow> int \<Rightarrow> string \<Rightarrow> moment \<Rightarrow> moment" where
  "step_date dir e amount unit m = (case dir of DirAdd \<Rightarrow> add e m amount unit | DirSubtract \<Rightarrow> subtract e m amount unit)"

text \<open>
  \<open>checkDate\<close>. The call \<open>newDate.subtract(amount, unit)\<close> in the condition changes \<open>newDate\<close> itself, so
  that both tests and the error see the changed moment.
\<close>

definition checked_date :: "direction \<Rightarrow> string \<Rightarrow> int \<Rightarrow> picker \<Rightarrow> moment" where
  "checked_date dir unit amount p =
     (let e = p_env p;
          newDate = (case dir of
             DirAdd \<Rightarrow>
               (let d = clone (p_date p);
                    d = (if hours e d = Some 23 then add e d amount unit else d)
                in add e d amount unit)
           | DirSubtract \<Rightarrow> subtract e (clone (p_date p)) amount unit)
      in subtract e newDate amount unit)"

definition checkDate :: "direction \<Rightarrow> string \<Rightarrow> int \<Rightarrow> picker \<Rightarrow> picker" where
  "checkDate dir unit amount p =
     (let p = use_language p;
          newDate = checked_date dir unit amount p
      in if isInDisableDates p (clone newDate) None \<or> isInDisableDates p newDate None
         then notifyError (PvString (moment_text (p_env p) newDate (p_format p))) p
         else p\<lparr>p_date := step_date dir (p_env p) amount unit (p_date p), p_unset := False\<rparr>)"

datatype action =
    IncrementHours | IncrementMinutes | IncrementSeconds
  | DecrementHours | DecrementMinutes | DecrementSeconds
  | TogglePeriod | ShowPicker | ShowHours | ShowMinutes | ShowSeconds
  | SelectHour string | SelectMinute string | SelectSecond string

definition set_date_field :: "dfield \<Rightarrow> num \<Rightarrow> picker \<Rightarrow> picker" where
  "set_date_field f v p = p\<lparr>p_date := rawSetter (p_env p) (p_date p) f v\<rparr>"

text \<open>The hour that \<open>selectHour\<close> sets, from the one that was hit.\<close>

definition selected_hour :: "bool \<Rightarrow> num \<Rightarrow> num \<Rightarrow> num" where
  "selected_hour use24hours current hour =
     (if use24hours then hour
      else if nle (Some 12) current
      then (if hour \<noteq> Some 12 then nmap (\<lambda>h. h + 12) hour else hour)
      else (if hour = Some 12 then Some 0 else hour))"

definition toggled_hour :: "num \<Rightarrow> num" where
  "toggled_hour h = nmap (\<lambda>n. if n \<ge> 12 then n - 12 else n + 12) h"

fun do_action :: "action \<Rightarrow> picker \<Rightarrow> picker" where
  "do_action IncrementHours p = checkDate DirAdd ''hours'' 1 p"
| "do_action IncrementMinutes p = checkDate DirAdd ''minutes'' (o_minuteStepping (p_options p)) p"
| "do_action IncrementSeconds p = checkDate DirAdd ''seconds'' 1 p"
| "do_action DecrementHours p = checkDate DirSubtract ''hours'' 1 p"
| "do_action DecrementMinutes p = checkDate DirSubtract ''minutes'' (o_minuteStepping (p_options p)) p"
| "do_action DecrementSeconds p = checkDate DirSubtract ''seconds'' 1 p"
| "do_action TogglePeriod p = set_date_field Hours (toggled_hour (hours (p_env p) (p_date p))) p"
| "do_action ShowPicker p = p\<lparr>p_pane := PanePicker\<rparr>"
| "do_action ShowHours p = p\<lparr>p_pane := PaneHours\<rparr>"
| "do_action ShowMinutes p = p\<lparr>p_pane := PaneMinutes\<rparr>"
| "do_action ShowSeconds p = p\<lparr>p_pane := PaneSeconds\<rparr>"
| "do_action (SelectHour txt) p =
     (set_date_field Hours (selected_hour (p_use24hours p) (hours (p_env p) (p_date p)) (parseInt txt)) p)
       \<lparr>p_pane := PanePicker\<rparr>"
| "do_action (SelectMinute txt) p = (set_date_field Minutes (parseInt txt) p)\<lparr>p_pane := PanePicker\<rparr>"
| "do_action (SelectSecond txt) p = (set_date_field Seconds (parseInt txt) p)\<lparr>p_pane := PanePicker\<rparr>"

definition doAction :: "action \<Rightarrow> picker \<Rightarrow> picker" where
  "doAction a p =
     (let oldDate = clone (p_date p)
      in notifyChange oldDate (fillTime (set_input (do_action a p))))"

section \<open>Showing, enabling, handlers\<close>

definition keydown :: "int \<Rightarrow> picker \<Rightarrow> picker" where
  "keydown keyCode p = (if keyCode = 27 then hide p else p)"

text \<open>The minute that is shown first, rounded to the stepping.\<close>

definition round_minutes :: "env \<Rightarrow> int \<Rightarrow> moment \<Rightarrow> moment" where
  "round_minutes e rInterval m =
     set_unit e Seconds 0
       (rawSetter e m Minutes (nmap (\<lambda>n. js_mod (round_div n rInterval * rInterval) 60) (minutes e m)))"

text \<open>\<open>show(e)\<close> for an event of the given type; the widget is placed afterwards.\<close>

definition show_picker :: "string \<Rightarrow> picker \<Rightarrow> picker" where
  "show_picker eventType p =
     (let p = (if o_useCurrent (p_options p) \<and> p_input p = ''''
               then
                 (let e = p_env p; stepping = o_minuteStepping (p_options p);
                      mDate = (if stepping \<noteq> 1 then round_minutes e stepping (moment_now e) else moment_now e);
                      p = setValue (PvString (moment_text e mDate (p_format p))) p
                  in notifyChange (moment_invalid (p_env p) True) p)
               else p)
      in if eventType = ''click'' \<and> p_isInput p \<and> p_open p then p
         else
           (let p = p\<lparr>p_open := \<not> p_open p\<rparr>;
                p = trigger (DpShow (clone (p_date p))) p
            in attachDatePickerGlobalEvents p))"

definition attachDatePickerEvents :: "picker \<Rightarrow> picker" where
  "attachDatePickerEvents p =
     p\<lparr>p_handlers := p_handlers p @
        [(''widget .datepicker *'', ''click'', ''click''), (''widget [data-action]'', ''click'', ''doAction''),
         (''widget'', ''mousedown'', ''stopEvent''), (''element'', ''keydown'', ''keydown'')] @
        (if o_pickDate (p_options p) \<and> o_pickTime (p_options p)
         then [(''widget .accordion-toggle'', ''click.togglePicker'', ''togglePicker'')] else []) @
        (if p_isInput p
         then [(''element'', ''click'', ''show''), (''element'', ''focus'', ''show''),
               (''element'', ''change'', ''change''), (''element'', ''blur'', ''hide'')]
         else (''element input'', ''change'', ''change'') #
              (if p_component p
               then [(''component'', ''click'', ''show''), (''component'', ''mousedown'', ''stopEvent'')]
               else [(''element'', ''click'', ''show'')]))\<rparr>"

text \<open>
  \<open>detachDatePickerEvents\<close>: a call of \<open>off\<close> whose function is undefined removes all handlers of that
  event. There is no call for \<open>keydown\<close>.
\<close>

definition detached :: "picker \<Rightarrow> handler \<Rightarrow> bool" where
  "detached p h =
     (case h of (el, ev, f) \<Rightarrow>
        (el, ev) \<in> {(''widget .datepicker *'', ''click''), (''widget [data-action]'', ''click''),
          (''widget'', ''mousedown'')} \<or>
        (o_pickDate (p_options p) \<and> o_pickTime (p_options p) \<and>
          (el, ev) = (''widget .accordion-toggle'', ''click.togglePicker'')) \<or>
        (if p_isInput p
         then (el, ev) = (''element'', ''change'') \<or>
              h \<in> {(''element'', ''focus'', ''show''), (''element'', ''click'', ''show''), (''element'', ''blur'', ''hide'')}
         else (el, ev) = (''element input'', ''change'') \<or>
              (if p_component p
               then h = (''component'', ''click'', ''show'') \<or> (el, ev) = (''component'', ''mousedown'')
               else h = (''element'', ''click'', ''show''))))"

definition detachDatePickerEvents :: "picker \<Rightarrow> picker" where
  "detachDatePickerEvents p = p\<lparr>p_handlers := filter (\<lambda>h. \<not> detached p h) (p_handlers p)\<rparr>"

definition disable :: "picker \<Rightarrow> picker" where
  "disable p = (if p_disabled p then p else detachDatePickerEvents (p\<lparr>p_disabled := True\<rparr>))"

definition enable :: "picker \<Rightarrow> picker" where
  "enable p = (if \<not> p_disabled p then p else attachDatePickerEvents (p\<lparr>p_disabled := False\<rparr>))"

definition destroy :: "picker \<Rightarrow> picker" where
  "destroy p = detachDatePickerGlobalEvents (detachDatePickerEvents p)"

section \<open>Construction\<close>

definition blank_view :: date_view where
  "blank_view =
     \<lparr>v_dayTitle = '''', v_dayPrevDisabled = False, v_dayNextDisabled = False, v_rows = [],
      v_monthTitle = None, v_monthPrevDisabled = False, v_monthNextDisabled = False, v_months = [],
      v_yearTitle = '''', v_yearPrevDisabled = False, v_yearNextDisabled = False, v_years = []\<rparr>"

text \<open>The object before \<open>init\<close> computes anything: the page side of it is an argument.\<close>

definition new_picker :: "env \<Rightarrow> options \<Rightarrow> bool \<Rightarrow> bool \<Rightarrow> string \<Rightarrow> picker" where
  "new_picker e o' isInput component inputValue =
     \<lparr>p_env = e, p_options = o', p_minDate = moment_now e, p_maxDate = moment_now e,
      p_disabledDates = None, p_enabledDates = None, p_format = '''', p_use24hours = False,
      p_date = moment_now e, p_viewDate = None, p_unset = False, p_errored = False,
      p_minViewMode = 0, p_viewMode = 0, p_startViewMode = 0, p_isInput = isInput,
      p_component = component, p_input = inputValue, p_data = '''', p_disabled = False, p_open = False,
      p_transitioning = False, p_shown = '''', p_pane = PanePicker, p_dow = [], p_monthNames = [],
      p_hourRows = [], p_minuteRows = [], p_secondRows = [], p_dateView = blank_view,
      p_timeView = \<lparr>t_hours = '''', t_minutes = '''', t_seconds = '''', t_period = ''''\<rparr>,
      p_handlers = [], p_globalHandlers = [], p_events = []\<rparr>"

definition init_format :: "picker \<Rightarrow> picker" where
  "init_format p =
     (let o' = p_options p;
          f = (if o_format o' \<noteq> '''' then o_format o' else default_format (e_locale (p_env p)) o')
      in p\<lparr>p_format := f, p_use24hours := uses_24_hours f\<rparr>)"

definition init_modes :: "picker \<Rightarrow> picker" where
  "init_modes p =
     (let minMode = mode_of (o_minViewMode (p_options p));
          mode = max (mode_of (o_viewMode (p_options p))) minMode
      in p\<lparr>p_minViewMode := minMode, p_viewMode := mode, p_startViewMode := mode\<rparr>)"

definition init_dates :: "picker \<Rightarrow> picker" where
  "init_dates p =
     (let o' = p_options p;
          p = p\<lparr>p_disabledDates := indexGivenDates p (o_disabledDates o')\<rparr>;
          p = p\<lparr>p_enabledDates := indexGivenDates p (o_enabledDates o')\<rparr>
      in setMaxDate (o_maxDate o') (setMinDate (o_minDate o') p))"

definition init_tables :: "picker \<Rightarrow> picker" where
  "init_tables p =
     (let p = use_language p
      in p\<lparr>p_dow := fillDow (p_env p), p_monthNames := fillMonths (p_env p),
          p_hourRows := fillHours (p_use24hours p),
          p_minuteRows := fillMinutes (o_minuteStepping (p_options p)), p_secondRows := fillSeconds\<rparr>)"

definition init :: "env \<Rightarrow> options \<Rightarrow> edata \<Rightarrow> bool \<Rightarrow> bool \<Rightarrow> string \<Rightarrow> picker result" where
  "init e opts d isInput component inputValue =
     (let o' = dataToOptions d opts in
      if \<not> (o_pickTime o' \<or> o_pickDate o') then Inl (JsError ''Must choose at least one picker'')
      else
        (let p = use_language (new_picker e o' isInput component inputValue);
             p = p\<lparr>p_date := moment_now (p_env p)\<rparr>;
             p = init_tables (init_dates (init_modes (init_format p)));
             p = attachDatePickerEvents (showMode 0 (update p));
             p = (if o_defaultDate o' \<noteq> PvString '''' \<and> p_input p = '''' then setValue (o_defaultDate o') p else p)
         in Inr (if o_minuteStepping o' \<noteq> 1
                 then p\<lparr>p_date := round_minutes (p_env p) (o_minuteStepping o') (p_date p)\<rparr> else p)))"

end
