(* ===== verification/Picker_Layout.thy ===== *)
theory Picker_Layout
  imports Picker
begin

text \<open>
  \<open>bootstrap-datetimepicker-3.1.1.js\<close>: the template of the widget, as the tree of elements that the
  program writes as text, and the placement of the widget next to its element. Pixels are integers.
\<close>

section \<open>Template\<close>

datatype html = Txt string | Elem string "(string \<times> string) list" "html list"

definition div_class :: "string \<Rightarrow> html list \<Rightarrow> html" where
  "div_class c xs = Elem ''div'' [(''class'', c)] xs"

definition headTemplate :: "bool \<Rightarrow> html" where
  "headTemplate calendarWeeks =
     Elem ''thead'' [] [Elem ''tr'' []
       [Elem ''th'' [(''class'', ''prev'')] [Txt ''&lsaquo;''],
        Elem ''th'' [(''colspan'', if calendarWeeks then ''6'' else ''5''), (''class'', ''picker-switch'')] [],
        Elem ''th'' [(''class'', ''next'')] [Txt ''&rsaquo;'']]]"

definition contTemplate :: "bool \<Rightarrow> html" where
  "contTemplate calendarWeeks =
     Elem ''tbody'' [] [Elem ''tr'' [] [Elem ''td'' [(''colspan'', if calendarWeeks then ''8'' else ''7'')] []]]"

definition condensed :: "html list \<Rightarrow> html" where
  "condensed xs = Elem ''table'' [(''class'', ''table-condensed'')] xs"

definition date_template :: "bool \<Rightarrow> html list" where
  "date_template calendarWeeks =
     [div_class ''datepicker-days'' [condensed [headTemplate calendarWeeks, Elem ''tbody'' [] []]],
      div_class ''datepicker-months'' [condensed [headTemplate calendarWeeks, contTemplate calendarWeeks]],
      div_class ''datepicker-years'' [condensed [headTemplate calendarWeeks, contTemplate calendarWeeks]]]"

definition hourTemplate :: html where
  "hourTemplate = Elem ''span'' [(''data-action'', ''showHours''), (''data-time-component'', ''hours''),
     (''class'', ''timepicker-hour'')] []"

definition minuteTemplate :: html where
  "minuteTemplate = Elem ''span'' [(''data-action'', ''showMinutes''), (''data-time-component'', ''minutes''),
     (''class'', ''timepicker-minute'')] []"

definition secondTemplate :: html where
  "secondTemplate = Elem ''span'' [(''data-action'', ''showSeconds''), (''data-time-component'', ''seconds''),
     (''class'', ''timepicker-second'')] []"

definition action_button :: "string \<Rightarrow> string \<Rightarrow> html" where
  "action_button action icon =
     Elem ''a'' [(''href'', ''#''), (''class'', ''btn''), (''data-action'', action)] [Elem ''span'' [(''class'', icon)] []]"

definition separator :: "html list \<Rightarrow> html" where
  "separator xs = Elem ''td'' [(''class'', ''separator'')] xs"

text \<open>A row of buttons: hours, minutes and seconds, up or down.\<close>

definition button_row :: "picker \<Rightarrow> string \<Rightarrow> string \<Rightarrow> html" where
  "button_row p verb icon =
     Elem ''tr'' []
       ([Elem ''td'' [] [action_button (verb @ ''Hours'') icon], separator [],
         Elem ''td'' [] (if o_useMinutes (p_options p) then [action_button (verb @ ''Minutes'') icon] else [])] @
        (if o_useSeconds (p_options p)
         then [separator [], Elem ''td'' [] [action_button (verb @ ''Seconds'') icon]] else []) @
        (if p_use24hours p then [] else [separator []]))"

definition time_row :: "picker \<Rightarrow> html" where
  "time_row p =
     Elem ''tr'' []
       ([Elem ''td'' [] [hourTemplate], separator [Txt '':''],
         Elem ''td'' [] [if o_useMinutes (p_options p) then minuteTemplate
                        else Elem ''span'' [(''class'', ''timepicker-minute'')] [Txt ''00'']]] @
        (if o_useSeconds (p_options p) then [separator [Txt '':''], Elem ''td'' [] [secondTemplate]] else []) @
        (if p_use24hours p then []
         else [separator [], Elem ''td'' [] [Elem ''button'' [(''type'', ''button''),
                 (''class'', ''btn btn-primary''), (''data-action'', ''togglePeriod'')] []]]))"

text \<open>\<open>tpGlobal.getTemplate\<close>\<close>

definition time_template :: "picker \<Rightarrow> html list" where
  "time_template p =
     [div_class ''timepicker-picker'' [condensed
        [button_row p ''increment'' (i_up (o_icons (p_options p))), time_row p,
         button_row p ''decrement'' (i_down (o_icons (p_options p)))]],
      Elem ''div'' [(''class'', ''timepicker-hours''), (''data-action'', ''selectHour'')] [condensed []],
      Elem ''div'' [(''class'', ''timepicker-minutes''), (''data-action'', ''selectMinute'')] [condensed []]] @
     (if o_useSeconds (p_options p)
      then [Elem ''div'' [(''class'', ''timepicker-seconds''), (''data-action'', ''selectSecond'')] [condensed []]]
      else [])"

definition li_collapse :: "bool \<Rightarrow> string \<Rightarrow> html list \<Rightarrow> html" where
  "li_collapse collapse c xs = Elem ''li'' (if collapse then [(''class'', c)] else []) xs"

definition getTemplate :: "picker \<Rightarrow> html" where
  "getTemplate p =
     (let o' = p_options p; dates = date_template (o_calendarWeeks o') in
      if o_pickDate o' \<and> o_pickTime o'
      then
        Elem ''div''
          [(''class'', ''bootstrap-datetimepicker-widget'' @ (if o_sideBySide o' then '' timepicker-sbs'' else '''')
              @ (if p_use24hours p then '' usetwentyfour'' else '''') @ '' dropdown-menu''),
           (''style'', ''z-index:9999 !important;'')]
          [if o_sideBySide o'
           then div_class ''row''
                  [div_class ''col-sm-6 datepicker'' dates, div_class ''col-sm-6 timepicker'' (time_template p)]
           else Elem ''ul'' [(''class'', ''list-unstyled'')]
                  [li_collapse (o_collapse o') ''collapse in'' [div_class ''datepicker'' dates],
                   Elem ''li'' [(''class'', ''picker-switch accordion-toggle'')]
                     [Elem ''a'' [(''class'', ''btn''), (''style'', ''width:100%'')]
                        [Elem ''span'' [(''class'', i_time (o_icons o'))] []]],
                   li_collapse (o_collapse o') ''collapse'' [div_class ''timepicker'' (time_template p)]]]
      else if o_pickTime o'
      then div_class ''bootstrap-datetimepicker-widget dropdown-menu'' [div_class ''timepicker'' (time_template p)]
      else div_class ''bootstrap-datetimepicker-widget dropdown-menu'' [div_class ''datepicker'' dates])"

text \<open>The names of all actions in a tree, and the names that the table \<open>actions\<close> has.\<close>

fun data_actions :: "html \<Rightarrow> string list" where
  "data_actions (Txt s) = []"
| "data_actions (Elem n as xs) =
     map snd (filter (\<lambda>a. fst a = ''data-action'') as) @ concat (map data_actions xs)"

definition action_names :: "string list" where
  "action_names =
     [''incrementHours'', ''incrementMinutes'', ''incrementSeconds'', ''decrementHours'',
      ''decrementMinutes'', ''decrementSeconds'', ''togglePeriod'', ''showPicker'', ''showHours'',
      ''showMinutes'', ''showSeconds'', ''selectHour'', ''selectMinute'', ''selectSecond'']"

section \<open>Placement\<close>

text \<open>What the page measures: the offset and the size of the element, the widget and the window.\<close>

record geometry =
  g_top :: int
  g_left :: int
  g_width :: int
  g_elementHeight :: int
  g_widgetHeight :: int
  g_widgetWidth :: int
  g_widgetOuterWidth :: int
  g_windowWidth :: int
  g_windowHeight :: int
  g_scrollTop :: int
  g_scrollLeft :: int
  g_parentPositions :: "string list"

text \<open>\<open>None\<close> is \<open>'auto'\<close>; an outer \<open>None\<close> for \<open>pl_bottom\<close> means that the property is not set.\<close>

record placement =
  pl_position :: string
  pl_class :: string
  pl_leftOriented :: bool
  pl_pullRight :: bool
  pl_top :: "int option"
  pl_bottom :: "int option option"
  pl_left :: "int option"
  pl_right :: "int option"

fun isInFixed :: "string list \<Rightarrow> bool" where
  "isInFixed [] = False"
| "isInFixed (pos # rest) = (if pos = ''fixed'' then True else isInFixed rest)"

definition placePosition :: "string \<Rightarrow> geometry \<Rightarrow> string option" where
  "placePosition dir g =
     (let top = g_top g + g_elementHeight g in
      if dir = ''up'' then Some ''top''
      else if dir = ''bottom'' then Some ''bottom''
      else if dir = ''auto''
      then (if top + g_widgetHeight g > g_windowHeight g + g_scrollTop g \<and>
               g_widgetHeight g + g_elementHeight g < top
            then Some ''top'' else Some ''bottom'')
      else None)"

definition place :: "string \<Rightarrow> string \<Rightarrow> geometry \<Rightarrow> placement" where
  "place dir orientation g =
     (let top = g_top g + g_elementHeight g;
          above = (placePosition dir g = Some ''top'');
          bottom = g_windowHeight g - top + g_elementHeight g + 3;
          top = (if above then top else top + 1);
          leftOriented = (orientation = ''left'');
          left = (if leftOriented then g_left g - g_widgetWidth g + 20 else g_left g);
          fixed = isInFixed (g_parentPositions g);
          top = (if fixed then top - g_scrollTop g else top);
          left = (if fixed then left - g_scrollLeft g else left);
          pullRight = (g_windowWidth g < left + g_widgetOuterWidth g)
      in \<lparr>pl_position = (if fixed then ''fixed'' else ''absolute''),
          pl_class = (if above then ''top'' else ''bottom''),
          pl_leftOriented = leftOriented, pl_pullRight = pullRight,
          pl_top = (if above then None else Some top),
          pl_bottom = (if above then Some (Some bottom) else None),
          pl_left = (if pullRight then None else Some left),
          pl_right = (if pullRight then Some (g_windowWidth g - left - g_width g) else None)\<rparr>)"

end
