(* ===== verification/Picker_Props.thy ===== *)
theory Picker_Props
  imports Picker_Layout Moment_Calendar
begin

text \<open>
  Properties of the date picker: an invariant of all states that its operations reach, what the
  operations do to the date, and what the widget shows.
\<close>

section \<open>Steps of a picker\<close>

text \<open>One operation: a call of the public interface or a handler of a page event.\<close>

inductive picker_step :: "picker \<Rightarrow> picker \<Rightarrow> bool" where
  step_click: "picker_step p (click tg p)"
| step_action: "picker_step p (doAction a p)"
| step_change: "picker_step p (change (p\<lparr>p_input := s\<rparr>))"
| step_keydown: "picker_step p (keydown k p)"
| step_hide: "picker_step p (hide p)"
| step_show: "picker_step p (show_picker ev p)"
| step_setDate: "picker_step p (setDate d p)"
| step_setMinDate: "picker_step p (setMinDate d p)"
| step_setMaxDate: "picker_step p (setMaxDate d p)"
| step_setDisabledDates: "picker_step p (setDisabledDates ds p)"
| step_setEnabledDates: "picker_step p (setEnabledDates ds p)"
| step_disable: "picker_step p (disable p)"
| step_enable: "picker_step p (enable p)"
| step_destroy: "picker_step p (destroy p)"
| step_transition: "picker_step p (p\<lparr>p_transitioning := b\<rparr>)"

inductive reachable :: "env \<Rightarrow> options \<Rightarrow> edata \<Rightarrow> picker \<Rightarrow> bool" for e opts d where
  reach_init: "init e opts d isInput component s = Inr p \<Longrightarrow> reachable e opts d p"
| reach_step: "reachable e opts d p \<Longrightarrow> picker_step p q \<Longrightarrow> reachable e opts d q"

text \<open>The part of the state that only \<open>showMode\<close> and \<open>hide\<close> change.\<close>

definition core :: "picker \<Rightarrow> options \<times> string \<times> bool \<times> bool \<times> bool \<times> nat \<times> nat \<times> nat \<times> string" where
  "core p = (p_options p, p_format p, p_use24hours p, p_isInput p, p_component p,
     p_minViewMode p, p_startViewMode p, p_viewMode p, p_shown p)"

named_theorems core_simps

lemma core_update [core_simps]:
  "core (p\<lparr>p_date := m\<rparr>) = core p" "core (p\<lparr>p_viewDate := v\<rparr>) = core p" "core (p\<lparr>p_unset := b\<rparr>) = core p"
  "core (p\<lparr>p_errored := b\<rparr>) = core p" "core (p\<lparr>p_input := s\<rparr>) = core p" "core (p\<lparr>p_data := s\<rparr>) = core p"
  "core (p\<lparr>p_env := e\<rparr>) = core p" "core (p\<lparr>p_events := es\<rparr>) = core p" "core (p\<lparr>p_pane := pn\<rparr>) = core p"
  "core (p\<lparr>p_open := b\<rparr>) = core p" "core (p\<lparr>p_disabled := b\<rparr>) = core p" "core (p\<lparr>p_transitioning := b\<rparr>) = core p"
  "core (p\<lparr>p_handlers := hs\<rparr>) = core p" "core (p\<lparr>p_globalHandlers := hs\<rparr>) = core p"
  "core (p\<lparr>p_minDate := m\<rparr>) = core p" "core (p\<lparr>p_maxDate := m\<rparr>) = core p"
  "core (p\<lparr>p_disabledDates := ks\<rparr>) = core p" "core (p\<lparr>p_enabledDates := ks\<rparr>) = core p"
  "core (p\<lparr>p_dateView := dv\<rparr>) = core p" "core (p\<lparr>p_timeView := tv\<rparr>) = core p"
  by (simp_all add: core_def)

lemma core_ops [core_simps]:
  "core (use_language p) = core p" "core (trigger ev p) = core p" "core (fillTime p) = core p"
  "core (attachDatePickerEvents p) = core p" "core (detachDatePickerEvents p) = core p"
  "core (attachDatePickerGlobalEvents p) = core p" "core (detachDatePickerGlobalEvents p) = core p"
  "core (set_date_field f v p) = core p"
  by (simp_all add: core_simps use_language_def trigger_def fillTime_def attachDatePickerEvents_def
      detachDatePickerEvents_def attachDatePickerGlobalEvents_def detachDatePickerGlobalEvents_def
      set_date_field_def Let_def)

lemma core_fill [core_simps]:
  "core (fillDate p) = core p" "core (notifyError v p) = core p" "core (notifyChange_quiet m p) = core p"
  "core (disable p) = core p" "core (enable p) = core p" "core (destroy p) = core p"
  by (simp_all add: core_simps fillDate_def notifyError_def notifyChange_quiet_def disable_def enable_def
      destroy_def Let_def split: option.split)

lemma core_update_date [core_simps]: "core (update p) = core p" "core (refresh p) = core p"
    "core (setMinDate v p) = core p" "core (setMaxDate v p) = core p"
    "core (setDisabledDates vs p) = core p" "core (setEnabledDates vs p) = core p"
  by (simp_all add: core_simps update_def refresh_def setMinDate_def setMaxDate_def
      setDisabledDates_def setEnabledDates_def Let_def)

lemma core_checkDate [core_simps]: "core (checkDate dir unit n p) = core p"
  by (simp add: core_simps checkDate_def Let_def)

lemma core_do_action [core_simps]: "core (do_action a p) = core p"
  by (cases a) (simp_all add: core_simps)

lemma core_init_steps [core_simps]: "core (init_dates p) = core p" "core (init_tables p) = core p"
proof -
  show "core (init_dates p) = core p" by (simp add: core_simps init_dates_def Let_def)
  show "core (init_tables p) = core p" by (simp add: init_tables_def core_def use_language_def Let_def)
qed

lemma core_showMode: "core p = core q \<Longrightarrow> core (showMode dir p) = core (showMode dir q)"
  by (simp add: core_def showMode_def Let_def)

text \<open>The picker that \<open>init\<close> starts from.\<close>

definition set_up :: "env \<Rightarrow> options \<Rightarrow> bool \<Rightarrow> bool \<Rightarrow> string \<Rightarrow> picker" where
  "set_up e o' isInput component s =
     (let p = use_language (new_picker e o' isInput component s)
      in init_modes (init_format (p\<lparr>p_date := moment_now (p_env p)\<rparr>)))"

lemma set_up_sel:
  "p_options (set_up e o' isInput component s) = o'"
  "p_use24hours (set_up e o' isInput component s) = uses_24_hours (p_format (set_up e o' isInput component s))"
  "p_minViewMode (set_up e o' isInput component s) = mode_of (o_minViewMode o')"
  "p_viewMode (set_up e o' isInput component s) = max (mode_of (o_viewMode o')) (mode_of (o_minViewMode o'))"
  "p_startViewMode (set_up e o' isInput component s) = max (mode_of (o_viewMode o')) (mode_of (o_minViewMode o'))"
  by (simp_all add: set_up_def init_modes_def init_format_def use_language_def new_picker_def Let_def)

lemma reachable_options:
  "reachable e opts d p \<Longrightarrow> o_pickTime (dataToOptions d opts) \<or> o_pickDate (dataToOptions d opts)"
  by (induction rule: reachable.induct) (auto simp: init_def Let_def split: if_splits)

text \<open>
  A property of pickers that depends on this part only and that the two operations keep. Every
  operation of the picker keeps it then.
\<close>

locale picker_invariant =
  fixes I :: "picker \<Rightarrow> bool"
  assumes frame: "core p = core q \<Longrightarrow> I p = I q"
    and I_hide: "I p \<Longrightarrow> I (hide p)"
    and I_showMode: "I p \<Longrightarrow> I (showMode dir p)"
begin

lemma I_core [simp]: "I (use_language p) = I p" "I (fillDate p) = I p" "I (fillTime p) = I p"
    "I (notifyError v p) = I p" "I (notifyChange_quiet m p) = I p" "I (update p) = I p" "I (trigger ev p) = I p"
    "I (do_action a p) = I p" "I (disable p) = I p" "I (enable p) = I p" "I (destroy p) = I p"
    "I (setMinDate v p) = I p" "I (setMaxDate v p) = I p" "I (setDisabledDates vs p) = I p"
    "I (setEnabledDates vs p) = I p" "I (attachDatePickerGlobalEvents p) = I p"
    "I (p\<lparr>p_date := x1\<rparr>) = I p" "I (p\<lparr>p_viewDate := x2\<rparr>) = I p" "I (p\<lparr>p_unset := x3\<rparr>) = I p"
    "I (p\<lparr>p_errored := x3\<rparr>) = I p" "I (p\<lparr>p_input := x4\<rparr>) = I p" "I (p\<lparr>p_data := x4\<rparr>) = I p"
    "I (p\<lparr>p_open := x3\<rparr>) = I p" "I (p\<lparr>p_transitioning := x3\<rparr>) = I p"
  by (rule frame, simp add: core_simps)+

lemma I_set_input [simp]: "I p \<Longrightarrow> I (set_input p)"
  by (simp add: set_input_def I_hide Let_def)

lemma I_setValue [simp]: "I p \<Longrightarrow> I (setValue v p)"
  by (simp add: setValue_def Let_def)

lemma I_change [simp]: "I p \<Longrightarrow> I (change p)"
  by (simp add: change_def Let_def)

lemma I_notifyChange [simp]: "I p \<Longrightarrow> I (notifyChange m p)"
  by (simp add: notifyChange_def Let_def)

lemma I_click_header: "I p \<Longrightarrow> I (click_header cls v p)"
  by (simp add: click_header_def I_showMode Let_def)

lemma I_click_span: "I p \<Longrightarrow> I (click_span m v p)"
  by (simp add: click_span_def I_showMode Let_def)

lemma I_click_day: "I p \<Longrightarrow> I (click_day txt old new m v p)"
  by (simp add: click_day_def split_beta Let_def)

lemma I_click: "I p \<Longrightarrow> I (click tg p)"
  by (simp add: click_def I_click_header I_click_span I_click_day Let_def split: option.split target_kind.split)

lemma I_step: "picker_step p q \<Longrightarrow> I p \<Longrightarrow> I q"
  by (induction rule: picker_step.induct)
    (simp_all add: I_click I_hide doAction_def keydown_def show_picker_def setDate_def Let_def)

lemma I_init:
  assumes "init e opts d isInput component s = Inr p"
    "I (showMode 0 (set_up e (dataToOptions d opts) isInput component s))"
  shows "I p"
proof -
  let ?p = "set_up e (dataToOptions d opts) isInput component s"
  have "I (attachDatePickerEvents (showMode 0 (update (init_tables (init_dates ?p)))))"
    using assms(2) frame [of "attachDatePickerEvents (showMode 0 (update (init_tables (init_dates ?p))))"
      "showMode 0 ?p"] core_showMode [of "update (init_tables (init_dates ?p))" ?p 0]
    by (simp add: core_simps)
  with assms(1) show ?thesis by (auto simp: init_def set_up_def Let_def split: if_splits)
qed

lemma I_reachable:
  assumes "reachable e opts d p"
    "\<And>isInput component s. I (showMode 0 (set_up e (dataToOptions d opts) isInput component s))"
  shows "I p"
  using assms(1) by (induction rule: reachable.induct) (auto intro: I_step I_init [OF _ assms(2)])

end

text \<open>The view mode is one of the three and not below the least one; the view of that mode is shown.\<close>

definition view_inv :: "picker \<Rightarrow> bool" where
  "view_inv p \<longleftrightarrow> p_minViewMode p \<le> p_viewMode p \<and> p_viewMode p \<le> 2 \<and>
     p_minViewMode p \<le> p_startViewMode p \<and> p_startViewMode p \<le> 2 \<and>
     p_shown p = vm_clsName (modes ! p_viewMode p)"

lemma showMode_establishes:
  assumes "p_minViewMode p \<le> p_viewMode p" "p_viewMode p \<le> 2" "p_minViewMode p \<le> p_startViewMode p"
    "p_startViewMode p \<le> 2"
  shows "view_inv (showMode dir p)"
  using assms by (auto simp: view_inv_def showMode_def mode_at_def Let_def)

interpretation view: picker_invariant view_inv
proof
  show "view_inv p = view_inv q" if "core p = core q" for p q
    using that by (simp add: view_inv_def core_def)
  show "view_inv (hide p)" if "view_inv p" for p
  proof -
    let ?p = "p\<lparr>p_open := False, p_viewMode := p_startViewMode p\<rparr>"
    have "view_inv (showMode 0 ?p)"
      using that by (intro showMode_establishes) (simp_all add: view_inv_def)
    then show ?thesis
      using that by (simp add: hide_def view_inv_def trigger_def detachDatePickerGlobalEvents_def Let_def)
  qed
  show "view_inv (showMode dir p)" if "view_inv p" for dir p
    using that by (intro showMode_establishes) (simp_all add: view_inv_def)
qed

text \<open>The options and the format stay as they were set up.\<close>

definition cfg_inv :: "options \<Rightarrow> picker \<Rightarrow> bool" where
  "cfg_inv o' p \<longleftrightarrow> p_options p = o' \<and> p_minViewMode p = mode_of (o_minViewMode o') \<and>
     p_use24hours p = uses_24_hours (p_format p)"

interpretation cfg: picker_invariant "cfg_inv o'" for o'
  by unfold_locales (auto simp: cfg_inv_def core_def hide_def showMode_def trigger_def
      detachDatePickerGlobalEvents_def Let_def)

text \<open>
  C10. In every state that a picker reaches by its operations, whatever dates they are called with, the view
  mode is days, months or years, not below the configured least one, and the view of that mode is the one
  that is shown. The options are those of the construction, with a date or a time picker among them.
\<close>

theorem reachable_view:
  assumes "reachable e opts d p" "mode_of (o_minViewMode opts) \<le> 2" "mode_of (o_viewMode opts) \<le> 2"
  shows "mode_of (o_minViewMode opts) \<le> p_viewMode p \<and> p_viewMode p \<le> 2 \<and>
    p_shown p = [''days'', ''months'', ''years''] ! p_viewMode p \<and>
    p_options p = dataToOptions d opts \<and> (o_pickTime (p_options p) \<or> o_pickDate (p_options p))"
proof -
  let ?o = "dataToOptions d opts"
  have "view_inv (showMode 0 (set_up e ?o isInput component s))" for isInput component s
    using assms(2,3) by (intro showMode_establishes) (simp_all add: set_up_sel dataToOptions_def)
  then have v: "view_inv p" by (rule view.I_reachable [OF assms(1)])
  have "cfg_inv ?o (showMode 0 (set_up e ?o isInput component s))" for isInput component s
    by (simp add: showMode_def cfg_inv_def set_up_sel Let_def)
  then have c: "cfg_inv ?o p" by (rule cfg.I_reachable [OF assms(1)])
  have "p_viewMode p = 0 \<or> p_viewMode p = 1 \<or> p_viewMode p = 2" using v by (auto simp: view_inv_def)
  then have "vm_clsName (modes ! p_viewMode p) = [''days'', ''months'', ''years''] ! p_viewMode p"
    by (auto simp: modes_def)
  moreover have "o_pickTime ?o \<or> o_pickDate ?o" using assms(1) by (rule reachable_options)
  moreover have "o_minViewMode ?o = o_minViewMode opts" by (simp add: dataToOptions_def)
  ultimately show ?thesis using v c by (simp add: view_inv_def cfg_inv_def)
qed

text \<open>An input element without data attributes.\<close>

definition no_data :: edata where
  "no_data = \<lparr>ed_dateFormat = None, ed_datePickdate = None, ed_datePicktime = None, ed_dateUseminutes = None,
     ed_dateUseseconds = None, ed_dateUsecurrent = None, ed_calendarWeeks = None, ed_dateMinutestepping = None,
     ed_dateMindate = None, ed_dateMaxdate = None, ed_dateShowtoday = None, ed_dateCollapse = None,
     ed_dateLanguage = None, ed_dateDefaultdate = None, ed_dateDisableddates = None, ed_dateEnableddates = None,
     ed_dateIcons = None, ed_dateUsestrict = None, ed_dateDirection = None, ed_dateSidebyside = None,
     ed_dateDaysofweekdisabled = None\<rparr>"

lemma init_defaults: "\<exists>p. init host (defaults host) no_data isInput component s = Inr p"
  by (simp add: init_def dataToOptions_def no_data_def defaults_def Let_def)

theorem reachable_view_witness:
  "\<exists>p. init host (defaults host) no_data True False '''' = Inr p \<and>
     p_viewMode (click \<lparr>tg_kind = Header ''picker-switch'', tg_disabled = False\<rparr> p) \<le> 2"
proof -
  obtain p where p: "init host (defaults host) no_data True False '''' = Inr p" using init_defaults by blast
  then have "reachable host (defaults host) no_data (click \<lparr>tg_kind = Header ''picker-switch'', tg_disabled = False\<rparr> p)"
    by (rule reach_step [OF reach_init picker_step.step_click])
  moreover have "mode_of (o_minViewMode (defaults host)) \<le> 2" "mode_of (o_viewMode (defaults host)) \<le> 2"
    by (simp_all add: defaults_def)
  ultimately show ?thesis using p reachable_view by blast
qed

section \<open>Handlers\<close>

abbreviation escape_handler :: handler where
  "escape_handler \<equiv> (''element'', ''keydown'', ''keydown'')"

definition own_handlers :: "picker \<Rightarrow> handler list" where
  "own_handlers p = p_handlers (attachDatePickerEvents (p\<lparr>p_handlers := []\<rparr>))"

lemma not_detached: "\<not> detached p escape_handler"
  by (simp add: detached_def)

lemma own_handlers_detached: "filter (\<lambda>h. \<not> detached p h) (own_handlers p) = [escape_handler]"
  by (cases "o_pickDate (p_options p) \<and> o_pickTime (p_options p)"; cases "p_isInput p"; cases "p_component p")
    (simp_all add: own_handlers_def attachDatePickerEvents_def detached_def)

lemma own_handlers_cong [simp]: "own_handlers (p\<lparr>p_handlers := hs\<rparr>) = own_handlers p"
    "own_handlers (p\<lparr>p_disabled := b\<rparr>) = own_handlers p"
  by (simp_all add: own_handlers_def attachDatePickerEvents_def)

lemma attach_eq: "attachDatePickerEvents p = p\<lparr>p_handlers := p_handlers p @ own_handlers p\<rparr>"
  by (simp add: own_handlers_def attachDatePickerEvents_def)

lemma disable_enable_once:
  assumes "\<not> p_disabled p" "p_handlers p = replicate n escape_handler @ own_handlers p"
  shows "enable (disable p) = p\<lparr>p_handlers := escape_handler # p_handlers p\<rparr>"
proof -
  have d: "detached (p\<lparr>p_disabled := True\<rparr>) = detached p" by (simp add: detached_def fun_eq_iff)
  have "filter (\<lambda>h. \<not> detached p h) (p_handlers p) = replicate n escape_handler @ [escape_handler]"
    unfolding assms(2) by (simp add: own_handlers_detached not_detached filter_replicate)
  then show ?thesis
    using assms by (simp add: enable_def disable_def detachDatePickerEvents_def attach_eq d replicate_app_Cons_same)
qed

text \<open>
  Disabling and enabling a picker does not give the handlers back as they were: the handler of the
  Escape key is attached by every \<open>enable\<close> and detached by no \<open>disable\<close>, so that after \<open>n\<close> rounds it is
  bound \<open>n + 1\<close> times. Nothing else of the picker changes.
\<close>

theorem escape_handler_accumulates:
  assumes "\<not> p_disabled p" "p_handlers p = own_handlers p"
  shows "((\<lambda>q. enable (disable q)) ^^ n) p =
    p\<lparr>p_handlers := replicate n (''element'', ''keydown'', ''keydown'') @ p_handlers p\<rparr>"
proof (induction n)
  case (Suc n)
  then show ?case
    using assms disable_enable_once [of "p\<lparr>p_handlers := replicate n escape_handler @ p_handlers p\<rparr>" n] by simp
qed simp

theorem escape_handler_accumulates_witness:
  "p_handlers (((\<lambda>q. enable (disable q)) ^^ 2) (attachDatePickerEvents (new_picker host (defaults host) True False ''''))) =
     replicate 2 escape_handler @ own_handlers (new_picker host (defaults host) True False '''')"
proof -
  have "\<not> p_disabled (attachDatePickerEvents (new_picker host (defaults host) True False ''''))"
    "p_handlers (attachDatePickerEvents (new_picker host (defaults host) True False '''')) =
      own_handlers (attachDatePickerEvents (new_picker host (defaults host) True False ''''))"
    "own_handlers (attachDatePickerEvents (new_picker host (defaults host) True False '''')) =
      own_handlers (new_picker host (defaults host) True False '''')"
    by (simp_all add: attach_eq, simp_all add: new_picker_def)
  then show ?thesis using escape_handler_accumulates by simp
qed

section \<open>Setting the value\<close>

lemma date_kept [simp]: "p_date (use_language p) = p_date p" "p_date (trigger ev p) = p_date p"
    "p_date (showMode dir p) = p_date p" "p_date (fillTime p) = p_date p"
    "p_unset (use_language p) = p_unset p" "p_unset (trigger ev p) = p_unset p"
    "p_unset (showMode dir p) = p_unset p" "p_unset (fillTime p) = p_unset p"
    "p_events (use_language p) = p_events p" "p_events (fillTime p) = p_events p"
    "p_errored (use_language p) = p_errored p" "p_errored (fillTime p) = p_errored p"
  by (simp_all add: use_language_def trigger_def showMode_def fillTime_def Let_def)

lemma fillDate_kept [simp]: "p_date (fillDate p) = p_date p" "p_unset (fillDate p) = p_unset p"
    "p_events (fillDate p) = p_events p" "p_errored (fillDate p) = p_errored p"
  by (simp_all add: fillDate_def Let_def split: option.split)

lemma hide_kept [simp]: "p_date (hide p) = p_date p" "p_unset (hide p) = p_unset p" "p_errored (hide p) = p_errored p"
  by (simp_all add: hide_def detachDatePickerGlobalEvents_def showMode_def trigger_def Let_def)

lemma set_input_kept [simp]: "p_date (set_input p) = p_date p" "p_unset (set_input p) = p_unset p"
    "p_errored (set_input p) = p_errored p"
  by (simp_all add: set_input_def Let_def)

text \<open>
  \<open>setValue\<close> of a moment: a valid one becomes the date of the picker, in the language of the picker,
  and \<open>getDate\<close> returns it; an invalid one leaves the date as it was, marks the picker as errored and
  triggers an error event with that moment.
\<close>

theorem setValue_moment:
  "(let v = value_moment (use_language p) (PvMoment m); q = setValue (PvMoment m) p in
    if fst (isValid m)
    then p_date q = v \<and> m_d v = m_d m \<and> m_isUTC v = m_isUTC m \<and> getDate q = Some (clone v)
    else p_date q = p_date p \<and> p_errored q \<and> (\<exists>x. p_events q = p_events p @ [DpError x] \<and> m_d x = Option.bind (m_d m) TimeClip))"
proof -
  have v: "fst (isValid (value_moment p (PvMoment m))) = fst (isValid m)"
    "m_d (value_moment p (PvMoment m)) = m_d m" "m_isUTC (value_moment p (PvMoment m)) = m_isUTC m" for p
    by (auto simp: value_moment_def set_moment_locale_def isValid_def Let_def split: sum.splits option.splits)
  have u: "value_moment (p\<lparr>p_unset := b\<rparr>) x = value_moment p x" for p b x
    by (simp add: value_moment_def pv_moment_def split: pvalue.split)
  show ?thesis
    by (simp add: setValue_def is_falsy_def u v getDate_def notifyError_def trigger_def pv_moment_def clone_def Let_def)
qed

section \<open>Hours\<close>

lemma number_rows_cells:
  "label \<in> set (concat (number_rows n start step)) \<Longrightarrow>
     \<exists>k < 4 * n. label = padLeft (nat_str (start + step * k))"
proof -
  assume "label \<in> set (concat (number_rows n start step))"
  then obtain i j where "i < n" "j < 4" "label = padLeft (nat_str (start + step * (4 * i + j)))"
    by (auto simp: number_rows_def)
  then show ?thesis by (intro exI [of _ "4 * i + j"]) simp
qed

lemma parseInt_padLeft: "h < 24 \<Longrightarrow> parseInt (padLeft (nat_str h)) = Some (int h)"
proof -
  have "list_all (\<lambda>h. parseInt (padLeft (nat_str h)) = Some (int h)) [0..<24]" by code_simp
  then show "h < 24 \<Longrightarrow> parseInt (padLeft (nat_str h)) = Some (int h)" by (simp add: list_all_iff)
qed

lemma num_str_nat: "num_str (Some (int h)) = nat_str h"
  by (simp add: num_str_def int_str_def)

text \<open>
  Selecting an hour in the table of hours, of a clock with 24 or with 12 hours: the hour that is set is
  one of the day, it is displayed as the text of the cell that was hit, and on a clock with 12 hours it
  is in the same half of the day as the hour before.
\<close>

theorem select_hour_shown:
  assumes "label \<in> set (concat (fillHours use24))" "0 \<le> c" "c < 24"
  shows "\<exists>r. selected_hour use24 (Some c) (parseInt label) = Some r \<and> 0 \<le> r \<and> r < 24 \<and>
    hour_text use24 (Some r) = label \<and> (\<not> use24 \<longrightarrow> (12 \<le> r \<longleftrightarrow> 12 \<le> c))"
proof (cases use24)
  case True
  with assms number_rows_cells [of label 6 0 1] obtain h where "h < 24" "label = padLeft (nat_str h)"
    by (auto simp: fillHours_def)
  with True show ?thesis
    by (intro exI [of _ "int h"]) (simp add: selected_hour_def hour_text_def parseInt_padLeft num_str_nat)
next
  case False
  with assms number_rows_cells [of label 3 1 1] obtain k where "k < 12" "label = padLeft (nat_str (1 + k))"
    by (auto simp: fillHours_def)
  then obtain h where h: "1 \<le> h" "h \<le> 12" "label = padLeft (nat_str h)" by (metis Suc_leI le_add1 plus_1_eq_Suc)
  define r where "r = (if 12 \<le> c then (if h = 12 then 12 else int h + 12) else if h = 12 then 0 else int h)"
  have "selected_hour False (Some c) (parseInt label) = Some r"
    using h by (auto simp: selected_hour_def parseInt_padLeft nle_def r_def)
  moreover have "hour_text False (Some r) = label"
  proof -
    have "js_mod (int h + 12) 12 = int h" "js_mod (int h) 12 = int h" if "h < 12"
      using that by (simp_all add: js_mod_pos)
    then show ?thesis
      using h by (auto simp: hour_text_def r_def num_str_nat simp flip: num_str_nat)
  qed
  moreover have "0 \<le> r" "r < 24" "12 \<le> r \<longleftrightarrow> 12 \<le> c" using h by (auto simp: r_def)
  ultimately show ?thesis using False by auto
qed

theorem select_hour_shown_witness:
  "\<exists>r. selected_hour False (Some 15) (parseInt ''12'') = Some r \<and> 0 \<le> r \<and> r < 24 \<and> hour_text False (Some r) = ''12''"
proof -
  have "''12'' \<in> set (concat (fillHours False))" by code_simp
  from select_hour_shown [OF this, of 15] show ?thesis by auto
qed

section \<open>Stepping the time\<close>

lemma clone_idem: "m_d m = Some t \<Longrightarrow> TimeClip t = Some t \<Longrightarrow> clone (clone m) = clone m"
  by (simp add: clone_def)

lemma add_hour:
  assumes "m_d m = Some t" "TimeClip (t + k * 3600000) = Some (t + k * 3600000)" "k \<noteq> 0"
  shows "add e m k ''hours'' = m\<lparr>m_d := Some (t + k * 3600000)\<rparr>"
    "subtract e m (- k) ''hours'' = m\<lparr>m_d := Some (t + k * 3600000)\<rparr>"
  using assms
  by (simp_all add: add_def subtract_def addOrSubtractDurationFromMoment_def dur_unit_names dur_units
      date_set_time_def nadd_def Let_def)

text \<open>
  The check of the buttons that step the time forward looks at the wrong date: the call that should
  compute the date before the step changes the new date itself, so that the date before the step is what
  is tested against the limits. From an enabled date the hour moves on, past the latest date, too.
\<close>

theorem increment_unchecked:
  assumes "m_d (p_date p) = Some t" "TimeClip t = Some t" "TimeClip (t + 3600000) = Some (t + 3600000)"
    "hours (p_env (use_language p)) (p_date p) \<noteq> Some 23"
    "\<not> isInDisableDates (use_language p) (clone (p_date p)) None"
  shows "m_d (p_date (do_action IncrementHours p)) = Some (t + 3600000) \<and>
    p_errored (do_action IncrementHours p) = p_errored p"
proof -
  let ?p = "use_language p"
  let ?c = "clone (p_date p)"
  have c: "m_d ?c = Some t" "m_isUTC ?c = m_isUTC (p_date p)" using assms(1,2) by (simp_all add: clone_def)
  have h: "hours (p_env ?p) ?c \<noteq> Some 23"
    using assms(1,4) c by (simp add: rawGetter_def clock_of_def)
  have "subtract (p_env ?p) (add (p_env ?p) ?c 1 ''hours'') 1 ''hours'' = ?c"
    using add_hour(1) [OF c(1), of 1] add_hour(2) [of "?c\<lparr>m_d := Some (t + 3600000)\<rparr>" "t + 3600000" "-1"]
      assms(2,3) c(1) by simp
  then have "checked_date DirAdd ''hours'' 1 ?p = ?c" using h by (simp add: checked_date_def Let_def)
  then show ?thesis
    using assms clone_idem [OF assms(1,2)] add_hour(1) [OF assms(1), of 1]
    by (simp add: checkDate_def step_date_def Let_def)
qed

text \<open>A picker whose date is its latest date.\<close>

definition late_picker :: picker where
  "late_picker = (new_picker host (defaults host) True False '''')
     \<lparr>p_date := sample False 1409439600000, p_minDate := sample False 1409439600000,
      p_maxDate := sample False 1409439600000\<rparr>"

lemma nrel_irrefl: "\<not> ngt x x" "\<not> nlt x x"
  by (cases x, simp_all add: ngt_def nlt_def)+

lemma use_language_zone [simp]: "e_zone (p_env (use_language p)) = e_zone (p_env p)"
  by (simp add: use_language_def moment_locale_def use_locale_def Let_def split: option.splits)

theorem increment_unchecked_witness:
  "m_d (p_date (do_action IncrementHours late_picker)) = Some 1409443200000 \<and>
   m_d (p_maxDate late_picker) = Some 1409439600000"
proof -
  have t: "TimeClip 1409439600000 = Some 1409439600000" "TimeClip (1409439600000 + 3600000) = Some (1409439600000 + 3600000)"
    "date_get (Local (e_zone host)) Hours (Some 1409439600000) \<noteq> Some 23"
    by code_simp+
  have "\<not> isInDisableDates (use_language late_picker) (clone (p_date late_picker)) None"
    by (simp add: isInDisableDates_def late_picker_def new_picker_def use_language_def isAfter_def isBefore_def
        nrel_irrefl Let_def)
  with increment_unchecked [of late_picker, OF _ t(1,2)] t(3) show ?thesis
    by (simp add: late_picker_def new_picker_def rawGetter_def clock_of_def)
qed

section \<open>Template\<close>

lemma date_template_actions: "concat (map data_actions (date_template w)) = []"
  by (simp add: date_template_def div_class_def condensed_def headTemplate_def contTemplate_def)

lemma time_template_actions: "set (concat (map data_actions (time_template p))) \<subseteq> set action_names"
  by (cases "o_useMinutes (p_options p)"; cases "o_useSeconds (p_options p)"; cases "p_use24hours p")
    (simp_all add: time_template_def div_class_def condensed_def button_row_def time_row_def hourTemplate_def
      minuteTemplate_def secondTemplate_def action_button_def separator_def action_names_def)

text \<open>
  Every action that the template of the widget names is one of the table of actions, for all
  options, so that a click on an element of the widget always finds a function.
\<close>

theorem template_actions: "set (data_actions (getTemplate p)) \<subseteq> set action_names"
  using time_template_actions [of p] date_template_actions [of "o_calendarWeeks (p_options p)"]
  by (auto simp: getTemplate_def div_class_def li_collapse_def Let_def)

end
