(* ===== verification/Picker_Grid.thy ===== *)
theory Picker_Grid
  imports Picker_Layout Moment_Calendar
begin

text \<open>
  The grid of days of the picker: six rows of seven consecutive days that contain the month of the
  view, and the day that a click on a cell of the grid selects. Moments are followed by their wall
  time on a steady clock.
\<close>

section \<open>Consecutive days\<close>

lemma date_of_next: "date_of (w + msPerDay) \<noteq> date_of w"
proof -
  let ?y = "year_of w" and ?m = "month_of w" and ?d = "date_of w" and ?s = "TimeWithinDay w"
  have s: "0 \<le> ?s" "?s < msPerDay" by (simp_all add: TimeWithinDay_def)
  have w: "w + k * msPerDay = MakeDate (MakeDay ?y ?m (?d + k)) ?s" for k
    using set_date_add [of w k] by simp
  have v: "valid_ymd ?y ?m ?d" by simp
  note r = month_of_range [of w] month_length_range [of "InLeapYear ?y" ?m]
  show ?thesis
  proof (cases "?d < month_length (InLeapYear ?y) ?m")
    case True
    then have "valid_ymd ?y ?m (?d + 1)" using v by (simp add: valid_ymd_def)
    from date_fields_MakeDate(3) [OF s this] w [of 1] show ?thesis by simp
  next
    case False
    then have d: "?d = month_length (InLeapYear ?y) ?m" using v by (simp add: valid_ymd_def)
    have "MakeDay ?y ?m (?d + 1) = MakeDay ?y (?m + 1) 1"
      using MakeDay_month_step [of ?y ?m] MakeDay_add [of ?y ?m 1 ?d] d r(1,2)
      by (simp add: add.commute div_pos_pos_trivial)
    also have "\<dots> = MakeDay (?y + (?m + 1) div 12) ((?m + 1) mod 12) 1" by (rule MakeDay_month_carry)
    finally have "w + msPerDay = MakeDate (MakeDay (?y + (?m + 1) div 12) ((?m + 1) mod 12) 1) ?s"
      using w [of 1] by simp
    moreover have "valid_ymd (?y + (?m + 1) div 12) ((?m + 1) mod 12) 1" by (rule first_valid) simp_all
    ultimately have "date_of (w + msPerDay) = 1" using date_fields_MakeDate(3) [OF s] by simp
    with d r show ?thesis by simp
  qed
qed

lemma WeekDay_add_days: "WeekDay (w + k * msPerDay) = (WeekDay w + k) mod 7"
  unfolding WeekDay_def Day_add_days by (simp add: mod_simps algebra_simps)

lemma YearFromDay_near:
  assumes "\<bar>d' - d\<bar> \<le> 365"
  shows "YearFromDay d - 1 \<le> YearFromDay d'" "YearFromDay d' \<le> YearFromDay d + 1"
proof -
  have "YearFromDay a \<le> YearFromDay b + 1" if "a - b \<le> 365" for a b
  proof (rule ccontr)
    assume "\<not> YearFromDay a \<le> YearFromDay b + 1"
    then have "DayFromYear (YearFromDay b + 1) + 365 \<le> DayFromYear (YearFromDay a)"
      using DayFromYear_mono [of "YearFromDay b + 1" "YearFromDay a"] by simp
    with that YearFromDay_lower [of a] YearFromDay_upper [of b] show False by simp
  qed
  moreover have "d - d' \<le> 365" "d' - d \<le> 365" using assms by linarith+
  ultimately have "YearFromDay d \<le> YearFromDay d' + 1" "YearFromDay d' \<le> YearFromDay d + 1" by blast+
  then show "YearFromDay d - 1 \<le> YearFromDay d'" "YearFromDay d' \<le> YearFromDay d + 1" by simp_all
qed

text \<open>The first wall time of the grid of the month of \<open>w\<close>: the week of the day before the first.\<close>

definition grid_w :: "int \<Rightarrow> int \<Rightarrow> int" where
  "grid_w dow w = start_w dow ''week'' (MakeDate (MakeDay (year_of w) (month_of w) 0) 0)"

lemma grid_w_day:
  "grid_w dow w = MakeDate (MakeDay (year_of w) (month_of w) 0 -
     (WeekDay (MakeDate (MakeDay (year_of w) (month_of w) 0) 0) + 7 - dow) mod 7) 0"
  by (simp add: grid_w_def start_w_def)

lemma WeekDay_start_week: "dow \<in> {0..6} \<Longrightarrow> WeekDay (start_w dow ''week'' x) = dow"
proof -
  assume "dow \<in> {0..6}"
  then have dow: "(dow - 7) mod 7 = dow" using mod_add_self2 [of "dow - 7" 7] by simp
  have "(D - ((D + 4) mod 7 + 7 - dow) mod 7 + 4) mod 7 = dow" for D :: int
  proof -
    have "((D + 4) mod 7 + 7 - dow) mod 7 = (D + 4 + (7 - dow)) mod 7"
      using mod_add_left_eq [of "D + 4" 7 "7 - dow"] by (simp add: algebra_simps)
    then have "(D - ((D + 4) mod 7 + 7 - dow) mod 7 + 4) mod 7 = (D + 4 - (D + 4 + (7 - dow)) mod 7) mod 7"
      by (simp add: algebra_simps)
    also have "\<dots> = (dow - 7) mod 7" by (subst mod_diff_right_eq) simp
    finally show ?thesis using dow by simp
  qed
  then show ?thesis by (simp add: start_w_def WeekDay_def)
qed

lemma WeekDay_grid_w: "dow \<in> {0..6} \<Longrightarrow> WeekDay (grid_w dow w) = dow"
  unfolding grid_w_def by (rule WeekDay_start_week)

lemma grid_w_bounds:
  "MakeDay (year_of w) (month_of w) 0 - 6 \<le> Day (grid_w dow w)"
  "Day (grid_w dow w) \<le> MakeDay (year_of w) (month_of w) 0"
  by (simp_all add: grid_w_day)

lemma Day_first: "Day w = MakeDay (year_of w) (month_of w) 0 + date_of w"
  using MakeDay_fields [of "Day w"] MakeDay_add [of "year_of w" "month_of w" 0 "date_of w"]
  by (simp add: get_field.simps)

lemma grid_year_ok:
  assumes "100 < year_of w" "year_of w < 270000" "i \<le> 42"
  shows "year_ok (year_of (grid_w dow w + int i * msPerDay))"
proof -
  have "\<bar>Day (grid_w dow w) + int i - Day w\<bar> \<le> 365"
    using grid_w_bounds [of w dow] grid_w_bounds(2) [of dow w] Day_first [of w] date_of_pos [of w] assms(3) by linarith
  from YearFromDay_near [OF this] assms(1,2) show ?thesis
    by (simp add: get_field.simps Day_add_days year_ok_def)
qed

lemma month_day_index:
  assumes "1 \<le> d" "d \<le> 28"
  shows "year_of (MakeDate (MakeDay y n d) 0) * 12 + month_of (MakeDate (MakeDay y n d) 0) = y * 12 + n"
proof -
  have "valid_ymd (y + n div 12) (n mod 12) d"
    using assms month_length_range(1) [of "InLeapYear (y + n div 12)" "n mod 12"] by (simp add: valid_ymd_def)
  then have "year_of (MakeDate (MakeDay y n d) 0) = y + n div 12" "month_of (MakeDate (MakeDay y n d) 0) = n mod 12"
    unfolding MakeDay_month_carry [of y n d] by (simp_all add: cal_simps)
  then show ?thesis by (simp add: algebra_simps)
qed

lemma grid_month_index:
  assumes "0 \<le> k" "k \<le> 41"
  shows "year_of w * 12 + month_of w - 1 \<le> year_of (grid_w dow w + k * msPerDay) * 12 + month_of (grid_w dow w + k * msPerDay)"
    "year_of (grid_w dow w + k * msPerDay) * 12 + month_of (grid_w dow w + k * msPerDay) \<le> year_of w * 12 + month_of w + 1"
proof -
  let ?y = "year_of w" and ?m = "month_of w" and ?k = "grid_w dow w + k * msPerDay"
  note ml = month_length_range(1) [of "InLeapYear (?y + (?m - 1) div 12)" "(?m - 1) mod 12"]
    month_length_range(1) [of "InLeapYear (?y + ?m div 12)" "?m mod 12"]
  have d: "Day ?k = Day (grid_w dow w) + k" by (rule Day_add_days)
  have s: "MakeDay ?y ?m 1 = MakeDay ?y ?m 0 + 1" "MakeDay ?y (?m + 1) 28 = MakeDay ?y (?m + 1) 1 + 27"
    using MakeDay_add [of ?y ?m 0 1] MakeDay_add [of ?y "?m + 1" 1 27] by simp_all
  have "MakeDay ?y (?m - 1) 1 \<le> Day ?k"
    using d s(1) grid_w_bounds(1) [of w dow] MakeDay_month_step [of ?y "?m - 1"] ml(1) assms by simp
  then have "MakeDate (MakeDay ?y (?m - 1) 1) 0 \<le> ?k"
    using before_day [of ?k "MakeDay ?y (?m - 1) 1"] wall_split [of ?k] by (simp add: MakeDate_def)
  from month_index_le [OF this] month_day_index [of 1 ?y "?m - 1"]
  show "?y * 12 + ?m - 1 \<le> year_of ?k * 12 + month_of ?k" by simp
  have "Day ?k < MakeDay ?y (?m + 1) 28"
    using d s grid_w_bounds(2) [of dow w] MakeDay_month_step [of ?y ?m] ml(2) assms by simp
  from month_index_le [OF less_imp_le [OF before_day [OF this]]] month_day_index [of 28 ?y "?m + 1"]
  show "year_of ?k * 12 + month_of ?k \<le> ?y * 12 + ?m + 1" by simp
qed

section \<open>The rows of the grid\<close>

definition nth_day :: "env \<Rightarrow> moment \<Rightarrow> nat \<Rightarrow> moment" where
  "nth_day e m k = ((\<lambda>m. add e m 1 ''d'') ^^ k) m"

definition row_start :: "picker \<Rightarrow> moment \<Rightarrow> cal_row" where
  "row_start p m =
     \<lparr>cr_week = (if o_calendarWeeks (p_options p) then Some (week (p_env p) m) else None), cr_cells = []\<rparr>"

text \<open>The rows after the first \<open>k\<close> days, and the same row by row.\<close>

fun rows_upto :: "picker \<Rightarrow> num \<Rightarrow> num \<Rightarrow> moment \<Rightarrow> nat \<Rightarrow> cal_row list" where
  "rows_upto p yr mo m 0 = []"
| "rows_upto p yr mo m (Suc k) =
     (let d = nth_day (p_env p) m k; rows = rows_upto p yr mo m k
      in add_cell (if k mod 7 = 0 then rows @ [row_start p d] else rows) (day_cell_of p d yr mo))"

definition week_row :: "picker \<Rightarrow> num \<Rightarrow> num \<Rightarrow> moment \<Rightarrow> nat \<Rightarrow> nat \<Rightarrow> cal_row" where
  "week_row p yr mo m i n =
     (row_start p (nth_day (p_env p) m (7 * i)))
       \<lparr>cr_cells := map (\<lambda>j. day_cell_of p (nth_day (p_env p) m (7 * i + j)) yr mo) [0..<n]\<rparr>"

lemma add_cell_last: "add_cell (rows @ [r]) c = rows @ [r\<lparr>cr_cells := cr_cells r @ [c]\<rparr>]"
  by (simp add: add_cell_def)

lemma week_row_Suc:
  "week_row p yr mo m i (Suc j) = (week_row p yr mo m i j)\<lparr>cr_cells := cr_cells (week_row p yr mo m i j) @
     [day_cell_of p (nth_day (p_env p) m (7 * i + j)) yr mo]\<rparr>"
  by (simp add: week_row_def row_start_def)

lemma week_row_0: "week_row p yr mo m i 0 = row_start p (nth_day (p_env p) m (7 * i))"
  by (simp add: week_row_def row_start_def)

lemma rows_upto_week:
  assumes "rows_upto p yr mo m (7 * i) = xs" "j < 7"
  shows "rows_upto p yr mo m (7 * i + Suc j) = xs @ [week_row p yr mo m i (Suc j)]"
  using assms(2)
proof (induction j)
  case 0
  then show ?case using assms(1) by (simp add: week_row_Suc week_row_0 add_cell_last Let_def)
next
  case (Suc j)
  then have "(7 * i + Suc j) mod 7 = Suc j" by simp
  with Suc show ?case
    by (simp only: add_Suc_right [of _ "Suc j"] rows_upto.simps)
      (simp add: week_row_Suc [of _ _ _ _ _ "Suc j"] add_cell_last Let_def)
qed

lemma rows_upto_weeks: "rows_upto p yr mo m (7 * i) = map (\<lambda>i. week_row p yr mo m i 7) [0..<i]"
proof (induction i)
  case (Suc i)
  have "Suc 6 = 7" "7 * i + 7 = 7 * Suc i" by simp_all
  with rows_upto_week [OF Suc, of 6] show ?case by simp
qed simp

section \<open>The loop over the days\<close>

context steady_mode
begin

lemma at_weekday:
  assumes "mom_at e u m w" "l_dow (m_locale m) \<in> {0..6}"
  shows "weekday e m = Some ((WeekDay w + 7 - l_dow (m_locale m)) mod 7)"
  using at_day [OF assms(1)] assms(2) WeekDay_range [of w] by (simp add: weekday_def js_mod_pos)

lemma at_next_day:
  assumes "mom_at e u m w" "year_ok (year_of (w + msPerDay))"
  shows "mom_at e u (add e m 1 ''d'') (w + msPerDay)"
  using at_add_days [OF assms(1), of 1] assms(2) by (simp add: add_num_def)

lemma fill_step:
  assumes m: "mom_at e u m w" and nm: "mom_at e u nextm wn" "m_offset nextm = m_offset m" "w < wn"
    and dow: "l_dow (m_locale m) = dow" "dow \<in> {0..6}"
    and now: "weekday e (startOf e ''week'' (moment_now e)) = Some 0"
    and ok: "year_ok (year_of (w + msPerDay))" and p: "p_env p = e"
  shows "fill_days (Suc n) p yr mo m nextm rows =
    fill_days n p yr mo (add e m 1 ''d'') nextm
      (add_cell (if WeekDay w = dow
         then rows @ [\<lparr>cr_week = (if o_calendarWeeks (p_options p) then Some (week e m) else None), cr_cells = []\<rparr>]
         else rows) (day_cell_of p m yr mo))"
proof -
  have b: "isBefore e m nextm ''millisecond''" using at_compare(2) [OF m nm(1,2)] nm(3) by simp
  have "WeekDay w = dow \<longleftrightarrow> (WeekDay w + 7 - dow) mod 7 = 0"
    using dow(2) WeekDay_range [of w] by simp presburger
  then have s: "neq (weekday e m) (weekday e (startOf e ''week'' (moment_now e))) \<longleftrightarrow> WeekDay w = dow"
    using at_weekday [OF m] dow now by (simp add: neq_def)
  have "\<not> neq (date e m) (date e (add e m 1 ''d''))"
    using at_get [OF m, of Date] at_get [OF at_next_day [OF m ok], of Date] date_of_next [of w]
    by (simp add: neq_def)
  with b s p show ?thesis by (simp add: Let_def)
qed

lemma at_nth_day:
  assumes "mom_at e u m w" "\<forall>i \<le> k. year_ok (year_of (w + int i * msPerDay))"
  shows "mom_at e u (nth_day e m k) (w + int k * msPerDay)"
  using assms(2)
proof (induction k)
  case 0
  then show ?case using assms(1) by (simp add: nth_day_def)
next
  case (Suc k)
  then have "mom_at e u (nth_day e m k) (w + int k * msPerDay)" by simp
  from at_next_day [OF this] Suc.prems [rule_format, of "Suc k"] show ?case
    by (simp add: nth_day_def algebra_simps)
qed

lemma moves_nth_day: "moves m (nth_day e m k)"
  by (induction k) (simp_all add: nth_day_def moves_add_trans)

lemma fill_rows:
  assumes m: "mom_at e u m w" "WeekDay w = dow" and dow: "l_dow (m_locale m) = dow"
    and ok: "\<forall>i \<le> 42. year_ok (year_of (w + int i * msPerDay))"
    and nm: "mom_at e u nextm (w + 42 * msPerDay)" "m_offset nextm = m_offset m"
    and now: "weekday e (startOf e ''week'' (moment_now e)) = Some 0" and p: "p_env p = e"
  shows "k + n = 42 \<Longrightarrow> fill_days (n + r) p yr mo (nth_day e m k) nextm (rows_upto p yr mo m k) =
    rows_upto p yr mo m 42"
proof (induction n arbitrary: k)
  case 0
  then have "mom_at e u (nth_day e m k) (w + 42 * msPerDay)" using at_nth_day [OF m(1), of 42] ok by simp
  then have "\<not> isBefore e (nth_day e m k) nextm ''millisecond''"
    using at_compare(2) [OF _ nm(1), of "nth_day e m k"] nm(2) moves_sel(1) [OF moves_nth_day] by simp
  then show ?case using 0 p by (cases r) simp_all
next
  case (Suc n)
  let ?d = "nth_day e m k"
  have d: "mom_at e u ?d (w + int k * msPerDay)" using Suc.prems ok by (intro at_nth_day m) simp
  have sel: "m_offset ?d = m_offset m" "m_locale ?d = m_locale m" using moves_sel [OF moves_nth_day] by simp_all
  have dow': "dow \<in> {0..6}" using m(2) WeekDay_range [of w] by auto
  have wd: "WeekDay (w + int k * msPerDay) = dow \<longleftrightarrow> k mod 7 = 0"
    unfolding WeekDay_add_days m(2) using dow' by simp presburger
  have "year_ok (year_of (w + int k * msPerDay + msPerDay))"
    using ok [rule_format, of "Suc k"] Suc.prems by (simp add: algebra_simps)
  then have "fill_days (Suc (n + r)) p yr mo ?d nextm (rows_upto p yr mo m k) =
      fill_days (n + r) p yr mo (nth_day e m (Suc k)) nextm (rows_upto p yr mo m (Suc k))"
    using fill_step [OF d nm(1), where dow = dow and p = p] sel dow dow' now nm(2) p wd Suc.prems
    by (simp add: nth_day_def row_start_def Let_def)
  with Suc.IH [of "Suc k"] Suc.prems show ?case by simp
qed

lemma at_grid_start:
  assumes v: "mom_at e u v w" "l_dow (m_locale v) = dow" "dow \<in> {0..6}"
    and y: "100 < year_of w" "year_of w < 270000"
  shows "mom_at e u (grid_start e v) (grid_w dow w)"
proof -
  let ?n = "month_of w - 1"
  let ?y = "year_of w + ?n div 12" and ?m = "?n mod 12"
  let ?prev = "subtract e (clone v) 1 ''months''"
  let ?days = "month_length (InLeapYear ?y) ?m"
  let ?last = "set_field Date ?days (set_month_w ?n w)"
  have n: "-1 \<le> ?n div 12" "?n div 12 \<le> 0" using month_of_range [of w] by (simp_all add: div_pos_pos_trivial)
  have "?prev = add_num e (clone v) (Some (-1)) ''M''"
    by (simp add: subtract_def add_num_def add_def addOrSubtractDurationFromMoment_def dur_units dur_unit_names Let_def)
  then have p: "mom_at e u ?prev (set_month_w ?n w)"
    using at_add_months [OF at_clone [OF v(1)], of "-1"] y n by (simp add: clamp_ok_def year_ok_def)
  have "valid_ymd ?y ?m ?days" using month_length_range [of "InLeapYear ?y" ?m] by (simp add: valid_ymd_def)
  then have last: "Day ?last = MakeDay ?y ?m ?days" "year_of ?last = ?y"
    using wall_split [of w] by (simp_all add: set_month_w_fields cal_simps)
  have "moment_daysInMonth e ?prev = Some ?days"
    using at_get [OF p] daysInMonth_eq [of ?m ?y] y n
    by (simp add: moment_daysInMonth_def daysInMonth_num_def set_month_w_fields year_ok_def)
  then have "mom_at e u (rawSetter e ?prev Date (moment_daysInMonth e ?prev)) ?last"
    using at_set [OF p, of Date ?days] last y n by (simp add: year_ok_def del: set_field.simps)
  moreover have loc: "m_locale (rawSetter e ?prev Date (moment_daysInMonth e ?prev)) = m_locale v"
    using moves_sel(3) [OF moves_rawSetter_trans [OF moves_add(2)]] by (simp add: clone_def)
  moreover have "MakeDay ?y ?m ?days = MakeDay (year_of w) (month_of w) 0"
    using MakeDay_month_step [of "year_of w" ?n] MakeDay_month_carry [of "year_of w" ?n 1]
      MakeDay_add [of "year_of w" "month_of w" 0 1] MakeDay_add [of ?y ?m 1 "?days - 1"] by simp
  then have "start_w dow ''week'' ?last = grid_w dow w"
    using last by (simp add: grid_w_def start_w_def WeekDay_def del: set_field.simps)
  ultimately show ?thesis
    using at_startOf [of "rawSetter e ?prev Date (moment_daysInMonth e ?prev)" ?last dow "''week''"] v(2,3)
      grid_year_ok [OF y, of 0 dow]
    by (simp add: grid_start_def norm_unit_names Let_def del: set_field.simps)
qed

end

section \<open>The grid of a picker\<close>

text \<open>
  What the grid relies on: the host's clock runs steadily, the view date and the present are in range,
  and the week of the language starts on a day of the week.
\<close>

definition grid_ready :: "picker \<Rightarrow> moment \<Rightarrow> int \<Rightarrow> bool" where
  "grid_ready p v w \<longleftrightarrow> steady_clock (mode_clock (p_env p) False) \<and> mom_at (p_env p) False v w \<and>
     100 < year_of w \<and> year_of w < 270000 \<and> m_locale v = e_locale (p_env p) \<and>
     l_dow (e_locale (p_env p)) \<in> {0..6} \<and>
     mom_at (p_env p) False (moment_now (p_env p)) (to_wall (Local (e_zone (p_env p))) (e_now (p_env p))) \<and>
     \<bar>year_of (to_wall (Local (e_zone (p_env p))) (e_now (p_env p)))\<bar> < 270000"

definition grid_day :: "picker \<Rightarrow> int \<Rightarrow> nat \<Rightarrow> nat \<Rightarrow> int" where
  "grid_day p w i j = grid_w (l_dow (e_locale (p_env p))) w + int (7 * i + j) * msPerDay"

lemma now_week_start:
  assumes "steady_mode e u" "mom_at e u m w" "l_dow (m_locale m) \<in> {0..6}" "\<bar>year_of w\<bar> < 270000"
  shows "weekday e (startOf e ''week'' m) = Some 0"
proof -
  let ?dow = "l_dow (m_locale m)"
  let ?s = "start_w ?dow ''week'' w"
  have s: "?s = MakeDate (Day w - (WeekDay w + 7 - ?dow) mod 7) 0" by (simp add: start_w_def)
  then have "\<bar>Day ?s - Day w\<bar> \<le> 365"
    using pos_mod_bound [of 7 "WeekDay w + 7 - ?dow"] pos_mod_sign [of 7 "WeekDay w + 7 - ?dow"] by simp
  from YearFromDay_near [OF this] assms(4) have "year_ok (year_of ?s)"
    by (simp add: get_field.simps year_ok_def abs_less_iff)
  with assms have "mom_at e u (startOf e ''week'' m) ?s"
    using gapless_mode.at_startOf [of e u m w ?dow "''week''"] assms(1)
    by (simp add: norm_unit_names gapless_mode_def steady_mode_def steady_clock_def)
  moreover have "m_locale (startOf e ''week'' m) = m_locale m" by (simp add: moves_sel(3) [OF moves_startOf])
  moreover have "(WeekDay ?s + 7 - ?dow) mod 7 = 0" by (simp only: WeekDay_start_week [OF assms(3)]) simp
  ultimately show ?thesis using steady_mode.at_weekday [OF assms(1), of "startOf e ''week'' m" ?s] assms(3) by simp
qed

lemma grid_rows:
  assumes "grid_ready p v w"
  shows "v_rows (date_view_of p v) =
    map (\<lambda>i. week_row p (Some (year_of w)) (Some (month_of w)) (grid_start (p_env p) v) i 7) [0..<6]"
proof -
  let ?e = "p_env p" and ?dow = "l_dow (e_locale (p_env p))"
  let ?g = "grid_start ?e v"
  have sm: "steady_mode ?e False" and v: "mom_at ?e False v w" and y: "100 < year_of w" "year_of w < 270000"
    and l: "m_locale v = e_locale ?e" "?dow \<in> {0..6}"
    using assms by (simp_all add: grid_ready_def steady_mode_def)
  have nl: "m_locale (moment_now ?e) = e_locale ?e"
    by (simp add: moment_now_def Moment_def now_config_def checkOverflow_def Let_def)
  have now: "weekday ?e (startOf ?e ''week'' (moment_now ?e)) = Some 0"
    using assms nl by (intro now_week_start [OF sm]) (auto simp: grid_ready_def)
  have g: "mom_at ?e False ?g (grid_w ?dow w)" using steady_mode.at_grid_start [OF sm v _ _ y] l by simp
  have gl: "m_locale ?g = e_locale ?e"
    unfolding grid_start_def Let_def using l(1)
    by (simp add: moves_sel(3) [OF moves_startOf] moves_sel(3) [OF moves_rawSetter] moves_sel(3) [OF moves_add(2)]
        clone_def)
  have gm: "gapless_mode ?e False" using sm by (simp add: gapless_mode_def steady_mode_def steady_clock_def)
  have nx: "mom_at ?e False (add ?e (clone ?g) 42 ''d'') (grid_w ?dow w + 42 * msPerDay)"
    using gapless_mode.at_add_days [OF gm gapless_mode.at_clone [OF gm g], of 42] grid_year_ok [OF y, of 42 ?dow]
    by (simp add: add_num_def)
  have off: "m_offset (add ?e (clone ?g) 42 ''d'') = m_offset ?g"
    by (simp add: moves_sel(1) [OF moves_add(1)] clone_def)
  have "fill_days 42 p (Some (year_of w)) (Some (month_of w)) ?g (add ?e (clone ?g) 42 ''d'') [] =
      rows_upto p (Some (year_of w)) (Some (month_of w)) ?g (7 * 6)"
    using steady_mode.fill_rows [OF sm g _ _ _ nx off now, of ?dow p 0 42 0] gl grid_year_ok [OF y]
      WeekDay_grid_w [OF l(2)]
    by (simp add: nth_day_def)
  moreover have "year ?e v = Some (year_of w)" "month ?e v = Some (month_of w)"
    using gapless_mode.at_get [OF gm v] by simp_all
  ultimately show ?thesis
    by (simp only: date_view_of_def Let_def date_view.simps rows_upto_weeks)
qed

lemma grid_cell:
  assumes "grid_ready p v w" "i < 6" "j < 7"
  obtains m where "cr_cells (v_rows (date_view_of p v) ! i) ! j =
      day_cell_of p m (Some (year_of w)) (Some (month_of w))"
    "mom_at (p_env p) False m (grid_day p w i j)" "gapless_mode (p_env p) False"
proof -
  let ?e = "p_env p"
  have sm: "steady_mode ?e False" and v: "mom_at ?e False v w" and y: "100 < year_of w" "year_of w < 270000"
    and l: "m_locale v = e_locale ?e" "l_dow (e_locale ?e) \<in> {0..6}"
    using assms by (simp_all add: grid_ready_def steady_mode_def)
  have "mom_at ?e False (nth_day ?e (grid_start ?e v) (7 * i + j)) (grid_day p w i j)"
    unfolding grid_day_def using steady_mode.at_grid_start [OF sm v _ _ y] l grid_year_ok [OF y] assms(2,3)
    by (intro steady_mode.at_nth_day [OF sm]) auto
  moreover have "cr_cells (v_rows (date_view_of p v) ! i) ! j =
      day_cell_of p (nth_day ?e (grid_start ?e v) (7 * i + j)) (Some (year_of w)) (Some (month_of w))"
    using assms by (simp add: grid_rows week_row_def)
  ultimately show ?thesis
    using that sm by (simp add: gapless_mode_def steady_mode_def steady_clock_def)
qed

text \<open>A picker on a host one hour ahead of UTC that shows August 2014.\<close>

definition aug_picker :: picker where
  "aug_picker = new_picker host (defaults host) True False ''''"

definition aug_view :: moment where
  "aug_view = (sample False 1407020400000)\<lparr>m_locale := e_locale host\<rparr>"

lemma aug_day: "grid_day aug_picker 1407024000000 i j = 1406419200000 + int (7 * i + j) * msPerDay"
proof -
  have "grid_w 0 1407024000000 = 1406419200000" "l_dow (e_locale host) = 0" by code_simp+
  then show ?thesis by (simp add: grid_day_def aug_picker_def new_picker_def)
qed

lemma aug_ready: "grid_ready aug_picker aug_view 1407024000000"
proof -
  have e: "p_env aug_picker = host" by (simp add: aug_picker_def new_picker_def)
  have "year_of 1407024000000 = 2014" "l_dow (e_locale host) = 0" "wall_time host aug_view = Some 1407024000000"
    "wall_time host (moment_now host) = Some 1400003600000" "year_of 1400003600000 = 2014"
    "to_wall (Local (e_zone host)) (e_now host) = 1400003600000" "\<not> m_isUTC (moment_now host)"
    by code_simp+
  then show ?thesis
    unfolding grid_ready_def e by (simp add: host_steady mom_at_def year_ok_def aug_view_def)
qed

text \<open>
  C11. The days view has six rows of seven cells, with the dates of 42 consecutive days. They start on the
  first day of the week, and the whole month of the view date is among them, as is the day before it.
\<close>

theorem grid_complete:
  assumes "grid_ready p v w"
  shows "length (v_rows (date_view_of p v)) = 6 \<and>
    (\<forall>i < 6. length (cr_cells (v_rows (date_view_of p v) ! i)) = 7) \<and>
    (\<forall>i < 6. \<forall>j < 7. dc_text (cr_cells (v_rows (date_view_of p v) ! i) ! j) = Some (date_of (grid_day p w i j))) \<and>
    WeekDay (grid_day p w 0 0) = l_dow (e_locale (p_env p)) \<and>
    Day (grid_day p w 0 0) < MakeDay (year_of w) (month_of w) 1 \<and>
    MakeDay (year_of w) (month_of w + 1) 1 \<le> Day (grid_day p w 5 6)"
proof (intro conjI allI impI)
  let ?dow = "l_dow (e_locale (p_env p))"
  fix i j :: nat
  assume ij: "i < 6" "j < 7"
  show "dc_text (cr_cells (v_rows (date_view_of p v) ! i) ! j) = Some (date_of (grid_day p w i j))"
    using assms ij
  proof (rule grid_cell)
    fix m assume "cr_cells (v_rows (date_view_of p v) ! i) ! j = day_cell_of p m (Some (year_of w)) (Some (month_of w))"
      "mom_at (p_env p) False m (grid_day p w i j)" "gapless_mode (p_env p) False"
    then show ?thesis using gapless_mode.at_get [of "p_env p" False m] by (simp add: day_cell_of_def Let_def)
  qed
next
  let ?dow = "l_dow (e_locale (p_env p))"
  have 1: "MakeDay (year_of w) (month_of w) 1 = MakeDay (year_of w) (month_of w) 0 + 1"
    using MakeDay_add [of "year_of w" "month_of w" 0 1] by simp
  show "Day (grid_day p w 0 0) < MakeDay (year_of w) (month_of w) 1"
    using grid_w_bounds(2) [of ?dow w] 1 by (simp add: grid_day_def)
  show "MakeDay (year_of w) (month_of w + 1) 1 \<le> Day (grid_day p w 5 6)"
    using grid_w_bounds(1) [of w ?dow] MakeDay_month_step [of "year_of w" "month_of w"] 1
      month_length_range(2) [of "InLeapYear (year_of w + month_of w div 12)" "month_of w mod 12"]
    by (simp add: grid_day_def Day_add_days [of _ 41, simplified])
  show "WeekDay (grid_day p w 0 0) = ?dow"
    using assms WeekDay_grid_w by (simp add: grid_day_def grid_ready_def)
qed (use assms in \<open>simp_all add: grid_rows week_row_def\<close>)

theorem grid_complete_witness:
  "length (v_rows (date_view_of aug_picker aug_view)) = 6 \<and>
   dc_text (cr_cells (v_rows (date_view_of aug_picker aug_view) ! 0) ! 0) = Some 27 \<and>
   dc_text (cr_cells (v_rows (date_view_of aug_picker aug_view) ! 5) ! 6) = Some 6"
proof -
  have "date_of 1406419200000 = 27" "date_of 1409961600000 = 6" by code_simp+
  then have "date_of (grid_day aug_picker 1407024000000 0 0) = 27" "date_of (grid_day aug_picker 1407024000000 5 6) = 6"
    by (simp_all add: aug_day)
  with grid_complete [OF aug_ready] show ?thesis by simp
qed

text \<open>
  From the class of a cell (old, new or neither) and the month of the view, a click computes the month
  and the year of the day that the cell shows; with the text of the cell this is that very day.
\<close>

theorem grid_click_day:
  assumes "grid_ready p v w" "i < 6" "j < 7"
  shows "(let c = cr_cells (v_rows (date_view_of p v) ! i) ! j in
    day_month (month (p_env p) v) (year (p_env p) v) (dc_old c) (dc_new c) =
      (Some (month_of (grid_day p w i j)), Some (year_of (grid_day p w i j))))"
  using assms
proof (rule grid_cell)
  let ?e = "p_env p" and ?k = "grid_day p w i j" and ?dow = "l_dow (e_locale (p_env p))"
  fix m assume m: "cr_cells (v_rows (date_view_of p v) ! i) ! j = day_cell_of p m (Some (year_of w)) (Some (month_of w))"
    "mom_at ?e False m ?k" "gapless_mode ?e False"
  have v: "year ?e v = Some (year_of w)" "month ?e v = Some (month_of w)"
    using gapless_mode.at_get [OF m(3), of v] assms(1) by (simp_all add: grid_ready_def)
  have near: "year_of w * 12 + month_of w - 1 \<le> year_of ?k * 12 + month_of ?k"
    "year_of ?k * 12 + month_of ?k \<le> year_of w * 12 + month_of w + 1"
    using grid_month_index [where w = w and dow = ?dow and k = "int (7 * i + j)"] assms(2,3) by (simp_all add: grid_day_def)
  show ?thesis
    using near month_of_range [of w] month_of_range [of ?k] gapless_mode.at_get [OF m(3,2)]
    by (auto simp: m(1) v day_cell_of_def day_month_def nlt_def ngt_def neq_def Let_def)
qed

theorem grid_click_day_witness:
  "(let c = cr_cells (v_rows (date_view_of aug_picker aug_view) ! 5) ! 6 in
    day_month (month (p_env aug_picker) aug_view) (year (p_env aug_picker) aug_view) (dc_old c) (dc_new c) =
      (Some 8, Some 2014))"
proof -
  have "month_of 1409961600000 = 8" "year_of 1409961600000 = 2014" by code_simp+
  then have "month_of (grid_day aug_picker 1407024000000 5 6) = 8" "year_of (grid_day aug_picker 1407024000000 5 6) = 2014"
    by (simp_all add: aug_day)
  with grid_click_day [OF aug_ready, of 5 6] show ?thesis by simp
qed

end
