(* ===== verification/Page.thy ===== *)
theory Page
  imports Js_Prelude
begin

text \<open>
  What the Bootstrap plugins see of the page: the classes of an element, whether the browser supports
  CSS transitions, which events a listener of the page prevents, and the end of a transition
  (\<open>transition-3.2.0.js\<close>).

  The listeners and the browser are not part of the scripts: they are the parameters \<open>pg_prevent\<close> and
  \<open>pg_transition\<close>, arbitrary in all theorems that do not say otherwise.
\<close>

section \<open>Classes\<close>

type_synonym classes = "string list"

definition hasClass :: "string \<Rightarrow> classes \<Rightarrow> bool" where
  "hasClass c cs \<longleftrightarrow> c \<in> set cs"

definition addClass :: "string \<Rightarrow> classes \<Rightarrow> classes" where
  "addClass c cs = (if c \<in> set cs then cs else cs @ [c])"

definition removeClass :: "string \<Rightarrow> classes \<Rightarrow> classes" where
  "removeClass c cs = filter (\<lambda>x. x \<noteq> c) cs"

definition toggleClass :: "string \<Rightarrow> classes \<Rightarrow> classes" where
  "toggleClass c cs = (if hasClass c cs then removeClass c cs else addClass c cs)"

lemma hasClass_simps [simp]:
  "hasClass c (addClass d cs) \<longleftrightarrow> c = d \<or> hasClass c cs"
  "hasClass c (removeClass d cs) \<longleftrightarrow> c \<noteq> d \<and> hasClass c cs"
  "\<not> hasClass c []"
  by (auto simp: hasClass_def addClass_def removeClass_def)

lemma hasClass_toggle [simp]: "hasClass c (toggleClass d cs) \<longleftrightarrow> (if c = d then \<not> hasClass c cs else hasClass c cs)"
  by (simp add: toggleClass_def)

lemma filter_upt_eq: "i < n \<Longrightarrow> filter (\<lambda>k. k = i) [0..<n] = [i]"
  by (induction n) (auto simp: less_Suc_eq)

lemma filter_upt_single: "filter P [0..<n] = [i] \<longleftrightarrow> i < n \<and> (\<forall>k < n. P k \<longleftrightarrow> k = i)"
proof
  assume a: "filter P [0..<n] = [i]"
  then have "set (filter P [0..<n]) = {i}" by simp
  then show "i < n \<and> (\<forall>k < n. P k \<longleftrightarrow> k = i)" by auto
next
  assume a: "i < n \<and> (\<forall>k < n. P k \<longleftrightarrow> k = i)"
  then have "filter P [0..<n] = filter (\<lambda>k. k = i) [0..<n]" by (intro filter_cong) auto
  with a show "filter P [0..<n] = [i]" by (simp add: filter_upt_eq)
qed

section \<open>Host\<close>

text \<open>\<open>pg_prevent n ev\<close>: a listener prevents the default of event \<open>ev\<close> on element number \<open>n\<close>.\<close>

record page =
  pg_transition :: bool
  pg_prevent :: "nat \<Rightarrow> string \<Rightarrow> bool"

section \<open>Machines\<close>

text \<open>
  A plugin is a machine: calls, clicks, timers and ends of transitions are its steps, and come in any
  order. What every step keeps holds in all states that steps reach.
\<close>

locale machine =
  fixes step :: "'s \<Rightarrow> 's \<Rightarrow> bool"
    and inv :: "'s \<Rightarrow> bool"
  assumes keeps: "step s s' \<Longrightarrow> inv s \<Longrightarrow> inv s'"
begin

lemma reachable: "step\<^sup>*\<^sup>* s s' \<Longrightarrow> inv s \<Longrightarrow> inv s'"
  by (induction rule: rtranclp_induct) (auto intro: keeps)

end

section \<open>Transitions\<close>

definition transEndEventNames :: "(string \<times> string) list" where
  "transEndEventNames =
     [(''WebkitTransition'', ''webkitTransitionEnd''), (''MozTransition'', ''transitionend''),
      (''OTransition'', ''oTransitionEnd otransitionend''), (''transition'', ''transitionend'')]"

text \<open>\<open>transitionEnd\<close>: the event of the first style property the browser has; \<open>None\<close> is \<open>false\<close>.\<close>

fun first_supported :: "(string \<Rightarrow> bool) \<Rightarrow> (string \<times> string) list \<Rightarrow> string option" where
  "first_supported has [] = None"
| "first_supported has ((name, ev) # rest) = (if has name then Some ev else first_supported has rest)"

definition transitionEnd :: "(string \<Rightarrow> bool) \<Rightarrow> string option" where
  "transitionEnd has = first_supported has transEndEventNames"

text \<open>
  \<open>emulateTransitionEnd\<close> after \<open>one('bsTransitionEnd', complete)\<close>: both handlers run at the first end of
  the transition and are gone then; the timer triggers the event when it has not come before.
\<close>

record emulation =
  em_complete :: bool
  em_called :: bool
  em_timer :: bool
  em_runs :: nat

definition emulateTransitionEnd :: emulation where
  "emulateTransitionEnd = \<lparr>em_complete = True, em_called = False, em_timer = True, em_runs = 0\<rparr>"

datatype em_event = TransitionEnds bool | TimerFires

text \<open>An end of a transition of a child bubbles up: its target is another element.\<close>

definition end_event :: "emulation \<Rightarrow> emulation" where
  "end_event s =
     (if em_complete s then s\<lparr>em_complete := False, em_called := True, em_runs := em_runs s + 1\<rparr> else s)"

fun em_step :: "emulation \<Rightarrow> em_event \<Rightarrow> emulation" where
  "em_step s (TransitionEnds own) = (if own then end_event s else s)"
| "em_step s TimerFires =
     (if em_timer s
      then (let s = s\<lparr>em_timer := False\<rparr> in if em_called s then s else end_event s)
      else s)"

text \<open>The completion is bound until it runs, and the timer is set as long as it is bound.\<close>

definition em_inv :: "emulation \<Rightarrow> bool" where
  "em_inv s \<longleftrightarrow> em_called s = (\<not> em_complete s) \<and> em_runs s = (if em_complete s then 0 else 1) \<and>
     (em_complete s \<longrightarrow> em_timer s)"

lemma em_inv_step: "em_inv s \<Longrightarrow> em_inv (em_step s ev)"
  by (cases ev) (auto simp: em_inv_def end_event_def Let_def)

interpretation emulation: machine "\<lambda>s s'. \<exists>ev. s' = em_step s ev" em_inv
  by unfold_locales (auto simp: em_inv_step)

lemma em_run: "(\<lambda>s s'. \<exists>ev. s' = em_step s ev)\<^sup>*\<^sup>* s (foldl em_step s evs)"
proof (induction evs rule: rev_induct)
  case (snoc ev evs)
  then show ?case by (auto intro: rtranclp.rtrancl_into_rtrancl)
qed simp

lemmas em_inv_run = emulation.reachable [OF em_run]

lemma em_done_step: "em_inv s \<Longrightarrow> \<not> em_complete s \<Longrightarrow> \<not> em_complete (em_step s ev)"
  by (cases ev) (auto simp: em_inv_def end_event_def Let_def)

lemma em_done_run: "em_inv s \<Longrightarrow> \<not> em_complete s \<Longrightarrow> \<not> em_complete (foldl em_step s evs)"
  by (induction evs arbitrary: s) (simp_all add: em_inv_step em_done_step)

lemma em_timer_completes: "em_inv s \<Longrightarrow> \<not> em_complete (em_step s TimerFires)"
  by (auto simp: em_inv_def end_event_def Let_def)

text \<open>
  Whatever ends of transitions the browser reports, of the element or of children, before or after
  the timer fires: the completion of a transition never runs twice, and once the timer has fired it has
  run exactly once.
\<close>

theorem emulate_once:
  "em_runs (foldl em_step emulateTransitionEnd evs) \<le> 1 \<and>
   (TimerFires \<in> set evs \<longrightarrow> em_runs (foldl em_step emulateTransitionEnd evs) = 1)"
proof -
  have start: "em_inv emulateTransitionEnd" by (simp add: em_inv_def emulateTransitionEnd_def)
  have "\<not> em_complete (foldl em_step emulateTransitionEnd evs)" if "TimerFires \<in> set evs"
  proof -
    from that obtain a b where "evs = a @ TimerFires # b" by (meson split_list)
    then show ?thesis
      using em_inv_run [OF start, of a] by (simp add: em_done_run em_inv_step em_timer_completes del: em_step.simps)
  qed
  with em_inv_run [OF start, of evs] show ?thesis by (auto simp: em_inv_def)
qed

theorem emulate_once_witness:
  "em_runs (foldl em_step emulateTransitionEnd [TransitionEnds False, TimerFires, TransitionEnds True]) = 1"
  using emulate_once [of "[TransitionEnds False, TimerFires, TransitionEnds True]"] by (simp del: foldl_Cons)

end
