(* ===== verification/Bootstrap_Collapse.thy ===== *)
theory Bootstrap_Collapse
  imports Page
begin

text \<open>
  \<open>collapse-3.2.0.js\<close>: panels that open and close, alone or as the group of one parent in which opening a
  panel closes the others (an accordion). A panel that is opening or closing waits for the end of its
  transition; the completion that is pending then is kept in the panel.
\<close>

section \<open>Data\<close>

datatype completion = ShowComplete | HideComplete

datatype size = SizeAuto | SizeZero | SizeContent

text \<open>The Collapse object of an element.\<close>

record collapse =
  ci_transitioning :: bool
  ci_parent :: bool

text \<open>
  A panel: \<open>pn_toggle\<close> is the option \<open>toggle\<close> from its data attributes, \<open>pn_data\<close> its Collapse object and
  \<open>pn_pending\<close> the completions to come, each with whether it belongs to that object.
\<close>

record panel =
  pn_classes :: classes
  pn_toggle :: bool
  pn_data :: "collapse option"
  pn_size :: size
  pn_pending :: "(bool \<times> completion) list"

text \<open>An element that opens and closes a panel when it is clicked.\<close>

record trigger_element =
  te_target :: nat
  te_parent :: bool
  te_classes :: classes

record accordion =
  ac_panels :: "panel list"
  ac_triggers :: "trigger_element list"
  ac_log :: "(nat \<times> string) list"

section \<open>Operations\<close>

definition upd_panel :: "nat \<Rightarrow> (panel \<Rightarrow> panel) \<Rightarrow> accordion \<Rightarrow> accordion" where
  "upd_panel i f ac = ac\<lparr>ac_panels := (ac_panels ac)[i := f (ac_panels ac ! i)]\<rparr>"

definition log_event :: "nat \<Rightarrow> string \<Rightarrow> accordion \<Rightarrow> accordion" where
  "log_event i ev ac = ac\<lparr>ac_log := ac_log ac @ [(i, ev)]\<rparr>"

definition set_transitioning :: "bool \<Rightarrow> panel \<Rightarrow> panel" where
  "set_transitioning b p = p\<lparr>pn_data := map_option (\<lambda>c. c\<lparr>ci_transitioning := b\<rparr>) (pn_data p)\<rparr>"

definition is_transitioning :: "panel \<Rightarrow> bool" where
  "is_transitioning p = (case pn_data p of None \<Rightarrow> False | Some c \<Rightarrow> ci_transitioning c)"

definition has_parent :: "panel \<Rightarrow> bool" where
  "has_parent p = (case pn_data p of None \<Rightarrow> False | Some c \<Rightarrow> ci_parent c)"

text \<open>The functions \<open>complete\<close>; that of an object which was dropped resets a flag nobody reads.\<close>

definition complete :: "bool \<times> completion \<Rightarrow> nat \<Rightarrow> accordion \<Rightarrow> accordion" where
  "complete c i ac =
     (let reset = (if fst c then set_transitioning False else id) in
      case snd c of
        ShowComplete \<Rightarrow>
          log_event i ''shown.bs.collapse'' (upd_panel i (\<lambda>p. reset
            (p\<lparr>pn_classes := addClass ''in'' (addClass ''collapse'' (removeClass ''collapsing'' (pn_classes p))),
               pn_size := SizeAuto\<rparr>)) ac)
      | HideComplete \<Rightarrow>
          upd_panel i (\<lambda>p. p\<lparr>pn_classes := addClass ''collapse'' (removeClass ''collapsing'' (pn_classes p))\<rparr>)
            (log_event i ''hidden.bs.collapse'' (upd_panel i reset ac)))"

text \<open>The rest of \<open>show\<close> and \<open>hide\<close> once the transition is under way.\<close>

definition start_transition :: "page \<Rightarrow> completion \<Rightarrow> size \<Rightarrow> nat \<Rightarrow> accordion \<Rightarrow> accordion" where
  "start_transition pg c sz i ac =
     (if \<not> pg_transition pg then complete (True, c) i ac
      else upd_panel i (\<lambda>p. p\<lparr>pn_size := sz, pn_pending := pn_pending p @ [(True, c)]\<rparr>) ac)"

definition hide_panel :: "page \<Rightarrow> nat \<Rightarrow> accordion \<Rightarrow> accordion" where
  "hide_panel pg i ac =
     (let p = ac_panels ac ! i in
      if is_transitioning p \<or> \<not> hasClass ''in'' (pn_classes p) then ac
      else
        (let ac = log_event i ''hide.bs.collapse'' ac in
         if pg_prevent pg i ''hide.bs.collapse'' then ac
         else start_transition pg HideComplete SizeZero i
                (upd_panel i (\<lambda>p. set_transitioning True
                  (p\<lparr>pn_size := SizeContent,
                     pn_classes := removeClass ''in'' (removeClass ''collapse'' (addClass ''collapsing'' (pn_classes p)))\<rparr>)) ac)))"

text \<open>
  \<open>Plugin_collapse.call(actives, 'hide')\<close>: an element without an object gets one, without a parent, whose
  constructor toggles it; having the class \<open>in\<close> it is hidden by that. Afterwards \<open>hide\<close> is called.
\<close>

definition hide_active :: "page \<Rightarrow> nat \<Rightarrow> accordion \<Rightarrow> accordion" where
  "hide_active pg i ac =
     (let ac = (if pn_data (ac_panels ac ! i) = None
                then (let ac = upd_panel i (\<lambda>p. p\<lparr>pn_data := Some \<lparr>ci_transitioning = False, ci_parent = False\<rparr>\<rparr>) ac
                      in if pn_toggle (ac_panels ac ! i) then hide_panel pg i ac else ac)
                else ac)
      in hide_panel pg i ac)"

definition drop_data :: "nat \<Rightarrow> accordion \<Rightarrow> accordion" where
  "drop_data i ac = upd_panel i (\<lambda>p. p\<lparr>pn_data := None, pn_pending := map (\<lambda>(_, c). (False, c)) (pn_pending p)\<rparr>) ac"

definition actives :: "accordion \<Rightarrow> nat list" where
  "actives ac = filter (\<lambda>j. hasClass ''in'' (pn_classes (ac_panels ac ! j))) [0..<length (ac_panels ac)]"

text \<open>
  Closing the other panels in \<open>show\<close>. \<open>actives.data('bs.collapse')\<close> is the object of the first of them;
  \<open>None\<close> as a result stands for the early return.
\<close>

definition close_actives :: "page \<Rightarrow> accordion \<Rightarrow> accordion option" where
  "close_actives pg ac =
     (case actives ac of
        [] \<Rightarrow> Some ac
      | j # js \<Rightarrow>
          if is_transitioning (ac_panels ac ! j) then None
          else
            (let hasData = (pn_data (ac_panels ac ! j) \<noteq> None);
                 ac = fold (hide_active pg) (j # js) ac
             in Some (if hasData then ac else fold drop_data (j # js) ac)))"

definition show_panel :: "page \<Rightarrow> nat \<Rightarrow> accordion \<Rightarrow> accordion" where
  "show_panel pg i ac =
     (let p = ac_panels ac ! i in
      if is_transitioning p \<or> hasClass ''in'' (pn_classes p) then ac
      else
        (let ac = log_event i ''show.bs.collapse'' ac in
         if pg_prevent pg i ''show.bs.collapse'' then ac
         else case (if has_parent p then close_actives pg ac else Some ac) of
                None \<Rightarrow> ac
              | Some ac \<Rightarrow>
                  start_transition pg ShowComplete SizeContent i
                    (upd_panel i (\<lambda>p. set_transitioning True
                      (p\<lparr>pn_classes := addClass ''collapsing'' (removeClass ''collapse'' (pn_classes p)),
                         pn_size := SizeZero\<rparr>)) ac)))"

definition toggle_panel :: "page \<Rightarrow> nat \<Rightarrow> accordion \<Rightarrow> accordion" where
  "toggle_panel pg i ac =
     (if hasClass ''in'' (pn_classes (ac_panels ac ! i)) then hide_panel pg i ac else show_panel pg i ac)"

text \<open>\<open>new Collapse(element, options)\<close>\<close>

definition new_collapse :: "page \<Rightarrow> bool \<Rightarrow> bool \<Rightarrow> nat \<Rightarrow> accordion \<Rightarrow> accordion" where
  "new_collapse pg tgl parent i ac =
     (let ac = upd_panel i (\<lambda>p. p\<lparr>pn_data := Some \<lparr>ci_transitioning = False, ci_parent = parent\<rparr>\<rparr>) ac
      in if tgl then toggle_panel pg i ac else ac)"

text \<open>
  The argument of the plugin: a method, or the data of a trigger element, whose \<open>toggle\<close> is its own
  attribute (\<open>'collapse'\<close>, which counts as true) and which may name a parent. The panels themselves
  have no attribute for a parent. A name that is no method would throw.
\<close>

datatype collapse_method = MShow | MHide | MToggle

datatype plugin_option = Method collapse_method | TriggerData bool

definition Plugin_collapse :: "page \<Rightarrow> plugin_option \<Rightarrow> nat \<Rightarrow> accordion \<Rightarrow> accordion" where
  "Plugin_collapse pg option i ac =
     (let p = ac_panels ac ! i;
          no_data = (pn_data p = None);
          tgl = (case option of Method _ \<Rightarrow> pn_toggle p | TriggerData _ \<Rightarrow> True);
          parent = (case option of Method _ \<Rightarrow> False | TriggerData b \<Rightarrow> b);
          skip = (no_data \<and> tgl \<and> option = Method MShow);
          ac = (if no_data then new_collapse pg tgl parent i ac else ac)
      in if skip then ac
         else case option of
                Method MShow \<Rightarrow> show_panel pg i ac
              | Method MHide \<Rightarrow> hide_panel pg i ac
              | Method MToggle \<Rightarrow> toggle_panel pg i ac
              | TriggerData _ \<Rightarrow> ac)"

text \<open>A click on trigger element \<open>k\<close>.\<close>

definition click_trigger :: "page \<Rightarrow> nat \<Rightarrow> accordion \<Rightarrow> accordion" where
  "click_trigger pg k ac =
     (let te = ac_triggers ac ! k; i = te_target te; p = ac_panels ac ! i;
          mark = (\<lambda>j t.
            if j = k
            then t\<lparr>te_classes := (if hasClass ''in'' (pn_classes p) then addClass ''collapsed'' (te_classes t)
                                  else removeClass ''collapsed'' (te_classes t))\<rparr>
            else if te_parent te \<and> te_parent t then t\<lparr>te_classes := addClass ''collapsed'' (te_classes t)\<rparr>
            else t);
          ac = (if is_transitioning p then ac
                else ac\<lparr>ac_triggers := map (\<lambda>(j, t). mark j t) (enumerate 0 (ac_triggers ac))\<rparr>)
      in Plugin_collapse pg (if pn_data p \<noteq> None then Method MToggle else TriggerData (te_parent te)) i ac)"

text \<open>The end of the transition of panel \<open>i\<close>: the handlers that wait for it run once, in their order.\<close>

definition end_transition :: "nat \<Rightarrow> accordion \<Rightarrow> accordion" where
  "end_transition i ac =
     (let cs = pn_pending (ac_panels ac ! i)
      in fold (\<lambda>c. complete c i) cs (upd_panel i (\<lambda>p. p\<lparr>pn_pending := []\<rparr>) ac))"

section \<open>Effects on the panels\<close>

abbreviation pan :: "accordion \<Rightarrow> nat \<Rightarrow> panel" where "pan ac i \<equiv> ac_panels ac ! i"

lemma panels_simps [simp]:
  "ac_panels (upd_panel i f ac) = (ac_panels ac)[i := f (ac_panels ac ! i)]"
  "ac_panels (log_event i ev ac) = ac_panels ac"
  by (simp_all add: upd_panel_def log_event_def)

definition complete_eff :: "bool \<times> completion \<Rightarrow> panel \<Rightarrow> panel" where
  "complete_eff c p =
     (let reset = (if fst c then set_transitioning False else id) in
      case snd c of
        ShowComplete \<Rightarrow> reset (p\<lparr>pn_classes := addClass ''in'' (addClass ''collapse'' (removeClass ''collapsing''
          (pn_classes p))), pn_size := SizeAuto\<rparr>)
      | HideComplete \<Rightarrow> (reset p)\<lparr>pn_classes := addClass ''collapse'' (removeClass ''collapsing'' (pn_classes (reset p)))\<rparr>)"

lemma panels_complete: "i < length (ac_panels ac) \<Longrightarrow> ac_panels (complete c i ac) = (ac_panels ac)[i := complete_eff c (pan ac i)]"
  by (auto simp: complete_def complete_eff_def set_transitioning_def Let_def split: completion.split)

definition start_eff :: "page \<Rightarrow> completion \<Rightarrow> size \<Rightarrow> panel \<Rightarrow> panel" where
  "start_eff pg c sz p =
     (if pg_transition pg then p\<lparr>pn_size := sz, pn_pending := pn_pending p @ [(True, c)]\<rparr> else complete_eff (True, c) p)"

definition hide_eff :: "page \<Rightarrow> nat \<Rightarrow> panel \<Rightarrow> panel" where
  "hide_eff pg i p =
     (if is_transitioning p \<or> \<not> hasClass ''in'' (pn_classes p) \<or> pg_prevent pg i ''hide.bs.collapse'' then p
      else start_eff pg HideComplete SizeZero (set_transitioning True
        (p\<lparr>pn_size := SizeContent,
           pn_classes := removeClass ''in'' (removeClass ''collapse'' (addClass ''collapsing'' (pn_classes p)))\<rparr>)))"

definition show_eff :: "page \<Rightarrow> panel \<Rightarrow> panel" where
  "show_eff pg p = start_eff pg ShowComplete SizeContent (set_transitioning True
     (p\<lparr>pn_classes := addClass ''collapsing'' (removeClass ''collapse'' (pn_classes p)), pn_size := SizeZero\<rparr>))"

lemma panels_start: "i < length (ac_panels ac) \<Longrightarrow>
    ac_panels (start_transition pg c sz i ac) = (ac_panels ac)[i := start_eff pg c sz (pan ac i)]"
  by (simp add: start_transition_def start_eff_def panels_complete)

lemma panels_hide: "i < length (ac_panels ac) \<Longrightarrow>
    ac_panels (hide_panel pg i ac) = (ac_panels ac)[i := hide_eff pg i (pan ac i)]"
  by (simp add: hide_panel_def hide_eff_def panels_start Let_def)

lemma length_fold:
  assumes "\<And>x ac. length (ac_panels (f x ac)) = length (ac_panels ac)"
  shows "length (ac_panels (fold f xs ac)) = length (ac_panels ac)"
  using assms by (induction xs arbitrary: ac) simp_all

lemma length_panels [simp]:
  "length (ac_panels (complete c i ac)) = length (ac_panels ac)"
  "length (ac_panels (start_transition pg k sz i ac)) = length (ac_panels ac)"
  "length (ac_panels (hide_panel pg i ac)) = length (ac_panels ac)"
  "length (ac_panels (hide_active pg i ac)) = length (ac_panels ac)"
  "length (ac_panels (drop_data i ac)) = length (ac_panels ac)"
  by (simp_all add: complete_def start_transition_def hide_panel_def hide_active_def drop_data_def Let_def
      split: completion.split)

section \<open>The state of a panel\<close>

text \<open>
  A panel is settled, with the class \<open>collapse\<close> and perhaps \<open>in\<close>, or in transition, with the class
  \<open>collapsing\<close> and a completion to come. Its object is transitioning exactly when one of the completions
  is its own.
\<close>

definition panel_inv :: "page \<Rightarrow> panel \<Rightarrow> bool" where
  "panel_inv pg p \<longleftrightarrow>
     (hasClass ''collapse'' (pn_classes p) \<longleftrightarrow> pn_pending p = []) \<and>
     (hasClass ''collapsing'' (pn_classes p) \<longleftrightarrow> pn_pending p \<noteq> []) \<and>
     (hasClass ''in'' (pn_classes p) \<longrightarrow> pn_pending p = []) \<and>
     (is_transitioning p \<longleftrightarrow> True \<in> fst ` set (pn_pending p)) \<and>
     (pg_transition pg \<or> pn_pending p = [])"

definition acc_inv :: "page \<Rightarrow> accordion \<Rightarrow> bool" where
  "acc_inv pg ac \<longleftrightarrow> (\<forall>i < length (ac_panels ac). panel_inv pg (pan ac i))"

lemma acc_inv_upd:
  assumes "acc_inv pg ac" "ac_panels ac' = (ac_panels ac)[i := q]" "i < length (ac_panels ac) \<Longrightarrow> panel_inv pg q"
  shows "acc_inv pg ac'"
  unfolding acc_inv_def
proof (intro allI impI)
  fix j assume "j < length (ac_panels ac')"
  with assms show "panel_inv pg (pan ac' j)" by (cases "j = i") (auto simp: acc_inv_def)
qed

lemma transitioning_simps [simp]:
  "is_transitioning (p\<lparr>pn_classes := cs\<rparr>) = is_transitioning p" "is_transitioning (p\<lparr>pn_size := sz\<rparr>) = is_transitioning p"
  "is_transitioning (p\<lparr>pn_pending := ps\<rparr>) = is_transitioning p"
  "is_transitioning (set_transitioning b p) \<longleftrightarrow> b \<and> pn_data p \<noteq> None"
  "pn_classes (set_transitioning b p) = pn_classes p" "pn_pending (set_transitioning b p) = pn_pending p"
  "pn_toggle (set_transitioning b p) = pn_toggle p" "pn_data (set_transitioning b p) = None \<longleftrightarrow> pn_data p = None"
  by (auto simp: is_transitioning_def set_transitioning_def split: option.splits)

lemma hide_eff_inv: "panel_inv pg p \<Longrightarrow> pn_data p \<noteq> None \<Longrightarrow> panel_inv pg (hide_eff pg i p)"
  by (auto simp: hide_eff_def start_eff_def complete_eff_def panel_inv_def)

lemma show_eff_inv: "panel_inv pg p \<Longrightarrow> pn_data p \<noteq> None \<Longrightarrow> \<not> hasClass ''in'' (pn_classes p) \<Longrightarrow>
    panel_inv pg (show_eff pg p)"
  by (auto simp: show_eff_def start_eff_def complete_eff_def panel_inv_def)

lemma data_eff [simp]: "pn_data (hide_eff pg i p) = None \<longleftrightarrow> pn_data p = None"
  by (simp add: hide_eff_def start_eff_def complete_eff_def Let_def)

lemma acc_inv_hide: "acc_inv pg ac \<Longrightarrow> i < length (ac_panels ac) \<Longrightarrow> pn_data (pan ac i) \<noteq> None \<Longrightarrow>
    acc_inv pg (hide_panel pg i ac)"
  by (rule acc_inv_upd [OF _ panels_hide]) (auto simp: acc_inv_def intro: hide_eff_inv)

lemma new_data_inv: "panel_inv pg p \<Longrightarrow> pn_data p = None \<Longrightarrow>
    panel_inv pg (p\<lparr>pn_data := Some \<lparr>ci_transitioning = False, ci_parent = b\<rparr>\<rparr>)"
  by (auto simp: panel_inv_def is_transitioning_def)

lemma acc_inv_new_data: "acc_inv pg ac \<Longrightarrow> pn_data (pan ac i) = None \<Longrightarrow>
    acc_inv pg (upd_panel i (\<lambda>p. p\<lparr>pn_data := Some \<lparr>ci_transitioning = False, ci_parent = b\<rparr>\<rparr>) ac)"
  by (rule acc_inv_upd) (auto simp: acc_inv_def intro: new_data_inv)

lemma data_hide [simp]: "i < length (ac_panels ac) \<Longrightarrow> pn_data (pan (hide_panel pg i ac) i) = None \<longleftrightarrow> pn_data (pan ac i) = None"
  by (simp add: panels_hide)

lemma acc_inv_hide_active:
  assumes "acc_inv pg ac" "i < length (ac_panels ac)"
  shows "acc_inv pg (hide_active pg i ac)"
proof (cases "pn_data (pan ac i) = None")
  case True
  let ?ac = "upd_panel i (\<lambda>p. p\<lparr>pn_data := Some \<lparr>ci_transitioning = False, ci_parent = False\<rparr>\<rparr>) ac"
  have "acc_inv pg ?ac" "i < length (ac_panels ?ac)" "pn_data (pan ?ac i) \<noteq> None"
    using assms True acc_inv_new_data by simp_all
  then have "acc_inv pg (hide_panel pg i ?ac)" "acc_inv pg (hide_panel pg i (hide_panel pg i ?ac))"
    using acc_inv_hide [of pg ?ac i] acc_inv_hide [of pg "hide_panel pg i ?ac" i] data_hide [of i ?ac pg] by simp_all
  with True show ?thesis by (simp add: hide_active_def Let_def)
qed (use assms in \<open>simp add: hide_active_def acc_inv_hide del: not_None_eq\<close>)

lemma drop_data_inv: "panel_inv pg p \<Longrightarrow>
    panel_inv pg (p\<lparr>pn_data := None, pn_pending := map (\<lambda>(_, c). (False, c)) (pn_pending p)\<rparr>)"
  by (auto simp: panel_inv_def is_transitioning_def)

lemma acc_inv_drop_data: "acc_inv pg ac \<Longrightarrow> acc_inv pg (drop_data i ac)"
  unfolding drop_data_def by (rule acc_inv_upd) (auto simp: acc_inv_def intro: drop_data_inv)

lemma acc_inv_fold:
  assumes "\<And>x ac. acc_inv pg ac \<Longrightarrow> x < length (ac_panels ac) \<Longrightarrow> acc_inv pg (f x ac)"
    "\<And>x ac. length (ac_panels (f x ac)) = length (ac_panels ac)"
  shows "acc_inv pg ac \<Longrightarrow> \<forall>x \<in> set xs. x < length (ac_panels ac) \<Longrightarrow> acc_inv pg (fold f xs ac)"
  using assms by (induction xs arbitrary: ac) simp_all

lemma actives_less: "\<forall>j \<in> set (actives ac). j < length (ac_panels ac)"
  by (auto simp: actives_def)

text \<open>Closing the other panels leaves a panel that is not open alone.\<close>

lemma pan_fold_other:
  assumes "\<And>x ac. x \<noteq> i \<Longrightarrow> pan (f x ac) i = pan ac i"
  shows "i \<notin> set xs \<Longrightarrow> pan (fold f xs ac) i = pan ac i"
  using assms by (induction xs arbitrary: ac) simp_all

lemma pan_other: "x \<noteq> i \<Longrightarrow> pan (hide_active pg x ac) i = pan ac i" "x \<noteq> i \<Longrightarrow> pan (drop_data x ac) i = pan ac i"
  by (simp_all add: hide_active_def drop_data_def hide_panel_def start_transition_def complete_def Let_def
      split: completion.split)

lemma close_actives_other:
  assumes "close_actives pg ac = Some ac'" "\<not> hasClass ''in'' (pn_classes (pan ac i))"
  shows "pan ac' i = pan ac i"
proof -
  have "i \<notin> set (actives ac)" using assms(2) by (simp add: actives_def)
  with assms(1) show ?thesis
    by (auto simp: close_actives_def pan_fold_other pan_other Let_def split: list.splits if_splits)
qed

lemma length_close [simp]: "close_actives pg ac = Some ac' \<Longrightarrow> length (ac_panels ac') = length (ac_panels ac)"
  by (auto simp: close_actives_def length_fold Let_def split: list.splits if_splits)

lemma acc_inv_close: "acc_inv pg ac \<Longrightarrow> close_actives pg ac = Some ac' \<Longrightarrow> acc_inv pg ac'"
proof -
  assume a: "acc_inv pg ac" "close_actives pg ac = Some ac'"
  have h: "acc_inv pg (fold (hide_active pg) (actives ac) ac)"
    using actives_less by (intro acc_inv_fold [OF _ _ a(1)] acc_inv_hide_active) simp_all
  then have "acc_inv pg (fold drop_data (actives ac) (fold (hide_active pg) (actives ac) ac))"
    using actives_less [of ac] by (intro acc_inv_fold [OF _ _ h] acc_inv_drop_data) (simp_all add: length_fold)
  with h a show ?thesis by (auto simp: close_actives_def Let_def split: list.splits if_splits)
qed

lemma acc_inv_cong: "ac_panels ac = ac_panels ac' \<Longrightarrow> acc_inv pg ac = acc_inv pg ac'"
  by (simp add: acc_inv_def)

lemma show_cases:
  assumes "i < length (ac_panels ac)"
  obtains (same) "ac_panels (show_panel pg i ac) = ac_panels ac"
    | (opens) ac' where "\<not> hasClass ''in'' (pn_classes (pan ac i))" "\<not> is_transitioning (pan ac i)"
      "(if has_parent (pan ac i) then close_actives pg (log_event i ''show.bs.collapse'' ac)
        else Some (log_event i ''show.bs.collapse'' ac)) = Some ac'"
      "ac_panels (show_panel pg i ac) = (ac_panels ac')[i := show_eff pg (pan ac i)]"
proof (cases "is_transitioning (pan ac i) \<or> hasClass ''in'' (pn_classes (pan ac i)) \<or>
    pg_prevent pg i ''show.bs.collapse''")
  case True
  then have "ac_panels (show_panel pg i ac) = ac_panels ac" by (auto simp: show_panel_def Let_def)
  then show ?thesis by (rule same)
next
  case False
  let ?ac = "log_event i ''show.bs.collapse'' ac"
  show ?thesis
  proof (cases "if has_parent (pan ac i) then close_actives pg ?ac else Some ?ac")
    case None
    with False show ?thesis by (intro same) (simp add: show_panel_def Let_def)
  next
    case (Some ac')
    then have "pan ac' i = pan ac i" "length (ac_panels ac') = length (ac_panels ac)"
      using False close_actives_other [of pg ?ac ac' i] length_close [of pg ?ac ac'] by (auto split: if_splits)
    with assms False Some show ?thesis
      by (intro opens [OF _ _ Some]) (simp_all add: show_panel_def show_eff_def panels_start Let_def)
  qed
qed

lemma acc_inv_show:
  assumes "acc_inv pg ac" "i < length (ac_panels ac)" "pn_data (pan ac i) \<noteq> None"
  shows "acc_inv pg (show_panel pg i ac)"
  using assms(2)
proof (cases rule: show_cases [of i ac pg])
  case same
  with assms(1) acc_inv_cong show ?thesis by blast
next
  case (opens ac')
  have "acc_inv pg (log_event i ''show.bs.collapse'' ac)" using assms(1) by (simp add: acc_inv_def)
  with opens(3) have "acc_inv pg ac'" by (auto intro: acc_inv_close split: if_splits)
  moreover have "panel_inv pg (show_eff pg (pan ac i))"
    using assms opens(1) by (intro show_eff_inv) (simp_all add: acc_inv_def)
  ultimately show ?thesis using opens(4) acc_inv_upd by blast
qed

lemma complete_eff_sel:
  "hasClass ''collapse'' (pn_classes (complete_eff c p))" "\<not> hasClass ''collapsing'' (pn_classes (complete_eff c p))"
  "pn_pending (complete_eff c p) = pn_pending p"
  "is_transitioning (complete_eff c p) \<longleftrightarrow> is_transitioning p \<and> \<not> fst c"
  by (cases "snd c"; simp add: complete_eff_def Let_def)+

lemma complete_effs_sel:
  "hasClass ''collapse'' (pn_classes (fold complete_eff cs p)) \<longleftrightarrow> cs \<noteq> [] \<or> hasClass ''collapse'' (pn_classes p)"
  "hasClass ''collapsing'' (pn_classes (fold complete_eff cs p)) \<longleftrightarrow> cs = [] \<and> hasClass ''collapsing'' (pn_classes p)"
  "pn_pending (fold complete_eff cs p) = pn_pending p"
  "is_transitioning (fold complete_eff cs p) \<longleftrightarrow> is_transitioning p \<and> True \<notin> fst ` set cs"
  by (induction cs arbitrary: p) (auto simp: complete_eff_sel)

lemma panels_completes: "i < length (ac_panels ac) \<Longrightarrow>
    ac_panels (fold (\<lambda>c. complete c i) cs ac) = (ac_panels ac)[i := fold complete_eff cs (pan ac i)]"
  by (induction cs arbitrary: ac) (simp_all add: panels_complete)

lemma panels_end: "i < length (ac_panels ac) \<Longrightarrow> ac_panels (end_transition i ac) =
    (ac_panels ac)[i := fold complete_eff (pn_pending (pan ac i)) ((pan ac i)\<lparr>pn_pending := []\<rparr>)]"
  by (simp add: end_transition_def panels_completes Let_def)

lemma acc_inv_end: "acc_inv pg ac \<Longrightarrow> i < length (ac_panels ac) \<Longrightarrow> acc_inv pg (end_transition i ac)"
  by (rule acc_inv_upd [OF _ panels_end]) (auto simp: acc_inv_def panel_inv_def complete_effs_sel)

lemma acc_inv_toggle: "acc_inv pg ac \<Longrightarrow> i < length (ac_panels ac) \<Longrightarrow> pn_data (pan ac i) \<noteq> None \<Longrightarrow>
    acc_inv pg (toggle_panel pg i ac)"
  by (simp add: toggle_panel_def acc_inv_hide acc_inv_show del: not_None_eq)

lemma data_show_eff: "pn_data (show_eff pg p) = None \<longleftrightarrow> pn_data p = None"
  by (simp add: show_eff_def start_eff_def complete_eff_def Let_def)

lemma data_show:
  assumes "i < length (ac_panels ac)" "pn_data (pan ac i) \<noteq> None"
  shows "pn_data (pan (show_panel pg i ac) i) \<noteq> None"
  using assms(1)
proof (cases rule: show_cases [of i ac pg])
  case (opens ac')
  have "length (ac_panels ac') = length (ac_panels ac)"
    using opens(3) length_close [of pg "log_event i ''show.bs.collapse'' ac" ac'] by (auto split: if_splits)
  with opens(4) assms show ?thesis by (simp add: data_show_eff del: not_None_eq)
qed (use assms in \<open>simp del: not_None_eq\<close>)

lemma length_show [simp]: "i < length (ac_panels ac) \<Longrightarrow> length (ac_panels (show_panel pg i ac)) = length (ac_panels ac)"
  by (erule show_cases [of i ac pg]) (auto split: if_splits)

lemma acc_inv_new_collapse:
  assumes "acc_inv pg ac" "i < length (ac_panels ac)" "pn_data (pan ac i) = None"
  shows "acc_inv pg (new_collapse pg t b i ac)" "pn_data (pan (new_collapse pg t b i ac) i) \<noteq> None"
    "length (ac_panels (new_collapse pg t b i ac)) = length (ac_panels ac)"
proof -
  let ?ac = "upd_panel i (\<lambda>p. p\<lparr>pn_data := Some \<lparr>ci_transitioning = False, ci_parent = b\<rparr>\<rparr>) ac"
  have a: "acc_inv pg ?ac" "i < length (ac_panels ?ac)" "pn_data (pan ?ac i) \<noteq> None"
    using assms acc_inv_new_data by simp_all
  have t: "acc_inv pg (toggle_panel pg i ?ac)" using acc_inv_toggle [OF a] .
  have d: "pn_data (pan (toggle_panel pg i ?ac) i) \<noteq> None" "length (ac_panels (toggle_panel pg i ?ac)) = length (ac_panels ac)"
    using data_show [OF a(2,3)] data_hide [OF a(2)] a(3) length_show [OF a(2)] by (simp_all add: toggle_panel_def del: not_None_eq)
  show "acc_inv pg (new_collapse pg t b i ac)" "pn_data (pan (new_collapse pg t b i ac) i) \<noteq> None"
    "length (ac_panels (new_collapse pg t b i ac)) = length (ac_panels ac)"
    using a t d by (simp_all add: new_collapse_def Let_def del: not_None_eq)
qed

lemma acc_inv_Plugin:
  assumes "acc_inv pg ac" "i < length (ac_panels ac)"
  shows "acc_inv pg (Plugin_collapse pg opt i ac)"
proof -
  define ac' where "ac' = (if pn_data (pan ac i) = None
    then new_collapse pg (case opt of Method _ \<Rightarrow> pn_toggle (pan ac i) | TriggerData _ \<Rightarrow> True)
      (case opt of Method _ \<Rightarrow> False | TriggerData b \<Rightarrow> b) i ac else ac)"
  have "acc_inv pg ac'" "pn_data (pan ac' i) \<noteq> None" "i < length (ac_panels ac')"
    using assms acc_inv_new_collapse [OF assms] by (simp_all add: ac'_def del: not_None_eq)
  then have "acc_inv pg ac'" "acc_inv pg (show_panel pg i ac')" "acc_inv pg (hide_panel pg i ac')"
      "acc_inv pg (toggle_panel pg i ac')"
    by (simp_all add: acc_inv_show acc_inv_hide acc_inv_toggle del: not_None_eq)
  moreover have "Plugin_collapse pg opt i ac \<in> {ac', show_panel pg i ac', hide_panel pg i ac', toggle_panel pg i ac'}"
    by (simp add: Plugin_collapse_def ac'_def Let_def split: plugin_option.split collapse_method.split)
  ultimately show ?thesis by auto
qed

lemma acc_inv_click: "acc_inv pg ac \<Longrightarrow> te_target (ac_triggers ac ! k) < length (ac_panels ac) \<Longrightarrow> acc_inv pg (click_trigger pg k ac)"
  unfolding click_trigger_def Let_def by (rule acc_inv_Plugin) (auto simp: acc_inv_def)

section \<open>Reachable states\<close>

text \<open>Calls of the plugin, clicks and ends of transitions come in any order.\<close>

inductive acc_step :: "page \<Rightarrow> accordion \<Rightarrow> accordion \<Rightarrow> bool" for pg where
  call: "i < length (ac_panels ac) \<Longrightarrow> acc_step pg ac (Plugin_collapse pg opt i ac)"
| click: "k < length (ac_triggers ac) \<Longrightarrow> te_target (ac_triggers ac ! k) < length (ac_panels ac) \<Longrightarrow>
    acc_step pg ac (click_trigger pg k ac)"
| ends: "i < length (ac_panels ac) \<Longrightarrow> acc_step pg ac (end_transition i ac)"

text \<open>A page as it is loaded: every panel has the class \<open>collapse\<close>, no object and no transition.\<close>

definition loaded_panel :: "panel \<Rightarrow> bool" where
  "loaded_panel p \<longleftrightarrow> hasClass ''collapse'' (pn_classes p) \<and> \<not> hasClass ''collapsing'' (pn_classes p) \<and>
     pn_data p = None \<and> pn_pending p = []"

lemma acc_inv_step: "acc_step pg ac ac' \<Longrightarrow> acc_inv pg ac \<Longrightarrow> acc_inv pg ac'"
  by (induction rule: acc_step.induct) (simp_all add: acc_inv_Plugin acc_inv_click acc_inv_end)

interpretation collapse: machine "acc_step pg" "acc_inv pg" for pg
  by unfold_locales (rule acc_inv_step)

lemma acc_inv_loaded: "\<forall>p \<in> set (ac_panels ac). loaded_panel p \<Longrightarrow> acc_inv pg ac"
  by (auto simp: acc_inv_def panel_inv_def loaded_panel_def is_transitioning_def)

text \<open>
  C13. In every state that calls, clicks and ends of transitions reach from the loaded page, a panel is
  either settled or in transition: it has exactly one of the classes \<open>collapse\<close> and \<open>collapsing\<close>, an open
  panel is settled, an object that refuses calls because it is transitioning has its completion still to
  come, and the end of that transition frees it.
\<close>

theorem collapse_never_stuck:
  assumes "(acc_step pg)\<^sup>*\<^sup>* ac0 ac" "\<forall>p \<in> set (ac_panels ac0). loaded_panel p" "i < length (ac_panels ac)"
  shows "hasClass ''collapse'' (pn_classes (pan ac i)) \<noteq> hasClass ''collapsing'' (pn_classes (pan ac i)) \<and>
    (hasClass ''in'' (pn_classes (pan ac i)) \<longrightarrow> hasClass ''collapse'' (pn_classes (pan ac i))) \<and>
    (is_transitioning (pan ac i) \<longrightarrow> pn_pending (pan ac i) \<noteq> []) \<and>
    \<not> is_transitioning (pan (end_transition i ac) i) \<and>
    hasClass ''collapse'' (pn_classes (pan (end_transition i ac) i))"
proof -
  have "panel_inv pg (pan ac i)" using collapse.reachable [OF assms(1) acc_inv_loaded [OF assms(2)]] assms(3) by (simp add: acc_inv_def)
  then show ?thesis using assms(3) by (auto simp: panel_inv_def panels_end complete_effs_sel)
qed

section \<open>Accordions\<close>

lemma in_set_transitioning [simp]: "hasClass c (pn_classes (set_transitioning b p)) = hasClass c (pn_classes p)"
  by simp

lemma in_complete_effs: "hasClass ''in'' (pn_classes (fold complete_eff cs p)) \<longleftrightarrow>
    hasClass ''in'' (pn_classes p) \<or> ShowComplete \<in> snd ` set cs"
proof (induction cs arbitrary: p)
  case (Cons c cs)
  have "hasClass ''in'' (pn_classes (complete_eff c p)) \<longleftrightarrow> hasClass ''in'' (pn_classes p) \<or> snd c = ShowComplete"
    by (cases "snd c") (auto simp: complete_eff_def Let_def)
  with Cons show ?case by auto
qed simp

text \<open>A panel that is closed and stays so, and one that is open or will be, unless it is called again.\<close>

definition stays_closed :: "panel \<Rightarrow> bool" where
  "stays_closed p \<longleftrightarrow> \<not> hasClass ''in'' (pn_classes p) \<and> ShowComplete \<notin> snd ` set (pn_pending p)"

definition will_open :: "panel \<Rightarrow> bool" where
  "will_open p \<longleftrightarrow> hasClass ''in'' (pn_classes p) \<or> ShowComplete \<in> snd ` set (pn_pending p)"

lemma hide_eff_closed: "panel_inv pg p \<Longrightarrow> pn_pending p = [] \<Longrightarrow> pn_data p \<noteq> None \<Longrightarrow>
    \<not> pg_prevent pg i ''hide.bs.collapse'' \<Longrightarrow> stays_closed (hide_eff pg i p)"
  by (auto simp: hide_eff_def start_eff_def complete_eff_def panel_inv_def stays_closed_def)

lemma hide_eff_again: "stays_closed p \<Longrightarrow> hide_eff pg i p = p"
  by (simp add: hide_eff_def stays_closed_def)

lemma show_eff_opens: "will_open (show_eff pg p)"
  by (auto simp: show_eff_def start_eff_def complete_eff_def will_open_def)

lemma hide_active_closed:
  assumes "acc_inv pg ac" "j < length (ac_panels ac)" "pn_pending (pan ac j) = []" "\<not> pg_prevent pg j ''hide.bs.collapse''"
  shows "stays_closed (pan (hide_active pg j ac) j)"
proof (cases "pn_data (pan ac j) = None")
  case True
  let ?p = "(pan ac j)\<lparr>pn_data := Some \<lparr>ci_transitioning = False, ci_parent = False\<rparr>\<rparr>"
  have "panel_inv pg ?p" using True assms(1,2) by (auto simp: acc_inv_def intro: new_data_inv)
  then have "stays_closed (hide_eff pg j ?p)" using assms(3,4) by (intro hide_eff_closed) simp_all
  with True assms(2) show ?thesis by (simp add: hide_active_def panels_hide hide_eff_again Let_def)
next
  case False
  then have "stays_closed (hide_eff pg j (pan ac j))"
    using assms by (intro hide_eff_closed) (simp_all add: acc_inv_def del: not_None_eq)
  with False assms(2) show ?thesis by (simp add: hide_active_def panels_hide Let_def del: not_None_eq)
qed

lemma hide_actives_closed:
  assumes "acc_inv pg ac" "\<forall>j < length (ac_panels ac). \<not> pg_prevent pg j ''hide.bs.collapse''"
    "\<forall>j \<in> set js. j < length (ac_panels ac) \<and> pn_pending (pan ac j) = []" "distinct js" "k \<in> set js"
  shows "stays_closed (pan (fold (hide_active pg) js ac) k)"
  using assms
proof (induction js arbitrary: ac)
  case (Cons j js)
  have inv: "acc_inv pg (hide_active pg j ac)" using Cons.prems acc_inv_hide_active by simp
  show ?case
  proof (cases "k = j")
    case True
    with Cons.prems have "pan (fold (hide_active pg) js (hide_active pg j ac)) k = pan (hide_active pg j ac) j"
      by (simp add: pan_fold_other pan_other)
    with True Cons.prems show ?thesis by (simp add: hide_active_closed)
  next
    case False
    have "pan (hide_active pg j ac) l = pan ac l" if "l \<in> set js" for l
      using that Cons.prems(4) by (intro pan_other) auto
    with False Cons.prems show ?thesis using Cons.IH [OF inv] by simp
  qed
qed simp

lemma drop_data_closed: "stays_closed (pan ac k) \<Longrightarrow> k < length (ac_panels ac) \<Longrightarrow> stays_closed (pan (drop_data j ac) k)"
  by (cases "k = j") (force simp: drop_data_def stays_closed_def pan_other)+

lemma drop_datas_closed: "stays_closed (pan ac k) \<Longrightarrow> k < length (ac_panels ac) \<Longrightarrow>
    stays_closed (pan (fold drop_data js ac) k)"
  by (induction js arbitrary: ac) (simp_all add: drop_data_closed)

lemma close_actives_closed:
  assumes "acc_inv pg ac" "\<forall>j < length (ac_panels ac). \<not> pg_prevent pg j ''hide.bs.collapse''"
    "\<forall>j < length (ac_panels ac). pn_pending (pan ac j) = []"
  obtains ac' where "close_actives pg ac = Some ac'" "\<forall>k < length (ac_panels ac). stays_closed (pan ac' k)"
proof -
  let ?h = "fold (hide_active pg) (actives ac) ac"
  have closed: "stays_closed (pan ?h k)" if "k < length (ac_panels ac)" for k
  proof (cases "k \<in> set (actives ac)")
    case True
    moreover have "distinct (actives ac)" by (simp add: actives_def)
    moreover have "\<forall>j \<in> set (actives ac). j < length (ac_panels ac) \<and> pn_pending (pan ac j) = []"
      using assms(3) actives_less by blast
    ultimately show ?thesis using assms(1,2) hide_actives_closed by blast
  next
    case False
    then show ?thesis using that assms(3) by (simp add: pan_fold_other pan_other actives_def stays_closed_def)
  qed
  have idle: "\<not> is_transitioning (pan ac k)" if "k < length (ac_panels ac)" for k
    using that assms(1,3) by (simp add: acc_inv_def panel_inv_def)
  have "\<exists>ac'. close_actives pg ac = Some ac' \<and> (ac' = ?h \<or> ac' = fold drop_data (actives ac) ?h)"
  proof (cases "actives ac")
    case (Cons j js)
    with idle [of j] actives_less [of ac] show ?thesis by (simp add: close_actives_def Let_def del: fold_Cons)
  qed (simp add: close_actives_def)
  then obtain ac' where ac': "close_actives pg ac = Some ac'" "ac' = ?h \<or> ac' = fold drop_data (actives ac) ?h"
    by blast
  then have "stays_closed (pan ac' k)" if "k < length (ac_panels ac)" for k
    using closed [OF that] drop_datas_closed [OF closed [OF that]] that by (auto simp: length_fold)
  then show ?thesis by (intro that [OF ac'(1)]) simp
qed

lemma end_closed: "k < length (ac_panels ac) \<Longrightarrow> i < length (ac_panels ac) \<Longrightarrow> stays_closed (pan ac k) \<Longrightarrow>
    stays_closed (pan (end_transition i ac) k)"
  by (cases "k = i") (simp_all add: panels_end stays_closed_def in_complete_effs complete_effs_sel)

lemma end_open: "k < length (ac_panels ac) \<Longrightarrow> i < length (ac_panels ac) \<Longrightarrow> will_open (pan ac k) \<Longrightarrow>
    will_open (pan (end_transition i ac) k) \<and> (hasClass ''in'' (pn_classes (pan ac k)) \<or> i = k \<longrightarrow>
    hasClass ''in'' (pn_classes (pan (end_transition i ac) k)))"
  by (cases "k = i") (auto simp: panels_end will_open_def in_complete_effs complete_effs_sel)

lemma length_end [simp]: "i < length (ac_panels ac) \<Longrightarrow> length (ac_panels (end_transition i ac)) = length (ac_panels ac)"
  by (simp add: panels_end)

lemma ends_open:
  assumes "\<forall>j \<in> set js. j < length (ac_panels ac)" "i < length (ac_panels ac)" "will_open (pan ac i)"
    "\<forall>k < length (ac_panels ac). k \<noteq> i \<longrightarrow> stays_closed (pan ac k)"
    "i \<in> set js \<or> hasClass ''in'' (pn_classes (pan ac i))"
  shows "actives (fold end_transition js ac) = [i]"
  using assms
proof (induction js arbitrary: ac)
  case Nil
  then have "\<forall>k < length (ac_panels ac). hasClass ''in'' (pn_classes (pan ac k)) \<longleftrightarrow> k = i"
    by (auto simp: stays_closed_def)
  then have "actives ac = filter (\<lambda>k. k = i) [0..<length (ac_panels ac)]"
    unfolding actives_def by (intro filter_cong) auto
  also have "\<dots> = [i]" using Nil(2) by (rule filter_upt_eq)
  finally show ?case by simp
next
  case (Cons j js)
  then have j: "j < length (ac_panels ac)" by simp
  have "actives (fold end_transition js (end_transition j ac)) = [i]"
    using Cons.prems j end_open [OF Cons.prems(2) j Cons.prems(3)] end_closed [OF _ j]
    by (intro Cons.IH) auto
  then show ?case by simp
qed

text \<open>
  C12. Accordion: in a reachable state without a transition under way, and with no listener that prevents
  opening or closing, showing a closed panel whose object has a parent leaves, after the transitions have
  ended in whatever order, exactly that panel of the group open.
\<close>

theorem accordion_exclusive:
  assumes "(acc_step pg)\<^sup>*\<^sup>* ac0 ac" "\<forall>p \<in> set (ac_panels ac0). loaded_panel p" "i < length (ac_panels ac)"
    "has_parent (pan ac i)" "\<not> hasClass ''in'' (pn_classes (pan ac i))"
    "\<forall>j < length (ac_panels ac). pn_pending (pan ac j) = []"
    "\<forall>j ev. \<not> pg_prevent pg j ev" "i \<in> set js" "\<forall>j \<in> set js. j < length (ac_panels ac)"
  shows "actives (fold end_transition js (show_panel pg i ac)) = [i]"
proof -
  let ?ac = "log_event i ''show.bs.collapse'' ac"
  have inv: "acc_inv pg ac" using collapse.reachable [OF assms(1) acc_inv_loaded [OF assms(2)]] .
  then have idle: "\<not> is_transitioning (pan ac i)" using assms(3,6) by (simp add: acc_inv_def panel_inv_def)
  have "acc_inv pg ?ac" using inv by (simp add: acc_inv_def)
  then obtain ac' where ac': "close_actives pg ?ac = Some ac'" "\<forall>k < length (ac_panels ac). stays_closed (pan ac' k)"
    using close_actives_closed [of pg ?ac] assms(6,7) by auto
  have len: "length (ac_panels ac') = length (ac_panels ac)" "pan ac' i = pan ac i"
    using length_close [OF ac'(1)] close_actives_other [OF ac'(1)] assms(5) by simp_all
  have "ac_panels (show_panel pg i ac) = (ac_panels ac')[i := show_eff pg (pan ac i)]"
    using assms(3-5,7) idle ac'(1) len by (simp add: show_panel_def show_eff_def panels_start Let_def)
  then show ?thesis using assms(3,8,9) ac'(2) len show_eff_opens by (intro ends_open) auto
qed

text \<open>Pages with two panels of one group, each with its trigger element.\<close>

definition demo_page :: page where
  "demo_page = \<lparr>pg_transition = True, pg_prevent = \<lambda>_ _. False\<rparr>"

definition demo_panel :: "classes \<Rightarrow> panel" where
  "demo_panel cs = \<lparr>pn_classes = cs, pn_toggle = True, pn_data = None, pn_size = SizeAuto, pn_pending = []\<rparr>"

definition demo_accordion :: accordion where
  "demo_accordion =
     \<lparr>ac_panels = [demo_panel [''collapse''], demo_panel [''collapse'', ''in'']],
      ac_triggers = [\<lparr>te_target = 0, te_parent = True, te_classes = []\<rparr>, \<lparr>te_target = 1, te_parent = True, te_classes = []\<rparr>],
      ac_log = []\<rparr>"

definition demo_settled :: accordion where
  "demo_settled =
     fold end_transition [0, 1] (click_trigger demo_page 1 (fold end_transition [0, 1]
       (click_trigger demo_page 0 demo_accordion)))"

lemma demo_click: "(acc_step demo_page)\<^sup>*\<^sup>* demo_accordion (click_trigger demo_page 0 demo_accordion)"
  by (rule r_into_rtranclp, rule acc_step.click) (simp_all add: demo_accordion_def)

lemma ends_reachable: "(acc_step pg)\<^sup>*\<^sup>* ac0 ac \<Longrightarrow> \<forall>j \<in> set js. j < length (ac_panels ac) \<Longrightarrow>
    (acc_step pg)\<^sup>*\<^sup>* ac0 (fold end_transition js ac)"
proof (induction js arbitrary: ac)
  case (Cons j js)
  then have "(acc_step pg)\<^sup>*\<^sup>* ac0 (end_transition j ac)" by (auto intro: rtranclp.rtrancl_into_rtrancl acc_step.ends)
  with Cons show ?case by simp
qed simp

lemma demo_panels_loaded: "\<forall>p \<in> set (ac_panels demo_accordion). loaded_panel p"
  by (simp add: demo_accordion_def demo_panel_def loaded_panel_def hasClass_def)

lemma demo_reachable: "(acc_step demo_page)\<^sup>*\<^sup>* demo_accordion demo_settled"
proof -
  let ?a = "click_trigger demo_page 0 demo_accordion"
  let ?b = "fold end_transition [0, 1] ?a"
  let ?c = "click_trigger demo_page 1 ?b"
  have "length (ac_panels ?a) = 2" "length (ac_panels ?b) = 2" "length (ac_triggers ?b) = 2"
    "te_target (ac_triggers ?b ! 1) = 1" "length (ac_panels ?c) = 2" by code_simp+
  moreover then have "(acc_step demo_page)\<^sup>*\<^sup>* demo_accordion ?b" by (intro ends_reachable [OF demo_click]) simp
  ultimately have "(acc_step demo_page)\<^sup>*\<^sup>* demo_accordion ?c"
    by (intro rtranclp.rtrancl_into_rtrancl [of _ _ ?b ?c] acc_step.click) simp_all
  with \<open>length (ac_panels ?c) = 2\<close> show ?thesis unfolding demo_settled_def by (intro ends_reachable) simp_all
qed

theorem accordion_exclusive_witness:
  "actives demo_settled = [1] \<and> actives (fold end_transition [1, 0] (show_panel demo_page 0 demo_settled)) = [0]"
proof -
  have "length (ac_panels demo_settled) = 2" "has_parent (pan demo_settled 0)"
    "\<not> hasClass ''in'' (pn_classes (pan demo_settled 0))" "pn_pending (pan demo_settled 0) = []"
    "pn_pending (pan demo_settled 1) = []" by code_simp+
  moreover have "actives demo_settled = [1]" by code_simp
  ultimately show ?thesis
    using accordion_exclusive [OF demo_reachable demo_panels_loaded, of 0 "[1, 0]"]
    by (simp add: demo_page_def less_2_cases_iff)
qed

theorem collapse_never_stuck_witness:
  "hasClass ''collapse'' (pn_classes (pan (end_transition 0 (click_trigger demo_page 0 demo_accordion)) 0))"
proof -
  have "0 < length (ac_panels (click_trigger demo_page 0 demo_accordion))" by code_simp
  then show ?thesis
    using collapse_never_stuck [OF demo_click demo_panels_loaded, of 0] by simp
qed


text \<open>
  The exclusion fails while transitions run: \<open>show\<close> looks for panels with the class \<open>in\<close>, which an
  opening panel gets only at the end. Two clicks on the triggers of two closed panels of one group, the
  second before the first transition has ended, leave both panels open.
\<close>

theorem accordion_both_open:
  "(let ac = demo_accordion\<lparr>ac_panels := [demo_panel [''collapse''], demo_panel [''collapse'']]\<rparr> in
    actives (fold end_transition [0, 1] (click_trigger demo_page 1 (fold end_transition [0, 1]
      (click_trigger demo_page 0 ac)))) = [1] \<and>
    actives (fold end_transition [0, 1] (click_trigger demo_page 1 (click_trigger demo_page 0 ac))) = [0, 1])"
  by code_simp

text \<open>
  \<open>hide\<close> on a closed panel that has no object yet opens it: the constructor toggles the panel, and the
  call of \<open>hide\<close> that follows is refused because the panel is then in transition.
\<close>

theorem hide_opens:
  assumes "i < length (ac_panels ac)" "pn_data (pan ac i) = None" "pn_toggle (pan ac i)"
    "\<not> hasClass ''in'' (pn_classes (pan ac i))" "\<not> pg_prevent pg i ''show.bs.collapse''" "pg_transition pg"
  shows "hasClass ''in'' (pn_classes (pan (end_transition i (Plugin_collapse pg (Method MHide) i ac)) i)) \<and>
    ac_log (Plugin_collapse pg (Method MHide) i ac) = ac_log ac @ [(i, ''show.bs.collapse'')]"
proof -
  let ?ac = "Plugin_collapse pg (Method MHide) i ac"
  have "ac_log ?ac = ac_log ac @ [(i, ''show.bs.collapse'')] \<and> length (ac_panels ?ac) = length (ac_panels ac) \<and>
      (True, ShowComplete) \<in> set (pn_pending (pan ?ac i))"
    using assms
    by (simp add: Plugin_collapse_def new_collapse_def toggle_panel_def show_panel_def hide_panel_def start_transition_def
        log_event_def upd_panel_def is_transitioning_def set_transitioning_def has_parent_def Let_def)
  with assms(1) show ?thesis by (force simp: panels_end in_complete_effs)
qed

theorem hide_opens_witness:
  "hasClass ''in'' (pn_classes (pan (end_transition 0 (Plugin_collapse demo_page (Method MHide) 0 demo_accordion)) 0))"
  using hide_opens [of 0 demo_accordion demo_page]
  by (simp add: demo_accordion_def demo_panel_def demo_page_def hasClass_def)

end
