(* ===== verification/Bootstrap_Carousel.thy ===== *)
theory Bootstrap_Carousel
  imports Page
begin

text \<open>
  The carousel of \<open>bootstrap-3.2.0.js\<close>: items of which one is active, moved by calls, keys and an interval
  timer. A move is animated when the browser has transitions and the element the class \<open>slide\<close>; the item
  that leaves then gets the handler for the end of the transition.

  Elements are numbers: items and indicators by their position among their siblings, which are all items.
  A jQuery object is the list of the numbers of its elements.
\<close>

section \<open>Data\<close>

datatype slide_type = TNext | TPrev

primrec class_of :: "slide_type \<Rightarrow> string" where
  "class_of TNext = ''next''"
| "class_of TPrev = ''prev''"

primrec slide_direction :: "slide_type \<Rightarrow> string" where
  "slide_direction TNext = ''left''"
| "slide_direction TPrev = ''right''"

text \<open>The handler that \<open>slide\<close> binds to the end of the transition of item \<open>sc_at\<close>.\<close>

record slide_end =
  sc_at :: nat
  sc_active :: "nat list"
  sc_next :: "nat list"
  sc_type :: slide_type

record carousel_options =
  op_interval :: bool
  op_hover :: bool
  op_wrap :: bool

text \<open>
  \<open>ca_timers\<close> are the interval timers that run, \<open>ca_pending\<close> the handlers of transitions, \<open>ca_slid\<close> counts
  the deferred events \<open>slid\<close> and \<open>ca_waiting\<close> holds the calls of \<open>to\<close> that wait for one.
\<close>

record carousel =
  ca_items :: "classes list"
  ca_indicators :: "classes list option"
  ca_slide :: bool
  ca_options :: carousel_options
  ca_paused :: bool
  ca_sliding :: bool
  ca_interval :: "nat option"
  ca_timers :: "nat list"
  ca_fresh :: nat
  ca_pending :: "slide_end list"
  ca_slid :: nat
  ca_waiting :: "int list"

text \<open>\<open>new Carousel(element, options)\<close>\<close>

definition new_carousel :: "classes list \<Rightarrow> classes list option \<Rightarrow> bool \<Rightarrow> carousel_options \<Rightarrow> carousel" where
  "new_carousel items indicators animate options =
     \<lparr>ca_items = items, ca_indicators = indicators, ca_slide = animate, ca_options = options, ca_paused = False,
      ca_sliding = False, ca_interval = None, ca_timers = [], ca_fresh = 1, ca_pending = [], ca_slid = 0,
      ca_waiting = []\<rparr>"

section \<open>Elements\<close>

definition upd_at :: "nat list \<Rightarrow> (classes \<Rightarrow> classes) \<Rightarrow> classes list \<Rightarrow> classes list" where
  "upd_at ks f xs = map (\<lambda>(k, x). if k \<in> set ks then f x else x) (enumerate 0 xs)"

definition with_class :: "string \<Rightarrow> classes list \<Rightarrow> nat list" where
  "with_class c xs = filter (\<lambda>k. hasClass c (xs ! k)) [0..<length xs]"

abbreviation upd_items :: "nat list \<Rightarrow> (classes \<Rightarrow> classes) \<Rightarrow> carousel \<Rightarrow> carousel" where
  "upd_items ks f ca \<equiv> ca\<lparr>ca_items := upd_at ks f (ca_items ca)\<rparr>"

text \<open>\<open>$active.next()\<close> and \<open>$active.prev()\<close>, and the fallbacks \<open>first()\<close> and \<open>last()\<close>.\<close>

definition siblings :: "slide_type \<Rightarrow> nat \<Rightarrow> nat list \<Rightarrow> nat list" where
  "siblings ty n ks =
     (case ty of TNext \<Rightarrow> filter (\<lambda>k. k < n) (map Suc ks)
      | TPrev \<Rightarrow> map (\<lambda>k. k - 1) (filter (\<lambda>k. k > 0) ks))"

definition fallback :: "slide_type \<Rightarrow> nat \<Rightarrow> nat list" where
  "fallback ty n = (if n = 0 then [] else case ty of TNext \<Rightarrow> [0] | TPrev \<Rightarrow> [n - 1])"

section \<open>Operations\<close>

definition clear_timer :: "nat option \<Rightarrow> carousel \<Rightarrow> carousel" where
  "clear_timer t ca = (case t of None \<Rightarrow> ca | Some t \<Rightarrow> ca\<lparr>ca_timers := removeAll t (ca_timers ca)\<rparr>)"

text \<open>\<open>cycle(e)\<close>; \<open>ev\<close> says whether an argument is given. The old number stays when no timer is started.\<close>

definition cycle :: "bool \<Rightarrow> carousel \<Rightarrow> carousel" where
  "cycle ev ca =
     (let ca = (if ev then ca else ca\<lparr>ca_paused := False\<rparr>);
          ca = clear_timer (ca_interval ca) ca
      in if op_interval (ca_options ca) \<and> \<not> ca_paused ca
         then ca\<lparr>ca_interval := Some (ca_fresh ca), ca_timers := ca_fresh ca # ca_timers ca, ca_fresh := ca_fresh ca + 1\<rparr>
         else ca)"

text \<open>
  \<open>pause(e)\<close>. The end of transition that it triggers on the carousel itself does not reach the handler,
  which is bound to an item.
\<close>

definition pause :: "page \<Rightarrow> bool \<Rightarrow> carousel \<Rightarrow> carousel" where
  "pause pg ev ca =
     (let ca = (if ev then ca else ca\<lparr>ca_paused := True\<rparr>);
          moving = (with_class ''next'' (ca_items ca) \<noteq> [] \<or> with_class ''prev'' (ca_items ca) \<noteq> []);
          ca = (if moving \<and> pg_transition pg then cycle True ca else ca)
      in (clear_timer (ca_interval ca) ca)\<lparr>ca_interval := None\<rparr>)"

definition animated :: "page \<Rightarrow> carousel \<Rightarrow> bool" where
  "animated pg ca \<longleftrightarrow> pg_transition pg \<and> ca_slide ca"

text \<open>The indicators follow the item that comes.\<close>

definition move_indicator :: "nat list \<Rightarrow> carousel \<Rightarrow> carousel" where
  "move_indicator nexts ca =
     (case ca_indicators ca of None \<Rightarrow> ca
      | Some is \<Rightarrow>
          ca\<lparr>ca_indicators := Some (upd_at (case nexts of [] \<Rightarrow> [] | k # _ \<Rightarrow> [k]) (addClass ''active'')
               (map (removeClass ''active'') is))\<rparr>)"

text \<open>
  The end of \<open>slide\<close>, when it is animated. Without an item to come, \<open>$next[0].offsetWidth\<close> throws, and
  without an active one, \<open>css(...).slice\<close> does, after the classes are set; the flag says that it threw.
\<close>

definition slide_animated :: "slide_type \<Rightarrow> nat list \<Rightarrow> nat list \<Rightarrow> carousel \<Rightarrow> carousel \<times> bool" where
  "slide_animated ty act nexts ca =
     (let ca = upd_items nexts (addClass (class_of ty)) ca in
      if nexts = [] then (ca, True)
      else
        (let ca = upd_items nexts (addClass (slide_direction ty)) (upd_items act (addClass (slide_direction ty)) ca);
             ends = map (\<lambda>a. \<lparr>sc_at = a, sc_active = act, sc_next = nexts, sc_type = ty\<rparr>) act
         in (ca\<lparr>ca_pending := ca_pending ca @ ends\<rparr>, act = [])))"

text \<open>
  Without animation the items change at once. The event \<open>slid\<close> then has no listener of the plugin: calls
  wait for it only while a transition runs.
\<close>

definition slide_at_once :: "nat list \<Rightarrow> nat list \<Rightarrow> carousel \<Rightarrow> carousel" where
  "slide_at_once act nexts ca =
     (upd_items nexts (addClass ''active'') (upd_items act (removeClass ''active'') ca))\<lparr>ca_sliding := False\<rparr>"

definition slide_items :: "page \<Rightarrow> slide_type \<Rightarrow> nat list option \<Rightarrow> carousel \<Rightarrow> carousel \<times> bool" where
  "slide_items pg ty given ca =
     (let n = length (ca_items ca);
          act = with_class ''active'' (ca_items ca);
          nexts = (case given of None \<Rightarrow> siblings ty n act | Some ks \<Rightarrow> ks);
          isCycling = (ca_interval ca \<noteq> None)
      in if nexts = [] \<and> \<not> op_wrap (ca_options ca) then (ca, False)
         else
           (let nexts = (if nexts = [] then fallback ty n else nexts)
            in if \<exists>k \<in> set nexts. hasClass ''active'' (ca_items ca ! k) then (ca\<lparr>ca_sliding := False\<rparr>, False)
               else if pg_prevent pg (case nexts of [] \<Rightarrow> n | k # _ \<Rightarrow> k) ''slide.bs.carousel'' then (ca, False)
               else
                 (let ca = ca\<lparr>ca_sliding := True\<rparr>;
                      ca = (if isCycling then pause pg False ca else ca);
                      ca = move_indicator nexts ca;
                      (ca, thrown) = (if animated pg ca then slide_animated ty act nexts ca
                                      else (slide_at_once act nexts ca, False))
                  in if thrown then (ca, True)
                     else (if isCycling then cycle False ca else ca, False))))"

definition next_item :: "page \<Rightarrow> carousel \<Rightarrow> carousel \<times> bool" where
  "next_item pg ca = (if ca_sliding ca then (ca, False) else slide_items pg TNext None ca)"

definition prev_item :: "page \<Rightarrow> carousel \<Rightarrow> carousel \<times> bool" where
  "prev_item pg ca = (if ca_sliding ca then (ca, False) else slide_items pg TPrev None ca)"

text \<open>\<open>getItemIndex\<close> of a jQuery object: that of its first element, and the items beside it; without any \<open>-1\<close>.\<close>

definition getItemIndex :: "nat list \<Rightarrow> carousel \<Rightarrow> int \<times> nat" where
  "getItemIndex ks ca = (case ks of [] \<Rightarrow> (- 1, 0) | k # _ \<Rightarrow> (int k, length (ca_items ca)))"

definition to_item :: "page \<Rightarrow> int \<Rightarrow> carousel \<Rightarrow> carousel \<times> bool" where
  "to_item pg pos ca =
     (let (activeIndex, len) = getItemIndex (with_class ''active'' (ca_items ca)) ca in
      if pos > int len - 1 \<or> pos < 0 then (ca, False)
      else if ca_sliding ca then (ca\<lparr>ca_waiting := ca_waiting ca @ [pos]\<rparr>, False)
      else if activeIndex = pos then (cycle False (pause pg False ca), False)
      else slide_items pg (if pos > activeIndex then TNext else TPrev) (Some [nat pos]) ca)"

definition carousel_keydown :: "page \<Rightarrow> nat \<Rightarrow> carousel \<Rightarrow> carousel \<times> bool" where
  "carousel_keydown pg which ca =
     (if which = 37 then prev_item pg ca else if which = 39 then next_item pg ca else (ca, False))"

text \<open>The end of the transition of item \<open>a\<close>, and then, deferred, the event \<open>slid\<close>.\<close>

definition finish_slide :: "slide_end \<Rightarrow> carousel \<Rightarrow> carousel" where
  "finish_slide s ca =
     (let ca = upd_items (sc_next s) (\<lambda>x. addClass ''active'' (removeClass (slide_direction (sc_type s))
                 (removeClass (class_of (sc_type s)) x))) ca;
          ca = upd_items (sc_active s) (\<lambda>x. removeClass (slide_direction (sc_type s)) (removeClass ''active'' x)) ca
      in ca\<lparr>ca_sliding := False, ca_slid := ca_slid ca + 1\<rparr>)"

definition item_transition_end :: "nat \<Rightarrow> carousel \<Rightarrow> carousel" where
  "item_transition_end a ca =
     fold finish_slide (filter (\<lambda>s. sc_at s = a) (ca_pending ca))
       (ca\<lparr>ca_pending := filter (\<lambda>s. sc_at s \<noteq> a) (ca_pending ca)\<rparr>)"

text \<open>The calls of \<open>to\<close> that wait run in their order; none of them throws (\<open>to_item_no_throw\<close>).\<close>

definition slid :: "page \<Rightarrow> carousel \<Rightarrow> carousel" where
  "slid pg ca =
     (if ca_slid ca = 0 then ca
      else fold (\<lambda>pos ca. fst (to_item pg pos ca)) (ca_waiting ca) (ca\<lparr>ca_slid := ca_slid ca - 1, ca_waiting := []\<rparr>))"

text \<open>
  The plugin: a position, the name of a method or options, of which \<open>slide\<close> names a method and
  \<open>interval\<close> starts the cycle. The first call has \<open>new_carousel\<close> before it.
\<close>

datatype carousel_call = To int | Action string | Options "string option" bool

definition carousel_action :: "page \<Rightarrow> string \<Rightarrow> carousel \<Rightarrow> carousel \<times> bool" where
  "carousel_action pg name ca =
     (if name = ''next'' then next_item pg ca else if name = ''prev'' then prev_item pg ca
      else if name = ''pause'' then (pause pg False ca, False)
      else if name = ''cycle'' then (cycle False ca, False) else (ca, True))"

definition Plugin_carousel :: "page \<Rightarrow> carousel_call \<Rightarrow> carousel \<Rightarrow> carousel \<times> bool" where
  "Plugin_carousel pg call ca =
     (case call of
        To pos \<Rightarrow> to_item pg pos ca
      | Action name \<Rightarrow> carousel_action pg name ca
      | Options (Some name) _ \<Rightarrow> carousel_action pg name ca
      | Options None interval \<Rightarrow> if interval then (cycle False (pause pg False ca), False) else (ca, False))"

text \<open>A click on an element with \<open>data-slide\<close> or \<open>data-slide-to\<close>.\<close>

definition click_slide :: "page \<Rightarrow> string option \<Rightarrow> int option \<Rightarrow> bool \<Rightarrow> carousel \<Rightarrow> carousel \<times> bool" where
  "click_slide pg dslide slideIndex interval ca =
     (let (ca, thrown) = Plugin_carousel pg (Options dslide (interval \<and> slideIndex = None)) ca
      in if thrown then (ca, True)
         else case slideIndex of None \<Rightarrow> (ca, False) | Some pos \<Rightarrow> to_item pg pos ca)"

section \<open>Selectors\<close>

lemma length_upd_at [simp]: "length (upd_at ks f xs) = length xs"
  by (simp add: upd_at_def)

lemma nth_upd_at [simp]: "k < length xs \<Longrightarrow> upd_at ks f xs ! k = (if k \<in> set ks then f (xs ! k) else xs ! k)"
  by (simp add: upd_at_def nth_enumerate_eq)

lemma with_class_single: "with_class c xs = [a] \<longleftrightarrow> a < length xs \<and> (\<forall>k < length xs. hasClass c (xs ! k) \<longleftrightarrow> k = a)"
  by (simp add: with_class_def filter_upt_single)

text \<open>What pausing and cycling do not touch.\<close>

lemma clear_timer_sel [simp]:
  "ca_items (clear_timer t ca) = ca_items ca" "ca_indicators (clear_timer t ca) = ca_indicators ca"
  "ca_slide (clear_timer t ca) = ca_slide ca" "ca_options (clear_timer t ca) = ca_options ca"
  "ca_sliding (clear_timer t ca) = ca_sliding ca" "ca_pending (clear_timer t ca) = ca_pending ca"
  "ca_slid (clear_timer t ca) = ca_slid ca" "ca_waiting (clear_timer t ca) = ca_waiting ca"
  "ca_paused (clear_timer t ca) = ca_paused ca" "ca_interval (clear_timer t ca) = ca_interval ca"
  "ca_timers (clear_timer t ca) = (case t of None \<Rightarrow> ca_timers ca | Some t \<Rightarrow> removeAll t (ca_timers ca))"
  by (simp_all add: clear_timer_def split: option.split)

lemma cycle_sel [simp]:
  "ca_items (cycle ev ca) = ca_items ca" "ca_indicators (cycle ev ca) = ca_indicators ca"
  "ca_slide (cycle ev ca) = ca_slide ca" "ca_options (cycle ev ca) = ca_options ca"
  "ca_sliding (cycle ev ca) = ca_sliding ca" "ca_pending (cycle ev ca) = ca_pending ca"
  "ca_slid (cycle ev ca) = ca_slid ca" "ca_waiting (cycle ev ca) = ca_waiting ca"
  by (simp_all add: cycle_def Let_def)

lemma pause_sel [simp]:
  "ca_items (pause pg ev ca) = ca_items ca" "ca_indicators (pause pg ev ca) = ca_indicators ca"
  "ca_slide (pause pg ev ca) = ca_slide ca" "ca_options (pause pg ev ca) = ca_options ca"
  "ca_sliding (pause pg ev ca) = ca_sliding ca" "ca_pending (pause pg ev ca) = ca_pending ca"
  "ca_slid (pause pg ev ca) = ca_slid ca" "ca_waiting (pause pg ev ca) = ca_waiting ca"
  by (simp_all add: pause_def Let_def)

section \<open>Timers\<close>

text \<open>At most one timer runs, the one that \<open>interval\<close> names, and none while the carousel is paused.\<close>

definition timer_inv :: "carousel \<Rightarrow> bool" where
  "timer_inv ca \<longleftrightarrow> ca_timers ca = (case ca_interval ca of None \<Rightarrow> [] | Some t \<Rightarrow> [t]) \<and>
     (ca_interval ca \<noteq> None \<longrightarrow> op_interval (ca_options ca) \<and> \<not> ca_paused ca)"

lemma timer_cycle [simp]: "timer_inv ca \<Longrightarrow> timer_inv (cycle ev ca)"
  by (auto simp: timer_inv_def cycle_def Let_def split: option.splits)

lemma timer_pause [simp]: "timer_inv ca \<Longrightarrow> timer_inv (pause pg ev ca)"
  by (auto simp: timer_inv_def pause_def cycle_def Let_def split: option.splits)

lemma timer_cong: "ca_timers ca' = ca_timers ca \<Longrightarrow> ca_interval ca' = ca_interval ca \<Longrightarrow>
    ca_options ca' = ca_options ca \<Longrightarrow> ca_paused ca' = ca_paused ca \<Longrightarrow> timer_inv ca' = timer_inv ca"
  by (simp add: timer_inv_def)

section \<open>Moves\<close>

text \<open>Where a move goes from item \<open>a\<close> of \<open>n\<close>; \<open>None\<close> when it does not wrap around.\<close>

definition dest :: "slide_type \<Rightarrow> nat option \<Rightarrow> bool \<Rightarrow> nat \<Rightarrow> nat \<Rightarrow> nat option" where
  "dest ty given wrap n a =
     (case given of Some b \<Rightarrow> Some b
      | None \<Rightarrow>
          (case ty of
             TNext \<Rightarrow> if Suc a < n then Some (Suc a) else if wrap then Some 0 else None
           | TPrev \<Rightarrow> if 0 < a then Some (a - 1) else if wrap then Some (n - 1) else None))"

text \<open>The move from item \<open>a\<close> to item \<open>b\<close>.\<close>

definition move_item :: "page \<Rightarrow> slide_type \<Rightarrow> nat \<Rightarrow> nat \<Rightarrow> carousel \<Rightarrow> carousel" where
  "move_item pg ty a b ca =
     (let cyc = (ca_interval ca \<noteq> None);
          ca = ca\<lparr>ca_sliding := True\<rparr>;
          ca = move_indicator [b] (if cyc then pause pg False ca else ca);
          ca = (if animated pg ca then fst (slide_animated ty [a] [b] ca) else slide_at_once [a] [b] ca)
      in if cyc then cycle False ca else ca)"

lemma slide_eq:
  assumes "with_class ''active'' (ca_items ca) = [a]" "given = None \<or> (\<exists>b < length (ca_items ca). given = Some b)"
  shows "slide_items pg ty (map_option (\<lambda>b. [b]) given) ca =
    (case dest ty given (op_wrap (ca_options ca)) (length (ca_items ca)) a of
       None \<Rightarrow> (ca, False)
     | Some b \<Rightarrow>
         if b = a then (ca\<lparr>ca_sliding := False\<rparr>, False)
         else if pg_prevent pg b ''slide.bs.carousel'' then (ca, False)
         else (move_item pg ty a b ca, False))"
proof -
  define n where "n = length (ca_items ca)"
  define nexts where "nexts = (case given of None \<Rightarrow> siblings ty n [a] | Some b \<Rightarrow> [b])"
  have a: "a < n" "hasClass ''active'' (ca_items ca ! k) \<longleftrightarrow> k = a" if "k < n" for k
    using assms(1) that by (simp_all add: with_class_single n_def)
  have g: "(case map_option (\<lambda>b. [b]) given of None \<Rightarrow> siblings ty n [a] | Some ks \<Rightarrow> ks) = nexts"
    by (cases given) (simp_all add: nexts_def)
  have d: "(if nexts = [] \<and> \<not> op_wrap (ca_options ca) then None else Some (if nexts = [] then fallback ty n else nexts)) =
      map_option (\<lambda>b. [b]) (dest ty given (op_wrap (ca_options ca)) n a)"
    using assms by (cases given; cases ty)
      (auto simp: nexts_def siblings_def fallback_def dest_def with_class_single n_def)
  show ?thesis
  proof (cases "dest ty given (op_wrap (ca_options ca)) n a")
    case None
    with d have "nexts = [] \<and> \<not> op_wrap (ca_options ca)" by (simp split: if_splits)
    with None show ?thesis unfolding slide_items_def Let_def assms(1) n_def [symmetric] g by simp
  next
    case (Some b)
    then have b: "b < n"
      using assms by (auto simp: dest_def with_class_single n_def split: option.splits slide_type.splits if_splits)
    from Some d have e: "\<not> (nexts = [] \<and> \<not> op_wrap (ca_options ca))" "(if nexts = [] then fallback ty n else nexts) = [b]"
      by (simp_all split: if_splits)
    show ?thesis
      unfolding slide_items_def Let_def assms(1) n_def [symmetric] g if_not_P [OF e(1)] e(2) Some option.case list.case
        list.set a(2) [OF b]
      by (simp add: move_item_def Let_def slide_animated_def a(2) [OF b])
  qed
qed

section \<open>The state of the items\<close>

text \<open>The item a move ends at; the active one when there is no move.\<close>

definition goal :: "carousel \<Rightarrow> nat" where
  "goal ca = (case ca_pending ca of [] \<Rightarrow> hd (with_class ''active'' (ca_items ca)) | s # _ \<Rightarrow> hd (sc_next s))"

text \<open>The classes of a move are exactly those its end removes.\<close>

definition moving_inv :: "carousel \<Rightarrow> bool" where
  "moving_inv ca \<longleftrightarrow> (\<forall>k < length (ca_items ca). \<forall>c \<in> {''next'', ''prev'', ''left'', ''right''}.
     hasClass c (ca_items ca ! k) \<longleftrightarrow>
       (\<exists>s \<in> set (ca_pending ca). k \<in> set (sc_next s) \<and> c \<in> {class_of (sc_type s), slide_direction (sc_type s)} \<or>
          k \<in> set (sc_active s) \<and> c = slide_direction (sc_type s)))"

definition indicator_inv :: "carousel \<Rightarrow> bool" where
  "indicator_inv ca \<longleftrightarrow> (\<forall>is. ca_indicators ca = Some is \<longrightarrow> length is = length (ca_items ca) \<longrightarrow>
     with_class ''active'' is = [goal ca])"

definition item_inv :: "page \<Rightarrow> carousel \<Rightarrow> bool" where
  "item_inv pg ca \<longleftrightarrow>
     (\<exists>a. with_class ''active'' (ca_items ca) = [a] \<and>
        (ca_pending ca = [] \<or> (\<exists>b ty. b < length (ca_items ca) \<and> b \<noteq> a \<and>
           ca_pending ca = [\<lparr>sc_at = a, sc_active = [a], sc_next = [b], sc_type = ty\<rparr>]))) \<and>
     ca_sliding ca = (ca_pending ca \<noteq> []) \<and>
     (animated pg ca \<or> ca_pending ca = [] \<and> ca_slid ca = 0) \<and>
     (ca_waiting ca \<noteq> [] \<longrightarrow> ca_sliding ca \<or> ca_slid ca > 0) \<and>
     moving_inv ca \<and> indicator_inv ca"

lemma class_distinct [simp]:
  "class_of ty \<noteq> slide_direction ty'" "slide_direction ty' \<noteq> class_of ty" "class_of ty \<noteq> ''active''" "slide_direction ty \<noteq> ''active''"
  "''active'' \<noteq> class_of ty" "''active'' \<noteq> slide_direction ty"
  by (cases ty; cases ty'; simp)+

lemma move_indicator_sel [simp]:
  "ca_items (move_indicator ks ca) = ca_items ca" "ca_slide (move_indicator ks ca) = ca_slide ca"
  "ca_options (move_indicator ks ca) = ca_options ca" "ca_paused (move_indicator ks ca) = ca_paused ca"
  "ca_sliding (move_indicator ks ca) = ca_sliding ca" "ca_interval (move_indicator ks ca) = ca_interval ca"
  "ca_timers (move_indicator ks ca) = ca_timers ca" "ca_pending (move_indicator ks ca) = ca_pending ca"
  "ca_slid (move_indicator ks ca) = ca_slid ca" "ca_waiting (move_indicator ks ca) = ca_waiting ca"
  by (simp_all add: move_indicator_def split: option.split)

lemma indicator_moved:
  "ca_indicators (move_indicator [b] ca) = Some is \<Longrightarrow> b < length is \<Longrightarrow> with_class ''active'' is = [b]"
  by (auto simp: move_indicator_def with_class_single split: option.splits if_splits)

text \<open>What a move does to the items.\<close>

lemma move_sel:
  assumes "animated pg ca"
  shows "ca_items (move_item pg ty a b ca) = upd_at [b] (addClass (slide_direction ty)) (upd_at [a] (addClass (slide_direction ty))
      (upd_at [b] (addClass (class_of ty)) (ca_items ca)))"
    "ca_pending (move_item pg ty a b ca) = ca_pending ca @ [\<lparr>sc_at = a, sc_active = [a], sc_next = [b], sc_type = ty\<rparr>]"
    "ca_sliding (move_item pg ty a b ca)"
  using assms by (simp_all add: move_item_def slide_animated_def animated_def Let_def)

lemma move_at_once_sel:
  assumes "\<not> animated pg ca"
  shows "ca_items (move_item pg ty a b ca) = upd_at [b] (addClass ''active'') (upd_at [a] (removeClass ''active'') (ca_items ca))"
    "ca_pending (move_item pg ty a b ca) = ca_pending ca"
    "\<not> ca_sliding (move_item pg ty a b ca)"
  using assms by (auto simp: move_item_def slide_at_once_def animated_def Let_def)

lemma move_other_sel [simp]:
  "ca_slid (move_item pg ty a b ca) = ca_slid ca" "ca_waiting (move_item pg ty a b ca) = ca_waiting ca"
  "ca_slide (move_item pg ty a b ca) = ca_slide ca" "ca_options (move_item pg ty a b ca) = ca_options ca"
  "animated pg (move_item pg ty a b ca) = animated pg ca" "length (ca_items (move_item pg ty a b ca)) = length (ca_items ca)"
  by (simp_all add: move_item_def slide_animated_def slide_at_once_def animated_def Let_def)

lemma move_indicators: "ca_indicators (move_item pg ty a b ca) = Some is \<Longrightarrow> b < length is \<Longrightarrow> with_class ''active'' is = [b]"
  by (auto simp: move_item_def slide_animated_def slide_at_once_def Let_def dest!: indicator_moved split: if_splits)

lemma move_goal:
  assumes "with_class ''active'' (ca_items ca) = [a]" "ca_pending ca = []" "b < length (ca_items ca)" "b \<noteq> a"
  shows "with_class ''active'' (ca_items (move_item pg ty a b ca)) = [if animated pg ca then a else b]"
    "goal (move_item pg ty a b ca) = b"
proof -
  show act: "with_class ''active'' (ca_items (move_item pg ty a b ca)) = [if animated pg ca then a else b]"
    using assms by (auto simp: with_class_single move_sel move_at_once_sel)
  then show "goal (move_item pg ty a b ca) = b"
    using assms(2) by (cases "animated pg ca") (simp_all add: goal_def move_sel move_at_once_sel)
qed

lemma move_moving:
  assumes "moving_inv ca" "ca_pending ca = []" "b \<noteq> a"
  shows "moving_inv (move_item pg ty a b ca)"
  using assms by (cases "animated pg ca"; cases ty) (auto simp: moving_inv_def move_sel move_at_once_sel)

lemma item_inv_move:
  assumes "item_inv pg ca" "with_class ''active'' (ca_items ca) = [a]" "\<not> ca_sliding ca" "b < length (ca_items ca)" "b \<noteq> a"
  shows "item_inv pg (move_item pg ty a b ca)"
proof -
  have p: "ca_pending ca = []" using assms(1,3) by (simp add: item_inv_def)
  have i: "indicator_inv (move_item pg ty a b ca)"
    unfolding indicator_inv_def using move_indicators assms(4) by (auto simp: move_goal [OF assms(2) p assms(4,5)])
  have m: "moving_inv (move_item pg ty a b ca)" using assms(1,5) p by (intro move_moving) (simp_all add: item_inv_def)
  show ?thesis
    using i m assms p move_goal(1) [OF assms(2) p assms(4,5), of pg ty]
    by (cases "animated pg ca") (auto simp: item_inv_def move_sel move_at_once_sel)
qed

lemma timer_move: "timer_inv ca \<Longrightarrow> timer_inv (move_item pg ty a b ca)"
proof -
  assume a: "timer_inv ca"
  have s: "timer_inv (ca\<lparr>ca_sliding := True\<rparr>)" using a by (simp add: timer_inv_def)
  then have p: "timer_inv (pause pg False (ca\<lparr>ca_sliding := True\<rparr>))" by simp
  have "timer_inv (move_indicator [b] c) = timer_inv c" "timer_inv (fst (slide_animated ty [a] [b] c)) = timer_inv c"
    "timer_inv (slide_at_once [a] [b] c) = timer_inv c" for c
    by (simp_all add: timer_inv_def slide_animated_def slide_at_once_def Let_def)
  with s p show ?thesis by (simp add: move_item_def Let_def)
qed

definition car_inv :: "page \<Rightarrow> carousel \<Rightarrow> bool" where
  "car_inv pg ca \<longleftrightarrow> item_inv pg ca \<and> timer_inv ca"

lemma moving_cong: "ca_items ca' = ca_items ca \<Longrightarrow> ca_pending ca' = ca_pending ca \<Longrightarrow> moving_inv ca' = moving_inv ca"
  by (simp only: moving_inv_def)

lemma indicator_cong: "ca_items ca' = ca_items ca \<Longrightarrow> ca_pending ca' = ca_pending ca \<Longrightarrow>
    ca_indicators ca' = ca_indicators ca \<Longrightarrow> indicator_inv ca' = indicator_inv ca"
  by (simp only: indicator_inv_def goal_def)

lemma item_inv_cong:
  assumes "ca_items ca' = ca_items ca" "ca_pending ca' = ca_pending ca" "ca_indicators ca' = ca_indicators ca"
    "ca_sliding ca' = ca_sliding ca" "ca_slide ca' = ca_slide ca" "ca_slid ca' = ca_slid ca" "ca_waiting ca' = ca_waiting ca"
  shows "item_inv pg ca' = item_inv pg ca"
  using assms moving_cong [of ca' ca] indicator_cong [of ca' ca] by (simp only: item_inv_def animated_def)

lemma item_inv_queue:
  assumes "ca_items ca' = ca_items ca" "ca_pending ca' = ca_pending ca" "ca_indicators ca' = ca_indicators ca"
    "ca_sliding ca' = ca_sliding ca" "ca_slide ca' = ca_slide ca" "ca_slid ca' \<le> ca_slid ca"
    "ca_waiting ca' \<noteq> [] \<Longrightarrow> ca_sliding ca \<or> ca_slid ca' > 0"
  shows "item_inv pg ca \<Longrightarrow> item_inv pg ca'"
  using assms moving_cong [of ca' ca] indicator_cong [of ca' ca] unfolding item_inv_def animated_def by auto

lemma item_inv_cycle [simp]: "item_inv pg (cycle ev ca) = item_inv pg ca" "item_inv pg (pause pg' ev ca) = item_inv pg ca"
  by (rule item_inv_cong; simp)+

lemma car_inv_cycle [simp]: "car_inv pg ca \<Longrightarrow> car_inv pg (cycle ev ca)" "car_inv pg ca \<Longrightarrow> car_inv pg (pause pg ev ca)"
  by (simp_all add: car_inv_def)

lemma car_inv_active: "car_inv pg ca \<Longrightarrow> \<exists>a. with_class ''active'' (ca_items ca) = [a]"
  by (auto simp: car_inv_def item_inv_def)

lemma dest_less: "dest ty given wrap n a = Some b \<Longrightarrow> a < n \<Longrightarrow> given = None \<or> (\<exists>b < n. given = Some b) \<Longrightarrow> b < n"
  by (auto simp: dest_def split: option.splits slide_type.splits if_splits)

lemma car_inv_slide:
  assumes "car_inv pg ca" "\<not> ca_sliding ca" "given = None \<or> (\<exists>b < length (ca_items ca). given = Some b)"
  shows "car_inv pg (fst (slide_items pg ty (map_option (\<lambda>b. [b]) given) ca)) \<and> \<not> snd (slide_items pg ty (map_option (\<lambda>b. [b]) given) ca)"
proof -
  obtain a where a: "with_class ''active'' (ca_items ca) = [a]" using car_inv_active [OF assms(1)] by blast
  then have "a < length (ca_items ca)" by (simp add: with_class_single)
  moreover have "car_inv pg (move_item pg ty a b ca)" if "b < length (ca_items ca)" "b \<noteq> a" for b
    using assms that a by (simp add: car_inv_def item_inv_move timer_move)
  moreover have "ca\<lparr>ca_sliding := False\<rparr> = ca" using assms(2) by simp
  ultimately show ?thesis using dest_less [OF _ _ assms(3)] assms(1)
    by (simp add: slide_eq [OF a assms(3)] split: option.split)
qed

lemma car_inv_next: "car_inv pg ca \<Longrightarrow> car_inv pg (fst (next_item pg ca)) \<and> \<not> snd (next_item pg ca)"
  using car_inv_slide [of pg ca None TNext] by (simp add: next_item_def)

lemma car_inv_prev: "car_inv pg ca \<Longrightarrow> car_inv pg (fst (prev_item pg ca)) \<and> \<not> snd (prev_item pg ca)"
  using car_inv_slide [of pg ca None TPrev] by (simp add: prev_item_def)

lemma car_inv_wait: "car_inv pg ca \<Longrightarrow> ca_sliding ca \<Longrightarrow> car_inv pg (ca\<lparr>ca_waiting := ws\<rparr>)"
  by (auto simp: car_inv_def timer_inv_def intro: item_inv_queue [of _ ca])

lemma car_inv_to:
  assumes "car_inv pg ca"
  shows "car_inv pg (fst (to_item pg pos ca)) \<and> \<not> snd (to_item pg pos ca)"
proof -
  obtain a where a: "with_class ''active'' (ca_items ca) = [a]" using car_inv_active [OF assms] by blast
  have "car_inv pg (fst (slide_items pg ty (Some [nat pos]) ca)) \<and> \<not> snd (slide_items pg ty (Some [nat pos]) ca)"
    if "\<not> ca_sliding ca" "0 \<le> pos" "pos \<le> int (length (ca_items ca)) - 1" for ty
    using that car_inv_slide [OF assms that(1), of "Some (nat pos)" ty] by (simp add: nat_less_iff)
  then show ?thesis using assms a
    by (simp add: to_item_def getItemIndex_def car_inv_wait)
qed

lemma to_item_no_throw: "\<not> snd (to_item pg pos ca)"
proof (cases "with_class ''active'' (ca_items ca)")
  case (Cons k ks)
  then show ?thesis
    by (auto simp: to_item_def getItemIndex_def slide_items_def slide_animated_def Let_def split: prod.splits)
qed (simp add: to_item_def getItemIndex_def)

lemma goal_waiting [simp]: "goal (ca\<lparr>ca_waiting := ws\<rparr>) = goal ca"
  by (simp add: goal_def split: list.split)

lemma goal_nil: "with_class ''active'' (ca_items ca) = [a] \<Longrightarrow> ca_pending ca = [] \<Longrightarrow> goal ca = a"
  by (simp add: goal_def)

text \<open>The end of a move.\<close>

lemma finish_sel [simp]:
  "ca_pending (finish_slide s ca) = ca_pending ca" "\<not> ca_sliding (finish_slide s ca)"
  "ca_slid (finish_slide s ca) = ca_slid ca + 1" "ca_waiting (finish_slide s ca) = ca_waiting ca"
  "animated pg (finish_slide s ca) = animated pg ca" "ca_indicators (finish_slide s ca) = ca_indicators ca"
  "timer_inv (finish_slide s ca) = timer_inv ca" "length (ca_items (finish_slide s ca)) = length (ca_items ca)"
  by (simp_all add: finish_slide_def animated_def timer_inv_def Let_def)

lemma car_inv_finish:
  assumes "car_inv pg ca" "ca_pending ca = [s]"
  shows "car_inv pg (finish_slide s (ca\<lparr>ca_pending := []\<rparr>)) \<and> goal (finish_slide s (ca\<lparr>ca_pending := []\<rparr>)) = goal ca \<and>
    with_class ''active'' (ca_items (finish_slide s (ca\<lparr>ca_pending := []\<rparr>))) = [goal ca]"
proof -
  let ?ca = "finish_slide s (ca\<lparr>ca_pending := []\<rparr>)"
  from assms obtain a b ty where s: "s = \<lparr>sc_at = a, sc_active = [a], sc_next = [b], sc_type = ty\<rparr>"
    and b: "b < length (ca_items ca)" "b \<noteq> a" "with_class ''active'' (ca_items ca) = [a]"
    by (auto simp: car_inv_def item_inv_def)
  have g: "goal ca = b" by (simp add: goal_def assms(2) s)
  have act: "with_class ''active'' (ca_items ?ca) = [b]"
    using b by (auto simp: with_class_single finish_slide_def s Let_def)
  have m: "moving_inv ca" using assms(1) by (simp add: car_inv_def item_inv_def)
  then have "moving_inv ?ca"
    by (cases ty) (auto simp: moving_inv_def finish_slide_def s assms(2) Let_def)
  moreover have "goal ?ca = b" using act by (simp add: goal_def)
  moreover have "indicator_inv ?ca"
    using assms(1) act g calculation(2) by (simp add: car_inv_def item_inv_def indicator_inv_def)
  moreover have "animated pg ca" "timer_inv (ca\<lparr>ca_pending := []\<rparr>)"
    using assms by (auto simp: car_inv_def item_inv_def timer_inv_def)
  moreover then have "animated pg (ca\<lparr>ca_pending := []\<rparr>)" by (simp add: animated_def)
  ultimately show ?thesis using act g by (simp add: car_inv_def item_inv_def)
qed

lemma car_inv_end:
  assumes "car_inv pg ca"
  shows "car_inv pg (item_transition_end k ca)"
proof (cases "\<exists>s. ca_pending ca = [s] \<and> sc_at s = k")
  case True
  then show ?thesis using car_inv_finish [OF assms] by (auto simp: item_transition_end_def)
next
  case False
  then have "filter (\<lambda>s. sc_at s = k) (ca_pending ca) = []" "filter (\<lambda>s. sc_at s \<noteq> k) (ca_pending ca) = ca_pending ca"
    using assms by (auto simp: car_inv_def item_inv_def)
  with assms show ?thesis by (simp add: item_transition_end_def)
qed

lemma car_inv_slid:
  assumes "car_inv pg ca"
  shows "car_inv pg (slid pg ca)"
proof -
  have f: "car_inv pg (fold (\<lambda>pos ca. fst (to_item pg pos ca)) ws c)" if "car_inv pg c" for ws c
    using that by (induction ws arbitrary: c) (simp_all add: car_inv_to)
  have "car_inv pg (ca\<lparr>ca_slid := ca_slid ca - 1, ca_waiting := []\<rparr>)"
    using assms by (auto simp: car_inv_def timer_inv_def intro: item_inv_queue [of _ ca])
  with f assms show ?thesis by (simp add: slid_def)
qed

section \<open>Reachable states\<close>

inductive car_step :: "page \<Rightarrow> carousel \<Rightarrow> carousel \<Rightarrow> bool" for pg where
  call: "car_step pg ca (fst (Plugin_carousel pg c ca))"
| click: "car_step pg ca (fst (click_slide pg dslide idx interval ca))"
| key: "car_step pg ca (fst (carousel_keydown pg which ca))"
| enter: "op_hover (ca_options ca) \<Longrightarrow> car_step pg ca (pause pg True ca)"
| leave: "op_hover (ca_options ca) \<Longrightarrow> car_step pg ca (cycle True ca)"
| tick: "t \<in> set (ca_timers ca) \<Longrightarrow> car_step pg ca (fst (next_item pg ca))"
| ends: "car_step pg ca (item_transition_end k ca)"
| deferred: "car_step pg ca (slid pg ca)"

lemma car_inv_Plugin: "car_inv pg ca \<Longrightarrow> car_inv pg (fst (Plugin_carousel pg c ca))"
  by (auto simp: Plugin_carousel_def carousel_action_def car_inv_to car_inv_next car_inv_prev split: carousel_call.split option.split)

lemma car_inv_click: "car_inv pg ca \<Longrightarrow> car_inv pg (fst (click_slide pg dslide idx interval ca))"
  using car_inv_Plugin [of pg ca "Options dslide (interval \<and> idx = None)"]
  by (auto simp: click_slide_def car_inv_to split: prod.splits option.split)

lemma car_inv_step: "car_step pg ca ca' \<Longrightarrow> car_inv pg ca \<Longrightarrow> car_inv pg ca'"
  by (induction rule: car_step.induct) (simp_all add: car_inv_Plugin car_inv_click car_inv_next car_inv_prev carousel_keydown_def car_inv_end car_inv_slid)

interpretation carousel: machine "car_step pg" "car_inv pg" for pg
  by unfold_locales (rule car_inv_step)

text \<open>A carousel as it is loaded: one item is active, none moves, and the indicator of that item is active.\<close>

definition loaded_carousel :: "carousel \<Rightarrow> bool" where
  "loaded_carousel ca \<longleftrightarrow> (\<exists>items ind animate opts.
     ca = new_carousel items ind animate opts \<and> length (with_class ''active'' items) = 1 \<and>
     (\<forall>x \<in> set items. \<forall>c \<in> {''next'', ''prev'', ''left'', ''right''}. \<not> hasClass c x) \<and>
     (\<forall>is. ind = Some is \<longrightarrow> length is = length items \<longrightarrow> with_class ''active'' is = with_class ''active'' items))"

lemma car_inv_loaded: "loaded_carousel ca \<Longrightarrow> car_inv pg ca"
  by (auto simp: loaded_carousel_def car_inv_def item_inv_def timer_inv_def moving_inv_def indicator_inv_def goal_def
      new_carousel_def length_Suc_conv)

lemmas reachable_inv = carousel.reachable [OF _ car_inv_loaded]

lemma end_active:
  assumes "car_inv pg ca" "with_class ''active'' (ca_items ca) = [a]"
  shows "with_class ''active'' (ca_items (item_transition_end a ca)) = [goal ca] \<and> \<not> ca_sliding (item_transition_end a ca)"
proof (cases "ca_pending ca")
  case Nil
  with assms show ?thesis by (simp add: item_transition_end_def goal_def car_inv_def item_inv_def)
next
  case (Cons s ss)
  with assms have "ca_pending ca = [s]" "sc_at s = a" by (auto simp: car_inv_def item_inv_def)
  with car_inv_finish [OF assms(1)] show ?thesis by (simp add: item_transition_end_def)
qed

lemma end_len [simp]: "length (ca_items (item_transition_end k ca)) = length (ca_items ca)"
proof -
  have "length (ca_items (fold finish_slide ss c)) = length (ca_items c)" for ss c
    by (induction ss arbitrary: c) simp_all
  then show ?thesis by (simp add: item_transition_end_def)
qed

text \<open>A call that moves has its destination as the goal.\<close>

lemma slide_goal:
  assumes "car_inv pg ca" "\<not> ca_sliding ca" "given = None \<or> (\<exists>b < length (ca_items ca). given = Some b)"
    "with_class ''active'' (ca_items ca) = [a]" "dest ty given (op_wrap (ca_options ca)) (length (ca_items ca)) a = Some b"
    "\<not> pg_prevent pg b ''slide.bs.carousel''"
  shows "goal (fst (slide_items pg ty (map_option (\<lambda>b. [b]) given) ca)) = b"
proof -
  have p: "ca_pending ca = []" using assms(1,2) by (simp add: car_inv_def item_inv_def)
  have b: "b < length (ca_items ca)" using dest_less [OF assms(5)] assms(3,4) by (simp add: with_class_single)
  have "ca\<lparr>ca_sliding := False\<rparr> = ca" using assms(2) by simp
  then show ?thesis using assms(5,6) move_goal(2) [OF assms(4) p b] goal_nil [OF assms(4) p]
    by (simp add: slide_eq [OF assms(4,3)])
qed

lemma to_goal:
  assumes "car_inv pg ca" "\<not> ca_sliding ca" "0 \<le> pos" "pos < int (length (ca_items ca))"
    "\<not> pg_prevent pg (nat pos) ''slide.bs.carousel''"
  shows "goal (fst (to_item pg pos ca)) = nat pos"
proof -
  obtain a where a: "with_class ''active'' (ca_items ca) = [a]" using car_inv_active [OF assms(1)] by blast
  have "goal (fst (slide_items pg ty (Some [nat pos]) ca)) = nat pos" for ty
    using slide_goal [OF assms(1,2) _ a, of "Some (nat pos)" ty "nat pos"] assms(3-5) by (simp add: dest_def nat_less_iff)
  moreover have "goal (cycle False (pause pg False ca)) = a"
    using a assms(1,2) by (simp add: goal_def car_inv_def item_inv_def)
  ultimately show ?thesis using assms(2-4) a by (auto simp: to_item_def getItemIndex_def)
qed

lemma to_active:
  assumes "car_inv pg ca" "\<not> ca_sliding ca" "animated pg ca"
  shows "with_class ''active'' (ca_items (fst (to_item pg pos ca))) = with_class ''active'' (ca_items ca)"
proof -
  obtain a where a: "with_class ''active'' (ca_items ca) = [a]" using car_inv_active [OF assms(1)] by blast
  have p: "ca_pending ca = []" using assms(1,2) by (simp add: car_inv_def item_inv_def)
  have "with_class ''active'' (ca_items (fst (slide_items pg ty (Some [nat pos]) ca))) = [a]"
    if "0 \<le> pos" "pos < int (length (ca_items ca))" for ty
  proof -
    have "nat pos < length (ca_items ca)" using that by simp
    then show ?thesis using slide_eq [OF a, of "Some (nat pos)" pg ty] a assms(3) move_goal(1) [OF a p]
      by (auto simp: dest_def)
  qed
  then show ?thesis using a by (simp add: to_item_def getItemIndex_def)
qed

text \<open>
  C14. In every state of a carousel that was loaded with one active item, whatever calls, keys, clicks,
  timers and ends of transitions come: exactly one item is active; no call of \<open>next\<close>, \<open>prev\<close> or \<open>to\<close>
  throws; at most one interval timer runs, and \<open>pause\<close> stops it; when no move is under way no item has a
  class of a move left, and the indicator of the active item is the active one.
\<close>

theorem carousel_one_active:
  assumes "(car_step pg)\<^sup>*\<^sup>* ca0 ca" "loaded_carousel ca0"
  shows "\<exists>a. with_class ''active'' (ca_items ca) = [a] \<and>
    \<not> snd (next_item pg ca) \<and> \<not> snd (prev_item pg ca) \<and> (\<forall>pos. \<not> snd (to_item pg pos ca)) \<and>
    length (ca_timers ca) \<le> 1 \<and> ca_timers (pause pg False ca) = [] \<and>
    (\<not> ca_sliding ca \<longrightarrow>
      (\<forall>k < length (ca_items ca). \<forall>c \<in> {''next'', ''prev'', ''left'', ''right''}. \<not> hasClass c (ca_items ca ! k)) \<and>
      (\<forall>is. ca_indicators ca = Some is \<longrightarrow> length is = length (ca_items ca) \<longrightarrow> with_class ''active'' is = [a]))"
proof -
  have inv: "car_inv pg ca" using reachable_inv [OF assms] .
  obtain a where a: "with_class ''active'' (ca_items ca) = [a]" using car_inv_active [OF inv] by blast
  have "ca_timers (pause pg False ca) = []"
    using inv by (auto simp: car_inv_def timer_inv_def pause_def cycle_def Let_def split: option.splits)
  moreover have "length (ca_timers ca) \<le> 1" using inv by (auto simp: car_inv_def timer_inv_def split: option.splits)
  moreover have "\<forall>k < length (ca_items ca). \<forall>c \<in> {''next'', ''prev'', ''left'', ''right''}. \<not> hasClass c (ca_items ca ! k)"
    "indicator_inv ca" "goal ca = a" if "\<not> ca_sliding ca"
    using inv that a by (simp_all add: car_inv_def item_inv_def moving_inv_def goal_def)
  ultimately show ?thesis using a car_inv_next [OF inv] car_inv_prev [OF inv] to_item_no_throw
    unfolding indicator_inv_def by blast
qed

lemma mod_step:
  fixes a n :: nat
  assumes "a < n"
  shows "(a + 1) mod n = (if Suc a < n then Suc a else 0)" "(a + n - 1) mod n = (if 0 < a then a - 1 else n - 1)"
proof -
  show "(a + 1) mod n = (if Suc a < n then Suc a else 0)"
    using assms by (cases "Suc a = n") auto
  show "(a + n - 1) mod n = (if 0 < a then a - 1 else n - 1)"
  proof (cases a)
    case (Suc b)
    then have "(a + n - 1) mod n = (b + n) mod n" by simp
    with Suc assms show ?thesis by simp
  qed (use assms in simp)
qed

text \<open>
  C15. Moving wraps around: with the option \<open>wrap\<close> and no listener that prevents it, \<open>next\<close> from item \<open>a\<close>
  of \<open>n\<close> ends, with the transition of that item, at item \<open>(a + 1) mod n\<close>, and \<open>prev\<close> at \<open>(a + n - 1) mod n\<close>.
\<close>

theorem carousel_wraps:
  assumes "(car_step pg)\<^sup>*\<^sup>* ca0 ca" "loaded_carousel ca0" "\<not> ca_sliding ca" "op_wrap (ca_options ca)"
    "\<forall>k. \<not> pg_prevent pg k ''slide.bs.carousel''" "with_class ''active'' (ca_items ca) = [a]"
  shows "let n = length (ca_items ca); next_ca = fst (next_item pg ca); prev_ca = fst (prev_item pg ca);
      settled = (\<lambda>c. with_class ''active'' (ca_items (item_transition_end (hd (with_class ''active'' (ca_items c))) c)))
    in settled next_ca = [(a + 1) mod n] \<and> settled prev_ca = [(a + n - 1) mod n]"
proof -
  let ?n = "length (ca_items ca)"
  have inv: "car_inv pg ca" using reachable_inv [OF assms(1,2)] .
  have a: "a < ?n" using assms(6) by (simp add: with_class_single)
  note mod = mod_step [OF a]
  have "goal (fst (next_item pg ca)) = (a + 1) mod ?n"
    using slide_goal [OF inv assms(3) _ assms(6), of None TNext "(a + 1) mod ?n"] assms(3-5) mod(1)
    by (simp add: next_item_def dest_def)
  moreover have "goal (fst (prev_item pg ca)) = (a + ?n - 1) mod ?n"
    using slide_goal [OF inv assms(3) _ assms(6), of None TPrev "(a + ?n - 1) mod ?n"] assms(3-5) mod(2)
    by (simp add: prev_item_def dest_def)
  moreover have "with_class ''active'' (ca_items (item_transition_end (hd (with_class ''active'' (ca_items c))) c)) = [goal c]"
    if "car_inv pg c" for c
    using car_inv_active [OF that] end_active [OF that] by auto
  ultimately show ?thesis using car_inv_next [OF inv] car_inv_prev [OF inv] by (simp add: Let_def)
qed

text \<open>
  A call of \<open>to\<close> during a move is not lost: it waits, and after the transition of the active item, the
  event \<open>slid\<close> and the transition of the item that was active then, the carousel shows the item that
  was asked for.
\<close>

theorem carousel_to_waits:
  assumes "(car_step pg)\<^sup>*\<^sup>* ca0 ca" "loaded_carousel ca0" "ca_sliding ca" "ca_waiting ca = []"
    "0 \<le> pos" "pos < int (length (ca_items ca))" "\<not> pg_prevent pg (nat pos) ''slide.bs.carousel''"
    "with_class ''active'' (ca_items ca) = [a]"
  shows "let waiting = fst (to_item pg pos ca); ended = item_transition_end a waiting; moved = slid pg ended;
      settled = item_transition_end (goal ca) moved
    in ca_waiting waiting = [pos] \<and> with_class ''active'' (ca_items ended) = [goal ca] \<and>
       with_class ''active'' (ca_items settled) = [nat pos]"
proof -
  define w where "w = fst (to_item pg pos ca)"
  define e where "e = item_transition_end a w"
  define d where "d = e\<lparr>ca_slid := ca_slid e - 1, ca_waiting := []\<rparr>"
  have inv: "car_inv pg ca" using reachable_inv [OF assms(1,2)] .
  have w: "w = ca\<lparr>ca_waiting := [pos]\<rparr>"
    using assms(3-6,8) by (simp add: w_def to_item_def getItemIndex_def)
  then have winv: "car_inv pg w" using car_inv_wait inv assms(3) by simp
  obtain s where s: "ca_pending ca = [s]" "sc_at s = a"
    using inv assms(3,8) by (auto simp: car_inv_def item_inv_def)
  have e: "e = finish_slide s (w\<lparr>ca_pending := []\<rparr>)" by (simp add: e_def item_transition_end_def s w)
  have act: "with_class ''active'' (ca_items e) = [goal ca]" "\<not> ca_sliding e"
    using end_active [OF winv, of a] assms(8) by (simp_all add: e_def w)
  have len: "length (ca_items e) = length (ca_items ca)" by (simp add: e_def w)
  then have dinv: "car_inv pg d" "\<not> ca_sliding d" "with_class ''active'' (ca_items d) = [goal ca]"
    "length (ca_items d) = length (ca_items ca)"
    using car_inv_end [OF winv, of a] act
    by (auto simp: d_def e_def [symmetric] car_inv_def timer_inv_def intro: item_inv_queue [of _ e])
  have m: "slid pg e = fst (to_item pg pos d)" by (simp add: slid_def d_def e w)
  then have minv: "car_inv pg (slid pg e)" "goal (slid pg e) = nat pos"
    using car_inv_to [OF dinv(1)] to_goal [OF dinv(1,2)] assms(5-7) dinv(4) by simp_all
  have "animated pg d"
    using inv s by (auto simp: d_def e w car_inv_def item_inv_def animated_def finish_slide_def Let_def)
  then have "with_class ''active'' (ca_items (slid pg e)) = [goal ca]"
    using to_active [OF dinv(1,2)] dinv(3) m by simp
  then have "with_class ''active'' (ca_items (item_transition_end (goal ca) (slid pg e))) = [nat pos]"
    using end_active [OF minv(1)] minv(2) by simp
  moreover have "ca_waiting w = [pos]" by (simp add: w)
  ultimately show ?thesis using act(1) unfolding Let_def w_def [symmetric] e_def [symmetric] by blast
qed

section \<open>An example\<close>

definition demo_carousel :: carousel where
  "demo_carousel = new_carousel [[''item''], [''item'', ''active''], [''item'']] (Some [[], [''active''], []]) True
     \<lparr>op_interval = True, op_hover = True, op_wrap = True\<rparr>"

definition demo_host :: page where
  "demo_host = \<lparr>pg_transition = True, pg_prevent = \<lambda>_ _. False\<rparr>"

lemma demo_carousel_loaded: "loaded_carousel demo_carousel"
  unfolding loaded_carousel_def
  by (rule exI, rule exI, rule exI, rule exI, rule conjI, rule demo_carousel_def)
    (simp add: with_class_def hasClass_def)

lemma demo_sliding: "(car_step demo_host)\<^sup>*\<^sup>* demo_carousel (fst (Plugin_carousel demo_host (Action ''next'') demo_carousel))"
  by (rule r_into_rtranclp, rule car_step.call)

theorem carousel_one_active_witness:
  "length (with_class ''active'' (ca_items (fst (Plugin_carousel demo_host (Action ''next'') demo_carousel)))) = 1"
  using carousel_one_active [OF demo_sliding demo_carousel_loaded] by auto

theorem carousel_wraps_witness:
  "with_class ''active'' (ca_items (item_transition_end 1 (fst (next_item demo_host demo_carousel)))) = [2]"
proof -
  have "\<not> ca_sliding demo_carousel" "op_wrap (ca_options demo_carousel)" "with_class ''active'' (ca_items demo_carousel) = [1]"
    "length (ca_items demo_carousel) = 3" "hd (with_class ''active'' (ca_items (fst (next_item demo_host demo_carousel)))) = 1"
    by code_simp+
  with carousel_wraps [OF rtranclp.rtrancl_refl demo_carousel_loaded, of demo_host 1] show ?thesis
    by (simp add: demo_host_def Let_def)
qed

theorem carousel_to_waits_witness:
  "let ca = fst (Plugin_carousel demo_host (Action ''next'') demo_carousel)
   in with_class ''active'' (ca_items (item_transition_end 2 (slid demo_host (item_transition_end 1
        (fst (to_item demo_host 0 ca)))))) = [0]"
proof -
  let ?ca = "fst (Plugin_carousel demo_host (Action ''next'') demo_carousel)"
  have "ca_sliding ?ca" "ca_waiting ?ca = []" "length (ca_items ?ca) = 3" "with_class ''active'' (ca_items ?ca) = [1]"
    "goal ?ca = 2" "\<not> pg_prevent demo_host (nat 0) ''slide.bs.carousel''" by code_simp+
  with carousel_to_waits [OF demo_sliding demo_carousel_loaded, of 0 1] show ?thesis by (simp add: Let_def)
qed

end
