(* ===== verification/Bootstrap_Modal.thy ===== *)
theory Bootstrap_Modal
  imports Page
begin

text \<open>
  The modal dialog of \<open>bootstrap-3.2.0.js\<close>. Showing and hiding go through up to two transitions each, of
  the backdrop, the element and the dialog inside it; what is to happen after them is kept in the list
  of pending callbacks with the place whose transition they wait for.
\<close>

section \<open>Data\<close>

datatype backdrop_option = BdFalse | BdTrue | BdStatic

record modal_options =
  mp_backdrop :: backdrop_option
  mp_keyboard :: bool

datatype spot = AtBackdrop nat | AtElement | AtDialog

text \<open>The callbacks given to \<open>backdrop\<close>, and all handlers of transitions.\<close>

datatype after = ShowRest | HiddenEvent

datatype callback = After after | ShownEvent | HideModal | RemoveThen after

text \<open>
  The element with its classes \<open>fade\<close> and \<open>in\<close>, whether it is displayed and in the document; the object
  with its backdrop, of all backdrops in the document; how many handlers are bound to the buttons
  that dismiss it, to clicks beside it and to keys, and whether focus is enforced; the inline padding
  and the class \<open>modal-open\<close> of the body.
\<close>

record modal =
  mo_options :: modal_options
  mo_fade :: bool
  mo_in :: bool
  mo_display :: bool
  mo_hidden :: bool
  mo_attached :: bool
  mo_shown :: bool
  mo_backdrop :: "nat option"
  mo_scrollbarWidth :: int
  mo_document :: "nat list"
  mo_fresh :: nat
  mo_dismiss :: nat
  mo_outside :: nat
  mo_keyup :: nat
  mo_focusin :: bool
  mo_body_open :: bool
  mo_padding :: "int option"
  mo_pending :: "(spot \<times> callback) list"
  mo_log :: "string list"

text \<open>What the window says: whether a scrollbar takes space, its width, and the padding of the style sheet.\<close>

record window =
  wi_page :: page
  wi_overflow :: bool
  wi_scrollbar :: int
  wi_padding :: int

definition transitions :: "window \<Rightarrow> modal \<Rightarrow> bool" where
  "transitions wi mo \<longleftrightarrow> pg_transition (wi_page wi) \<and> mo_fade mo"

definition prevented :: "window \<Rightarrow> string \<Rightarrow> bool" where
  "prevented wi ev = pg_prevent (wi_page wi) 0 ev"

definition log_modal :: "string \<Rightarrow> modal \<Rightarrow> modal" where
  "log_modal ev mo = mo\<lparr>mo_log := mo_log mo @ [ev]\<rparr>"

definition pend :: "spot \<Rightarrow> callback \<Rightarrow> modal \<Rightarrow> modal" where
  "pend p cb mo = mo\<lparr>mo_pending := mo_pending mo @ [(p, cb)]\<rparr>"

section \<open>Operations\<close>

definition checkScrollbar :: "window \<Rightarrow> modal \<Rightarrow> modal" where
  "checkScrollbar wi mo =
     (if \<not> wi_overflow wi then mo
      else mo\<lparr>mo_scrollbarWidth := (if mo_scrollbarWidth mo \<noteq> 0 then mo_scrollbarWidth mo else wi_scrollbar wi)\<rparr>)"

definition setScrollbar :: "window \<Rightarrow> modal \<Rightarrow> modal" where
  "setScrollbar wi mo =
     (let bodyPad = (case mo_padding mo of Some p \<Rightarrow> p | None \<Rightarrow> wi_padding wi)
      in if mo_scrollbarWidth mo \<noteq> 0 then mo\<lparr>mo_padding := Some (bodyPad + mo_scrollbarWidth mo)\<rparr> else mo)"

definition resetScrollbar :: "modal \<Rightarrow> modal" where
  "resetScrollbar mo = mo\<lparr>mo_padding := None\<rparr>"

definition escape :: "modal \<Rightarrow> modal" where
  "escape mo =
     (if mo_shown mo \<and> mp_keyboard (mo_options mo) then mo\<lparr>mo_keyup := mo_keyup mo + 1\<rparr>
      else if \<not> mo_shown mo then mo\<lparr>mo_keyup := 0\<rparr> else mo)"

definition enforceFocus :: "modal \<Rightarrow> modal" where
  "enforceFocus mo = mo\<lparr>mo_focusin := True\<rparr>"

text \<open>The functions given to \<open>backdrop\<close> by \<open>show\<close> and by \<open>hideModal\<close>.\<close>

definition run_after :: "window \<Rightarrow> after \<Rightarrow> modal \<Rightarrow> modal" where
  "run_after wi cb mo =
     (case cb of
        HiddenEvent \<Rightarrow> log_modal ''hidden.bs.modal'' mo
      | ShowRest \<Rightarrow>
          (let mo = enforceFocus (mo\<lparr>mo_attached := True, mo_display := True, mo_in := True, mo_hidden := False\<rparr>)
           in if transitions wi mo then pend AtDialog ShownEvent mo
              else log_modal ''shown.bs.modal'' mo))"

text \<open>A backdrop that is removed takes the handlers bound to it along.\<close>

definition removeBackdrop :: "modal \<Rightarrow> modal" where
  "removeBackdrop mo =
     (case mo_backdrop mo of None \<Rightarrow> mo
      | Some b \<Rightarrow> mo\<lparr>mo_document := removeAll b (mo_document mo), mo_backdrop := None,
                   mo_pending := filter (\<lambda>(p, _). p \<noteq> AtBackdrop b) (mo_pending mo)\<rparr>)"

definition backdrop :: "window \<Rightarrow> after \<Rightarrow> modal \<Rightarrow> modal" where
  "backdrop wi cb mo =
     (if mo_shown mo \<and> mp_backdrop (mo_options mo) \<noteq> BdFalse
      then (let b = mo_fresh mo;
                mo = mo\<lparr>mo_backdrop := Some b, mo_document := mo_document mo @ [b], mo_fresh := b + 1,
                        mo_outside := mo_outside mo + 1\<rparr>
            in if transitions wi mo then pend (AtBackdrop b) (After cb) mo else run_after wi cb mo)
      else (case mo_backdrop mo of
              Some b \<Rightarrow>
                if \<not> mo_shown mo
                then if transitions wi mo then pend (AtBackdrop b) (RemoveThen cb) mo
                     else run_after wi cb (removeBackdrop mo)
                else run_after wi cb mo
            | None \<Rightarrow> run_after wi cb mo))"

definition hideModal :: "window \<Rightarrow> modal \<Rightarrow> modal" where
  "hideModal wi mo = backdrop wi HiddenEvent (mo\<lparr>mo_display := False\<rparr>)"

definition show_modal :: "window \<Rightarrow> modal \<Rightarrow> modal" where
  "show_modal wi mo =
     (let mo = log_modal ''show.bs.modal'' mo
      in if mo_shown mo \<or> prevented wi ''show.bs.modal'' then mo
         else
           (let mo = checkScrollbar wi (mo\<lparr>mo_shown := True\<rparr>);
                mo = escape (setScrollbar wi (mo\<lparr>mo_body_open := True\<rparr>))
            in backdrop wi ShowRest (mo\<lparr>mo_dismiss := mo_dismiss mo + 1\<rparr>)))"

definition hide_modal :: "window \<Rightarrow> modal \<Rightarrow> modal" where
  "hide_modal wi mo =
     (let mo = log_modal ''hide.bs.modal'' mo
      in if \<not> mo_shown mo \<or> prevented wi ''hide.bs.modal'' then mo
         else
           (let mo = escape (resetScrollbar (mo\<lparr>mo_shown := False, mo_body_open := False\<rparr>));
                mo = mo\<lparr>mo_focusin := False, mo_in := False, mo_hidden := True, mo_dismiss := 0, mo_outside := 0\<rparr>
            in if transitions wi mo then pend AtElement HideModal mo else hideModal wi mo))"

definition toggle_modal :: "window \<Rightarrow> modal \<Rightarrow> modal" where
  "toggle_modal wi mo = (if mo_shown mo then hide_modal wi mo else show_modal wi mo)"

text \<open>The end of the transition at a place runs the handlers bound there, once.\<close>

definition run_callback :: "window \<Rightarrow> callback \<Rightarrow> modal \<Rightarrow> modal" where
  "run_callback wi cb mo =
     (case cb of
        After a \<Rightarrow> run_after wi a mo
      | ShownEvent \<Rightarrow> log_modal ''shown.bs.modal'' mo
      | HideModal \<Rightarrow> hideModal wi mo
      | RemoveThen a \<Rightarrow> run_after wi a (removeBackdrop mo))"

definition end_at :: "window \<Rightarrow> spot \<Rightarrow> modal \<Rightarrow> modal" where
  "end_at wi p mo =
     fold (\<lambda>(_, cb). run_callback wi cb) (filter (\<lambda>(q, _). q = p) (mo_pending mo))
       (mo\<lparr>mo_pending := filter (\<lambda>(q, _). q \<noteq> p) (mo_pending mo)\<rparr>)"

text \<open>Clicks on the buttons that dismiss, beside the dialog, and keys, as far as handlers are bound.\<close>

definition click_dismiss :: "window \<Rightarrow> modal \<Rightarrow> modal" where
  "click_dismiss wi mo = (hide_modal wi ^^ mo_dismiss mo) mo"

definition click_outside :: "window \<Rightarrow> modal \<Rightarrow> modal" where
  "click_outside wi mo =
     (if mp_backdrop (mo_options mo) = BdStatic then mo else (hide_modal wi ^^ mo_outside mo) mo)"

definition keyup :: "window \<Rightarrow> nat \<Rightarrow> modal \<Rightarrow> modal" where
  "keyup wi which mo = (if which = 27 then (hide_modal wi ^^ mo_keyup mo) mo else mo)"

text \<open>\<open>new Modal(element, options)\<close>, with the element hidden, and the plugin.\<close>

definition new_modal :: "bool \<Rightarrow> bool \<Rightarrow> modal_options \<Rightarrow> modal" where
  "new_modal fade attached options =
     \<lparr>mo_options = options, mo_fade = fade, mo_in = False, mo_display = False, mo_hidden = True, mo_attached = attached,
      mo_shown = False, mo_backdrop = None, mo_scrollbarWidth = 0, mo_document = [], mo_fresh = 0, mo_dismiss = 0,
      mo_outside = 0, mo_keyup = 0, mo_focusin = False, mo_body_open = False, mo_padding = None, mo_pending = [],
      mo_log = []\<rparr>"

datatype modal_call = CallShow | CallHide | CallToggle | CallOptions bool

definition Plugin_modal :: "window \<Rightarrow> modal_call \<Rightarrow> modal \<Rightarrow> modal" where
  "Plugin_modal wi call mo =
     (case call of CallShow \<Rightarrow> show_modal wi mo | CallHide \<Rightarrow> hide_modal wi mo | CallToggle \<Rightarrow> toggle_modal wi mo
      | CallOptions show_option \<Rightarrow> if show_option then show_modal wi mo else mo)"

text \<open>The transitions that are under way end one after the other, at most \<open>n\<close> of them.\<close>

fun settle :: "window \<Rightarrow> nat \<Rightarrow> modal \<Rightarrow> modal" where
  "settle wi 0 mo = mo"
| "settle wi (Suc n) mo = (case mo_pending mo of [] \<Rightarrow> mo | (p, _) # _ \<Rightarrow> settle wi n (end_at wi p mo))"

section \<open>Handlers\<close>

text \<open>The handlers of a modal are bound exactly while it is shown.\<close>

definition mo_inv :: "modal \<Rightarrow> bool" where
  "mo_inv mo \<longleftrightarrow> mo_body_open mo = mo_shown mo \<and> mo_dismiss mo = (if mo_shown mo then 1 else 0) \<and>
     mo_keyup mo = (if mo_shown mo \<and> mp_keyboard (mo_options mo) then 1 else 0) \<and>
     (\<not> mo_shown mo \<longrightarrow> mo_outside mo = 0 \<and> mo_padding mo = None)"

lemma mo_inv_cong:
  "mo_body_open mo' = mo_body_open mo \<Longrightarrow> mo_shown mo' = mo_shown mo \<Longrightarrow> mo_dismiss mo' = mo_dismiss mo \<Longrightarrow>
   mo_keyup mo' = mo_keyup mo \<Longrightarrow> mo_options mo' = mo_options mo \<Longrightarrow> mo_outside mo' = mo_outside mo \<Longrightarrow>
   mo_padding mo' = mo_padding mo \<Longrightarrow> mo_inv mo' = mo_inv mo"
  by (simp add: mo_inv_def)

lemma mo_inv_simple [simp]:
  "mo_inv (log_modal ev mo) = mo_inv mo" "mo_inv (pend p cb mo) = mo_inv mo" "mo_inv (enforceFocus mo) = mo_inv mo"
  "mo_inv (removeBackdrop mo) = mo_inv mo" "mo_inv (run_after wi a mo) = mo_inv mo"
  by (auto simp: mo_inv_def log_modal_def pend_def enforceFocus_def removeBackdrop_def run_after_def Let_def
      split: option.splits after.splits)

lemma mo_inv_backdrop [simp]: "mo_inv mo \<Longrightarrow> mo_inv (backdrop wi cb mo)"
  by (auto simp: backdrop_def Let_def split: option.splits) (auto simp: mo_inv_def)

lemma mo_inv_hideModal [simp]: "mo_inv mo \<Longrightarrow> mo_inv (hideModal wi mo)"
  unfolding hideModal_def by (rule mo_inv_backdrop) (simp add: mo_inv_def)

text \<open>What \<open>show\<close> and \<open>hide\<close> have done when they come to the backdrop and the transition.\<close>

definition opened :: "int \<Rightarrow> int option \<Rightarrow> modal \<Rightarrow> modal" where
  "opened w p mo = mo\<lparr>mo_log := mo_log mo @ [''show.bs.modal''], mo_shown := True, mo_scrollbarWidth := w,
     mo_body_open := True, mo_padding := p,
     mo_keyup := (if mp_keyboard (mo_options mo) then mo_keyup mo + 1 else mo_keyup mo), mo_dismiss := mo_dismiss mo + 1\<rparr>"

lemma show_refused: "mo_shown mo \<or> prevented wi ''show.bs.modal'' \<Longrightarrow> show_modal wi mo = log_modal ''show.bs.modal'' mo"
  by (auto simp: show_modal_def log_modal_def Let_def)

lemma show_opening:
  assumes "\<not> mo_shown mo" "\<not> prevented wi ''show.bs.modal''"
  shows "\<exists>w p. show_modal wi mo = backdrop wi ShowRest (opened w p mo)"
proof -
  have "\<exists>w. checkScrollbar wi m = m\<lparr>mo_scrollbarWidth := w\<rparr>" for m
    by (cases m) (auto simp: checkScrollbar_def)
  then obtain w where w: "checkScrollbar wi ((log_modal ''show.bs.modal'' mo)\<lparr>mo_shown := True\<rparr>) =
      (log_modal ''show.bs.modal'' mo)\<lparr>mo_shown := True, mo_scrollbarWidth := w\<rparr>" by blast
  have "\<exists>p. setScrollbar wi m = m\<lparr>mo_padding := p\<rparr>" for m
    by (cases m) (auto simp: setScrollbar_def Let_def)
  then obtain p where p: "setScrollbar wi ((log_modal ''show.bs.modal'' mo)\<lparr>mo_shown := True, mo_scrollbarWidth := w,
        mo_body_open := True\<rparr>) =
      (log_modal ''show.bs.modal'' mo)\<lparr>mo_shown := True, mo_scrollbarWidth := w, mo_body_open := True, mo_padding := p\<rparr>"
    by blast
  have "\<not> mo_shown (log_modal ''show.bs.modal'' mo)" using assms(1) by (simp add: log_modal_def)
  then have "show_modal wi mo = backdrop wi ShowRest (opened w p mo)"
    using assms(2) by (simp add: show_modal_def Let_def w p) (simp add: escape_def log_modal_def opened_def)
  then show ?thesis by blast
qed

lemma hide_modal_eq:
  "hide_modal wi mo =
    (if \<not> mo_shown mo \<or> prevented wi ''hide.bs.modal'' then log_modal ''hide.bs.modal'' mo
     else (let mo = mo\<lparr>mo_log := mo_log mo @ [''hide.bs.modal''], mo_shown := False, mo_body_open := False,
       mo_padding := None, mo_keyup := 0, mo_focusin := False, mo_in := False, mo_hidden := True, mo_dismiss := 0,
       mo_outside := 0\<rparr> in if transitions wi mo then pend AtElement HideModal mo else hideModal wi mo))"
  by (simp add: hide_modal_def escape_def resetScrollbar_def log_modal_def Let_def)

lemma mo_inv_show:
  assumes "mo_inv mo"
  shows "mo_inv (show_modal wi mo)"
proof (cases "mo_shown mo \<or> prevented wi ''show.bs.modal''")
  case True
  with assms show ?thesis by (simp add: show_refused)
next
  case False
  then have "mo_inv (opened w p mo)" for w p using assms by (simp add: mo_inv_def opened_def)
  with False show_opening [of mo wi] show ?thesis by auto
qed

lemma mo_inv_hide:
  assumes "mo_inv mo"
  shows "mo_inv (hide_modal wi mo)"
proof -
  have "mo_inv (mo\<lparr>mo_log := mo_log mo @ [''hide.bs.modal''], mo_shown := False, mo_body_open := False,
       mo_padding := None, mo_keyup := 0, mo_focusin := False, mo_in := False, mo_hidden := True, mo_dismiss := 0,
       mo_outside := 0\<rparr>)"
    by (simp add: mo_inv_def)
  then show ?thesis using assms by (simp add: hide_modal_eq Let_def)
qed

lemma mo_inv_run_callback [simp]: "mo_inv mo \<Longrightarrow> mo_inv (run_callback wi cb mo)"
  by (simp add: run_callback_def split: callback.split)

lemma mo_inv_end: "mo_inv mo \<Longrightarrow> mo_inv (end_at wi p mo)"
proof -
  assume a: "mo_inv mo"
  have "mo_inv (fold (\<lambda>(_, cb). run_callback wi cb) cs m)" if "mo_inv m" for cs and m
    using that by (induction cs arbitrary: m) (auto split: prod.splits)
  moreover have "mo_inv (mo\<lparr>mo_pending := ps\<rparr>)" for ps using a by (simp add: mo_inv_def)
  ultimately show ?thesis unfolding end_at_def by blast
qed

lemma mo_inv_hides: "mo_inv mo \<Longrightarrow> mo_inv ((hide_modal wi ^^ n) mo)"
  by (induction n) (simp_all add: mo_inv_hide)

inductive mo_step :: "window \<Rightarrow> modal \<Rightarrow> modal \<Rightarrow> bool" for wi where
  call: "mo_step wi mo (Plugin_modal wi c mo)"
| dismiss: "mo_step wi mo (click_dismiss wi mo)"
| outside: "mo_step wi mo (click_outside wi mo)"
| key: "mo_step wi mo (keyup wi k mo)"
| ends: "mo_step wi mo (end_at wi p mo)"

lemma mo_inv_step: "mo_step wi mo mo' \<Longrightarrow> mo_inv mo \<Longrightarrow> mo_inv mo'"
  by (induction rule: mo_step.induct)
    (simp_all add: Plugin_modal_def toggle_modal_def click_dismiss_def click_outside_def keyup_def mo_inv_show mo_inv_hide mo_inv_hides
      mo_inv_end split: modal_call.split)

interpretation modal: machine "mo_step wi" mo_inv for wi
  by unfold_locales (rule mo_inv_step)

lemma mo_inv_new: "mo_inv (new_modal fade attached options)"
  by (simp add: mo_inv_def new_modal_def)

text \<open>
  Whatever calls, clicks, keys and ends of transitions come, a modal has its handlers exactly while
  it is shown: one for its dismiss buttons, one for the escape key if the keyboard option asks for it,
  and none of any kind when it is not shown. The class of the body says whether it is shown, and the
  padding of the body is the style sheet's when it is not.
\<close>

theorem modal_handlers:
  assumes "(mo_step wi)\<^sup>*\<^sup>* (new_modal fade attached options) mo"
  shows "mo_body_open mo = mo_shown mo \<and> mo_dismiss mo = (if mo_shown mo then 1 else 0) \<and>
    mo_keyup mo = (if mo_shown mo \<and> mp_keyboard (mo_options mo) then 1 else 0) \<and>
    (\<not> mo_shown mo \<longrightarrow> mo_outside mo = 0 \<and> mo_padding mo = None)"
  using modal.reachable [OF assms mo_inv_new] by (simp add: mo_inv_def)

section \<open>Showing and hiding\<close>

text \<open>A modal at rest: hidden, with nothing bound and nothing to come.\<close>

definition at_rest :: "modal \<Rightarrow> bool" where
  "at_rest mo \<longleftrightarrow> \<not> mo_in mo \<and> \<not> mo_display mo \<and> mo_hidden mo \<and> \<not> mo_shown mo \<and> mo_backdrop mo = None \<and>
     mo_document mo = [] \<and> mo_dismiss mo = 0 \<and> mo_outside mo = 0 \<and> mo_keyup mo = 0 \<and> \<not> mo_focusin mo \<and>
     \<not> mo_body_open mo \<and> mo_padding mo = None \<and> mo_pending mo = []"

definition fully_shown :: "window \<Rightarrow> modal \<Rightarrow> bool" where
  "fully_shown wi mo \<longleftrightarrow> mo_in mo \<and> mo_display mo \<and> \<not> mo_hidden mo \<and> mo_attached mo \<and> mo_shown mo \<and>
     (mp_backdrop (mo_options mo) = BdFalse \<longleftrightarrow> mo_backdrop mo = None) \<and>
     mo_document mo = (case mo_backdrop mo of None \<Rightarrow> [] | Some b \<Rightarrow> [b]) \<and> mo_focusin mo \<and> mo_pending mo = [] \<and>
     mo_body_open mo \<and> last (mo_log mo) = ''shown.bs.modal''"

lemma settle_pending:
  "mo_pending mo = [(p, cb)] \<Longrightarrow> settle wi (Suc n) mo = settle wi n (run_callback wi cb (mo\<lparr>mo_pending := []\<rparr>))"
  by (simp add: end_at_def)

lemma settle_done: "mo_pending mo = [] \<Longrightarrow> settle wi n mo = mo"
  by (cases n) simp_all

lemma show_settles:
  assumes "at_rest mo" "\<not> prevented wi ''show.bs.modal''"
  shows "fully_shown wi (settle wi 2 (show_modal wi mo))"
proof -
  have "\<not> mo_shown mo" using assms(1) by (simp add: at_rest_def)
  from show_opening [OF this assms(2)] obtain w p where "show_modal wi mo = backdrop wi ShowRest (opened w p mo)" by blast
  with assms(1) show ?thesis
    by (cases "transitions wi mo"; cases "mp_backdrop (mo_options mo) = BdFalse")
      (simp_all add: at_rest_def fully_shown_def backdrop_def run_after_def transitions_def pend_def enforceFocus_def
        opened_def log_modal_def numeral_2_eq_2 settle_pending settle_done run_callback_def Let_def del: settle.simps)
qed

lemma hide_settles:
  assumes "fully_shown wi mo" "\<not> prevented wi ''hide.bs.modal''"
  shows "at_rest (settle wi 2 (hide_modal wi mo)) \<and> last (mo_log (settle wi 2 (hide_modal wi mo))) = ''hidden.bs.modal''"
  using assms
  by (cases "transitions wi mo"; cases "mo_backdrop mo")
    (simp_all add: hide_modal_eq fully_shown_def at_rest_def hideModal_def backdrop_def removeBackdrop_def run_after_def
      transitions_def pend_def log_modal_def numeral_2_eq_2 settle_pending settle_done run_callback_def Let_def
      del: settle.simps)

text \<open>
  C16. From rest, when no listener prevents it, showing a modal and letting its transitions end (two at
  most) displays it with one backdrop, if the option asks for one; hiding it then and letting the
  transitions end brings it back to rest: no backdrop, no handler, no class and no padding stays behind.
\<close>

theorem modal_round_trip:
  assumes "at_rest mo" "\<not> prevented wi ''show.bs.modal''" "\<not> prevented wi ''hide.bs.modal''"
  shows "let s = settle wi 2 (show_modal wi mo); h = settle wi 2 (hide_modal wi s)
    in fully_shown wi s \<and> at_rest h \<and> last (mo_log h) = ''hidden.bs.modal''"
  using show_settles [OF assms(1,2)] hide_settles [OF _ assms(3)] by (simp add: Let_def)

text \<open>
  Hiding a modal that is still opening leaves it half open: the callback of its backdrop, which
  nothing takes back, runs after \<open>hide\<close>. When all transitions have ended the modal is hidden, but it has
  the class \<open>in\<close>, and the handler that forces the focus into the invisible dialog stays on the document.
\<close>

theorem hide_while_opening:
  assumes "at_rest mo" "transitions wi mo" "mp_backdrop (mo_options mo) \<noteq> BdFalse"
    "\<not> prevented wi ''show.bs.modal''" "\<not> prevented wi ''hide.bs.modal''"
  shows "let m = settle wi 4 (hide_modal wi (show_modal wi mo))
    in mo_pending m = [] \<and> \<not> mo_shown m \<and> \<not> mo_display m \<and> mo_in m \<and> mo_focusin m"
proof -
  have "\<not> mo_shown mo" using assms(1) by (simp add: at_rest_def)
  from show_opening [OF this assms(4)] obtain w p where "show_modal wi mo = backdrop wi ShowRest (opened w p mo)" by blast
  with assms show ?thesis
    by (simp add: at_rest_def hide_modal_eq hideModal_def backdrop_def removeBackdrop_def run_after_def transitions_def
        pend_def enforceFocus_def opened_def log_modal_def eval_nat_numeral end_at_def run_callback_def Let_def)
qed

definition demo_window :: window where
  "demo_window = \<lparr>wi_page = \<lparr>pg_transition = True, pg_prevent = \<lambda>_ _. False\<rparr>, wi_overflow = True, wi_scrollbar = 15,
     wi_padding = 0\<rparr>"

definition demo_modal :: modal where
  "demo_modal = new_modal True True \<lparr>mp_backdrop = BdTrue, mp_keyboard = True\<rparr>"

text \<open>A modal that is shown again while it is closing, when the transition at a place is the first to end.\<close>

definition reopened :: "window \<Rightarrow> spot \<Rightarrow> modal \<Rightarrow> modal" where
  "reopened wi p mo = settle wi 4 (end_at wi p (show_modal wi (hide_modal wi (settle wi 2 (show_modal wi mo)))))"

lemma show_settles_fields:
  assumes "at_rest mo" "transitions wi mo" "mp_backdrop (mo_options mo) \<noteq> BdFalse" "\<not> prevented wi ''show.bs.modal''"
  shows "let s = settle wi 2 (show_modal wi mo) in
    mo_backdrop s = Some (mo_fresh mo) \<and> mo_fresh s = mo_fresh mo + 1 \<and> mo_options s = mo_options mo \<and> mo_fade s = mo_fade mo"
proof -
  have "\<not> mo_shown mo" using assms(1) by (simp add: at_rest_def)
  from show_opening [OF this assms(4)] obtain w p where "show_modal wi mo = backdrop wi ShowRest (opened w p mo)" by blast
  with assms show ?thesis
    by (simp add: at_rest_def backdrop_def run_after_def transitions_def pend_def enforceFocus_def
        opened_def log_modal_def numeral_2_eq_2 settle_pending settle_done run_callback_def Let_def del: settle.simps)
qed

text \<open>Two transitions are under way: that of the element, which closes, and that of the second backdrop.\<close>

lemma shown_again:
  assumes "fully_shown wi s" "transitions wi s" "mo_backdrop s = Some b" "mo_fresh s = b + 1" "mp_backdrop (mo_options s) \<noteq> BdFalse"
    and "\<not> prevented wi ''show.bs.modal''" "\<not> prevented wi ''hide.bs.modal''"
  shows "let m = show_modal wi (hide_modal wi s) in
    mo_pending m = [(AtElement, HideModal), (AtBackdrop (b + 1), After ShowRest)] \<and> mo_shown m \<and> mo_document m = [b, b + 1] \<and>
    mo_backdrop m = Some (b + 1) \<and> mo_fresh m = b + 2 \<and> mo_options m = mo_options s \<and> mo_fade m = mo_fade s"
proof -
  have "\<not> mo_shown (hide_modal wi s)" using assms by (simp add: hide_modal_eq fully_shown_def transitions_def pend_def Let_def)
  from show_opening [OF this assms(6)] obtain w p where
    "show_modal wi (hide_modal wi s) = backdrop wi ShowRest (opened w p (hide_modal wi s))" by blast
  with assms show ?thesis
    by (simp add: hide_modal_eq fully_shown_def transitions_def pend_def opened_def backdrop_def Let_def)
qed

lemma reopened_settles:
  assumes "mo_pending m = [(AtElement, HideModal), (AtBackdrop (b + 1), After ShowRest)]" "mo_shown m" "mo_document m = [b, b + 1]"
    "mo_backdrop m = Some (b + 1)" "mo_fresh m = b + 2" "transitions wi m" "mp_backdrop (mo_options m) \<noteq> BdFalse"
    "p \<in> {AtElement, AtBackdrop (b + 1)}"
  shows "let r = settle wi 4 (end_at wi p m) in
    mo_pending r = [] \<and> mo_shown r \<and> mo_display r = (p = AtElement) \<and> mo_backdrop r = Some (b + 2) \<and>
    mo_document r = [b, b + 1, b + 2] \<and> mo_options r = mo_options m \<and> mo_fade r = mo_fade m"
  using assms
  by (auto simp: hideModal_def backdrop_def run_after_def transitions_def pend_def enforceFocus_def log_modal_def
      eval_nat_numeral end_at_def run_callback_def Let_def)

lemma hide_one_backdrop:
  assumes "mo_pending m = []" "mo_shown m" "mo_backdrop m = Some c" "mo_document m = bs @ [c]" "c \<notin> set bs" "transitions wi m"
    "\<not> prevented wi ''hide.bs.modal''"
  shows "mo_document (settle wi 2 (hide_modal wi m)) = bs \<and> mo_pending (settle wi 2 (hide_modal wi m)) = []"
  using assms
  by (simp add: hide_modal_eq hideModal_def backdrop_def removeBackdrop_def run_after_def
      transitions_def pend_def log_modal_def numeral_2_eq_2 settle_pending settle_done run_callback_def Let_def
      del: settle.simps)

text \<open>
  C17. Showing a modal again while it is still closing leaves backdrops behind, in every window with transitions and for every modal with a
  backdrop, whichever of the two transitions under way ends first: \<open>hideModal\<close>, which waits for the element, does not ask
  whether the modal was shown again and adds a backdrop. When everything has settled the modal counts as shown and three
  backdrops cover the page; the dialog is invisible if the new backdrop was there first. Hiding the modal then removes only the last
  backdrop.
\<close>

theorem reopen_leaks_backdrops:
  assumes "at_rest mo" "transitions wi mo" "mp_backdrop (mo_options mo) \<noteq> BdFalse"
    and "\<not> prevented wi ''show.bs.modal''" "\<not> prevented wi ''hide.bs.modal''"
    and "p \<in> {AtElement, AtBackdrop (mo_fresh mo + 1)}"
  shows "let r = reopened wi p mo; h = settle wi 2 (hide_modal wi r) in
    mo_pending r = [] \<and> mo_shown r \<and> mo_display r = (p = AtElement) \<and> mo_document r = [mo_fresh mo, mo_fresh mo + 1, mo_fresh mo + 2] \<and>
    mo_pending h = [] \<and> mo_document h = [mo_fresh mo, mo_fresh mo + 1]"
proof -
  define s where "s = settle wi 2 (show_modal wi mo)"
  have s: "fully_shown wi s" "mo_backdrop s = Some (mo_fresh mo)" "mo_fresh s = mo_fresh mo + 1" "mo_options s = mo_options mo" "transitions wi s"
    using show_settles [OF assms(1,4)] show_settles_fields [OF assms(1-4)] assms(2) by (simp_all add: s_def Let_def transitions_def)
  define m where "m = show_modal wi (hide_modal wi s)"
  have m: "mo_pending m = [(AtElement, HideModal), (AtBackdrop (mo_fresh mo + 1), After ShowRest)]" "mo_shown m"
      "mo_document m = [mo_fresh mo, mo_fresh mo + 1]" "mo_backdrop m = Some (mo_fresh mo + 1)" "mo_fresh m = mo_fresh mo + 2"
      "transitions wi m" "mp_backdrop (mo_options m) \<noteq> BdFalse"
    using shown_again [OF s(1,5,2,3) _ assms(4,5)] assms(3) s by (simp_all add: m_def Let_def transitions_def)
  define r where "r = settle wi 4 (end_at wi p m)"
  have r: "mo_pending r = []" "mo_shown r" "mo_display r = (p = AtElement)" "mo_backdrop r = Some (mo_fresh mo + 2)"
      "mo_document r = [mo_fresh mo, mo_fresh mo + 1] @ [mo_fresh mo + 2]" "transitions wi r"
    using reopened_settles [OF m assms(6)] m(6) by (simp_all add: r_def Let_def transitions_def)
  have "reopened wi p mo = r" by (simp add: reopened_def r_def m_def s_def)
  then show ?thesis using r hide_one_backdrop [OF r(1,2,4,5) _ r(6) assms(5)] by (simp add: Let_def)
qed

lemma demo_rest: "at_rest demo_modal"
  by (simp add: at_rest_def demo_modal_def new_modal_def)

lemma demo_open: "\<not> prevented demo_window ev" "transitions demo_window demo_modal"
  by (simp_all add: prevented_def demo_window_def transitions_def demo_modal_def new_modal_def)

theorem reopen_leaks_backdrops_witness:
  "mo_document (settle demo_window 2 (hide_modal demo_window (reopened demo_window AtElement demo_modal))) = [0, 1] \<and>
   mo_document (settle demo_window 2 (hide_modal demo_window (reopened demo_window (AtBackdrop 1) demo_modal))) = [0, 1]"
proof -
  have "mp_backdrop (mo_options demo_modal) \<noteq> BdFalse" "mo_fresh demo_modal = 0" by (simp_all add: demo_modal_def new_modal_def)
  then have "p \<in> {AtElement, AtBackdrop 1} \<Longrightarrow>
      mo_document (settle demo_window 2 (hide_modal demo_window (reopened demo_window p demo_modal))) = [0, 1]" for p
    using reopen_leaks_backdrops [OF demo_rest demo_open(2) _ demo_open(1) demo_open(1), of p] by (simp add: Let_def)
  then show ?thesis by simp
qed

theorem modal_handlers_witness:
  "mo_dismiss (Plugin_modal demo_window CallShow (new_modal True True \<lparr>mp_backdrop = BdTrue, mp_keyboard = True\<rparr>)) = 1"
proof -
  let ?m = "new_modal True True \<lparr>mp_backdrop = BdTrue, mp_keyboard = True\<rparr>"
  have "(mo_step demo_window)\<^sup>*\<^sup>* ?m (Plugin_modal demo_window CallShow ?m)" by (rule r_into_rtranclp, rule mo_step.call)
  moreover have "mo_shown (Plugin_modal demo_window CallShow ?m)" by code_simp
  ultimately show ?thesis using modal_handlers by simp
qed

theorem modal_round_trip_witness:
  "fully_shown demo_window (settle demo_window 2 (show_modal demo_window demo_modal)) \<and>
   at_rest (settle demo_window 2 (hide_modal demo_window (settle demo_window 2 (show_modal demo_window demo_modal))))"
  using modal_round_trip [OF demo_rest demo_open(1) demo_open(1)] by (simp add: Let_def)

theorem hide_while_opening_witness:
  "mo_focusin (settle demo_window 4 (hide_modal demo_window (show_modal demo_window demo_modal)))"
proof -
  have "mp_backdrop (mo_options demo_modal) \<noteq> BdFalse" by (simp add: demo_modal_def new_modal_def)
  from hide_while_opening [OF demo_rest demo_open(2) this demo_open(1) demo_open(1)] show ?thesis by (simp add: Let_def)
qed

end
