(* ===== verification/Bootstrap_Scroll.thy ===== *)
theory Bootstrap_Scroll
  imports Page Complex_Main
begin

text \<open>
  ScrollSpy and Affix of \<open>bootstrap-3.2.0.js\<close>: what they do when the page is scrolled. Positions are
  numbers of pixels, which may be fractions.
\<close>

section \<open>ScrollSpy\<close>

text \<open>
  A link of the navigation with its attributes \<open>data-target\<close> and \<open>href\<close> and the list items around it,
  by their numbers; all links of a navigation are inside its target.
\<close>

record nav_link =
  nl_target :: "string option"
  nl_href :: string
  nl_items :: "nat list"

text \<open>
  What the browser says: where the visible element of a selector is, the height of the scrolled content
  and of the window onto it, how far it is scrolled, and the base of the offsets, which is 0 when the
  window itself is scrolled.
\<close>

record viewport =
  vp_locate :: "string \<Rightarrow> rat option"
  vp_scrollHeight :: rat
  vp_height :: rat
  vp_scrollTop :: rat
  vp_offsetBase :: rat

text \<open>The ScrollSpy object; \<open>sp_lit\<close> are the list items with the class \<open>active\<close>.\<close>

record spy =
  sp_offset :: rat
  sp_links :: "nav_link list"
  sp_offsets :: "rat list"
  sp_targets :: "string list"
  sp_active :: "string option"
  sp_scrollHeight :: rat
  sp_lit :: "nat list"

definition link_ref :: "nav_link \<Rightarrow> string" where
  "link_ref l = (case nl_target l of None \<Rightarrow> nl_href l | Some t \<Rightarrow> if t = '''' then nl_href l else t)"

text \<open>\<open>/^#./\<close>: a hash and one more character, which is not a line terminator.\<close>

fun is_fragment :: "string \<Rightarrow> bool" where
  "is_fragment (c # d # _) \<longleftrightarrow> c = CHR ''#'' \<and> d \<noteq> CHR 0x0A \<and> d \<noteq> CHR 0x0D"
| "is_fragment _ \<longleftrightarrow> False"

definition locate_link :: "viewport \<Rightarrow> nav_link \<Rightarrow> (rat \<times> string) option" where
  "locate_link vp l =
     (if is_fragment (link_ref l)
      then map_option (\<lambda>top. (top + vp_offsetBase vp, link_ref l)) (vp_locate vp (link_ref l)) else None)"

definition refresh :: "viewport \<Rightarrow> spy \<Rightarrow> spy" where
  "refresh vp sp =
     (let found = sort_key fst (List.map_filter (locate_link vp) (sp_links sp))
      in sp\<lparr>sp_offsets := map fst found, sp_targets := map snd found, sp_scrollHeight := vp_scrollHeight vp\<rparr>)"

text \<open>\<open>activate\<close>; without a target (\<open>undefined\<close>) no link matches, as none refers to that word.\<close>

definition activate :: "string option \<Rightarrow> spy \<Rightarrow> spy" where
  "activate target sp =
     sp\<lparr>sp_active := target,
        sp_lit := concat (map nl_items (filter (\<lambda>l. target \<noteq> None \<and> (nl_target l = target \<or> Some (nl_href l) = target))
          (sp_links sp)))\<rparr>"

text \<open>\<open>xs[i]\<close>, \<open>None\<close> out of range.\<close>

definition elem_at :: "'a list \<Rightarrow> nat \<Rightarrow> 'a option" where
  "elem_at xs i = (if i < length xs then Some (xs ! i) else None)"

text \<open>The condition of the loop; a following offset that is 0 counts as none.\<close>

definition spied :: "rat \<Rightarrow> rat list \<Rightarrow> nat \<Rightarrow> bool" where
  "spied scrollTop offsets i \<longleftrightarrow> scrollTop \<ge> offsets ! i \<and>
     (case elem_at offsets (i + 1) of None \<Rightarrow> True | Some next \<Rightarrow> next = 0 \<or> scrollTop \<le> next)"

text \<open>The loop from the last target down; \<open>old\<close> is the target that was active before.\<close>

fun spy_loop :: "rat \<Rightarrow> rat list \<Rightarrow> string list \<Rightarrow> string option \<Rightarrow> nat \<Rightarrow> spy \<Rightarrow> spy" where
  "spy_loop scrollTop offsets targets old 0 sp = sp"
| "spy_loop scrollTop offsets targets old (Suc i) sp =
     spy_loop scrollTop offsets targets old i
       (if old \<noteq> Some (targets ! i) \<and> spied scrollTop offsets i then activate (Some (targets ! i)) sp else sp)"

definition process :: "viewport \<Rightarrow> spy \<Rightarrow> spy" where
  "process vp sp =
     (let scrollTop = vp_scrollTop vp + sp_offset sp;
          scrollHeight = vp_scrollHeight vp;
          maxScroll = sp_offset sp + scrollHeight - vp_height vp;
          offsets = sp_offsets sp; targets = sp_targets sp; old = sp_active sp;
          sp = (if sp_scrollHeight sp \<noteq> scrollHeight then refresh vp sp else sp)
      in if scrollTop \<ge> maxScroll
         then (let i = elem_at targets (length targets - 1) in if old \<noteq> i then activate i sp else sp)
         else if old \<noteq> None \<and> offsets \<noteq> [] \<and> scrollTop \<le> offsets ! 0
         then (let i = elem_at targets 0 in if old \<noteq> i then activate i sp else sp)
         else spy_loop scrollTop offsets targets old (length offsets) sp)"

definition new_spy :: "viewport \<Rightarrow> rat \<Rightarrow> nav_link list \<Rightarrow> spy" where
  "new_spy vp offset links =
     process vp (refresh vp \<lparr>sp_offset = offset, sp_links = links, sp_offsets = [], sp_targets = [], sp_active = None,
       sp_scrollHeight = 0, sp_lit = []\<rparr>)"

section \<open>The target in view\<close>

text \<open>The last offset that the position has passed.\<close>

definition passed :: "rat \<Rightarrow> rat list \<Rightarrow> nat \<Rightarrow> bool" where
  "passed y offsets i \<longleftrightarrow> i < length offsets \<and> offsets ! i \<le> y \<and> (\<forall>j < length offsets. i < j \<longrightarrow> y < offsets ! j)"

lemma spied_iff_passed:
  assumes "sorted offsets" "y \<notin> set offsets" "\<forall>i < length offsets. 0 < i \<longrightarrow> offsets ! i \<noteq> 0" "i < length offsets"
  shows "spied y offsets i \<longleftrightarrow> passed y offsets i"
proof -
  have "(case elem_at offsets (i + 1) of None \<Rightarrow> True | Some next \<Rightarrow> next = 0 \<or> y \<le> next) \<longleftrightarrow>
      (\<forall>j < length offsets. i < j \<longrightarrow> y < offsets ! j)" (is "?l \<longleftrightarrow> ?r")
  proof
    assume l: ?l
    show ?r
    proof (intro allI impI)
      fix j assume j: "j < length offsets" "i < j"
      with l assms(3) have "y \<le> offsets ! (i + 1)" by (simp add: elem_at_def)
      also have "\<dots> \<le> offsets ! j" using assms(1) j by (simp add: sorted_nth_mono)
      finally show "y < offsets ! j" using assms(2) j(1) by (metis nth_mem order_less_le)
    qed
  next
    assume ?r then show ?l by (auto simp: elem_at_def intro: less_imp_le)
  qed
  with assms(4) show ?thesis by (auto simp: spied_def passed_def)
qed

lemma passed_unique: "passed y offsets i \<Longrightarrow> passed y offsets j \<Longrightarrow> i = j"
  unfolding passed_def by (metis linorder_neqE_nat not_less)

lemma spy_loop_active:
  assumes "\<forall>i < n. spied y offsets i \<longrightarrow> i = k"
  shows "spy_loop y offsets targets old n sp =
    (if k < n \<and> spied y offsets k \<and> old \<noteq> Some (targets ! k) then activate (Some (targets ! k)) sp else sp)"
  using assms
proof (induction n arbitrary: sp)
  case (Suc n)
  have ih: "spy_loop y offsets targets old n sp' =
      (if k < n \<and> spied y offsets k \<and> old \<noteq> Some (targets ! k) then activate (Some (targets ! k)) sp' else sp')" for sp'
    using Suc.prems by (intro Suc.IH) simp
  show ?case
  proof (cases "n = k")
    case False
    then have "\<not> spied y offsets n" "k < Suc n \<longleftrightarrow> k < n" using Suc.prems by auto
    then show ?thesis by (simp add: ih)
  next
    case True
    then have "spy_loop y offsets targets old n sp' = sp'" for sp' using ih by simp
    with True show ?thesis by auto
  qed
qed simp

text \<open>
  Between the first offset and the end of the page ScrollSpy activates the right target, whatever
  was active before: when the position is on no offset exactly (and no offset after the first is 0), \<open>process\<close>
  makes the target of the last offset that the position has passed the active one, and if that was not
  active already, exactly the list items around its links get the class \<open>active\<close>.
\<close>

theorem process_activates:
  assumes "sorted (sp_offsets sp)" "length (sp_targets sp) = length (sp_offsets sp)"
    "sp_scrollHeight sp = vp_scrollHeight vp" "vp_scrollTop vp < vp_scrollHeight vp - vp_height vp"
    "vp_scrollTop vp + sp_offset sp \<notin> set (sp_offsets sp)"
    "\<forall>i < length (sp_offsets sp). 0 < i \<longrightarrow> sp_offsets sp ! i \<noteq> 0"
    "passed (vp_scrollTop vp + sp_offset sp) (sp_offsets sp) k"
  shows "sp_active (process vp sp) = Some (sp_targets sp ! k) \<and>
    (sp_active sp \<noteq> Some (sp_targets sp ! k) \<longrightarrow>
      set (sp_lit (process vp sp)) = (\<Union>l \<in> {l \<in> set (sp_links sp). nl_target l = Some (sp_targets sp ! k) \<or>
        nl_href l = sp_targets sp ! k}. set (nl_items l)))"
proof -
  let ?y = "vp_scrollTop vp + sp_offset sp"
  have k: "k < length (sp_offsets sp)" "sp_offsets sp ! k \<le> ?y" using assms(7) by (simp_all add: passed_def)
  have "spied ?y (sp_offsets sp) i \<longleftrightarrow> i = k" if "i < length (sp_offsets sp)" for i
    using spied_iff_passed [OF assms(1,5,6) that] assms(7) passed_unique by blast
  then have loop: "spy_loop ?y (sp_offsets sp) (sp_targets sp) (sp_active sp) (length (sp_offsets sp)) sp =
      (if sp_active sp \<noteq> Some (sp_targets sp ! k) then activate (Some (sp_targets sp ! k)) sp else sp)"
    using k spy_loop_active [of "length (sp_offsets sp)" ?y "sp_offsets sp" k] by simp
  have "sp_offsets sp ! 0 \<le> sp_offsets sp ! k" using assms(1) k(1) by (simp add: sorted_nth_mono)
  with k(2) have "sp_offsets sp ! 0 \<le> ?y" by linarith
  moreover have "sp_offsets sp ! 0 \<noteq> ?y" using assms(5) k(1) by (metis gr_zeroI not_less_zero nth_mem order_less_trans)
  ultimately have "\<not> ?y \<le> sp_offsets sp ! 0" by linarith
  then have "process vp sp = (if sp_active sp \<noteq> Some (sp_targets sp ! k) then activate (Some (sp_targets sp ! k)) sp else sp)"
    using assms(3,4) loop by (simp add: process_def Let_def algebra_simps)
  then show ?thesis by (auto simp: activate_def)
qed

text \<open>A page with two sections, at 100 and 300 pixels, of which 600 are visible of 2000.\<close>

definition demo_viewport :: "rat \<Rightarrow> viewport" where
  "demo_viewport y = \<lparr>vp_locate = [''#a'' \<mapsto> 100, ''#b'' \<mapsto> 300], vp_scrollHeight = 2000, vp_height = 600,
     vp_scrollTop = y, vp_offsetBase = 0\<rparr>"

definition demo_spy :: "string option \<Rightarrow> spy" where
  "demo_spy old = \<lparr>sp_offset = 10, sp_links = [\<lparr>nl_target = None, nl_href = ''#a'', nl_items = [0]\<rparr>,
     \<lparr>nl_target = Some ''#b'', nl_href = '''', nl_items = [1, 2]\<rparr>], sp_offsets = [100, 300],
     sp_targets = [''#a'', ''#b''], sp_active = old, sp_scrollHeight = 2000, sp_lit = []\<rparr>"

theorem process_activates_witness: "sp_active (process (demo_viewport 350) (demo_spy None)) = Some ''#b''"
proof -
  have "passed 360 [100, 300] 1" by (auto simp: passed_def)
  with process_activates [of "demo_spy None" "demo_viewport 350" 1] show ?thesis
    by (simp add: demo_spy_def demo_viewport_def less_2_cases_iff)
qed

text \<open>
  With the position exactly on the offset of a section ScrollSpy does not settle: the conditions of
  that section and of the one before it both hold, and each time \<open>process\<close> runs it activates the one that
  was not active.
\<close>

theorem process_oscillates:
  "(process (demo_viewport 290) ^^ n) (demo_spy (Some ''#a'')) =
     (if even n then demo_spy (Some ''#a'') else demo_spy (Some ''#b''))\<lparr>sp_lit :=
       if n = 0 then [] else if even n then [0] else [1, 2]\<rparr>"
proof (induction n)
  case (Suc n)
  have p: "process (demo_viewport 290) ((demo_spy (Some ''#a''))\<lparr>sp_lit := xs\<rparr>) = (demo_spy (Some ''#b''))\<lparr>sp_lit := [1, 2]\<rparr>"
    "process (demo_viewport 290) ((demo_spy (Some ''#b''))\<lparr>sp_lit := xs\<rparr>) = (demo_spy (Some ''#a''))\<lparr>sp_lit := [0]\<rparr>" for xs
    by (simp_all add: process_def demo_viewport_def demo_spy_def spied_def elem_at_def activate_def numeral_2_eq_2 Let_def)
  show ?case by (simp only: funpow.simps comp_def Suc) (simp add: p)
qed (simp add: demo_spy_def)

section \<open>Affix\<close>

datatype affix_state = Floating | Top | Bottom

primrec affix_type :: "affix_state \<Rightarrow> string" where
  "affix_type Floating = ''affix''"
| "affix_type Top = ''affix-top''"
| "affix_type Bottom = ''affix-bottom''"

text \<open>
  The Affix object: the offsets of its options, already evaluated, the last state (\<open>None\<close> before the first
  check), the distance at which it is unpinned, and the inline position of the element.
\<close>

record affix =
  af_offsetTop :: "rat option"
  af_offsetBottom :: "rat option"
  af_affixed :: "affix_state option"
  af_unpin :: "rat option"
  af_pinnedOffset :: "rat option"
  af_classes :: classes
  af_css_top :: "rat option"

text \<open>The view: \<open>av_pinned\<close> is the distance of the element from the top of the window while it is pinned.\<close>

record affix_view =
  av_visible :: bool
  av_documentHeight :: rat
  av_scrollTop :: rat
  av_position :: rat
  av_height :: rat
  av_pinned :: rat

definition affix_reset :: "classes \<Rightarrow> classes" where
  "affix_reset cs = removeClass ''affix-bottom'' (removeClass ''affix-top'' (removeClass ''affix'' cs))"

definition getPinnedOffset :: "affix_view \<Rightarrow> affix \<Rightarrow> rat \<times> affix" where
  "getPinnedOffset av af =
     (case af_pinnedOffset af of
        Some d \<Rightarrow> if d \<noteq> 0 then (d, af)
                  else (av_pinned av, af\<lparr>af_classes := addClass ''affix'' (affix_reset (af_classes af)),
                                        af_pinnedOffset := Some (av_pinned av)\<rparr>)
      | None \<Rightarrow> (av_pinned av, af\<lparr>af_classes := addClass ''affix'' (affix_reset (af_classes af)),
                                 af_pinnedOffset := Some (av_pinned av)\<rparr>))"

definition affix_of :: "affix_view \<Rightarrow> affix \<Rightarrow> affix_state" where
  "affix_of av af =
     (if (case af_unpin af of None \<Rightarrow> False | Some d \<Rightarrow> av_scrollTop av + d \<le> av_position av) then Floating
      else if (case af_offsetBottom af of None \<Rightarrow> False
               | Some b \<Rightarrow> av_position av + av_height av \<ge> av_documentHeight av - b) then Bottom
      else if (case af_offsetTop af of None \<Rightarrow> False | Some t \<Rightarrow> av_scrollTop av \<le> t) then Top
      else Floating)"

definition checkPosition :: "page \<Rightarrow> affix_view \<Rightarrow> affix \<Rightarrow> affix" where
  "checkPosition pg av af =
     (if \<not> av_visible av then af
      else
        (let st = affix_of av af in
         if af_affixed af = Some st then af
         else
           (let af = (if af_unpin af \<noteq> None then af\<lparr>af_css_top := None\<rparr> else af) in
            if pg_prevent pg 0 (affix_type st @ ''.bs.affix'') then af
            else
              (let af = af\<lparr>af_affixed := Some st\<rparr>;
                   (unpin, af) = (if st = Bottom then (let (d, af) = getPinnedOffset av af in (Some d, af)) else (None, af));
                   af = af\<lparr>af_unpin := unpin, af_classes := addClass (affix_type st) (affix_reset (af_classes af))\<rparr>
               in if st = Bottom
                  then af\<lparr>af_css_top := map_option (\<lambda>b. av_documentHeight av - av_height av - b) (af_offsetBottom af)\<rparr>
                  else af))))"

definition new_affix :: "page \<Rightarrow> affix_view \<Rightarrow> rat option \<Rightarrow> rat option \<Rightarrow> classes \<Rightarrow> affix" where
  "new_affix pg av t b cs =
     checkPosition pg av \<lparr>af_offsetTop = t, af_offsetBottom = b, af_affixed = None, af_unpin = None,
       af_pinnedOffset = None, af_classes = cs, af_css_top = None\<rparr>"

text \<open>The state that is recorded is the class that is shown, and only an element at the bottom is unpinned.\<close>

definition affix_inv :: "affix \<Rightarrow> bool" where
  "affix_inv af \<longleftrightarrow> (\<forall>st. af_affixed af = Some st \<longrightarrow>
      (\<forall>st'. hasClass (affix_type st') (af_classes af) \<longleftrightarrow> st' = st)) \<and>
     (af_unpin af \<noteq> None \<longleftrightarrow> af_affixed af = Some Bottom)"

lemma affix_class_simps [simp]:
  "affix_type st' = affix_type st \<longleftrightarrow> st' = st" "\<not> hasClass (affix_type st) (affix_reset cs)"
  by (cases st; cases st'; simp add: affix_reset_def)+

lemma pinned_affixed: "getPinnedOffset av af = (d, af') \<Longrightarrow> af_affixed af' = af_affixed af"
  by (auto simp: getPinnedOffset_def split: option.splits if_splits)

lemma affix_inv_check: "affix_inv af \<Longrightarrow> affix_inv (checkPosition pg av af)"
  by (auto simp: affix_inv_def checkPosition_def Let_def dest: pinned_affixed split: prod.splits simp del: affix_type.simps)

interpretation affix: machine "\<lambda>af af'. \<exists>av. af' = checkPosition pg av af" affix_inv for pg
  by unfold_locales (auto intro: affix_inv_check)

lemma affix_inv_new: "affix_inv (new_affix pg av t b cs)"
  unfolding new_affix_def by (rule affix_inv_check) (simp add: affix_inv_def)

text \<open>
  After any scrolling the element has exactly one of the classes \<open>affix\<close>, \<open>affix-top\<close> and
  \<open>affix-bottom\<close>, that of the state the object has recorded; a check of a visible element that no
  listener prevents records the state that belongs to the position, and only an element at the bottom
  keeps the distance at which it floats again.
\<close>

theorem affix_one_class:
  assumes "(\<lambda>af af'. \<exists>av. af' = checkPosition pg av af)\<^sup>*\<^sup>* (new_affix pg av0 t b cs) af"
    "av_visible av" "\<forall>ev. \<not> pg_prevent pg 0 ev"
  shows "let af' = checkPosition pg av af in af_affixed af' = Some (affix_of av af) \<and>
    (\<forall>st. hasClass (affix_type st) (af_classes af') \<longleftrightarrow> st = affix_of av af) \<and>
    (af_unpin af' \<noteq> None \<longleftrightarrow> affix_of av af = Bottom)"
proof -
  let ?af = "checkPosition pg av af"
  have "affix_inv ?af" using affix.reachable [OF assms(1) affix_inv_new] by (rule affix_inv_check)
  moreover have "af_affixed ?af = Some (affix_of av af)"
    using assms(2,3) by (auto simp: checkPosition_def getPinnedOffset_def Let_def split: prod.splits option.splits if_splits)
  ultimately show ?thesis by (simp add: affix_inv_def Let_def del: not_None_eq)
qed

theorem affix_one_class_witness:
  "af_affixed (checkPosition \<lparr>pg_transition = False, pg_prevent = \<lambda>_ _. False\<rparr>
     \<lparr>av_visible = True, av_documentHeight = 3000, av_scrollTop = 2500, av_position = 2500, av_height = 200, av_pinned = 20\<rparr>
     (new_affix \<lparr>pg_transition = False, pg_prevent = \<lambda>_ _. False\<rparr>
       \<lparr>av_visible = True, av_documentHeight = 3000, av_scrollTop = 0, av_position = 50, av_height = 200, av_pinned = 20\<rparr>
       (Some 100) (Some 400) [])) = Some Bottom"
proof -
  let ?pg = "\<lparr>pg_transition = False, pg_prevent = \<lambda>_ _. False\<rparr>"
  let ?av = "\<lparr>av_visible = True, av_documentHeight = 3000, av_scrollTop = 2500, av_position = 2500, av_height = 200, av_pinned = 20\<rparr>"
  let ?start = "\<lparr>av_visible = True, av_documentHeight = 3000, av_scrollTop = 0, av_position = 50, av_height = 200, av_pinned = 20\<rparr>"
  have "affix_of ?av (new_affix ?pg ?start (Some 100) (Some 400) []) = Bottom"
    by code_simp
  then show ?thesis using affix_one_class [OF rtranclp.rtrancl_refl, of ?av ?pg ?start "Some 100" "Some 400" "[]"]
    by (simp add: Let_def)
qed

end
