(* ===== verification/Bootstrap_Tooltip.thy ===== *)
theory Bootstrap_Tooltip
  imports Page Js_Regex Complex_Main
begin

text \<open>
  The tooltip of \<open>bootstrap-3.2.0.js\<close> and the popover that extends it: the placement of the tip beside
  its element, in numbers of pixels, and the state that mouse, timers and transitions drive.
\<close>

section \<open>Placement\<close>

record box =
  bx_top :: rat
  bx_left :: rat
  bx_width :: rat
  bx_height :: rat
  bx_right :: rat
  bx_scroll :: rat

record offset =
  of_top :: rat
  of_left :: rat

definition getCalculatedOffset :: "string \<Rightarrow> box \<Rightarrow> rat \<Rightarrow> rat \<Rightarrow> offset" where
  "getCalculatedOffset placement pos actualWidth actualHeight =
     (if placement = ''bottom''
      then \<lparr>of_top = bx_top pos + bx_height pos, of_left = bx_left pos + bx_width pos / 2 - actualWidth / 2\<rparr>
      else if placement = ''top''
      then \<lparr>of_top = bx_top pos - actualHeight, of_left = bx_left pos + bx_width pos / 2 - actualWidth / 2\<rparr>
      else if placement = ''left''
      then \<lparr>of_top = bx_top pos + bx_height pos / 2 - actualHeight / 2, of_left = bx_left pos - actualWidth\<rparr>
      else \<lparr>of_top = bx_top pos + bx_height pos / 2 - actualHeight / 2, of_left = bx_left pos + bx_width pos\<rparr>)"

text \<open>\<open>auto\<close> in a placement is taken out of it and asks for the opposite side where the tip does not fit.\<close>

definition autoToken :: rx where
  "autoToken = r_seqs [ROpt (RChr is_space), r_lit_i ''aut'', ROpt (r_char_i (CHR ''o'')), ROpt (RChr is_space)]"

definition auto_placement :: "string \<Rightarrow> bool \<times> string" where
  "auto_placement placement =
     (case rx_exec autoToken placement of None \<Rightarrow> (False, placement)
      | Some x \<Rightarrow> (True, if r_before x @ r_rest x = '''' then ''top'' else r_before x @ r_rest x))"

definition auto_side :: "string \<Rightarrow> box \<Rightarrow> box \<Rightarrow> rat \<Rightarrow> rat \<Rightarrow> string" where
  "auto_side placement pos parentDim actualWidth actualHeight =
     (if placement = ''bottom'' \<and> bx_top pos + bx_height pos + actualHeight - bx_scroll parentDim > bx_height parentDim
      then ''top''
      else if placement = ''top'' \<and> bx_top pos - bx_scroll parentDim - actualHeight < 0 then ''bottom''
      else if placement = ''right'' \<and> bx_right pos + actualWidth > bx_width parentDim then ''left''
      else if placement = ''left'' \<and> bx_left pos - actualWidth < bx_left parentDim then ''right''
      else placement)"

definition is_sideways :: "string \<Rightarrow> bool" where
  "is_sideways placement = rx_test (r_alts [r_lit ''right'', r_lit ''left'']) placement"

text \<open>\<open>vd\<close> is the box of the viewport, \<open>None\<close> without one.\<close>

definition getViewportAdjustedDelta :: "box option \<Rightarrow> rat \<Rightarrow> string \<Rightarrow> offset \<Rightarrow> rat \<Rightarrow> rat \<Rightarrow> offset" where
  "getViewportAdjustedDelta viewport padding placement pos actualWidth actualHeight =
     (case viewport of
        None \<Rightarrow> \<lparr>of_top = 0, of_left = 0\<rparr>
      | Some vd \<Rightarrow>
          if is_sideways placement
          then
            (let topEdgeOffset = of_top pos - padding - bx_scroll vd;
                 bottomEdgeOffset = of_top pos + padding - bx_scroll vd + actualHeight
             in if topEdgeOffset < bx_top vd then \<lparr>of_top = bx_top vd - topEdgeOffset, of_left = 0\<rparr>
                else if bottomEdgeOffset > bx_top vd + bx_height vd
                then \<lparr>of_top = bx_top vd + bx_height vd - bottomEdgeOffset, of_left = 0\<rparr>
                else \<lparr>of_top = 0, of_left = 0\<rparr>)
          else
            (let leftEdgeOffset = of_left pos - padding;
                 rightEdgeOffset = of_left pos + padding + actualWidth
             in if leftEdgeOffset < bx_left vd then \<lparr>of_top = 0, of_left = bx_left vd - leftEdgeOffset\<rparr>
                else if rightEdgeOffset > bx_width vd
                then \<lparr>of_top = 0, of_left = bx_left vd + bx_width vd - rightEdgeOffset\<rparr>
                else \<lparr>of_top = 0, of_left = 0\<rparr>))"

text \<open>
  \<open>applyPlacement\<close>: the tip is \<open>width\<close> by \<open>height\<close> before it is placed and \<open>actualWidth\<close> by \<open>actualHeight\<close>
  after. The result is where it goes and how far, and along which side, its arrow is moved.
\<close>

definition applyPlacement ::
  "box option \<Rightarrow> rat \<Rightarrow> rat \<times> rat \<Rightarrow> rat \<times> rat \<Rightarrow> rat \<times> rat \<Rightarrow> offset \<Rightarrow> string \<Rightarrow> offset \<times> rat \<times> string" where
  "applyPlacement viewport padding margins before actual off placement =
     (let (marginTop, marginLeft) = margins; (width, height) = before; (actualWidth, actualHeight) = actual;
          off = \<lparr>of_top = of_top off + marginTop, of_left = of_left off + marginLeft\<rparr>;
          off = (if placement = ''top'' \<and> actualHeight \<noteq> height
                 then off\<lparr>of_top := of_top off + height - actualHeight\<rparr> else off);
          delta = getViewportAdjustedDelta viewport padding placement off actualWidth actualHeight;
          off = (if of_left delta \<noteq> 0 then off\<lparr>of_left := of_left off + of_left delta\<rparr>
                 else off\<lparr>of_top := of_top off + of_top delta\<rparr>)
      in (off, if of_left delta \<noteq> 0 then of_left delta * 2 - width + actualWidth else of_top delta * 2 - height + actualHeight,
          if of_left delta \<noteq> 0 then ''left'' else ''top''))"

text \<open>The position of the arrow in percent of the side, \<open>None\<close> for the one of the style sheet.\<close>

definition replaceArrow :: "rat \<Rightarrow> rat \<Rightarrow> rat option" where
  "replaceArrow delta dimension = (if delta \<noteq> 0 then Some (50 * (1 - delta / dimension)) else None)"

section \<open>Numbers of tips\<close>

text \<open>
  \<open>getUID\<close> appends random numbers below a million until no element of the document has the name; \<open>None\<close>
  when the given random numbers are used up.
\<close>

fun getUID :: "(string \<Rightarrow> bool) \<Rightarrow> nat list \<Rightarrow> string \<Rightarrow> string option" where
  "getUID taken [] prefix = None"
| "getUID taken (r # rs) prefix =
     (let prefix = prefix @ nat_str r in if taken prefix then getUID taken rs prefix else Some prefix)"

section \<open>State\<close>

datatype hover = HoverIn | HoverOut

datatype tip_completion = TipShown | TipHidden

text \<open>
  The options that matter for the state (whether tips are animated, whether there are delays, the
  title), the attributes of the element, and the object: the timer that runs, the classes \<open>in\<close> and \<open>fade\<close> of
  the tip, whether it is in the document, and the handlers for the end of its transition.
\<close>

record tooltip =
  tt_type :: string
  tt_animation :: bool
  tt_delay_show :: bool
  tt_delay_hide :: bool
  tt_option_title :: string
  tt_title :: "string option"
  tt_original_title :: "string option"
  tt_content :: string
  tt_in_dom :: bool
  tt_described :: bool
  tt_enabled :: bool
  tt_hoverState :: "hover option"
  tt_timer :: "hover option"
  tt_in :: bool
  tt_fade :: bool
  tt_attached :: bool
  tt_pending :: "tip_completion list"
  tt_log :: "string list"

definition log_tip :: "string \<Rightarrow> tooltip \<Rightarrow> tooltip" where
  "log_tip ev tt = tt\<lparr>tt_log := tt_log tt @ [ev @ ''.bs.'' @ tt_type tt]\<rparr>"

definition tip_prevented :: "page \<Rightarrow> string \<Rightarrow> tooltip \<Rightarrow> bool" where
  "tip_prevented pg ev tt = pg_prevent pg 0 (ev @ ''.bs.'' @ tt_type tt)"

definition fixTitle :: "tooltip \<Rightarrow> tooltip" where
  "fixTitle tt =
     (let title = (case tt_title tt of None \<Rightarrow> '''' | Some t \<Rightarrow> t)
      in if title \<noteq> '''' \<or> tt_original_title tt = None
         then tt\<lparr>tt_original_title := Some title, tt_title := Some ''''\<rparr> else tt)"

definition getTitle :: "tooltip \<Rightarrow> string" where
  "getTitle tt =
     (case tt_original_title tt of None \<Rightarrow> tt_option_title tt | Some t \<Rightarrow> if t = '''' then tt_option_title tt else t)"

text \<open>A popover has content beside its title.\<close>

definition hasContent :: "tooltip \<Rightarrow> bool" where
  "hasContent tt \<longleftrightarrow> getTitle tt \<noteq> '''' \<or> tt_type tt = ''popover'' \<and> tt_content tt \<noteq> ''''"

definition tip_complete :: "tip_completion \<Rightarrow> tooltip \<Rightarrow> tooltip" where
  "tip_complete c tt =
     (case c of
        TipShown \<Rightarrow> (log_tip ''shown'' tt)\<lparr>tt_hoverState := None\<rparr>
      | TipHidden \<Rightarrow> log_tip ''hidden'' (if tt_hoverState tt \<noteq> Some HoverIn then tt\<lparr>tt_attached := False\<rparr> else tt))"

definition tip_transition :: "page \<Rightarrow> tip_completion \<Rightarrow> tooltip \<Rightarrow> tooltip" where
  "tip_transition pg c tt =
     (if pg_transition pg \<and> tt_fade tt then tt\<lparr>tt_pending := tt_pending tt @ [c]\<rparr> else tip_complete c tt)"

text \<open>\<open>show\<close>, with \<open>setContent\<close>, which takes the classes away, and \<open>applyPlacement\<close>, which adds \<open>in\<close>.\<close>

definition show_tip :: "page \<Rightarrow> tooltip \<Rightarrow> tooltip" where
  "show_tip pg tt =
     (if \<not> (hasContent tt \<and> tt_enabled tt) then tt
      else
        (let tt = log_tip ''show'' tt in
         if tip_prevented pg ''show'' tt \<or> \<not> tt_in_dom tt then tt
         else tip_transition pg TipShown
                (tt\<lparr>tt_described := True, tt_fade := tt_animation tt, tt_in := True, tt_attached := True\<rparr>)))"

text \<open>\<open>hide\<close>; the flag says whether it returned the object, which it does not when it is prevented.\<close>

definition hide_tip :: "page \<Rightarrow> tooltip \<Rightarrow> tooltip \<times> bool" where
  "hide_tip pg tt =
     (let tt = log_tip ''hide'' (tt\<lparr>tt_described := False\<rparr>) in
      if tip_prevented pg ''hide'' tt then (tt, False)
      else ((tip_transition pg TipHidden (tt\<lparr>tt_in := False\<rparr>))\<lparr>tt_hoverState := None\<rparr>, True))"

definition enter :: "page \<Rightarrow> tooltip \<Rightarrow> tooltip" where
  "enter pg tt =
     (let tt = tt\<lparr>tt_timer := None, tt_hoverState := Some HoverIn\<rparr>
      in if \<not> tt_delay_show tt then show_tip pg tt else tt\<lparr>tt_timer := Some HoverIn\<rparr>)"

definition leave :: "page \<Rightarrow> tooltip \<Rightarrow> tooltip" where
  "leave pg tt =
     (let tt = tt\<lparr>tt_timer := None, tt_hoverState := Some HoverOut\<rparr>
      in if \<not> tt_delay_hide tt then fst (hide_tip pg tt) else tt\<lparr>tt_timer := Some HoverOut\<rparr>)"

definition timer_fires :: "page \<Rightarrow> tooltip \<Rightarrow> tooltip" where
  "timer_fires pg tt =
     (case tt_timer tt of
        None \<Rightarrow> tt
      | Some h \<Rightarrow>
          (let tt = tt\<lparr>tt_timer := None\<rparr>
           in if tt_hoverState tt \<noteq> Some h then tt
              else case h of HoverIn \<Rightarrow> show_tip pg tt | HoverOut \<Rightarrow> fst (hide_tip pg tt)))"

definition tip_transition_end :: "tooltip \<Rightarrow> tooltip" where
  "tip_transition_end tt = fold tip_complete (tt_pending tt) (tt\<lparr>tt_pending := []\<rparr>)"

definition toggle_tip :: "page \<Rightarrow> tooltip \<Rightarrow> tooltip" where
  "toggle_tip pg tt = (if tt_in tt then leave pg tt else enter pg tt)"

definition toggleEnabled :: "tooltip \<Rightarrow> tooltip" where
  "toggleEnabled tt = tt\<lparr>tt_enabled := \<not> tt_enabled tt\<rparr>"

text \<open>\<open>destroy\<close>: when \<open>hide\<close> is prevented it has no result and the call of \<open>off\<close> on it throws.\<close>

definition destroy_tip :: "page \<Rightarrow> tooltip \<Rightarrow> tooltip \<times> bool" where
  "destroy_tip pg tt = (let (tt, returned) = hide_tip pg (tt\<lparr>tt_timer := None\<rparr>) in (tt, \<not> returned))"

section \<open>The tip in its viewport\<close>

text \<open>
  A tip that fits is moved into the viewport: sideways placements are moved up or down until the tip,
  with its padding, lies between the edges, and the other placements are moved left or right, if the
  viewport starts at the left edge of the page; a tip that already lies there is not moved.
\<close>

theorem viewport_keeps_tip:
  assumes "w + 2 * padding \<le> bx_width vd" "h + 2 * padding \<le> bx_height vd" "bx_left vd = 0"
  shows "let delta = getViewportAdjustedDelta (Some vd) padding placement pos w h;
      newtop = of_top pos + of_top delta - bx_scroll vd; newleft = of_left pos + of_left delta
    in (is_sideways placement \<longrightarrow> of_left delta = 0 \<and>
          bx_top vd + padding \<le> newtop \<and> newtop + h + padding \<le> bx_top vd + bx_height vd \<and>
          (bx_top vd + padding \<le> of_top pos - bx_scroll vd \<and>
             of_top pos - bx_scroll vd + h + padding \<le> bx_top vd + bx_height vd \<longrightarrow> of_top delta = 0)) \<and>
       (\<not> is_sideways placement \<longrightarrow> of_top delta = 0 \<and>
          bx_left vd + padding \<le> newleft \<and> newleft + w + padding \<le> bx_left vd + bx_width vd \<and>
          (bx_left vd + padding \<le> of_left pos \<and> of_left pos + w + padding \<le> bx_left vd + bx_width vd \<longrightarrow>
             of_left delta = 0))"
  using assms by (auto simp: getViewportAdjustedDelta_def Let_def)

definition demo_box :: box where
  "demo_box = \<lparr>bx_top = 0, bx_left = 0, bx_width = 300, bx_height = 400, bx_right = 300, bx_scroll = 0\<rparr>"

theorem viewport_keeps_tip_witness:
  "0 + 5 \<le> of_left \<lparr>of_top = 10, of_left = -20\<rparr> +
     of_left (getViewportAdjustedDelta (Some demo_box) 5 ''top'' \<lparr>of_top = 10, of_left = -20\<rparr> 100 40)"
proof -
  have "\<not> is_sideways ''top''" by code_simp
  with viewport_keeps_tip [of 100 5 demo_box 40 "''top''" "\<lparr>of_top = 10, of_left = -20\<rparr>"] show ?thesis
    by (simp add: demo_box_def Let_def)
qed

text \<open>
  The test for an overflow on the right compares with the width of the viewport instead of its right
  edge: in a viewport that starts to the right of the page's edge, a tip above or below its element that
  lies well inside, but beyond that width, is moved to the right edge.
\<close>

theorem viewport_moves_fitting_tip:
  assumes "\<not> is_sideways placement" "bx_left vd + padding \<le> of_left pos"
    "of_left pos + padding + w < bx_left vd + bx_width vd" "bx_width vd < of_left pos + padding + w"
  shows "of_left (getViewportAdjustedDelta (Some vd) padding placement pos w h) > 0 \<and>
    of_left pos + of_left (getViewportAdjustedDelta (Some vd) padding placement pos w h) + padding + w = bx_left vd + bx_width vd"
  using assms by (simp add: getViewportAdjustedDelta_def Let_def)

theorem viewport_moves_fitting_tip_witness:
  "of_left (getViewportAdjustedDelta (Some (demo_box\<lparr>bx_left := 200\<rparr>)) 0 ''bottom'' \<lparr>of_top = 10, of_left = 260\<rparr> 100 40) > 0"
proof -
  have "\<not> is_sideways ''bottom''" by code_simp
  with viewport_moves_fitting_tip [of "''bottom''" "demo_box\<lparr>bx_left := 200\<rparr>" 0 "\<lparr>of_top = 10, of_left = 260\<rparr>" 100 40]
  show ?thesis by (simp add: demo_box_def)
qed

section \<open>Names of tips\<close>

lemma getUID_unused:
  assumes "finite {s. taken s}" "card {s. taken s \<and> length prefix < length s} < length rs"
  shows "\<exists>ds. getUID taken rs prefix = Some (prefix @ ds) \<and> ds \<noteq> [] \<and> \<not> taken (prefix @ ds)"
  using assms(2)
proof (induction rs arbitrary: prefix)
  case (Cons r rs)
  let ?p = "prefix @ nat_str r"
  show ?case
  proof (cases "taken ?p")
    case True
    have p: "length prefix < length ?p" by simp
    then have "{s. taken s \<and> length ?p < length s} \<subseteq> {s. taken s \<and> length prefix < length s}"
      by (auto simp del: length_append)
    moreover have "?p \<in> {s. taken s \<and> length prefix < length s}" "?p \<notin> {s. taken s \<and> length ?p < length s}"
      using True p by simp_all
    ultimately have "{s. taken s \<and> length ?p < length s} \<subset> {s. taken s \<and> length prefix < length s}" by blast
    then have "card {s. taken s \<and> length ?p < length s} < card {s. taken s \<and> length prefix < length s}"
      using assms(1) by (intro psubset_card_mono) (auto intro: rev_finite_subset)
    with Cons.prems have "card {s. taken s \<and> length ?p < length s} < length rs" by simp
    from Cons.IH [OF this] obtain ds where "getUID taken rs ?p = Some (?p @ ds)" "\<not> taken (?p @ ds)" by blast
    with True show ?thesis by (auto simp: Let_def)
  qed (auto simp: Let_def)
qed simp

text \<open>
  The search for a name of a tip ends and finds a free one, whatever the random numbers are: with
  \<open>n\<close> names taken in the document it ends within \<open>n + 1\<close> rounds, with a name that starts with the given
  prefix and is not taken.
\<close>

theorem getUID_ends:
  assumes "finite {s. taken s}" "card {s. taken s} < length rs"
  shows "\<exists>ds. getUID taken rs prefix = Some (prefix @ ds) \<and> ds \<noteq> [] \<and> \<not> taken (prefix @ ds)"
proof -
  have "card {s. taken s \<and> length prefix < length s} \<le> card {s. taken s}"
    using assms(1) by (intro card_mono) auto
  with assms show ?thesis by (intro getUID_unused) simp_all
qed

theorem getUID_ends_witness: "\<exists>u. getUID (\<lambda>s. s = ''tooltip7'') [7, 7] ''tooltip'' = Some u \<and> u \<noteq> ''tooltip7''"
proof -
  have "{s. s = ''tooltip7''} = {''tooltip7''}" by auto
  then have "finite {s. s = ''tooltip7''}" "card {s. s = ''tooltip7''} < length [7, 7 :: nat]" by simp_all
  from getUID_ends [OF this, of "''tooltip''"] show ?thesis by auto
qed

section \<open>Entering and leaving\<close>

lemma tip_completes_hidden:
  assumes "tt_hoverState tt \<noteq> Some HoverIn" "\<not> tt_attached tt \<or> TipHidden \<in> set cs"
  shows "\<not> tt_attached (fold tip_complete cs tt) \<and> tt_hoverState (fold tip_complete cs tt) \<noteq> Some HoverIn"
  using assms
proof (induction cs arbitrary: tt)
  case (Cons c cs)
  then show ?case by (cases c) (auto simp: tip_complete_def log_tip_def)
qed simp

lemma tip_completes_other [simp]:
  "tt_in (fold tip_complete cs tt) = tt_in tt" "tt_timer (fold tip_complete cs tt) = tt_timer tt"
  "tt_described (fold tip_complete cs tt) = tt_described tt"
  by (induction cs arbitrary: tt) (simp_all add: tip_complete_def log_tip_def split: tip_completion.split)

lemma hide_tip_ends:
  assumes "\<not> tip_prevented pg ''hide'' tt" "tt_hoverState tt \<noteq> Some HoverIn"
  shows "let tt' = tip_transition_end (fst (hide_tip pg tt))
    in \<not> tt_attached tt' \<and> \<not> tt_in tt' \<and> \<not> tt_described tt' \<and> tt_hoverState tt' \<noteq> Some HoverIn \<and> tt_timer tt' = tt_timer tt"
proof -
  let ?h = "fst (hide_tip pg tt)"
  have "tt_hoverState ?h = None" "\<not> tt_in ?h" "\<not> tt_described ?h" "\<not> tt_attached ?h \<or> TipHidden \<in> set (tt_pending ?h)"
    "tt_timer ?h = tt_timer tt"
    using assms
    by (auto simp: hide_tip_def tip_prevented_def log_tip_def tip_transition_def tip_complete_def Let_def)
  then show ?thesis
    using tip_completes_hidden [of "?h\<lparr>tt_pending := []\<rparr>" "tt_pending ?h"] by (simp add: tip_transition_end_def Let_def)
qed

text \<open>
  Once the mouse has left, the timer has run out and the transition has ended, the tip is gone from
  the document, whatever state it was left in, unless a listener prevents it.
\<close>

theorem leave_removes_tip:
  assumes "\<not> tip_prevented pg ''hide'' tt"
  shows "let tt' = tip_transition_end (timer_fires pg (leave pg tt))
    in \<not> tt_attached tt' \<and> \<not> tt_in tt' \<and> \<not> tt_described tt' \<and> tt_hoverState tt' \<noteq> Some HoverIn \<and> tt_timer tt' = None"
proof (cases "tt_delay_hide tt")
  case True
  then have "timer_fires pg (leave pg tt) = fst (hide_tip pg (tt\<lparr>tt_hoverState := Some HoverOut, tt_timer := None\<rparr>))"
    by (simp add: leave_def timer_fires_def Let_def)
  then show ?thesis
    using assms hide_tip_ends [of pg "tt\<lparr>tt_hoverState := Some HoverOut, tt_timer := None\<rparr>"]
    by (simp add: tip_prevented_def Let_def)
next
  case False
  let ?l = "fst (hide_tip pg (tt\<lparr>tt_timer := None, tt_hoverState := Some HoverOut\<rparr>))"
  have l: "leave pg tt = ?l" using False by (simp add: leave_def Let_def)
  have "tt_timer ?l = None"
    by (simp add: hide_tip_def tip_transition_def tip_complete_def log_tip_def Let_def)
  then have "timer_fires pg (leave pg tt) = ?l" by (simp add: l timer_fires_def)
  then show ?thesis
    using assms hide_tip_ends [of pg "tt\<lparr>tt_timer := None, tt_hoverState := Some HoverOut\<rparr>"]
    by (simp add: tip_prevented_def Let_def)
qed

lemma hasContent_upd [simp]:
  "hasContent (tt\<lparr>tt_timer := a\<rparr>) = hasContent tt" "hasContent (tt\<lparr>tt_hoverState := b\<rparr>) = hasContent tt"
  "hasContent (tt\<lparr>tt_log := c\<rparr>) = hasContent tt" "hasContent (tt\<lparr>tt_described := d\<rparr>) = hasContent tt"
  "hasContent (tt\<lparr>tt_in := d\<rparr>) = hasContent tt" "hasContent (tt\<lparr>tt_fade := d\<rparr>) = hasContent tt"
  "hasContent (tt\<lparr>tt_attached := d\<rparr>) = hasContent tt" "hasContent (tt\<lparr>tt_pending := e\<rparr>) = hasContent tt"
  by (simp_all add: hasContent_def getTitle_def split: option.split)

text \<open>
  A tip that is entered, left and entered again before its transition ends is removed although the
  mouse is on the element: all three handlers run at the end of the transition, and the one of the first
  showing resets the state by which the one of the hiding would see that it is to stay.
\<close>

theorem reenter_removes_tip:
  assumes "tt_pending tt = []" "pg_transition pg" "tt_animation tt" "\<not> tt_delay_show tt" "\<not> tt_delay_hide tt"
    "hasContent tt" "tt_enabled tt" "tt_in_dom tt" "\<forall>n ev. \<not> pg_prevent pg n ev"
  shows "let tt' = enter pg (leave pg (enter pg tt))
    in tt_attached tt' \<and> tt_in (tip_transition_end tt') \<and> tt_described (tip_transition_end tt') \<and>
       \<not> tt_attached (tip_transition_end tt')"
  using assms
  by (simp add: enter_def leave_def show_tip_def hide_tip_def tip_prevented_def log_tip_def tip_transition_def
      tip_transition_end_def tip_complete_def Let_def)

definition demo_tip :: tooltip where
  "demo_tip = fixTitle \<lparr>tt_type = ''tooltip'', tt_animation = True, tt_delay_show = False, tt_delay_hide = False,
     tt_option_title = '''', tt_title = Some ''help'', tt_original_title = None, tt_content = '''', tt_in_dom = True,
     tt_described = False, tt_enabled = True, tt_hoverState = None, tt_timer = None, tt_in = False, tt_fade = False,
     tt_attached = False, tt_pending = [], tt_log = []\<rparr>"

definition demo_browser :: page where
  "demo_browser = \<lparr>pg_transition = True, pg_prevent = \<lambda>_ _. False\<rparr>"

theorem leave_removes_tip_witness:
  "\<not> tt_attached (tip_transition_end (timer_fires demo_browser (leave demo_browser (enter demo_browser demo_tip))))"
  using leave_removes_tip [of demo_browser "enter demo_browser demo_tip"]
  by (simp add: tip_prevented_def demo_browser_def Let_def)

theorem reenter_removes_tip_witness:
  "\<not> tt_attached (tip_transition_end (enter demo_browser (leave demo_browser (enter demo_browser demo_tip))))"
proof -
  have "tt_pending demo_tip = []" "pg_transition demo_browser" "tt_animation demo_tip" "\<not> tt_delay_show demo_tip"
    "\<not> tt_delay_hide demo_tip" "hasContent demo_tip" "tt_enabled demo_tip" "tt_in_dom demo_tip" by code_simp+
  with reenter_removes_tip [of demo_tip demo_browser] show ?thesis by (simp add: demo_browser_def Let_def)
qed

end
