(* ===== verification/Bootstrap_Controls.thy ===== *)
theory Bootstrap_Controls
  imports Page
begin

text \<open>
  The small plugins of \<open>bootstrap-3.2.0.js\<close>: dropdown menus, tabs, buttons and alerts. Elements are
  numbers of entries in lists.
\<close>

section \<open>Targets\<close>

text \<open>
  \<open>href.replace(/.*(?=#[^\s]*$)/, '')\<close> keeps the part from the last hash on, if no white space follows
  it; the text has no line breaks. With \<open>plus1\<close> the pattern asks for one more character.
\<close>

definition white :: "char \<Rightarrow> bool" where
  "white c \<longleftrightarrow> c \<in> {CHR '' '', CHR 0x09, CHR 0x0B, CHR 0x0C, CHR 0xA0}"

fun last_fragment :: "bool \<Rightarrow> string \<Rightarrow> string option" where
  "last_fragment plus1 [] = None"
| "last_fragment plus1 (c # s) =
     (case last_fragment plus1 s of
        Some t \<Rightarrow> Some t
      | None \<Rightarrow> if c = CHR ''#'' \<and> \<not> list_ex white s \<and> (plus1 \<longrightarrow> s \<noteq> []) then Some (c # s) else None)"

definition strip_href :: "bool \<Rightarrow> string \<Rightarrow> string" where
  "strip_href plus1 s = (case last_fragment plus1 s of None \<Rightarrow> s | Some t \<Rightarrow> t)"

text \<open>\<open>/#[A-Za-z]/.test(s)\<close>\<close>

fun has_name :: "string \<Rightarrow> bool" where
  "has_name (c # d # s) \<longleftrightarrow> c = CHR ''#'' \<and> ascii_lower d \<in> set ''abcdefghijklmnopqrstuvwxyz'' \<or> has_name (d # s)"
| "has_name _ \<longleftrightarrow> False"

section \<open>Dropdown\<close>

text \<open>
  A toggle with its attributes and the menu it is in; \<open>dt_navbar\<close> says that it is in a navigation bar.
  \<open>ds_query\<close> is what a selector finds among the menus.
\<close>

record dropdown_toggle =
  dt_target :: "string option"
  dt_href :: "string option"
  dt_menu :: nat
  dt_disabled :: bool
  dt_navbar :: bool

record dropdowns =
  ds_toggles :: "dropdown_toggle list"
  ds_menus :: "classes list"
  ds_backdrops :: nat
  ds_focus :: "nat option"
  ds_query :: "string \<Rightarrow> nat option"
  ds_touch :: bool

definition getParent :: "dropdowns \<Rightarrow> dropdown_toggle \<Rightarrow> nat" where
  "getParent ds t =
     (let target = (case dt_target t of None \<Rightarrow> '''' | Some s \<Rightarrow> s);
          href = (case dt_href t of None \<Rightarrow> '''' | Some s \<Rightarrow> s);
          selector = (if target \<noteq> '''' then target else if has_name href then strip_href False href else '''')
      in case (if selector = '''' then None else ds_query ds selector) of Some m \<Rightarrow> m | None \<Rightarrow> dt_menu t)"

definition is_open :: "dropdowns \<Rightarrow> nat \<Rightarrow> bool" where
  "is_open ds m = hasClass ''open'' (ds_menus ds ! m)"

definition upd_menu :: "nat \<Rightarrow> (classes \<Rightarrow> classes) \<Rightarrow> dropdowns \<Rightarrow> dropdowns" where
  "upd_menu m f ds = ds\<lparr>ds_menus := (ds_menus ds)[m := f (ds_menus ds ! m)]\<rparr>"

definition clear_menu :: "page \<Rightarrow> dropdown_toggle \<Rightarrow> dropdowns \<Rightarrow> dropdowns" where
  "clear_menu pg t ds =
     (let m = getParent ds t
      in if \<not> is_open ds m then ds
         else if pg_prevent pg m ''hide.bs.dropdown'' then ds
         else upd_menu m (removeClass ''open'') ds)"

text \<open>\<open>clearMenus(e)\<close>; clicks with the right button, for which \<open>e.which\<close> is 3, do nothing.\<close>

definition clearMenus :: "page \<Rightarrow> bool \<Rightarrow> dropdowns \<Rightarrow> dropdowns" where
  "clearMenus pg right ds =
     (if right then ds else fold (clear_menu pg) (ds_toggles ds) (ds\<lparr>ds_backdrops := 0\<rparr>))"

definition toggle_dropdown :: "page \<Rightarrow> nat \<Rightarrow> dropdowns \<Rightarrow> dropdowns" where
  "toggle_dropdown pg k ds =
     (let t = ds_toggles ds ! k
      in if dt_disabled t then ds
         else
           (let m = getParent ds t; isActive = is_open ds m; ds = clearMenus pg False ds
            in if isActive then ds
               else
                 (let ds = (if ds_touch ds \<and> \<not> dt_navbar t then ds\<lparr>ds_backdrops := ds_backdrops ds + 1\<rparr> else ds)
                  in if pg_prevent pg m ''show.bs.dropdown'' then ds
                     else upd_menu m (toggleClass ''open'') (ds\<lparr>ds_focus := None\<rparr>))))"

text \<open>
  \<open>keydown\<close> on the toggle \<open>k\<close> or its menu, whose visible entries are \<open>n\<close>; \<open>ds_focus\<close> is the entry with the
  focus. A code like 138 passes the first test but none of the others.
\<close>

definition move_focus :: "nat \<Rightarrow> nat \<Rightarrow> int \<Rightarrow> int" where
  "move_focus keyCode n index =
     (let index = (if keyCode = 38 \<and> index > 0 then index - 1 else index);
          index = (if keyCode = 40 \<and> index < int n - 1 then index + 1 else index)
      in if index = - 1 then 0 else index)"

definition contains_code :: "nat \<Rightarrow> bool" where
  "contains_code keyCode \<longleftrightarrow>
     (\<exists>i \<le> length (nat_str keyCode). take 2 (drop i (nat_str keyCode)) \<in> {''38'', ''40'', ''27''})"

definition keydown_dropdown :: "page \<Rightarrow> nat \<Rightarrow> nat \<Rightarrow> nat \<Rightarrow> dropdowns \<Rightarrow> dropdowns" where
  "keydown_dropdown pg keyCode n k ds =
     (let t = ds_toggles ds ! k
      in if \<not> contains_code keyCode \<or> dt_disabled t then ds
         else
           (let isActive = is_open ds (getParent ds t)
            in if \<not> isActive \<or> keyCode = 27 then toggle_dropdown pg k ds
               else if n = 0 then ds
               else
                 (let index = (case ds_focus ds of None \<Rightarrow> - 1 | Some i \<Rightarrow> if i < n then int i else - 1)
                  in ds\<lparr>ds_focus := Some (nat (move_focus keyCode n index))\<rparr>)))"

definition openMenus :: "dropdowns \<Rightarrow> nat set" where
  "openMenus ds = {m. m < length (ds_menus ds) \<and> is_open ds m}"

text \<open>Every toggle has a menu, and every menu that is open has a toggle.\<close>

definition dropdowns_wf :: "dropdowns \<Rightarrow> bool" where
  "dropdowns_wf ds \<longleftrightarrow> (\<forall>t \<in> set (ds_toggles ds). getParent ds t < length (ds_menus ds)) \<and>
     openMenus ds \<subseteq> getParent ds ` set (ds_toggles ds)"

lemma getParent_upd [simp]:
  "getParent (upd_menu m f ds) t = getParent ds t" "getParent (ds\<lparr>ds_backdrops := n\<rparr>) t = getParent ds t"
  "getParent (ds\<lparr>ds_focus := x\<rparr>) t = getParent ds t"
  by (simp_all add: getParent_def upd_menu_def Let_def)

lemma menus_upd [simp]:
  "length (ds_menus (upd_menu m f ds)) = length (ds_menus ds)" "ds_toggles (upd_menu m f ds) = ds_toggles ds"
  "is_open (ds\<lparr>ds_backdrops := n\<rparr>) m = is_open ds m" "is_open (ds\<lparr>ds_focus := x\<rparr>) m = is_open ds m"
  "ds_touch (upd_menu m f ds) = ds_touch ds"
  by (simp_all add: upd_menu_def is_open_def)

lemma is_open_upd [simp]: "m < length (ds_menus ds) \<Longrightarrow>
    is_open (upd_menu m f ds) m' = (if m' = m then hasClass ''open'' (f (ds_menus ds ! m)) else is_open ds m')"
  by (simp add: is_open_def upd_menu_def)

lemma clear_menus:
  assumes "\<forall>t \<in> set ts. getParent ds t < length (ds_menus ds)" "\<forall>m. \<not> pg_prevent pg m ''hide.bs.dropdown''"
  shows "let ds' = fold (clear_menu pg) ts ds
    in (\<forall>m. is_open ds' m \<longleftrightarrow> is_open ds m \<and> m \<notin> getParent ds ` set ts) \<and>
       length (ds_menus ds') = length (ds_menus ds) \<and> (\<forall>t. getParent ds' t = getParent ds t) \<and>
       ds_toggles ds' = ds_toggles ds \<and> ds_backdrops ds' = ds_backdrops ds \<and> ds_touch ds' = ds_touch ds"
  using assms
proof (induction ts arbitrary: ds)
  case (Cons t ts)
  let ?ds = "clear_menu pg t ds"
  have c: "is_open ?ds m \<longleftrightarrow> is_open ds m \<and> m \<noteq> getParent ds t" "length (ds_menus ?ds) = length (ds_menus ds)"
    "getParent ?ds u = getParent ds u" "ds_toggles ?ds = ds_toggles ds" "ds_backdrops ?ds = ds_backdrops ds"
    "ds_touch ?ds = ds_touch ds" for m u
    using Cons.prems by (auto simp: clear_menu_def Let_def) (simp_all add: upd_menu_def)
  from Cons.IH [of ?ds] Cons.prems show ?case by (auto simp: c Let_def)
qed (simp add: Let_def)

text \<open>
  C18. Clicking an enabled toggle opens its menu if it was closed and closes it if it was open, and no
  other menu stays open: when no listener interferes, at most the menu of that toggle is open afterwards,
  however many were open before, and the backdrop for touch devices is there at most once, and only then.
\<close>

theorem toggle_opens_one:
  assumes "dropdowns_wf ds" "k < length (ds_toggles ds)" "\<not> dt_disabled (ds_toggles ds ! k)" "\<forall>m ev. \<not> pg_prevent pg m ev"
  shows "let m = getParent ds (ds_toggles ds ! k); ds' = toggle_dropdown pg k ds
    in openMenus ds' = (if is_open ds m then {} else {m}) \<and> dropdowns_wf ds' \<and>
       (is_open ds m \<longrightarrow> ds_backdrops ds' = 0) \<and> ds_backdrops ds' \<le> 1"
proof -
  let ?t = "ds_toggles ds ! k" let ?m = "getParent ds (ds_toggles ds ! k)" let ?c = "clearMenus pg False ds"
  have t: "?t \<in> set (ds_toggles ds)" using assms(2) by simp
  then have m: "?m < length (ds_menus ds)" using assms(1) by (simp add: dropdowns_wf_def)
  have c: "length (ds_menus ?c) = length (ds_menus ds)" "\<And>t. getParent ?c t = getParent ds t"
    "ds_toggles ?c = ds_toggles ds" "ds_backdrops ?c = 0"
    "\<And>m. is_open ?c m \<longleftrightarrow> is_open ds m \<and> m \<notin> getParent ds ` set (ds_toggles ds)"
    using clear_menus [of "ds_toggles ds" "ds\<lparr>ds_backdrops := 0\<rparr>" pg] assms(1,4)
    by (simp_all add: clearMenus_def dropdowns_wf_def Let_def)
  then have closed: "openMenus ?c = {}" using assms(1) by (auto simp: openMenus_def dropdowns_wf_def)
  show ?thesis
  proof (cases "is_open ds ?m")
    case True
    then have "toggle_dropdown pg k ds = ?c" using assms(3) by (simp add: toggle_dropdown_def Let_def)
    with True closed c assms(1) show ?thesis by (simp add: dropdowns_wf_def Let_def)
  next
    case False
    define d where "d = (if ds_touch ?c \<and> \<not> dt_navbar ?t then ?c\<lparr>ds_backdrops := 1\<rparr> else ?c)"
    have d: "is_open d m \<longleftrightarrow> is_open ?c m" "ds_menus d = ds_menus ?c" "ds_toggles d = ds_toggles ds" "ds_backdrops d \<le> 1"
      "getParent d u = getParent ds u" for m u
      by (simp_all add: d_def c)
    have e: "toggle_dropdown pg k ds = upd_menu ?m (toggleClass ''open'') (d\<lparr>ds_focus := None\<rparr>)"
      using False assms(3,4) c(4) by (simp add: toggle_dropdown_def d_def Let_def)
    have "\<not> is_open d ?m" using d(1) closed m c(1) by (auto simp: openMenus_def)
    then have "openMenus (toggle_dropdown pg k ds) = {?m}"
      using m closed d(1,2) c(1) by (auto simp: e openMenus_def is_open_def [of _ ?m])
    moreover have "ds_backdrops (toggle_dropdown pg k ds) \<le> 1" using d(4) by (simp add: e upd_menu_def)
    moreover have "dropdowns_wf (toggle_dropdown pg k ds)"
      using calculation(1) t assms(1) d c by (auto simp: dropdowns_wf_def e)
    ultimately show ?thesis using False by (simp add: Let_def)
  qed
qed

text \<open>
  Moving through a menu with the arrow keys stays in it: with \<open>n > 0\<close> entries the new index is below
  \<open>n\<close>; from no entry the first one gets the focus, up and down move by one and stop at the ends.
\<close>

theorem move_focus_bounds:
  assumes "0 < n" "- 1 \<le> index" "index < int n"
  shows "0 \<le> move_focus keyCode n index \<and> move_focus keyCode n index < int n \<and> move_focus keyCode n (- 1) = 0 \<and>
    (0 \<le> index \<longrightarrow> move_focus 38 n index = max 0 (index - 1) \<and> move_focus 40 n index = min (int n - 1) (index + 1))"
  using assms by (auto simp: move_focus_def Let_def)

theorem move_focus_bounds_witness: "move_focus 40 3 2 = 2 \<and> move_focus 38 3 2 = 1"
  using move_focus_bounds [of 3 2 40] by (simp add: max_def min_def)

definition demo_menus :: dropdowns where
  "demo_menus = \<lparr>ds_toggles = [\<lparr>dt_target = None, dt_href = Some ''#'', dt_menu = 0, dt_disabled = False, dt_navbar = False\<rparr>,
     \<lparr>dt_target = Some ''#m'', dt_href = None, dt_menu = 0, dt_disabled = False, dt_navbar = True\<rparr>],
     ds_menus = [[''open''], []], ds_backdrops = 0, ds_focus = None, ds_query = [''#m'' \<mapsto> 1], ds_touch = True\<rparr>"

theorem toggle_opens_one_witness:
  "openMenus (toggle_dropdown \<lparr>pg_transition = True, pg_prevent = \<lambda>_ _. False\<rparr> 1 demo_menus) = {1}"
proof -
  have p: "getParent demo_menus (ds_toggles demo_menus ! 0) = 0" "getParent demo_menus (ds_toggles demo_menus ! 1) = 1"
    "\<not> is_open demo_menus 1" "is_open demo_menus 0" "length (ds_toggles demo_menus) = 2" "length (ds_menus demo_menus) = 2"
    "\<not> dt_disabled (ds_toggles demo_menus ! 1)" by code_simp+
  have "set (ds_toggles demo_menus) = {ds_toggles demo_menus ! 0, ds_toggles demo_menus ! 1}"
    by (simp add: demo_menus_def)
  with p have "dropdowns_wf demo_menus" by (auto simp: dropdowns_wf_def openMenus_def less_2_cases_iff)
  with p toggle_opens_one [of demo_menus 1 "\<lparr>pg_transition = True, pg_prevent = \<lambda>_ _. False\<rparr>"] show ?thesis
    by (simp add: Let_def)
qed

section \<open>Tabs\<close>

text \<open>
  The entries of a navigation and the panes they show, one for each. A change of panes that waits for
  a transition has captured the panes that were active, and is bound to them.
\<close>

record tab_change =
  tc_actives :: "nat list"
  tc_element :: nat

record tabs =
  tb_entries :: "classes list"
  tb_panes :: "classes list"
  tb_pending :: "tab_change list"
  tb_log :: "(nat \<times> string) list"

definition upd_all :: "nat list \<Rightarrow> (classes \<Rightarrow> classes) \<Rightarrow> classes list \<Rightarrow> classes list" where
  "upd_all ks f xs = map (\<lambda>(k, x). if k \<in> set ks then f x else x) (enumerate 0 xs)"

definition having :: "string \<Rightarrow> classes list \<Rightarrow> nat list" where
  "having c xs = filter (\<lambda>k. hasClass c (xs ! k)) [0..<length xs]"

text \<open>The function \<open>next\<close> in \<open>activate\<close>, for elements without menus inside.\<close>

definition activate_next :: "bool \<Rightarrow> nat list \<Rightarrow> nat \<Rightarrow> classes list \<Rightarrow> classes list" where
  "activate_next transition actives element xs =
     (let xs = upd_all [element] (addClass ''active'') (upd_all actives (removeClass ''active'') xs)
      in upd_all [element] (if transition then addClass ''in'' else removeClass ''fade'') xs)"

definition tab_shown :: "nat \<Rightarrow> tabs \<Rightarrow> tabs" where
  "tab_shown k tb = tb\<lparr>tb_log := tb_log tb @ [(k, ''shown.bs.tab'')]\<rparr>"

text \<open>\<open>activate\<close> for the panes, which has a callback, and \<open>show\<close>.\<close>

definition activate_pane :: "page \<Rightarrow> nat \<Rightarrow> tabs \<Rightarrow> tabs" where
  "activate_pane pg k tb =
     (let actives = having ''active'' (tb_panes tb);
          transition = (pg_transition pg \<and> (\<exists>j \<in> set actives. hasClass ''fade'' (tb_panes tb ! j)));
          tb = (if transition then tb\<lparr>tb_pending := tb_pending tb @ [\<lparr>tc_actives = actives, tc_element = k\<rparr>]\<rparr>
                else tab_shown k (tb\<lparr>tb_panes := activate_next False actives k (tb_panes tb)\<rparr>))
      in tb\<lparr>tb_panes := upd_all actives (removeClass ''in'') (tb_panes tb)\<rparr>)"

definition show_tab :: "page \<Rightarrow> nat \<Rightarrow> tabs \<Rightarrow> tabs" where
  "show_tab pg k tb =
     (if hasClass ''active'' (tb_entries tb ! k) then tb
      else
        (let tb = tb\<lparr>tb_log := tb_log tb @ [(k, ''show.bs.tab'')]\<rparr>
         in if pg_prevent pg k ''show.bs.tab'' then tb
            else
              (let actives = having ''active'' (tb_entries tb);
                   entries = upd_all actives (removeClass ''in'') (activate_next False actives k (tb_entries tb))
               in activate_pane pg k (tb\<lparr>tb_entries := entries\<rparr>))))"

text \<open>The transition of pane \<open>j\<close> ends.\<close>

definition finish_change :: "tab_change \<Rightarrow> tabs \<Rightarrow> tabs" where
  "finish_change c tb =
     tab_shown (tc_element c) (tb\<lparr>tb_panes := activate_next True (tc_actives c) (tc_element c) (tb_panes tb)\<rparr>)"

definition pane_transition_end :: "nat \<Rightarrow> tabs \<Rightarrow> tabs" where
  "pane_transition_end j tb =
     fold finish_change (filter (\<lambda>c. j \<in> set (tc_actives c)) (tb_pending tb))
       (tb\<lparr>tb_pending := filter (\<lambda>c. j \<notin> set (tc_actives c)) (tb_pending tb)\<rparr>)"

lemma nth_upd_all [simp]: "k < length xs \<Longrightarrow> upd_all ks f xs ! k = (if k \<in> set ks then f (xs ! k) else xs ! k)"
  "length (upd_all ks f xs) = length xs"
  by (simp_all add: upd_all_def nth_enumerate_eq)

lemma having_single: "having c xs = [a] \<longleftrightarrow> a < length xs \<and> (\<forall>k < length xs. hasClass c (xs ! k) \<longleftrightarrow> k = a)"
  by (simp add: having_def filter_upt_single)

lemma having_next: "having ''active'' xs = [a] \<Longrightarrow> k < length xs \<Longrightarrow> having ''active'' (activate_next b [a] k xs) = [k]"
  by (auto simp: having_single activate_next_def Let_def)

lemma having_upd: "\<forall>x. hasClass c (f x) = hasClass c x \<Longrightarrow> having c (upd_all ks f xs) = having c xs"
  unfolding having_def by (intro filter_cong) auto

text \<open>
  With no change of panes under way and one active entry and pane, showing tab \<open>k\<close> makes its entry
  the active one at once, and its pane the active one when the transition of the old pane, if there
  is one, has ended.
\<close>

theorem show_tab_activates:
  assumes "having ''active'' (tb_entries tb) = [a]" "having ''active'' (tb_panes tb) = [a]" "tb_pending tb = []"
    "length (tb_panes tb) = length (tb_entries tb)" "k < length (tb_entries tb)" "\<not> pg_prevent pg k ''show.bs.tab''"
  shows "let tb' = show_tab pg k tb
    in having ''active'' (tb_entries tb') = [k] \<and>
       having ''active'' (tb_panes (pane_transition_end a tb')) = [k] \<and> tb_pending (pane_transition_end a tb') = []"
proof (cases "k = a")
  case True
  then have "show_tab pg k tb = tb" using assms(1) by (simp add: show_tab_def having_single)
  with True assms show ?thesis by (simp add: pane_transition_end_def Let_def)
next
  case False
  then have n: "\<not> hasClass ''active'' (tb_entries tb ! k)" using assms(1,5) by (simp add: having_single)
  have r: "having ''active'' (upd_all [a] (removeClass ''in'') xs) = having ''active'' xs" for xs
    by (rule having_upd) simp
  have p: "having ''active'' (activate_next b [a] k (upd_all [a] (removeClass ''in'') (tb_panes tb))) = [k]" for b
    using assms by (intro having_next) (simp_all add: r)
  show ?thesis
    using n assms having_next [OF assms(1,5)] having_next [OF assms(2), of k]
    by (simp add: show_tab_def activate_pane_def tab_shown_def pane_transition_end_def finish_change_def r p Let_def)
qed

definition demo_tabs :: tabs where
  "demo_tabs = \<lparr>tb_entries = [[''active''], [], []], tb_panes = [[''fade'', ''in'', ''active''], [''fade''], [''fade'']],
     tb_pending = [], tb_log = []\<rparr>"

definition demo_tab_page :: page where
  "demo_tab_page = \<lparr>pg_transition = True, pg_prevent = \<lambda>_ _. False\<rparr>"

theorem show_tab_activates_witness:
  "having ''active'' (tb_panes (pane_transition_end 0 (show_tab demo_tab_page 2 demo_tabs))) = [2]"
proof -
  have "having ''active'' (tb_entries demo_tabs) = [0]" "having ''active'' (tb_panes demo_tabs) = [0]" by code_simp+
  with show_tab_activates [of demo_tabs 0 2 demo_tab_page] show ?thesis
    by (simp add: demo_tabs_def demo_tab_page_def Let_def)
qed

text \<open>
  Two tabs shown during one transition leave two panes active: both changes captured the same old
  pane, and neither takes the class from the pane of the other.
\<close>

theorem tabs_two_panes:
  "let tb = pane_transition_end 0 (show_tab demo_tab_page 2 (show_tab demo_tab_page 1 demo_tabs))
   in having ''active'' (tb_entries tb) = [2] \<and> having ''active'' (tb_panes tb) = [1, 2] \<and> tb_pending tb = []"
  by code_simp

section \<open>Buttons\<close>

text \<open>
  A button with its text, its data attributes and options, the object's flag and the deferred changes; and
  a group of buttons with inputs.
\<close>

record button =
  bt_text :: string
  bt_data :: "string \<rightharpoonup> string"
  bt_options :: "string \<rightharpoonup> string"
  bt_isLoading :: bool
  bt_disabled :: bool
  bt_timers :: "string list"

definition button_DEFAULTS :: "string \<rightharpoonup> string" where
  "button_DEFAULTS = [''loadingText'' \<mapsto> ''loading...'']"

definition setState :: "string \<Rightarrow> button \<Rightarrow> button" where
  "setState state bt =
     (let state = state @ ''Text'';
          bt = (if bt_data bt ''resetText'' = None then bt\<lparr>bt_data := (bt_data bt)(''resetText'' \<mapsto> bt_text bt)\<rparr> else bt);
          text = (case bt_data bt state of None \<Rightarrow> bt_options bt state | Some t \<Rightarrow> Some t);
          bt = (case text of None \<Rightarrow> bt | Some t \<Rightarrow> bt\<lparr>bt_text := t\<rparr>)
      in bt\<lparr>bt_timers := bt_timers bt @ [state]\<rparr>)"

definition run_button_timer :: "string \<Rightarrow> button \<Rightarrow> button" where
  "run_button_timer state bt =
     (if state = ''loadingText'' then bt\<lparr>bt_isLoading := True, bt_disabled := True\<rparr>
      else if bt_isLoading bt then bt\<lparr>bt_isLoading := False, bt_disabled := False\<rparr> else bt)"

definition run_button_timers :: "button \<Rightarrow> button" where
  "run_button_timers bt = fold run_button_timer (bt_timers bt) (bt\<lparr>bt_timers := []\<rparr>)"

datatype input_type = Radio | Checkbox

record group_button =
  gb_type :: input_type
  gb_checked :: bool
  gb_active :: bool

text \<open>\<open>toggle\<close> of button \<open>k\<close> in a group; the browser unchecks the other radio inputs.\<close>

definition toggle_button :: "nat \<Rightarrow> group_button list \<Rightarrow> group_button list" where
  "toggle_button k bs =
     (let b = bs ! k; radio = (gb_type b = Radio);
          changed = (\<not> (radio \<and> gb_checked b \<and> gb_active b));
          bs = (if radio \<and> changed then map (\<lambda>b. b\<lparr>gb_active := False\<rparr>) bs else bs)
      in if \<not> changed then bs
         else
           (let check = \<not> gb_active (bs ! k);
                bs = (if radio \<and> check then map (\<lambda>b. if gb_type b = Radio then b\<lparr>gb_checked := False\<rparr> else b) bs else bs)
            in bs[k := (bs ! k)\<lparr>gb_checked := check, gb_active := \<not> gb_active (bs ! k)\<rparr>]))"

text \<open>
  The states of a button: after \<open>loading\<close> it shows the loading text and is disabled, and \<open>reset\<close> brings
  its text back and enables it, also when \<open>reset\<close> comes before the deferred part of \<open>loading\<close> has run.
\<close>

theorem button_loading_reset:
  assumes "bt_data bt ''resetText'' = None" "bt_data bt ''loadingText'' = None" "bt_options bt = button_DEFAULTS"
    "bt_timers bt = []" "\<not> bt_disabled bt"
  shows "let l = run_button_timers (setState ''loading'' bt); r = run_button_timers (setState ''reset'' l);
      q = run_button_timers (setState ''reset'' (setState ''loading'' bt))
    in bt_text l = ''loading...'' \<and> bt_disabled l \<and> bt_text r = bt_text bt \<and> \<not> bt_disabled r \<and> \<not> bt_isLoading r \<and>
       bt_text q = bt_text bt \<and> \<not> bt_disabled q"
  using assms by (simp add: setState_def run_button_timers_def run_button_timer_def button_DEFAULTS_def Let_def)

theorem button_loading_reset_witness:
  "bt_text (run_button_timers (setState ''reset'' (run_button_timers (setState ''loading''
     \<lparr>bt_text = ''Send'', bt_data = Map.empty, bt_options = button_DEFAULTS, bt_isLoading = False, bt_disabled = False,
      bt_timers = []\<rparr>)))) = ''Send''"
  using button_loading_reset [of "\<lparr>bt_text = ''Send'', bt_data = Map.empty, bt_options = button_DEFAULTS,
    bt_isLoading = False, bt_disabled = False, bt_timers = []\<rparr>"] by (simp add: Let_def)

text \<open>Toggling a button of a radio group, in which at most one is active, makes it the only active one and checks its input.\<close>

theorem radio_group_one_active:
  assumes "\<forall>b \<in> set bs. gb_type b = Radio" "k < length bs"
    "\<forall>i < length bs. \<forall>j < length bs. gb_active (bs ! i) \<and> gb_active (bs ! j) \<longrightarrow> i = j"
  shows "filter (\<lambda>j. gb_active (toggle_button k bs ! j)) [0..<length bs] = [k] \<and> gb_checked (toggle_button k bs ! k)"
  using assms by (auto simp: toggle_button_def filter_upt_single nth_list_update Let_def)

theorem radio_group_one_active_witness:
  "gb_checked (toggle_button 1 [\<lparr>gb_type = Radio, gb_checked = True, gb_active = True\<rparr>,
     \<lparr>gb_type = Radio, gb_checked = False, gb_active = False\<rparr>] ! 1)"
  using radio_group_one_active [of "[\<lparr>gb_type = Radio, gb_checked = True, gb_active = True\<rparr>,
     \<lparr>gb_type = Radio, gb_checked = False, gb_active = False\<rparr>]" 1]
  by (simp add: less_Suc_eq All_less_Suc)

section \<open>Alerts\<close>

record alert =
  al_classes :: classes
  al_attached :: bool
  al_pending :: nat
  al_log :: "string list"

definition removeElement :: "alert \<Rightarrow> alert" where
  "removeElement al = al\<lparr>al_attached := False, al_pending := 0, al_log := al_log al @ [''closed.bs.alert'']\<rparr>"

text \<open>\<open>close\<close> of the alert an element belongs to.\<close>

definition close_alert :: "page \<Rightarrow> alert \<Rightarrow> alert" where
  "close_alert pg al =
     (let al = al\<lparr>al_log := al_log al @ [''close.bs.alert'']\<rparr>
      in if pg_prevent pg 0 ''close.bs.alert'' then al
         else
           (let al = al\<lparr>al_classes := removeClass ''in'' (al_classes al)\<rparr>
            in if pg_transition pg \<and> hasClass ''fade'' (al_classes al)
               then al\<lparr>al_pending := al_pending al + 1\<rparr> else removeElement al))"

definition alert_transition_end :: "alert \<Rightarrow> alert" where
  "alert_transition_end al = (removeElement ^^ al_pending al) al"

end
