(* ===== verification/Angular_Cache.thy ===== *)
theory Angular_Cache
  imports Js_Prelude
begin

text \<open>
  \<open>$cacheFactory\<close> of \<open>angular-1.2.21.js\<close>: caches with a least recently used policy. The entries of a
  cache with a capacity form a doubly linked list from the stale end to the fresh end, which is modelled
  with its links: an entry is named by its key, \<open>None\<close> is \<open>null\<close> or \<open>undefined\<close>. Keys are not names of
  properties that every object inherits.
\<close>

section \<open>Definitions\<close>

record entry =
  en_p :: "string option"
  en_n :: "string option"

text \<open>The variables of a cache; \<open>ch_capacity\<close> is \<open>None\<close> for \<open>Number.MAX_VALUE\<close>.\<close>

record 'v cache =
  ch_size :: int
  ch_data :: "string \<rightharpoonup> 'v"
  ch_capacity :: "nat option"
  ch_lruHash :: "string \<rightharpoonup> entry"
  ch_freshEnd :: "string option"
  ch_staleEnd :: "string option"

text \<open>\<open>cacheFactory(cacheId, options)\<close>: a capacity of 0 counts as none.\<close>

definition new_cache :: "nat option \<Rightarrow> 'v cache" where
  "new_cache capacity =
     \<lparr>ch_size = 0, ch_data = Map.empty, ch_capacity = (if capacity = Some 0 then None else capacity),
      ch_lruHash = Map.empty, ch_freshEnd = None, ch_staleEnd = None\<rparr>"

definition upd_entry :: "string option \<Rightarrow> (entry \<Rightarrow> entry) \<Rightarrow> (string \<rightharpoonup> entry) \<Rightarrow> (string \<rightharpoonup> entry)" where
  "upd_entry x f h = (case x of None \<Rightarrow> h | Some k \<Rightarrow> h(k := map_option f (h k)))"

definition link :: "string option \<Rightarrow> string option \<Rightarrow> (string \<rightharpoonup> entry) \<Rightarrow> (string \<rightharpoonup> entry)" where
  "link nextEntry prevEntry h =
     (if nextEntry \<noteq> prevEntry
      then upd_entry prevEntry (\<lambda>e. e\<lparr>en_n := nextEntry\<rparr>) (upd_entry nextEntry (\<lambda>e. e\<lparr>en_p := prevEntry\<rparr>) h)
      else h)"

definition entry_n :: "(string \<rightharpoonup> entry) \<Rightarrow> string \<Rightarrow> string option" where
  "entry_n h k = (case h k of None \<Rightarrow> None | Some e \<Rightarrow> en_n e)"

definition entry_p :: "(string \<rightharpoonup> entry) \<Rightarrow> string \<Rightarrow> string option" where
  "entry_p h k = (case h k of None \<Rightarrow> None | Some e \<Rightarrow> en_p e)"

definition cache_refresh :: "string \<Rightarrow> 'v cache \<Rightarrow> 'v cache" where
  "cache_refresh k ch =
     (if Some k \<noteq> ch_freshEnd ch
      then
        (let n = entry_n (ch_lruHash ch) k;
             stale = (if ch_staleEnd ch = None then Some k else if ch_staleEnd ch = Some k then n else ch_staleEnd ch);
             h = link n (entry_p (ch_lruHash ch) k) (ch_lruHash ch);
             h = link (Some k) (ch_freshEnd ch) h
         in ch\<lparr>ch_staleEnd := stale, ch_freshEnd := Some k, ch_lruHash := upd_entry (Some k) (\<lambda>e. e\<lparr>en_n := None\<rparr>) h\<rparr>)
      else ch)"

definition cache_remove :: "string \<Rightarrow> 'v cache \<Rightarrow> 'v cache" where
  "cache_remove k ch =
     (if ch_capacity ch \<noteq> None \<and> ch_lruHash ch k = None then ch
      else
        (let ch = (if ch_capacity ch \<noteq> None
                   then
                     (let h = ch_lruHash ch; n = entry_n h k; p = entry_p h k
                      in ch\<lparr>ch_freshEnd := (if ch_freshEnd ch = Some k then p else ch_freshEnd ch),
                            ch_staleEnd := (if ch_staleEnd ch = Some k then n else ch_staleEnd ch),
                            ch_lruHash := (link n p h)(k := None)\<rparr>)
                   else ch)
         in ch\<lparr>ch_data := (ch_data ch)(k := None), ch_size := ch_size ch - 1\<rparr>))"

text \<open>\<open>put(key, value)\<close>, where \<open>None\<close> is \<open>undefined\<close>. There is a stale end when the size is over the capacity.\<close>

definition cache_put :: "string \<Rightarrow> 'v option \<Rightarrow> 'v cache \<Rightarrow> 'v cache" where
  "cache_put k value ch =
     (let ch = (if ch_capacity ch \<noteq> None
                then cache_refresh k (if ch_lruHash ch k = None
                       then ch\<lparr>ch_lruHash := (ch_lruHash ch)(k \<mapsto> \<lparr>en_p = None, en_n = None\<rparr>)\<rparr> else ch)
                else ch)
      in case value of
           None \<Rightarrow> ch
         | Some v \<Rightarrow>
             (let ch = (if ch_data ch k = None then ch\<lparr>ch_size := ch_size ch + 1\<rparr> else ch);
                  ch = ch\<lparr>ch_data := (ch_data ch)(k \<mapsto> v)\<rparr>
              in if (case ch_capacity ch of None \<Rightarrow> False | Some c \<Rightarrow> ch_size ch > int c)
                 then (case ch_staleEnd ch of None \<Rightarrow> ch | Some s \<Rightarrow> cache_remove s ch) else ch))"

definition cache_get :: "string \<Rightarrow> 'v cache \<Rightarrow> 'v cache \<times> 'v option" where
  "cache_get k ch =
     (if ch_capacity ch \<noteq> None
      then (if ch_lruHash ch k = None then (ch, None)
            else (let ch = cache_refresh k ch in (ch, ch_data ch k)))
      else (ch, ch_data ch k))"

definition cache_removeAll :: "'v cache \<Rightarrow> 'v cache" where
  "cache_removeAll ch =
     ch\<lparr>ch_data := Map.empty, ch_size := 0, ch_lruHash := Map.empty, ch_freshEnd := None, ch_staleEnd := None\<rparr>"

section \<open>Doubly linked lists\<close>

definition hd_or :: "'a option \<Rightarrow> 'a list \<Rightarrow> 'a option" where
  "hd_or n xs = (case xs of [] \<Rightarrow> n | x # _ \<Rightarrow> Some x)"

definition last_or :: "'a option \<Rightarrow> 'a list \<Rightarrow> 'a option" where
  "last_or p xs = (if xs = [] then p else Some (last xs))"

lemma end_simps [simp]:
  "hd_or n [] = n" "hd_or n (x # xs) = Some x" "last_or p [] = p" "last_or p (xs @ [x]) = Some x"
  "last_or p (x # xs) = last_or (Some x) xs" "hd_or n (xs @ ys) = hd_or (hd_or n ys) xs"
  "last_or p (xs @ ys) = last_or (last_or p xs) ys"
  by (auto simp: hd_or_def last_or_def split: list.split)

text \<open>The entries \<open>xs\<close> are linked to each other, the first back to \<open>p\<close> and the last on to \<open>n\<close>.\<close>

fun dll :: "(string \<rightharpoonup> entry) \<Rightarrow> string option \<Rightarrow> string list \<Rightarrow> string option \<Rightarrow> bool" where
  "dll h p [] n \<longleftrightarrow> True"
| "dll h p (x # xs) n \<longleftrightarrow> h x = Some \<lparr>en_p = p, en_n = hd_or n xs\<rparr> \<and> dll h (Some x) xs n"

lemma dll_append [simp]: "dll h p (xs @ ys) n \<longleftrightarrow> dll h p xs (hd_or n ys) \<and> dll h (last_or p xs) ys n"
  by (induction xs arbitrary: p) auto

lemma dll_cong: "\<forall>x \<in> set xs. h x = h' x \<Longrightarrow> dll h p xs n = dll h' p xs n"
  by (induction xs arbitrary: p) auto

lemma dll_upd_other [simp]: "x \<notin> set xs \<Longrightarrow> dll (h(x := e)) p xs n = dll h p xs n"
  by (rule dll_cong) auto

lemma upd_entry_other: "\<forall>y \<in> set xs. x \<noteq> Some y \<Longrightarrow> dll (upd_entry x f h) p xs n = dll h p xs n"
  by (cases x) (auto simp: upd_entry_def)

lemma dll_set_next:
  assumes "dll h p xs n" "distinct xs" "xs \<noteq> []"
  shows "dll (upd_entry (last_or q xs) (\<lambda>e. e\<lparr>en_n := m\<rparr>) h) p xs m"
proof -
  obtain ys y where xs: "xs = ys @ [y]" using assms(3) by (metis append_butlast_last_id)
  with assms(1,2) show ?thesis by (simp add: upd_entry_def)
qed

lemma dll_set_prev:
  assumes "dll h p xs n" "distinct xs" "xs \<noteq> []"
  shows "dll (upd_entry (hd_or q xs) (\<lambda>e. e\<lparr>en_p := p'\<rparr>) h) p' xs n"
  using assms by (cases xs) (auto simp: upd_entry_def)

text \<open>Taking an entry out of a list.\<close>

lemma link_unlinks:
  assumes "dll h None (xs @ k # ys) None" "distinct (xs @ k # ys)"
  shows "dll (link (hd_or None ys) (last_or None xs) h) None (xs @ ys) None"
proof (cases "hd_or None ys = last_or None xs")
  case True
  then have "xs = [] \<and> ys = []" using assms(2) by (cases ys; cases xs rule: rev_cases) auto
  then show ?thesis by simp
next
  case False
  let ?h = "upd_entry (hd_or None ys) (\<lambda>e. e\<lparr>en_p := last_or None xs\<rparr>) h"
  have x: "dll ?h None xs (Some k)"
    using assms by (cases ys) (auto simp: upd_entry_def)
  have y: "dll ?h (last_or None xs) ys None"
    using assms dll_set_prev [of h "Some k" ys None None "last_or None xs"] by (cases "ys = []") auto
  let ?g = "upd_entry (last_or None xs) (\<lambda>e. e\<lparr>en_n := hd_or None ys\<rparr>) ?h"
  have "dll ?g None xs (hd_or None ys)"
    using x assms(2) dll_set_next [of ?h None xs "Some k" None] by (cases "xs = []") auto
  moreover have "dll ?g (last_or None xs) ys None"
    using y assms(2) by (cases xs rule: rev_cases) (auto simp: upd_entry_other upd_entry_def)
  ultimately show ?thesis using False by (simp add: link_def)
qed

lemma dom_upd_entry [simp]: "dom (upd_entry x f h) = dom h"
  by (auto simp: upd_entry_def split: option.split if_splits)

lemma dom_link [simp]: "dom (link n p h) = dom h"
  by (simp add: link_def)

lemma link_other: "n \<noteq> Some k \<Longrightarrow> p \<noteq> Some k \<Longrightarrow> link n p h k = h k"
  by (auto simp: link_def upd_entry_def split: option.split)

text \<open>Adding an entry at the fresh end.\<close>

lemma link_appends:
  assumes "dll h None zs None" "distinct zs" "k \<notin> set zs" "h k = Some e"
  shows "dll (upd_entry (Some k) (\<lambda>e. e\<lparr>en_n := None\<rparr>) (link (Some k) (last_or None zs) h)) None (zs @ [k]) None"
proof (cases zs rule: rev_cases)
  case Nil
  with assms show ?thesis by (cases e) (simp add: link_def upd_entry_def)
next
  case (snoc ys y)
  let ?h = "upd_entry (Some k) (\<lambda>e. e\<lparr>en_p := Some y\<rparr>) h"
  have "dll ?h None zs None" using assms(1,3) by (subst upd_entry_other) auto
  from dll_set_next [OF this assms(2), of None "Some k"] snoc
  have "dll (upd_entry (Some y) (\<lambda>e. e\<lparr>en_n := Some k\<rparr>) ?h) None zs (Some k)" by simp
  then have "dll (upd_entry (Some k) (\<lambda>e. e\<lparr>en_n := None\<rparr>) (upd_entry (Some y) (\<lambda>e. e\<lparr>en_n := Some k\<rparr>) ?h)) None zs (Some k)"
    using assms(3) by (subst upd_entry_other) auto
  with snoc assms(3,4) show ?thesis by (cases e) (auto simp: link_def upd_entry_def)
qed

section \<open>Specification\<close>

text \<open>A cache with capacity \<open>c\<close> is a list of keys and values, the least recently used first.\<close>

definition without :: "string \<Rightarrow> (string \<times> 'v) list \<Rightarrow> (string \<times> 'v) list" where
  "without k kvs = filter (\<lambda>x. fst x \<noteq> k) kvs"

definition lru_put :: "nat \<Rightarrow> string \<Rightarrow> 'v \<Rightarrow> (string \<times> 'v) list \<Rightarrow> (string \<times> 'v) list" where
  "lru_put c k v kvs = (let kvs = without k kvs @ [(k, v)] in if length kvs > c then tl kvs else kvs)"

definition lru_get :: "string \<Rightarrow> (string \<times> 'v) list \<Rightarrow> (string \<times> 'v) list" where
  "lru_get k kvs = (case map_of kvs k of None \<Rightarrow> kvs | Some v \<Rightarrow> without k kvs @ [(k, v)])"

definition cache_rel :: "nat \<Rightarrow> 'v cache \<Rightarrow> (string \<times> 'v) list \<Rightarrow> bool" where
  "cache_rel c ch kvs \<longleftrightarrow> ch_capacity ch = Some c \<and> ch_size ch = int (length kvs) \<and>
     ch_data ch = map_of kvs \<and> distinct (map fst kvs) \<and> dom (ch_lruHash ch) = set (map fst kvs) \<and>
     dll (ch_lruHash ch) None (map fst kvs) None \<and>
     ch_staleEnd ch = hd_or None (map fst kvs) \<and> ch_freshEnd ch = last_or None (map fst kvs)"

text \<open>The links alone; \<open>ks\<close> are the keys from the stale to the fresh end.\<close>

definition links :: "'v cache \<Rightarrow> string list \<Rightarrow> bool" where
  "links ch ks \<longleftrightarrow> distinct ks \<and> dom (ch_lruHash ch) = set ks \<and> dll (ch_lruHash ch) None ks None \<and>
     ch_staleEnd ch = hd_or None ks \<and> ch_freshEnd ch = last_or None ks"

lemma cache_rel_links: "cache_rel c ch kvs \<longleftrightarrow> ch_capacity ch = Some c \<and>
    ch_size ch = int (length kvs) \<and> ch_data ch = map_of kvs \<and> links ch (map fst kvs)"
  by (auto simp: cache_rel_def links_def)

lemma links_at:
  assumes "links ch (xs @ k # ys)"
  shows "entry_n (ch_lruHash ch) k = hd_or None ys" "entry_p (ch_lruHash ch) k = last_or None xs"
  using assms by (simp_all add: links_def entry_n_def entry_p_def)

lemma refresh_sel [simp]:
  "ch_data (cache_refresh k ch) = ch_data ch" "ch_size (cache_refresh k ch) = ch_size ch"
  "ch_capacity (cache_refresh k ch) = ch_capacity ch"
  by (simp_all add: cache_refresh_def Let_def)

text \<open>Refreshing a linked entry moves it to the fresh end.\<close>

lemma refresh_linked:
  assumes "links ch (xs @ k # ys)"
  shows "links (cache_refresh k ch) (xs @ ys @ [k])"
proof (cases "ys = []")
  case True
  with assms have "ch_freshEnd ch = Some k" by (simp add: links_def)
  with True assms show ?thesis by (simp add: cache_refresh_def)
next
  case False
  let ?h = "link (hd_or None ys) (last_or None xs) (ch_lruHash ch)"
  have a: "distinct (xs @ k # ys)" "dll (ch_lruHash ch) None (xs @ k # ys) None"
    using assms by (simp_all add: links_def)
  have fresh: "ch_freshEnd ch = last_or None (xs @ ys)" "ch_freshEnd ch \<noteq> Some k"
    using assms False a(1) by (auto simp: links_def last_or_def split: if_splits)
  have "hd_or None ys \<noteq> Some k" "last_or None xs \<noteq> Some k"
    using a(1) False by (auto simp: hd_or_def last_or_def split: list.split)
  then have "?h k = ch_lruHash ch k" by (rule link_other)
  then obtain e where e: "?h k = Some e" using a(2) by auto
  from link_appends [OF link_unlinks [OF a(2,1)] _ _ e] a(1) fresh(1)
  have "dll (upd_entry (Some k) (\<lambda>e. e\<lparr>en_n := None\<rparr>) (link (Some k) (ch_freshEnd ch) ?h)) None (xs @ ys @ [k]) None"
    by simp
  moreover have "ch_staleEnd ch = hd_or None (xs @ [k])" using assms by (simp add: links_def)
  ultimately show ?thesis using assms fresh(2) False a(1) links_at [OF assms]
    by (cases xs; cases ys) (auto simp: links_def cache_refresh_def Let_def)
qed

text \<open>A new entry becomes the fresh end.\<close>

lemma refresh_new:
  assumes "links ch ks" "k \<notin> set ks"
  shows "links (cache_refresh k (ch\<lparr>ch_lruHash := (ch_lruHash ch)(k \<mapsto> \<lparr>en_p = None, en_n = None\<rparr>)\<rparr>)) (ks @ [k])"
proof -
  let ?h = "(ch_lruHash ch)(k \<mapsto> \<lparr>en_p = None, en_n = None\<rparr>)"
  have "dll ?h None ks None" using assms by (simp add: links_def)
  from link_appends [OF this _ assms(2)] assms(1)
  have "dll (upd_entry (Some k) (\<lambda>e. e\<lparr>en_n := None\<rparr>) (link (Some k) (ch_freshEnd ch) ?h)) None (ks @ [k]) None"
    by (simp add: links_def)
  moreover have "ch_freshEnd ch \<noteq> Some k" using assms by (auto simp: links_def last_or_def split: if_splits)
  moreover have "link None None ?h = ?h" by (simp add: link_def)
  ultimately show ?thesis using assms
    by (cases ks) (auto simp: links_def cache_refresh_def entry_n_def entry_p_def Let_def)
qed

lemma remove_linked:
  assumes "links ch (xs @ k # ys)" "ch_capacity ch = Some c"
  shows "links (cache_remove k ch) (xs @ ys)"
proof -
  let ?h = "link (hd_or None ys) (last_or None xs) (ch_lruHash ch)"
  have a: "distinct (xs @ k # ys)" "dll (ch_lruHash ch) None (xs @ k # ys) None"
    using assms by (simp_all add: links_def)
  have chain: "dll (?h(k := None)) None (xs @ ys) None" using link_unlinks [OF a(2,1)] a(1) by simp
  have keys: "dom (?h(k := None)) = set (xs @ ys)" using assms(1) a(1) by (auto simp: links_def)
  have "ch_lruHash ch k \<noteq> None" using a(2) by simp
  then have sel: "ch_lruHash (cache_remove k ch) = ?h(k := None)"
    "ch_staleEnd (cache_remove k ch) = (if ch_staleEnd ch = Some k then hd_or None ys else ch_staleEnd ch)"
    "ch_freshEnd (cache_remove k ch) = (if ch_freshEnd ch = Some k then last_or None xs else ch_freshEnd ch)"
    using assms(2) links_at [OF assms(1)] by (simp_all add: cache_remove_def Let_def del: not_None_eq)
  have ends: "ch_staleEnd ch = hd_or None (xs @ k # ys)" "ch_freshEnd ch = last_or None (xs @ k # ys)"
    using assms(1) by (simp_all only: links_def)
  have st: "(if hd_or None (xs @ k # ys) = Some k then hd_or None ys else hd_or None (xs @ k # ys)) = hd_or None (xs @ ys)"
    using a(1) by (cases xs) auto
  have fr: "(if last_or None (xs @ k # ys) = Some k then last_or None xs else last_or None (xs @ k # ys)) =
      last_or None (xs @ ys)"
    using a(1) by (cases ys rule: rev_cases) auto
  have "distinct (xs @ ys)" using a(1) by simp
  with chain keys show ?thesis unfolding links_def sel ends st fr by blast
qed

section \<open>Refinement\<close>

lemma without_id: "k \<notin> set (map fst kvs) \<Longrightarrow> without k kvs = kvs"
  by (auto simp: without_def filter_id_conv)

lemma without_split: "distinct (map fst (xs @ (k, v) # ys)) \<Longrightarrow> without k (xs @ (k, v) # ys) = xs @ ys"
  using without_id [of k xs] without_id [of k ys] by (simp add: without_def)

lemma map_of_split: "map_of kvs k = Some v \<Longrightarrow> \<exists>xs ys. kvs = xs @ (k, v) # ys"
  using map_of_SomeD split_list by fast

lemma map_of_without: "map_of (without k kvs) = (map_of kvs)(k := None)"
  by (induction kvs) (auto simp: without_def fun_eq_iff)

lemma map_of_moved: "map_of (without k kvs @ [(k, v)]) = (map_of kvs)(k \<mapsto> v)"
  by (auto simp: map_of_without fun_eq_iff map_add_def split: option.split)

lemma length_without: "distinct (map fst kvs) \<Longrightarrow> map_of kvs k = Some v \<Longrightarrow> Suc (length (without k kvs)) = length kvs"
  using map_of_split [of kvs k v] by (auto simp: without_split)

text \<open>Getting and putting bring the entry of a key to the fresh end.\<close>

lemma links_touch:
  assumes "links ch (map fst kvs)"
  shows "links (cache_refresh k (if ch_lruHash ch k = None
      then ch\<lparr>ch_lruHash := (ch_lruHash ch)(k \<mapsto> \<lparr>en_p = None, en_n = None\<rparr>)\<rparr> else ch)) (map fst (without k kvs @ [(k, v)]))"
proof (cases "k \<in> set (map fst kvs)")
  case True
  then obtain w where "(k, w) \<in> set kvs" by auto
  then obtain xs ys where kvs: "kvs = xs @ (k, w) # ys" by (meson split_list)
  have "ch_lruHash ch k \<noteq> None" using True assms by (metis domIff links_def)
  with refresh_linked [of ch "map fst xs" k "map fst ys"] assms kvs show ?thesis
    by (simp add: links_def [of ch] without_split del: not_None_eq)
next
  case False
  moreover then have "ch_lruHash ch k = None" using assms by (metis domIff links_def)
  ultimately show ?thesis using refresh_new [OF assms] by (simp add: without_id)
qed

lemma remove_data: "ch_lruHash ch k \<noteq> None \<Longrightarrow> ch_data (cache_remove k ch) = (ch_data ch)(k := None) \<and>
    ch_size (cache_remove k ch) = ch_size ch - 1 \<and> ch_capacity (cache_remove k ch) = ch_capacity ch"
  by (simp add: cache_remove_def Let_def)

lemma rel_remove:
  assumes "cache_rel c ch kvs"
  shows "cache_rel c (cache_remove k ch) (without k kvs)"
proof (cases "k \<in> set (map fst kvs)")
  case True
  then obtain v where v: "map_of kvs k = Some v" by (metis map_of_eq_None_iff not_None_eq list.set_map)
  then obtain xs ys where kvs: "kvs = xs @ (k, v) # ys" using map_of_split by fast
  have d: "distinct (map fst kvs)" and l: "links ch (map fst kvs)" and c: "ch_capacity ch = Some c"
    using assms by (simp_all add: cache_rel_links links_def)
  have h: "ch_lruHash ch k \<noteq> None" using True l by (metis domIff links_def)
  have "links (cache_remove k ch) (map fst (without k kvs))"
    using remove_linked [of ch "map fst xs" k "map fst ys"] l c d kvs by (simp add: without_split)
  then show ?thesis using assms remove_data [OF h] length_without [OF d v] by (simp add: cache_rel_links map_of_without)
next
  case False
  then have "ch_lruHash ch k = None" using assms by (metis domIff cache_rel_def)
  with False assms show ?thesis by (simp add: cache_rel_def cache_remove_def without_id)
qed

lemma rel_get:
  assumes "cache_rel c ch kvs"
  shows "cache_rel c (fst (cache_get k ch)) (lru_get k kvs) \<and> snd (cache_get k ch) = map_of kvs k"
proof (cases "map_of kvs k")
  case None
  then have "ch_lruHash ch k = None" using assms by (metis domIff cache_rel_def map_of_eq_None_iff list.set_map)
  with None assms show ?thesis by (simp add: cache_get_def lru_get_def cache_rel_def)
next
  case (Some v)
  then have "k \<in> set (map fst kvs)" by (metis map_of_eq_None_iff option.distinct(1) list.set_map)
  then have h: "ch_lruHash ch k \<noteq> None" using assms by (metis domIff cache_rel_def)
  have l: "links ch (map fst kvs)" and d: "distinct (map fst kvs)" using assms by (simp_all add: cache_rel_links links_def)
  have "links (cache_refresh k ch) (map fst (without k kvs @ [(k, v)]))"
    using links_touch [OF l, of k v] h by (simp del: not_None_eq)
  moreover have "(map_of kvs)(k \<mapsto> v) = map_of kvs" using Some by (simp add: fun_upd_idem)
  ultimately show ?thesis using assms h Some length_without [OF d Some]
    by (simp add: cache_get_def lru_get_def cache_rel_links map_of_moved Let_def del: not_None_eq map_of_append)
qed

lemma rel_put:
  assumes "cache_rel c ch kvs"
  shows "cache_rel c (cache_put k (Some v) ch) (lru_put c k v kvs)"
proof -
  let ?kvs = "without k kvs @ [(k, v)]"
  define ch1 where "ch1 = cache_refresh k (if ch_lruHash ch k = None
    then ch\<lparr>ch_lruHash := (ch_lruHash ch)(k \<mapsto> \<lparr>en_p = None, en_n = None\<rparr>)\<rparr> else ch)"
  define ch' where "ch' = (if ch_data ch1 k = None then ch1\<lparr>ch_size := ch_size ch1 + 1\<rparr> else ch1)"
  define ch2 where "ch2 = ch'\<lparr>ch_data := (ch_data ch')(k \<mapsto> v)\<rparr>"
  have d: "distinct (map fst kvs)" and l: "links ch (map fst kvs)" and c: "ch_capacity ch = Some c"
    using assms by (simp_all add: cache_rel_links links_def)
  have sel: "ch_data ch1 = ch_data ch" "ch_size ch1 = ch_size ch" "ch_capacity ch1 = Some c" using c by (simp_all add: ch1_def)
  have len: "length ?kvs = (if map_of kvs k = None then Suc (length kvs) else length kvs)"
    using length_without [OF d, of k] without_id [of k kvs] by (cases "map_of kvs k") (auto simp: map_of_eq_None_iff)
  have "links ch2 (map fst ?kvs)" using links_touch [OF l, of k v] by (simp add: ch2_def ch'_def ch1_def links_def)
  then have rel: "cache_rel c ch2 ?kvs"
    using assms len sel unfolding cache_rel_links by (simp add: ch2_def ch'_def map_of_moved del: map_of_append)
  have put: "cache_put k (Some v) ch =
      (if ch_size ch2 > int c then (case ch_staleEnd ch2 of None \<Rightarrow> ch2 | Some s \<Rightarrow> cache_remove s ch2) else ch2)"
  proof -
    have "(if ch_capacity ch \<noteq> None then cache_refresh k (if ch_lruHash ch k = None
        then ch\<lparr>ch_lruHash := (ch_lruHash ch)(k \<mapsto> \<lparr>en_p = None, en_n = None\<rparr>)\<rparr> else ch) else ch) = ch1"
      by (simp add: c ch1_def)
    then have "cache_put k (Some v) ch = (if (case ch_capacity ch2 of None \<Rightarrow> False | Some c \<Rightarrow> ch_size ch2 > int c)
        then (case ch_staleEnd ch2 of None \<Rightarrow> ch2 | Some s \<Rightarrow> cache_remove s ch2) else ch2)"
      unfolding cache_put_def Let_def option.case by (simp only: ch'_def [symmetric] ch2_def [symmetric])
    with rel show ?thesis by (simp add: cache_rel_def)
  qed
  show ?thesis
  proof (cases "length ?kvs > c")
    case True
    obtain s w rest where kvs: "?kvs = (s, w) # rest" by (cases ?kvs) auto
    moreover have "cache_rel c (cache_remove s ch2) (without s ?kvs)" by (rule rel_remove [OF rel])
    moreover have "distinct (map fst ?kvs)" using rel by (simp add: cache_rel_def)
    then have "without s ?kvs = rest" using without_split [of "[]" s w rest] kvs by simp
    moreover have "ch_staleEnd ch2 = Some s" "ch_size ch2 > int c" using rel kvs True by (simp_all add: cache_rel_def)
    ultimately show ?thesis using True by (simp add: put lru_put_def Let_def)
  next
    case False
    moreover have "\<not> ch_size ch2 > int c" using rel False by (simp add: cache_rel_def)
    ultimately show ?thesis using rel by (simp add: put lru_put_def Let_def)
  qed
qed

datatype 'v cache_op = Put string 'v | Get string | Remove string | RemoveAll

primrec cache_run :: "'v cache_op \<Rightarrow> 'v cache \<Rightarrow> 'v cache" where
  "cache_run (Put k v) ch = cache_put k (Some v) ch"
| "cache_run (Get k) ch = fst (cache_get k ch)"
| "cache_run (Remove k) ch = cache_remove k ch"
| "cache_run RemoveAll ch = cache_removeAll ch"

primrec lru_run :: "nat \<Rightarrow> 'v cache_op \<Rightarrow> (string \<times> 'v) list \<Rightarrow> (string \<times> 'v) list" where
  "lru_run c (Put k v) kvs = lru_put c k v kvs"
| "lru_run c (Get k) kvs = lru_get k kvs"
| "lru_run c (Remove k) kvs = without k kvs"
| "lru_run c RemoveAll kvs = []"

text \<open>
  The contract of a cache of capacity \<open>c\<close>: every operation keeps the relation to the specification, a
  lookup returns what the specification has, and so does the size. A client reasons about lists only.
\<close>

locale lru_cache =
  fixes c :: nat
    and rel :: "'s \<Rightarrow> (string \<times> 'v) list \<Rightarrow> bool"
    and run :: "'v cache_op \<Rightarrow> 's \<Rightarrow> 's"
    and look :: "string \<Rightarrow> 's \<Rightarrow> 'v option"
    and count :: "'s \<Rightarrow> int"
  assumes step: "rel s kvs \<Longrightarrow> rel (run op s) (lru_run c op kvs)"
    and look: "rel s kvs \<Longrightarrow> look k s = map_of kvs k"
    and count: "rel s kvs \<Longrightarrow> count s = int (length kvs)"
    and capacity: "0 < c"
begin

lemma steps: "rel s kvs \<Longrightarrow> rel (fold run ops s) (fold (lru_run c) ops kvs)"
  by (induction ops arbitrary: s kvs) (simp_all add: step)

lemma looked_up: "rel s kvs \<Longrightarrow> look k (fold run ops s) = map_of (fold (lru_run c) ops kvs) k"
  using steps look by blast

lemma bounded_run: "length kvs \<le> c \<Longrightarrow> length (lru_run c op kvs) \<le> c"
proof (cases op)
  case (Put k v)
  have "length (without k kvs) \<le> length kvs" by (simp add: without_def)
  then show "length kvs \<le> c \<Longrightarrow> ?thesis" using Put by (simp add: lru_put_def Let_def)
next
  case (Get k)
  have "length (without k kvs) < length kvs" if "map_of kvs k = Some v" for v
    using map_of_SomeD [OF that] by (auto simp: without_def intro!: length_filter_less)
  then show "length kvs \<le> c \<Longrightarrow> ?thesis" using Get by (auto simp: lru_get_def split: option.split)
qed (auto simp: without_def intro: order_trans [OF length_filter_le])

lemma bounded: "length kvs \<le> c \<Longrightarrow> length (fold (lru_run c) ops kvs) \<le> c"
  by (induction ops arbitrary: kvs) (simp_all add: bounded_run)

lemma count_bounded: "rel s kvs \<Longrightarrow> length kvs \<le> c \<Longrightarrow> count (fold run ops s) \<le> int c"
  using count [OF steps] bounded by simp

end

lemma rel_run: "cache_rel c ch kvs \<Longrightarrow> cache_rel c (cache_run op ch) (lru_run c op kvs)"
  by (cases op) (simp_all add: rel_put rel_get rel_remove, simp add: cache_rel_def cache_removeAll_def)

interpretation cache: lru_cache "Suc c" "cache_rel (Suc c)" cache_run "\<lambda>k ch. snd (cache_get k ch)" ch_size for c
  by unfold_locales (simp_all add: rel_run rel_get, simp add: cache_rel_def)

lemma rel_new: "cache_rel (Suc c) (new_cache (Some (Suc c))) []"
  by (simp add: cache_rel_def new_cache_def)

text \<open>
  C38. A cache of capacity \<open>c > 0\<close> is a least recently used cache: after any sequence of puts (of values
  that are defined), gets and removals, a lookup returns what a list of at most \<open>c\<close> keys and values has, in
  which putting and getting move a key to the end and putting drops the first one when there are too many;
  and the size that is counted is the number of its entries.
\<close>

theorem cache_refines_lru:
  assumes "0 < c"
  shows "let ch = fold cache_run ops (new_cache (Some c)); kvs = fold (lru_run c) ops []
    in snd (cache_get k ch) = map_of kvs k \<and> ch_data ch = map_of kvs \<and> ch_size ch = int (length kvs) \<and> length kvs \<le> c"
proof -
  obtain d where c: "c = Suc d" using assms by (cases c) auto
  show ?thesis
    using cache.looked_up [OF rel_new [of d], of k ops] cache.steps [OF rel_new [of d], of ops] cache.bounded [where c = d and kvs = "[]" and ops = ops]
    by (simp add: c cache_rel_def Let_def)
qed

theorem cache_refines_lru_witness:
  "snd (cache_get ''a'' (fold cache_run [Put ''a'' 1, Put ''b'' 2, Get ''a'', Put ''c'' (3 :: int)] (new_cache (Some 2)))) = Some 1"
  using cache_refines_lru [of 2 "[Put ''a'' 1, Put ''b'' 2, Get ''a'', Put ''c'' (3 :: int)]" "''a''"]
  by (simp add: Let_def lru_put_def lru_get_def without_def)

text \<open>
  Putting \<open>undefined\<close> makes an entry without a value. When it becomes the stalest it is removed in place
  of a value, and the size is lowered all the same: the cache then holds more values than its capacity.
\<close>

theorem put_undefined_exceeds:
  "let ch = fold (\<lambda>(k, v). cache_put k v) [(''a'', None), (''b'', Some 1), (''c'', Some 2), (''d'', Some (3 :: int))] (new_cache (Some 2))
   in ch_size ch = 2 \<and> map (ch_data ch) [''b'', ''c'', ''d''] = [Some 1, Some 2, Some 3]"
  by code_simp

text \<open>In a cache without a capacity, removing a key that it does not have makes its size negative.\<close>

theorem remove_missing_negative: "ch_size (cache_remove k (new_cache None)) = - 1"
  by (simp add: cache_remove_def new_cache_def)

end
