(* ===== verification/Angular_Scope.thy ===== *)
theory Angular_Scope
  imports Js_Prelude "HOL-Library.Tree"
begin

text \<open>
  The tree of scopes of \<open>angular-1.2.21.js\<close>: \<open>Scope\<close>, \<open>$new\<close>, the part of \<open>$destroy\<close> that takes a scope
  out of the tree, and the walk over the tree that \<open>$digest\<close> and \<open>$broadcast\<close> share.

  Scopes, watchers and arrays are objects with an address, a number that grows with every allocation, so
  a scope has a greater number than its parent and its prototype. \<open>null\<close> and \<open>undefined\<close> are \<open>None\<close>. The
  properties that the application puts on scopes belong to its own state, of type \<open>'w\<close>.
\<close>

section \<open>Definitions\<close>

text \<open>
  A scope. \<open>sc_proto\<close> is the scope a child inherits from, \<open>None\<close> for an isolate scope. \<open>sc_watchers\<close> is the
  address of the array of watchers, \<open>sc_listeners\<close> has the addresses of the arrays of listeners. \<open>sc_noop\<close>
  says that \<open>$destroy\<close> has replaced the methods and queues of the scope.
\<close>

record scope =
  sc_parent :: "nat option"
  sc_childHead :: "nat option"
  sc_childTail :: "nat option"
  sc_nextSibling :: "nat option"
  sc_prevSibling :: "nat option"
  sc_proto :: "nat option"
  sc_watchers :: "nat option"
  sc_listeners :: "string \<rightharpoonup> nat"
  sc_listenerCount :: "(string \<times> num) list"
  sc_destroyed :: bool
  sc_noop :: bool

text \<open>
  A watcher: \<open>wa_last\<close> is \<open>None\<close> for \<open>initWatchVal\<close>, functions are names, \<open>wa_constant\<close> is the array the
  watcher of a constant expression removes itself from.
\<close>

record 'v watcher =
  wa_fn :: nat
  wa_last :: "'v option"
  wa_get :: nat
  wa_eq :: bool
  wa_constant :: "nat option"

datatype phase = Digesting | Applying

text \<open>
  The variables of the service and the objects it has made; \<open>rs_handled\<close> counts the exceptions given to
  \<open>$exceptionHandler\<close> and \<open>rs_deferred\<close> the digests that wait in \<open>$browser.defer\<close>. The scope 0 is
  \<open>$rootScope\<close>.
\<close>

record ('w, 'v) root =
  rs_world :: 'w
  rs_scopes :: "nat \<Rightarrow> scope"
  rs_nextScope :: nat
  rs_arrays :: "nat \<Rightarrow> nat list"
  rs_nextArray :: nat
  rs_lists :: "nat \<Rightarrow> nat option list"
  rs_nextList :: nat
  rs_watch :: "nat \<Rightarrow> 'v watcher"
  rs_nextWatch :: nat
  rs_phase :: "phase option"
  rs_lastDirtyWatch :: "nat option"
  rs_asyncQueue :: "(nat \<times> nat) list"
  rs_postDigestQueue :: "nat list"
  rs_handled :: nat
  rs_deferred :: nat

definition new_Scope :: scope where
  "new_Scope =
     \<lparr>sc_parent = None, sc_childHead = None, sc_childTail = None, sc_nextSibling = None, sc_prevSibling = None,
      sc_proto = None, sc_watchers = None, sc_listeners = Map.empty, sc_listenerCount = [], sc_destroyed = False,
      sc_noop = False\<rparr>"

text \<open>The state after \<open>$rootScope = new Scope()\<close>, with the state of the application.\<close>

definition new_root :: "'w \<Rightarrow> ('w, 'v) root" where
  "new_root w =
     \<lparr>rs_world = w, rs_scopes = (\<lambda>_. new_Scope), rs_nextScope = 1, rs_arrays = (\<lambda>_. []), rs_nextArray = 0,
      rs_lists = (\<lambda>_. []), rs_nextList = 0, rs_watch = (\<lambda>_. \<lparr>wa_fn = 0, wa_last = None, wa_get = 0, wa_eq = False, wa_constant = None\<rparr>),
      rs_nextWatch = 0, rs_phase = None, rs_lastDirtyWatch = None, rs_asyncQueue = [], rs_postDigestQueue = [],
      rs_handled = 0, rs_deferred = 0\<rparr>"

definition upd_scope :: "nat \<Rightarrow> (scope \<Rightarrow> scope) \<Rightarrow> (nat \<Rightarrow> scope) \<Rightarrow> (nat \<Rightarrow> scope)" where
  "upd_scope s f h = h(s := f (h s))"

text \<open>Assignment to a property of the object a reference points to, if it points to one.\<close>

definition upd_ref :: "nat option \<Rightarrow> (scope \<Rightarrow> scope) \<Rightarrow> (nat \<Rightarrow> scope) \<Rightarrow> (nat \<Rightarrow> scope)" where
  "upd_ref x f h = (case x of None \<Rightarrow> h | Some s \<Rightarrow> upd_scope s f h)"

text \<open>A property looked up along the prototypes: it holds when a scope of the chain has it.\<close>

function inherits :: "(scope \<Rightarrow> bool) \<Rightarrow> (nat \<Rightarrow> scope) \<Rightarrow> nat \<Rightarrow> bool" where
  "inherits P h s = (P (h s) \<or> (case sc_proto (h s) of None \<Rightarrow> False | Some p \<Rightarrow> if p < s then inherits P h p else False))"
  by pat_completeness auto
termination by (relation "measure (\<lambda>(P, h, s). s)") auto

declare inherits.simps [simp del]

text \<open>\<open>this.$$destroyed\<close>, and whether the methods of the scope do nothing any more.\<close>

definition is_destroyed :: "(nat \<Rightarrow> scope) \<Rightarrow> nat \<Rightarrow> bool" where
  "is_destroyed = inherits sc_destroyed"

definition is_noop :: "(nat \<Rightarrow> scope) \<Rightarrow> nat \<Rightarrow> bool" where
  "is_noop = inherits sc_noop"

text \<open>\<open>$new(isolate)\<close>: the state and the address of the child.\<close>

definition add_child :: "bool \<Rightarrow> nat \<Rightarrow> nat \<Rightarrow> (nat \<Rightarrow> scope) \<Rightarrow> (nat \<Rightarrow> scope)" where
  "add_child isolate this child h =
     (let h = h(child := new_Scope\<lparr>sc_proto := (if isolate then None else Some this), sc_parent := Some this,
                   sc_prevSibling := sc_childTail (h this)\<rparr>)
      in if sc_childHead (h this) \<noteq> None
         then upd_scope this (\<lambda>s. s\<lparr>sc_childTail := Some child\<rparr>)
                (upd_ref (sc_childTail (h this)) (\<lambda>s. s\<lparr>sc_nextSibling := Some child\<rparr>) h)
         else upd_scope this (\<lambda>s. s\<lparr>sc_childHead := Some child, sc_childTail := Some child\<rparr>) h)"

definition new_scope :: "bool \<Rightarrow> nat \<Rightarrow> ('w, 'v) root \<Rightarrow> ('w, 'v) root \<times> nat" where
  "new_scope isolate this st =
     (let child = rs_nextScope st
      in (st\<lparr>rs_scopes := add_child isolate this child (rs_scopes st), rs_nextScope := Suc child\<rparr>, child))"

text \<open>The links that \<open>$destroy\<close> changes, and the end of \<open>$destroy\<close> for a scope that is not the root.\<close>

definition unlink :: "nat \<Rightarrow> (nat \<Rightarrow> scope) \<Rightarrow> (nat \<Rightarrow> scope)" where
  "unlink this h =
     (let parent = sc_parent (h this); nx = sc_nextSibling (h this); pv = sc_prevSibling (h this);
          h = upd_ref parent (\<lambda>s. s\<lparr>sc_childHead := (if sc_childHead s = Some this then nx else sc_childHead s)\<rparr>) h;
          h = upd_ref parent (\<lambda>s. s\<lparr>sc_childTail := (if sc_childTail s = Some this then pv else sc_childTail s)\<rparr>) h;
          h = upd_ref pv (\<lambda>s. s\<lparr>sc_nextSibling := nx\<rparr>) h;
          h = upd_ref nx (\<lambda>s. s\<lparr>sc_prevSibling := pv\<rparr>) h
      in upd_scope this (\<lambda>s. s\<lparr>sc_parent := None, sc_nextSibling := None, sc_prevSibling := None,
                                sc_childHead := None, sc_childTail := None\<rparr>) h)"

definition detach :: "nat \<Rightarrow> ('w, 'v) root \<Rightarrow> ('w, 'v) root" where
  "detach this st =
     st\<lparr>rs_scopes := upd_scope this (\<lambda>s. s\<lparr>sc_listeners := Map.empty, sc_watchers := Some (rs_nextArray st), sc_noop := True\<rparr>)
                      (unlink this (rs_scopes st)),
        rs_arrays := (rs_arrays st)(rs_nextArray st := []), rs_nextArray := Suc (rs_nextArray st)\<rparr>"

text \<open>
  The next scope of the depth-first walk over the scopes below \<open>target\<close>, with \<open>head\<close> as the first child to
  go to. The inner loop climbs to a scope with a next sibling; without a parent it reads a property of \<open>null\<close>.
\<close>

function climb :: "(nat \<Rightarrow> scope) \<Rightarrow> nat \<Rightarrow> nat \<Rightarrow> nat option result" where
  "climb h target current =
     (if current = target then Inr None
      else case sc_nextSibling (h current) of
        Some n \<Rightarrow> Inr (Some n)
      | None \<Rightarrow> (case sc_parent (h current) of None \<Rightarrow> Inl TypeError
                 | Some p \<Rightarrow> if p < current then climb h target p else Inl TypeError))"
  by pat_completeness auto
termination by (relation "measure (\<lambda>(h, target, current). current)") auto

declare climb.simps [simp del]

definition next_scope :: "(nat \<Rightarrow> scope) \<Rightarrow> nat \<Rightarrow> nat option \<Rightarrow> nat \<Rightarrow> nat option result" where
  "next_scope h target head current =
     (case head of
        Some n \<Rightarrow> Inr (Some n)
      | None \<Rightarrow>
          if current \<noteq> target \<and> sc_nextSibling (h current) \<noteq> None then Inr (sc_nextSibling (h current))
          else climb h target current)"

text \<open>The scope and its ancestors, along \<open>$parent\<close>.\<close>

function ancestors :: "(nat \<Rightarrow> scope) \<Rightarrow> nat \<Rightarrow> nat list" where
  "ancestors h s = s # (case sc_parent (h s) of None \<Rightarrow> [] | Some p \<Rightarrow> if p < s then ancestors h p else [])"
  by pat_completeness auto
termination by (relation "measure (\<lambda>(h, s). s)") auto

declare ancestors.simps [simp del]

section \<open>The tree\<close>

text \<open>
  The scopes form a tree, here a binary one: the left subtree of a scope are its children, the right one
  its following sibling_list, so \<^const>\<open>preorder\<close> is the depth-first order of the scopes.
\<close>

definition first_of :: "nat tree \<Rightarrow> nat option" where
  "first_of t = (case t of Leaf \<Rightarrow> None | Node _ x _ \<Rightarrow> Some x)"

fun last_of :: "nat option \<Rightarrow> nat tree \<Rightarrow> nat option" where
  "last_of d Leaf = d"
| "last_of d (Node _ x r) = last_of (Some x) r"

fun linked :: "(nat \<Rightarrow> scope) \<Rightarrow> nat option \<Rightarrow> nat option \<Rightarrow> nat tree \<Rightarrow> bool" where
  "linked h par prev Leaf \<longleftrightarrow> True"
| "linked h par prev (Node k x r) \<longleftrightarrow>
     sc_parent (h x) = par \<and> (\<forall>p. par = Some p \<longrightarrow> p < x) \<and> sc_prevSibling (h x) = prev \<and>
     sc_nextSibling (h x) = first_of r \<and> sc_childHead (h x) = first_of k \<and> sc_childTail (h x) = last_of None k \<and>
     linked h (Some x) None k \<and> linked h par (Some x) r"

text \<open>The children of a scope of the tree.\<close>

fun kids_of :: "nat \<Rightarrow> nat tree \<Rightarrow> nat tree" where
  "kids_of s Leaf = Leaf"
| "kids_of s (Node k x r) = (if x = s then k else if s \<in> set_tree k then kids_of s k else kids_of s r)"

text \<open>The tree with other children of a scope; a new last sibling, and without one of the sibling_list and all below it.\<close>

fun set_kids :: "nat \<Rightarrow> nat tree \<Rightarrow> nat tree \<Rightarrow> nat tree" where
  "set_kids s K Leaf = Leaf"
| "set_kids s K (Node k x r) =
     (if x = s then Node K x r else if s \<in> set_tree k then Node (set_kids s K k) x r else Node k x (set_kids s K r))"

fun add_last :: "nat \<Rightarrow> nat tree \<Rightarrow> nat tree" where
  "add_last c Leaf = Node Leaf c Leaf"
| "add_last c (Node k x r) = Node k x (add_last c r)"

fun sibling_list :: "nat tree \<Rightarrow> nat list" where
  "sibling_list Leaf = []"
| "sibling_list (Node k x r) = x # sibling_list r"

fun cut_out :: "nat \<Rightarrow> nat tree \<Rightarrow> nat tree" where
  "cut_out d Leaf = Leaf"
| "cut_out d (Node k x r) = (if x = d then r else Node k x (cut_out d r))"

section \<open>The walk\<close>

lemma first_of_simps [simp]: "first_of Leaf = None" "first_of (Node k x r) = Some x" "first_of t = None \<longleftrightarrow> t = Leaf"
  by (auto simp: first_of_def split: tree.splits)

lemma first_of_preorder: "first_of t = (case preorder t of [] \<Rightarrow> None | x # _ \<Rightarrow> Some x)"
  by (cases t) simp_all

lemma first_of_in: "first_of t = Some x \<Longrightarrow> x \<in> set_tree t"
  by (cases t) simp_all

lemma last_of_in: "last_of d t = Some x \<Longrightarrow> d = Some x \<or> x \<in> set_tree t"
  by (induction t arbitrary: d) auto

lemma linked_cong: "\<forall>x \<in> set_tree t. h x = h' x \<Longrightarrow> linked h par prev t = linked h' par prev t"
  by (induction t arbitrary: par prev) auto

lemma linked_upd_other [simp]: "x \<notin> set_tree t \<Longrightarrow> linked (h(x := s)) par prev t = linked h par prev t"
  by (rule linked_cong) auto

text \<open>The step of the walk as \<open>$digest\<close> takes it.\<close>

definition walk :: "(nat \<Rightarrow> scope) \<Rightarrow> nat \<Rightarrow> nat \<Rightarrow> nat option result" where
  "walk h target current = next_scope h target (sc_childHead (h current)) current"

lemma walk_simps:
  "sc_childHead (h c) = Some n \<Longrightarrow> walk h target c = Inr (Some n)"
  "sc_childHead (h c) = None \<Longrightarrow> c \<noteq> target \<Longrightarrow> sc_nextSibling (h c) = Some n \<Longrightarrow> walk h target c = Inr (Some n)"
  "sc_childHead (h c) = None \<Longrightarrow> c = target \<or> sc_nextSibling (h c) = None \<Longrightarrow> walk h target c = climb h target c"
  by (auto simp: walk_def next_scope_def split: option.split)

lemma climb_sibling: "x \<noteq> target \<Longrightarrow> sc_nextSibling (h x) = Some n \<Longrightarrow> climb h target x = Inr (Some n)"
  by (simp add: climb.simps)

lemma climb_parent:
  "x \<noteq> target \<Longrightarrow> sc_nextSibling (h x) = None \<Longrightarrow> sc_parent (h x) = Some p \<Longrightarrow> p < x \<Longrightarrow> climb h target x = climb h target p"
  by (simp add: climb.simps)

text \<open>From a scope among the descendants of \<open>p\<close> the walk goes on to the next one, and from the last climbs above \<open>p\<close>.\<close>

lemma walk_below:
  assumes "linked h (Some p) prev t" "target \<notin> set_tree t" "preorder t = xs @ c # ys"
  shows "walk h target c = (case ys of [] \<Rightarrow> climb h target p | y # _ \<Rightarrow> Inr (Some y))"
  using assms
proof (induction t arbitrary: p prev xs c ys)
  case (Node k x r)
  have up: "climb h target x = (case preorder r of [] \<Rightarrow> climb h target p | y # _ \<Rightarrow> Inr (Some y))"
    using Node.prems(1,2) by (auto simp: first_of_preorder climb_sibling climb_parent split: list.split)
  consider (here) "c = x" "ys = preorder k @ preorder r"
    | (kids) xs' ys' where "preorder k = xs' @ c # ys'" "ys = ys' @ preorder r"
    | (sibs) xs' where "preorder r = xs' @ c # ys"
    using Node.prems(3) by (cases xs) (auto simp: append_eq_append_conv2 append_eq_Cons_conv Cons_eq_append_conv)
  then show ?case
  proof cases
    case here
    then show ?thesis using Node.prems(1,2) up
      by (cases k; cases r) (auto simp: walk_simps)
  next
    case kids
    then have "walk h target c = (case ys' of [] \<Rightarrow> climb h target x | y # _ \<Rightarrow> Inr (Some y))"
      using Node.IH(1) [of x None xs' c ys'] Node.prems(1,2) by simp
    then show ?thesis using kids(2) up by (cases ys') simp_all
  next
    case sibs
    then show ?thesis using Node.IH(2) [of p "Some x" xs' c ys] Node.prems(1,2) by simp
  qed
qed simp

lemma linked_kids:
  assumes "linked h par prev t" "s \<in> set_tree t" "distinct (preorder t)"
  shows "linked h (Some s) None (kids_of s t) \<and> sc_childHead (h s) = first_of (kids_of s t) \<and>
    sc_childTail (h s) = last_of None (kids_of s t)"
  using assms by (induction t arbitrary: par prev) auto

text \<open>Other children of a scope change the order only between the scope and what follows its children.\<close>

lemma preorder_set_kids:
  assumes "s \<in> set_tree t" "distinct (preorder t)"
  obtains us vs where "preorder t = us @ s # preorder (kids_of s t) @ vs"
    and "\<And>K. preorder (set_kids s K t) = us @ s # preorder K @ vs"
proof -
  have "\<exists>us vs. preorder t = us @ s # preorder (kids_of s t) @ vs \<and> (\<forall>K. preorder (set_kids s K t) = us @ s # preorder K @ vs)"
    using assms
  proof (induction t)
    case (Node k x r)
    consider (here) "s = x" | (kids) "s \<noteq> x" "s \<in> set_tree k" | (sibs) "s \<noteq> x" "s \<notin> set_tree k" "s \<in> set_tree r"
      using Node.prems(1) by auto
    then show ?case
    proof cases
      case here
      show ?thesis by (rule exI [of _ "[]"], rule exI [of _ "preorder r"]) (simp add: here)
    next
      case kids
      then obtain us vs where "preorder k = us @ s # preorder (kids_of s k) @ vs"
        "\<forall>K. preorder (set_kids s K k) = us @ s # preorder K @ vs" using Node by auto
      with kids show ?thesis by (intro exI [of _ "x # us"] exI [of _ "vs @ preorder r"]) simp
    next
      case sibs
      then obtain us vs where "preorder r = us @ s # preorder (kids_of s r) @ vs"
        "\<forall>K. preorder (set_kids s K r) = us @ s # preorder K @ vs" using Node by auto
      with sibs show ?thesis by (intro exI [of _ "x # preorder k @ us"] exI [of _ vs]) simp
    qed
  qed simp
  then show thesis using that by blast
qed

lemma kids_subset: "set_tree (kids_of s t) \<subseteq> set_tree t"
  by (induction t) auto

lemma kids_distinct:
  assumes "s \<in> set_tree t" "distinct (preorder t)"
  shows "distinct (s # preorder (kids_of s t))"
  using preorder_set_kids [OF assms] assms(2) by (metis distinct_append append_Cons)

text \<open>The scopes that a walk from \<open>s\<close> visits.\<close>

definition scopes_from :: "nat \<Rightarrow> nat tree \<Rightarrow> nat list" where
  "scopes_from s t = s # preorder (kids_of s t)"

lemma walk_scopes_from:
  assumes "linked h par prev t" "target \<in> set_tree t" "distinct (preorder t)" "scopes_from target t = xs @ c # ys"
  shows "walk h target c = Inr (case ys of [] \<Rightarrow> None | y # _ \<Rightarrow> Some y)"
proof -
  note k = linked_kids [OF assms(1-3)]
  have d: "target \<notin> set_tree (kids_of target t)" using kids_distinct [OF assms(2,3)] by simp
  have top: "climb h target target = Inr None" by (simp add: climb.simps)
  show ?thesis
  proof (cases xs)
    case Nil
    with assms(4) have "c = target" "ys = preorder (kids_of target t)" by (auto simp: scopes_from_def)
    with k top show ?thesis by (cases "kids_of target t") (simp_all add: walk_simps)
  next
    case (Cons x xs')
    with assms(4) have "preorder (kids_of target t) = xs' @ c # ys" by (auto simp: scopes_from_def)
    from walk_below [OF conjunct1 [OF k] d this] top show ?thesis by (simp split: list.split)
  qed
qed

section \<open>Changes of the tree\<close>

lemma set_kids_ends [simp]: "first_of (set_kids s K t) = first_of t" "last_of d (set_kids s K t) = last_of d t"
  by (induction t arbitrary: d) auto

lemma linked_set_kids:
  assumes "linked h par prev t" "distinct (preorder t)" "s \<in> set_tree t"
    and "linked h' (Some s) None K" "sc_childHead (h' s) = first_of K" "sc_childTail (h' s) = last_of None K"
    and "sc_parent (h' s) = sc_parent (h s)" "sc_prevSibling (h' s) = sc_prevSibling (h s)"
    "sc_nextSibling (h' s) = sc_nextSibling (h s)"
    and "\<forall>y \<in> set_tree t. y \<noteq> s \<longrightarrow> y \<notin> set_tree (kids_of s t) \<longrightarrow> h' y = h y"
  shows "linked h' par prev (set_kids s K t)"
  using assms(1-3,10)
proof (induction t arbitrary: par prev)
  case (Node k x r)
  have dj: "set_tree k \<inter> set_tree r = {}" using Node.prems(2) by auto
  consider (here) "s = x" | (kids) "s \<noteq> x" "s \<in> set_tree k" | (sibs) "s \<noteq> x" "s \<notin> set_tree k" "s \<in> set_tree r"
    using Node.prems(3) by auto
  then show ?case
  proof cases
    case here
    then have "linked h' par (Some x) r"
      using Node.prems by (subst linked_cong [of r h' h]) auto
    with here assms(4-9) Node.prems(1) show ?thesis by simp
  next
    case kids
    have "linked h' (Some x) None (set_kids s K k)" using Node.IH(1) [of "Some x" None] Node.prems kids by simp
    moreover have "\<forall>y \<in> set_tree r. h' y = h y"
    proof
      fix y assume y: "y \<in> set_tree r"
      with dj have "y \<notin> set_tree k" by blast
      with kids kids_subset [of s k] have "y \<noteq> s" "y \<notin> set_tree (kids_of s k)" by blast+
      with y kids Node.prems(4) show "h' y = h y" by simp
    qed
    then have "linked h' par (Some x) r" using Node.prems(1) by (subst linked_cong [of r h' h]) simp_all
    moreover have "h' x = h x" using Node.prems kids kids_subset [of s k] by auto
    ultimately show ?thesis using kids Node.prems(1) by simp
  next
    case sibs
    have "linked h' par (Some x) (set_kids s K r)" using Node.IH(2) [of par "Some x"] Node.prems sibs by simp
    moreover have "\<forall>y \<in> set_tree k. h' y = h y"
    proof
      fix y assume y: "y \<in> set_tree k"
      with dj have "y \<notin> set_tree r" by blast
      with sibs kids_subset [of s r] have "y \<noteq> s" "y \<notin> set_tree (kids_of s r)" by blast+
      with y sibs Node.prems(4) show "h' y = h y" by simp
    qed
    then have "linked h' (Some x) None k" using Node.prems(1) by (subst linked_cong [of k h' h]) simp_all
    moreover have "h' x = h x" using Node.prems sibs kids_subset [of s r] by auto
    ultimately show ?thesis using sibs Node.prems(1) by simp
  qed
qed simp

lemma linked_add_last:
  assumes "linked h par prev t" "distinct (preorder t)" "c \<notin> set_tree t" "\<forall>p. par = Some p \<longrightarrow> p < c"
    and "\<forall>y. prev = Some y \<longrightarrow> y \<notin> set_tree t"
    and "h' c = new\<lparr>sc_parent := par, sc_prevSibling := last_of prev t, sc_nextSibling := None, sc_childHead := None, sc_childTail := None\<rparr>"
    and "\<forall>y \<in> set_tree t. h' y = (if last_of prev t = Some y then (h y)\<lparr>sc_nextSibling := Some c\<rparr> else h y)"
  shows "linked h' par prev (add_last c t)"
  using assms
proof (induction t arbitrary: prev)
  case (Node k x r)
  have k: "linked h' (Some x) None k"
    using Node.prems by (subst linked_cong [of k h' h]) (auto dest: last_of_in)
  have r: "linked h' par (Some x) (add_last c r)"
    using Node.prems by (intro Node.IH(2)) auto
  have x: "h' x = (if r = Leaf then (h x)\<lparr>sc_nextSibling := Some c\<rparr> else h x)"
    using Node.prems last_of_in [of "Some x" r x] by (cases r) (auto dest: last_of_in)
  show ?case using k r x Node.prems(1) by (cases r) auto
qed simp

lemma last_of_None: "last_of d t = None \<Longrightarrow> d = None \<and> t = Leaf"
proof (induction t arbitrary: d)
  case (Node k x r)
  show ?case using Node.IH(2) [of "Some x"] Node.prems by simp
qed simp

lemma last_of_add_last [simp]: "last_of d (add_last c t) = Some c"
  by (induction t arbitrary: d) auto

text \<open>\<open>$new\<close> adds the child after its sibling_list.\<close>

lemma linked_new:
  assumes "linked h par prev t" "distinct (preorder t)" "p \<in> set_tree t" "\<forall>x \<in> set_tree t. x < c"
  shows "linked (add_child isolate p c h) par prev (set_kids p (add_last c (kids_of p t)) t)"
proof -
  let ?h = "add_child isolate p c h" and ?k = "kids_of p t"
  have c: "c \<notin> set_tree t" "p < c" using assms(3,4) by auto
  then have cp: "c \<noteq> p" by simp
  note k = linked_kids [OF assms(1,3,2)]
  have d: "p \<notin> set_tree ?k" "distinct (preorder ?k)" using kids_distinct [OF assms(3,2)] by simp_all
  have ck: "c \<notin> set_tree ?k" using c kids_subset by blast
  define new where "new = (new_Scope\<lparr>sc_proto := (if isolate then None else Some p)\<rparr>)\<lparr>sc_parent := Some p,
      sc_prevSibling := last_of None ?k, sc_nextSibling := None, sc_childHead := None, sc_childTail := None\<rparr>"
  have h: "?h c = new \<and> ?h p = (h p)\<lparr>sc_childHead := first_of (add_last c ?k), sc_childTail := Some c\<rparr> \<and>
    (\<forall>y. y \<noteq> c \<longrightarrow> y \<noteq> p \<longrightarrow> ?h y = (if last_of None ?k = Some y then (h y)\<lparr>sc_nextSibling := Some c\<rparr> else h y))"
  proof (cases ?k)
    case Leaf
    then have "?h = h(c := new, p := (h p)\<lparr>sc_childHead := Some c, sc_childTail := Some c\<rparr>)"
      using k cp by (simp add: add_child_def upd_scope_def new_def new_Scope_def)
    with cp Leaf show ?thesis by simp
  next
    case (Node k1 x r)
    then obtain l where l: "last_of None ?k = Some l" "l \<in> set_tree ?k"
      using last_of_in [of "Some x" r] by (cases "last_of (Some x) r") (auto dest: last_of_None)
    then have "l \<noteq> p" "l \<noteq> c" using d(1) ck by auto
    moreover have "?h = h(c := new, l := (h l)\<lparr>sc_nextSibling := Some c\<rparr>, p := (h p)\<lparr>sc_childTail := Some c\<rparr>)"
      using k cp Node l \<open>l \<noteq> p\<close> \<open>l \<noteq> c\<close>
      by (simp add: add_child_def upd_scope_def upd_ref_def new_def new_Scope_def)
    moreover have "sc_childHead (h p) = Some x" using k Node by simp
    ultimately show ?thesis using cp l(1) Node by simp
  qed
  have kids: "\<forall>y \<in> set_tree ?k. ?h y = (if last_of None ?k = Some y then (h y)\<lparr>sc_nextSibling := Some c\<rparr> else h y)"
  proof
    fix y assume "y \<in> set_tree ?k"
    then have "y \<noteq> c" "y \<noteq> p" using d(1) ck by auto
    then show "?h y = (if last_of None ?k = Some y then (h y)\<lparr>sc_nextSibling := Some c\<rparr> else h y)" using h by blast
  qed
  have new: "linked ?h (Some p) None (add_last c ?k)"
    by (rule linked_add_last [OF conjunct1 [OF k] d(2) ck _ _ h [THEN conjunct1, unfolded new_def] kids]) (simp_all add: c)
  have rest: "\<forall>y \<in> set_tree t. y \<noteq> p \<longrightarrow> y \<notin> set_tree ?k \<longrightarrow> ?h y = h y"
    using h c(1) last_of_in [of None ?k] by (metis option.distinct(1))
  show ?thesis by (rule linked_set_kids [OF assms(1,2,3) new _ _ _ _ _ rest]) (simp_all add: h)
qed

lemma last_sibling: "t \<noteq> Leaf \<Longrightarrow> \<exists>y \<in> set (sibling_list t). last_of d t = Some y"
proof (induction t arbitrary: d)
  case (Node k x r)
  show ?case using Node.IH(2) [of "Some x"] by (cases "r = Leaf") auto
qed simp

text \<open>\<open>$destroy\<close> takes the scope out of the list of its sibling_list.\<close>

lemma siblings_subset: "set (sibling_list t) \<subseteq> set_tree t"
  by (induction t) auto

lemma siblings_distinct: "distinct (preorder t) \<Longrightarrow> distinct (sibling_list t)"
  using siblings_subset by (induction t) auto

lemma cut_out_ends:
  assumes "distinct (sibling_list t)" "d \<in> set (sibling_list t)" "linked h par prev t"
  shows "first_of (cut_out d t) = (if first_of t = Some d then sc_nextSibling (h d) else first_of t)"
    and "last_of prev (cut_out d t) = (if last_of prev t = Some d then sc_prevSibling (h d) else last_of prev t)"
  subgoal using assms by (cases t) auto
  subgoal using assms
  proof (induction t arbitrary: prev)
    case (Node k x r)
    show ?case
    proof (cases "x = d")
      case True
      have "last_of (Some d) r = (if r = Leaf then Some d else last_of prev r)" by (cases r) simp_all
      moreover have "last_of prev r \<noteq> Some d" if "r \<noteq> Leaf"
        using that Node.prems(1) True last_sibling [of r prev] by auto
      ultimately show ?thesis using True Node.prems(3) by simp
    next
      case False
      then show ?thesis using Node.IH(2) [of "Some x"] Node.prems by simp
    qed
  qed simp
  done

lemma prev_sibling:
  assumes "linked h par prev t" "d \<in> set (sibling_list t)"
  shows "if first_of t = Some d then sc_prevSibling (h d) = prev else (\<exists>y \<in> set (sibling_list t). sc_prevSibling (h d) = Some y)"
  using assms
proof (induction t arbitrary: prev)
  case (Node k x r)
  show ?case using Node.IH(2) [of "Some x"] Node.prems by (cases "d = x") (auto split: if_splits)
qed simp

lemma next_sibling:
  assumes "linked h par prev t" "d \<in> set (sibling_list t)" "sc_nextSibling (h d) = Some y"
  shows "y \<in> set (sibling_list t)"
  using assms
proof (induction t arbitrary: prev)
  case (Node k x r)
  show ?case
  proof (cases "d = x")
    case True
    then show ?thesis using Node.prems by (cases r) simp_all
  next
    case False
    then show ?thesis using Node.IH(2) [of "Some x"] Node.prems by simp
  qed
qed simp

lemma sibling_parent: "linked h par prev t \<Longrightarrow> d \<in> set (sibling_list t) \<Longrightarrow> sc_parent (h d) = par"
  by (induction t arbitrary: prev) auto

lemma prev_not_self:
  assumes "linked h par prev t" "distinct (sibling_list t)" "d \<in> set (sibling_list t)" "\<forall>y. prev = Some y \<longrightarrow> y \<notin> set (sibling_list t)"
  shows "sc_prevSibling (h d) \<noteq> Some d \<and> (\<forall>y. sc_prevSibling (h d) = Some y \<longrightarrow> sc_nextSibling (h d) \<noteq> Some y)"
  using assms
proof (induction t arbitrary: prev)
  case (Node k x r)
  show ?case
  proof (cases "d = x")
    case True
    then show ?thesis using Node.prems by (cases r) auto
  next
    case False
    then show ?thesis using Node.IH(2) [of "Some x"] Node.prems by simp
  qed
qed simp

lemma linked_cut_out:
  assumes "linked h par prev t" "distinct (preorder t)" "d \<in> set (sibling_list t)" "\<forall>y. prev = Some y \<longrightarrow> y \<notin> set_tree t"
    and "\<forall>y \<in> set_tree t. y \<noteq> d \<longrightarrow> h' y = (if sc_prevSibling (h d) = Some y then (h y)\<lparr>sc_nextSibling := sc_nextSibling (h d)\<rparr>
      else if sc_nextSibling (h d) = Some y then (h y)\<lparr>sc_prevSibling := sc_prevSibling (h d)\<rparr> else h y)"
  shows "linked h' par prev (cut_out d t)"
  using assms
proof (induction t arbitrary: prev)
  case (Node k x r)
  have dj: "set_tree k \<inter> set_tree r = {}" "x \<notin> set_tree k" "x \<notin> set_tree r" using Node.prems(2) by auto
  have sib: "set (sibling_list r) \<subseteq> set_tree r" by (rule siblings_subset)
  show ?case
  proof (cases "x = d")
    case True
    have same: "h' y = (if first_of r = Some y then (h y)\<lparr>sc_prevSibling := prev\<rparr> else h y)" if "y \<in> set_tree r" for y
    proof -
      have "y \<noteq> d" "prev \<noteq> Some y" using that True dj(3) Node.prems(4) by auto
      then show ?thesis using bspec [OF Node.prems(5), of y] that Node.prems(1) True by simp
    qed
    show ?thesis
    proof (cases r)
      case (Node k2 x2 r2)
      have "\<forall>y \<in> set_tree k2 \<union> set_tree r2. h' y = h y" using same Node Node.prems(2) by auto
      then have "linked h' (Some x2) None k2" "linked h' par (Some x2) r2"
        using Node.prems(1) Node by (simp_all add: linked_cong [of k2 h' h] linked_cong [of r2 h' h])
      with same [of x2] Node Node.prems(1) True show ?thesis by simp
    qed (simp add: True)
  next
    case False
    then have d: "d \<in> set (sibling_list r)" "d \<in> set_tree r" using Node.prems(3) sib by auto
    have pv: "if first_of r = Some d then sc_prevSibling (h d) = Some x else (\<exists>y \<in> set_tree r. sc_prevSibling (h d) = Some y)"
      using prev_sibling [of h par "Some x" r d] Node.prems(1) d sib by (auto split: if_splits)
    have nx: "sc_nextSibling (h d) = Some y \<Longrightarrow> y \<in> set_tree r" for y
      using next_sibling [of h par "Some x" r d y] Node.prems(1) d sib by auto
    have "linked h' par (Some x) (cut_out d r)" using Node.IH(2) [of "Some x"] Node.prems d dj by simp
    moreover have "\<forall>y \<in> set_tree k. h' y = h y"
    proof
      fix y assume y: "y \<in> set_tree k"
      then have "y \<notin> set_tree r" "y \<noteq> x" using dj by auto
      then have "y \<noteq> d" "sc_prevSibling (h d) \<noteq> Some y" "sc_nextSibling (h d) \<noteq> Some y"
        using d(2) pv nx by (auto split: if_splits)
      then show "h' y = h y" using bspec [OF Node.prems(5), of y] y by simp
    qed
    then have "linked h' (Some x) None k" using Node.prems(1) by (simp add: linked_cong [of k h' h])
    moreover have "distinct (sibling_list r)" using Node.prems(2) by (simp add: siblings_distinct)
    then have "h' x = (h x)\<lparr>sc_nextSibling := first_of (cut_out d r)\<rparr>"
      using Node.prems(1,5) False dj pv nx cut_out_ends(1) [of r d h par "Some x"] d(1)
      by (auto split: if_splits)
    ultimately show ?thesis using Node.prems(1) False by simp
  qed
qed simp

lemma linked_destroy:
  assumes "linked h par prev t" "distinct (preorder t)" "p \<in> set_tree t" "d \<in> set (sibling_list (kids_of p t))"
  shows "linked (unlink d h) par prev (set_kids p (cut_out d (kids_of p t)) t)"
proof -
  let ?h = "unlink d h" and ?k = "kids_of p t"
  note k = linked_kids [OF assms(1,3,2)]
  have ds: "p \<notin> set_tree ?k" "distinct (preorder ?k)" using kids_distinct [OF assms(3,2)] by simp_all
  have dk: "d \<in> set_tree ?k" using assms(4) siblings_subset by blast
  then have dp: "d \<noteq> p" using ds(1) by auto
  have par: "sc_parent (h d) = Some p" using conjunct1 [OF k] assms(4) by (rule sibling_parent)
  have pn: "sc_prevSibling (h d) \<noteq> Some d \<and> (\<forall>y. sc_prevSibling (h d) = Some y \<longrightarrow> sc_nextSibling (h d) \<noteq> Some y)"
    by (rule prev_not_self [OF conjunct1 [OF k] siblings_distinct [OF ds(2)] assms(4)]) simp
  have pv: "sc_prevSibling (h d) \<noteq> Some p" "sc_prevSibling (h d) \<noteq> Some d"
    using pn prev_sibling [OF conjunct1 [OF k] assms(4)] ds(1) siblings_subset [of ?k] by (auto split: if_splits)
  have nx: "sc_nextSibling (h d) \<noteq> Some p"
    using next_sibling [OF conjunct1 [OF k] assms(4)] ds(1) siblings_subset [of ?k] by auto
  have p: "?h p = (h p)\<lparr>sc_childHead := first_of (cut_out d ?k), sc_childTail := last_of None (cut_out d ?k)\<rparr>"
    using k dp par pv nx cut_out_ends [OF siblings_distinct [OF ds(2)] assms(4) conjunct1 [OF k]]
    by (auto simp: unlink_def Let_def upd_scope_def upd_ref_def split: option.split)
  have other: "?h y = (if sc_prevSibling (h d) = Some y then (h y)\<lparr>sc_nextSibling := sc_nextSibling (h d)\<rparr>
      else if sc_nextSibling (h d) = Some y then (h y)\<lparr>sc_prevSibling := sc_prevSibling (h d)\<rparr> else h y)"
    if "y \<noteq> p" "y \<noteq> d" for y
    using that par pn
    by (auto simp: unlink_def Let_def upd_scope_def upd_ref_def split: option.split)
  have "\<forall>y \<in> set_tree ?k. y \<noteq> d \<longrightarrow> ?h y = (if sc_prevSibling (h d) = Some y then (h y)\<lparr>sc_nextSibling := sc_nextSibling (h d)\<rparr>
      else if sc_nextSibling (h d) = Some y then (h y)\<lparr>sc_prevSibling := sc_prevSibling (h d)\<rparr> else h y)"
    by (intro ballI impI other) (use ds(1) in auto)
  then have cut: "linked ?h (Some p) None (cut_out d ?k)"
    by (intro linked_cut_out [OF conjunct1 [OF k] ds(2) assms(4)]) simp_all
  have rest: "\<forall>y \<in> set_tree t. y \<noteq> p \<longrightarrow> y \<notin> set_tree ?k \<longrightarrow> ?h y = h y"
  proof (intro ballI impI)
    fix y assume y: "y \<noteq> p" "y \<notin> set_tree ?k"
    then have "sc_prevSibling (h d) \<noteq> Some y" "sc_nextSibling (h d) \<noteq> Some y" "y \<noteq> d"
      using prev_sibling [OF conjunct1 [OF k] assms(4)] next_sibling [OF conjunct1 [OF k] assms(4)] dk
        siblings_subset [of ?k] by (auto split: if_splits)
    with other [of y] y show "?h y = h y" by simp
  qed
  show ?thesis by (rule linked_set_kids [OF assms(1-3) cut _ _ _ _ _ rest]) (simp_all add: p)
qed

section \<open>The invariant\<close>

text \<open>The scopes that are not destroyed form the tree \<open>t\<close> below \<open>$rootScope\<close>.\<close>

definition scope_tree :: "('w, 'v) root \<Rightarrow> nat tree \<Rightarrow> bool" where
  "scope_tree st t \<longleftrightarrow> linked (rs_scopes st) None None t \<and> sibling_list t = [0] \<and> distinct (preorder t) \<and>
     (\<forall>x \<in> set_tree t. x < rs_nextScope st)"

lemma scope_tree_new_root: "scope_tree (new_root w) (Node Leaf 0 Leaf)"
  by (simp add: scope_tree_def new_root_def new_Scope_def)

lemma linked_links_cong:
  assumes "\<forall>x \<in> set_tree t. sc_parent (h' x) = sc_parent (h x) \<and> sc_childHead (h' x) = sc_childHead (h x) \<and>
    sc_childTail (h' x) = sc_childTail (h x) \<and> sc_nextSibling (h' x) = sc_nextSibling (h x) \<and> sc_prevSibling (h' x) = sc_prevSibling (h x)"
  shows "linked h' par prev t = linked h par prev t"
  using assms by (induction t arbitrary: par prev) auto

lemma siblings_set_kids [simp]: "sibling_list (set_kids s K t) = sibling_list t"
  by (induction t) auto

lemma preorder_add_last [simp]: "preorder (add_last c t) = preorder t @ [c]"
  by (induction t) auto

lemma kids_set_kids: "s \<in> set_tree t \<Longrightarrow> kids_of s (set_kids s K t) = K"
proof (induction t)
  case (Node k x r)
  have "s \<in> set_tree (set_kids s K k)" if "s \<in> set_tree k" using that by (induction k) auto
  with Node show ?case by auto
qed simp

lemma new_scope_tree:
  assumes "scope_tree st t" "p \<in> set_tree t"
  defines "c \<equiv> rs_nextScope st"
  defines "t' \<equiv> set_kids p (add_last c (kids_of p t)) t"
  shows "scope_tree (fst (new_scope isolate p st)) t'"
    and "scopes_from p t' = scopes_from p t @ [c]" and "filter (\<lambda>x. x \<noteq> c) (preorder t') = preorder t"
proof -
  have a: "linked (rs_scopes st) None None t" "distinct (preorder t)" "\<forall>x \<in> set_tree t. x < c" "sibling_list t = [0]"
    using assms(1) by (simp_all add: scope_tree_def c_def)
  obtain us vs where pre: "preorder t = us @ p # preorder (kids_of p t) @ vs" "preorder t' = us @ p # preorder (kids_of p t) @ [c] @ vs"
    using preorder_set_kids [OF assms(2) a(2)] by (metis append.assoc preorder_add_last t'_def)
  have c: "c \<notin> set (us @ p # preorder (kids_of p t) @ vs)" using a(3) pre(1) by (metis less_irrefl set_preorder)
  have "\<forall>x \<in> set (preorder t'). x < Suc c" using a(3) pre by (auto simp flip: set_preorder intro: less_SucI)
  moreover have "distinct (preorder t')" using a(2) c unfolding pre by auto
  moreover have "linked (add_child isolate p c (rs_scopes st)) None None t'"
    unfolding t'_def by (rule linked_new [OF a(1,2) assms(2) a(3)])
  ultimately show "scope_tree (fst (new_scope isolate p st)) t'"
    using a(4) by (simp add: scope_tree_def new_scope_def c_def [symmetric] t'_def)
  show "scopes_from p t' = scopes_from p t @ [c]" by (simp add: scopes_from_def t'_def kids_set_kids [OF assms(2)])
  have "filter (\<lambda>x. x \<noteq> c) zs = zs" if "c \<notin> set zs" for zs using that by (induction zs) auto
  with c show "filter (\<lambda>x. x \<noteq> c) (preorder t') = preorder t" by (simp add: pre)
qed

lemma parent_exists:
  assumes "d \<in> set_tree t" "d \<notin> set (sibling_list t)" "distinct (preorder t)"
  shows "\<exists>p \<in> set_tree t. d \<in> set (sibling_list (kids_of p t))"
  using assms
proof (induction t)
  case (Node k x r)
  consider (child) "d \<in> set (sibling_list k)" | (kids) "d \<in> set_tree k" "d \<notin> set (sibling_list k)" | (sibs) "d \<in> set_tree r"
    using Node.prems(1,2) by auto
  then show ?case
  proof cases
    case child
    then show ?thesis by auto
  next
    case kids
    with Node obtain p where "p \<in> set_tree k" "d \<in> set (sibling_list (kids_of p k))" by auto
    with Node.prems(3) show ?thesis by (intro bexI [of _ p]) auto
  next
    case sibs
    with Node obtain p where "p \<in> set_tree r" "d \<in> set (sibling_list (kids_of p r))" by auto
    with Node.prems(3) show ?thesis by (intro bexI [of _ p]) auto
  qed
qed simp

lemma kids_of_kids:
  assumes "p \<in> set_tree t" "d \<in> set_tree (kids_of p t)" "distinct (preorder t)"
  shows "kids_of d t = kids_of d (kids_of p t)"
  using assms
proof (induction t)
  case (Node k x r)
  consider (here) "p = x" | (kids) "p \<noteq> x" "p \<in> set_tree k" | (sibs) "p \<noteq> x" "p \<notin> set_tree k" "p \<in> set_tree r"
    using Node.prems(1) by auto
  then show ?case
  proof cases
    case here
    with Node.prems show ?thesis by auto
  next
    case kids
    then have "d \<in> set_tree k" "d \<noteq> x" using Node.prems(2,3) kids_subset [of p k] by auto
    with kids Node show ?thesis by simp
  next
    case sibs
    then have "d \<in> set_tree r" "d \<noteq> x" "d \<notin> set_tree k" using Node.prems(2,3) kids_subset [of p r] by auto
    with sibs Node show ?thesis by simp
  qed
qed simp

lemma filter_outside: "set xs \<inter> A = {} \<Longrightarrow> filter (\<lambda>x. x \<notin> A) xs = xs"
  by (rule filter_True) auto

lemma filter_inside: "set xs \<subseteq> A \<Longrightarrow> filter (\<lambda>x. x \<notin> A) xs = []"
  by (rule filter_False) auto

lemma preorder_cut_out:
  assumes "d \<in> set (sibling_list t)" "distinct (preorder t)"
  shows "preorder (cut_out d t) = filter (\<lambda>x. x \<notin> insert d (set_tree (kids_of d t))) (preorder t)"
  using assms
proof (induction t)
  case (Node k x r)
  show ?case
  proof (cases "x = d")
    case True
    let ?D = "insert d (set_tree k)"
    have "filter (\<lambda>x. x \<notin> ?D) ((d # preorder k) @ preorder r) = preorder r"
      unfolding filter_append using True Node.prems(2) filter_inside [of "d # preorder k" ?D] filter_outside [of "preorder r" ?D] by auto
    with True show ?thesis by simp
  next
    case False
    then have d: "d \<in> set (sibling_list r)" "d \<in> set_tree r" using Node.prems(1) siblings_subset by auto
    then have "d \<notin> set_tree k" using Node.prems(2) by auto
    moreover have "set (x # preorder k) \<inter> insert d (set_tree (kids_of d r)) = {}"
      using Node.prems(2) d False kids_subset [of d r] by auto
    ultimately show ?thesis
      using False d Node filter_outside [of "x # preorder k" "insert d (set_tree (kids_of d r))"] by simp
  qed
qed simp

lemma detach_tree:
  assumes "scope_tree st t" "d \<in> set_tree t" "d \<noteq> 0"
  obtains t' where "scope_tree (detach d st) t'" "preorder t' = filter (\<lambda>x. x \<notin> set (scopes_from d t)) (preorder t)"
proof -
  have a: "linked (rs_scopes st) None None t" "distinct (preorder t)" "\<forall>x \<in> set_tree t. x < rs_nextScope st" "sibling_list t = [0]"
    using assms(1) by (simp_all add: scope_tree_def)
  obtain p where p: "p \<in> set_tree t" "d \<in> set (sibling_list (kids_of p t))"
    using parent_exists [of d t] assms(2,3) a(2,4) by auto
  let ?k = "kids_of p t"
  let ?t = "set_kids p (cut_out d ?k) t"
  obtain us vs where pre: "preorder t = us @ p # preorder ?k @ vs" "preorder ?t = us @ p # preorder (cut_out d ?k) @ vs"
    using preorder_set_kids [OF p(1) a(2)] by metis
  have dk: "d \<in> set_tree ?k" using p(2) siblings_subset by blast
  let ?D = "insert d (set_tree (kids_of d ?k))"
  have D: "set (scopes_from d t) = ?D" using kids_of_kids [OF p(1) dk a(2)] by (simp add: scopes_from_def)
  have "?D \<subseteq> set (preorder ?k)" using dk kids_subset [of d ?k] by auto
  then have out: "set (us @ [p]) \<inter> ?D = {}" "set vs \<inter> ?D = {}" using a(2) unfolding pre(1) by auto
  have cut: "preorder (cut_out d ?k) = filter (\<lambda>x. x \<notin> ?D) (preorder ?k)"
    by (rule preorder_cut_out [OF p(2)]) (use kids_distinct [OF p(1) a(2)] in simp)
  have split: "preorder t = (us @ [p]) @ preorder ?k @ vs \<and> preorder ?t = (us @ [p]) @ preorder (cut_out d ?k) @ vs"
    using pre by simp
  have order: "preorder ?t = filter (\<lambda>x. x \<notin> set (scopes_from d t)) (preorder t)"
    using filter_outside [OF out(1)] filter_outside [OF out(2)] unfolding D split [THEN conjunct1] split [THEN conjunct2]
    by (simp only: filter_append cut)
  have "linked (unlink d (rs_scopes st)) None None ?t" by (rule linked_destroy [OF a(1,2) p])
  then have "linked (rs_scopes (detach d st)) None None ?t"
    by (subst linked_links_cong [of ?t _ "unlink d (rs_scopes st)"]) (simp_all add: detach_def upd_scope_def)
  moreover have "distinct (preorder ?t)" "\<forall>x \<in> set (preorder ?t). x < rs_nextScope st"
    unfolding order using a(2,3) by auto
  ultimately have "scope_tree (detach d st) ?t" using a(4) by (simp add: scope_tree_def detach_def)
  then show thesis using order by (rule that)
qed

section \<open>Properties\<close>

text \<open>
  The walk that \<open>$digest\<close> takes over the links of the scopes goes through the target scope and its
  descendants in depth-first order: from every one of them to the next, and to the end from the last.
\<close>

theorem walk_visits:
  assumes "scope_tree st t" "target \<in> set_tree t" "scopes_from target t = xs @ c # ys"
  shows "walk (rs_scopes st) target c = Inr (case ys of [] \<Rightarrow> None | y # _ \<Rightarrow> Some y)"
  using walk_scopes_from [of "rs_scopes st" None None t target xs c ys] assms by (simp add: scope_tree_def)

text \<open>
  \<open>$new\<close> refines the addition of a last child: the links again form a tree, in which the new scope follows
  the other descendants of its parent and the order of all other scopes is as before.
\<close>

theorem new_scope_appends:
  assumes "scope_tree st t" "p \<in> set_tree t" "new_scope isolate p st = (st', c)"
  shows "\<exists>t'. scope_tree st' t' \<and> scopes_from p t' = scopes_from p t @ [c] \<and> filter (\<lambda>x. x \<noteq> c) (preorder t') = preorder t"
  using new_scope_tree(1) [OF assms(1,2), of isolate] new_scope_tree(2,3) [OF assms(1,2)] assms(3) by (auto simp: new_scope_def Let_def)

text \<open>
  C39. \<open>$destroy\<close> refines the removal of a subtree: the links again form a tree, with the scopes that are neither
  the destroyed one nor below it, in the same order.
\<close>

theorem detach_prunes:
  assumes "scope_tree st t" "d \<in> set_tree t" "d \<noteq> 0"
  shows "\<exists>t'. scope_tree (detach d st) t' \<and> preorder t' = filter (\<lambda>x. x \<notin> set (scopes_from d t)) (preorder t)"
  by (rule detach_tree [OF assms]) blast

text \<open>Two children of the root, the first of them with a child.\<close>

definition demo_scopes :: "(unit, int) root" where
  "demo_scopes = fst (new_scope False 1 (fst (new_scope True 0 (fst (new_scope False 0 (new_root ()))))))"

definition demo_tree :: "nat tree" where
  "demo_tree = Node (Node (Node Leaf 3 Leaf) 1 (Node Leaf 2 Leaf)) 0 Leaf"

lemma demo_scope_tree: "scope_tree demo_scopes demo_tree"
  by (simp add: scope_tree_def demo_scopes_def demo_tree_def new_scope_def add_child_def new_root_def new_Scope_def
      upd_scope_def upd_ref_def eval_nat_numeral)

theorem walk_visits_witness: "walk (rs_scopes demo_scopes) 0 3 = Inr (Some 2)"
  using walk_visits [OF demo_scope_tree, of 0 "[0, 1]" 3 "[2]"] by (simp add: demo_tree_def scopes_from_def)

theorem new_scope_appends_witness:
  "\<exists>t'. scope_tree (fst (new_scope False 1 demo_scopes)) t' \<and> scopes_from 1 t' = [1, 3, 4]"
  using new_scope_appends [OF demo_scope_tree, of 1 False]
  by (fastforce simp: demo_tree_def scopes_from_def demo_scopes_def new_scope_def new_root_def)

theorem detach_prunes_witness: "\<exists>t'. scope_tree (detach 1 demo_scopes) t' \<and> preorder t' = [0, 2]"
  using detach_prunes [OF demo_scope_tree, of 1] by (simp add: demo_tree_def scopes_from_def)

end
