(* ===== verification/Angular_Events.thy ===== *)
theory Angular_Events
  imports Angular_Scope "HOL-Library.AList"
begin

text \<open>
  Events on the scopes of \<open>angular-1.2.21.js\<close>: \<open>$on\<close>, \<open>$emit\<close>, \<open>$broadcast\<close> and \<open>$destroy\<close>, which broadcasts an
  event. The functions of the application are parameters, collected in a record: a function is called by
  its name and may change the whole state, calling the operations of scopes as it likes.
\<close>

section \<open>Definitions\<close>

record scope_event =
  ev_name :: string
  ev_targetScope :: nat
  ev_currentScope :: nat
  ev_stopPropagation :: bool
  ev_defaultPrevented :: bool

text \<open>
  The application: a watch function gives a value of the state of the application or throws; documented to be
  idempotent, it does not change the state. \<open>ap_same\<close> compares two values, with \<open>===\<close> or, if the flag is set,
  \<open>equals\<close>, where NaN is the same as itself; \<open>ap_copy\<close> is \<open>copy\<close>. The other functions return the new state and
  whether they have thrown.
\<close>

record ('w, 'v) app =
  ap_get :: "nat \<Rightarrow> nat \<Rightarrow> 'w \<Rightarrow> 'v option"
  ap_same :: "bool \<Rightarrow> 'v \<Rightarrow> 'v \<Rightarrow> bool"
  ap_copy :: "'v \<Rightarrow> 'v"
  ap_fn :: "nat \<Rightarrow> 'v \<Rightarrow> 'v \<Rightarrow> nat \<Rightarrow> ('w, 'v) root \<Rightarrow> ('w, 'v) root \<times> bool"
  ap_expr :: "nat \<Rightarrow> nat \<Rightarrow> ('w, 'v) root \<Rightarrow> ('w, 'v) root \<times> bool"
  ap_listener :: "nat \<Rightarrow> scope_event \<Rightarrow> ('w, 'v) root \<Rightarrow> ('w, 'v) root \<times> scope_event \<times> bool"
  ap_post :: "nat \<Rightarrow> ('w, 'v) root \<Rightarrow> ('w, 'v) root \<times> bool"

text \<open>\<open>$exceptionHandler\<close>, which returns.\<close>

definition exceptionHandler :: "bool \<Rightarrow> ('w, 'v) root \<Rightarrow> ('w, 'v) root" where
  "exceptionHandler thrown st = (if thrown then st\<lparr>rs_handled := Suc (rs_handled st)\<rparr> else st)"

text \<open>The number a scope has for an event; \<open>undefined\<close> is \<open>NaN\<close> in arithmetic.\<close>

definition count_of :: "string \<Rightarrow> scope \<Rightarrow> num" where
  "count_of name s = (case map_of (sc_listenerCount s) name of None \<Rightarrow> None | Some n \<Rightarrow> n)"

definition counts :: "string \<Rightarrow> scope \<Rightarrow> bool" where
  "counts name s \<longleftrightarrow> count_of name s \<noteq> None \<and> count_of name s \<noteq> Some 0"

definition increment_count :: "string \<Rightarrow> scope \<Rightarrow> scope" where
  "increment_count name s =
     s\<lparr>sc_listenerCount := AList.update name (nadd (if counts name s then count_of name s else Some 0) (Some 1)) (sc_listenerCount s)\<rparr>"

definition decrement_count :: "num \<Rightarrow> string \<Rightarrow> scope \<Rightarrow> scope" where
  "decrement_count count name s =
     (let n = nsub (count_of name s) count
      in s\<lparr>sc_listenerCount := (if n = Some 0 then AList.delete name (sc_listenerCount s)
                                else AList.update name n (sc_listenerCount s))\<rparr>)"

definition decrementListenerCount :: "nat \<Rightarrow> num \<Rightarrow> string \<Rightarrow> (nat \<Rightarrow> scope) \<Rightarrow> (nat \<Rightarrow> scope)" where
  "decrementListenerCount current count name h =
     fold (\<lambda>s. upd_scope s (decrement_count count name)) (ancestors h current) h"

text \<open>\<open>$on\<close>: the state and, if the scope is not destroyed, the address of the array of listeners.\<close>

definition on_event :: "nat \<Rightarrow> string \<Rightarrow> nat \<Rightarrow> ('w, 'v) root \<Rightarrow> ('w, 'v) root \<times> nat option" where
  "on_event this name listener st =
     (if is_noop (rs_scopes st) this then (st, None)
      else
        (let st = (case sc_listeners (rs_scopes st this) name of
                     Some _ \<Rightarrow> st
                   | None \<Rightarrow> st\<lparr>rs_scopes := upd_scope this (\<lambda>s. s\<lparr>sc_listeners := (sc_listeners s)(name \<mapsto> rs_nextList st)\<rparr>) (rs_scopes st),
                                rs_lists := (rs_lists st)(rs_nextList st := []), rs_nextList := Suc (rs_nextList st)\<rparr>);
             a = (case sc_listeners (rs_scopes st this) name of Some a \<Rightarrow> a | None \<Rightarrow> 0)
         in (st\<lparr>rs_lists := (rs_lists st)(a := rs_lists st a @ [Some listener]),
                rs_scopes := fold (\<lambda>s. upd_scope s (increment_count name)) (ancestors (rs_scopes st) this) (rs_scopes st)\<rparr>,
             Some a)))"

text \<open>The function that \<open>$on\<close> returns.\<close>

fun forget :: "nat \<Rightarrow> nat option list \<Rightarrow> nat option list" where
  "forget l [] = []"
| "forget l (x # xs) = (if x = Some l then None # xs else x # forget l xs)"

definition off_event :: "nat \<Rightarrow> nat \<Rightarrow> string \<Rightarrow> nat \<Rightarrow> ('w, 'v) root \<Rightarrow> ('w, 'v) root" where
  "off_event a this name listener st =
     st\<lparr>rs_lists := (rs_lists st)(a := forget listener (rs_lists st a)),
        rs_scopes := decrementListenerCount this (Some 1) name (rs_scopes st)\<rparr>"

text \<open>The loop over an array of listeners; entries that are \<open>null\<close> are taken out.\<close>

definition splice :: "nat \<Rightarrow> 'a list \<Rightarrow> 'a list" where
  "splice i xs = take i xs @ drop (Suc i) xs"

function call_listeners :: "('w, 'v) app \<Rightarrow> nat \<Rightarrow> nat \<Rightarrow> nat \<Rightarrow> scope_event \<Rightarrow> ('w, 'v) root \<Rightarrow> ('w, 'v) root \<times> scope_event" where
  "call_listeners app a i len ev st =
     (if i < len
      then (case (if i < length (rs_lists st a) then rs_lists st a ! i else None) of
              None \<Rightarrow> call_listeners app a i (len - 1) ev (st\<lparr>rs_lists := (rs_lists st)(a := splice i (rs_lists st a))\<rparr>)
            | Some l \<Rightarrow>
                (case ap_listener app l ev st of
                   (st, ev, thrown) \<Rightarrow> call_listeners app a (Suc i) len ev (exceptionHandler thrown st)))
      else (st, ev))"
  by pat_completeness auto
termination by (relation "measure (\<lambda>(app, a, i, len, ev, st). len - i)") auto

declare call_listeners.simps [simp del]

definition call_named :: "('w, 'v) app \<Rightarrow> string \<Rightarrow> nat \<Rightarrow> scope_event \<Rightarrow> ('w, 'v) root \<Rightarrow> ('w, 'v) root \<times> scope_event" where
  "call_named app name scope ev st =
     (let ev = ev\<lparr>ev_currentScope := scope\<rparr>
      in case sc_listeners (rs_scopes st scope) name of
           None \<Rightarrow> (st, ev)
         | Some a \<Rightarrow> call_listeners app a 0 (length (rs_lists st a)) ev st)"

definition new_event :: "string \<Rightarrow> nat \<Rightarrow> scope_event" where
  "new_event name target =
     \<lparr>ev_name = name, ev_targetScope = target, ev_currentScope = target, ev_stopPropagation = False, ev_defaultPrevented = False\<rparr>"

text \<open>\<open>$emit\<close> goes up the parents.\<close>

function emit_loop :: "('w, 'v) app \<Rightarrow> string \<Rightarrow> nat \<Rightarrow> scope_event \<Rightarrow> ('w, 'v) root \<Rightarrow> ('w, 'v) root \<times> scope_event" where
  "emit_loop app name scope ev st =
     (case call_named app name scope ev st of
        (st, ev) \<Rightarrow>
          if ev_stopPropagation ev then (st, ev)
          else (case sc_parent (rs_scopes st scope) of
                  None \<Rightarrow> (st, ev)
                | Some p \<Rightarrow> if p < scope then emit_loop app name p ev st else (st, ev)))"
  by pat_completeness auto
termination by (relation "measure (\<lambda>(app, name, scope, ev, st). scope)") auto

declare emit_loop.simps [simp del]

definition emit :: "('w, 'v) app \<Rightarrow> string \<Rightarrow> nat \<Rightarrow> ('w, 'v) root \<Rightarrow> ('w, 'v) root \<times> scope_event" where
  "emit app name this st = emit_loop app name this (new_event name this) st"

text \<open>
  \<open>$broadcast\<close> goes down, but not below a scope that counts no listeners. It does not end when listeners keep
  adding scopes below; the error is that of the climb from a scope that was destroyed.
\<close>

partial_function (option) broadcast_loop ::
  "('w, 'v) app \<Rightarrow> string \<Rightarrow> nat \<Rightarrow> nat \<Rightarrow> scope_event \<Rightarrow> ('w, 'v) root \<Rightarrow> (('w, 'v) root \<times> scope_event result) option" where
  "broadcast_loop app name target current ev st =
     (case call_named app name current ev st of
        (st, ev) \<Rightarrow>
          (case next_scope (rs_scopes st) target
                  (if counts name (rs_scopes st current) then sc_childHead (rs_scopes st current) else None) current of
             Inl e \<Rightarrow> Some (st, Inl e)
           | Inr None \<Rightarrow> Some (st, Inr ev)
           | Inr (Some n) \<Rightarrow> broadcast_loop app name target n ev st))"

declare broadcast_loop.simps [code]

definition broadcast :: "('w, 'v) app \<Rightarrow> string \<Rightarrow> nat \<Rightarrow> ('w, 'v) root \<Rightarrow> (('w, 'v) root \<times> scope_event result) option" where
  "broadcast app name this st = broadcast_loop app name this this (new_event name this) st"

text \<open>\<open>$destroy\<close>: the counts of the ancestors are reduced by those of the scope before it leaves the tree.\<close>

definition remove_counts :: "nat \<Rightarrow> (nat \<Rightarrow> scope) \<Rightarrow> (nat \<Rightarrow> scope)" where
  "remove_counts this h = fold (\<lambda>(name, count). decrementListenerCount this count name) (sc_listenerCount (h this)) h"

definition destroy_scope :: "('w, 'v) app \<Rightarrow> nat \<Rightarrow> ('w, 'v) root \<Rightarrow> (('w, 'v) root \<times> unit result) option" where
  "destroy_scope app this st =
     (if is_destroyed (rs_scopes st) this then Some (st, Inr ())
      else
        (case broadcast app ''$destroy'' this st of
           None \<Rightarrow> None
         | Some (st, Inl e) \<Rightarrow> Some (st, Inl e)
         | Some (st, Inr _) \<Rightarrow>
             (let st = st\<lparr>rs_scopes := upd_scope this (\<lambda>s. s\<lparr>sc_destroyed := True\<rparr>) (rs_scopes st)\<rparr>
              in if this = 0 then Some (st, Inr ())
                 else Some (detach this (st\<lparr>rs_scopes := remove_counts this (rs_scopes st)\<rparr>), Inr ()))))"

end
