(* ===== verification/Angular_Digest.thy ===== *)
theory Angular_Digest
  imports Angular_Events
begin

text \<open>
  Dirty checking in \<open>angular-1.2.21.js\<close>: \<open>$watch\<close>, \<open>$digest\<close>, \<open>$evalAsync\<close>, \<open>$$postDigest\<close> and \<open>$apply\<close> on the
  scopes of \<open>Angular_Scope\<close>. The list of watchers for the message of the error \<open>infdig\<close> is left out.
\<close>

section \<open>Definitions\<close>

definition beginPhase :: "phase \<Rightarrow> ('w, 'v) root \<Rightarrow> ('w, 'v) root result" where
  "beginPhase phase st = (if rs_phase st \<noteq> None then Inl (JsError ''inprog'') else Inr (st\<lparr>rs_phase := Some phase\<rparr>))"

definition clearPhase :: "('w, 'v) root \<Rightarrow> ('w, 'v) root" where
  "clearPhase st = st\<lparr>rs_phase := None\<rparr>"

text \<open>\<open>arrayRemove\<close> on an array of watchers.\<close>

definition arrayRemove :: "nat \<Rightarrow> nat \<Rightarrow> ('w, 'v) root \<Rightarrow> ('w, 'v) root" where
  "arrayRemove a w st = st\<lparr>rs_arrays := (rs_arrays st)(a := remove1 w (rs_arrays st a))\<rparr>"

text \<open>\<open>$watch\<close>, with the compiled functions: the state and the array and watcher of the returned function.\<close>

definition add_watch :: "nat \<Rightarrow> nat \<Rightarrow> nat \<Rightarrow> bool \<Rightarrow> bool \<Rightarrow> ('w, 'v) root \<Rightarrow> ('w, 'v) root \<times> (nat \<times> nat) option" where
  "add_watch this get listener objectEquality constant st =
     (if is_noop (rs_scopes st) this then (st, None)
      else
        (let st = st\<lparr>rs_lastDirtyWatch := None\<rparr>;
             st = (case sc_watchers (rs_scopes st this) of
                     Some _ \<Rightarrow> st
                   | None \<Rightarrow> st\<lparr>rs_scopes := upd_scope this (\<lambda>s. s\<lparr>sc_watchers := Some (rs_nextArray st)\<rparr>) (rs_scopes st),
                                rs_arrays := (rs_arrays st)(rs_nextArray st := []), rs_nextArray := Suc (rs_nextArray st)\<rparr>);
             a = (case sc_watchers (rs_scopes st this) of Some a \<Rightarrow> a | None \<Rightarrow> 0);
             w = rs_nextWatch st
         in (st\<lparr>rs_watch := (rs_watch st)(w := \<lparr>wa_fn = listener, wa_last = None, wa_get = get, wa_eq = objectEquality,
                                                 wa_constant = (if constant then Some a else None)\<rparr>),
                rs_nextWatch := Suc w, rs_arrays := (rs_arrays st)(a := w # rs_arrays st a)\<rparr>,
             Some (a, w))))"

definition deregisterWatch :: "nat \<Rightarrow> nat \<Rightarrow> ('w, 'v) root \<Rightarrow> ('w, 'v) root" where
  "deregisterWatch a w st = (arrayRemove a w st)\<lparr>rs_lastDirtyWatch := None\<rparr>"

definition evalAsync :: "nat \<Rightarrow> nat \<Rightarrow> ('w, 'v) root \<Rightarrow> ('w, 'v) root" where
  "evalAsync this expr st =
     (let st = (if rs_phase st = None \<and> rs_asyncQueue st = [] then st\<lparr>rs_deferred := Suc (rs_deferred st)\<rparr> else st)
      in if is_noop (rs_scopes st) this then st else st\<lparr>rs_asyncQueue := rs_asyncQueue st @ [(this, expr)]\<rparr>)"

definition postDigest :: "nat \<Rightarrow> nat \<Rightarrow> ('w, 'v) root \<Rightarrow> ('w, 'v) root" where
  "postDigest this fn st =
     (if is_noop (rs_scopes st) this then st else st\<lparr>rs_postDigestQueue := rs_postDigestQueue st @ [fn]\<rparr>)"

definition is_dirty :: "('w, 'v) app \<Rightarrow> 'v watcher \<Rightarrow> 'v \<Rightarrow> bool" where
  "is_dirty app wa v = (case wa_last wa of None \<Rightarrow> True | Some l \<Rightarrow> \<not> ap_same app (wa_eq wa) v l)"

text \<open>
  The call of a listener: the watcher is remembered as dirty and its value kept before. The listener of a
  constant expression removes the watcher after the call.
\<close>

definition call_listener :: "('w, 'v) app \<Rightarrow> nat \<Rightarrow> nat \<Rightarrow> 'v \<Rightarrow> ('w, 'v) root \<Rightarrow> ('w, 'v) root" where
  "call_listener app current w v st =
     (let wa = rs_watch st w;
          st = st\<lparr>rs_lastDirtyWatch := Some w,
                  rs_watch := (rs_watch st)(w := wa\<lparr>wa_last := Some (if wa_eq wa then ap_copy app v else v)\<rparr>)\<rparr>
      in case ap_fn app (wa_fn wa) v (case wa_last wa of None \<Rightarrow> v | Some l \<Rightarrow> l) current st of
           (st, thrown) \<Rightarrow>
             if thrown then exceptionHandler True (clearPhase st)
             else (case wa_constant wa of None \<Rightarrow> st | Some a \<Rightarrow> arrayRemove a w st))"

text \<open>One turn of the loop over the watchers: the state, \<open>dirty\<close> and whether the traversal is cut short.\<close>

definition check_watch ::
  "('w, 'v) app \<Rightarrow> nat \<Rightarrow> nat \<Rightarrow> nat \<Rightarrow> ('w, 'v) root \<Rightarrow> bool \<Rightarrow> ('w, 'v) root \<times> bool \<times> bool" where
  "check_watch app current a i st dirty =
     (if i < length (rs_arrays st a)
      then
        (let w = rs_arrays st a ! i
         in case ap_get app (wa_get (rs_watch st w)) current (rs_world st) of
              None \<Rightarrow> (exceptionHandler True (clearPhase st), dirty, False)
            | Some v \<Rightarrow>
                if is_dirty app (rs_watch st w) v then (call_listener app current w v st, True, False)
                else if rs_lastDirtyWatch st = Some w then (st, False, True)
                else (st, dirty, False))
      else (st, dirty, False))"

text \<open>The loop from the end of the array to its start.\<close>

fun watch_loop ::
  "('w, 'v) app \<Rightarrow> nat \<Rightarrow> nat \<Rightarrow> nat \<Rightarrow> ('w, 'v) root \<Rightarrow> bool \<Rightarrow> ('w, 'v) root \<times> bool \<times> bool" where
  "watch_loop app current a 0 st dirty = (st, dirty, False)"
| "watch_loop app current a (Suc i) st dirty =
     (case check_watch app current a i st dirty of
        (st, dirty, stop) \<Rightarrow> if stop then (st, dirty, True) else watch_loop app current a i st dirty)"

definition check_scope :: "('w, 'v) app \<Rightarrow> nat \<Rightarrow> ('w, 'v) root \<Rightarrow> bool \<Rightarrow> ('w, 'v) root \<times> bool \<times> bool" where
  "check_scope app current st dirty =
     (case sc_watchers (rs_scopes st current) of
        None \<Rightarrow> (st, dirty, False)
      | Some a \<Rightarrow> watch_loop app current a (length (rs_arrays st a)) st dirty)"

text \<open>
  The traversal of the scopes from \<open>current\<close> on; it does not end when listeners keep adding scopes ahead of
  it. The error is that of the climb from a scope that was destroyed.
\<close>

partial_function (option) traverse ::
  "('w, 'v) app \<Rightarrow> nat \<Rightarrow> nat \<Rightarrow> ('w, 'v) root \<Rightarrow> bool \<Rightarrow> (('w, 'v) root \<times> bool result) option" where
  "traverse app target current st dirty =
     (case check_scope app current st dirty of
        (st, dirty, stop) \<Rightarrow>
          if stop then Some (st, Inr dirty)
          else (case walk (rs_scopes st) target current of
                  Inl e \<Rightarrow> Some (st, Inl e)
                | Inr None \<Rightarrow> Some (st, Inr dirty)
                | Inr (Some n) \<Rightarrow> traverse app target n st dirty))"

declare traverse.simps [code]

text \<open>The loop over the scheduled expressions; it ends only when they stop scheduling more.\<close>

definition run_task :: "('w, 'v) app \<Rightarrow> nat \<times> nat \<Rightarrow> ('w, 'v) root \<Rightarrow> ('w, 'v) root" where
  "run_task app task st =
     (case ap_expr app (snd task) (fst task) st of
        (st, thrown) \<Rightarrow> (if thrown then exceptionHandler True (clearPhase st) else st)\<lparr>rs_lastDirtyWatch := None\<rparr>)"

partial_function (option) drain :: "('w, 'v) app \<Rightarrow> ('w, 'v) root \<Rightarrow> ('w, 'v) root option" where
  "drain app st =
     (case rs_asyncQueue st of
        [] \<Rightarrow> Some st
      | task # q \<Rightarrow> drain app (run_task app task (st\<lparr>rs_asyncQueue := q\<rparr>)))"

declare drain.simps [code]

partial_function (option) run_post :: "('w, 'v) app \<Rightarrow> ('w, 'v) root \<Rightarrow> ('w, 'v) root option" where
  "run_post app st =
     (case rs_postDigestQueue st of
        [] \<Rightarrow> Some st
      | f # q \<Rightarrow> run_post app (case ap_post app f (st\<lparr>rs_postDigestQueue := q\<rparr>) of (st, thrown) \<Rightarrow> exceptionHandler thrown st))"

declare run_post.simps [code]

text \<open>The outer loop, with what is left of the \<open>TTL\<close>.\<close>

fun digest_loop :: "('w, 'v) app \<Rightarrow> nat \<Rightarrow> nat \<Rightarrow> ('w, 'v) root \<Rightarrow> (('w, 'v) root \<times> unit result) option" where
  "digest_loop app target ttl st =
     (case drain app st of
        None \<Rightarrow> None
      | Some st \<Rightarrow>
          (case traverse app target target st False of
             None \<Rightarrow> None
           | Some (st, Inl e) \<Rightarrow> Some (st, Inl e)
           | Some (st, Inr dirty) \<Rightarrow>
               if dirty \<or> rs_asyncQueue st \<noteq> []
               then (case ttl of 0 \<Rightarrow> Some (clearPhase st, Inl (JsError ''infdig'')) | Suc ttl \<Rightarrow> digest_loop app target ttl st)
               else Some (st, Inr ())))"

declare digest_loop.simps [simp del]

text \<open>\<open>$digest\<close> up to the end of its loop, and with the functions that are to be called after it.\<close>

definition digest_rounds :: "('w, 'v) app \<Rightarrow> nat \<Rightarrow> nat \<Rightarrow> ('w, 'v) root \<Rightarrow> (('w, 'v) root \<times> unit result) option" where
  "digest_rounds app ttl this st =
     (case beginPhase Digesting st of
        Inl e \<Rightarrow> Some (st, Inl e)
      | Inr st \<Rightarrow> digest_loop app this ttl (st\<lparr>rs_lastDirtyWatch := None\<rparr>))"

definition digest :: "('w, 'v) app \<Rightarrow> nat \<Rightarrow> nat \<Rightarrow> ('w, 'v) root \<Rightarrow> (('w, 'v) root \<times> unit result) option" where
  "digest app ttl this st =
     (if is_noop (rs_scopes st) this then Some (st, Inr ())
      else
        (case digest_rounds app ttl this st of
           None \<Rightarrow> None
         | Some (st, Inl e) \<Rightarrow> Some (st, Inl e)
         | Some (st, Inr _) \<Rightarrow> map_option (\<lambda>st. (st, Inr ())) (run_post app (clearPhase st))))"

text \<open>\<open>$apply\<close>: the phase is cleared and the root digested whatever the expression does.\<close>

definition apply_expr :: "('w, 'v) app \<Rightarrow> nat \<Rightarrow> nat \<Rightarrow> nat \<Rightarrow> ('w, 'v) root \<Rightarrow> (('w, 'v) root \<times> unit result) option" where
  "apply_expr app ttl this expr st =
     (if is_noop (rs_scopes st) this then Some (st, Inr ())
      else
        (case (case beginPhase Applying st of Inl e \<Rightarrow> (st, True) | Inr st \<Rightarrow> ap_expr app expr this st) of
           (st, thrown) \<Rightarrow>
             (case digest app ttl 0 (clearPhase (exceptionHandler thrown st)) of
                None \<Rightarrow> None
              | Some (st, Inl e) \<Rightarrow> Some (exceptionHandler True st, Inl e)
              | Some (st, Inr _) \<Rightarrow> Some (st, Inr ()))))"

text \<open>The function that \<open>$evalAsync\<close> gives to \<open>$browser.defer\<close>.\<close>

definition deferred_digest :: "('w, 'v) app \<Rightarrow> nat \<Rightarrow> ('w, 'v) root \<Rightarrow> (('w, 'v) root \<times> unit result) option" where
  "deferred_digest app ttl st =
     (let st = st\<lparr>rs_deferred := rs_deferred st - 1\<rparr>
      in if rs_asyncQueue st \<noteq> [] then digest app ttl 0 st else Some (st, Inr ()))"

end
