(* ===== verification/Angular_Settle.thy ===== *)
theory Angular_Settle
  imports Angular_Digest
begin

text \<open>
  What \<open>$digest\<close> establishes: when it returns, every watcher of every scope below the target is clean, whatever
  listeners do with the operations of scopes, although traversals are cut short at the last dirty watcher.
\<close>

section \<open>Ancestors\<close>

fun above :: "nat \<Rightarrow> nat tree \<Rightarrow> nat list" where
  "above c Leaf = []"
| "above c (Node k x r) = (if c = x then [x] else if c \<in> set_tree k then above c k @ [x] else above c r)"

lemma ancestors_linked:
  assumes "linked h par prev t" "c \<in> set_tree t"
  shows "ancestors h c = above c t @ (case par of None \<Rightarrow> [] | Some p \<Rightarrow> ancestors h p)"
  using assms
proof (induction t arbitrary: par prev)
  case (Node k x r)
  have x: "ancestors h x = x # (case par of None \<Rightarrow> [] | Some p \<Rightarrow> ancestors h p)"
    using Node.prems(1) by (subst ancestors.simps) (auto split: option.split)
  show ?case
  proof (cases "c = x \<or> c \<in> set_tree k")
    case True
    then show ?thesis using Node.IH(1) [of "Some x" None] Node.prems(1) x by auto
  next
    case False
    then show ?thesis using Node.IH(2) [of par "Some x"] Node.prems by simp
  qed
qed simp

lemma above_subset: "set (above c t) \<subseteq> set_tree t"
  by (induction t) auto

lemma above_scopes_from:
  assumes "c \<in> set_tree t" "distinct (preorder t)"
  shows "s \<in> set (above c t) \<longleftrightarrow> s \<in> set_tree t \<and> c \<in> set (scopes_from s t)"
  using assms
proof (induction t)
  case (Node k x r)
  have "set_tree (kids_of s k) \<subseteq> set_tree k" "set_tree (kids_of s r) \<subseteq> set_tree r" by (rule kids_subset)+
  moreover have "set (above c k) \<subseteq> set_tree k" "set (above c r) \<subseteq> set_tree r" by (rule above_subset)+
  ultimately show ?case using Node by (auto simp: scopes_from_def)
qed simp

lemma ancestors_tree:
  assumes "scope_tree st t" "c \<in> set_tree t"
  shows "s \<in> set (ancestors (rs_scopes st) c) \<longleftrightarrow> s \<in> set_tree t \<and> c \<in> set (scopes_from s t)"
  using ancestors_linked [of "rs_scopes st" None None t c] above_scopes_from [of c t s] assms by (simp add: scope_tree_def)

lemma ancestors_cong: "\<forall>s \<in> set (ancestors h c). sc_parent (h' s) = sc_parent (h s) \<Longrightarrow> ancestors h' c = ancestors h c"
proof (induction h c rule: ancestors.induct)
  case (1 h c)
  have c: "sc_parent (h' c) = sc_parent (h c)" using 1(2) by (subst (asm) ancestors.simps) simp
  show ?case
  proof (cases "sc_parent (h c)")
    case (Some p)
    then have "p < c \<Longrightarrow> set (ancestors h p) \<subseteq> set (ancestors h c)" by (subst (2) ancestors.simps) auto
    then have "p < c \<Longrightarrow> ancestors h' p = ancestors h p" using 1 Some by auto
    with c Some show ?thesis by (subst (1 2) ancestors.simps) simp
  qed (subst (1 2) ancestors.simps, simp add: c)
qed

section \<open>The watchers in their order\<close>

definition arr :: "('w, 'v) root \<Rightarrow> nat \<Rightarrow> nat list" where
  "arr st s = (case sc_watchers (rs_scopes st s) of None \<Rightarrow> [] | Some a \<Rightarrow> rs_arrays st a)"

definition order :: "('w, 'v) root \<Rightarrow> nat list \<Rightarrow> (nat \<times> nat) list" where
  "order st ss = concat (map (\<lambda>s. map (Pair s) (rev (arr st s))) ss)"

text \<open>Every live scope has its own array and every watcher is in one array once.\<close>

definition watch_inv :: "('w, 'v) root \<Rightarrow> nat tree \<Rightarrow> bool" where
  "watch_inv st t \<longleftrightarrow> scope_tree st t \<and>
     (\<forall>s \<in> set_tree t. \<forall>a. sc_watchers (rs_scopes st s) = Some a \<longrightarrow> a < rs_nextArray st) \<and>
     (\<forall>s \<in> set_tree t. \<forall>s' \<in> set_tree t. \<forall>a. sc_watchers (rs_scopes st s) = Some a \<longrightarrow> sc_watchers (rs_scopes st s') = Some a \<longrightarrow> s = s') \<and>
     (\<forall>s \<in> set_tree t. distinct (arr st s) \<and> (\<forall>w \<in> set (arr st s). w < rs_nextWatch st)) \<and>
     (\<forall>s \<in> set_tree t. \<forall>s' \<in> set_tree t. \<forall>w. w \<in> set (arr st s) \<longrightarrow> w \<in> set (arr st s') \<longrightarrow> s = s')"

lemma watch_inv_tree: "watch_inv st t \<Longrightarrow> scope_tree st t"
  by (simp add: watch_inv_def)

lemma watch_inv_cong:
  assumes "watch_inv st t" "scope_tree st' t'" "rs_nextArray st \<le> rs_nextArray st'" "rs_nextWatch st \<le> rs_nextWatch st'"
    and "\<forall>s \<in> set_tree t'. s \<in> set_tree t \<and> sc_watchers (rs_scopes st' s) = sc_watchers (rs_scopes st s) \<or> sc_watchers (rs_scopes st' s) = None"
    and "\<forall>a < rs_nextArray st. rs_arrays st' a = rs_arrays st a"
  shows "watch_inv st' t'"
proof -
  have arr: "arr st' s = arr st s \<and> s \<in> set_tree t \<or> arr st' s = []" if "s \<in> set_tree t'" for s
    using assms(1,5,6) that by (fastforce simp: arr_def watch_inv_def split: option.split)
  show ?thesis unfolding watch_inv_def
  proof (intro conjI ballI allI impI)
    fix s a assume "s \<in> set_tree t'" "sc_watchers (rs_scopes st' s) = Some a"
    then show "a < rs_nextArray st'" using assms(1,3,5) unfolding watch_inv_def by (metis option.distinct(1) less_le_trans)
  next
    fix s s' a assume "s \<in> set_tree t'" "s' \<in> set_tree t'" "sc_watchers (rs_scopes st' s) = Some a" "sc_watchers (rs_scopes st' s') = Some a"
    then show "s = s'" using assms(1,5) unfolding watch_inv_def by (metis option.distinct(1))
  next
    fix s assume "s \<in> set_tree t'"
    with arr [of s] show "distinct (arr st' s)" using assms(1) unfolding watch_inv_def by auto
  next
    fix s w assume "s \<in> set_tree t'" "w \<in> set (arr st' s)"
    with arr [of s] have "w < rs_nextWatch st" using assms(1) unfolding watch_inv_def by auto
    with assms(4) show "w < rs_nextWatch st'" by simp
  next
    fix s s' w assume "s \<in> set_tree t'" "s' \<in> set_tree t'" "w \<in> set (arr st' s)" "w \<in> set (arr st' s')"
    with arr [of s] arr [of s'] show "s = s'" using assms(1) unfolding watch_inv_def by auto
  qed (rule assms(2))
qed

section \<open>What the application may do\<close>

text \<open>
  The steps of the application while a scope \<open>c\<close> is looked at: it changes its own state, calls the operations of
  live scopes and the functions they have returned, in any order, but does not destroy \<open>c\<close> or an ancestor of it.
\<close>

inductive touch :: "nat \<Rightarrow> ('w, 'v) root \<Rightarrow> ('w, 'v) root \<Rightarrow> bool" for c where
  change: "touch c st (st\<lparr>rs_world := w\<rparr>)"
| new: "scope_tree st t \<Longrightarrow> p \<in> set_tree t \<Longrightarrow> touch c st (fst (new_scope isolate p st))"
| destroy: "scope_tree st t \<Longrightarrow> d \<in> set_tree t \<Longrightarrow> d \<noteq> 0 \<Longrightarrow> c \<notin> set (scopes_from d t) \<Longrightarrow> touch c st (detach d st)"
| watch: "scope_tree st t \<Longrightarrow> s \<in> set_tree t \<Longrightarrow> touch c st (fst (add_watch s get fn eq constant st))"
| unwatch: "touch c st (deregisterWatch a w st)"
| schedule: "touch c st (evalAsync s e st)"
| after: "touch c st (postDigest s f st)"
| listeners: "touch c st (st\<lparr>rs_lists := l, rs_nextList := n,
    rs_scopes := upd_scope s (\<lambda>x. x\<lparr>sc_listeners := f, sc_listenerCount := g, sc_destroyed := b\<rparr>) (rs_scopes st)\<rparr>)"
| handled: "touch c st (st\<lparr>rs_phase := p, rs_handled := n\<rparr>)"

abbreviation touches :: "nat \<Rightarrow> ('w, 'v) root \<Rightarrow> ('w, 'v) root \<Rightarrow> bool" where
  "touches c \<equiv> (touch c)\<^sup>*\<^sup>*"

lemma linked_unique: "linked h par prev t \<Longrightarrow> linked h par prev t' \<Longrightarrow> first_of t = first_of t' \<Longrightarrow> t = t'"
proof (induction t arbitrary: par prev t')
  case Leaf
  then show ?case by (cases t') simp_all
next
  case (Node k x r)
  then obtain k' r' where t': "t' = Node k' x r'" by (cases t') auto
  with Node.IH(1) [of "Some x" None k'] Node.IH(2) [of par "Some x" r'] Node.prems show ?case by simp
qed

lemma scope_tree_unique: "scope_tree st t \<Longrightarrow> scope_tree st t' \<Longrightarrow> t = t'"
  unfolding scope_tree_def by (cases t; cases t') (auto intro: linked_unique)

lemma unlink_other:
  "s \<noteq> d \<Longrightarrow> sc_parent (unlink d h s) = sc_parent (h s)" "s \<noteq> d \<Longrightarrow> sc_watchers (unlink d h s) = sc_watchers (h s)"
  by (auto simp: unlink_def Let_def upd_ref_def upd_scope_def split: option.split)

lemma add_child_other:
  "s \<noteq> c \<Longrightarrow> sc_parent (add_child isolate p c h s) = sc_parent (h s)"
  "s \<noteq> c \<Longrightarrow> sc_watchers (add_child isolate p c h s) = sc_watchers (h s)"
  "c \<noteq> p \<Longrightarrow> sc_watchers (add_child isolate p c h c) = None"
  by (auto simp: add_child_def Let_def upd_ref_def upd_scope_def new_Scope_def split: option.split)

text \<open>What a step keeps, seen from \<open>c\<close>.\<close>

definition keeps :: "nat \<Rightarrow> ('w, 'v) root \<Rightarrow> ('w, 'v) root \<Rightarrow> bool" where
  "keeps c st st' \<longleftrightarrow> ancestors (rs_scopes st') c = ancestors (rs_scopes st) c \<and>
     (\<forall>a. sc_watchers (rs_scopes st c) = Some a \<longrightarrow> sc_watchers (rs_scopes st' c) = Some a) \<and>
     (rs_lastDirtyWatch st' = None \<or> rs_lastDirtyWatch st' = rs_lastDirtyWatch st \<and>
        (\<forall>a. sc_watchers (rs_scopes st c) = Some a \<longrightarrow> rs_arrays st' a = rs_arrays st a))"

lemma keeps_refl: "keeps c st st"
  by (simp add: keeps_def)

lemma keeps_trans: "keeps c st st' \<Longrightarrow> keeps c st' st'' \<Longrightarrow> keeps c st st''"
  unfolding keeps_def by (metis (no_types, lifting))

text \<open>Steps that change neither the tree nor the watchers.\<close>

lemma untouched:
  assumes "watch_inv st t" "rs_scopes st' = rs_scopes st" "rs_nextScope st' = rs_nextScope st" "rs_arrays st' = rs_arrays st"
    "rs_nextArray st' = rs_nextArray st" "rs_nextWatch st' = rs_nextWatch st" "rs_lastDirtyWatch st' = rs_lastDirtyWatch st"
  shows "watch_inv st' t" "keeps c st st'"
proof -
  have "scope_tree st' t" using assms(1-3) by (simp add: watch_inv_def scope_tree_def)
  then show "watch_inv st' t" by (rule watch_inv_cong [OF assms(1)]) (simp_all add: assms(2-7))
  show "keeps c st st'" by (simp add: keeps_def assms)
qed

lemma touch_new:
  fixes isolate :: bool
  assumes "watch_inv st t" "c \<in> set_tree t" "p \<in> set_tree t"
  defines "st' \<equiv> fst (new_scope isolate p st)"
  shows "\<exists>t'. watch_inv st' t' \<and> c \<in> set_tree t' \<and> keeps c st st'"
proof -
  let ?n = "rs_nextScope st"
  have tree: "scope_tree st t" by (rule watch_inv_tree [OF assms(1)])
  note new = new_scope_tree [OF tree assms(3)]
  let ?t = "set_kids p (add_last ?n (kids_of p t)) t"
  have below: "x < ?n" if "x \<in> set_tree t" for x using tree that by (simp add: scope_tree_def)
  have sub: "x \<in> set_tree t \<or> x = ?n" if "x \<in> set_tree ?t" for x
    using that new(3) by (metis (mono_tags, lifting) mem_Collect_eq set_filter set_preorder)
  have st': "rs_scopes st' = add_child isolate p ?n (rs_scopes st)" "rs_arrays st' = rs_arrays st" "rs_nextArray st' = rs_nextArray st"
    "rs_nextWatch st' = rs_nextWatch st" "rs_lastDirtyWatch st' = rs_lastDirtyWatch st"
    by (simp_all add: st'_def new_scope_def Let_def)
  have ws: "s \<in> set_tree t \<and> sc_watchers (rs_scopes st' s) = sc_watchers (rs_scopes st s) \<or> sc_watchers (rs_scopes st' s) = None"
    if "s \<in> set_tree ?t" for s
    using sub [OF that] below [OF assms(3)] by (cases "s = ?n") (simp_all add: st' add_child_other)
  have "watch_inv st' ?t"
    by (rule watch_inv_cong [OF assms(1) new(1) [of isolate, folded st'_def]]) (use ws in \<open>auto simp: st'(2-)\<close>)
  moreover have "c \<in> set_tree ?t" using new(3) assms(2) by (metis filter_is_subset set_preorder subsetD)
  moreover have "ancestors (rs_scopes st') c = ancestors (rs_scopes st) c"
  proof (rule ancestors_cong, rule ballI)
    fix s assume "s \<in> set (ancestors (rs_scopes st) c)"
    then have "s < ?n" using ancestors_tree [OF tree assms(2)] below by blast
    then show "sc_parent (rs_scopes st' s) = sc_parent (rs_scopes st s)" by (simp add: st' add_child_other)
  qed
  ultimately show ?thesis using below [OF assms(2)] by (auto simp: keeps_def st' add_child_other)
qed

lemma touch_destroy:
  assumes "watch_inv st t" "c \<in> set_tree t" "d \<in> set_tree t" "d \<noteq> 0" "c \<notin> set (scopes_from d t)"
  shows "\<exists>t'. watch_inv (detach d st) t' \<and> c \<in> set_tree t' \<and> keeps c st (detach d st)"
proof -
  have tree: "scope_tree st t" by (rule watch_inv_tree [OF assms(1)])
  obtain t' where t': "scope_tree (detach d st) t'" "preorder t' = filter (\<lambda>x. x \<notin> set (scopes_from d t)) (preorder t)"
    using detach_tree [OF tree assms(3,4)] .
  have set: "set_tree t' = set_tree t - set (scopes_from d t)" using t'(2) by (metis set_diff_eq set_filter set_preorder)
  have d: "d \<in> set (scopes_from d t)" by (simp add: scopes_from_def)
  have w: "sc_watchers (rs_scopes (detach d st) s) = sc_watchers (rs_scopes st s)" "sc_parent (rs_scopes (detach d st) s) = sc_parent (rs_scopes st s)"
    if "s \<noteq> d" for s using that by (simp_all add: detach_def upd_scope_def unlink_other)
  have sel: "rs_arrays (detach d st) = (rs_arrays st)(rs_nextArray st := [])" "rs_nextArray (detach d st) = Suc (rs_nextArray st)"
    "rs_nextWatch (detach d st) = rs_nextWatch st" "rs_lastDirtyWatch (detach d st) = rs_lastDirtyWatch st"
    by (simp_all add: detach_def)
  have live: "s \<in> set_tree t \<and> s \<noteq> d" if "s \<in> set_tree t'" for s using that set d by auto
  have "watch_inv (detach d st) t'"
    by (rule watch_inv_cong [OF assms(1) t'(1)]) (use live w(1) in \<open>auto simp: sel\<close>)
  moreover have "ancestors (rs_scopes (detach d st)) c = ancestors (rs_scopes st) c"
  proof (rule ancestors_cong, rule ballI)
    fix s assume "s \<in> set (ancestors (rs_scopes st) c)"
    then have "s \<noteq> d" using ancestors_tree [OF tree assms(2)] assms(5) by auto
    then show "sc_parent (rs_scopes (detach d st) s) = sc_parent (rs_scopes st s)" by (rule w(2))
  qed
  moreover have "a \<noteq> rs_nextArray st" if "sc_watchers (rs_scopes st c) = Some a" for a
    using assms(1,2) that unfolding watch_inv_def by auto
  moreover have "c \<noteq> d" using assms(5) d by auto
  ultimately show ?thesis using set assms(2,5) w by (auto simp: keeps_def sel)
qed

lemma ancestors_upd:
  "\<forall>x. sc_parent (f x) = sc_parent x \<Longrightarrow> ancestors (upd_scope s f h) c = ancestors h c"
  by (rule ancestors_cong) (simp add: upd_scope_def)

lemma scope_tree_upd:
  assumes "scope_tree st t" "rs_nextScope st' = rs_nextScope st"
    "\<forall>x. sc_parent (rs_scopes st' x) = sc_parent (rs_scopes st x) \<and> sc_childHead (rs_scopes st' x) = sc_childHead (rs_scopes st x) \<and>
      sc_childTail (rs_scopes st' x) = sc_childTail (rs_scopes st x) \<and> sc_nextSibling (rs_scopes st' x) = sc_nextSibling (rs_scopes st x) \<and>
      sc_prevSibling (rs_scopes st' x) = sc_prevSibling (rs_scopes st x)"
  shows "scope_tree st' t"
  using assms linked_links_cong [of t "rs_scopes st'" "rs_scopes st"] by (simp add: scope_tree_def)

lemma arr_subset_inv:
  assumes "watch_inv st t" "scope_tree st' t" "rs_nextArray st' = rs_nextArray st" "rs_nextWatch st' = rs_nextWatch st"
    and "rs_scopes st' = rs_scopes st" "\<forall>a. distinct (rs_arrays st a) \<longrightarrow> distinct (rs_arrays st' a)"
    and "\<forall>a. set (rs_arrays st' a) \<subseteq> set (rs_arrays st a)"
  shows "watch_inv st' t"
proof -
  have sub: "w \<in> set (arr st' s) \<Longrightarrow> w \<in> set (arr st s)" "distinct (arr st s) \<Longrightarrow> distinct (arr st' s)" for s w
    using assms(5-7) by (auto simp: arr_def split: option.splits)
  note inv = assms(1) [unfolded watch_inv_def]
  have "\<forall>s \<in> set_tree t. distinct (arr st' s) \<and> (\<forall>w \<in> set (arr st' s). w < rs_nextWatch st')"
    using inv [THEN conjunct2, THEN conjunct2, THEN conjunct2, THEN conjunct1] sub assms(4) by metis
  moreover have "\<forall>s \<in> set_tree t. \<forall>s' \<in> set_tree t. \<forall>w. w \<in> set (arr st' s) \<longrightarrow> w \<in> set (arr st' s') \<longrightarrow> s = s'"
    using inv [THEN conjunct2, THEN conjunct2, THEN conjunct2, THEN conjunct2] sub(1) by metis
  ultimately show ?thesis using inv assms(2) unfolding watch_inv_def assms(3,5) by (elim conjE) (intro conjI; assumption)
qed

lemma touch_listeners:
  fixes l n f g b s
  assumes "watch_inv st t"
  defines "st' \<equiv> st\<lparr>rs_lists := l, rs_nextList := n,
      rs_scopes := upd_scope s (\<lambda>x. x\<lparr>sc_listeners := f, sc_listenerCount := g, sc_destroyed := b\<rparr>) (rs_scopes st)\<rparr>"
  shows "watch_inv st' t \<and> keeps c st st'"
proof
  have "scope_tree st' t" by (rule scope_tree_upd [OF watch_inv_tree [OF assms(1)]]) (simp_all add: upd_scope_def st'_def)
  then show "watch_inv st' t" by (rule watch_inv_cong [OF assms(1)]) (simp_all add: upd_scope_def st'_def)
  have "sc_watchers (rs_scopes st' c) = sc_watchers (rs_scopes st c)" by (simp add: st'_def upd_scope_def)
  then show "keeps c st st'" by (simp add: keeps_def st'_def ancestors_upd)
qed

lemma touch_remove:
  assumes "watch_inv st t"
  shows "watch_inv (arrayRemove a w st) t"
proof (rule arr_subset_inv [OF assms])
  show "scope_tree (arrayRemove a w st) t" using watch_inv_tree [OF assms] by (simp add: arrayRemove_def scope_tree_def)
qed (auto simp: arrayRemove_def dest: set_mp [OF set_remove1_subset])

lemma touch_unwatch:
  assumes "watch_inv st t"
  shows "watch_inv (deregisterWatch a w st) t" "keeps c st (deregisterWatch a w st)"
proof -
  have "scope_tree (deregisterWatch a w st) t" using watch_inv_tree [OF assms] by (simp add: deregisterWatch_def arrayRemove_def scope_tree_def)
  then show "watch_inv (deregisterWatch a w st) t"
    by (rule watch_inv_cong [OF touch_remove [OF assms, of a w]]) (simp_all add: deregisterWatch_def)
  show "keeps c st (deregisterWatch a w st)" by (simp add: keeps_def deregisterWatch_def arrayRemove_def)
qed

lemma touch_watch:
  fixes get fn eq const
  assumes "watch_inv st t" "c \<in> set_tree t" "s \<in> set_tree t"
  defines "st' \<equiv> fst (add_watch s get fn eq const st)"
  shows "watch_inv st' t \<and> keeps c st st'"
proof (cases "is_noop (rs_scopes st) s")
  case True
  then have "st' = st" by (simp add: st'_def add_watch_def)
  then show ?thesis using assms(1) keeps_refl by simp
next
  case False
  define a where "a = (case sc_watchers (rs_scopes st s) of Some a \<Rightarrow> a | None \<Rightarrow> rs_nextArray st)"
  let ?w = "rs_nextWatch st"
  have sel: "rs_lastDirtyWatch st' = None" "rs_nextWatch st' = Suc ?w" "rs_nextScope st' = rs_nextScope st"
    "rs_scopes st' = upd_scope s (\<lambda>x. x\<lparr>sc_watchers := Some a\<rparr>) (rs_scopes st)"
    "rs_nextArray st' = (if sc_watchers (rs_scopes st s) = None then Suc (rs_nextArray st) else rs_nextArray st)"
    "rs_arrays st' = (rs_arrays st)(a := ?w # arr st s)"
    using False by (auto simp: st'_def add_watch_def Let_def a_def arr_def upd_scope_def split: option.split)
  note inv = assms(1) [unfolded watch_inv_def]
  have tree: "scope_tree st' t" by (rule scope_tree_upd [OF watch_inv_tree [OF assms(1)]]) (simp_all add: sel upd_scope_def)
  have other: "sc_watchers (rs_scopes st' x) = sc_watchers (rs_scopes st x)" if "x \<noteq> s" for x
    using that by (simp add: sel upd_scope_def)
  have mine: "sc_watchers (rs_scopes st' s) = Some a" by (simp add: sel upd_scope_def)
  have fresh: "sc_watchers (rs_scopes st x) \<noteq> Some a" if "x \<in> set_tree t" "x \<noteq> s" for x
    using inv that assms(3) by (cases "sc_watchers (rs_scopes st s)") (auto simp: a_def)
  have arr: "arr st' x = (if x = s then ?w # arr st s else arr st x)" if "x \<in> set_tree t" for x
    using fresh [OF that] mine other [of x] by (auto simp: arr_def sel(6) split: option.split)
  have "a < rs_nextArray st'" using inv assms(3) by (cases "sc_watchers (rs_scopes st s)") (auto simp: a_def sel)
  then have w1: "\<forall>x \<in> set_tree t. \<forall>b. sc_watchers (rs_scopes st' x) = Some b \<longrightarrow> b < rs_nextArray st'"
    using inv mine other by (metis less_SucI option.inject sel(5))
  have w2: "\<forall>x \<in> set_tree t. \<forall>y \<in> set_tree t. \<forall>b. sc_watchers (rs_scopes st' x) = Some b \<longrightarrow> sc_watchers (rs_scopes st' y) = Some b \<longrightarrow> x = y"
    using inv mine other fresh by (metis option.inject)
  have old: "w < ?w" if "x \<in> set_tree t" "w \<in> set (arr st x)" for x w using inv that by blast
  have w3: "\<forall>x \<in> set_tree t. distinct (arr st' x) \<and> (\<forall>w \<in> set (arr st' x). w < rs_nextWatch st')"
    using inv arr old assms(3) by (auto simp: sel(2) less_Suc_eq)
  have w4: "\<forall>x \<in> set_tree t. \<forall>y \<in> set_tree t. \<forall>w. w \<in> set (arr st' x) \<longrightarrow> w \<in> set (arr st' y) \<longrightarrow> x = y"
    using inv arr old assms(3) by (auto split: if_splits)
  have "sc_watchers (rs_scopes st' c) = Some b" if "sc_watchers (rs_scopes st c) = Some b" for b
    using that mine other [of c] by (cases "c = s") (simp_all add: a_def)
  moreover have "ancestors (rs_scopes st') c = ancestors (rs_scopes st) c" by (simp add: sel(4) ancestors_upd)
  ultimately have "keeps c st st'" by (simp add: keeps_def sel(1))
  then show ?thesis using tree w1 w2 w3 w4 unfolding watch_inv_def by blast
qed

lemma touch_keeps:
  assumes "touch c st st'" "watch_inv st t" "c \<in> set_tree t"
  shows "\<exists>t'. watch_inv st' t' \<and> c \<in> set_tree t' \<and> keeps c st st'"
  using assms
proof cases
  case (new u p isolate)
  then have "u = t" using scope_tree_unique watch_inv_tree [OF assms(2)] by blast
  with new touch_new [OF assms(2,3)] show ?thesis by blast
next
  case (destroy u d)
  then have "u = t" using scope_tree_unique watch_inv_tree [OF assms(2)] by blast
  with destroy touch_destroy [OF assms(2,3)] show ?thesis by blast
next
  case (watch u s get fn eq k)
  then have "u = t" using scope_tree_unique watch_inv_tree [OF assms(2)] by blast
  with watch touch_watch [OF assms(2,3)] assms(3) show ?thesis by blast
next
  case (unwatch a w)
  then show ?thesis using touch_unwatch [OF assms(2)] assms(3) by blast
next
  case (listeners l n s f g b)
  then show ?thesis using touch_listeners [OF assms(2), of l n s f g b c] assms(3) by blast
next
  case (change w)
  then show ?thesis using untouched(1) [OF assms(2), of st'] untouched(2) [OF assms(2), of st' c] assms(3) by auto
next
  case (schedule s e)
  then show ?thesis using untouched(1) [OF assms(2), of st'] untouched(2) [OF assms(2), of st' c] assms(3) by (auto simp: evalAsync_def Let_def)
next
  case (after s f)
  then show ?thesis using untouched(1) [OF assms(2), of st'] untouched(2) [OF assms(2), of st' c] assms(3) by (auto simp: postDigest_def)
next
  case (handled p n)
  then show ?thesis using untouched(1) [OF assms(2), of st'] untouched(2) [OF assms(2), of st' c] assms(3) by auto
qed

lemma touches_keep:
  assumes "touches c st st'" "watch_inv st t" "c \<in> set_tree t"
  shows "\<exists>t'. watch_inv st' t' \<and> c \<in> set_tree t' \<and> keeps c st st'"
  using assms
proof (induction rule: rtranclp_induct)
  case base
  then show ?case using keeps_refl by blast
next
  case (step st1 st2)
  then obtain t1 where "watch_inv st1 t1" "c \<in> set_tree t1" "keeps c st st1" by blast
  with touch_keeps [OF step(2)] show ?case using keeps_trans by blast
qed

text \<open>Seen from \<open>c\<close>, a scope above it stays above it.\<close>

lemma keeps_above:
  assumes "keeps c st st'" "watch_inv st t" "c \<in> set_tree t" "watch_inv st' t'" "c \<in> set_tree t'"
    and "target \<in> set_tree t" "c \<in> set (scopes_from target t)"
  shows "target \<in> set_tree t'" "c \<in> set (scopes_from target t')"
proof -
  have "target \<in> set (ancestors (rs_scopes st') c)"
    using ancestors_tree [OF watch_inv_tree [OF assms(2)] assms(3)] assms(1,6,7) by (simp add: keeps_def)
  then show "target \<in> set_tree t'" "c \<in> set (scopes_from target t')"
    using ancestors_tree [OF watch_inv_tree [OF assms(4)] assms(5)] by simp_all
qed

section \<open>Clean watchers\<close>

text \<open>A watcher is clean when a check would find no change.\<close>

definition clean :: "('w, 'v) app \<Rightarrow> ('w, 'v) root \<Rightarrow> nat \<times> nat \<Rightarrow> bool" where
  "clean app st p =
     (case ap_get app (wa_get (rs_watch st (snd p))) (fst p) (rs_world st) of
        None \<Rightarrow> True | Some v \<Rightarrow> \<not> is_dirty app (rs_watch st (snd p)) v)"

text \<open>The watchers that a traversal has seen and those that are to come, at index \<open>i\<close> of the array of scope \<open>c\<close>.\<close>

definition seen :: "('w, 'v) root \<Rightarrow> nat list \<Rightarrow> nat \<Rightarrow> nat \<Rightarrow> (nat \<times> nat) list" where
  "seen st ss c i = order st (takeWhile (\<lambda>x. x \<noteq> c) ss) @ map (Pair c) (rev (drop i (arr st c)))"

definition unseen :: "('w, 'v) root \<Rightarrow> nat list \<Rightarrow> nat \<Rightarrow> nat \<Rightarrow> (nat \<times> nat) list" where
  "unseen st ss c i = map (Pair c) (rev (take i (arr st c))) @ order st (tl (dropWhile (\<lambda>x. x \<noteq> c) ss))"

text \<open>
  What the last dirty watcher says at the start of a traversal: those after it are clean. During a traversal: as
  long as nothing is dirty, those seen are clean, and those after the last dirty watcher still; otherwise those
  seen after it.
\<close>

definition start_inv :: "('w, 'v) app \<Rightarrow> ('w, 'v) root \<Rightarrow> (nat \<times> nat) list \<Rightarrow> bool" where
  "start_inv app st ps \<longleftrightarrow> (\<forall>xs s j ys. rs_lastDirtyWatch st = Some j \<longrightarrow> ps = xs @ (s, j) # ys \<longrightarrow> (\<forall>p \<in> set ys. clean app st p))"

definition mid_inv :: "('w, 'v) app \<Rightarrow> ('w, 'v) root \<Rightarrow> (nat \<times> nat) list \<Rightarrow> (nat \<times> nat) list \<Rightarrow> bool \<Rightarrow> bool" where
  "mid_inv app st V R dirty \<longleftrightarrow>
     (if dirty then start_inv app st V \<and> (\<forall>j. rs_lastDirtyWatch st = Some j \<longrightarrow> j \<notin> snd ` set R)
      else (\<forall>p \<in> set V. clean app st p) \<and> start_inv app st (V @ R))"

lemma seen_unseen:
  assumes "c \<in> set ss"
  shows "seen st ss c i @ unseen st ss c i = order st ss"
proof -
  have "ss = takeWhile (\<lambda>x. x \<noteq> c) ss @ c # tl (dropWhile (\<lambda>x. x \<noteq> c) ss)"
    using assms by (metis (mono_tags, lifting) dropWhile_eq_Nil_conv hd_Cons_tl hd_dropWhile takeWhile_dropWhile_id)
  then have "order st ss = order st (takeWhile (\<lambda>x. x \<noteq> c) ss) @ map (Pair c) (rev (arr st c)) @ order st (tl (dropWhile (\<lambda>x. x \<noteq> c) ss))"
    by (metis (no_types, lifting) concat.simps(2) concat_append list.simps(9) map_append order_def)
  moreover have "rev (arr st c) = rev (drop i (arr st c)) @ rev (take i (arr st c))" by (metis append_take_drop_id rev_append)
  ultimately show ?thesis by (simp add: seen_def unseen_def)
qed

lemma order_distinct:
  assumes "watch_inv st t" "distinct ss" "set ss \<subseteq> set_tree t"
  shows "distinct (map snd (order st ss))"
  using assms(2,3)
proof (induction ss)
  case (Cons s ss)
  have "distinct (arr st s)" using assms(1) Cons.prems(2) by (simp add: watch_inv_def)
  moreover have "w \<notin> set (map snd (order st ss))" if "w \<in> set (arr st s)" for w
  proof
    assume "w \<in> set (map snd (order st ss))"
    then obtain s' where s': "s' \<in> set ss" "w \<in> set (arr st s')" by (auto simp: order_def)
    then have "s = s'" using assms(1) Cons.prems(2) that unfolding watch_inv_def by (metis list.set_intros subsetD)
    with s' Cons.prems(1) show False by simp
  qed
  ultimately show ?case using Cons by (auto simp: order_def o_def)
qed (simp add: order_def)

lemma seen_step:
  assumes "i < length (arr st c)"
  shows "seen st ss c i = seen st ss c (Suc i) @ [(c, arr st c ! i)]" "unseen st ss c (Suc i) = (c, arr st c ! i) # unseen st ss c i"
  using assms by (simp_all add: seen_def unseen_def Cons_nth_drop_Suc [symmetric] take_Suc_conv_app_nth)

lemma seen_past:
  assumes "length (arr st c) \<le> i"
  shows "seen st ss c (Suc i) = seen st ss c i" "unseen st ss c (Suc i) = unseen st ss c i"
  using assms by (simp_all add: seen_def unseen_def)

lemma mid_clean:
  assumes "mid_inv app st V (p # R) dirty" "clean app st p"
  shows "mid_inv app st (V @ [p]) R dirty"
proof (cases dirty)
  case True
  have "\<forall>q \<in> set ys. clean app st q" if j: "rs_lastDirtyWatch st = Some j" and v: "V @ [p] = xs @ (s, j) # ys" for xs s j ys
  proof -
    have "snd p \<noteq> j" using assms(1) True j by (auto simp: mid_inv_def)
    then obtain zs where ys: "ys = zs @ [p]" "V = xs @ (s, j) # zs" using v by (cases ys rule: rev_cases) auto
    have "start_inv app st V" using assms(1) True by (simp add: mid_inv_def)
    then have "\<forall>q \<in> set zs. clean app st q" using j ys(2) unfolding start_inv_def by blast
    then show ?thesis using ys(1) assms(2) by simp
  qed
  then have "start_inv app st (V @ [p])" by (simp add: start_inv_def)
  with assms(1) True show ?thesis by (simp add: mid_inv_def)
qed (use assms in \<open>simp add: mid_inv_def\<close>)

lemma mid_cong:
  assumes "rs_lastDirtyWatch st' = rs_lastDirtyWatch st" "rs_watch st' = rs_watch st" "rs_world st' = rs_world st"
  shows "mid_inv app st' V R dirty = mid_inv app st V R dirty"
proof -
  have "clean app st' = clean app st" unfolding clean_def assms by (rule refl)
  then show ?thesis by (simp add: mid_inv_def start_inv_def assms)
qed

lemma tree_scopes:
  assumes "watch_inv st t" "target \<in> set_tree t"
  shows "distinct (scopes_from target t)" "set (scopes_from target t) \<subseteq> set_tree t"
proof -
  have "distinct (preorder t)" using watch_inv_tree [OF assms(1)] by (simp add: scope_tree_def)
  from kids_distinct [OF assms(2) this] show "distinct (scopes_from target t)" by (simp add: scopes_from_def)
  show "set (scopes_from target t) \<subseteq> set_tree t" using assms(2) kids_subset [of target t] by (simp add: scopes_from_def)
qed

lemma start_fresh: "rs_lastDirtyWatch st = Some w \<Longrightarrow> w \<notin> snd ` set V \<Longrightarrow> start_inv app st (V @ [(c, w)])"
  unfolding start_inv_def
proof (intro allI impI)
  fix xs s j ys assume a: "rs_lastDirtyWatch st = Some w" "w \<notin> snd ` set V" "rs_lastDirtyWatch st = Some j" "V @ [(c, w)] = xs @ (s, j) # ys"
  then have "ys = []" by (cases ys rule: rev_cases) force+
  then show "\<forall>p \<in> set ys. clean app st p" by simp
qed

text \<open>After the call of a listener, with the watcher at its place or removed, nothing is claimed of the others.\<close>

lemma mid_dirty:
  assumes "watch_inv st t" "target \<in> set_tree t" "c \<in> set (scopes_from target t)"
    and "rs_lastDirtyWatch st = None \<or> rs_lastDirtyWatch st = Some w \<and>
      (w \<notin> snd ` set (order st (scopes_from target t)) \<or> i < length (arr st c) \<and> arr st c ! i = w)"
  shows "mid_inv app st (seen st (scopes_from target t) c i) (unseen st (scopes_from target t) c i) True"
proof -
  let ?ss = "scopes_from target t"
  note split = seen_unseen [OF assms(3), of st i]
  consider (none) "rs_lastDirtyWatch st = None" | (gone) "rs_lastDirtyWatch st = Some w" "w \<notin> snd ` set (order st ?ss)"
    | (there) "rs_lastDirtyWatch st = Some w" "i < length (arr st c)" "arr st c ! i = w" using assms(4) by argo
  then show ?thesis
  proof cases
    case none
    then show ?thesis by (simp add: mid_inv_def start_inv_def)
  next
    case gone
    then have "w \<notin> snd ` set (seen st ?ss c i)" "w \<notin> snd ` set (unseen st ?ss c i)" unfolding split [symmetric] by auto
    then show ?thesis using gone(1) by (force simp: mid_inv_def start_inv_def)
  next
    case there
    have "distinct (map snd (seen st ?ss c (Suc i) @ [(c, w)] @ unseen st ?ss c i))"
      using order_distinct [OF assms(1) tree_scopes [OF assms(1,2)]] split seen_step(1) [OF there(2)] there(3) by (metis append.assoc)
    then have "w \<notin> snd ` set (seen st ?ss c (Suc i))" "w \<notin> snd ` set (unseen st ?ss c i)" by auto
    then show ?thesis using there start_fresh [of st w "seen st ?ss c (Suc i)" app c] seen_step(1) [OF there(2)]
      by (simp add: mid_inv_def)
  qed
qed

section \<open>One watcher\<close>

text \<open>The application keeps to the operations; expressions do not destroy the target of the digest or an ancestor.\<close>

definition behaved :: "('w, 'v) app \<Rightarrow> nat \<Rightarrow> bool" where
  "behaved app target \<longleftrightarrow>
     (\<forall>f v l c st t. watch_inv st t \<longrightarrow> c \<in> set_tree t \<longrightarrow> touches c st (fst (ap_fn app f v l c st))) \<and>
     (\<forall>e s st t. watch_inv st t \<longrightarrow> target \<in> set_tree t \<longrightarrow> touches target st (fst (ap_expr app e s st)))"

definition at_watch :: "('w, 'v) app \<Rightarrow> nat \<Rightarrow> nat \<Rightarrow> nat \<Rightarrow> nat \<Rightarrow> ('w, 'v) root \<Rightarrow> bool \<Rightarrow> bool" where
  "at_watch app target c a i st dirty \<longleftrightarrow>
     (\<exists>t. watch_inv st t \<and> target \<in> set_tree t \<and> c \<in> set (scopes_from target t) \<and> sc_watchers (rs_scopes st c) = Some a \<and>
        mid_inv app st (seen st (scopes_from target t) c i) (unseen st (scopes_from target t) c i) dirty)"

definition all_clean :: "('w, 'v) app \<Rightarrow> nat \<Rightarrow> ('w, 'v) root \<Rightarrow> bool" where
  "all_clean app target st \<longleftrightarrow>
     (\<exists>t. watch_inv st t \<and> target \<in> set_tree t \<and> (\<forall>p \<in> set (order st (scopes_from target t)). clean app st p))"

lemma caught_sel [simp]:
  "rs_scopes (exceptionHandler b (clearPhase st)) = rs_scopes st" "rs_nextScope (exceptionHandler b (clearPhase st)) = rs_nextScope st"
  "rs_arrays (exceptionHandler b (clearPhase st)) = rs_arrays st" "rs_nextArray (exceptionHandler b (clearPhase st)) = rs_nextArray st"
  "rs_watch (exceptionHandler b (clearPhase st)) = rs_watch st" "rs_nextWatch (exceptionHandler b (clearPhase st)) = rs_nextWatch st"
  "rs_lastDirtyWatch (exceptionHandler b (clearPhase st)) = rs_lastDirtyWatch st" "rs_world (exceptionHandler b (clearPhase st)) = rs_world st"
  "rs_asyncQueue (exceptionHandler b (clearPhase st)) = rs_asyncQueue st"
  by (simp_all add: exceptionHandler_def clearPhase_def)

lemma caught_arr [simp]: "arr (exceptionHandler b (clearPhase st)) = arr st"
  unfolding arr_def [abs_def] caught_sel by (rule refl)

lemma arr_remove: "set (arr (arrayRemove a w st) s) \<subseteq> set (arr st s)"
  by (auto simp: arr_def arrayRemove_def dest: set_mp [OF set_remove1_subset] split: option.splits)

lemma caught_seen [simp]:
  "seen (exceptionHandler b (clearPhase st)) = seen st" "unseen (exceptionHandler b (clearPhase st)) = unseen st"
  by (simp_all add: seen_def unseen_def order_def fun_eq_iff)

lemma caught_inv: "watch_inv st t \<Longrightarrow> watch_inv (exceptionHandler b (clearPhase st)) t"
  by (rule untouched(1)) simp_all

text \<open>The state in which a listener of the watcher \<open>w\<close> is called, and what it leaves.\<close>

lemma dirty_step:
  assumes "behaved app target" "watch_inv st t" "target \<in> set_tree t" "c \<in> set (scopes_from target t)"
    and "sc_watchers (rs_scopes st c) = Some a" "i < length (rs_arrays st a)" "rs_arrays st a ! i = w"
  shows "at_watch app target c a i (call_listener app c w v st) True"
proof -
  let ?wa = "rs_watch st w"
  define st1 where "st1 = st\<lparr>rs_lastDirtyWatch := Some w,
    rs_watch := (rs_watch st)(w := ?wa\<lparr>wa_last := Some (if wa_eq ?wa then ap_copy app v else v)\<rparr>)\<rparr>"
  obtain st2 thrown where fn: "ap_fn app (wa_fn ?wa) v (case wa_last ?wa of None \<Rightarrow> v | Some l \<Rightarrow> l) c st1 = (st2, thrown)" by fastforce
  define st3 where "st3 = (if thrown then exceptionHandler True (clearPhase st2)
    else case wa_constant ?wa of None \<Rightarrow> st2 | Some b \<Rightarrow> arrayRemove b w st2)"
  have st3: "call_listener app c w v st = st3" by (simp add: call_listener_def st3_def Let_def st1_def [symmetric] fn)
  have ct: "c \<in> set_tree t" using assms(4) tree_scopes(2) [OF assms(2,3)] by blast
  have "scope_tree st1 t" using watch_inv_tree [OF assms(2)] by (simp add: scope_tree_def st1_def)
  then have inv1: "watch_inv st1 t" by (rule watch_inv_cong [OF assms(2)]) (simp_all add: st1_def)
  have "touches c st1 st2" using assms(1) fn inv1 ct unfolding behaved_def by (metis fst_conv)
  from touches_keep [OF this inv1 ct] obtain t2 where t2: "watch_inv st2 t2" "c \<in> set_tree t2" "keeps c st1 st2" by blast
  note up = keeps_above [OF t2(3) inv1 ct t2(1,2) assms(3,4)]
  have a2: "sc_watchers (rs_scopes st2 c) = Some a" using t2(3) assms(5) by (simp add: keeps_def st1_def)
  have ld2: "rs_lastDirtyWatch st2 = None \<or> rs_lastDirtyWatch st2 = Some w \<and> rs_arrays st2 a = rs_arrays st a"
    using t2(3) assms(5) by (auto simp: keeps_def st1_def)
  have inv3: "watch_inv st3 t2" using t2(1) caught_inv touch_remove by (auto simp: st3_def split: option.split)
  have sel3: "rs_scopes st3 = rs_scopes st2" "rs_lastDirtyWatch st3 = rs_lastDirtyWatch st2"
    by (auto simp: st3_def arrayRemove_def split: option.split)
  have "w \<notin> snd ` set (order st3 (scopes_from target t2)) \<or> i < length (arr st3 c) \<and> arr st3 c ! i = w"
    if ld: "rs_lastDirtyWatch st3 = Some w"
  proof (cases "\<not> thrown \<and> wa_constant ?wa = Some a")
    case True
    then have r: "st3 = arrayRemove a w st2" by (simp add: st3_def)
    have arr2: "arr st2 c = rs_arrays st a" using ld ld2 sel3 a2 by (simp add: arr_def)
    then have w2: "w \<in> set (arr st2 c)" "distinct (arr st2 c)" using assms(6,7) nth_mem t2(1,2) by (auto simp: watch_inv_def)
    have "w \<notin> set (arr st3 s)" if s: "s \<in> set_tree t2" for s
    proof (cases "s = c")
      case True
      then show ?thesis using w2(2) a2 by (simp add: arr_def r arrayRemove_def)
    next
      case False
      then have "w \<notin> set (arr st2 s)" using t2(1,2) w2(1) s unfolding watch_inv_def by blast
      then show ?thesis using arr_remove [of a w st2 s] r by blast
    qed
    then have "w \<notin> snd ` set (order st3 (scopes_from target t2))" using tree_scopes(2) [OF t2(1) up(1)] by (auto simp: order_def)
    then show ?thesis ..
  next
    case False
    then have "arr st3 c = arr st2 c" using a2 by (auto simp: st3_def arr_def arrayRemove_def split: option.split)
    then show ?thesis using ld ld2 sel3 a2 assms(6,7) by (simp add: arr_def)
  qed
  then have "mid_inv app st3 (seen st3 (scopes_from target t2) c i) (unseen st3 (scopes_from target t2) c i) True"
    using ld2 sel3(2) by (intro mid_dirty [OF inv3 up]) auto
  then show ?thesis unfolding st3 at_watch_def using inv3 up a2 sel3(1) by auto
qed

lemma check_step:
  assumes "behaved app target" "at_watch app target c a (Suc i) st dirty" "check_watch app c a i st dirty = (st', dirty', stop)"
  shows "if stop then \<not> dirty' \<and> all_clean app target st' else at_watch app target c a i st' dirty'"
proof -
  obtain t where t: "watch_inv st t" "target \<in> set_tree t" "c \<in> set (scopes_from target t)" "sc_watchers (rs_scopes st c) = Some a"
    "mid_inv app st (seen st (scopes_from target t) c (Suc i)) (unseen st (scopes_from target t) c (Suc i)) dirty"
    using assms(2) unfolding at_watch_def by blast
  let ?ss = "scopes_from target t"
  have arr: "arr st c = rs_arrays st a" by (simp add: arr_def t(4))
  show ?thesis
  proof (cases "i < length (rs_arrays st a)")
    case False
    with assms(3) have "st' = st" "dirty' = dirty" "\<not> stop" by (simp_all add: check_watch_def)
    moreover have "at_watch app target c a i st dirty" unfolding at_watch_def
      using t seen_past [of st c i ?ss] arr False by (intro exI [of _ t]) simp
    ultimately show ?thesis by simp
  next
    case True
    define w where "w = rs_arrays st a ! i"
    note step = seen_step [of i st c ?ss, unfolded arr, folded w_def, OF True]
    have mid: "mid_inv app st (seen st ?ss c (Suc i)) ((c, w) # unseen st ?ss c i) dirty" using t(5) step(2) by simp
    have next_mid: "clean app st (c, w) \<Longrightarrow> mid_inv app st (seen st ?ss c i) (unseen st ?ss c i) dirty"
      using mid_clean [OF mid] step(1) by simp
    show ?thesis
    proof (cases "ap_get app (wa_get (rs_watch st w)) c (rs_world st)")
      case None
      then have "clean app st (c, w)" by (simp add: clean_def)
      from next_mid [OF this] have "mid_inv app (exceptionHandler True (clearPhase st)) (seen st ?ss c i) (unseen st ?ss c i) dirty"
        by (subst mid_cong) simp_all
      then have "at_watch app target c a i (exceptionHandler True (clearPhase st)) dirty"
        unfolding at_watch_def using t(2,3,4) caught_inv [OF t(1)] by (intro exI [of _ t]) simp
      with assms(3) None True show ?thesis by (auto simp: check_watch_def w_def)
    next
      case (Some v)
      show ?thesis
      proof (cases "is_dirty app (rs_watch st w) v")
        case dirty: True
        have "at_watch app target c a i (call_listener app c w v st) True"
          by (rule dirty_step [OF assms(1) t(1-4) True]) (simp add: w_def)
        with assms(3) Some True dirty show ?thesis by (auto simp: check_watch_def w_def)
      next
        case False
        with Some have cw: "clean app st (c, w)" by (simp add: clean_def)
        show ?thesis
        proof (cases "rs_lastDirtyWatch st = Some w")
          case ld: True
          have res: "st' = st" "\<not> dirty'" "stop" using assms(3) Some True False ld by (simp_all add: check_watch_def w_def)
          have "\<not> dirty" using mid ld by (auto simp: mid_inv_def)
          then have "\<forall>p \<in> set (seen st ?ss c (Suc i)). clean app st p"
            and "start_inv app st (seen st ?ss c (Suc i) @ (c, w) # unseen st ?ss c i)" using mid by (simp_all add: mid_inv_def)
          moreover from this(2) have "\<forall>p \<in> set (unseen st ?ss c i). clean app st p" using ld unfolding start_inv_def by blast
          moreover have "order st ?ss = seen st ?ss c (Suc i) @ (c, w) # unseen st ?ss c i"
            using seen_unseen [OF t(3), of st "Suc i"] step(2) by simp
          ultimately have "\<forall>p \<in> set (order st ?ss). clean app st p" using cw by auto
          then show ?thesis using res t(1,2) unfolding all_clean_def by auto
        next
          case ld: False
          have "at_watch app target c a i st dirty" unfolding at_watch_def
            using t(1-4) next_mid [OF cw] by (intro exI [of _ t]) simp
          with assms(3) Some True False ld show ?thesis by (auto simp: check_watch_def w_def)
        qed
      qed
    qed
  qed
qed

section \<open>The traversal\<close>

lemma watch_loop_inv:
  assumes "behaved app target" "at_watch app target c a i st dirty" "watch_loop app c a i st dirty = (st', dirty', stop)"
  shows "if stop then \<not> dirty' \<and> all_clean app target st' else at_watch app target c a 0 st' dirty'"
  using assms(2,3)
proof (induction i arbitrary: st dirty)
  case (Suc i)
  obtain st1 dirty1 stop1 where c: "check_watch app c a i st dirty = (st1, dirty1, stop1)" by (metis prod_cases3)
  with check_step [OF assms(1) Suc.prems(1) c] Suc show ?case by (cases stop1) auto
qed simp

text \<open>Before the watchers of a scope and after them.\<close>

definition at_scope :: "('w, 'v) app \<Rightarrow> nat \<Rightarrow> nat \<Rightarrow> bool \<Rightarrow> ('w, 'v) root \<Rightarrow> bool \<Rightarrow> bool" where
  "at_scope app target c before st dirty \<longleftrightarrow>
     (\<exists>t. watch_inv st t \<and> target \<in> set_tree t \<and> c \<in> set (scopes_from target t) \<and>
        (let i = (if before then length (arr st c) else 0)
         in mid_inv app st (seen st (scopes_from target t) c i) (unseen st (scopes_from target t) c i) dirty))"

definition at_end :: "('w, 'v) app \<Rightarrow> nat \<Rightarrow> ('w, 'v) root \<Rightarrow> bool \<Rightarrow> bool" where
  "at_end app target st dirty \<longleftrightarrow>
     (if dirty then (\<exists>t. watch_inv st t \<and> target \<in> set_tree t \<and> start_inv app st (order st (scopes_from target t)))
      else all_clean app target st)"

lemma check_scope_inv:
  assumes "behaved app target" "at_scope app target c True st dirty" "check_scope app c st dirty = (st', dirty', stop)"
  shows "if stop then at_end app target st' dirty' else at_scope app target c False st' dirty'"
proof (cases "sc_watchers (rs_scopes st c)")
  case None
  with assms(2,3) show ?thesis by (auto simp: check_scope_def at_scope_def arr_def)
next
  case (Some a)
  with assms(2) have "at_watch app target c a (length (rs_arrays st a)) st dirty"
    by (auto simp: at_scope_def at_watch_def arr_def Let_def)
  from watch_loop_inv [OF assms(1) this] Some assms(3)
  have "if stop then \<not> dirty' \<and> all_clean app target st' else at_watch app target c a 0 st' dirty'" by (simp add: check_scope_def)
  then show ?thesis by (auto simp: at_end_def at_scope_def at_watch_def)
qed

lemma split_at:
  assumes "distinct (us @ c # vs)"
  shows "takeWhile (\<lambda>x. x \<noteq> c) (us @ c # vs) = us" "tl (dropWhile (\<lambda>x. x \<noteq> c) (us @ c # vs)) = vs"
  using assms by (induction us) auto

lemma walk_inv:
  assumes "at_scope app target c False st dirty"
  shows "walk (rs_scopes st) target c = Inr None \<Longrightarrow> at_end app target st dirty"
    and "walk (rs_scopes st) target c = Inr (Some n) \<Longrightarrow> at_scope app target n True st dirty"
proof -
  obtain t where t: "watch_inv st t" "target \<in> set_tree t" "c \<in> set (scopes_from target t)"
    "mid_inv app st (seen st (scopes_from target t) c 0) (unseen st (scopes_from target t) c 0) dirty"
    using assms by (auto simp: at_scope_def)
  obtain us vs where ss: "scopes_from target t = us @ c # vs" using t(3) by (meson split_list)
  note d = tree_scopes(1) [OF t(1,2), unfolded ss]
  note walk = walk_scopes_from [of "rs_scopes st" None None t target us c vs]
  have w: "walk (rs_scopes st) target c = Inr (case vs of [] \<Rightarrow> None | y # _ \<Rightarrow> Some y)"
    using walk t(1,2) ss by (simp add: watch_inv_def scope_tree_def)
  have V: "seen st (scopes_from target t) c 0 = order st (us @ [c])" and R: "unseen st (scopes_from target t) c 0 = order st vs"
    using split_at [OF d] by (simp_all add: seen_def unseen_def ss order_def)
  show "at_end app target st dirty" if "walk (rs_scopes st) target c = Inr None"
  proof -
    have "vs = []" using that w by (auto split: list.splits)
    with t(4) V R ss have "mid_inv app st (order st (scopes_from target t)) [] dirty" by (simp add: order_def)
    with t(1,2) show ?thesis by (cases dirty) (auto simp: at_end_def all_clean_def mid_inv_def)
  qed
  show "at_scope app target n True st dirty" if n: "walk (rs_scopes st) target c = Inr (Some n)"
  proof -
    obtain ws where vs: "vs = n # ws" using n [unfolded w] by (cases vs) auto
    have "distinct ((us @ [c]) @ n # ws)" using d vs by simp
    from split_at [OF this] have "seen st (scopes_from target t) n (length (arr st n)) = order st (us @ [c])"
      "unseen st (scopes_from target t) n (length (arr st n)) = order st vs"
      by (simp_all add: seen_def unseen_def ss vs order_def)
    with t V R ss vs show ?thesis unfolding at_scope_def by (intro exI [of _ t]) simp
  qed
qed

lemma traverse_inv:
  assumes "traverse app target c st dirty = Some (st', Inr dirty')" "behaved app target" "at_scope app target c True st dirty"
  shows "at_end app target st' dirty'"
proof -
  have "behaved app target \<longrightarrow> at_scope app target c True st dirty \<longrightarrow> (\<forall>d. snd (st', Inr dirty' :: bool result) = Inr d \<longrightarrow> at_end app target (fst (st', Inr dirty' :: bool result)) d)"
  proof (rule traverse.raw_induct [where P = "\<lambda>app target c st dirty r. behaved app target \<longrightarrow> at_scope app target c True st dirty \<longrightarrow>
      (\<forall>d. snd r = Inr d \<longrightarrow> at_end app target (fst r) d)", OF _ assms(1)], intro impI allI)
    fix f app target c st dirty r d
    assume ih: "\<And>app target c st dirty r. f app target c st dirty = Some r \<Longrightarrow> behaved app target \<longrightarrow>
        at_scope app target c True st dirty \<longrightarrow> (\<forall>d. snd r = Inr d \<longrightarrow> at_end app target (fst r) d)"
      and step: "(case check_scope app c st dirty of (st, dirty, stop) \<Rightarrow> if stop then Some (st, Inr dirty)
        else case walk (rs_scopes st) target c of Inl e \<Rightarrow> Some (st, Inl e) | Inr None \<Rightarrow> Some (st, Inr dirty)
          | Inr (Some n) \<Rightarrow> f app target n st dirty) = Some r"
      and b: "behaved app target" and at: "at_scope app target c True st dirty" and r: "snd r = Inr d"
    obtain st1 dirty1 stop where c: "check_scope app c st dirty = (st1, dirty1, stop)" by (metis prod_cases3)
    note inv = check_scope_inv [OF b at c]
    show "at_end app target (fst r) d"
    proof (cases stop)
      case True
      with inv step c r show ?thesis by auto
    next
      case False
      with inv have i: "at_scope app target c False st1 dirty1" by simp
      show ?thesis
      proof (cases "walk (rs_scopes st1) target c")
        case (Inl e)
        with step c False r show ?thesis by auto
      next
        case (Inr o1)
        show ?thesis
        proof (cases o1)
          case None
          with Inr step c False r walk_inv(1) [OF i] show ?thesis by auto
        next
          case (Some n)
          with Inr step c False have "f app target n st1 dirty1 = Some r" by simp
          from ih [OF this] b r walk_inv(2) [OF i, of n] Inr Some show ?thesis by auto
        qed
      qed
    qed
  qed
  with assms(2,3) show ?thesis by simp
qed

section \<open>The digest\<close>

definition ready :: "('w, 'v) app \<Rightarrow> nat \<Rightarrow> ('w, 'v) root \<Rightarrow> bool" where
  "ready app target st \<longleftrightarrow> (\<exists>t. watch_inv st t \<and> target \<in> set_tree t \<and> start_inv app st (order st (scopes_from target t)))"

lemma at_end_ready: "at_end app target st dirty \<Longrightarrow> ready app target st"
  unfolding at_end_def ready_def all_clean_def start_inv_def by (auto split: if_splits)

lemma ready_at_scope: "ready app target st \<Longrightarrow> at_scope app target target True st False"
proof -
  assume "ready app target st"
  then obtain t where t: "watch_inv st t" "target \<in> set_tree t" "start_inv app st (order st (scopes_from target t))"
    unfolding ready_def by blast
  have "seen st (scopes_from target t) target (length (arr st target)) = []"
    by (simp add: seen_def scopes_from_def order_def)
  moreover from this have "unseen st (scopes_from target t) target (length (arr st target)) = order st (scopes_from target t)"
    using seen_unseen [of target "scopes_from target t" st "length (arr st target)"] by (simp add: scopes_from_def)
  moreover have "target \<in> set (scopes_from target t)" by (simp add: scopes_from_def)
  ultimately show ?thesis using t unfolding at_scope_def by (intro exI [of _ t]) (simp add: mid_inv_def)
qed

lemma run_task_ready:
  assumes "behaved app target" "watch_inv st t" "target \<in> set_tree t"
  shows "ready app target (run_task app task st)"
proof -
  obtain st1 thrown where e: "ap_expr app (snd task) (fst task) st = (st1, thrown)" by fastforce
  have "touches target st st1" using assms e unfolding behaved_def by (metis fst_conv)
  from touches_keep [OF this assms(2,3)] obtain t1 where t1: "watch_inv st1 t1" "target \<in> set_tree t1" by blast
  let ?st = "if thrown then exceptionHandler True (clearPhase st1) else st1"
  have inv: "watch_inv ?st t1" using t1(1) by (simp add: caught_inv)
  have "watch_inv (?st\<lparr>rs_lastDirtyWatch := None\<rparr>) t1"
    by (rule watch_inv_cong [OF inv]) (use watch_inv_tree [OF inv] in \<open>simp_all add: scope_tree_def\<close>)
  then show ?thesis using t1(2) by (auto simp: ready_def run_task_def e start_inv_def)
qed

lemma drain_ready:
  assumes "drain app st = Some st'" "behaved app target" "ready app target st"
  shows "ready app target st' \<and> rs_asyncQueue st' = []"
proof -
  have "behaved app target \<longrightarrow> ready app target st \<longrightarrow> ready app target st' \<and> rs_asyncQueue st' = []"
  proof (rule drain.raw_induct [where P = "\<lambda>app st r. behaved app target \<longrightarrow> ready app target st \<longrightarrow> ready app target r \<and> rs_asyncQueue r = []",
      OF _ assms(1)], intro impI)
    fix f app st r
    assume ih: "\<And>app st r. f app st = Some r \<Longrightarrow> behaved app target \<longrightarrow> ready app target st \<longrightarrow> ready app target r \<and> rs_asyncQueue r = []"
      and step: "(case rs_asyncQueue st of [] \<Rightarrow> Some st | task # q \<Rightarrow> f app (run_task app task (st\<lparr>rs_asyncQueue := q\<rparr>))) = Some r"
      and b: "behaved app target" and rd: "ready app target st"
    show "ready app target r \<and> rs_asyncQueue r = []"
    proof (cases "rs_asyncQueue st")
      case Nil
      with step rd show ?thesis by simp
    next
      case (Cons task q)
      then have "f app (run_task app task (st\<lparr>rs_asyncQueue := q\<rparr>)) = Some r" using step by simp
      moreover obtain t where t: "watch_inv st t" "target \<in> set_tree t" using rd unfolding ready_def by blast
      have "watch_inv (st\<lparr>rs_asyncQueue := q\<rparr>) t" by (rule untouched(1) [OF t(1)]) simp_all
      from run_task_ready [OF b this t(2)] have "ready app target (run_task app task (st\<lparr>rs_asyncQueue := q\<rparr>))" .
      ultimately show ?thesis using ih b by blast
    qed
  qed
  with assms(2,3) show ?thesis by simp
qed

lemma digest_loop_round:
  assumes "digest_loop app target ttl st = Some (st', Inr ())"
  obtains st1 st2 dirty where "drain app st = Some st1" "traverse app target target st1 False = Some (st2, Inr dirty)"
    "if dirty \<or> rs_asyncQueue st2 \<noteq> [] then \<exists>n. ttl = Suc n \<and> digest_loop app target n st2 = Some (st', Inr ()) else st' = st2"
  using assms by (subst (asm) digest_loop.simps) (auto split: option.splits sum.splits if_splits nat.splits)

lemma digest_loop_clean:
  assumes "digest_loop app target ttl st = Some (st', Inr ())" "behaved app target" "ready app target st"
  shows "all_clean app target st' \<and> rs_asyncQueue st' = []"
  using assms(1,3)
proof (induction ttl arbitrary: st rule: less_induct)
  case (less ttl)
  obtain st1 st2 dirty where r: "drain app st = Some st1" "traverse app target target st1 False = Some (st2, Inr dirty)"
    "if dirty \<or> rs_asyncQueue st2 \<noteq> [] then \<exists>n. ttl = Suc n \<and> digest_loop app target n st2 = Some (st', Inr ()) else st' = st2"
    using digest_loop_round [OF less.prems(1)] .
  have "ready app target st1" using drain_ready [OF r(1) assms(2) less.prems(2)] by simp
  from traverse_inv [OF r(2) assms(2) ready_at_scope [OF this]] have e: "at_end app target st2 dirty" .
  show ?case
  proof (cases "dirty \<or> rs_asyncQueue st2 \<noteq> []")
    case True
    with r(3) obtain n where "ttl = Suc n" "digest_loop app target n st2 = Some (st', Inr ())" by auto
    then show ?thesis using less.IH [of n st2] at_end_ready [OF e] by simp
  next
    case False
    with r(3) e show ?thesis by (simp add: at_end_def)
  qed
qed

text \<open>
  C33. When the loop of \<open>$digest\<close> returns, nothing is left to do: every watcher of the target scope and of all scopes
  below it is clean, that is its watch function has the value that was remembered when its listener was last
  called (or throws), and no expression is scheduled. This holds although a traversal is cut short at the last
  watcher that was dirty, whatever listeners and expressions do with the operations of scopes meanwhile: create
  and destroy scopes (but not the one that is looked at or one above it), add and remove watchers, schedule.
\<close>

theorem digest_settles_clean:
  assumes "digest_rounds app ttl target st = Some (st', Inr ())" "behaved app target" "watch_inv st t" "target \<in> set_tree t"
  shows "\<exists>t'. watch_inv st' t' \<and> target \<in> set_tree t' \<and> (\<forall>p \<in> set (order st' (scopes_from target t')). clean app st' p) \<and>
    rs_asyncQueue st' = []"
proof -
  obtain st1 where st1: "beginPhase Digesting st = Inr st1" "digest_loop app target ttl (st1\<lparr>rs_lastDirtyWatch := None\<rparr>) = Some (st', Inr ())"
    using assms(1) by (auto simp: digest_rounds_def split: sum.splits)
  have "watch_inv (st1\<lparr>rs_lastDirtyWatch := None\<rparr>) t"
    by (rule watch_inv_cong [OF assms(3)])
      (use st1(1) watch_inv_tree [OF assms(3)] in \<open>auto simp: beginPhase_def scope_tree_def split: if_splits\<close>)
  then have "ready app target (st1\<lparr>rs_lastDirtyWatch := None\<rparr>)" using assms(4) by (auto simp: ready_def start_inv_def)
  from digest_loop_clean [OF st1(2) assms(2) this] show ?thesis by (auto simp: all_clean_def)
qed

end
