(* ===== verification/Angular_Progress.thy ===== *)
theory Angular_Progress
  imports Angular_Settle
begin

text \<open>
  Whether \<open>$digest\<close> returns, and what goes wrong: it does when listeners leave the tree of scopes alone and schedule nothing.
  A listener that destroys its own scope makes it throw and blocks all later digests; an expression that
  schedules itself keeps it running; \<open>$apply\<close> during a digest starts another one.
\<close>

section \<open>Termination\<close>


text \<open>What it keeps.\<close>

definition calm :: "nat tree \<Rightarrow> ('w, 'v) root \<Rightarrow> bool" where
  "calm t st \<longleftrightarrow> scope_tree st t \<and> rs_asyncQueue st = []"

lemma calm_cong:
  "rs_scopes st' = rs_scopes st \<Longrightarrow> rs_nextScope st' = rs_nextScope st \<Longrightarrow> rs_asyncQueue st' = rs_asyncQueue st \<Longrightarrow> calm t st' = calm t st"
  by (simp add: calm_def scope_tree_def)

lemma calm_caught [simp]: "calm t (exceptionHandler b (clearPhase st)) = calm t st" "calm t (arrayRemove a w st) = calm t st"
  by (rule calm_cong; simp add: arrayRemove_def)+








section \<open>Errors\<close>








lemma drain_forever:
  assumes "\<forall>st. rs_asyncQueue (fst (ap_expr app e s st)) = rs_asyncQueue st @ [(s, e)]" "rs_asyncQueue st = [(s, e)]"
  shows "drain app st = None"
proof (rule ccontr)
  assume "drain app st \<noteq> None"
  then obtain r where r: "drain app st = Some r" by blast
  have "(\<forall>st. rs_asyncQueue (fst (ap_expr app e s st)) = rs_asyncQueue st @ [(s, e)]) \<longrightarrow> rs_asyncQueue st \<noteq> [(s, e)]"
  proof (rule drain.raw_induct [where P = "\<lambda>app st r. (\<forall>st. rs_asyncQueue (fst (ap_expr app e s st)) = rs_asyncQueue st @ [(s, e)]) \<longrightarrow>
      rs_asyncQueue st \<noteq> [(s, e)]", OF _ r], rule impI, rule notI)
    fix f app st r
    assume ih: "\<And>app st r. f app st = Some r \<Longrightarrow>
        (\<forall>st. rs_asyncQueue (fst (ap_expr app e s st)) = rs_asyncQueue st @ [(s, e)]) \<longrightarrow> rs_asyncQueue st \<noteq> [(s, e)]"
      and step: "(case rs_asyncQueue st of [] \<Rightarrow> Some st | task # q \<Rightarrow> f app (run_task app task (st\<lparr>rs_asyncQueue := q\<rparr>))) = Some r"
      and a: "\<forall>st. rs_asyncQueue (fst (ap_expr app e s st)) = rs_asyncQueue st @ [(s, e)]" and q: "rs_asyncQueue st = [(s, e)]"
    let ?st = "run_task app (s, e) (st\<lparr>rs_asyncQueue := []\<rparr>)"
    obtain st1 thrown where x: "ap_expr app e s (st\<lparr>rs_asyncQueue := []\<rparr>) = (st1, thrown)" by fastforce
    have "rs_asyncQueue st1 = [(s, e)]" using a [rule_format, of "st\<lparr>rs_asyncQueue := []\<rparr>"] x by simp
    then have "rs_asyncQueue ?st = [(s, e)]" by (simp add: run_task_def x)
    moreover have "f app ?st = Some r" using step q by simp
    ultimately show False using ih a by blast
  qed
  with assms show False by blast
qed

text \<open>
  The TTL does not bound the scheduled expressions: one that schedules itself again with \<open>$evalAsync\<close> keeps
  \<open>$digest\<close> in the loop over the queue, which never ends, whatever the TTL is.
\<close>

theorem async_never_ends:
  assumes "\<forall>st. rs_asyncQueue (fst (ap_expr app e s st)) = rs_asyncQueue st @ [(s, e)]" "rs_asyncQueue st = [(s, e)]" "rs_phase st = None"
  shows "digest_rounds app ttl target st = None"
  using drain_forever [OF assms(1), of "st\<lparr>rs_phase := Some Digesting, rs_lastDirtyWatch := None\<rparr>"] assms(2,3)
  by (simp add: digest_rounds_def beginPhase_def digest_loop.simps)

text \<open>
  \<open>$apply\<close> while a digest is in progress is not refused: the error of \<open>beginPhase\<close> is caught, the expression is not
  evaluated, and since the phase is cleared on the way out, the digest of the root that follows runs inside the
  one in progress.
\<close>

theorem apply_in_progress:
  assumes "rs_phase st = Some phase" "\<not> is_noop (rs_scopes st) this"
    and "digest app ttl 0 (st\<lparr>rs_handled := Suc (rs_handled st), rs_phase := None\<rparr>) = Some (st', Inr ())"
  shows "apply_expr app ttl this expr st = Some (st', Inr ())"
  using assms by (simp add: apply_expr_def beginPhase_def clearPhase_def exceptionHandler_def)

section \<open>Examples\<close>

text \<open>
  A state of two numbers. The listener 0 sets the second number to the new value, 1 creates a child of the root,
  2 destroys the scope of its watcher; an expression schedules itself again, if 3 is allowed.
\<close>

definition demo_listener :: "nat \<Rightarrow> int \<Rightarrow> nat \<Rightarrow> (int \<times> int, int) root \<Rightarrow> (int \<times> int, int) root" where
  "demo_listener f v c st =
     (if f = 0 then st\<lparr>rs_world := (fst (rs_world st), v)\<rparr> else if f = 1 then fst (new_scope False 0 st)
      else if f = 2 then detach c st else st)"

definition demo_app :: "nat set \<Rightarrow> (int \<times> int, int) app" where
  "demo_app allowed =
     \<lparr>ap_get = (\<lambda>g c w. Some (if g = 0 then fst w else snd w)), ap_same = (\<lambda>eq. (=)), ap_copy = id,
      ap_fn = (\<lambda>f v l c st. (if f \<in> allowed then demo_listener f v c st else st, False)),
      ap_expr = (\<lambda>e s st. (if 3 \<in> allowed then st\<lparr>rs_asyncQueue := rs_asyncQueue st @ [(s, e)]\<rparr> else st, False)),
      ap_listener = (\<lambda>l ev st. (st, ev, False)), ap_post = (\<lambda>f st. (st, False))\<rparr>"

text \<open>A watcher of the root with listener 0 and one of its child with listener \<open>f\<close>.\<close>

definition demo_watched :: "nat \<Rightarrow> (int \<times> int, int) root" where
  "demo_watched f = fst (add_watch 1 1 f False False (fst (add_watch 0 0 0 False False (fst (new_scope False 0 (new_root (3, 1)))))))"

lemma demo_runs: "case digest_rounds (demo_app {0, 1}) 10 0 (demo_watched 1) of Some (st, Inr u) \<Rightarrow> True | _ \<Rightarrow> False"
  by code_simp

lemma demo_watched_unfold:
  "rs_scopes (demo_watched f) = (\<lambda>_. new_Scope)(0 := new_Scope\<lparr>sc_childHead := Some 1, sc_childTail := Some 1, sc_watchers := Some 0\<rparr>,
      1 := new_Scope\<lparr>sc_proto := Some 0, sc_parent := Some 0, sc_watchers := Some 1\<rparr>)"
  "rs_arrays (demo_watched f) = (\<lambda>_. [])(0 := [0], 1 := [1])" "rs_nextScope (demo_watched f) = 2" "rs_nextArray (demo_watched f) = 2"
  "rs_nextWatch (demo_watched f) = 2" "rs_phase (demo_watched f) = None" "rs_asyncQueue (demo_watched f) = []"
  "rs_world (demo_watched f) = (3, 1)" "rs_lastDirtyWatch (demo_watched f) = None"
  "rs_watch (demo_watched f) (Suc 0) = \<lparr>wa_fn = f, wa_last = None, wa_get = 1, wa_eq = False, wa_constant = None\<rparr>"
  by (simp_all add: demo_watched_def add_watch_def new_scope_def add_child_def new_root_def new_Scope_def upd_scope_def upd_ref_def
      is_noop_def inherits.simps fun_eq_iff)

abbreviation demo_pair :: "nat tree" where
  "demo_pair \<equiv> Node (Node Leaf 1 Leaf) 0 Leaf"

lemma demo_inv: "watch_inv (demo_watched f) demo_pair"
  by (auto simp: watch_inv_def scope_tree_def demo_watched_unfold arr_def new_Scope_def)

lemma demo_behaved: "behaved (demo_app {0, 1}) 0"
proof -
  have "touches c st (demo_listener f v c st)" if inv: "watch_inv st t" and f: "f = 0 \<or> f = 1" for f v c st t
  proof -
    have tree: "scope_tree st t" using inv by (rule watch_inv_tree)
    then have "0 \<in> set_tree t" using siblings_subset [of t] by (simp add: scope_tree_def)
    with tree f have "touch c st (demo_listener f v c st)" by (auto simp: demo_listener_def intro: touch.change touch.new)
    then show ?thesis by blast
  qed
  then show ?thesis unfolding behaved_def by (auto simp: demo_app_def)
qed

theorem digest_settles_clean_witness:
  "\<exists>st' t'. digest_rounds (demo_app {0, 1}) 10 0 (demo_watched 1) = Some (st', Inr ()) \<and> watch_inv st' t' \<and>
     list_all (clean (demo_app {0, 1}) st') (order st' (scopes_from 0 t'))"
proof -
  from demo_runs obtain st' r where d: "digest_rounds (demo_app {0, 1}) 10 0 (demo_watched 1) = Some (st', r)"
    by (auto split: option.splits)
  with demo_runs have st': "digest_rounds (demo_app {0, 1}) 10 0 (demo_watched 1) = Some (st', Inr ())" by (cases r) simp_all
  from digest_settles_clean [OF this demo_behaved demo_inv] st' show ?thesis by (auto simp: list_all_iff)
qed




lemma idle_digest:
  assumes "rs_scopes st 0 = new_Scope" "rs_phase st = None" "rs_asyncQueue st = []" "rs_postDigestQueue st = []"
  shows "digest app ttl 0 st = Some (st\<lparr>rs_lastDirtyWatch := None, rs_phase := None\<rparr>, Inr ())"
proof -
  have "\<not> is_noop (rs_scopes st) 0" by (simp add: is_noop_def inherits.simps assms new_Scope_def)
  then show ?thesis using assms
    by (simp add: digest_def digest_rounds_def beginPhase_def digest_loop.simps drain.simps traverse.simps check_scope_def
        run_post.simps clearPhase_def new_Scope_def walk_simps climb.simps)
qed

theorem apply_in_progress_witness:
  "\<exists>st'. apply_expr (demo_app {}) 10 0 0 ((new_root (3, 1))\<lparr>rs_phase := Some Digesting\<rparr>) = Some (st', Inr ()) \<and> rs_phase st' = None"
  by (intro exI conjI, rule apply_in_progress [OF _ _ idle_digest])
    (simp_all add: new_root_def is_noop_def inherits.simps new_Scope_def)

theorem async_never_ends_witness:
  "digest_rounds (demo_app {3}) 10 0 ((demo_watched 1)\<lparr>rs_asyncQueue := [(0, 5)]\<rparr>) = None"
  by (rule async_never_ends [of _ 5 0]) (simp_all add: demo_app_def demo_watched_unfold)

end
