(* ===== verification/Angular_Broadcast.thy ===== *)
theory Angular_Broadcast
  imports Angular_Settle
begin

text \<open>
  Events reach who listens: \<open>$broadcast\<close> leaves out subtrees in which \<open>$$listenerCount\<close> finds no listener, and the count is the
  number of listeners of a scope and its descendants, whatever listeners come and go and scopes are created and
  destroyed.
\<close>

section \<open>The pruned walk\<close>

lemma split_same:
  assumes "distinct (us @ c # zs)" "us @ c # zs = xs @ c # zs'"
  shows "us = xs \<and> zs = zs'"
proof -
  have "c \<notin> set us" "c \<notin> set zs" using assms(1) by simp_all
  from append_Cons_eq_iff [OF this, of xs zs'] assms(2) show ?thesis by blast
qed

text \<open>Without going down, the walk continues behind the descendants of a scope.\<close>

lemma skip_below:
  assumes "linked h (Some p) prev t" "target \<notin> set_tree t" "distinct (preorder t)" "preorder t = xs @ c # preorder (kids_of c t) @ ys"
  shows "next_scope h target None c = (case ys of [] \<Rightarrow> climb h target p | y # _ \<Rightarrow> Inr (Some y))"
  using assms
proof (induction t arbitrary: p prev xs ys)
  case (Node k x r)
  have up: "next_scope h target None x = (case preorder r of [] \<Rightarrow> climb h target p | y # _ \<Rightarrow> Inr (Some y))"
    "climb h target x = (case preorder r of [] \<Rightarrow> climb h target p | y # _ \<Rightarrow> Inr (Some y))"
    using Node.prems(1,2) by (auto simp: next_scope_def first_of_preorder climb_sibling climb_parent split: list.split)
  have c: "c \<in> set (x # preorder k @ preorder r)" using Node.prems(4) by (metis in_set_conv_decomp preorder.simps(2))
  then consider (here) "c = x" | (kids) "c \<noteq> x" "c \<in> set_tree k" | (sibs) "c \<noteq> x" "c \<notin> set_tree k" "c \<in> set_tree r" by auto
  then show ?case
  proof cases
    case here
    then have "ys = preorder r" using split_same [of "[]" x "preorder k @ preorder r" xs "preorder k @ ys"] Node.prems(3,4) by simp
    with here up(1) show ?thesis by simp
  next
    case kids
    obtain us vs where pre: "preorder k = us @ c # preorder (kids_of c k) @ vs"
      using preorder_set_kids [of c k] kids(2) Node.prems(3) by (metis distinct.simps(2) distinct_append preorder.simps(2))
    have d: "distinct ((x # us) @ c # preorder (kids_of c k) @ vs @ preorder r)" using Node.prems(3) pre by simp
    have "(x # us) @ c # preorder (kids_of c k) @ vs @ preorder r = xs @ c # preorder (kids_of c k) @ ys"
      using Node.prems(4) kids pre by simp
    from split_same [OF d this] have "ys = vs @ preorder r" by simp
    moreover have "next_scope h target None c = (case vs of [] \<Rightarrow> climb h target x | y # _ \<Rightarrow> Inr (Some y))"
    proof (rule Node.IH(1) [OF _ _ _ pre])
      show "linked h (Some x) None k" "target \<notin> set_tree k" "distinct (preorder k)" using Node.prems by simp_all
    qed
    ultimately show ?thesis using up(2) by (cases vs) simp_all
  next
    case sibs
    obtain us vs where pre: "preorder r = us @ c # preorder (kids_of c r) @ vs"
      using preorder_set_kids [of c r] sibs(3) Node.prems(3) by (metis distinct.simps(2) distinct_append preorder.simps(2))
    have d: "distinct ((x # preorder k @ us) @ c # preorder (kids_of c r) @ vs)" using Node.prems(3) pre by simp
    have "(x # preorder k @ us) @ c # preorder (kids_of c r) @ vs = xs @ c # preorder (kids_of c r) @ ys"
      using Node.prems(4) sibs pre by simp
    from split_same [OF d this] have "ys = vs" by simp
    moreover have "linked h (Some p) (Some x) r" "target \<notin> set_tree r" "distinct (preorder r)" using Node.prems by simp_all
    ultimately show ?thesis using Node.IH(2) [OF _ _ _ pre] by blast
  qed
qed simp

section \<open>Broadcasting\<close>

text \<open>The array of listeners of a scope for an event, and how many there are.\<close>

definition listeners_of :: "('w, 'v) root \<Rightarrow> string \<Rightarrow> nat \<Rightarrow> nat option list" where
  "listeners_of st name s = (case sc_listeners (rs_scopes st s) name of None \<Rightarrow> [] | Some a \<Rightarrow> rs_lists st a)"

definition live :: "('w, 'v) root \<Rightarrow> string \<Rightarrow> nat \<Rightarrow> nat" where
  "live st name s = length (filter (\<lambda>x. x \<noteq> None) (listeners_of st name s))"

text \<open>The count of a scope is the number of listeners of the scopes of which it is an ancestor, if that is not 0.\<close>

definition below :: "('w, 'v) root \<Rightarrow> nat tree \<Rightarrow> nat \<Rightarrow> nat set" where
  "below st t s = {x \<in> set_tree t. s \<in> set (ancestors (rs_scopes st) x)}"

definition counted :: "('w, 'v) root \<Rightarrow> nat tree \<Rightarrow> bool" where
  "counted st t \<longleftrightarrow> (\<forall>s \<in> set_tree t. \<forall>name. map_of (sc_listenerCount (rs_scopes st s)) name =
     (let n = (\<Sum>x \<in> below st t s. live st name x) in if n = 0 then None else Some (Some (int n))))"

lemma below_scopes:
  assumes "scope_tree st t" "s \<in> set_tree t"
  shows "below st t s = set (scopes_from s t)"
proof -
  have "set (scopes_from s t) \<subseteq> set_tree t" using assms(2) kids_subset [of s t] by (simp add: scopes_from_def)
  then show ?thesis using ancestors_tree [OF assms(1)] assms(2) by (auto simp: below_def)
qed

lemma counts_live:
  assumes "counted st t" "s \<in> set_tree t"
  shows "counts name (rs_scopes st s) \<longleftrightarrow> (\<exists>x \<in> below st t s. live st name x \<noteq> 0)"
proof -
  have fin: "finite (below st t s)" by (simp add: below_def)
  define n where "n = (\<Sum>x \<in> below st t s. live st name x)"
  have "map_of (sc_listenerCount (rs_scopes st s)) name = (if n = 0 then None else Some (Some (int n)))"
    using assms unfolding counted_def n_def Let_def by blast
  then have "counts name (rs_scopes st s) \<longleftrightarrow> n \<noteq> 0" by (simp add: counts_def count_of_def)
  then show ?thesis using fin by (simp add: n_def)
qed

text \<open>An application whose listeners leave scopes and listeners alone, and arrays without removed listeners.\<close>

definition listening :: "('w, 'v) app \<Rightarrow> bool" where
  "listening app \<longleftrightarrow> (\<forall>l ev st. rs_scopes (fst (ap_listener app l ev st)) = rs_scopes st \<and>
     rs_lists (fst (ap_listener app l ev st)) = rs_lists st \<and> rs_nextScope (fst (ap_listener app l ev st)) = rs_nextScope st)"

definition packed :: "('w, 'v) root \<Rightarrow> nat tree \<Rightarrow> string \<Rightarrow> bool" where
  "packed st t name \<longleftrightarrow> (\<forall>s \<in> set_tree t. None \<notin> set (listeners_of st name s))"

text \<open>The reference: every scope of the subtree is asked for listeners, in depth-first order.\<close>

definition broadcast_all :: "('w, 'v) app \<Rightarrow> string \<Rightarrow> nat list \<Rightarrow> ('w, 'v) root \<times> scope_event \<Rightarrow> ('w, 'v) root \<times> scope_event" where
  "broadcast_all app name ss = fold (\<lambda>s (st, ev). call_named app name s ev st) ss"

lemma call_listeners_none [simp]: "call_listeners app a i 0 ev st = (st, ev)"
  by (subst call_listeners.simps) simp

lemma call_listeners_frame:
  assumes "listening app" "None \<notin> set (rs_lists st a)" "len \<le> length (rs_lists st a)" "call_listeners app a i len ev st = (st', ev')"
  shows "rs_scopes st' = rs_scopes st \<and> rs_lists st' = rs_lists st \<and> rs_nextScope st' = rs_nextScope st"
  using assms(2-4)
proof (induction "len - i" arbitrary: i ev st)
  case 0
  then show ?case by (subst (asm) call_listeners.simps) simp
next
  case (Suc n)
  then have i: "i < len" "i < length (rs_lists st a)" by simp_all
  then obtain l where l: "rs_lists st a ! i = Some l" using Suc.prems(1) nth_mem by (metis not_None_eq)
  obtain st1 ev1 thrown where c: "ap_listener app l ev st = (st1, ev1, thrown)" by (metis prod_cases3)
  let ?st = "exceptionHandler thrown st1"
  have f: "rs_scopes ?st = rs_scopes st" "rs_lists ?st = rs_lists st" "rs_nextScope ?st = rs_nextScope st"
    using assms(1) [unfolded listening_def, rule_format, of l ev st] c by (simp_all add: exceptionHandler_def)
  have "call_listeners app a (Suc i) len ev1 ?st = (st', ev')"
    using Suc.prems(3) i l c by (subst (asm) call_listeners.simps) simp
  with Suc.hyps(1) [of "Suc i" ?st ev1] Suc.hyps(2) Suc.prems(1,2) f show ?case by simp
qed

lemma call_named_frame:
  assumes "listening app" "packed st t name" "c \<in> set_tree t" "call_named app name c ev st = (st', ev')"
  shows "rs_scopes st' = rs_scopes st \<and> rs_lists st' = rs_lists st \<and> rs_nextScope st' = rs_nextScope st"
proof (cases "sc_listeners (rs_scopes st c) name")
  case None
  with assms(4) show ?thesis by (simp add: call_named_def)
next
  case (Some a)
  then have "None \<notin> set (rs_lists st a)" using assms(2,3) unfolding packed_def listeners_of_def by (metis option.simps(5))
  from call_listeners_frame [OF assms(1) this order_refl] Some assms(4) show ?thesis unfolding call_named_def Let_def by simp
qed

lemma frame_cong:
  assumes "rs_scopes st' = rs_scopes st" "rs_lists st' = rs_lists st" "rs_nextScope st' = rs_nextScope st"
  shows "scope_tree st' t = scope_tree st t" "counted st' t = counted st t" "packed st' t name = packed st t name"
proof -
  have l: "listeners_of st' = listeners_of st" unfolding listeners_of_def [abs_def] assms by (rule refl)
  then have "live st' = live st" unfolding live_def [abs_def] by simp
  moreover have "below st' t = below st t" unfolding below_def [abs_def] assms by (rule refl)
  ultimately show "counted st' t = counted st t" by (simp add: counted_def assms)
  show "scope_tree st' t = scope_tree st t" "packed st' t name = packed st t name" by (simp_all add: scope_tree_def packed_def l assms)
qed

lemma call_named_current [simp]: "call_named app name s (ev\<lparr>ev_currentScope := x\<rparr>) st = call_named app name s ev st"
  by (simp add: call_named_def)

lemma silent_scopes:
  assumes "\<forall>x \<in> set ss. listeners_of st name x = []"
  shows "\<exists>cur. broadcast_all app name ss (st, ev) = (st, ev\<lparr>ev_currentScope := cur\<rparr>)"
  using assms
proof (induction ss arbitrary: ev)
  case Nil
  show ?case by (rule exI [of _ "ev_currentScope ev"]) (simp add: broadcast_all_def)
next
  case (Cons s ss)
  have "call_named app name s ev st = (st, ev\<lparr>ev_currentScope := s\<rparr>)"
    using Cons.prems by (auto simp: call_named_def listeners_of_def Let_def split: option.splits)
  with Cons.IH [of "ev\<lparr>ev_currentScope := s\<rparr>"] Cons.prems show ?case by (auto simp: broadcast_all_def)
qed

lemma skip_scopes_from:
  assumes "scope_tree st t" "target \<in> set_tree t" "scopes_from target t = us @ c # vs"
  obtains ws where "vs = preorder (kids_of c t) @ ws"
    "next_scope (rs_scopes st) target None c = Inr (case ws of [] \<Rightarrow> None | y # _ \<Rightarrow> Some y)"
proof -
  have a: "linked (rs_scopes st) None None t" "distinct (preorder t)" using assms(1) by (simp_all add: scope_tree_def)
  have d: "distinct (target # preorder (kids_of target t))" by (rule kids_distinct [OF assms(2) a(2)])
  show thesis
  proof (cases "c = target")
    case True
    then have "vs = preorder (kids_of c t)"
      using split_same [of "[]" target "preorder (kids_of target t)" us vs] d assms(3) by (simp add: scopes_from_def)
    moreover have "next_scope (rs_scopes st) target None c = Inr None" using True by (simp add: next_scope_def climb.simps)
    ultimately show thesis using that [of "[]"] by simp
  next
    case False
    let ?k = "kids_of target t"
    have us: "us \<noteq> []" using False assms(3) by (auto simp: scopes_from_def)
    then have ku: "preorder ?k = tl us @ c # vs" using assms(3) by (cases us) (auto simp: scopes_from_def)
    then have ck: "c \<in> set_tree ?k" by (metis in_set_conv_decomp set_preorder)
    obtain xs ys where pre: "preorder ?k = xs @ c # preorder (kids_of c ?k) @ ys"
      using preorder_set_kids [OF ck] d by (metis distinct.simps(2))
    have "distinct (xs @ c # preorder (kids_of c ?k) @ ys)" using d pre by simp
    from split_same [OF this, of "tl us" vs] pre ku have vs: "vs = preorder (kids_of c ?k) @ ys" by simp
    have "next_scope (rs_scopes st) target None c = (case ys of [] \<Rightarrow> climb (rs_scopes st) target target | y # _ \<Rightarrow> Inr (Some y))"
      by (rule skip_below [OF _ _ _ pre]) (use linked_kids [OF a(1) assms(2) a(2)] d in auto)
    then have "next_scope (rs_scopes st) target None c = Inr (case ys of [] \<Rightarrow> None | y # _ \<Rightarrow> Some y)"
      by (simp add: climb.simps split: list.split)
    with vs kids_of_kids [OF assms(2) ck a(2)] show thesis using that [of ys] by simp
  qed
qed

lemma broadcast_loop_all:
  assumes "listening app" "scope_tree st t" "counted st t" "packed st t name" "target \<in> set_tree t"
    "scopes_from target t = us @ c # vs" "broadcast_all app name (c # vs) (st, ev) = (st', ev')"
  shows "\<exists>cur. broadcast_loop app name target c ev st = Some (st', Inr (ev'\<lparr>ev_currentScope := cur\<rparr>))"
  using assms(2-4,6,7)
proof (induction "length vs" arbitrary: us c vs ev st rule: less_induct)
  case less
  obtain st1 ev1 where c: "call_named app name c ev st = (st1, ev1)" by fastforce
  have ct: "c \<in> set_tree t"
    using less.prems(4) assms(5) kids_subset [of target t] by (metis in_set_conv_decomp insert_iff list.simps(15) scopes_from_def set_preorder subsetD)
  note f = call_named_frame [OF assms(1) less.prems(3) ct c]
  note same = frame_cong [OF f [THEN conjunct1] f [THEN conjunct2, THEN conjunct1] f [THEN conjunct2, THEN conjunct2]]
  have all: "broadcast_all app name vs (st1, ev1) = (st', ev')" using less.prems(5) c by (simp add: broadcast_all_def)
  define nx where "nx = next_scope (rs_scopes st1) target (if counts name (rs_scopes st1 c) then sc_childHead (rs_scopes st1 c) else None) c"
  obtain zs ws where vs: "vs = zs @ ws" and nx: "nx = Inr (case ws of [] \<Rightarrow> None | y # _ \<Rightarrow> Some y)"
    and quiet: "\<forall>x \<in> set zs. listeners_of st1 name x = []"
  proof (cases "counts name (rs_scopes st1 c)")
    case True
    then have "nx = walk (rs_scopes st1) target c" by (simp add: nx_def walk_def)
    then have "nx = Inr (case vs of [] \<Rightarrow> None | y # _ \<Rightarrow> Some y)"
      using walk_visits [of st1 t target us c vs] same(1) less.prems(1,4) assms(5) by simp
    then show thesis using that [of "[]" vs] by simp
  next
    case False
    obtain ws where ws: "vs = preorder (kids_of c t) @ ws" "next_scope (rs_scopes st1) target None c = Inr (case ws of [] \<Rightarrow> None | y # _ \<Rightarrow> Some y)"
      using skip_scopes_from [of st1 t target us c vs] same(1) less.prems(1,4) assms(5) by metis
    have "listeners_of st1 name x = []" if x: "x \<in> set (preorder (kids_of c t))" for x
    proof -
      have "x \<in> below st1 t c" using below_scopes [of st1 t c] same(1) less.prems(1) ct x by (simp add: scopes_from_def)
      then have "live st1 name x = 0" using counts_live [of st1 t c name] False same(2) less.prems(2) ct by auto
      moreover have "None \<notin> set (listeners_of st1 name x)" using same(3) less.prems(3) x kids_subset [of c t] by (auto simp: packed_def)
      ultimately show ?thesis by (cases "listeners_of st1 name x") (auto simp: live_def split: if_splits)
    qed
    then show thesis using that [of "preorder (kids_of c t)" ws] ws False by (simp add: nx_def)
  qed
  obtain cur where sk: "broadcast_all app name zs (st1, ev1) = (st1, ev1\<lparr>ev_currentScope := cur\<rparr>)" using silent_scopes [OF quiet] by blast
  have rest: "broadcast_all app name ws (st1, ev1\<lparr>ev_currentScope := cur\<rparr>) = (st', ev')"
    using all vs sk by (simp add: broadcast_all_def)
  have loop: "broadcast_loop app name target c ev st = (case ws of [] \<Rightarrow> Some (st1, Inr ev1) | n # _ \<Rightarrow> broadcast_loop app name target n ev1 st1)"
    using nx unfolding nx_def by (subst broadcast_loop.simps) (simp add: c split: list.split)
  show ?case
  proof (cases ws)
    case Nil
    with rest have "st' = st1" "ev' = ev1\<lparr>ev_currentScope := cur\<rparr>" by (simp_all add: broadcast_all_def)
    then show ?thesis using loop Nil by (intro exI [of _ "ev_currentScope ev1"]) simp
  next
    case (Cons n ws')
    have "broadcast_all app name (n # ws') (st1, ev1) = (st', ev')" using rest Cons by (simp add: broadcast_all_def)
    moreover have "scopes_from target t = (us @ c # zs) @ n # ws'" using less.prems(4) vs Cons by simp
    ultimately show ?thesis
      using less.hyps [of ws' st1 "us @ c # zs" n ev1] vs Cons loop same less.prems(1-3) by simp
  qed
qed

text \<open>
  C35. \<open>$broadcast\<close> calls the same listeners in the same order as a visit of every scope below, although it leaves out
  the subtrees whose count is 0: the state after it and, up to the last scope it names as the current one, the
  event are the same. The counts are those of the listeners, as the last property of this theory shows of every reachable
  state; the listeners called leave the scopes and the lists of listeners as they are, and no entry that was removed while an event was under way still
  waits to be taken out of its list.
\<close>

theorem broadcast_reaches_all:
  assumes "listening app" "scope_tree st t" "counted st t" "packed st t name" "target \<in> set_tree t"
    and "broadcast_all app name (scopes_from target t) (st, new_event name target) = (st', ev')"
  shows "\<exists>cur. broadcast app name target st = Some (st', Inr (ev'\<lparr>ev_currentScope := cur\<rparr>))"
  using broadcast_loop_all [OF assms(1-5), of "[]" target "preorder (kids_of target t)"] assms(6)
  by (simp add: broadcast_def scopes_from_def)

section \<open>The counts\<close>

definition sum_below :: "('w, 'v) root \<Rightarrow> nat tree \<Rightarrow> string \<Rightarrow> nat \<Rightarrow> nat" where
  "sum_below st t name s = (\<Sum>x \<in> below st t s. live st name x)"

definition shown :: "nat \<Rightarrow> num option" where
  "shown n = (if n = 0 then None else Some (Some (int n)))"

definition has_count :: "scope \<Rightarrow> string \<Rightarrow> nat \<Rightarrow> bool" where
  "has_count s name n \<longleftrightarrow> map_of (sc_listenerCount s) name = shown n"

text \<open>The counts are right, they have one entry for a name, and every array of listeners belongs to one scope and event.\<close>

definition own_lists :: "('w, 'v) root \<Rightarrow> nat tree \<Rightarrow> bool" where
  "own_lists st t \<longleftrightarrow>
     (\<forall>s \<in> set_tree t. \<forall>name a. sc_listeners (rs_scopes st s) name = Some a \<longrightarrow> a < rs_nextList st) \<and>
     (\<forall>s \<in> set_tree t. \<forall>s' \<in> set_tree t. \<forall>name name' a. sc_listeners (rs_scopes st s) name = Some a \<longrightarrow>
        sc_listeners (rs_scopes st s') name' = Some a \<longrightarrow> s = s' \<and> name = name')"

definition event_inv :: "('w, 'v) root \<Rightarrow> nat tree \<Rightarrow> bool" where
  "event_inv st t \<longleftrightarrow> scope_tree st t \<and> (\<forall>s \<in> set_tree t. \<forall>name. has_count (rs_scopes st s) name (sum_below st t name s)) \<and>
     (\<forall>s \<in> set_tree t. distinct (map fst (sc_listenerCount (rs_scopes st s)))) \<and> own_lists st t"

lemma own_lists_sub:
  assumes "own_lists st t" "rs_nextList st' = rs_nextList st"
    and "\<And>y nm a. y \<in> set_tree t' \<Longrightarrow> sc_listeners (rs_scopes st' y) nm = Some a \<Longrightarrow> y \<in> set_tree t \<and> sc_listeners (rs_scopes st y) nm = Some a"
  shows "own_lists st' t'"
  unfolding own_lists_def assms(2)
proof (intro conjI ballI allI impI)
  fix s name a assume "s \<in> set_tree t'" "sc_listeners (rs_scopes st' s) name = Some a"
  from assms(3) [OF this] show "a < rs_nextList st" using assms(1) unfolding own_lists_def by blast
next
  fix s s' name name' a assume a: "s \<in> set_tree t'" "s' \<in> set_tree t'"
    and b: "sc_listeners (rs_scopes st' s) name = Some a" "sc_listeners (rs_scopes st' s') name' = Some a"
  from assms(3) [OF a(1) b(1)] assms(3) [OF a(2) b(2)] show "s = s'" "name = name'"
    using assms(1) unfolding own_lists_def by blast+
qed

lemma event_inv_counted: "event_inv st t \<Longrightarrow> counted st t"
  by (simp add: event_inv_def counted_def has_count_def shown_def sum_below_def Let_def)

lemma event_inv_tree: "event_inv st t \<Longrightarrow> scope_tree st t"
  by (simp add: event_inv_def)

lemma increment_has:
  assumes "has_count s name n"
  shows "has_count (increment_count name s) nm m \<longleftrightarrow> (if nm = name then m = Suc n else has_count s nm m)"
proof -
  have "nadd (if counts name s then count_of name s else Some 0) (Some 1) = Some (int (Suc n))"
    using assms by (auto simp: has_count_def shown_def counts_def count_of_def nadd_def)
  then show ?thesis by (auto simp: has_count_def increment_count_def shown_def update_conv')
qed

lemma decrement_has:
  assumes "has_count s name n" "k \<le> n" "0 < k"
  shows "has_count (decrement_count (Some (int k)) name s) nm m \<longleftrightarrow> (if nm = name then m = n - k else has_count s nm m)"
proof -
  have "nsub (count_of name s) (Some (int k)) = Some (int (n - k))"
    using assms by (auto simp: has_count_def shown_def count_of_def nsub_def)
  then show ?thesis using assms(2) by (auto simp: has_count_def decrement_count_def shown_def update_conv' delete_conv')
qed

lemma count_keys:
  "distinct (map fst (sc_listenerCount s)) \<Longrightarrow> distinct (map fst (sc_listenerCount (increment_count name s)))"
  "distinct (map fst (sc_listenerCount s)) \<Longrightarrow> distinct (map fst (sc_listenerCount (decrement_count k name s)))"
  by (simp_all add: increment_count_def decrement_count_def Let_def distinct_update distinct_delete)

lemma count_sel [simp]:
  "sc_parent (increment_count name s) = sc_parent s" "sc_listeners (increment_count name s) = sc_listeners s"
  "sc_parent (decrement_count k name s) = sc_parent s" "sc_listeners (decrement_count k name s) = sc_listeners s"
  by (simp_all add: increment_count_def decrement_count_def Let_def)

lemma ancestors_less: "x \<in> set (ancestors h c) \<Longrightarrow> x \<le> c"
proof (induction h c rule: ancestors.induct)
  case (1 h c)
  have "set (ancestors h c) = insert c (case sc_parent (h c) of None \<Rightarrow> {} | Some p \<Rightarrow> if p < c then set (ancestors h p) else {})"
    by (subst ancestors.simps) (simp split: option.split)
  with 1 show ?case by (fastforce split: option.splits if_splits)
qed

lemma ancestors_distinct: "distinct (ancestors h c)"
proof (induction h c rule: ancestors.induct)
  case (1 h c)
  then show ?case using ancestors_less [of _ h] by (subst ancestors.simps) (fastforce split: option.splits)
qed

lemma ancestors_self [simp]: "c \<in> set (ancestors h c)"
  by (subst ancestors.simps) simp

lemma fold_upd_scope: "distinct xs \<Longrightarrow> fold (\<lambda>s. upd_scope s f) xs h y = (if y \<in> set xs then f (h y) else h y)"
  by (induction xs arbitrary: h) (auto simp: upd_scope_def)

lemma below_cong:
  "\<forall>x. sc_parent (rs_scopes st' x) = sc_parent (rs_scopes st x) \<Longrightarrow> below st' t s = below st t s"
  using ancestors_cong [of "rs_scopes st" _ "rs_scopes st'"] by (simp add: below_def)

lemma sum_below_cong:
  assumes "\<forall>x. sc_parent (rs_scopes st' x) = sc_parent (rs_scopes st x)" "\<forall>x \<in> set_tree t. live st' name x = live st name x"
  shows "sum_below st' t name s = sum_below st t name s"
  unfolding sum_below_def below_cong [OF assms(1)] by (rule sum.cong) (use assms(2) in \<open>simp_all add: below_def\<close>)

lemma sum_one:
  assumes "\<forall>x. sc_parent (rs_scopes st' x) = sc_parent (rs_scopes st x)"
    and "\<And>x. x \<in> set_tree t \<Longrightarrow> live st' nm x = live st nm x + (if x = s \<and> nm = name then 1 else 0)"
  shows "sum_below st' t nm y = sum_below st t nm y + (if s \<in> below st t y \<and> nm = name then 1 else 0)"
proof -
  have fin: "finite (below st t y)" by (simp add: below_def)
  have "sum_below st' t nm y = (\<Sum>x \<in> below st t y. live st nm x + (if x = s \<and> nm = name then 1 else 0))"
    unfolding sum_below_def below_cong [OF assms(1)] by (rule sum.cong) (simp_all add: assms(2) below_def)
  also have "\<dots> = sum_below st t nm y + (\<Sum>x \<in> below st t y. if x = s \<and> nm = name then 1 else 0)" by (simp add: sum_below_def sum.distrib)
  also have "(\<Sum>x \<in> below st t y. if x = s \<and> nm = name then 1 else 0) = (if s \<in> below st t y \<and> nm = name then 1 else 0 :: nat)"
    using fin by (cases "nm = name") (simp_all add: sum.delta')
  finally show ?thesis .
qed

lemma on_event_inv:
  fixes name l
  assumes "event_inv st t" "s \<in> set_tree t"
  defines "st' \<equiv> fst (on_event s name l st)"
  shows "event_inv st' t"
proof (cases "is_noop (rs_scopes st) s")
  case True
  then show ?thesis using assms(1) by (simp add: st'_def on_event_def)
next
  case False
  define a where "a = (case sc_listeners (rs_scopes st s) name of Some a \<Rightarrow> a | None \<Rightarrow> rs_nextList st)"
  define h where "h = upd_scope s (\<lambda>x. x\<lparr>sc_listeners := (sc_listeners x)(name \<mapsto> a)\<rparr>) (rs_scopes st)"
  have noop: "upd_scope s (\<lambda>x. x\<lparr>sc_listeners := (sc_listeners x)(name \<mapsto> b)\<rparr>) (rs_scopes st) = rs_scopes st"
    if "sc_listeners (rs_scopes st s) name = Some b" for b using that by (auto simp: upd_scope_def fun_upd_idem)
  have anc: "ancestors h s = ancestors (rs_scopes st) s" by (simp add: h_def ancestors_upd)
  have sel: "rs_scopes st' = fold (\<lambda>s. upd_scope s (increment_count name)) (ancestors h s) h"
    "rs_lists st' = (rs_lists st)(a := listeners_of st name s @ [Some l])" "rs_nextScope st' = rs_nextScope st"
    "rs_nextList st' = (if sc_listeners (rs_scopes st s) name = None then Suc (rs_nextList st) else rs_nextList st)"
    using False noop by (auto simp: st'_def on_event_def Let_def a_def h_def listeners_of_def upd_scope_def split: option.split)
  have sc: "rs_scopes st' y = (if y \<in> set (ancestors (rs_scopes st) s) then increment_count name (h y) else h y)" for y
    using fold_upd_scope [OF ancestors_distinct [of h s], of "increment_count name" h y] unfolding anc sel(1) .
  have hsel: "sc_parent (h y) = sc_parent (rs_scopes st y)" "sc_listenerCount (h y) = sc_listenerCount (rs_scopes st y)" for y
    by (simp_all add: h_def upd_scope_def)
  have par: "sc_parent (rs_scopes st' y) = sc_parent (rs_scopes st y)" for y by (simp add: sc hsel)
  have lis: "sc_listeners (rs_scopes st' y) = (if y = s then (sc_listeners (rs_scopes st s))(name \<mapsto> a) else sc_listeners (rs_scopes st y))" for y
    by (simp add: sc h_def upd_scope_def)
  note inv = assms(1) [unfolded event_inv_def own_lists_def]
  have addr0: "b < rs_nextList st" if "y \<in> set_tree t" "sc_listeners (rs_scopes st y) nm = Some b" for y nm b using inv that by blast
  have uniq0: "y = y' \<and> nm = nm'" if "y \<in> set_tree t" "y' \<in> set_tree t" "sc_listeners (rs_scopes st y) nm = Some b"
    "sc_listeners (rs_scopes st y') nm' = Some b" for y y' nm nm' b using inv that by blast
  have tree: "scope_tree st' t"
    by (rule scope_tree_upd [OF event_inv_tree [OF assms(1)]]) (simp_all add: sel(3) sc h_def upd_scope_def increment_count_def)
  have fresh: "sc_listeners (rs_scopes st y) nm \<noteq> Some a" if "y \<in> set_tree t" "y \<noteq> s \<or> nm \<noteq> name" for y nm
  proof
    assume f: "sc_listeners (rs_scopes st y) nm = Some a"
    show False
    proof (cases "sc_listeners (rs_scopes st s) name")
      case None
      then show False using addr0 f that(1) by (fastforce simp: a_def)
    next
      case (Some b)
      then have "sc_listeners (rs_scopes st s) name = Some a" by (simp add: a_def)
      from uniq0 [OF that(1) assms(2) f this] that(2) show False by simp
    qed
  qed
  have live: "live st' nm y = live st nm y + (if y = s \<and> nm = name then 1 else 0)" if "y \<in> set_tree t" for y nm
    using fresh [OF that, of nm] by (auto simp: live_def listeners_of_def lis sel(2) split: option.split)
  note sum = sum_one [OF allI [OF par], of t _ s name, OF live]
  have anc_below: "s \<in> below st t y \<longleftrightarrow> y \<in> set (ancestors (rs_scopes st) s)" for y using assms(2) by (simp add: below_def)
  have cnt: "\<forall>y \<in> set_tree t. \<forall>nm. has_count (rs_scopes st' y) nm (sum_below st' t nm y)"
  proof (intro ballI allI)
    fix y nm assume y: "y \<in> set_tree t"
    have "has_count (h y) n (sum_below st t n y)" for n using inv y by (simp add: has_count_def hsel)
    then show "has_count (rs_scopes st' y) nm (sum_below st' t nm y)"
      using increment_has [of "h y" name "sum_below st t name y" nm] by (simp add: sc sum anc_below)
  qed
  have keys: "\<forall>y \<in> set_tree t. distinct (map fst (sc_listenerCount (rs_scopes st' y)))"
    using inv count_keys(1) by (simp add: sc hsel)
  have "a < rs_nextList st'" using addr0 [OF assms(2)] by (cases "sc_listeners (rs_scopes st s) name") (auto simp: a_def sel)
  then have addr: "\<forall>y \<in> set_tree t. \<forall>nm b. sc_listeners (rs_scopes st' y) nm = Some b \<longrightarrow> b < rs_nextList st'"
    using addr0 by (auto simp: lis sel(4) less_Suc_eq)
  have own: "y = s \<and> nm = name \<and> b = a \<or> sc_listeners (rs_scopes st y) nm = Some b \<and> b \<noteq> a"
    if "y \<in> set_tree t" "sc_listeners (rs_scopes st' y) nm = Some b" for y nm b
    using that fresh [of y nm] by (auto simp: lis split: if_splits)
  have "\<forall>y \<in> set_tree t. \<forall>y' \<in> set_tree t. \<forall>nm nm' b. sc_listeners (rs_scopes st' y) nm = Some b \<longrightarrow>
        sc_listeners (rs_scopes st' y') nm' = Some b \<longrightarrow> y = y' \<and> nm = nm'"
    using own inv [THEN conjunct2, THEN conjunct2, THEN conjunct2, THEN conjunct2] by metis
  with tree cnt keys addr show ?thesis unfolding event_inv_def own_lists_def by blast
qed

lemma forget_length:
  "Some l \<in> set xs \<Longrightarrow> length (filter (\<lambda>x. x \<noteq> None) xs) = Suc (length (filter (\<lambda>x. x \<noteq> None) (forget l xs)))"
  by (induction xs) auto

lemma decrementListenerCount_at:
  "decrementListenerCount d k name h y = (if y \<in> set (ancestors h d) then decrement_count k name (h y) else h y)"
  using fold_upd_scope [OF ancestors_distinct] by (simp add: decrementListenerCount_def)

lemma off_event_inv:
  assumes "event_inv st t" "s \<in> set_tree t" "sc_listeners (rs_scopes st s) name = Some a" "Some l \<in> set (rs_lists st a)"
  shows "event_inv (off_event a s name l st) t"
proof -
  let ?st = "off_event a s name l st"
  have sc: "rs_scopes ?st y = (if y \<in> set (ancestors (rs_scopes st) s) then decrement_count (Some 1) name (rs_scopes st y) else rs_scopes st y)" for y
    by (simp add: off_event_def decrementListenerCount_at)
  have sel: "rs_lists ?st = (rs_lists st)(a := forget l (rs_lists st a))" "rs_nextScope ?st = rs_nextScope st" "rs_nextList ?st = rs_nextList st"
    by (simp_all add: off_event_def)
  have lis: "sc_listeners (rs_scopes ?st y) = sc_listeners (rs_scopes st y)" and par: "sc_parent (rs_scopes st y) = sc_parent (rs_scopes ?st y)" for y
    by (simp_all add: sc)
  note inv = assms(1) [unfolded event_inv_def own_lists_def]
  have tree: "scope_tree ?st t"
    by (rule scope_tree_upd [OF event_inv_tree [OF assms(1)]]) (simp_all add: sel sc decrement_count_def Let_def)
  have fresh: "sc_listeners (rs_scopes st y) nm \<noteq> Some a" if "y \<in> set_tree t" "y \<noteq> s \<or> nm \<noteq> name" for y nm
    using inv that assms(2,3) by blast
  have live: "live st nm y = live ?st nm y + (if y = s \<and> nm = name then 1 else 0)" if "y \<in> set_tree t" for y nm
    using fresh [OF that, of nm] assms(3) forget_length [OF assms(4)] by (auto simp: live_def listeners_of_def lis sel(1) split: option.split)
  note sum = sum_one [OF allI [OF par], of t _ s name, OF live]
  have anc_below: "s \<in> below ?st t y \<longleftrightarrow> y \<in> set (ancestors (rs_scopes st) s)" for y
    using assms(2) below_cong [OF allI [OF par [symmetric]], of t y] by (simp add: below_def)
  have "\<forall>y \<in> set_tree t. \<forall>nm. has_count (rs_scopes ?st y) nm (sum_below ?st t nm y)"
  proof (intro ballI allI)
    fix y nm assume y: "y \<in> set_tree t"
    have h: "has_count (rs_scopes st y) n (sum_below st t n y)" for n using inv y by blast
    show "has_count (rs_scopes ?st y) nm (sum_below ?st t nm y)"
    proof (cases "y \<in> set (ancestors (rs_scopes st) s)")
      case True
      then have "sum_below st t name y = Suc (sum_below ?st t name y)" using sum [of name y] anc_below by simp
      with decrement_has [OF h [of name], of 1 nm] True sum [of nm y] show ?thesis using h [of nm] by (cases "nm = name") (simp_all add: sc)
    next
      case False
      then show ?thesis using h [of nm] sum [of nm y] anc_below by (simp add: sc)
    qed
  qed
  moreover have "\<forall>y \<in> set_tree t. distinct (map fst (sc_listenerCount (rs_scopes ?st y)))" using inv count_keys(2) by (simp add: sc)
  ultimately show ?thesis using tree inv unfolding event_inv_def own_lists_def lis sel(3) by blast
qed

text \<open>Ancestors of an ancestor.\<close>

lemma ancestors_chain:
  "d \<in> set (ancestors h x) \<Longrightarrow> \<exists>us. ancestors h x = us @ ancestors h d \<and> (\<forall>y \<in> set us. d \<in> set (ancestors h y))"
proof (induction h x rule: ancestors.induct)
  case (1 h x)
  show ?case
  proof (cases "d = x")
    case True
    then show ?thesis by (intro exI [of _ "[]"]) simp
  next
    case False
    have a: "ancestors h x = x # (case sc_parent (h x) of None \<Rightarrow> [] | Some p \<Rightarrow> if p < x then ancestors h p else [])"
      by (subst ancestors.simps) (rule refl)
    then obtain p where p: "sc_parent (h x) = Some p" "p < x" "d \<in> set (ancestors h p)"
      using 1(2) False by (auto split: option.splits if_splits)
    from 1(1) [OF p] obtain us where "ancestors h p = us @ ancestors h d" "\<forall>y \<in> set us. d \<in> set (ancestors h y)" by blast
    with a p 1(2) show ?thesis by (intro exI [of _ "x # us"]) simp
  qed
qed

lemma remove_counts_at:
  "fold (\<lambda>(name, count). decrementListenerCount d count name) ps h y =
     (if y \<in> set (ancestors h d) then fold (\<lambda>(name, count). decrement_count count name) ps (h y) else h y)"
proof (induction ps arbitrary: h)
  case (Cons p ps)
  obtain name k where p: "p = (name, k)" by fastforce
  let ?h = "decrementListenerCount d k name h"
  have "ancestors ?h d = ancestors h d" by (rule ancestors_cong) (simp add: decrementListenerCount_at)
  then show ?case using Cons.IH [of ?h] decrementListenerCount_at [of d k name h y] by (simp add: p)
qed simp

lemma decrement_all:
  assumes "distinct (map fst ps)" "\<forall>(nm, c) \<in> set ps. c = Some (int (k nm)) \<and> 0 < k nm \<and> k nm \<le> n nm"
    and "\<forall>nm. has_count s nm (n nm)" "distinct (map fst (sc_listenerCount s))"
  shows "has_count (fold (\<lambda>(name, count). decrement_count count name) ps s) nm (n nm - (if nm \<in> fst ` set ps then k nm else 0))"
    and "distinct (map fst (sc_listenerCount (fold (\<lambda>(name, count). decrement_count count name) ps s)))"
  using assms
proof (induction ps arbitrary: s n)
  case (Cons p ps)
  {
    case 1
    obtain name c where p: "p = (name, c)" by fastforce
    have c: "c = Some (int (k name))" "0 < k name" "k name \<le> n name" using 1(2) p by auto
    let ?s = "decrement_count c name s" and ?n = "n(name := n name - k name)"
    have h: "has_count ?s nm (?n nm)" for nm using decrement_has [of s name "n name" "k name" nm] 1(3) c by simp
    have "\<forall>(nm, c) \<in> set ps. c = Some (int (k nm)) \<and> 0 < k nm \<and> k nm \<le> ?n nm" using 1(1,2) p by force
    with Cons.IH(1) [of ?n ?s] h 1(1,4) count_keys(2) p
    have "has_count (fold (\<lambda>(name, count). decrement_count count name) ps ?s) nm (?n nm - (if nm \<in> fst ` set ps then k nm else 0))" by simp
    moreover have "name \<notin> fst ` set ps" using 1(1) p by simp
    ultimately show ?case using p by (auto split: if_splits)
  next
    case 2
    have keys: "distinct (map fst (sc_listenerCount (fold (\<lambda>(name, count). decrement_count count name) qs s)))"
      if "distinct (map fst (sc_listenerCount s))" for qs s using that by (induction qs arbitrary: s) (auto simp: count_keys(2))
    show ?case by (rule keys [OF 2(4)])
  }
qed simp_all

text \<open>The end of \<open>$destroy\<close>.\<close>

definition leave_tree :: "nat \<Rightarrow> ('w, 'v) root \<Rightarrow> ('w, 'v) root" where
  "leave_tree d st = detach d (st\<lparr>rs_scopes := remove_counts d (upd_scope d (\<lambda>s. s\<lparr>sc_destroyed := True\<rparr>) (rs_scopes st))\<rparr>)"

lemma destroy_leaves:
  assumes "\<not> is_destroyed (rs_scopes st) d" "broadcast app ''$destroy'' d st = Some (st', Inr ev)" "d \<noteq> 0"
  shows "destroy_scope app d st = Some (leave_tree d st', Inr ())"
  using assms by (simp add: destroy_scope_def leave_tree_def)

lemma leave_tree_inv:
  assumes "event_inv st t" "d \<in> set_tree t" "d \<noteq> 0"
  shows "\<exists>t'. event_inv (leave_tree d st) t'"
proof -
  note inv = assms(1) [unfolded event_inv_def]
  define h where "h = upd_scope d (\<lambda>s. s\<lparr>sc_destroyed := True\<rparr>) (rs_scopes st)"
  define st1 where "st1 = st\<lparr>rs_scopes := remove_counts d h\<rparr>"
  have anc: "ancestors h x = ancestors (rs_scopes st) x" for x by (simp add: h_def ancestors_upd)
  have hsel: "sc_listenerCount (h y) = sc_listenerCount (rs_scopes st y)" "sc_listeners (h y) = sc_listeners (rs_scopes st y)"
    "sc_parent (h y) = sc_parent (rs_scopes st y)" for y by (simp_all add: h_def upd_scope_def)
  let ?ps = "sc_listenerCount (rs_scopes st d)"
  have sc1: "rs_scopes st1 y = (if y \<in> set (ancestors (rs_scopes st) d) then fold (\<lambda>(name, count). decrement_count count name) ?ps (h y) else h y)" for y
    by (simp add: st1_def remove_counts_def remove_counts_at anc hsel)
  have fsel: "sc_parent (fold (\<lambda>(name, count). decrement_count count name) ps x) = sc_parent x"
    "sc_listeners (fold (\<lambda>(name, count). decrement_count count name) ps x) = sc_listeners x"
    "sc_childHead (fold (\<lambda>(name, count). decrement_count count name) ps x) = sc_childHead x"
    "sc_childTail (fold (\<lambda>(name, count). decrement_count count name) ps x) = sc_childTail x"
    "sc_nextSibling (fold (\<lambda>(name, count). decrement_count count name) ps x) = sc_nextSibling x"
    "sc_prevSibling (fold (\<lambda>(name, count). decrement_count count name) ps x) = sc_prevSibling x" for ps x
    by (induction ps arbitrary: x) (auto simp: decrement_count_def Let_def)
  have tree: "scope_tree st t" by (rule event_inv_tree [OF assms(1)])
  have tree1: "scope_tree st1 t"
    by (rule scope_tree_upd [OF tree]) (simp_all add: sc1 fsel, simp_all add: st1_def h_def upd_scope_def)
  obtain t' where t': "scope_tree (detach d st1) t'" "preorder t' = filter (\<lambda>x. x \<notin> set (scopes_from d t)) (preorder t)"
    using detach_tree [OF tree1 assms(2,3)] .
  let ?D = "below st t d"
  have D: "set_tree t' = set_tree t - ?D" using t'(2) below_scopes [OF tree assms(2)] by (metis set_diff_eq set_filter set_preorder)
  have dD: "d \<in> ?D" using assms(2) by (simp add: below_def)
  let ?st = "detach d st1"
  have sc: "sc_listeners (rs_scopes ?st y) = sc_listeners (rs_scopes st y)" "sc_listenerCount (rs_scopes ?st y) = sc_listenerCount (rs_scopes st1 y)"
    "sc_parent (rs_scopes ?st y) = sc_parent (rs_scopes st y)" if "y \<noteq> d" for y
    using that by (auto simp: detach_def upd_scope_def unlink_def upd_ref_def Let_def sc1 fsel hsel split: option.split)
  have lists: "rs_lists ?st = rs_lists st" "rs_nextList ?st = rs_nextList st" by (simp_all add: detach_def st1_def)
  have live': "x \<noteq> d" if "x \<in> set_tree t'" for x using that D dD by auto
  have anc': "ancestors (rs_scopes ?st) x = ancestors (rs_scopes st) x" if x: "x \<in> set_tree t'" for x
  proof (rule ancestors_cong, rule ballI)
    fix y assume "y \<in> set (ancestors (rs_scopes st) x)"
    moreover have "d \<notin> set (ancestors (rs_scopes st) x)" using x D by (auto simp: below_def)
    ultimately have "y \<noteq> d" by auto
    then show "sc_parent (rs_scopes ?st y) = sc_parent (rs_scopes st y)" by (rule sc(3))
  qed
  have below': "below ?st t' y = below st t y - ?D" for y using D anc' by (auto simp: below_def)
  have live: "live ?st nm x = live st nm x" if "x \<in> set_tree t'" for nm x
    unfolding live_def listeners_of_def lists sc(1) [OF live' [OF that]] by (rule refl)
  have sum: "sum_below ?st t' nm y = sum_below st t nm y - (if y \<in> set (ancestors (rs_scopes st) d) then sum_below st t nm d else 0)"
    (is "?A = ?B") if y: "y \<in> set_tree t'" for nm y
  proof -
    have fin: "finite ?D" by (simp add: below_def)
    have "?A = (\<Sum>x \<in> below st t y - ?D. live st nm x)"
      unfolding sum_below_def below' by (rule sum.cong) (use D in \<open>auto simp: live below_def\<close>)
    also have "\<dots> = ?B"
    proof (cases "y \<in> set (ancestors (rs_scopes st) d)")
      case True
      have "?D \<subseteq> below st t y" using True ancestors_chain [of d "rs_scopes st"] by (fastforce simp: below_def)
      then show ?thesis using True fin by (simp add: sum_diff_nat sum_below_def)
    next
      case False
      have "d \<notin> set (ancestors (rs_scopes st) y)" using y D by (auto simp: below_def)
      then have "below st t y \<inter> ?D = {}" using False ancestors_chain [of d "rs_scopes st"] by (fastforce simp: below_def)
      then show ?thesis using False by (simp add: Diff_triv sum_below_def)
    qed
    finally show ?thesis .
  qed
  have cnt: "has_count (rs_scopes ?st y) nm (sum_below ?st t' nm y) \<and> distinct (map fst (sc_listenerCount (rs_scopes ?st y)))"
    if y: "y \<in> set_tree t'" for nm y
  proof -
    have yt: "y \<in> set_tree t" using y D by blast
    have h: "\<forall>nm. has_count (h y) nm (sum_below st t nm y)" "distinct (map fst (sc_listenerCount (h y)))"
      using inv yt by (simp_all add: has_count_def hsel)
    have c: "has_count (rs_scopes ?st y) nm n = has_count (rs_scopes st1 y) nm n" for n by (simp add: has_count_def sc(2) [OF live' [OF y]])
    show ?thesis
    proof (cases "y \<in> set (ancestors (rs_scopes st) d)")
      case True
      have dc: "map_of ?ps n = shown (sum_below st t n d)" for n using inv assms(2) by (auto simp: has_count_def)
      have dk: "distinct (map fst ?ps)" using inv assms(2) by blast
      have le: "sum_below st t n d \<le> sum_below st t n y" for n
        unfolding sum_below_def by (rule sum_mono2) (use True ancestors_chain [of d "rs_scopes st"] in \<open>fastforce simp: below_def\<close>)+
      have ps: "\<forall>(n, c) \<in> set ?ps. c = Some (int (sum_below st t n d)) \<and> 0 < sum_below st t n d \<and> sum_below st t n d \<le> sum_below st t n y"
      proof (intro ballI, clarify)
        fix n c assume "(n, c) \<in> set ?ps"
        then have "map_of ?ps n = Some c" using dk by simp
        then show "c = Some (int (sum_below st t n d)) \<and> 0 < sum_below st t n d \<and> sum_below st t n d \<le> sum_below st t n y"
          using dc [of n] le [of n] by (auto simp: shown_def split: if_splits)
      qed
      have "sum_below st t nm d = 0" if "nm \<notin> fst ` set ?ps"
      proof -
        have "map_of ?ps nm = None" using that by (simp add: map_of_eq_None_iff)
        then show ?thesis using dc [of nm] by (simp add: shown_def split: if_splits)
      qed
      then show ?thesis using decrement_all(1) [OF dk ps h, of nm] decrement_all(2) [OF dk ps h] True
        by (auto simp: c sc(2) [OF live' [OF y]] sc1 sum [OF y] split: if_splits)
    next
      case False
      then show ?thesis using h by (simp add: c sc(2) [OF live' [OF y]] sc1 sum [OF y])
    qed
  qed
  have "own_lists ?st t'" by (rule own_lists_sub [of st t]) (use inv lists D sc(1) live' in auto)
  then have "event_inv ?st t'" unfolding event_inv_def using t'(1) cnt by blast
  then show ?thesis unfolding leave_tree_def h_def st1_def by blast
qed

lemma new_scope_inv:
  assumes "event_inv st t" "p \<in> set_tree t"
  shows "\<exists>t'. event_inv (fst (new_scope isolate p st)) t'"
proof -
  note inv = assms(1) [unfolded event_inv_def]
  let ?n = "rs_nextScope st" and ?st = "fst (new_scope isolate p st)"
  let ?t = "set_kids p (add_last ?n (kids_of p t)) t"
  have tree: "scope_tree st t" by (rule event_inv_tree [OF assms(1)])
  note new = new_scope_tree [OF tree assms(2)]
  have below_n: "x < ?n" if "x \<in> set_tree t" for x using tree that by (simp add: scope_tree_def)
  then have old: "set_tree ?t - {?n} = set_tree t" "?n \<notin> set_tree t"
    using new(3) by (auto simp flip: set_preorder) (metis (mono_tags, lifting) mem_Collect_eq set_filter)+
  have st: "rs_scopes ?st = add_child isolate p ?n (rs_scopes st)" "rs_lists ?st = rs_lists st" "rs_nextList ?st = rs_nextList st"
    by (simp_all add: new_scope_def Let_def)
  have sc: "sc_parent (rs_scopes ?st y) = sc_parent (rs_scopes st y)" "sc_listeners (rs_scopes ?st y) = sc_listeners (rs_scopes st y)"
    "sc_listenerCount (rs_scopes ?st y) = sc_listenerCount (rs_scopes st y)" if "y \<noteq> ?n" for y
    using that by (auto simp: st add_child_def Let_def upd_ref_def upd_scope_def split: option.split)
  have nsc: "sc_listeners (rs_scopes ?st ?n) = Map.empty" "sc_listenerCount (rs_scopes ?st ?n) = []"
    using below_n [OF assms(2)] by (auto simp: st add_child_def Let_def upd_ref_def upd_scope_def new_Scope_def split: option.split)
  have liveN: "live ?st nm ?n = 0" for nm by (simp add: live_def listeners_of_def nsc)
  have live: "live ?st nm x = live st nm x" if "x \<noteq> ?n" for nm x
    unfolding live_def listeners_of_def st(2) sc(2) [OF that] by (rule refl)
  have anc: "ancestors (rs_scopes ?st) x = ancestors (rs_scopes st) x" if x: "x \<in> set_tree t" for x
  proof (rule ancestors_cong, rule ballI)
    fix y assume "y \<in> set (ancestors (rs_scopes st) x)"
    then have "y \<noteq> ?n" using ancestors_less below_n [OF x] by fastforce
    then show "sc_parent (rs_scopes ?st y) = sc_parent (rs_scopes st y)" by (rule sc(1))
  qed
  have mem_t: "x \<in> set_tree t \<longleftrightarrow> x \<in> set_tree ?t \<and> x \<noteq> ?n" for x using old(1) by blast
  then have below: "below ?st ?t y - {?n} = below st t y" for y
    unfolding below_def by (auto simp: anc mem_t)
  have sum: "sum_below ?st ?t nm y = sum_below st t nm y" for nm y
  proof -
    have "sum_below ?st ?t nm y = (\<Sum>x \<in> below ?st ?t y - {?n}. live ?st nm x)"
      unfolding sum_below_def by (rule sum.mono_neutral_right) (auto simp: below_def liveN)
    also have "\<dots> = sum_below st t nm y" unfolding below sum_below_def
      by (rule sum.cong) (use old(2) in \<open>auto simp: below_def intro!: live\<close>)
    finally show ?thesis .
  qed
  have zero: "sum_below st t nm ?n = 0" for nm
  proof -
    have "below st t ?n = {}" using ancestors_less below_n by (fastforce simp: below_def)
    then show ?thesis by (simp add: sum_below_def)
  qed
  have mem: "y = ?n \<or> y \<in> set_tree t \<and> y \<noteq> ?n" if "y \<in> set_tree ?t" for y using that old by blast
  have "\<forall>y \<in> set_tree ?t. \<forall>nm. has_count (rs_scopes ?st y) nm (sum_below ?st ?t nm y)"
    using mem inv by (fastforce simp: has_count_def sum sc(3) nsc zero shown_def)
  moreover have "\<forall>y \<in> set_tree ?t. distinct (map fst (sc_listenerCount (rs_scopes ?st y)))"
    using mem inv by (fastforce simp: sc(3) nsc)
  moreover have "own_lists ?st ?t"
  proof (rule own_lists_sub [of st t])
    fix y nm a assume y: "y \<in> set_tree ?t" "sc_listeners (rs_scopes ?st y) nm = Some a"
    show "y \<in> set_tree t \<and> sc_listeners (rs_scopes st y) nm = Some a" using mem [OF y(1)] y(2) sc(2) nsc by auto
  qed (use inv st(3) in auto)
  ultimately have "event_inv ?st ?t" unfolding event_inv_def using new(1) [of isolate] by blast
  then show ?thesis by blast
qed

section \<open>Reachable states\<close>

text \<open>What happens to scopes and their listeners; a listener is removed by the function that \<open>$on\<close> returned, once.\<close>

inductive event_step :: "('w, 'v) root \<Rightarrow> ('w, 'v) root \<Rightarrow> bool" where
  on: "scope_tree st t \<Longrightarrow> s \<in> set_tree t \<Longrightarrow> event_step st (fst (on_event s name l st))"
| off: "scope_tree st t \<Longrightarrow> s \<in> set_tree t \<Longrightarrow> sc_listeners (rs_scopes st s) name = Some a \<Longrightarrow> Some l \<in> set (rs_lists st a) \<Longrightarrow>
    event_step st (off_event a s name l st)"
| new: "scope_tree st t \<Longrightarrow> p \<in> set_tree t \<Longrightarrow> event_step st (fst (new_scope isolate p st))"
| leave: "scope_tree st t \<Longrightarrow> d \<in> set_tree t \<Longrightarrow> d \<noteq> 0 \<Longrightarrow> event_step st (leave_tree d st)"

lemma event_step_inv:
  assumes "event_step st st'" "event_inv st t"
  shows "\<exists>t'. event_inv st' t'"
  using assms(1)
proof cases
  case (on u s name l)
  then have "u = t" using scope_tree_unique event_inv_tree [OF assms(2)] by blast
  with on on_event_inv [OF assms(2)] show ?thesis by blast
next
  case (off u s name a l)
  then have "u = t" using scope_tree_unique event_inv_tree [OF assms(2)] by blast
  with off off_event_inv [OF assms(2)] show ?thesis by blast
next
  case (new u p isolate)
  then have "u = t" using scope_tree_unique event_inv_tree [OF assms(2)] by blast
  with new new_scope_inv [OF assms(2)] show ?thesis by blast
next
  case (leave u d)
  then have "u = t" using scope_tree_unique event_inv_tree [OF assms(2)] by blast
  with leave leave_tree_inv [OF assms(2)] show ?thesis by blast
qed

lemma event_inv_new_root: "event_inv (new_root w :: ('a, 'b) root) (Node Leaf 0 Leaf)"
proof -
  let ?st = "new_root w :: ('a, 'b) root"
  have l: "live ?st nm x = 0" for nm x by (simp add: live_def listeners_of_def new_root_def new_Scope_def)
  have "sum_below ?st (Node Leaf 0 Leaf) nm 0 = 0" for nm unfolding sum_below_def by (rule sum.neutral) (simp add: l)
  then show ?thesis using scope_tree_new_root [of w]
    by (simp add: event_inv_def own_lists_def has_count_def shown_def new_root_def new_Scope_def)
qed

lemma reachable_event_inv: "event_step\<^sup>*\<^sup>* (new_root w) st \<Longrightarrow> \<exists>t. event_inv st t"
  by (induction rule: rtranclp_induct) (blast intro: event_inv_new_root event_step_inv)+

text \<open>
  C36. In every state that scopes reach by creating and destroying scopes and adding and removing listeners, the
  count of a scope for an event is the number of listeners for it on the scope and its descendants.
\<close>

theorem listener_counts_right:
  assumes "event_step\<^sup>*\<^sup>* (new_root w) st"
  shows "\<exists>t. scope_tree st t \<and> counted st t"
  using reachable_event_inv [OF assms] event_inv_counted event_inv_tree by blast

section \<open>Examples\<close>

text \<open>Listeners add their name to a number; a child of the root listens, with 7 and perhaps 8.\<close>

definition sum_app :: "(nat, nat) app" where
  "sum_app =
     \<lparr>ap_get = (\<lambda>g c w. Some w), ap_same = (\<lambda>eq. (=)), ap_copy = id, ap_fn = (\<lambda>f v l c st. (st, False)), ap_expr = (\<lambda>e s st. (st, False)),
      ap_listener = (\<lambda>l ev st. (st\<lparr>rs_world := rs_world st + l\<rparr>, ev, False)), ap_post = (\<lambda>f st. (st, False))\<rparr>"

definition one_listener :: "(nat, nat) root" where
  "one_listener = fst (on_event 1 ''x'' 7 (fst (new_scope False 0 (new_root 0))))"

definition two_listeners :: "(nat, nat) root" where
  "two_listeners = fst (on_event 1 ''x'' 8 one_listener)"

lemma child_tree: "scope_tree (fst (new_scope False 0 (new_root 0 :: (nat, nat) root))) (Node (Node Leaf 1 Leaf) 0 Leaf)"
  by (simp add: scope_tree_def new_scope_def add_child_def new_root_def new_Scope_def upd_scope_def upd_ref_def)

lemma one_listener_unfold:
  "rs_scopes one_listener = (\<lambda>_. new_Scope)(0 := new_Scope\<lparr>sc_childHead := Some 1, sc_childTail := Some 1, sc_listenerCount := [(''x'', Some 1)]\<rparr>,
      1 := new_Scope\<lparr>sc_proto := Some 0, sc_parent := Some 0, sc_listeners := [''x'' \<mapsto> 0], sc_listenerCount := [(''x'', Some 1)]\<rparr>)"
  "rs_lists one_listener = (\<lambda>_. [])(0 := [Some 7])" "rs_nextScope one_listener = 2"
  by (simp_all add: one_listener_def on_event_def new_scope_def add_child_def new_root_def new_Scope_def upd_scope_def upd_ref_def
      is_noop_def inherits.simps ancestors.simps increment_count_def counts_def count_of_def nadd_def fun_eq_iff)

lemma one_listener_steps: "event_step\<^sup>*\<^sup>* (new_root 0) one_listener"
proof -
  have "event_step (new_root 0) (fst (new_scope False 0 (new_root 0 :: (nat, nat) root)))"
    by (rule event_step.new [OF scope_tree_new_root]) simp
  moreover have "event_step (fst (new_scope False 0 (new_root 0 :: (nat, nat) root))) one_listener"
    unfolding one_listener_def by (rule event_step.on [OF child_tree]) simp
  ultimately show ?thesis by (meson rtranclp.simps)
qed

theorem listener_counts_right_witness: "\<exists>t. scope_tree one_listener t \<and> counted one_listener t"
  by (rule listener_counts_right [OF one_listener_steps])

lemma one_listener_tree: "scope_tree one_listener (Node (Node Leaf 1 Leaf) 0 Leaf)"
  by (simp add: scope_tree_def one_listener_unfold new_Scope_def)

lemma one_listener_counted: "counted one_listener (Node (Node Leaf 1 Leaf) 0 Leaf)"
  using reachable_event_inv [OF one_listener_steps] event_inv_counted event_inv_tree scope_tree_unique [OF one_listener_tree] by blast

theorem broadcast_reaches_all_witness:
  "\<exists>ev. broadcast sum_app ''x'' 0 one_listener = Some (one_listener\<lparr>rs_world := 7\<rparr>, Inr ev)"
proof -
  let ?t = "Node (Node Leaf 1 Leaf) 0 Leaf :: nat tree"
  have w: "rs_world one_listener = 0" by (simp add: one_listener_def on_event_def new_scope_def new_root_def Let_def split: option.split)
  have l: "listening sum_app" by (simp add: listening_def sum_app_def)
  have p: "packed one_listener ?t ''x''" by (simp add: packed_def listeners_of_def one_listener_unfold new_Scope_def)
  have "call_listeners sum_app 0 0 (Suc 0) ev one_listener = (one_listener\<lparr>rs_world := 7\<rparr>, ev)" for ev
    by (subst call_listeners.simps, subst call_listeners.simps) (simp add: one_listener_unfold sum_app_def exceptionHandler_def w)
  then have "broadcast_all sum_app ''x'' (scopes_from 0 ?t) (one_listener, new_event ''x'' 0) =
      (one_listener\<lparr>rs_world := 7\<rparr>, (new_event ''x'' 0)\<lparr>ev_currentScope := 1\<rparr>)"
    by (simp add: broadcast_all_def scopes_from_def call_named_def one_listener_unfold new_Scope_def new_event_def)
  from broadcast_reaches_all [OF l one_listener_tree one_listener_counted p _ this] show ?thesis by auto
qed

text \<open>
  The function that \<open>$on\<close> returns does not check that its listener is still there: called twice, it reduces the
  counts twice, and a broadcast no longer reaches the other listener of the scope.
\<close>

theorem second_deregistration_silences:
  "let st = off_event 0 1 ''x'' 7 (off_event 0 1 ''x'' 7 two_listeners)
   in live st ''x'' 1 = 1 \<and> (case broadcast sum_app ''x'' 0 st of Some (st', Inr ev) \<Rightarrow> rs_world st' = 0 | _ \<Rightarrow> False) \<and>
      (case broadcast sum_app ''x'' 0 (off_event 0 1 ''x'' 7 two_listeners) of Some (st', Inr ev) \<Rightarrow> rs_world st' = 8 | _ \<Rightarrow> False)"
  by code_simp

end
