(* ===== verification/Angular_Promise.thy ===== *)
theory Angular_Promise
  imports Js_Prelude "HOL-Library.Monad_Syntax"
begin

text \<open>
  The promises of \<open>$q\<close> (\<open>qFactory\<close> of \<open>angular-1.2.21.js\<close>). Deferred objects are named by the order of
  their creation; the functions that the code passes around are values of a datatype, with the functions of
  the application among them, whose effect is a parameter. Promises of other libraries are left out.
\<close>

section \<open>Data\<close>

text \<open>
  What a promise can be settled with: values of the application, the promise of a deferred object, the object
  that \<open>all\<close> collects results in, an exception of the language.
\<close>

datatype 'v pval = Undef | Val 'v | Prom nat | Results nat | Raised js_error

text \<open>An object with a method \<open>then\<close>: of a deferred, of \<open>ref\<close>, of \<open>createInternalRejectedPromise\<close>.\<close>

datatype 'v thenable = OfDeferred nat | Fulfilled "'v pval" | Rejected "'v pval"

text \<open>
  Functions: of the application, the defaults, those that \<open>then\<close>, \<open>finally\<close>, \<open>when\<close> and \<open>all\<close> make. The number
  in them is the deferred object, the call of \<open>when\<close> or the call of \<open>all\<close> that they are closed over.
\<close>

datatype ('f, 'v) fn =
    User 'f
  | DefaultCallback
  | DefaultErrback
  | WrappedCallback nat "('f, 'v) fn"
  | WrappedErrback nat "('f, 'v) fn"
  | WrappedProgressback nat "('f, 'v) fn"
  | FinallyCallback "('f, 'v) fn" bool
  | MakePromise "'v pval" bool
  | MakeRejected
  | WhenCallback nat "('f, 'v) fn" "('f, 'v) fn" "('f, 'v) fn"
  | WhenErrback nat "('f, 'v) fn"
  | WhenProgressback nat "('f, 'v) fn"
  | WhenWrapped "('f, 'v) fn"
  | WhenWrappedProgress "('f, 'v) fn"
  | AllCallback nat string
  | AllErrback nat string

text \<open>
  The variables of \<open>defer\<close>: \<open>pending\<close> and \<open>value\<close> change together, so \<open>df_value\<close> is \<open>None\<close> while
  \<open>pending\<close> is an array; \<open>df_callbacks\<close> is that array, which \<open>resolve\<close> and \<open>notify\<close> keep.
\<close>

record ('f, 'v) deferred =
  df_callbacks :: "(('f, 'v) fn \<times> ('f, 'v) fn \<times> ('f, 'v) fn) list"
  df_value :: "'v thenable option"

text \<open>The variables of a call of \<open>when\<close> and of a call of \<open>all\<close>.\<close>

record when_call =
  wh_result :: nat
  wh_done :: bool

record 'v all_call =
  al_deferred :: nat
  al_counter :: int
  al_results :: "(string \<times> 'v pval) list"

text \<open>The functions given to \<open>nextTick\<close>, in \<open>resolve\<close>, \<open>notify\<close>, \<open>ref\<close>, \<open>createInternalRejectedPromise\<close> and \<open>when\<close>.\<close>

datatype ('f, 'v) task =
    TickResolve nat
  | TickNotify nat "'v pval"
  | TickFulfilled nat "('f, 'v) fn option" "'v pval"
  | TickRejected nat "('f, 'v) fn option" "'v pval"
  | TickWhen nat "'v pval" "('f, 'v) fn" "('f, 'v) fn" "('f, 'v) fn"

text \<open>\<open>q_ticks\<close> is the queue of \<open>nextTick\<close>, \<open>q_errors\<close> what the exception handler got, \<open>q_calls\<close> the calls of the application's functions so far.\<close>

record ('f, 'v) qstate =
  q_defs :: "('f, 'v) deferred list"
  q_whens :: "when_call list"
  q_alls :: "'v all_call list"
  q_ticks :: "('f, 'v) task list"
  q_errors :: "'v pval list"
  q_calls :: "('f \<times> 'v pval) list"

text \<open>A call of the application's function: \<open>Inl\<close> what it throws, \<open>Inr\<close> what it returns, \<open>None\<close> when it does not return.\<close>

type_synonym ('f, 'v) outcome = "(('v pval + 'v pval) \<times> ('f, 'v) qstate) option"
type_synonym ('f, 'v) app_fun = "'f \<Rightarrow> 'v pval \<Rightarrow> ('f, 'v) qstate \<Rightarrow> ('f, 'v) outcome"

section \<open>Deferred objects\<close>

definition q_empty :: "('f, 'v) qstate" where
  "q_empty = \<lparr>q_defs = [], q_whens = [], q_alls = [], q_ticks = [], q_errors = [], q_calls = []\<rparr>"

definition nextTick :: "('f, 'v) task \<Rightarrow> ('f, 'v) qstate \<Rightarrow> ('f, 'v) qstate" where
  "nextTick t st = st\<lparr>q_ticks := q_ticks st @ [t]\<rparr>"

definition q_handler :: "'v pval \<Rightarrow> ('f, 'v) qstate \<Rightarrow> ('f, 'v) qstate" where
  "q_handler e st = st\<lparr>q_errors := q_errors st @ [e]\<rparr>"

definition new_deferred :: "('f, 'v) qstate \<Rightarrow> nat \<times> ('f, 'v) qstate" where
  "new_deferred st = (length (q_defs st), st\<lparr>q_defs := q_defs st @ [\<lparr>df_callbacks = [], df_value = None\<rparr>]\<rparr>)"

text \<open>\<open>ref\<close>: a promise as it is, anything else as an object that calls back with the value.\<close>

fun ref :: "'v pval \<Rightarrow> 'v thenable" where
  "ref (Prom d) = OfDeferred d"
| "ref v = Fulfilled v"

text \<open>\<open>resolve(val)\<close> with \<open>ref(val)\<close> as its argument.\<close>

definition resolve_to :: "nat \<Rightarrow> 'v thenable \<Rightarrow> ('f, 'v) qstate \<Rightarrow> ('f, 'v) qstate" where
  "resolve_to d t st =
     (let df = q_defs st ! d in
      if df_value df = None
      then (let st = st\<lparr>q_defs := (q_defs st)[d := df\<lparr>df_value := Some t\<rparr>]\<rparr>
            in if df_callbacks df \<noteq> [] then nextTick (TickResolve d) st else st)
      else st)"

definition resolve :: "nat \<Rightarrow> 'v pval \<Rightarrow> ('f, 'v) qstate \<Rightarrow> ('f, 'v) qstate" where
  "resolve d val = resolve_to d (ref val)"

definition reject_deferred :: "nat \<Rightarrow> 'v pval \<Rightarrow> ('f, 'v) qstate \<Rightarrow> ('f, 'v) qstate" where
  "reject_deferred d reason = resolve_to d (Rejected reason)"

definition notify :: "nat \<Rightarrow> 'v pval \<Rightarrow> ('f, 'v) qstate \<Rightarrow> ('f, 'v) qstate" where
  "notify d progress st =
     (let df = q_defs st ! d in
      if df_value df = None \<and> df_callbacks df \<noteq> [] then nextTick (TickNotify d progress) st else st)"

definition or_callback :: "('f, 'v) fn option \<Rightarrow> ('f, 'v) fn" where
  "or_callback f = (case f of None \<Rightarrow> DefaultCallback | Some g \<Rightarrow> g)"

definition or_errback :: "('f, 'v) fn option \<Rightarrow> ('f, 'v) fn" where
  "or_errback f = (case f of None \<Rightarrow> DefaultErrback | Some g \<Rightarrow> g)"

text \<open>\<open>pending.push([...])\<close>.\<close>

definition add_callbacks :: "nat \<Rightarrow> ('f, 'v) fn \<times> ('f, 'v) fn \<times> ('f, 'v) fn \<Rightarrow> ('f, 'v) qstate \<Rightarrow> ('f, 'v) qstate" where
  "add_callbacks d c st = st\<lparr>q_defs := (q_defs st)[d := (q_defs st ! d)\<lparr>df_callbacks := df_callbacks (q_defs st ! d) @ [c]\<rparr>]\<rparr>"

text \<open>
  \<open>then(callback, errback, progressback)\<close>, with \<open>None\<close> for what is not a function. A settled deferred asks
  the object it is settled with, which may be the promise of another one; \<open>None\<close> when that never ends.
\<close>

partial_function (option) then_on ::
    "'v thenable \<Rightarrow> ('f, 'v) fn option \<Rightarrow> ('f, 'v) fn option \<Rightarrow> ('f, 'v) fn option \<Rightarrow> ('f, 'v) qstate \<Rightarrow>
     (nat \<times> ('f, 'v) qstate) option" where
  "then_on t callback errback progressback st =
     (let (r, st) = new_deferred st in
      case t of
        OfDeferred d \<Rightarrow>
          (let wc = WrappedCallback r (or_callback callback);
               we = WrappedErrback r (or_errback errback);
               wp = WrappedProgressback r (or_callback progressback)
           in case df_value (q_defs st ! d) of
                None \<Rightarrow> Some (r, add_callbacks d (wc, we, wp) st)
              | Some value \<Rightarrow> do { (_, st) \<leftarrow> then_on value (Some wc) (Some we) (Some wp) st; Some (r, st) })
      | Fulfilled v \<Rightarrow> Some (r, nextTick (TickFulfilled r callback v) st)
      | Rejected reason \<Rightarrow> Some (r, nextTick (TickRejected r errback reason) st))"

definition promise_then :: "nat \<Rightarrow> ('f, 'v) fn option \<Rightarrow> ('f, 'v) fn option \<Rightarrow> ('f, 'v) fn option \<Rightarrow> ('f, 'v) qstate \<Rightarrow>
     (nat \<times> ('f, 'v) qstate) option" where
  "promise_then d = then_on (OfDeferred d)"

definition promise_catch :: "nat \<Rightarrow> ('f, 'v) fn option \<Rightarrow> ('f, 'v) qstate \<Rightarrow> (nat \<times> ('f, 'v) qstate) option" where
  "promise_catch d callback = promise_then d None callback None"

text \<open>The callback of \<open>finally\<close> is a function or \<open>None\<close> for one that is missing.\<close>

definition promise_finally :: "nat \<Rightarrow> ('f, 'v) fn option \<Rightarrow> ('f, 'v) qstate \<Rightarrow> (nat \<times> ('f, 'v) qstate) option" where
  "promise_finally d callback =
     promise_then d (Some (FinallyCallback (or_callback callback) True)) (Some (FinallyCallback (or_callback callback) False)) None"

section \<open>The functions of \<open>$q\<close>\<close>

definition makePromise :: "'v pval \<Rightarrow> bool \<Rightarrow> ('f, 'v) qstate \<Rightarrow> 'v pval \<times> ('f, 'v) qstate" where
  "makePromise value resolved st =
     (let (r, st) = new_deferred st in (Prom r, (if resolved then resolve r value st else reject_deferred r value st)))"

definition q_reject :: "'v pval \<Rightarrow> ('f, 'v) qstate \<Rightarrow> 'v pval \<times> ('f, 'v) qstate" where
  "q_reject reason st = (let (r, st) = new_deferred st in (Prom r, reject_deferred r reason st))"

text \<open>What follows a call in \<open>try\<close>: \<open>ok\<close> for what it returns, \<open>bad\<close> for what it throws.\<close>

definition try_call ::
    "('f, 'v) outcome \<Rightarrow> ('v pval \<Rightarrow> ('f, 'v) qstate \<Rightarrow> ('f, 'v) outcome) \<Rightarrow>
     ('v pval \<Rightarrow> ('f, 'v) qstate \<Rightarrow> ('f, 'v) outcome) \<Rightarrow> ('f, 'v) outcome" where
  "try_call out ok bad =
     (case out of None \<Rightarrow> None | Some (Inr x, st) \<Rightarrow> ok x st | Some (Inl e, st) \<Rightarrow> bad e st)"

definition returns :: "'v pval \<times> ('f, 'v) qstate \<Rightarrow> ('f, 'v) outcome" where
  "returns p = Some (Inr (fst p), snd p)"

definition when_done :: "nat \<Rightarrow> ('f, 'v) qstate \<Rightarrow> ('f, 'v) qstate" where
  "when_done w st = st\<lparr>q_whens := (q_whens st)[w := (q_whens st ! w)\<lparr>wh_done := True\<rparr>]\<rparr>"

text \<open>\<open>wrappedCallback\<close>, \<open>wrappedErrback\<close> and \<open>wrappedProgressback\<close> of \<open>when\<close>, after the call of the function they wrap.\<close>

definition when_wrapped :: "('f, 'v) outcome \<Rightarrow> ('f, 'v) outcome" where
  "when_wrapped out = try_call out (\<lambda>y st. returns (y, st)) (\<lambda>e st. returns (q_reject e (q_handler e st)))"

definition when_wrapped_progress :: "('f, 'v) outcome \<Rightarrow> ('f, 'v) outcome" where
  "when_wrapped_progress out = try_call out (\<lambda>y st. returns (y, st)) (\<lambda>e st. returns (Undef, q_handler e st))"

text \<open>The callback of \<open>all\<close> for one key.\<close>

definition all_arrived :: "nat \<Rightarrow> string \<Rightarrow> 'v pval \<Rightarrow> ('f, 'v) qstate \<Rightarrow> ('f, 'v) qstate" where
  "all_arrived a key value st =
     (let c = q_alls st ! a in
      if map_of (al_results c) key \<noteq> None then st
      else (let c = c\<lparr>al_results := al_results c @ [(key, value)], al_counter := al_counter c - 1\<rparr>;
                st = st\<lparr>q_alls := (q_alls st)[a := c]\<rparr>
            in if al_counter c = 0 then resolve (al_deferred c) (Results a) st else st))"

text \<open>
  Calling a function.
\<close>

primrec call_fn :: "('f, 'v) app_fun \<Rightarrow> ('f, 'v) fn \<Rightarrow> 'v pval \<Rightarrow> ('f, 'v) qstate \<Rightarrow> ('f, 'v) outcome" where
  "call_fn app (User f) x st = app f x (st\<lparr>q_calls := q_calls st @ [(f, x)]\<rparr>)"
| "call_fn app DefaultCallback x st = Some (Inr x, st)"
| "call_fn app DefaultErrback x st = returns (q_reject x st)"
| "call_fn app (WrappedCallback r f) x st =
     try_call (call_fn app f x st) (\<lambda>y st. returns (Undef, resolve r y st)) (\<lambda>e st. returns (Undef, q_handler e (reject_deferred r e st)))"
| "call_fn app (WrappedErrback r f) x st =
     try_call (call_fn app f x st) (\<lambda>y st. returns (Undef, resolve r y st)) (\<lambda>e st. returns (Undef, q_handler e (reject_deferred r e st)))"
| "call_fn app (WrappedProgressback r f) x st =
     try_call (call_fn app f x st) (\<lambda>y st. returns (Undef, notify r y st)) (\<lambda>e st. returns (Undef, q_handler e st))"
| "call_fn app (FinallyCallback f isResolved) x st =
     try_call (call_fn app f Undef st)
       (\<lambda>y st. case y of
          Prom d \<Rightarrow> (case promise_then d (Some (MakePromise x isResolved)) (Some MakeRejected) None st of
                       None \<Rightarrow> None | Some (r, st) \<Rightarrow> returns (Prom r, st))
        | _ \<Rightarrow> returns (makePromise x isResolved st))
       (\<lambda>e st. returns (makePromise e False st))"
| "call_fn app (MakePromise value isResolved) x st = returns (makePromise value isResolved st)"
| "call_fn app MakeRejected x st = returns (makePromise x False st)"
| "call_fn app (WhenCallback w cb eb pb) x st =
     (if wh_done (q_whens st ! w) then returns (Undef, st)
      else (case then_on (ref x) (Some (WhenWrapped cb)) (Some (WhenWrapped eb)) (Some (WhenWrappedProgress pb)) (when_done w st) of
              None \<Rightarrow> None
            | Some (r, st) \<Rightarrow> returns (Undef, resolve (wh_result (q_whens st ! w)) (Prom r) st)))"
| "call_fn app (WhenErrback w eb) x st =
     (if wh_done (q_whens st ! w) then returns (Undef, st)
      else try_call (when_wrapped (call_fn app eb x (when_done w st)))
             (\<lambda>y st. returns (Undef, resolve (wh_result (q_whens st ! w)) y st)) (\<lambda>e st. Some (Inl e, st)))"
| "call_fn app (WhenProgressback w pb) x st =
     (if wh_done (q_whens st ! w) then returns (Undef, st)
      else try_call (when_wrapped_progress (call_fn app pb x st))
             (\<lambda>y st. returns (Undef, notify (wh_result (q_whens st ! w)) y st)) (\<lambda>e st. Some (Inl e, st)))"
| "call_fn app (WhenWrapped f) x st = when_wrapped (call_fn app f x st)"
| "call_fn app (WhenWrappedProgress f) x st = when_wrapped_progress (call_fn app f x st)"
| "call_fn app (AllCallback a key) x st = returns (Undef, all_arrived a key x st)"
| "call_fn app (AllErrback a key) x st =
     returns (Undef, (let c = q_alls st ! a in
       if map_of (al_results c) key \<noteq> None then st else reject_deferred (al_deferred c) x st))"

definition when_promise :: "'v pval \<Rightarrow> ('f, 'v) fn option \<Rightarrow> ('f, 'v) fn option \<Rightarrow> ('f, 'v) fn option \<Rightarrow> ('f, 'v) qstate \<Rightarrow>
     nat \<times> ('f, 'v) qstate" where
  "when_promise value callback errback progressback st =
     (let (r, st) = new_deferred st; w = length (q_whens st);
          st = st\<lparr>q_whens := q_whens st @ [\<lparr>wh_result = r, wh_done = False\<rparr>]\<rparr>
      in (r, nextTick (TickWhen w value (or_callback callback) (or_errback errback) (or_callback progressback)) st))"

text \<open>The loop of \<open>all\<close> over the promises with their keys.\<close>

fun all_loop :: "nat \<Rightarrow> (string \<times> 'v pval) list \<Rightarrow> ('f, 'v) qstate \<Rightarrow> ('f, 'v) qstate option" where
  "all_loop a [] st = Some st"
| "all_loop a ((key, promise) # ps) st =
     (let c = q_alls st ! a; st = st\<lparr>q_alls := (q_alls st)[a := c\<lparr>al_counter := al_counter c + 1\<rparr>]\<rparr> in
      case then_on (ref promise) (Some (AllCallback a key)) (Some (AllErrback a key)) None st of
        None \<Rightarrow> None
      | Some (_, st) \<Rightarrow> all_loop a ps st)"

definition all_promises :: "(string \<times> 'v pval) list \<Rightarrow> ('f, 'v) qstate \<Rightarrow> (nat \<times> ('f, 'v) qstate) option" where
  "all_promises promises st =
     (let (r, st) = new_deferred st; a = length (q_alls st);
          st = st\<lparr>q_alls := q_alls st @ [\<lparr>al_deferred = r, al_counter = 0, al_results = []\<rparr>]\<rparr>
      in case all_loop a promises st of
           None \<Rightarrow> None
         | Some st \<Rightarrow> Some (r, if al_counter (q_alls st ! a) = 0 then resolve r (Results a) st else st))"

section \<open>The queue\<close>

text \<open>The loops over the callbacks in \<open>resolve\<close> and \<open>notify\<close>; an exception ends the loop.\<close>

fun then_each :: "'v thenable \<Rightarrow> (('f, 'v) fn \<times> ('f, 'v) fn \<times> ('f, 'v) fn) list \<Rightarrow> ('f, 'v) qstate \<Rightarrow> ('f, 'v) qstate option" where
  "then_each t [] st = Some st"
| "then_each t ((c, e, p) # cs) st =
     (case then_on t (Some c) (Some e) (Some p) st of None \<Rightarrow> None | Some (_, st) \<Rightarrow> then_each t cs st)"

fun notify_each :: "('f, 'v) app_fun \<Rightarrow> (('f, 'v) fn \<times> ('f, 'v) fn \<times> ('f, 'v) fn) list \<Rightarrow> 'v pval \<Rightarrow> ('f, 'v) qstate \<Rightarrow> ('f, 'v) outcome" where
  "notify_each app [] x st = returns (Undef, st)"
| "notify_each app ((c, e, p) # cs) x st =
     try_call (call_fn app p x st) (\<lambda>_ st. notify_each app cs x st) (\<lambda>e st. Some (Inl e, st))"

text \<open>Running what was given to \<open>nextTick\<close>. The callbacks of \<open>notify\<close> are those of the array at that time.\<close>

fun run_tick :: "('f, 'v) app_fun \<Rightarrow> ('f, 'v) task \<Rightarrow> ('f, 'v) qstate \<Rightarrow> ('f, 'v) outcome" where
  "run_tick app (TickResolve d) st =
     (case df_value (q_defs st ! d) of
        None \<Rightarrow> Some (Inl (Raised TypeError), st)
      | Some t \<Rightarrow> (case then_each t (df_callbacks (q_defs st ! d)) st of None \<Rightarrow> None | Some st \<Rightarrow> returns (Undef, st)))"
| "run_tick app (TickNotify d x) st = notify_each app (df_callbacks (q_defs st ! d)) x st"
| "run_tick app (TickFulfilled r callback v) st =
     (case callback of
        None \<Rightarrow> Some (Inl (Raised TypeError), st)
      | Some f \<Rightarrow> try_call (call_fn app f v st) (\<lambda>y st. returns (Undef, resolve r y st)) (\<lambda>e st. Some (Inl e, st)))"
| "run_tick app (TickRejected r errback x) st =
     try_call (call_fn app (or_errback errback) x st)
       (\<lambda>y st. returns (Undef, resolve r y st)) (\<lambda>e st. returns (Undef, q_handler e (reject_deferred r e st)))"
| "run_tick app (TickWhen w v cb eb pb) st =
     (case then_on (ref v) (Some (WhenCallback w cb eb pb)) (Some (WhenErrback w eb)) (Some (WhenProgressback w pb)) st of
        None \<Rightarrow> None | Some (_, st) \<Rightarrow> returns (Undef, st))"

text \<open>
  The queue of \<open>nextTick\<close> is the queue of \<open>$evalAsync\<close>: \<open>$digest\<close> takes its first entry as long as there is one
  and hands exceptions to the exception handler.
\<close>

definition run_first :: "('f, 'v) app_fun \<Rightarrow> ('f, 'v) qstate \<Rightarrow> ('f, 'v) qstate option" where
  "run_first app st =
     (case q_ticks st of
        [] \<Rightarrow> Some st
      | t # ts \<Rightarrow> (case run_tick app t (st\<lparr>q_ticks := ts\<rparr>) of
                    None \<Rightarrow> None
                  | Some (Inr _, st) \<Rightarrow> Some st
                  | Some (Inl e, st) \<Rightarrow> Some (q_handler e st)))"

partial_function (option) flush :: "('f, 'v) app_fun \<Rightarrow> ('f, 'v) qstate \<Rightarrow> ('f, 'v) qstate option" where
  "flush app st = (if q_ticks st = [] then Some st else do { st \<leftarrow> run_first app st; flush app st })"

section \<open>Induction over \<open>then\<close>\<close>

lemma then_on_induct [consumes 1, case_names pending asked fulfilled rejected]:
  assumes r: "then_on t cb eb pb st = Some y"
    and pending: "\<And>d cb eb pb st r st1. new_deferred st = (r, st1) \<Longrightarrow> df_value (q_defs st1 ! d) = None \<Longrightarrow>
      P (OfDeferred d) cb eb pb st (r, add_callbacks d (WrappedCallback r (or_callback cb), WrappedErrback r (or_errback eb),
        WrappedProgressback r (or_callback pb)) st1)"
    and asked: "\<And>d cb eb pb st r st1 t r2 st2. new_deferred st = (r, st1) \<Longrightarrow> df_value (q_defs st1 ! d) = Some t \<Longrightarrow>
      P t (Some (WrappedCallback r (or_callback cb))) (Some (WrappedErrback r (or_errback eb)))
        (Some (WrappedProgressback r (or_callback pb))) st1 (r2, st2) \<Longrightarrow> P (OfDeferred d) cb eb pb st (r, st2)"
    and fulfilled: "\<And>v cb eb pb st r st1. new_deferred st = (r, st1) \<Longrightarrow>
      P (Fulfilled v) cb eb pb st (r, nextTick (TickFulfilled r cb v) st1)"
    and rejected: "\<And>v cb eb pb st r st1. new_deferred st = (r, st1) \<Longrightarrow>
      P (Rejected v) cb eb pb st (r, nextTick (TickRejected r eb v) st1)"
  shows "P t cb eb pb st y"
proof (rule then_on.raw_induct [OF _ r])
  fix then' t cb eb pb st y
  assume ih: "\<And>t cb eb pb st y. then' t cb eb pb st = Some y \<Longrightarrow> P t cb eb pb st y"
    and body: "(let (r, st) = new_deferred st in
      case t of
        OfDeferred d \<Rightarrow>
          (let wc = WrappedCallback r (or_callback cb); we = WrappedErrback r (or_errback eb);
               wp = WrappedProgressback r (or_callback pb)
           in case df_value (q_defs st ! d) of
                None \<Rightarrow> Some (r, add_callbacks d (wc, we, wp) st)
              | Some value \<Rightarrow> do { (_, st) \<leftarrow> then' value (Some wc) (Some we) (Some wp) st; Some (r, st) })
      | Fulfilled v \<Rightarrow> Some (r, nextTick (TickFulfilled r cb v) st)
      | Rejected reason \<Rightarrow> Some (r, nextTick (TickRejected r eb reason) st)) = Some y"
  obtain r st1 where n: "new_deferred st = (r, st1)" by fastforce
  show "P t cb eb pb st y"
  proof (cases t)
    case (OfDeferred d)
    show ?thesis
    proof (cases "df_value (q_defs st1 ! d)")
      case None
      with body n OfDeferred pending [OF n None] show ?thesis by (auto simp: Let_def)
    next
      case (Some t')
      with body n OfDeferred obtain z where "then' t' (Some (WrappedCallback r (or_callback cb))) (Some (WrappedErrback r (or_errback eb)))
          (Some (WrappedProgressback r (or_callback pb))) st1 = Some z" and "y = (r, snd z)"
        by (auto simp: Let_def Option.bind_eq_Some_conv)
      with asked [OF n Some, of cb eb pb "fst z" "snd z"] ih OfDeferred show ?thesis by simp
    qed
  qed (use body n fulfilled [OF n] rejected [OF n] in \<open>auto simp: Let_def\<close>)
qed

end
