(* ===== verification/Angular_Continue.thy ===== *)
theory Angular_Continue
  imports Angular_Promise "HOL-Library.Sublist"
begin

text \<open>
  What holds of promises in every state that the application and the queue can reach: references are to
  objects that exist, a deferred that is settled stays so, and the result of \<open>then\<close> is never forgotten.
\<close>

section \<open>Well-formed states\<close>

fun pv_ok :: "('f, 'v) qstate \<Rightarrow> 'v pval \<Rightarrow> bool" where
  "pv_ok st (Prom d) \<longleftrightarrow> d < length (q_defs st)"
| "pv_ok st (Results a) \<longleftrightarrow> a < length (q_alls st)"
| "pv_ok st _ \<longleftrightarrow> True"

fun th_ok :: "('f, 'v) qstate \<Rightarrow> 'v thenable \<Rightarrow> bool" where
  "th_ok st (OfDeferred d) \<longleftrightarrow> d < length (q_defs st)"
| "th_ok st (Fulfilled v) \<longleftrightarrow> pv_ok st v"
| "th_ok st (Rejected v) \<longleftrightarrow> pv_ok st v"

text \<open>The functions that the application can pass, or that stand for one it did not pass.\<close>

fun plain :: "('f, 'v) fn \<Rightarrow> bool" where
  "plain (User f) \<longleftrightarrow> True"
| "plain DefaultCallback \<longleftrightarrow> True"
| "plain DefaultErrback \<longleftrightarrow> True"
| "plain _ \<longleftrightarrow> False"

primrec fn_ok :: "('f, 'v) qstate \<Rightarrow> ('f, 'v) fn \<Rightarrow> bool" where
  "fn_ok st (User f) \<longleftrightarrow> True"
| "fn_ok st DefaultCallback \<longleftrightarrow> True"
| "fn_ok st DefaultErrback \<longleftrightarrow> True"
| "fn_ok st (WrappedCallback r f) \<longleftrightarrow> r < length (q_defs st) \<and> fn_ok st f"
| "fn_ok st (WrappedErrback r f) \<longleftrightarrow> r < length (q_defs st) \<and> fn_ok st f"
| "fn_ok st (WrappedProgressback r f) \<longleftrightarrow> r < length (q_defs st) \<and> fn_ok st f"
| "fn_ok st (FinallyCallback f b) \<longleftrightarrow> plain f"
| "fn_ok st (MakePromise v b) \<longleftrightarrow> pv_ok st v"
| "fn_ok st MakeRejected \<longleftrightarrow> True"
| "fn_ok st (WhenCallback w cb eb pb) \<longleftrightarrow> w < length (q_whens st) \<and> plain cb \<and> plain eb \<and> plain pb"
| "fn_ok st (WhenErrback w eb) \<longleftrightarrow> w < length (q_whens st) \<and> plain eb"
| "fn_ok st (WhenProgressback w pb) \<longleftrightarrow> w < length (q_whens st) \<and> plain pb"
| "fn_ok st (WhenWrapped f) \<longleftrightarrow> plain f"
| "fn_ok st (WhenWrappedProgress f) \<longleftrightarrow> plain f"
| "fn_ok st (AllCallback a k) \<longleftrightarrow> a < length (q_alls st)"
| "fn_ok st (AllErrback a k) \<longleftrightarrow> a < length (q_alls st)"

abbreviation opt_ok :: "('f, 'v) qstate \<Rightarrow> ('f, 'v) fn option \<Rightarrow> bool" where
  "opt_ok st f \<equiv> pred_option (fn_ok st) f"

fun task_ok :: "('f, 'v) qstate \<Rightarrow> ('f, 'v) task \<Rightarrow> bool" where
  "task_ok st (TickResolve d) \<longleftrightarrow> d < length (q_defs st) \<and> df_value (q_defs st ! d) \<noteq> None"
| "task_ok st (TickNotify d v) \<longleftrightarrow> d < length (q_defs st) \<and> pv_ok st v"
| "task_ok st (TickFulfilled r f v) \<longleftrightarrow> r < length (q_defs st) \<and> opt_ok st f \<and> pv_ok st v"
| "task_ok st (TickRejected r f v) \<longleftrightarrow> r < length (q_defs st) \<and> opt_ok st f \<and> pv_ok st v"
| "task_ok st (TickWhen w v cb eb pb) \<longleftrightarrow> w < length (q_whens st) \<and> pv_ok st v \<and> plain cb \<and> plain eb \<and> plain pb"

definition deferred_ok :: "('f, 'v) qstate \<Rightarrow> ('f, 'v) deferred \<Rightarrow> bool" where
  "deferred_ok st df \<longleftrightarrow>
     (\<forall>(c, e, p) \<in> set (df_callbacks df). fn_ok st c \<and> fn_ok st e \<and> fn_ok st p) \<and> pred_option (th_ok st) (df_value df)"

definition q_ok :: "('f, 'v) qstate \<Rightarrow> bool" where
  "q_ok st \<longleftrightarrow> list_all (deferred_ok st) (q_defs st) \<and> list_all (\<lambda>c. wh_result c < length (q_defs st)) (q_whens st) \<and>
     list_all (\<lambda>c. al_deferred c < length (q_defs st) \<and> list_all (\<lambda>(k, v). pv_ok st v) (al_results c)) (q_alls st) \<and>
     list_all (task_ok st) (q_ticks st)"

definition settled :: "('f, 'v) qstate \<Rightarrow> nat \<Rightarrow> bool" where
  "settled st d \<longleftrightarrow> d < length (q_defs st) \<and> df_value (q_defs st ! d) \<noteq> None"

text \<open>A call of \<open>when\<close> that is done has settled its result.\<close>

definition when_inv :: "('f, 'v) qstate \<Rightarrow> bool" where
  "when_inv st \<longleftrightarrow> (\<forall>c \<in> set (q_whens st). wh_done c \<longrightarrow> settled st (wh_result c))"

section \<open>What an operation can do\<close>

text \<open>
  Objects are added, a settled deferred keeps its value and its callbacks, a deferred is settled only with an
  entry of the queue for its callbacks, and entries of the queue are added at its end.
\<close>

definition defs_ext :: "('f, 'v) qstate \<Rightarrow> ('f, 'v) qstate \<Rightarrow> bool" where
  "defs_ext st st' \<longleftrightarrow> length (q_defs st) \<le> length (q_defs st') \<and>
     (\<forall>d < length (q_defs st). let df = q_defs st ! d; df' = q_defs st' ! d in
        prefix (df_callbacks df) (df_callbacks df') \<and>
        (df_value df \<noteq> None \<longrightarrow> df' = df) \<and>
        (df_value df = None \<and> df_value df' \<noteq> None \<and> df_callbacks df' \<noteq> [] \<longrightarrow> TickResolve d \<in> set (q_ticks st')))"

definition objs_ext :: "('f, 'v) qstate \<Rightarrow> ('f, 'v) qstate \<Rightarrow> bool" where
  "objs_ext st st' \<longleftrightarrow> prefix (q_ticks st) (q_ticks st') \<and>
     length (q_whens st) \<le> length (q_whens st') \<and> (\<forall>w < length (q_whens st). wh_result (q_whens st' ! w) = wh_result (q_whens st ! w)) \<and>
     length (q_alls st) \<le> length (q_alls st')"

definition whens_ext :: "('f, 'v) qstate \<Rightarrow> ('f, 'v) qstate \<Rightarrow> bool" where
  "whens_ext st st' \<longleftrightarrow> (\<forall>w < length (q_whens st'). wh_done (q_whens st' ! w) \<longrightarrow>
     w < length (q_whens st) \<and> wh_done (q_whens st ! w) \<or> settled st' (wh_result (q_whens st' ! w)))"

definition q_ext :: "('f, 'v) qstate \<Rightarrow> ('f, 'v) qstate \<Rightarrow> bool" where
  "q_ext st st' \<longleftrightarrow> defs_ext st st' \<and> objs_ext st st'"

lemma q_ext_refl [simp]: "q_ext st st" "whens_ext st st"
  by (auto simp: q_ext_def defs_ext_def objs_ext_def whens_ext_def Let_def)

lemma defs_extD:
  assumes "defs_ext st st'" "d < length (q_defs st)"
  shows "d < length (q_defs st')" "prefix (df_callbacks (q_defs st ! d)) (df_callbacks (q_defs st' ! d))"
    "df_value (q_defs st ! d) \<noteq> None \<Longrightarrow> q_defs st' ! d = q_defs st ! d"
    "df_value (q_defs st ! d) = None \<Longrightarrow> df_value (q_defs st' ! d) \<noteq> None \<Longrightarrow> df_callbacks (q_defs st' ! d) \<noteq> [] \<Longrightarrow>
       TickResolve d \<in> set (q_ticks st')"
  using assms by (auto simp: defs_ext_def Let_def)

lemma q_ext_trans:
  assumes "q_ext st st'" "q_ext st' st''"
  shows "q_ext st st''"
proof -
  have o: "objs_ext st st''" using assms
    by (auto simp: q_ext_def objs_ext_def intro: prefix_order.trans)
  have "prefix (df_callbacks (q_defs st ! d)) (df_callbacks (q_defs st'' ! d)) \<and>
      (df_value (q_defs st ! d) \<noteq> None \<longrightarrow> q_defs st'' ! d = q_defs st ! d) \<and>
      (df_value (q_defs st ! d) = None \<and> df_value (q_defs st'' ! d) \<noteq> None \<and> df_callbacks (q_defs st'' ! d) \<noteq> [] \<longrightarrow>
       TickResolve d \<in> set (q_ticks st''))" if d: "d < length (q_defs st)" for d
  proof -
    have a: "defs_ext st st'" "defs_ext st' st''" "prefix (q_ticks st') (q_ticks st'')"
      using assms by (simp_all add: q_ext_def objs_ext_def)
    note x = defs_extD [OF a(1) d] and y = defs_extD [OF a(2) defs_extD(1) [OF a(1) d]]
    show ?thesis
    proof (cases "df_value (q_defs st' ! d) = None")
      case True
      have "df_value (q_defs st ! d) = None"
      proof (rule ccontr)
        assume "df_value (q_defs st ! d) \<noteq> None"
        with x(3) True show False by simp
      qed
      moreover have "prefix (df_callbacks (q_defs st ! d)) (df_callbacks (q_defs st'' ! d))"
        by (rule prefix_order.trans [OF x(2) y(2)])
      ultimately show ?thesis using y(4) True by blast
    next
      case False
      then have "q_defs st'' ! d = q_defs st' ! d" by (rule y(3))
      moreover have "set (q_ticks st') \<subseteq> set (q_ticks st'')" by (rule set_mono_prefix [OF a(3)])
      ultimately show ?thesis using x(2-4) False by auto
    qed
  qed
  with o assms show ?thesis by (auto simp: q_ext_def defs_ext_def Let_def)
qed

lemma settled_ext: "q_ext st st' \<Longrightarrow> settled st d \<Longrightarrow> settled st' d"
  using defs_extD [of st st' d] by (auto simp: q_ext_def settled_def)

lemma whens_ext_trans: "whens_ext st st' \<Longrightarrow> whens_ext st' st'' \<Longrightarrow> q_ext st' st'' \<Longrightarrow> whens_ext st st''"
proof (unfold whens_ext_def [of st st''], intro allI impI)
  fix w
  assume a: "whens_ext st st'" "whens_ext st' st''" "q_ext st' st''"
    and w: "w < length (q_whens st'')" "wh_done (q_whens st'' ! w)"
  show "w < length (q_whens st) \<and> wh_done (q_whens st ! w) \<or> settled st'' (wh_result (q_whens st'' ! w))"
  proof (cases "w < length (q_whens st') \<and> wh_done (q_whens st' ! w)")
    case True
    then have "wh_result (q_whens st'' ! w) = wh_result (q_whens st' ! w)" using a(3) by (simp add: q_ext_def objs_ext_def)
    with True a(1) settled_ext [OF a(3)] show ?thesis by (auto simp: whens_ext_def)
  next
    case False
    with a(2) w show ?thesis by (auto simp: whens_ext_def)
  qed
qed

lemma when_inv_ext: "when_inv st \<Longrightarrow> whens_ext st st' \<Longrightarrow> q_ext st st' \<Longrightarrow> when_inv st'"
proof (unfold when_inv_def [of st'], intro ballI impI)
  fix c
  assume a: "when_inv st" "whens_ext st st'" "q_ext st st'" and c: "c \<in> set (q_whens st')" "wh_done c"
  obtain w where w: "w < length (q_whens st')" "c = q_whens st' ! w" using c(1) by (metis in_set_conv_nth)
  show "settled st' (wh_result c)"
  proof (cases "w < length (q_whens st) \<and> wh_done (q_whens st ! w)")
    case True
    then have "settled st (wh_result (q_whens st ! w))" using a(1) by (simp add: when_inv_def)
    moreover have "wh_result c = wh_result (q_whens st ! w)" using a(3) w True by (simp add: q_ext_def objs_ext_def)
    ultimately show ?thesis using settled_ext [OF a(3)] by simp
  next
    case False
    with a(2) w c(2) show ?thesis by (auto simp: whens_ext_def)
  qed
qed

section \<open>References stay valid\<close>

lemma ext_lengths:
  assumes "q_ext st st'"
  shows "length (q_defs st) \<le> length (q_defs st')" "length (q_whens st) \<le> length (q_whens st')" "length (q_alls st) \<le> length (q_alls st')"
  using assms by (auto simp: q_ext_def defs_ext_def objs_ext_def)

lemma pv_ok_ext: "pv_ok st v \<Longrightarrow> q_ext st st' \<Longrightarrow> pv_ok st' v"
  using ext_lengths [of st st'] by (cases v) auto

lemma th_ok_ext: "th_ok st t \<Longrightarrow> q_ext st st' \<Longrightarrow> th_ok st' t"
  using ext_lengths [of st st'] by (cases t) (auto intro: pv_ok_ext)

lemma fn_ok_ext: "fn_ok st f \<Longrightarrow> q_ext st st' \<Longrightarrow> fn_ok st' f"
  using ext_lengths [of st st'] by (induction f) (auto intro: pv_ok_ext)

lemma opt_ok_ext: "opt_ok st f \<Longrightarrow> q_ext st st' \<Longrightarrow> opt_ok st' f"
  by (cases f) (auto intro: fn_ok_ext)

lemma task_ok_ext: "task_ok st t \<Longrightarrow> q_ext st st' \<Longrightarrow> task_ok st' t"
proof (cases t)
  case (TickResolve d)
  then show "task_ok st t \<Longrightarrow> q_ext st st' \<Longrightarrow> ?thesis" using settled_ext [of st st' d] by (auto simp: settled_def)
qed (use ext_lengths [of st st'] in \<open>auto intro: pv_ok_ext opt_ok_ext\<close>)

lemma deferred_ok_ext: "deferred_ok st df \<Longrightarrow> q_ext st st' \<Longrightarrow> deferred_ok st' df"
  by (cases "df_value df") (auto simp: deferred_ok_def intro: fn_ok_ext th_ok_ext)

lemma plain_ok: "plain f \<Longrightarrow> fn_ok st f"
  by (cases f) auto

text \<open>A state is well-formed after an operation if what the operation added is.\<close>

lemma q_okI:
  assumes "q_ok st" "q_ext st st'"
    and "\<forall>df \<in> set (q_defs st'). df \<in> set (q_defs st) \<or> deferred_ok st' df"
    and "\<forall>c \<in> set (q_whens st'). c \<in> set (q_whens st) \<or> wh_result c < length (q_defs st')"
    and "\<forall>c \<in> set (q_alls st'). c \<in> set (q_alls st) \<or> al_deferred c < length (q_defs st') \<and> list_all (\<lambda>(k, v). pv_ok st' v) (al_results c)"
    and "\<forall>t \<in> set (q_ticks st'). t \<in> set (q_ticks st) \<or> task_ok st' t"
  shows "q_ok st'"
proof -
  have "deferred_ok st' df" if "df \<in> set (q_defs st')" for df
    using that assms(1-3) by (auto simp: q_ok_def list_all_iff intro: deferred_ok_ext)
  moreover have "task_ok st' t" if "t \<in> set (q_ticks st')" for t
    using that assms(1,2,6) by (auto simp: q_ok_def list_all_iff intro: task_ok_ext)
  moreover have "wh_result c < length (q_defs st')" if "c \<in> set (q_whens st')" for c
    using that assms(1,4) ext_lengths(1) [OF assms(2)] by (fastforce simp: q_ok_def list_all_iff)
  moreover have "al_deferred c < length (q_defs st') \<and> list_all (\<lambda>(k, v). pv_ok st' v) (al_results c)" if "c \<in> set (q_alls st')" for c
  proof (cases "c \<in> set (q_alls st)")
    case True
    then have "al_deferred c < length (q_defs st)" "\<forall>(k, v) \<in> set (al_results c). pv_ok st v"
      using assms(1) by (auto simp: q_ok_def list_all_iff)
    then show ?thesis using ext_lengths(1) [OF assms(2)] pv_ok_ext [OF _ assms(2)] by (auto simp: list_all_iff)
  qed (use assms(5) that in blast)
  ultimately show ?thesis by (simp add: q_ok_def list_all_iff)
qed

text \<open>What an operation does to a well-formed state.\<close>

definition q_does :: "('f, 'v) qstate \<Rightarrow> ('f, 'v) qstate \<Rightarrow> bool" where
  "q_does st st' \<longleftrightarrow> q_ext st st' \<and> whens_ext st st' \<and> (q_ok st \<longrightarrow> q_ok st')"

lemma q_does_refl [simp]: "q_does st st"
  by (simp add: q_does_def)

lemma q_does_trans [trans]: "q_does st st' \<Longrightarrow> q_does st' st'' \<Longrightarrow> q_does st st''"
  unfolding q_does_def by (meson q_ext_trans whens_ext_trans)

lemma q_does_ext: "q_does st st' \<Longrightarrow> q_ext st st'"
  by (simp add: q_does_def)

lemmas does_ok = pv_ok_ext [OF _ q_does_ext] th_ok_ext [OF _ q_does_ext] fn_ok_ext [OF _ q_does_ext] opt_ok_ext [OF _ q_does_ext]
  task_ok_ext [OF _ q_does_ext]

lemma q_does_ok: "q_does st st' \<Longrightarrow> q_ok st \<Longrightarrow> q_ok st'"
  by (simp add: q_does_def)

lemma whens_ext_same: "q_whens st' = q_whens st \<Longrightarrow> whens_ext st st'"
  by (simp add: whens_ext_def)

lemma new_deferred_does: "new_deferred st = (r, st') \<Longrightarrow> q_does st st'"
proof -
  assume n: "new_deferred st = (r, st')"
  then have e: "q_ext st st'"
    by (auto simp: new_deferred_def q_ext_def defs_ext_def objs_ext_def Let_def nth_append)
  moreover have "q_ok st'" if "q_ok st"
    by (rule q_okI [OF that e]) (use n in \<open>auto simp: new_deferred_def deferred_ok_def\<close>)
  ultimately show ?thesis using n by (auto simp: q_does_def new_deferred_def intro: whens_ext_same)
qed

lemma nextTick_does: "task_ok st t \<Longrightarrow> q_does st (nextTick t st)"
proof -
  assume t: "task_ok st t"
  have e: "q_ext st (nextTick t st)"
    by (auto simp: nextTick_def q_ext_def defs_ext_def objs_ext_def Let_def)
  moreover have "q_ok (nextTick t st)" if "q_ok st"
    by (rule q_okI [OF that e]) (use task_ok_ext [OF t e] in \<open>auto simp: nextTick_def\<close>)
  ultimately show ?thesis by (auto simp: q_does_def nextTick_def intro: whens_ext_same)
qed

text \<open>The well-formedness of a state is about its objects and its queue.\<close>

lemma q_does_eq:
  assumes "q_defs st' = q_defs st" "q_whens st' = q_whens st" "q_alls st' = q_alls st" "q_ticks st' = q_ticks st"
  shows "q_does st st'"
proof -
  have e: "q_ext st st'" using assms by (auto simp: q_ext_def defs_ext_def objs_ext_def Let_def)
  moreover have "q_ok st'" if "q_ok st"
    by (rule q_okI [OF that e]) (use assms in auto)
  ultimately show ?thesis using assms by (auto simp: q_does_def intro: whens_ext_same)
qed

lemma q_handler_does: "q_does st (q_handler e st)" and q_calls_does: "q_does st (st\<lparr>q_calls := cs\<rparr>)"
  by (auto simp: q_handler_def intro: q_does_eq)

lemma nth_list_update_if: "i < length xs \<Longrightarrow> xs[i := x] ! j = (if i = j then x else xs ! j)"
  by simp

lemma resolve_to_does:
  assumes "d < length (q_defs st)" "th_ok st t"
  shows "q_does st (resolve_to d t st)"
proof (cases "df_value (q_defs st ! d)")
  case None
  let ?st = "resolve_to d t st" and ?df = "(q_defs st ! d)\<lparr>df_value := Some t\<rparr>"
  have sel: "q_defs ?st = (q_defs st)[d := ?df]" "q_whens ?st = q_whens st" "q_alls ?st = q_alls st"
    "q_ticks ?st = q_ticks st @ (if df_callbacks (q_defs st ! d) \<noteq> [] then [TickResolve d] else [])"
    using None by (auto simp: resolve_to_def Let_def nextTick_def)
  have e: "q_ext st ?st"
    using assms(1) None by (auto simp: q_ext_def defs_ext_def objs_ext_def Let_def sel nth_list_update_if)
  moreover have "q_ok ?st" if ok: "q_ok st"
  proof (rule q_okI [OF ok e])
    have "deferred_ok st ?df" using ok assms by (auto simp: q_ok_def deferred_ok_def list_all_length)
    then have "deferred_ok ?st ?df" by (rule deferred_ok_ext [OF _ e])
    then show "\<forall>df \<in> set (q_defs ?st). df \<in> set (q_defs st) \<or> deferred_ok ?st df"
      using set_update_subset_insert [of "q_defs st" d ?df] by (auto simp: sel)
  qed (use assms(1) in \<open>auto simp: sel\<close>)
  ultimately show ?thesis by (simp add: q_does_def whens_ext_same sel)
qed (simp add: resolve_to_def)

lemma resolve_to_settles: "d < length (q_defs st) \<Longrightarrow> settled (resolve_to d t st) d"
  by (auto simp: resolve_to_def settled_def Let_def nextTick_def)

lemma th_ok_ref [simp]: "th_ok st (ref v) = pv_ok st v"
  by (cases v) auto

lemma resolve_does: "d < length (q_defs st) \<Longrightarrow> pv_ok st v \<Longrightarrow> q_does st (resolve d v st)"
  by (simp add: resolve_def resolve_to_does)

lemma reject_deferred_does: "d < length (q_defs st) \<Longrightarrow> pv_ok st v \<Longrightarrow> q_does st (reject_deferred d v st)"
  by (simp add: reject_deferred_def resolve_to_does)

lemma notify_does: "d < length (q_defs st) \<Longrightarrow> pv_ok st v \<Longrightarrow> q_does st (notify d v st)"
  by (simp add: notify_def Let_def nextTick_does)

section \<open>Obligations\<close>

text \<open>What a function owes when it is called: to settle a deferred, or the result of a call of \<open>when\<close>.\<close>

datatype debt = Deferred nat | WhenResult nat

primrec owes :: "('f, 'v) fn \<Rightarrow> debt set" where
  "owes (User f) = {}"
| "owes DefaultCallback = {}"
| "owes DefaultErrback = {}"
| "owes (WrappedCallback r f) = insert (Deferred r) (owes f)"
| "owes (WrappedErrback r f) = insert (Deferred r) (owes f)"
| "owes (WrappedProgressback r f) = {}"
| "owes (FinallyCallback f b) = {}"
| "owes (MakePromise v b) = {}"
| "owes MakeRejected = {}"
| "owes (WhenCallback w cb eb pb) = {WhenResult w}"
| "owes (WhenErrback w eb) = {WhenResult w}"
| "owes (WhenProgressback w pb) = {}"
| "owes (WhenWrapped f) = {}"
| "owes (WhenWrappedProgress f) = {}"
| "owes (AllCallback a k) = {}"
| "owes (AllErrback a k) = {}"

fun paid :: "('f, 'v) qstate \<Rightarrow> debt \<Rightarrow> bool" where
  "paid st (Deferred d) \<longleftrightarrow> settled st d"
| "paid st (WhenResult w) \<longleftrightarrow> w < length (q_whens st) \<and> settled st (wh_result (q_whens st ! w))"

text \<open>An entry of the queue whose run pays a debt or hands it on.\<close>

fun task_owes :: "('f, 'v) qstate \<Rightarrow> ('f, 'v) task \<Rightarrow> debt \<Rightarrow> bool" where
  "task_owes st (TickResolve d) b \<longleftrightarrow> d < length (q_defs st) \<and> (\<exists>(c, e, p) \<in> set (df_callbacks (q_defs st ! d)). b \<in> owes c \<and> b \<in> owes e)"
| "task_owes st (TickNotify d v) b \<longleftrightarrow> False"
| "task_owes st (TickFulfilled r f v) b \<longleftrightarrow> (\<exists>g. f = Some g \<and> b \<in> owes g)"
| "task_owes st (TickRejected r f v) b \<longleftrightarrow> (\<exists>g. f = Some g \<and> b \<in> owes g)"
| "task_owes st (TickWhen w v cb eb pb) b \<longleftrightarrow> b = WhenResult w"

text \<open>A debt that waits in the callbacks of a pending deferred, or in the queue.\<close>

definition waits_for :: "('f, 'v) qstate \<Rightarrow> debt \<Rightarrow> nat \<Rightarrow> bool" where
  "waits_for st b d \<longleftrightarrow> d < length (q_defs st) \<and> df_value (q_defs st ! d) = None \<and>
     (\<exists>(c, e, p) \<in> set (df_callbacks (q_defs st ! d)). b \<in> owes c \<and> b \<in> owes e)"

definition waiting :: "('f, 'v) qstate \<Rightarrow> debt \<Rightarrow> bool" where
  "waiting st b \<longleftrightarrow> (\<exists>d. waits_for st b d) \<or> (\<exists>t \<in> set (q_ticks st). task_owes st t b)"

lemma paid_ext: "q_ext st st' \<Longrightarrow> paid st b \<Longrightarrow> paid st' b"
  by (cases b) (auto simp: q_ext_def objs_ext_def intro: settled_ext [unfolded q_ext_def objs_ext_def])

lemma callbacks_ext:
  assumes "q_ext st st'" "d < length (q_defs st)"
  shows "set (df_callbacks (q_defs st ! d)) \<subseteq> set (df_callbacks (q_defs st' ! d))"
  using assms defs_extD(2) by (metis q_ext_def set_mono_prefix)

lemma task_owes_ext: "q_ext st st' \<Longrightarrow> task_owes st t b \<Longrightarrow> task_owes st' t b"
  by (cases t) (use callbacks_ext [of st st'] ext_lengths(1) [of st st'] in fastforce)+

lemma waits_for_ext:
  assumes "q_ext st st'" "waits_for st b d"
  shows "waiting st' b"
proof (cases "df_value (q_defs st' ! d) = None")
  case True
  moreover have "waits_for st' b d"
    using assms True callbacks_ext [OF assms(1), of d] ext_lengths(1) [OF assms(1)] by (fastforce simp: waits_for_def)
  ultimately show ?thesis by (auto simp: waiting_def)
next
  case False
  have d: "d < length (q_defs st)" "df_value (q_defs st ! d) = None" using assms by (simp_all add: waits_for_def)
  have o: "task_owes st' (TickResolve d) b"
    using assms callbacks_ext [OF assms(1), of d] ext_lengths(1) [OF assms(1)] by (fastforce simp: waits_for_def)
  then have "df_callbacks (q_defs st' ! d) \<noteq> []" by auto
  with False d assms(1) have "TickResolve d \<in> set (q_ticks st')" by (auto simp: q_ext_def dest: defs_extD(4))
  with o show ?thesis unfolding waiting_def by blast
qed

lemma waiting_ext:
  assumes "q_ext st st'" "waiting st b"
  shows "waiting st' b"
proof -
  have "set (q_ticks st) \<subseteq> set (q_ticks st')" using assms(1) by (simp add: q_ext_def objs_ext_def set_mono_prefix)
  with assms show ?thesis by (auto simp: waiting_def [of st] dest: waits_for_ext task_owes_ext) (auto simp: waiting_def dest: task_owes_ext)
qed

section \<open>The method \<open>then\<close>\<close>

lemma then_on_result: "then_on t cb eb pb st = Some (r, st') \<Longrightarrow> r = length (q_defs st)"
  by (subst (asm) then_on.simps)
    (auto simp: new_deferred_def Let_def split: thenable.splits option.splits Option.bind_splits)

lemma or_ok: "opt_ok st f \<Longrightarrow> fn_ok st (or_callback f)" "opt_ok st f \<Longrightarrow> fn_ok st (or_errback f)"
  by (auto simp: or_callback_def or_errback_def split: option.split)

lemma add_callbacks_does:
  assumes "d < length (q_defs st)" "df_value (q_defs st ! d) = None" "fn_ok st c" "fn_ok st e" "fn_ok st p"
  shows "q_does st (add_callbacks d (c, e, p) st)"
    (is "q_does st ?st")
proof -
  let ?df = "(q_defs st ! d)\<lparr>df_callbacks := df_callbacks (q_defs st ! d) @ [(c, e, p)]\<rparr>"
  have x: "q_ext st ?st" using assms by (auto simp: add_callbacks_def q_ext_def defs_ext_def objs_ext_def Let_def nth_list_update_if)
  moreover have "q_ok ?st" if ok: "q_ok st"
  proof (rule q_okI [OF ok x])
    have "deferred_ok st ?df" using ok assms by (auto simp: q_ok_def deferred_ok_def list_all_length)
    then have "deferred_ok ?st ?df" by (rule deferred_ok_ext [OF _ x])
    then show "\<forall>df \<in> set (q_defs ?st). df \<in> set (q_defs st) \<or> deferred_ok ?st df"
      using set_update_subset_insert [of "q_defs st" d ?df] by (auto simp: add_callbacks_def)
  qed (auto simp: add_callbacks_def)
  ultimately show ?thesis by (simp add: q_does_def whens_ext_same add_callbacks_def)
qed

lemma new_deferred_in: "new_deferred st = (r, st') \<Longrightarrow> r < length (q_defs st')"
  by (auto simp: new_deferred_def)

lemma wrapped_ok:
  assumes "new_deferred st = (r, st')" "opt_ok st cb" "opt_ok st eb" "opt_ok st pb"
  shows "fn_ok st' (WrappedCallback r (or_callback cb))" "fn_ok st' (WrappedErrback r (or_errback eb))"
    "fn_ok st' (WrappedProgressback r (or_callback pb))"
  using new_deferred_in [OF assms(1)] does_ok(4) [OF _ new_deferred_does [OF assms(1)]] assms(2-4) by (simp_all add: or_ok)

lemma th_ok_value: "q_ok st \<Longrightarrow> d < length (q_defs st) \<Longrightarrow> df_value (q_defs st ! d) = Some t \<Longrightarrow> th_ok st t"
  by (auto simp: q_ok_def list_all_length deferred_ok_def)

lemma then_on_does:
  assumes "then_on t cb eb pb st = Some y" "q_ok st" "th_ok st t" "opt_ok st cb" "opt_ok st eb" "opt_ok st pb"
  shows "q_does st (snd y) \<and> fst y < length (q_defs (snd y))"
  using assms
proof (induction rule: then_on_induct)
  case (pending d cb eb pb st r st1)
  note n = new_deferred_does [OF pending(1)]
  have "q_does st1 (add_callbacks d (WrappedCallback r (or_callback cb), WrappedErrback r (or_errback eb), WrappedProgressback r (or_callback pb)) st1)"
    using pending(2,4) n does_ok(2) [OF pending(4) n] wrapped_ok [OF pending(1,5-7)] by (intro add_callbacks_does) auto
  with q_does_trans [OF n] new_deferred_in [OF pending(1)] show ?case by (simp add: add_callbacks_def)
next
  case (asked d cb eb pb st r st1 t r2 st2)
  note n = new_deferred_does [OF asked(1)]
  have ok: "q_ok st1" by (rule q_does_ok [OF n asked(4)])
  have "d < length (q_defs st1)" using does_ok(2) [OF asked(5) n] by simp
  then have "q_does st1 st2"
    using asked.IH [OF ok th_ok_value [OF ok _ asked(2)]] wrapped_ok [OF asked(1,6-8)] by simp
  with q_does_trans [OF n] new_deferred_in [OF asked(1)] ext_lengths(1) [of st1 st2] show ?case
    by (auto dest: q_does_ext)
next
  case (fulfilled v cb eb pb st r st1)
  note n = new_deferred_does [OF fulfilled(1)]
  have "q_does st1 (nextTick (TickFulfilled r cb v) st1)"
    using does_ok(1,4) [OF _ n] fulfilled new_deferred_in [OF fulfilled(1)] by (intro nextTick_does) auto
  with q_does_trans [OF n] new_deferred_in [OF fulfilled(1)] show ?case by (simp add: nextTick_def)
next
  case (rejected v cb eb pb st r st1)
  note n = new_deferred_does [OF rejected(1)]
  have "q_does st1 (nextTick (TickRejected r eb v) st1)"
    using does_ok(1,4) [OF _ n] rejected new_deferred_in [OF rejected(1)] by (intro nextTick_does) auto
  with q_does_trans [OF n] new_deferred_in [OF rejected(1)] show ?case by (simp add: nextTick_def)
qed

text \<open>What both callbacks owe is handed on by \<open>then\<close>, and so is its own result.\<close>

lemma then_on_waiting:
  assumes "then_on t cb eb pb st = Some y" "q_ok st" "th_ok st t"
  shows "(\<forall>f g b. cb = Some f \<and> eb = Some g \<and> b \<in> owes f \<and> b \<in> owes g \<longrightarrow> waiting (snd y) b) \<and>
    (\<forall>d. t = OfDeferred d \<longrightarrow> waiting (snd y) (Deferred (fst y)))"
  using assms
proof (induction rule: then_on_induct)
  case (pending d cb eb pb st r st1)
  note n = new_deferred_does [OF pending(1)]
  have "d < length (q_defs st1)" using does_ok(2) [OF pending(4) n] by simp
  with pending(2) have "waits_for (add_callbacks d (WrappedCallback r (or_callback cb), WrappedErrback r (or_errback eb),
      WrappedProgressback r (or_callback pb)) st1) b d" if "b \<in> insert (Deferred r) (owes (or_callback cb) \<inter> owes (or_errback eb))" for b
    using that by (auto simp: waits_for_def add_callbacks_def)
  then show ?case by (fastforce simp: waiting_def or_callback_def or_errback_def)
next
  case (asked d cb eb pb st r st1 t r2 st2)
  note n = new_deferred_does [OF asked(1)]
  have ok: "q_ok st1" by (rule q_does_ok [OF n asked(4)])
  have "d < length (q_defs st1)" using does_ok(2) [OF asked(5) n] by simp
  from asked.IH [OF ok th_ok_value [OF ok this asked(2)]] show ?case by (auto simp: or_callback_def or_errback_def)
qed (auto simp: waiting_def nextTick_def)

section \<open>The operations of \<open>$q\<close>\<close>

lemma alls_upd_does:
  assumes "q_ok st \<Longrightarrow> al_deferred c < length (q_defs st) \<and> list_all (\<lambda>(k, v). pv_ok st v) (al_results c)"
  shows "q_does st (st\<lparr>q_alls := (q_alls st)[a := c]\<rparr>)" (is "q_does st ?st")
proof -
  have x: "q_ext st ?st" by (auto simp: q_ext_def defs_ext_def objs_ext_def Let_def)
  moreover have "q_ok ?st" if ok: "q_ok st"
  proof (rule q_okI [OF ok x])
    have "al_deferred c < length (q_defs ?st) \<and> list_all (\<lambda>(k, v). pv_ok ?st v) (al_results c)"
      using assms [OF ok] pv_ok_ext [OF _ x] by (auto simp: list_all_iff)
    then show "\<forall>c \<in> set (q_alls ?st). c \<in> set (q_alls st) \<or> al_deferred c < length (q_defs ?st) \<and>
        list_all (\<lambda>(k, v). pv_ok ?st v) (al_results c)"
      using set_update_subset_insert [of "q_alls st" a c] by auto
  qed auto
  ultimately show ?thesis by (simp add: q_does_def whens_ext_same)
qed

lemma all_call_ok: "q_ok st \<Longrightarrow> a < length (q_alls st) \<Longrightarrow> al_deferred (q_alls st ! a) < length (q_defs st) \<and>
    list_all (\<lambda>(k, v). pv_ok st v) (al_results (q_alls st ! a))"
  by (simp add: q_ok_def list_all_length [of _ "q_alls st"])

lemma all_arrived_does:
  assumes "q_ok st" "a < length (q_alls st)" "pv_ok st v"
  shows "q_does st (all_arrived a k v st)"
proof (cases "map_of (al_results (q_alls st ! a)) k")
  case None
  define c where "c = (q_alls st ! a)\<lparr>al_results := al_results (q_alls st ! a) @ [(k, v)], al_counter := al_counter (q_alls st ! a) - 1\<rparr>"
  define st1 where "st1 = st\<lparr>q_alls := (q_alls st)[a := c]\<rparr>"
  have d: "q_does st st1"
    unfolding st1_def using all_call_ok [OF assms(1,2)] assms(3) by (intro alls_upd_does) (simp add: c_def)
  moreover have "q_does st1 (resolve (al_deferred c) (Results a) st1)"
    using all_call_ok [OF assms(1,2)] assms(2) by (intro resolve_does) (simp_all add: c_def st1_def)
  ultimately have "q_does st (resolve (al_deferred c) (Results a) st1)" by (rule q_does_trans)
  moreover have "all_arrived a k v st = (if al_counter c = 0 then resolve (al_deferred c) (Results a) st1 else st1)"
    unfolding all_arrived_def Let_def st1_def c_def using None by simp
  ultimately show ?thesis using d by simp
qed (simp add: all_arrived_def)

lemma makePromise_does:
  assumes "pv_ok st v"
  shows "q_does st (snd (makePromise v b st))" "pv_ok (snd (makePromise v b st)) (fst (makePromise v b st))"
proof -
  obtain r st1 where n: "new_deferred st = (r, st1)" by fastforce
  note d = new_deferred_does [OF n]
  have x: "q_does st1 (resolve r v st1)" "q_does st1 (reject_deferred r v st1)"
    using new_deferred_in [OF n] does_ok(1) [OF assms d] by (simp_all add: resolve_does reject_deferred_does)
  then show "q_does st (snd (makePromise v b st))" using q_does_trans [OF d] by (simp add: makePromise_def n)
  have "length (q_defs st1) \<le> length (q_defs (resolve r v st1))" "length (q_defs st1) \<le> length (q_defs (reject_deferred r v st1))"
    using x ext_lengths(1) q_does_ext by blast+
  then show "pv_ok (snd (makePromise v b st)) (fst (makePromise v b st))" using new_deferred_in [OF n] by (simp add: makePromise_def n)
qed

lemma q_reject_makes: "q_reject v st = makePromise v False st"
  by (simp add: q_reject_def makePromise_def)

lemma when_promise_does:
  assumes "pv_ok st v" "pred_option plain cb" "pred_option plain eb" "pred_option plain pb" "when_promise v cb eb pb st = (r, st')"
  shows "q_does st st' \<and> r < length (q_defs st')"
proof -
  obtain r1 st1 where n: "new_deferred st = (r1, st1)" by fastforce
  note d = new_deferred_does [OF n]
  let ?st = "st1\<lparr>q_whens := q_whens st1 @ [\<lparr>wh_result = r1, wh_done = False\<rparr>]\<rparr>"
  let ?t = "TickWhen (length (q_whens st1)) v (or_callback cb) (or_errback eb) (or_callback pb)"
  have x: "q_ext st1 ?st" by (auto simp: q_ext_def defs_ext_def objs_ext_def Let_def nth_append)
  have "q_ok ?st" if ok: "q_ok st1" by (rule q_okI [OF ok x]) (use new_deferred_in [OF n] in auto)
  with x have d1: "q_does st1 ?st" by (auto simp: q_does_def whens_ext_def nth_append less_Suc_eq)
  have "plain (or_callback cb)" "plain (or_errback eb)" "plain (or_callback pb)"
    using assms(2-4) by (auto simp: or_callback_def or_errback_def split: option.split)
  then have "q_does ?st (nextTick ?t ?st)"
    using does_ok(1) [OF does_ok(1) [OF assms(1) d] d1] by (intro nextTick_does) simp
  then have "q_does st (nextTick ?t ?st)" by (rule q_does_trans [OF q_does_trans [OF d d1]])
  then have "q_does st st'" using assms(5) by (auto simp: when_promise_def n Let_def)
  then show ?thesis using new_deferred_in [OF n] assms(5) by (auto simp: when_promise_def n Let_def nextTick_def)
qed

lemma all_loop_does:
  assumes "q_ok st" "a < length (q_alls st)" "\<forall>(k, v) \<in> set ps. pv_ok st v" "all_loop a ps st = Some st'"
  shows "q_does st st'"
  using assms
proof (induction ps arbitrary: st)
  case (Cons kv ps)
  obtain k v where kv: "kv = (k, v)" by fastforce
  let ?c = "(q_alls st ! a)\<lparr>al_counter := al_counter (q_alls st ! a) + 1\<rparr>"
  let ?st = "st\<lparr>q_alls := (q_alls st)[a := ?c]\<rparr>"
  have d: "q_does st ?st" using all_call_ok [OF Cons.prems(1,2)] by (intro alls_upd_does) simp
  obtain y where y: "then_on (ref v) (Some (AllCallback a k)) (Some (AllErrback a k)) None ?st = Some y" "all_loop a ps (snd y) = Some st'"
    using Cons.prems(4) by (auto simp: kv Let_def split: option.splits)
  have "pv_ok ?st v" using Cons.prems(3) does_ok(1) [OF _ d] by (auto simp: kv)
  then have "q_does ?st (snd y)"
    using then_on_does [OF y(1) q_does_ok [OF d Cons.prems(1)]] Cons.prems(2) by simp
  with d have dy: "q_does st (snd y)" by (rule q_does_trans)
  have "q_does (snd y) st'"
  proof (rule Cons.IH [OF q_does_ok [OF dy Cons.prems(1)] _ _ y(2)])
    show "a < length (q_alls (snd y))" using Cons.prems(2) ext_lengths(3) [OF q_does_ext [OF dy]] by simp
    show "\<forall>(k, v) \<in> set ps. pv_ok (snd y) v" using Cons.prems(3) does_ok(1) [OF _ dy] by fastforce
  qed
  with dy show ?case by (rule q_does_trans)
qed simp

lemma all_promises_does:
  assumes "q_ok st" "\<forall>(k, v) \<in> set ps. pv_ok st v" "all_promises ps st = Some (r, st')"
  shows "q_does st st' \<and> r < length (q_defs st')"
proof -
  obtain r1 st1 where n: "new_deferred st = (r1, st1)" by fastforce
  note d = new_deferred_does [OF n]
  let ?a = "length (q_alls st1)"
  let ?st = "st1\<lparr>q_alls := q_alls st1 @ [\<lparr>al_deferred = r1, al_counter = 0, al_results = []\<rparr>]\<rparr>"
  have x: "q_ext st1 ?st" by (auto simp: q_ext_def defs_ext_def objs_ext_def Let_def)
  have "q_ok ?st" if ok: "q_ok st1" by (rule q_okI [OF ok x]) (use new_deferred_in [OF n] in auto)
  with x have d1: "q_does st1 ?st" by (simp add: q_does_def whens_ext_same)
  have d2: "q_does st ?st" by (rule q_does_trans [OF d d1])
  obtain st2 where l: "all_loop ?a ps ?st = Some st2" and r: "r = r1"
    and st': "st' = (if al_counter (q_alls st2 ! ?a) = 0 then resolve r1 (Results ?a) st2 else st2)"
    using assms(3) by (auto simp: all_promises_def n Let_def split: option.splits)
  have d3: "q_does ?st st2"
    by (rule all_loop_does [OF q_does_ok [OF d2 assms(1)] _ _ l]) (use assms(2) does_ok(1) [OF _ d2] in fastforce)+
  have len: "r1 < length (q_defs st2)" "?a < length (q_alls st2)"
    using new_deferred_in [OF n] ext_lengths [OF q_does_ext [OF d3]] by simp_all
  have d4: "q_does st2 st'" using resolve_does [of r1 st2 "Results ?a"] len by (simp add: st')
  with d2 d3 q_does_trans have "q_does st st'" by blast
  moreover have "r1 < length (q_defs st')" using len(1) ext_lengths(1) [OF q_does_ext [OF d4]] by simp
  ultimately show ?thesis by (simp add: r)
qed

text \<open>What the application can do to the state: it calls the operations of \<open>$q\<close> with promises that it has.\<close>

inductive q_step :: "('f, 'v) qstate \<Rightarrow> ('f, 'v) qstate \<Rightarrow> bool" where
  s_defer: "new_deferred st = (r, st') \<Longrightarrow> q_step st st'"
| s_resolve: "d < length (q_defs st) \<Longrightarrow> pv_ok st v \<Longrightarrow> q_step st (resolve d v st)"
| s_reject: "d < length (q_defs st) \<Longrightarrow> pv_ok st v \<Longrightarrow> q_step st (reject_deferred d v st)"
| s_notify: "d < length (q_defs st) \<Longrightarrow> pv_ok st v \<Longrightarrow> q_step st (notify d v st)"
| s_then: "d < length (q_defs st) \<Longrightarrow>
    promise_then d (map_option User cb) (map_option User eb) (map_option User pb) st = Some (r, st') \<Longrightarrow> q_step st st'"
| s_finally: "d < length (q_defs st) \<Longrightarrow> promise_finally d (map_option User cb) st = Some (r, st') \<Longrightarrow> q_step st st'"
| s_rejected: "pv_ok st v \<Longrightarrow> q_step st (snd (q_reject v st))"
| s_when: "pv_ok st v \<Longrightarrow>
    when_promise v (map_option User cb) (map_option User eb) (map_option User pb) st = (r, st') \<Longrightarrow> q_step st st'"
| s_all: "\<forall>(k, v) \<in> set ps. pv_ok st v \<Longrightarrow> all_promises ps st = Some (r, st') \<Longrightarrow> q_step st st'"

lemma user_ok [simp]: "opt_ok st (map_option User f)" "pred_option plain (map_option User f)"
  by (cases f; simp)+

lemma promise_then_does:
  assumes "q_ok st" "d < length (q_defs st)" "opt_ok st cb" "opt_ok st eb" "opt_ok st pb" "promise_then d cb eb pb st = Some (r, st')"
  shows "q_does st st' \<and> r < length (q_defs st') \<and> waiting st' (Deferred r)"
  using then_on_does [of "OfDeferred d" cb eb pb st "(r, st')"] then_on_waiting [of "OfDeferred d" cb eb pb st "(r, st')"] assms
  by (simp add: promise_then_def)

lemma finally_ok: "plain f \<Longrightarrow> fn_ok st (FinallyCallback f b)"
  by simp

lemma q_step_does: "q_step st st' \<Longrightarrow> q_ok st \<Longrightarrow> q_does st st'"
proof (induction rule: q_step.induct)
  case (s_finally d st cb r st')
  have "plain (or_callback (map_option User cb))" by (cases cb) (simp_all add: or_callback_def)
  with s_finally show ?case unfolding promise_finally_def by (auto dest!: promise_then_does [rotated -1])
next
  case (s_then d st cb eb pb r st')
  then show ?case using promise_then_does by (metis user_ok(1))
next
  case (s_when st v cb eb pb r st')
  then show ?case using when_promise_does by (metis user_ok(2))
qed (auto simp: resolve_does reject_deferred_does notify_does new_deferred_does q_reject_makes makePromise_does
    dest: new_deferred_does all_promises_does)

lemma q_steps_does: "q_step\<^sup>*\<^sup>* st st' \<Longrightarrow> q_ok st \<Longrightarrow> q_does st st'"
  by (induction rule: rtranclp_induct) (auto dest: q_step_does q_does_ok intro: q_does_trans)

definition q_behaved :: "('f, 'v) app_fun \<Rightarrow> bool" where
  "q_behaved app \<longleftrightarrow> (\<forall>f x st. q_ok st \<longrightarrow> pv_ok st x \<longrightarrow>
     (case app f x st of None \<Rightarrow> True | Some (y, st') \<Rightarrow> q_step\<^sup>*\<^sup>* st st' \<and> pv_ok st' (case y of Inl e \<Rightarrow> e | Inr v \<Rightarrow> v)))"

section \<open>Calls\<close>

abbreviation result_of :: "'v pval + 'v pval \<Rightarrow> 'v pval" where
  "result_of y \<equiv> (case y of Inl e \<Rightarrow> e | Inr v \<Rightarrow> v)"

definition call_ok :: "('f, 'v) qstate \<Rightarrow> ('f, 'v) outcome \<Rightarrow> bool" where
  "call_ok st out \<longleftrightarrow> (case out of None \<Rightarrow> True | Some (y, st') \<Rightarrow> q_does st st' \<and> pv_ok st' (result_of y))"

lemma call_ok_returns: "q_does st (snd p) \<Longrightarrow> pv_ok (snd p) (fst p) \<Longrightarrow> call_ok st (returns p)"
  by (simp add: call_ok_def returns_def)

lemma call_ok_try:
  assumes "call_ok st out" "q_ok st"
    and "\<And>y st'. q_does st st' \<Longrightarrow> q_ok st' \<Longrightarrow> pv_ok st' y \<Longrightarrow> call_ok st' (ok y st')"
    and "\<And>e st'. q_does st st' \<Longrightarrow> q_ok st' \<Longrightarrow> pv_ok st' e \<Longrightarrow> call_ok st' (bad e st')"
  shows "call_ok st (try_call out ok bad)"
proof (cases out)
  case (Some z)
  obtain y st' where z: "z = (y, st')" by fastforce
  have d: "q_does st st'" "pv_ok st' (result_of y)" using assms(1) by (simp_all add: call_ok_def Some z)
  have chain: "call_ok st' out' \<Longrightarrow> call_ok st out'" for out' :: "('a, 'b) outcome"
    using q_does_trans [OF d(1)] by (auto simp: call_ok_def split: option.splits)
  from assms(3,4) [OF d(1) q_does_ok [OF d(1) assms(2)]] d(2) show ?thesis
    by (cases y) (auto simp: try_call_def Some z intro: chain)
qed (simp add: try_call_def call_ok_def)

lemma when_done_ext: "q_ok st \<Longrightarrow> q_ext st (when_done w st) \<and> q_ok (when_done w st)"
proof -
  assume ok: "q_ok st"
  have x: "q_ext st (when_done w st)"
    by (cases "w < length (q_whens st)") (auto simp: when_done_def q_ext_def defs_ext_def objs_ext_def Let_def nth_list_update_if)
  moreover have "q_ok (when_done w st)"
  proof (rule q_okI [OF ok x])
    let ?c = "(q_whens st ! w)\<lparr>wh_done := True\<rparr>"
    have "w < length (q_whens st) \<Longrightarrow> wh_result ?c < length (q_defs st)" using ok by (simp add: q_ok_def list_all_length [of _ "q_whens st"])
    then show "\<forall>c \<in> set (q_whens (when_done w st)). c \<in> set (q_whens st) \<or> wh_result c < length (q_defs (when_done w st))"
      using set_update_subset_insert [of "q_whens st" w ?c] by (cases "w < length (q_whens st)") (auto simp: when_done_def list_update_beyond)
  qed (auto simp: when_done_def)
  ultimately show ?thesis by simp
qed

text \<open>A call of \<open>when\<close> that is marked as done, after which its result is settled.\<close>

lemma when_closed:
  assumes "q_ok st" "q_does (when_done w st) st'" "settled st' (wh_result (q_whens st' ! w))"
  shows "q_does st st'"
proof -
  note a = when_done_ext [OF assms(1), of w]
  have x: "q_ext st st'" using a assms(2) by (meson q_does_ext q_ext_trans)
  have "whens_ext st st'"
    unfolding whens_ext_def
  proof (intro allI impI)
    fix v
    assume v: "v < length (q_whens st')" "wh_done (q_whens st' ! v)"
    show "v < length (q_whens st) \<and> wh_done (q_whens st ! v) \<or> settled st' (wh_result (q_whens st' ! v))"
    proof (cases "v = w")
      case False
      moreover have "whens_ext (when_done w st) st'" using assms(2) by (simp add: q_does_def)
      ultimately show ?thesis using v by (auto simp: whens_ext_def when_done_def)
    qed (use assms(3) in simp)
  qed
  with x a assms(2) show ?thesis by (simp add: q_does_def)
qed

lemma wh_result_in: "q_ok st \<Longrightarrow> w < length (q_whens st) \<Longrightarrow> wh_result (q_whens st ! w) < length (q_defs st)"
  by (simp add: q_ok_def list_all_length [of _ "q_whens st"])

lemma when_wrapped_ok:
  assumes "call_ok st out" "q_ok st"
  shows "call_ok st (when_wrapped out)" "call_ok st (when_wrapped_progress out)"
proof -
  show "call_ok st (when_wrapped out)" unfolding when_wrapped_def
  proof (rule call_ok_try [OF assms])
    fix e st'
    assume "q_ok st'" "pv_ok st' e"
    then have "pv_ok (q_handler e st') e" using does_ok(1) [OF _ q_handler_does] by blast
    with makePromise_does show "call_ok st' (returns (q_reject e (q_handler e st')))"
      unfolding q_reject_makes by (intro call_ok_returns) (auto intro: q_does_trans [OF q_handler_does])
  qed (auto intro: call_ok_returns)
  show "call_ok st (when_wrapped_progress out)" unfolding when_wrapped_progress_def
    by (rule call_ok_try [OF assms]) (auto intro: call_ok_returns simp: q_handler_does)
qed

lemma wrapped_call_ok:
  assumes "call_ok st out" "q_ok st" "r < length (q_defs st)"
  shows "call_ok st (try_call out (\<lambda>y st. returns (Undef, resolve r y st)) (\<lambda>e st. returns (Undef, q_handler e (reject_deferred r e st))))"
    and "call_ok st (try_call out (\<lambda>y st. returns (Undef, notify r y st)) (\<lambda>e st. returns (Undef, q_handler e st)))"
    and "call_ok st (try_call out (\<lambda>y st. returns (Undef, resolve r y st)) (\<lambda>e st. Some (Inl e, st)))"
proof -
  have r: "r < length (q_defs st')" if "q_does st st'" for st'
    using assms(3) ext_lengths(1) [OF q_does_ext [OF that]] by simp
  show "call_ok st (try_call out (\<lambda>y st. returns (Undef, resolve r y st)) (\<lambda>e st. returns (Undef, q_handler e (reject_deferred r e st))))"
    using r by (intro call_ok_try [OF assms(1,2)] call_ok_returns)
      (auto simp: resolve_does intro: q_does_trans [OF reject_deferred_does q_handler_does])
  show "call_ok st (try_call out (\<lambda>y st. returns (Undef, notify r y st)) (\<lambda>e st. returns (Undef, q_handler e st)))"
    using r by (intro call_ok_try [OF assms(1,2)] call_ok_returns) (auto simp: notify_does q_handler_does)
  show "call_ok st (try_call out (\<lambda>y st. returns (Undef, resolve r y st)) (\<lambda>e st. Some (Inl e, st)))"
    using r by (intro call_ok_try [OF assms(1,2)])
      (auto simp: resolve_does intro: call_ok_returns, auto simp: call_ok_def)
qed

lemma user_call_ok:
  assumes "q_behaved app" "q_ok st" "pv_ok st x"
  shows "call_ok st (call_fn app (User f) x st)"
proof -
  let ?st = "st\<lparr>q_calls := q_calls st @ [(f, x)]\<rparr>"
  have d: "q_does st ?st" by (rule q_calls_does)
  have *: "case app f x ?st of None \<Rightarrow> True | Some (y, st') \<Rightarrow> q_step\<^sup>*\<^sup>* ?st st' \<and> pv_ok st' (result_of y)"
    using assms q_does_ok [OF d] does_ok(1) [OF _ d] unfolding q_behaved_def by blast
  then show ?thesis using q_steps_does [OF _ q_does_ok [OF d assms(2)]] q_does_trans [OF d]
    by (auto simp: call_ok_def split: option.splits)
qed

lemma plain_call_ok:
  assumes "q_behaved app" "q_ok st" "pv_ok st x" "plain f"
  shows "call_ok st (call_fn app f x st)"
  using assms user_call_ok makePromise_does [of st x] by (cases f) (auto simp: q_reject_makes call_ok_def returns_def)

lemma finally_call_ok:
  assumes "q_behaved app" "q_ok st" "pv_ok st x" "plain f"
  shows "call_ok st (call_fn app (FinallyCallback f b) x st)"
  unfolding call_fn.simps
proof (rule call_ok_try [OF plain_call_ok [OF assms(1,2) _ assms(4)] assms(2)])
  fix y st'
  assume a: "q_does st st'" "q_ok st'" "pv_ok st' y"
  have x: "pv_ok st' x" by (rule does_ok(1) [OF assms(3) a(1)])
  have m: "call_ok st' (returns (makePromise x b st'))" by (intro call_ok_returns makePromise_does x)
  show "call_ok st' (case y of
          Prom d \<Rightarrow> (case promise_then d (Some (MakePromise x b)) (Some MakeRejected) None st' of
                       None \<Rightarrow> None | Some (r, st) \<Rightarrow> returns (Prom r, st))
        | _ \<Rightarrow> returns (makePromise x b st'))"
  proof (cases y)
    case (Prom d)
    with a x promise_then_does [of st' d "Some (MakePromise x b)" "Some MakeRejected" None] show ?thesis
      by (auto split: option.split intro!: call_ok_returns) (simp add: call_ok_def)
  qed (use m in simp_all)
qed (auto intro: call_ok_returns makePromise_does)

text \<open>A call of \<open>when\<close> is marked as done and its result is settled.\<close>

lemma when_closes:
  assumes "q_ok st" "w < length (q_whens st)" "q_does (when_done w st) st2" "pv_ok st2 v"
  shows "q_does st (resolve (wh_result (q_whens st2 ! w)) v st2) \<and> paid (resolve (wh_result (q_whens st2 ! w)) v st2) (WhenResult w)"
proof -
  note a = when_done_ext [OF assms(1), of w]
  let ?r = "wh_result (q_whens st2 ! w)" and ?st = "resolve (wh_result (q_whens st2 ! w)) v st2"
  have w: "w < length (q_whens st2)"
    using assms(2) ext_lengths(2) [of st "when_done w st"] ext_lengths(2) [OF q_does_ext [OF assms(3)]] a by simp
  have r: "?r < length (q_defs st2)" by (rule wh_result_in [OF q_does_ok [OF assms(3)] w]) (use a in simp)
  have d: "q_does st2 ?st" by (rule resolve_does [OF r assms(4)])
  have "settled ?st ?r" unfolding resolve_def by (rule resolve_to_settles [OF r])
  moreover have "wh_result (q_whens ?st ! w) = ?r" "w < length (q_whens ?st)"
    using q_does_ext [OF d] w by (simp_all add: q_ext_def objs_ext_def)
  ultimately show ?thesis using when_closed [OF assms(1) q_does_trans [OF assms(3) d]] by simp
qed

lemma when_callback_ok:
  assumes "q_ok st" "pv_ok st x" "w < length (q_whens st)" "plain cb" "plain eb" "plain pb"
  shows "call_ok st (call_fn app (WhenCallback w cb eb pb) x st) \<and>
    (\<not> wh_done (q_whens st ! w) \<longrightarrow> call_fn app (WhenCallback w cb eb pb) x st = Some (y, st') \<longrightarrow> paid st' (WhenResult w))"
proof (cases "wh_done (q_whens st ! w)")
  case False
  note a = when_done_ext [OF assms(1), of w]
  show ?thesis
  proof (cases "then_on (ref x) (Some (WhenWrapped cb)) (Some (WhenWrapped eb)) (Some (WhenWrappedProgress pb)) (when_done w st)")
    case (Some y)
    have d: "q_does (when_done w st) (snd y)" "fst y < length (q_defs (snd y))"
      using then_on_does [OF Some] a assms pv_ok_ext [OF assms(2)] by auto
    with when_closes [OF assms(1,3) d(1), of "Prom (fst y)"] False Some show ?thesis
      by (auto simp: split_def returns_def call_ok_def)
  qed (use False in \<open>simp add: call_ok_def\<close>)
qed (auto intro: call_ok_returns)

lemma when_wrapped_returns: "when_wrapped out = None \<or> (\<exists>y st. when_wrapped out = Some (Inr y, st))"
  by (auto simp: when_wrapped_def try_call_def returns_def split: option.splits sum.splits)

lemma when_errback_ok:
  assumes "q_behaved app" "q_ok st" "pv_ok st x" "w < length (q_whens st)" "plain eb"
  shows "call_ok st (call_fn app (WhenErrback w eb) x st) \<and>
    (\<not> wh_done (q_whens st ! w) \<longrightarrow> call_fn app (WhenErrback w eb) x st = Some (y, st') \<longrightarrow> paid st' (WhenResult w))"
proof (cases "wh_done (q_whens st ! w)")
  case False
  let ?out = "when_wrapped (call_fn app eb x (when_done w st))"
  note a = when_done_ext [OF assms(2), of w]
  have ok: "call_ok (when_done w st) ?out"
    using a assms pv_ok_ext [OF assms(3)] by (intro when_wrapped_ok plain_call_ok) auto
  from when_wrapped_returns [of "call_fn app eb x (when_done w st)"] show ?thesis
  proof
    assume "\<exists>z st2. ?out = Some (Inr z, st2)"
    then obtain z st2 where out: "?out = Some (Inr z, st2)" by blast
    have d: "q_does (when_done w st) st2" "pv_ok st2 z" using ok by (simp_all add: call_ok_def out)
    from when_closes [OF assms(2,4) d] False out show ?thesis by (auto simp: try_call_def returns_def call_ok_def)
  qed (use False in \<open>simp add: call_ok_def try_call_def\<close>)
qed (auto intro: call_ok_returns)

lemma when_progressback_ok:
  assumes "q_behaved app" "q_ok st" "pv_ok st x" "w < length (q_whens st)" "plain pb"
  shows "call_ok st (call_fn app (WhenProgressback w pb) x st)"
proof (cases "wh_done (q_whens st ! w)")
  case False
  have "call_ok st (try_call (when_wrapped_progress (call_fn app pb x st))
      (\<lambda>y st. returns (Undef, notify (wh_result (q_whens st ! w)) y st)) (\<lambda>e st. Some (Inl e, st)))"
  proof (rule call_ok_try [OF when_wrapped_ok(2) [OF plain_call_ok [OF assms(1-3,5)] assms(2)] assms(2)])
    fix y st'
    assume a: "q_does st st'" "q_ok st'" "pv_ok st' y"
    have "w < length (q_whens st')" using assms(4) ext_lengths(2) [OF q_does_ext [OF a(1)]] by simp
    with a show "call_ok st' (returns (Undef, notify (wh_result (q_whens st' ! w)) y st'))"
      by (intro call_ok_returns) (auto intro: notify_does wh_result_in)
  qed (simp add: call_ok_def)
  with False show ?thesis by simp
qed (auto intro: call_ok_returns)

lemma call_fn_ok:
  assumes "q_behaved app" "q_ok st" "fn_ok st f" "pv_ok st x"
  shows "call_ok st (call_fn app f x st)"
  using assms
proof (induction f arbitrary: st x)
  case (User f)
  then show ?case by (intro user_call_ok)
next
  case (AllErrback a k)
  then have "q_does st (reject_deferred (al_deferred (q_alls st ! a)) x st)" by (intro reject_deferred_does) (auto dest: all_call_ok)
  then show ?case by (simp add: Let_def call_ok_returns)
next
  case (FinallyCallback f b)
  then show ?case by (intro finally_call_ok) auto
next
  case (WhenCallback w cb eb pb)
  then show ?case using when_callback_ok [of st x w cb eb pb app] by auto
next
  case (WhenErrback w eb)
  then show ?case using when_errback_ok [of app st x w eb] by auto
next
  case (WhenProgressback w pb)
  then show ?case by (intro when_progressback_ok) auto
qed (auto simp: call_ok_def [of _ "Some _"] q_reject_makes wrapped_call_ok when_wrapped_ok plain_call_ok
    intro!: call_ok_returns makePromise_does all_arrived_does)

section \<open>Debts are paid\<close>

lemma done_paid: "when_inv st \<Longrightarrow> w < length (q_whens st) \<Longrightarrow> wh_done (q_whens st ! w) \<Longrightarrow> paid st (WhenResult w)"
  by (simp add: when_inv_def)

lemma settles_with_calls [simp]: "settled (q_handler e st) d = settled st d"
  by (simp add: settled_def q_handler_def)

text \<open>The deferred of a wrapped callback is settled, whatever the callback does.\<close>

lemma wrapped_settles:
  assumes "call_ok st out" "r < length (q_defs st)"
    "try_call out (\<lambda>y st. returns (Undef, resolve r y st)) (\<lambda>e st. returns (Undef, q_handler e (reject_deferred r e st))) = Some (y, st')"
  shows "settled st' r"
proof -
  obtain z st1 where out: "out = Some (z, st1)" using assms(3) by (cases out) (auto simp: try_call_def)
  then have "r < length (q_defs st1)" using assms(1,2) ext_lengths(1) [OF q_does_ext, of st st1] by (auto simp: call_ok_def)
  then show ?thesis using assms(3) by (cases z) (auto simp: out try_call_def returns_def resolve_def reject_deferred_def resolve_to_settles)
qed

lemma try_call_later:
  assumes "call_ok st out" "q_ok st" "r < length (q_defs st)" "out = Some (z, st1)"
    "try_call out (\<lambda>y st. returns (Undef, resolve r y st)) (\<lambda>e st. returns (Undef, q_handler e (reject_deferred r e st))) = Some (y, st')"
  shows "q_ext st1 st'"
proof -
  have d: "q_does st st1" "pv_ok st1 (result_of z)" using assms(1,4) by (simp_all add: call_ok_def)
  have "r < length (q_defs st1)" using assms(3) ext_lengths(1) [OF q_does_ext [OF d(1)]] by simp
  with d(2) have "q_does st1 (resolve r (result_of z) st1)" "q_does st1 (q_handler (result_of z) (reject_deferred r (result_of z) st1))"
    by (auto intro: resolve_does q_does_trans [OF reject_deferred_does q_handler_does])
  with assms(4,5) show ?thesis by (cases z) (auto simp: try_call_def returns_def dest: q_does_ext)
qed

lemma call_pays:
  assumes "q_behaved app" "q_ok st" "fn_ok st f" "pv_ok st x" "when_inv st" "call_fn app f x st = Some (y, st')" "b \<in> owes f"
  shows "paid st' b"
  using assms(3,6,7)
proof (induction f arbitrary: y st')
  case (WrappedCallback r f)
  have ok: "call_ok st (call_fn app f x st)" using WrappedCallback.prems assms by (intro call_fn_ok) auto
  obtain z st1 where f: "call_fn app f x st = Some (z, st1)"
    using WrappedCallback.prems(2) by (cases "call_fn app f x st") (auto simp: try_call_def)
  note res = WrappedCallback.prems(2) [unfolded call_fn.simps]
  from wrapped_settles [OF ok _ res] WrappedCallback.IH [OF _ f] try_call_later [OF ok assms(2) _ f res] WrappedCallback.prems(1,3)
  show ?case by (auto intro: paid_ext)
next
  case (WrappedErrback r f)
  have ok: "call_ok st (call_fn app f x st)" using WrappedErrback.prems assms by (intro call_fn_ok) auto
  obtain z st1 where f: "call_fn app f x st = Some (z, st1)"
    using WrappedErrback.prems(2) by (cases "call_fn app f x st") (auto simp: try_call_def)
  note res = WrappedErrback.prems(2) [unfolded call_fn.simps]
  from wrapped_settles [OF ok _ res] WrappedErrback.IH [OF _ f] try_call_later [OF ok assms(2) _ f res] WrappedErrback.prems(1,3)
  show ?case by (auto intro: paid_ext)
next
  case (WhenCallback w cb eb pb)
  then show ?case
    using when_callback_ok [of st x w cb eb pb app y st'] assms(2,4) done_paid [OF assms(5), of w]
    by (cases "wh_done (q_whens st ! w)") (auto simp: returns_def)
next
  case (WhenErrback w eb)
  then show ?case
    using when_errback_ok [of app st x w eb y st'] assms(1,2,4) done_paid [OF assms(5), of w]
    by (cases "wh_done (q_whens st ! w)") (auto simp: returns_def)
qed auto

section \<open>The queue\<close>

lemma then_each_does:
  assumes "q_ok st" "th_ok st t" "\<forall>(c, e, p) \<in> set cs. fn_ok st c \<and> fn_ok st e \<and> fn_ok st p" "then_each t cs st = Some st'"
  shows "q_does st st' \<and> (\<forall>(c, e, p) \<in> set cs. \<forall>b \<in> owes c \<inter> owes e. waiting st' b)"
  using assms
proof (induction cs arbitrary: st)
  case (Cons cep cs)
  obtain c e p where cep: "cep = (c, e, p)" by (metis prod_cases3)
  obtain y where y: "then_on t (Some c) (Some e) (Some p) st = Some y" "then_each t cs (snd y) = Some st'"
    using Cons.prems(4) by (auto simp: cep split: option.splits)
  have d: "q_does st (snd y)" using then_on_does [OF y(1)] Cons.prems by (simp add: cep)
  have ih: "q_does (snd y) st' \<and> (\<forall>(c, e, p) \<in> set cs. \<forall>b \<in> owes c \<inter> owes e. waiting st' b)"
  proof (rule Cons.IH [OF q_does_ok [OF d Cons.prems(1)] does_ok(2) [OF Cons.prems(2) d] _ y(2)])
    show "\<forall>(c, e, p) \<in> set cs. fn_ok (snd y) c \<and> fn_ok (snd y) e \<and> fn_ok (snd y) p"
      using Cons.prems(3) does_ok(3) [OF _ d] by fastforce
  qed
  have "waiting st' b" if "b \<in> owes c \<inter> owes e" for b
    using then_on_waiting [OF y(1) Cons.prems(1,2)] that ih by (auto dest: q_does_ext intro: waiting_ext)
  with ih q_does_trans [OF d] show ?case by (auto simp: cep)
qed simp

lemma notify_each_ok:
  assumes "q_behaved app" "q_ok st" "pv_ok st x" "\<forall>(c, e, p) \<in> set cs. fn_ok st p"
  shows "call_ok st (notify_each app cs x st)"
  using assms(2-4)
proof (induction cs arbitrary: st)
  case (Cons cep cs)
  obtain c e p where cep: "cep = (c, e, p)" by (metis prod_cases3)
  show ?case unfolding cep notify_each.simps
  proof (rule call_ok_try)
    show "call_ok st (call_fn app p x st)" by (rule call_fn_ok) (use Cons.prems assms(1) cep in auto)
    fix y st'
    assume "q_does st st'" "q_ok st'"
    with Cons.prems show "call_ok st' (notify_each app cs x st')"
      by (intro Cons.IH) (fastforce intro: does_ok)+
  qed (use Cons.prems in \<open>simp_all add: call_ok_def\<close>)
qed (auto intro: call_ok_returns)

lemma callbacks_ok: "q_ok st \<Longrightarrow> d < length (q_defs st) \<Longrightarrow>
    \<forall>(c, e, p) \<in> set (df_callbacks (q_defs st ! d)). fn_ok st c \<and> fn_ok st e \<and> fn_ok st p"
  by (simp add: q_ok_def list_all_length [of _ "q_defs st"] deferred_ok_def)

lemma errback_ok: "opt_ok st f \<Longrightarrow> fn_ok st (or_errback f)"
  by (rule or_ok)

lemma run_tick_ok:
  assumes "q_behaved app" "q_ok st" "task_ok st t"
  shows "call_ok st (run_tick app t st)"
proof (cases t)
  case (TickResolve d)
  then obtain u where u: "df_value (q_defs st ! d) = Some u" and d: "d < length (q_defs st)" using assms(3) by auto
  note e = then_each_does [OF assms(2) th_ok_value [OF assms(2) d u] callbacks_ok [OF assms(2) d]]
  show ?thesis
  proof (cases "then_each u (df_callbacks (q_defs st ! d)) st")
    case (Some st')
    with e [OF Some] u show ?thesis by (simp add: TickResolve call_ok_returns)
  qed (simp add: TickResolve u call_ok_def)
next
  case (TickNotify d x)
  moreover have "call_ok st (notify_each app (df_callbacks (q_defs st ! d)) x st)"
    using assms callbacks_ok [OF assms(2), of d] TickNotify by (intro notify_each_ok) auto
  ultimately show ?thesis by simp
next
  case (TickFulfilled r f v)
  show ?thesis
  proof (cases f)
    case (Some g)
    have "call_ok st (call_fn app g v st)" using assms TickFulfilled Some by (intro call_fn_ok) auto
    with wrapped_call_ok(3) [OF this assms(2), of r] assms(3) show ?thesis by (simp add: TickFulfilled Some)
  qed (simp add: TickFulfilled call_ok_def)
next
  case (TickRejected r f v)
  have "call_ok st (call_fn app (or_errback f) v st)" using assms TickRejected by (intro call_fn_ok) (auto intro: errback_ok)
  with wrapped_call_ok(1) [OF this assms(2), of r] assms(3) show ?thesis by (simp add: TickRejected)
next
  case (TickWhen w v cb eb pb)
  show ?thesis
  proof (cases "then_on (ref v) (Some (WhenCallback w cb eb pb)) (Some (WhenErrback w eb)) (Some (WhenProgressback w pb)) st")
    case (Some y)
    with then_on_does [OF Some assms(2)] assms(3) show ?thesis by (auto simp: TickWhen split_def intro: call_ok_returns)
  qed (simp add: TickWhen call_ok_def)
qed

lemma try_call_Some:
  assumes "try_call out ok bad = Some z"
  obtains y st where "out = Some (y, st)"
  using assms by (cases out) (auto simp: try_call_def)

lemma run_tick_pays:
  assumes "q_behaved app" "q_ok st" "task_ok st t" "when_inv st" "task_owes st t b" "run_tick app t st = Some (y, st')"
  shows "paid st' b \<or> waiting st' b"
proof (cases t)
  case (TickResolve d)
  then obtain u where u: "df_value (q_defs st ! d) = Some u" and d: "d < length (q_defs st)" using assms(3) by auto
  obtain st1 where st1: "then_each u (df_callbacks (q_defs st ! d)) st = Some st1" and "st' = st1"
    using assms(6) by (auto simp: TickResolve u returns_def split: option.splits)
  with then_each_does [OF assms(2) th_ok_value [OF assms(2) d u] callbacks_ok [OF assms(2) d] st1] assms(5)
  show ?thesis by (fastforce simp: TickResolve)
next
  case (TickNotify d x)
  with assms(5) show ?thesis by simp
next
  case (TickFulfilled r f v)
  then obtain g where g: "f = Some g" "b \<in> owes g" using assms(5) by auto
  have ok: "call_ok st (call_fn app g v st)" using assms TickFulfilled g by (intro call_fn_ok) auto
  obtain z st1 where c: "call_fn app g v st = Some (z, st1)"
    using assms(6) by (auto simp: TickFulfilled g elim!: try_call_Some)
  have "paid st1 b" by (rule call_pays [OF assms(1,2) _ _ assms(4) c g(2)]) (use assms(3) TickFulfilled g in auto)
  moreover have "q_ext st1 st'"
  proof (cases z)
    case (Inr v)
    have d: "q_does st st1" "pv_ok st1 v" using ok by (simp_all add: call_ok_def c Inr)
    have "r < length (q_defs st1)" using assms(3) ext_lengths(1) [OF q_does_ext [OF d(1)]] by (simp add: TickFulfilled)
    with resolve_does [OF this d(2)] Inr assms(6) c show ?thesis
      by (auto simp: TickFulfilled g try_call_def returns_def dest: q_does_ext)
  qed (use assms(6) c in \<open>simp add: TickFulfilled g try_call_def\<close>)
  ultimately show ?thesis using paid_ext by blast
next
  case (TickRejected r f v)
  then obtain g where g: "f = Some g" "b \<in> owes g" using assms(5) by auto
  have ok: "call_ok st (call_fn app g v st)" using assms TickRejected g by (intro call_fn_ok) auto
  have run: "try_call (call_fn app g v st) (\<lambda>y st. returns (Undef, resolve r y st))
      (\<lambda>e st. returns (Undef, q_handler e (reject_deferred r e st))) = Some (y, st')"
    using assms(6) by (simp add: TickRejected g or_errback_def)
  then obtain z st1 where c: "call_fn app g v st = Some (z, st1)" by (rule try_call_Some)
  have "paid st1 b" by (rule call_pays [OF assms(1,2) _ _ assms(4) c g(2)]) (use assms(3) TickRejected g in auto)
  moreover have "q_ext st1 st'" by (rule try_call_later [OF ok assms(2) _ c run]) (use assms(3) TickRejected in simp)
  ultimately show ?thesis using paid_ext by blast
next
  case (TickWhen w v cb eb pb)
  then obtain z where z: "then_on (ref v) (Some (WhenCallback w cb eb pb)) (Some (WhenErrback w eb)) (Some (WhenProgressback w pb)) st = Some z" "st' = snd z"
    using assms(6) by (auto simp: returns_def split: option.splits)
  with then_on_waiting [OF z(1) assms(2)] assms(3,5) TickWhen show ?thesis by simp
qed

text \<open>A run: the application calls operations of \<open>$q\<close>, or the first entry of the queue is run.\<close>

inductive q_run :: "('f, 'v) app_fun \<Rightarrow> ('f, 'v) qstate \<Rightarrow> ('f, 'v) qstate \<Rightarrow> bool" for app where
  by_app: "q_step st st' \<Longrightarrow> q_run app st st'"
| by_tick: "run_first app st = Some st' \<Longrightarrow> q_run app st st'"

text \<open>What a run keeps: well-formedness, the values of settled deferreds, and debts that wait until they are paid.\<close>

definition run_keeps :: "('f, 'v) qstate \<Rightarrow> ('f, 'v) qstate \<Rightarrow> bool" where
  "run_keeps st st' \<longleftrightarrow> q_ok st' \<and> when_inv st' \<and>
     (\<forall>d < length (q_defs st). d < length (q_defs st') \<and> (df_value (q_defs st ! d) \<noteq> None \<longrightarrow> q_defs st' ! d = q_defs st ! d)) \<and>
     (\<forall>b. paid st b \<longrightarrow> paid st' b) \<and> (\<forall>b. waiting st b \<longrightarrow> paid st' b \<or> waiting st' b)"

lemma does_keeps:
  assumes "q_does st st'" "q_ok st" "when_inv st"
  shows "run_keeps st st'"
proof -
  have x: "q_ext st st'" "whens_ext st st'" "q_ok st'" "defs_ext st st'" using assms(1,2) by (simp_all add: q_does_def q_ext_def)
  with when_inv_ext [OF assms(3) x(2,1)] paid_ext [OF x(1)] waiting_ext [OF x(1)] defs_extD(1,3) [OF x(4)] show ?thesis
    unfolding run_keeps_def by blast
qed

text \<open>Taking the first entry off the queue.\<close>

lemma ticks_pv [simp]: "pv_ok (st\<lparr>q_ticks := ts\<rparr>) v = pv_ok st v"
  by (cases v) auto

lemma ticks_th [simp]: "th_ok (st\<lparr>q_ticks := ts\<rparr>) t = th_ok st t"
  by (cases t) auto

lemma ticks_fn [simp]: "fn_ok (st\<lparr>q_ticks := ts\<rparr>) = fn_ok st"
proof
  show "fn_ok (st\<lparr>q_ticks := ts\<rparr>) f = fn_ok st f" for f by (induction f) auto
qed

lemma ticks_task [simp]: "task_ok (st\<lparr>q_ticks := ts\<rparr>) = task_ok st"
proof
  show "task_ok (st\<lparr>q_ticks := ts\<rparr>) t = task_ok st t" for t by (cases t) auto
qed

lemma ticks_deferred [simp]: "deferred_ok (st\<lparr>q_ticks := ts\<rparr>) = deferred_ok st"
proof
  show "deferred_ok (st\<lparr>q_ticks := ts\<rparr>) df = deferred_ok st df" for df
    by (cases "df_value df") (simp_all add: deferred_ok_def)
qed

lemma ticks_settled [simp]: "settled (st\<lparr>q_ticks := ts\<rparr>) d = settled st d"
  by (simp add: settled_def)

lemma ticks_paid [simp]: "paid (st\<lparr>q_ticks := ts\<rparr>) b = paid st b"
  by (cases b) auto

lemma ticks_owes [simp]: "task_owes (st\<lparr>q_ticks := ts\<rparr>) t b = task_owes st t b" "waits_for (st\<lparr>q_ticks := ts\<rparr>) b d = waits_for st b d"
  by (cases t) (auto simp: waits_for_def)

lemma run_keeps_handler: "run_keeps st st' \<Longrightarrow> run_keeps st (q_handler e st')"
proof -
  assume k: "run_keeps st st'"
  then have "run_keeps st' (q_handler e st')" by (intro does_keeps q_handler_does) (simp_all add: run_keeps_def)
  moreover have "q_defs (q_handler e st') = q_defs st'" by (simp add: q_handler_def)
  ultimately show ?thesis using k unfolding run_keeps_def by metis
qed

lemma run_first_keeps:
  assumes "q_behaved app" "q_ok st" "when_inv st" "run_first app st = Some st'"
  shows "run_keeps st st'"
proof (cases "q_ticks st")
  case (Cons t ts)
  let ?st = "st\<lparr>q_ticks := ts\<rparr>"
  obtain y st1 where y: "run_tick app t ?st = Some (y, st1)" and st': "st' = (case y of Inl e \<Rightarrow> q_handler e st1 | Inr _ \<Rightarrow> st1)"
    using assms(4) by (auto simp: run_first_def Cons split: option.splits sum.splits)
  have ok: "q_ok ?st" "task_ok ?st t" "when_inv ?st"
    using assms(2,3) by (simp_all add: q_ok_def Cons when_inv_def)
  have d: "q_does ?st st1" using run_tick_ok [OF assms(1) ok(1,2)] by (simp add: call_ok_def y)
  note k = does_keeps [OF d ok(1,3)]
  have "paid st1 b \<or> waiting st1 b" if w: "waiting st b" for b
  proof (cases "task_owes st t b")
    case True
    then show ?thesis using run_tick_pays [OF assms(1) ok(1,2,3) _ y] by simp
  next
    case False
    with w have "waiting ?st b" by (auto simp: waiting_def Cons)
    with k show ?thesis by (simp add: run_keeps_def)
  qed
  with k have "run_keeps st st1" by (simp add: run_keeps_def)
  then show ?thesis by (cases y) (simp_all add: st' run_keeps_handler)
qed (use assms does_keeps [OF q_does_refl] in \<open>simp add: run_first_def\<close>)

lemma run_keeps_trans: "run_keeps st st' \<Longrightarrow> run_keeps st' st'' \<Longrightarrow> run_keeps st st''"
  unfolding run_keeps_def by metis

lemma run_keeps_all:
  assumes "(q_run app)\<^sup>*\<^sup>* st st'" "q_behaved app" "q_ok st" "when_inv st"
  shows "run_keeps st st'"
  using assms(1)
proof (induction rule: rtranclp_induct)
  case base
  show ?case by (rule does_keeps [OF q_does_refl assms(3,4)])
next
  case (step st1 st2)
  then have ok: "q_ok st1" "when_inv st1" by (simp_all add: run_keeps_def)
  from step(2) have "run_keeps st1 st2"
    by cases (use ok assms(2) in \<open>auto intro: run_first_keeps does_keeps q_step_does\<close>)
  with step.IH show ?case by (rule run_keeps_trans)
qed

lemma empty_ok: "q_ok q_empty" "when_inv q_empty"
  by (simp_all add: q_empty_def q_ok_def when_inv_def)

text \<open>The states that can be reached.\<close>

definition q_reach :: "('f, 'v) app_fun \<Rightarrow> ('f, 'v) qstate \<Rightarrow> bool" where
  "q_reach app st \<longleftrightarrow> (q_run app)\<^sup>*\<^sup>* q_empty st"

lemma reach_ok: "q_behaved app \<Longrightarrow> q_reach app st \<Longrightarrow> q_ok st \<and> when_inv st"
  using run_keeps_all [OF _ _ empty_ok] by (auto simp: q_reach_def run_keeps_def)

text \<open>
  C22. References are never dangling: in every state that an application which uses the operations of \<open>$q\<close> can
  reach, together with the queue, all the deferreds, calls of \<open>when\<close> and calls of \<open>all\<close> that closures, queue
  entries and values name exist, and an entry of the queue that delivers to callbacks is for a settled deferred.
\<close>

theorem promises_well_formed:
  assumes "q_behaved app" "q_reach app st"
  shows "q_ok st"
  using reach_ok [OF assms] by simp

text \<open>
  C20. A deferred is settled once: what it was resolved or rejected with first it keeps, whatever the application
  and the queue do later, and callbacks are not added to it any more.
\<close>

theorem settled_once:
  assumes "q_behaved app" "q_reach app st" "(q_run app)\<^sup>*\<^sup>* st st'" "settled st d"
  shows "settled st' d \<and> q_defs st' ! d = q_defs st ! d"
  using run_keeps_all [OF assms(3,1)] reach_ok [OF assms(1,2)] assms(4) by (auto simp: run_keeps_def settled_def)

text \<open>
  C19. The promise that \<open>then\<close> returns is never forgotten: when the queue is empty, it has been settled, or it
  still waits in the callbacks of a deferred that is pending. That holds for any callbacks, also if they throw,
  return promises or call \<open>$q\<close> themselves, as long as the application only uses the operations of \<open>$q\<close>.
\<close>

theorem then_result_settles:
  assumes "q_behaved app" "q_reach app st" "d < length (q_defs st)"
    "promise_then d (map_option User cb) (map_option User eb) (map_option User pb) st = Some (r, st1)"
    "(q_run app)\<^sup>*\<^sup>* st1 st2" "q_ticks st2 = []"
  shows "settled st2 r \<or> (\<exists>e. waits_for st2 (Deferred r) e)"
proof -
  have ok: "q_ok st" "when_inv st" using reach_ok [OF assms(1,2)] by simp_all
  have d: "q_does st st1" "waiting st1 (Deferred r)" using promise_then_does [OF ok(1) assms(3) _ _ _ assms(4)] by simp_all
  have "run_keeps st st1" by (rule does_keeps [OF d(1) ok])
  then have "run_keeps st1 st2" by (intro run_keeps_all [OF assms(5,1)]) (simp_all add: run_keeps_def)
  with d(2) have "paid st2 (Deferred r) \<or> waiting st2 (Deferred r)" unfolding run_keeps_def by blast
  with assms(6) show ?thesis by (simp add: waiting_def)
qed

end
