(* ===== verification/Angular_Deliver.thy ===== *)
theory Angular_Deliver
  imports Angular_Continue
begin

text \<open>
  How promises deliver: when \<open>then\<close> returns, and in which order the callbacks of a promise are called.
\<close>

section \<open>When \<open>then\<close> returns\<close>

text \<open>The deferreds that one is settled with lead to one that is pending, or to a value or a reason.\<close>

inductive leads :: "('f, 'v) qstate \<Rightarrow> 'v thenable \<Rightarrow> bool" for st where
  "leads st (Fulfilled v)"
| "leads st (Rejected v)"
| "df_value (q_defs st ! d) = None \<Longrightarrow> leads st (OfDeferred d)"
| "df_value (q_defs st ! d) = Some t \<Longrightarrow> leads st t \<Longrightarrow> leads st (OfDeferred d)"

inductive_cases leads_deferred: "leads st (OfDeferred d)"

lemma leads_more:
  assumes "leads st1 t" "q_ok st" "th_ok st t" "\<forall>d < length (q_defs st). q_defs st1 ! d = q_defs st ! d"
  shows "leads st t"
  using assms(1,3)
proof (induction rule: leads.induct)
  case (4 d t)
  then have "df_value (q_defs st ! d) = Some t" using assms(4) by simp
  with 4 th_ok_value [OF assms(2), of d t] show ?case by (auto intro: leads.intros)
qed (use assms(4) in \<open>auto intro: leads.intros\<close>)

lemma new_deferred_keeps: "new_deferred st = (r, st1) \<Longrightarrow> \<forall>d < length (q_defs st). q_defs st1 ! d = q_defs st ! d"
  by (auto simp: new_deferred_def nth_append)

lemma then_leads:
  assumes "then_on t cb eb pb st = Some y" "q_ok st" "th_ok st t"
  shows "leads st t"
  using assms
proof (induction rule: then_on_induct)
  case (pending d cb eb pb st r st1)
  then have "q_defs st1 ! d = q_defs st ! d" by (auto simp: new_deferred_def nth_append)
  with pending show ?case by (auto intro: leads.intros)
next
  case (asked d cb eb pb st r st1 t r2 st2)
  have d: "q_defs st1 ! d = q_defs st ! d" using asked(1,5) by (auto simp: new_deferred_def nth_append)
  have t: "th_ok st t" using th_ok_value [OF asked(4)] asked(2,5) d by simp
  note n = new_deferred_does [OF asked(1)]
  have "leads st1 t" by (rule asked.IH [OF q_does_ok [OF n asked(4)] does_ok(2) [OF t n]])
  with leads_more [OF _ asked(4) t new_deferred_keeps [OF asked(1)]] asked(2) d show ?case by (auto intro: leads.intros)
qed (auto intro: leads.intros)

lemma leads_then:
  assumes "leads st t" "q_ok st" "th_ok st t" "\<forall>d < length (q_defs st). q_defs st1 ! d = q_defs st ! d"
    "length (q_defs st) \<le> length (q_defs st1)"
  shows "then_on t cb eb pb st1 \<noteq> None"
  using assms(1,3,4,5)
proof (induction arbitrary: cb eb pb st1 rule: leads.induct)
  case (4 d t)
  obtain r st2 where n: "new_deferred st1 = (r, st2)" by fastforce
  have th: "th_ok st t" using th_ok_value [OF assms(2), of d t] 4 by simp
  have keep: "\<forall>d < length (q_defs st). q_defs st2 ! d = q_defs st ! d" "length (q_defs st) \<le> length (q_defs st2)"
    using 4(5,6) new_deferred_keeps [OF n] ext_lengths(1) [OF q_does_ext [OF new_deferred_does [OF n]]] by auto
  have "df_value (q_defs st2 ! d) = Some t" using 4(1,4) keep by simp
  moreover obtain y where "then_on t (Some (WrappedCallback r (or_callback cb))) (Some (WrappedErrback r (or_errback eb)))
      (Some (WrappedProgressback r (or_callback pb))) st2 = Some y"
    using 4(3) [OF th keep] by (meson not_None_eq)
  ultimately show ?case by (subst then_on.simps) (simp add: n Let_def split_def)
next
  case (3 d)
  obtain r st2 where n: "new_deferred st1 = (r, st2)" by fastforce
  then have "df_value (q_defs st2 ! d) = None" using 3 new_deferred_keeps [OF n] by auto
  with n show ?case by (subst then_on.simps) simp
qed (subst then_on.simps, simp add: split_def Let_def)+

text \<open>
  \<open>then\<close> returns exactly if the chain of promises that its promise was resolved with comes to an end.
  A promise that is resolved with itself, or a cycle of promises, makes it call itself for ever.
\<close>

theorem then_returns:
  assumes "q_behaved app" "q_reach app st" "d < length (q_defs st)"
  shows "promise_then d cb eb pb st \<noteq> None \<longleftrightarrow> leads st (OfDeferred d)"
proof -
  have ok: "q_ok st" using reach_ok [OF assms(1,2)] by simp
  show ?thesis
    using then_leads [of "OfDeferred d" cb eb pb st, OF _ ok] leads_then [of st "OfDeferred d" st, OF _ ok] assms(3)
    by (auto simp: promise_then_def)
qed

lemma self_leads_nowhere:
  assumes "leads st t" "df_value (q_defs st ! d) = Some (OfDeferred d)"
  shows "t \<noteq> OfDeferred d"
  using assms by (induction rule: leads.induct) auto

text \<open>A promise that is resolved with itself: its \<open>then\<close> does not return.\<close>

theorem then_on_itself:
  assumes "q_ok st" "d < length (q_defs st)" "df_value (q_defs st ! d) = None"
  shows "promise_then d cb eb pb (resolve d (Prom d) st) = None"
proof (rule ccontr)
  let ?st = "resolve d (Prom d) st"
  have dd: "q_does st ?st" using assms by (intro resolve_does) simp_all
  have v: "df_value (q_defs ?st ! d) = Some (OfDeferred d)"
    using assms by (simp add: resolve_def resolve_to_def Let_def nextTick_def)
  assume "promise_then d cb eb pb ?st \<noteq> None"
  then obtain y where "then_on (OfDeferred d) cb eb pb ?st = Some y" by (auto simp: promise_then_def)
  from then_leads [OF this q_does_ok [OF dd assms(1)]] dd assms(2) self_leads_nowhere [OF _ v] show False
    using does_ok(2) [of st "OfDeferred d" ?st] by fastforce
qed

section \<open>Delivery\<close>

text \<open>An application whose functions compute a result or throw, without touching promises.\<close>

definition pure_app :: "('f \<Rightarrow> 'v pval \<Rightarrow> 'v pval + 'v pval) \<Rightarrow> ('f, 'v) app_fun" where
  "pure_app h f x st = Some (h f x, st)"

text \<open>Registering callbacks one after the other.\<close>

fun then_all :: "nat \<Rightarrow> 'f list \<Rightarrow> ('f, 'v) qstate \<Rightarrow> ('f, 'v) qstate option" where
  "then_all d [] st = Some st"
| "then_all d (f # fs) st =
     (case promise_then d (Some (User f)) None None st of None \<Rightarrow> None | Some (_, st) \<Rightarrow> then_all d fs st)"

definition fresh_deferred :: "('f, 'v) deferred" where
  "fresh_deferred = \<lparr>df_callbacks = [], df_value = None\<rparr>"

definition entry_for :: "nat \<Rightarrow> 'f \<Rightarrow> ('f, 'v) fn \<times> ('f, 'v) fn \<times> ('f, 'v) fn" where
  "entry_for r f = (WrappedCallback r (User f), WrappedErrback r DefaultErrback, WrappedProgressback r DefaultCallback)"

lemma promise_then_pending:
  assumes "d < length (q_defs st)" "df_value (q_defs st ! d) = None"
  shows "promise_then d (Some (User f)) None None st = Some (length (q_defs st),
    st\<lparr>q_defs := (q_defs st)[d := (q_defs st ! d)\<lparr>df_callbacks := df_callbacks (q_defs st ! d) @ [entry_for (length (q_defs st)) f]\<rparr>] @ [fresh_deferred]\<rparr>)"
  unfolding promise_then_def using assms
  by (subst then_on.simps) (simp add: new_deferred_def nth_append add_callbacks_def entry_for_def or_callback_def or_errback_def
    fresh_deferred_def list_update_append)

lemma then_all_pending:
  assumes "d < length (q_defs st)" "df_value (q_defs st ! d) = None"
  shows "then_all d fs st = Some (st\<lparr>q_defs :=
    (q_defs st)[d := (q_defs st ! d)\<lparr>df_callbacks := df_callbacks (q_defs st ! d) @
       map2 entry_for [length (q_defs st)..<length (q_defs st) + length fs] fs\<rparr>] @ replicate (length fs) fresh_deferred\<rparr>)"
  using assms
proof (induction fs arbitrary: st)
  case (Cons f fs)
  let ?st = "st\<lparr>q_defs := (q_defs st)[d := (q_defs st ! d)\<lparr>df_callbacks := df_callbacks (q_defs st ! d) @ [entry_for (length (q_defs st)) f]\<rparr>] @ [fresh_deferred]\<rparr>"
  have "then_all d (f # fs) st = then_all d fs ?st" using promise_then_pending [OF Cons.prems] by simp
  moreover have "[length (q_defs st)..<length (q_defs st) + length (f # fs)] =
      length (q_defs st) # [Suc (length (q_defs st))..<Suc (length (q_defs st)) + length fs]"
    by (simp add: upt_conv_Cons del: upt_Suc)
  ultimately show ?case using Cons.prems Cons.IH [of ?st] by (simp add: nth_append list_update_append del: upt_Suc then_all.simps)
qed simp

text \<open>The loop of \<open>resolve\<close> over callbacks, for a value: an entry of the queue for each.\<close>

definition delivery :: "nat \<Rightarrow> ('f, 'v) fn \<times> ('f, 'v) fn \<times> ('f, 'v) fn \<Rightarrow> 'v pval \<Rightarrow> ('f, 'v) task" where
  "delivery r c v = TickFulfilled r (Some (fst c)) v"

lemma then_each_fulfilled:
  "then_each (Fulfilled v) cs st = Some (st\<lparr>q_defs := q_defs st @ replicate (length cs) fresh_deferred,
     q_ticks := q_ticks st @ map2 (\<lambda>r c. delivery r c v) [length (q_defs st)..<length (q_defs st) + length cs] cs\<rparr>)"
proof (induction cs arbitrary: st)
  case (Cons c cs)
  obtain a b p where c: "c = (a, b, p)" by (metis prod_cases3)
  let ?st = "st\<lparr>q_defs := q_defs st @ [fresh_deferred], q_ticks := q_ticks st @ [delivery (length (q_defs st)) c v]\<rparr>"
  have "then_on (Fulfilled v) (Some a) (Some b) (Some p) st = Some (length (q_defs st), ?st)"
    by (subst then_on.simps) (simp add: new_deferred_def nextTick_def c delivery_def fresh_deferred_def)
  moreover have "[length (q_defs st)..<length (q_defs st) + length (c # cs)] =
      length (q_defs st) # [Suc (length (q_defs st))..<Suc (length (q_defs st)) + length cs]"
    by (simp add: upt_conv_Cons del: upt_Suc)
  ultimately show ?case using Cons.IH [of ?st] by (simp add: c del: upt_Suc)
qed simp

text \<open>What the run of such an entry does, for the callback \<open>f\<close> whose result settles \<open>r\<close>.\<close>

definition settle_by :: "'v pval + 'v pval \<Rightarrow> 'v thenable" where
  "settle_by y = (case y of Inr v \<Rightarrow> ref v | Inl e \<Rightarrow> Rejected e)"

definition thrown :: "'v pval + 'v pval \<Rightarrow> 'v pval list" where
  "thrown y = (case y of Inr v \<Rightarrow> [] | Inl e \<Rightarrow> [e])"

lemma run_delivery:
  assumes "q_ticks st = delivery r' (entry_for r f) v # ts" "r < length (q_defs st)" "r' < length (q_defs st)" "r \<noteq> r'"
    "q_defs st ! r = fresh_deferred" "q_defs st ! r' = fresh_deferred"
  shows "run_first (pure_app h) st = Some (st\<lparr>q_ticks := ts, q_calls := q_calls st @ [(f, v)], q_errors := q_errors st @ thrown (h f v),
    q_defs := (q_defs st)[r := fresh_deferred\<lparr>df_value := Some (settle_by (h f v))\<rparr>, r' := fresh_deferred\<lparr>df_value := Some (Fulfilled Undef)\<rparr>]\<rparr>)"
  using assms
  by (cases "h f v") (simp_all add: run_first_def delivery_def entry_for_def pure_app_def try_call_def returns_def resolve_def
    reject_deferred_def resolve_to_def Let_def q_handler_def thrown_def settle_by_def fresh_deferred_def nth_list_update_if)

lemma flush_deliveries:
  assumes "q_ticks st = map2 (\<lambda>r' (r, f). delivery r' (entry_for r f) v) rs' (zip rs fs)" "length rs = length fs" "length rs' = length fs"
    "distinct (rs @ rs')" "\<forall>r \<in> set (rs @ rs'). r < length (q_defs st) \<and> q_defs st ! r = fresh_deferred"
  shows "\<exists>st'. flush (pure_app h) st = Some st' \<and> q_ticks st' = [] \<and> q_calls st' = q_calls st @ map (\<lambda>f. (f, v)) fs \<and>
    q_errors st' = q_errors st @ concat (map (\<lambda>f. thrown (h f v)) fs) \<and> length (q_defs st') = length (q_defs st) \<and>
    (\<forall>i < length fs. df_value (q_defs st' ! (rs ! i)) = Some (settle_by (h (fs ! i) v))) \<and>
    (\<forall>d < length (q_defs st). d \<notin> set (rs @ rs') \<longrightarrow> q_defs st' ! d = q_defs st ! d)"
  using assms
proof (induction fs arbitrary: st rs rs')
  case Nil
  then show ?case by (subst flush.simps) simp
next
  case (Cons f fs)
  obtain r rs1 r' rs1' where rs: "rs = r # rs1" "rs' = r' # rs1'" using Cons.prems(2,3) by (metis length_Suc_conv list.size(4) Suc_eq_plus1)
  let ?ts = "map2 (\<lambda>r' (r, f). delivery r' (entry_for r f) v) rs1' (zip rs1 fs)"
  let ?st = "st\<lparr>q_ticks := ?ts, q_calls := q_calls st @ [(f, v)], q_errors := q_errors st @ thrown (h f v),
    q_defs := (q_defs st)[r := fresh_deferred\<lparr>df_value := Some (settle_by (h f v))\<rparr>, r' := fresh_deferred\<lparr>df_value := Some (Fulfilled Undef)\<rparr>]\<rparr>"
  have run: "run_first (pure_app h) st = Some ?st" by (rule run_delivery) (use Cons.prems rs in auto)
  have "flush (pure_app h) st = flush (pure_app h) ?st"
    by (subst flush.simps) (use Cons.prems(1) rs run in simp)
  moreover obtain st' where st': "flush (pure_app h) ?st = Some st'" "q_ticks st' = []" "q_calls st' = q_calls ?st @ map (\<lambda>f. (f, v)) fs"
    "q_errors st' = q_errors ?st @ concat (map (\<lambda>f. thrown (h f v)) fs)" "length (q_defs st') = length (q_defs ?st)"
    "\<forall>i < length fs. df_value (q_defs st' ! (rs1 ! i)) = Some (settle_by (h (fs ! i) v))"
    "\<forall>d < length (q_defs ?st). d \<notin> set (rs1 @ rs1') \<longrightarrow> q_defs st' ! d = q_defs ?st ! d"
  proof -
    have "\<forall>x \<in> set (rs1 @ rs1'). x < length (q_defs ?st) \<and> q_defs ?st ! x = fresh_deferred"
      using Cons.prems(4,5) by (auto simp: rs nth_list_update_if)
    then show ?thesis using Cons.IH [of ?st rs1' rs1] Cons.prems(2-4) that by (auto simp: rs)
  qed
  have d: "r < length (q_defs st)" "r' < length (q_defs st)" "r \<noteq> r'" "r \<notin> set (rs1 @ rs1')" using Cons.prems(4,5) by (auto simp: rs)
  have "df_value (q_defs st' ! (rs ! i)) = Some (settle_by (h ((f # fs) ! i) v))" if "i < length (f # fs)" for i
    using that st'(6,7) d by (cases i) (auto simp: rs nth_list_update_if)
  moreover have "q_defs st' ! x = q_defs st ! x" if "x < length (q_defs st)" "x \<notin> set (rs @ rs')" for x
    using that st'(7) d by (auto simp: rs nth_list_update_if)
  ultimately show ?case using st'(1-5) by simp
qed

text \<open>
  C21. Callbacks are called once each, in the order in which they were registered and only by the queue: if a promise
  that is pending and has no callbacks gets some and is then resolved with a value, the queue comes to its end,
  has called exactly these functions with that value, and the promise of each \<open>then\<close> is settled with what its callback
  returned (the promise it returned, if it did), or rejected with what it threw.
\<close>

theorem callbacks_in_order:
  fixes st :: "('f, 'v) qstate"
  assumes "q_ticks st = []" "d < length (q_defs st)" "q_defs st ! d = fresh_deferred"
  defines "n \<equiv> length (q_defs st)"
  shows "\<exists>st1 st2. then_all d fs st = Some st1 \<and> q_calls st1 = q_calls st \<and>
    flush (pure_app h) (resolve d (Val v) st1) = Some st2 \<and> q_ticks st2 = [] \<and>
    q_calls st2 = q_calls st @ map (\<lambda>f. (f, Val v)) fs \<and>
    (\<forall>i < length fs. df_value (q_defs st2 ! (n + i)) = Some (settle_by (h (fs ! i) (Val v))))"
proof -
  define cs :: "(('f, 'v) fn \<times> ('f, 'v) fn \<times> ('f, 'v) fn) list" where "cs = map2 entry_for [n..<n + length fs] fs"
  let ?df = "fresh_deferred\<lparr>df_callbacks := cs\<rparr>"
  define st1 where "st1 = st\<lparr>q_defs := (q_defs st)[d := ?df] @ replicate (length fs) fresh_deferred\<rparr>"
  have reg: "then_all d fs st = Some st1"
    using then_all_pending [OF assms(2), of fs] assms(3) by (simp add: st1_def cs_def n_def fresh_deferred_def)
  let ?st = "resolve d (Val v) st1" and ?m = "n + length fs"
  have sel: "q_defs ?st = (q_defs st)[d := ?df\<lparr>df_value := Some (Fulfilled (Val v))\<rparr>] @ replicate (length fs) fresh_deferred"
    "q_ticks ?st = (if fs = [] then [] else [TickResolve d])" "q_calls ?st = q_calls st"
    using assms(1,2) by (auto simp: resolve_def resolve_to_def st1_def cs_def n_def nth_append Let_def nextTick_def fresh_deferred_def list_update_append)
  show ?thesis
  proof (cases "fs = []")
    case True
    then have "flush (pure_app h) ?st = Some ?st" by (subst flush.simps) (simp add: sel)
    with reg True sel show ?thesis by (simp add: st1_def)
  next
    case False
    define st3 where "st3 = ?st\<lparr>q_defs := q_defs ?st @ replicate (length fs) fresh_deferred,
      q_ticks := map2 (\<lambda>r' (r, f). delivery r' (entry_for r f) (Val v)) [?m..<?m + length fs] (zip [n..<?m] fs)\<rparr>"
    have len: "length (q_defs ?st) = ?m" "length cs = length fs" by (simp_all add: sel n_def cs_def)
    have dfd: "df_value (q_defs ?st ! d) = Some (Fulfilled (Val v))" "df_callbacks (q_defs ?st ! d) = cs"
      using assms(2) by (simp_all add: sel nth_append fresh_deferred_def)
    have "map2 (\<lambda>r c. delivery r c (Val v)) [?m..<?m + length fs] cs =
        map2 (\<lambda>r' (r, f). delivery r' (entry_for r f) (Val v)) [?m..<?m + length fs] (zip [n..<?m] fs)"
      by (simp add: cs_def zip_map2 split_def comp_def)
    then have "run_first (pure_app h) ?st = Some st3"
      using False dfd len then_each_fulfilled [of "Val v" cs "?st\<lparr>q_ticks := []\<rparr>"]
      by (simp add: run_first_def sel(2) returns_def st3_def)
    then have fl: "flush (pure_app h) ?st = flush (pure_app h) st3" using False by (subst flush.simps) (simp add: sel(2))
    have "q_defs st3 ! x = fresh_deferred" if "n \<le> x" "x < ?m + length fs" for x
      using that by (auto simp: st3_def sel n_def nth_append)
    then have "\<forall>r \<in> set ([n..<?m] @ [?m..<?m + length fs]). r < length (q_defs st3) \<and> q_defs st3 ! r = fresh_deferred"
      by (auto simp: st3_def len)
    from flush_deliveries [of st3 "Val v" "[?m..<?m + length fs]" "[n..<?m]" fs h, OF _ _ _ _ this]
    obtain st2 where "flush (pure_app h) st3 = Some st2" "q_ticks st2 = []" "q_calls st2 = q_calls st3 @ map (\<lambda>f. (f, Val v)) fs"
      "\<forall>i < length fs. df_value (q_defs st2 ! (n + i)) = Some (settle_by (h (fs ! i) (Val v)))"
      by (auto simp: st3_def)
    moreover have "q_calls st1 = q_calls st" by (simp add: st1_def)
    moreover have "q_calls st3 = q_calls st" unfolding st3_def using sel(3) by simp
    ultimately show ?thesis using reg fl by auto
  qed
qed

section \<open>Examples\<close>

text \<open>Running the queue to its end is a run.\<close>

lemma flush_runs:
  assumes "flush app st = Some st'"
  shows "(q_run app)\<^sup>*\<^sup>* st st' \<and> q_ticks st' = []"
proof (rule flush.raw_induct [where P = "\<lambda>app st st'. (q_run app)\<^sup>*\<^sup>* st st' \<and> q_ticks st' = []", OF _ assms])
  fix flush' :: "('a, 'b) app_fun \<Rightarrow> ('a, 'b) qstate \<Rightarrow> ('a, 'b) qstate option" and app st st'
  assume ih: "\<And>app st st'. flush' app st = Some st' \<Longrightarrow> (q_run app)\<^sup>*\<^sup>* st st' \<and> q_ticks st' = []"
    and body: "(if q_ticks st = [] then Some st else do { st \<leftarrow> run_first app st; flush' app st }) = Some st'"
  show "(q_run app)\<^sup>*\<^sup>* st st' \<and> q_ticks st' = []"
  proof (cases "q_ticks st = []")
    case False
    with body obtain st1 where "run_first app st = Some st1" "flush' app st1 = Some st'" by (auto simp: Option.bind_eq_Some_conv)
    with ih [of app st1 st'] show ?thesis by (auto intro: converse_rtranclp_into_rtranclp by_tick)
  qed (use body in simp)
qed

definition q_demo_app :: "(nat, int) app_fun" where
  "q_demo_app = pure_app (\<lambda>f x. Inr x)"

lemma q_demo_behaved: "q_behaved q_demo_app"
  by (simp add: q_behaved_def q_demo_app_def pure_app_def)

text \<open>A deferred with one callback, before and after it is resolved.\<close>

definition demo0 :: "(nat, int) qstate" where "demo0 = snd (new_deferred q_empty)"
definition demo1 :: "(nat, int) qstate" where "demo1 = snd (the (promise_then 0 (Some (User 7)) None None demo0))"
definition demo2 :: "(nat, int) qstate" where "demo2 = resolve 0 (Val 5) demo1"

lemma demo0_eq: "demo0 = q_empty\<lparr>q_defs := [fresh_deferred]\<rparr>"
  by (simp add: demo0_def new_deferred_def fresh_deferred_def q_empty_def)

lemma demo1_then: "promise_then 0 (Some (User 7)) None None demo0 = Some (1, demo1)"
  by (simp add: demo1_def promise_then_pending demo0_eq q_empty_def fresh_deferred_def)

lemma demo1_eq: "demo1 = q_empty\<lparr>q_defs := [fresh_deferred\<lparr>df_callbacks := [entry_for 1 7]\<rparr>, fresh_deferred]\<rparr>"
  by (simp add: demo1_def promise_then_pending demo0_eq q_empty_def fresh_deferred_def)

lemma demo0_reach: "q_reach q_demo_app demo0"
  unfolding q_reach_def by (rule r_into_rtranclp, rule by_app, rule s_defer [of _ 0]) (simp add: demo0_def new_deferred_def q_empty_def)

lemma demo2_run: "(q_run q_demo_app)\<^sup>*\<^sup>* demo1 demo2"
  unfolding demo2_def by (rule r_into_rtranclp, rule by_app, rule s_resolve) (simp_all add: demo1_eq)

lemma demo1_reach: "q_reach q_demo_app demo1"
proof -
  have "q_step demo0 demo1"
    using s_then [of 0 demo0 "Some 7" None None 1 demo1] demo1_then by (simp add: demo0_eq)
  then have "q_run q_demo_app demo0 demo1" by (rule by_app)
  with demo0_reach show ?thesis unfolding q_reach_def by (rule rtranclp.rtrancl_into_rtrancl)
qed

lemma demo2_reach: "q_reach q_demo_app demo2"
  using demo1_reach demo2_run unfolding q_reach_def by (rule rtranclp_trans)

lemma demo2_eq: "demo2 = q_empty\<lparr>q_defs := [\<lparr>df_callbacks = [entry_for 1 7], df_value = Some (Fulfilled (Val 5))\<rparr>, fresh_deferred],
    q_ticks := [TickResolve 0]\<rparr>"
  by (simp add: demo2_def demo1_eq resolve_def resolve_to_def fresh_deferred_def nextTick_def q_empty_def)

text \<open>The state when the queue has come to its end.\<close>

definition demo3 :: "(nat, int) qstate" where
  "demo3 = q_empty\<lparr>q_calls := [(7, Val 5)], q_defs := [\<lparr>df_callbacks = [entry_for 1 7], df_value = Some (Fulfilled (Val 5))\<rparr>,
     \<lparr>df_callbacks = [], df_value = Some (Fulfilled (Val 5))\<rparr>, \<lparr>df_callbacks = [], df_value = Some (Fulfilled Undef)\<rparr>]\<rparr>"

lemma demo2_flush: "flush q_demo_app demo2 = Some demo3"
proof -
  let ?st = "demo2\<lparr>q_defs := q_defs demo2 @ [fresh_deferred], q_ticks := [delivery 2 (entry_for 1 7) (Val 5)]\<rparr>"
  have "run_first q_demo_app demo2 = Some ?st"
    using then_each_fulfilled [of "Val 5" "[entry_for 1 7]" "demo2\<lparr>q_ticks := []\<rparr>"]
    by (simp add: run_first_def demo2_eq q_empty_def returns_def numeral_2_eq_2)
  moreover have "run_first q_demo_app ?st = Some demo3"
    using run_delivery [of ?st 2 1 7 "Val 5" "[]" "\<lambda>f x. Inr x"]
    by (simp add: q_demo_app_def demo2_eq demo3_def q_empty_def fresh_deferred_def thrown_def settle_by_def)
  moreover have "flush q_demo_app demo3 = Some demo3" by (subst flush.simps) (simp add: demo3_def q_empty_def)
  ultimately show ?thesis
    by (subst flush.simps, simp add: demo2_eq, subst flush.simps) (simp add: demo2_eq q_empty_def)
qed

theorem promises_well_formed_witness: "q_ok demo2"
  by (rule promises_well_formed [OF q_demo_behaved demo2_reach])

theorem settled_once_witness: "settled demo3 0 \<and> q_defs demo3 ! 0 = q_defs demo2 ! 0"
  by (rule settled_once [OF q_demo_behaved demo2_reach]) (use flush_runs [OF demo2_flush] in \<open>simp_all add: settled_def demo2_eq\<close>)

theorem then_result_settles_witness: "settled demo3 1"
proof -
  have run: "(q_run q_demo_app)\<^sup>*\<^sup>* demo1 demo3"
    using demo2_run conjunct1 [OF flush_runs [OF demo2_flush]] by (rule rtranclp_trans)
  have "settled demo3 1 \<or> (\<exists>e. waits_for demo3 (Deferred 1) e)"
    using then_result_settles [of q_demo_app demo0 0 "Some 7" None None 1 demo1 demo3] q_demo_behaved demo0_reach demo1_then run
    by (simp add: demo0_eq demo3_def q_empty_def)
  moreover have "\<not> waits_for demo3 (Deferred 1) e" for e
    by (auto simp: waits_for_def demo3_def less_Suc_eq q_empty_def)
  ultimately show ?thesis by blast
qed

theorem then_returns_witness: "promise_then 0 (Some (User 7)) None None demo2 \<noteq> None"
  using then_returns [OF q_demo_behaved demo2_reach, of 0 "Some (User 7)" None None]
  by (auto simp: demo2_eq intro: leads.intros)

theorem callbacks_in_order_witness:
  "\<exists>st1 st2. then_all 0 [7, 8] demo0 = Some st1 \<and> flush (pure_app (\<lambda>f x. Inl (Val (int f)))) (resolve 0 (Val 5) st1) = Some st2 \<and>
     q_calls st2 = [(7, Val 5), (8, Val 5)] \<and> df_value (q_defs st2 ! 2) = Some (Rejected (Val 8))"
proof -
  obtain st1 st2 where *: "then_all 0 [7, 8] demo0 = Some st1" "flush (pure_app (\<lambda>f x. Inl (Val (int f)))) (resolve 0 (Val 5) st1) = Some st2"
      "q_calls st2 = q_calls demo0 @ map (\<lambda>f. (f, Val 5)) [7, 8]"
      "\<forall>i < length [7 :: nat, 8]. df_value (q_defs st2 ! (length (q_defs demo0) + i)) = Some (settle_by (Inl (Val (int ([7, 8] ! i)))))"
    using callbacks_in_order [of demo0 0 "[7, 8]" "\<lambda>f x. Inl (Val (int f))" 5] by (auto simp: demo0_eq q_empty_def)
  with *(4) [rule_format, of 1] show ?thesis by (auto simp: demo0_eq q_empty_def settle_by_def numeral_2_eq_2)
qed

end
