(* ===== verification/Angular_Injector.thy ===== *)
theory Angular_Injector
  imports Js_Prelude
begin

text \<open>
  The injector of \<open>angular-1.2.21.js\<close> (\<open>createInjector\<close>) and the modules it loads (\<open>setupModuleLoader\<close>). A function that
  can be injected is the list of the names it asks for (what \<open>annotate\<close> returns for it) and the code to run, which is
  named; what the code of the application computes is a parameter. This code gets its services by
  injection, not by calling the injector itself. Names are not names of properties that every object inherits.
\<close>

section \<open>Data\<close>

type_synonym 'f injectable = "string list \<times> 'f"

text \<open>
  The \<open>$get\<close> of a provider: given by the application or by \<open>factory\<close>, made by \<open>service\<close> or \<open>value\<close>, or
  replaced by \<open>decorator\<close>.
\<close>

datatype ('f, 'v) recipe =
    Factory "'f injectable"
  | Service "'f injectable"
  | Value 'v
  | Decorated "('f, 'v) recipe" "'f injectable"

datatype inj_error =
    UnknownProvider "string list"
  | CircularDependency "string list"
  | NoGet string
  | BadName string
  | NotAFunction
  | NoModule string
  | ModuleError string inj_error
  | AppError string

text \<open>What the cache of an injector has for a name.\<close>

datatype 'v slot = Instantiating | Instance 'v

text \<open>The cache of providers has objects with \<open>$get\<close>, the constants, and the objects \<open>$provide\<close> and \<open>$injector\<close>.\<close>

datatype ('f, 'v) provider_obj = Provider "('f, 'v) recipe" | Plain 'v | Internal

record ('f, 'v) injector =
  in_providers :: "string \<rightharpoonup> ('f, 'v) provider_obj"
  in_cache :: "string \<rightharpoonup> 'v slot"
  in_path :: "string list"

text \<open>
  The code of the application: functions that make a service, functions that make a provider (with its \<open>$get\<close>, if it has one),
  and blocks for configuration. \<open>Inl\<close> is an exception.
\<close>

record ('f, 'v) app_code =
  co_body :: "'f \<Rightarrow> 'v list \<Rightarrow> string + 'v"
  co_provider :: "'f \<Rightarrow> ('f, 'v) provider_obj list \<Rightarrow> string + ('f, 'v) recipe option"
  co_config :: "'f \<Rightarrow> ('f, 'v) provider_obj list \<Rightarrow> ('f, 'v) injector \<Rightarrow> (string + unit) \<times> ('f, 'v) injector"

section \<open>Services\<close>

definition provider_key :: "string \<Rightarrow> string" where
  "provider_key name = name @ ''Provider''"

text \<open>\<open>providerInjector.get(name)\<close>: the factory of this injector only throws, so its cache and the path are as before.\<close>

definition get_provider :: "string \<Rightarrow> ('f, 'v) injector \<Rightarrow> inj_error + ('f, 'v) provider_obj" where
  "get_provider name st =
     (case in_providers st name of
        None \<Rightarrow> Inl (UnknownProvider (name # in_path st))
      | Some p \<Rightarrow> Inr p)"

definition call_body :: "('f, 'v) app_code \<Rightarrow> 'f \<Rightarrow> 'v list \<Rightarrow> inj_error + 'v" where
  "call_body code f args = (case co_body code f args of Inl m \<Rightarrow> Inl (AppError m) | Inr v \<Rightarrow> Inr v)"

text \<open>A result with the state, and what is done next unless there was an exception; \<open>None\<close> is a call that did not return.\<close>

type_synonym ('a, 's) injected = "((inj_error + 'a) \<times> 's) option"

definition inj_bind :: "('a, 's) injected \<Rightarrow> ('a \<Rightarrow> 's \<Rightarrow> ('b, 's) injected) \<Rightarrow> ('b, 's) injected" where
  "inj_bind out k = (case out of None \<Rightarrow> None | Some (Inl e, st) \<Rightarrow> Some (Inl e, st) | Some (Inr v, st) \<Rightarrow> k v st)"

lemma inj_bind_cong [fundef_cong]:
  "out = out' \<Longrightarrow> (\<And>v st. out' = Some (Inr v, st) \<Longrightarrow> k v st = k' v st) \<Longrightarrow> inj_bind out k = inj_bind out' k'"
  by (auto simp: inj_bind_def split: option.splits sum.splits)

text \<open>The end of \<open>getService\<close>: the instance is cached, or after an exception the mark is deleted; the path is as it was.\<close>

definition inj_finish :: "string \<Rightarrow> ('v, ('f, 'v) injector) injected \<Rightarrow> ('v, ('f, 'v) injector) injected" where
  "inj_finish name out =
     (case out of
        None \<Rightarrow> None
      | Some (Inr v, st) \<Rightarrow> Some (Inr v, st\<lparr>in_cache := (in_cache st)(name \<mapsto> Instance v), in_path := tl (in_path st)\<rparr>)
      | Some (Inl e, st) \<Rightarrow>
          Some (Inl e, st\<lparr>in_cache := (case in_cache st name of Some Instantiating \<Rightarrow> (in_cache st)(name := None) | _ \<Rightarrow> in_cache st),
            in_path := tl (in_path st)\<rparr>))"

definition inj_mark :: "string \<Rightarrow> ('f, 'v) injector \<Rightarrow> ('f, 'v) injector" where
  "inj_mark name st = st\<lparr>in_path := name # in_path st, in_cache := (in_cache st)(name \<mapsto> Instantiating)\<rparr>"

text \<open>
  \<open>getService\<close> and \<open>invoke\<close> of the instance injector. The number is the depth to which services may be
  instantiated within each other; \<open>None\<close> is when it does not suffice.
\<close>

function (sequential)
  get_service :: "('f, 'v) app_code \<Rightarrow> nat \<Rightarrow> string \<Rightarrow> ('f, 'v) injector \<Rightarrow> ('v, ('f, 'v) injector) injected"
  and get_args :: "('f, 'v) app_code \<Rightarrow> nat \<Rightarrow> (string \<rightharpoonup> 'v) \<Rightarrow> string list \<Rightarrow> ('f, 'v) injector \<Rightarrow> ('v list, ('f, 'v) injector) injected"
  and invoke_get :: "('f, 'v) app_code \<Rightarrow> nat \<Rightarrow> ('f, 'v) recipe \<Rightarrow> ('f, 'v) injector \<Rightarrow> ('v, ('f, 'v) injector) injected"
  and invoke_fn :: "('f, 'v) app_code \<Rightarrow> nat \<Rightarrow> (string \<rightharpoonup> 'v) \<Rightarrow> 'f injectable \<Rightarrow> ('f, 'v) injector \<Rightarrow> ('v, ('f, 'v) injector) injected"
where
  "get_service code 0 name st = None"
| "get_service code (Suc n) name st =
     (case in_cache st name of
        Some Instantiating \<Rightarrow> Some (Inl (CircularDependency (name # in_path st)), st)
      | Some (Instance v) \<Rightarrow> Some (Inr v, st)
      | None \<Rightarrow>
          inj_finish name
            (case get_provider (provider_key name) (inj_mark name st) of
               Inl e \<Rightarrow> Some (Inl e, inj_mark name st)
             | Inr (Provider get) \<Rightarrow> invoke_get code n get (inj_mark name st)
             | Inr _ \<Rightarrow> Some (Inl NotAFunction, inj_mark name st)))"
| "get_args code n locals [] st = Some (Inr [], st)"
| "get_args code n locals (key # keys) st =
     inj_bind (case locals key of Some v \<Rightarrow> Some (Inr v, st) | None \<Rightarrow> get_service code n key st)
       (\<lambda>v st. inj_bind (get_args code n locals keys st) (\<lambda>vs st. Some (Inr (v # vs), st)))"
| "invoke_get code n (Factory fn) st = invoke_fn code n Map.empty fn st"
| "invoke_get code n (Service fn) st =
     inj_bind (get_args code n Map.empty [''$injector''] st) (\<lambda>_ st. invoke_fn code n Map.empty fn st)"
| "invoke_get code n (Value v) st = Some (Inr v, st)"
| "invoke_get code n (Decorated get fn) st =
     inj_bind (invoke_get code n get st) (\<lambda>v st. invoke_fn code n [''$delegate'' \<mapsto> v] fn st)"
| "invoke_fn code n locals fn st =
     inj_bind (get_args code n locals (fst fn) st) (\<lambda>args st. Some (call_body code (snd fn) args, st))"
  by pat_completeness auto

termination
  by (relation "measures [\<lambda>x. case x of Inl (Inl (c, n, k, st)) \<Rightarrow> n | Inl (Inr (c, n, l, ks, st)) \<Rightarrow> n
      | Inr (Inl (c, n, g, st)) \<Rightarrow> n | Inr (Inr (c, n, l, fn, st)) \<Rightarrow> n,
    \<lambda>x. case x of Inl (Inl (c, n, k, st)) \<Rightarrow> 0 | Inl (Inr (c, n, l, ks, st)) \<Rightarrow> 1
      | Inr (Inl (c, n, g, st)) \<Rightarrow> 3 | Inr (Inr (c, n, l, fn, st)) \<Rightarrow> 2,
    \<lambda>x. case x of Inl (Inl (c, n, k, st)) \<Rightarrow> 0 | Inl (Inr (c, n, l, ks, st)) \<Rightarrow> length ks
      | Inr (Inl (c, n, g, st)) \<Rightarrow> size g | Inr (Inr (c, n, l, fn, st)) \<Rightarrow> 0]") auto

text \<open>\<open>has(name)\<close> of the instance injector.\<close>

definition has_service :: "string \<Rightarrow> ('f, 'v) injector \<Rightarrow> bool" where
  "has_service name st \<longleftrightarrow> in_providers st (provider_key name) \<noteq> None \<or> in_cache st name \<noteq> None"

section \<open>Providers\<close>

text \<open>Arguments of functions that the provider injector invokes.\<close>

fun provider_args :: "string list \<Rightarrow> ('f, 'v) injector \<Rightarrow> inj_error + ('f, 'v) provider_obj list" where
  "provider_args [] st = Inr []"
| "provider_args (key # keys) st =
     (case get_provider key st of
        Inl e \<Rightarrow> Inl e
      | Inr p \<Rightarrow> (case provider_args keys st of Inl e \<Rightarrow> Inl e | Inr ps \<Rightarrow> Inr (p # ps)))"

text \<open>What is given to \<open>provider\<close>: an object, with or without \<open>$get\<close>, or a function to make one.\<close>

datatype ('f, 'v) provider_arg = ProviderObject "('f, 'v) recipe option" | ProviderFunction "'f injectable"

fun provided :: "('f, 'v) app_code \<Rightarrow> ('f, 'v) provider_arg \<Rightarrow> ('f, 'v) injector \<Rightarrow> inj_error + ('f, 'v) recipe option" where
  "provided code (ProviderObject get) st = Inr get"
| "provided code (ProviderFunction (keys, f)) st =
     (case provider_args keys st of
        Inl e \<Rightarrow> Inl e
      | Inr ps \<Rightarrow> (case co_provider code f ps of Inl m \<Rightarrow> Inl (AppError m) | Inr get \<Rightarrow> Inr get))"

definition provide_provider :: "('f, 'v) app_code \<Rightarrow> string \<Rightarrow> ('f, 'v) provider_arg \<Rightarrow> ('f, 'v) injector \<Rightarrow>
     (inj_error + unit) \<times> ('f, 'v) injector" where
  "provide_provider code name arg st =
     (if name = ''hasOwnProperty'' then (Inl (BadName name), st)
      else (case provided code arg st of
              Inl e \<Rightarrow> (Inl e, st)
            | Inr None \<Rightarrow> (Inl (NoGet name), st)
            | Inr (Some get) \<Rightarrow> (Inr (), st\<lparr>in_providers := (in_providers st)(provider_key name \<mapsto> Provider get)\<rparr>)))"

definition provide_factory :: "('f, 'v) app_code \<Rightarrow> string \<Rightarrow> 'f injectable \<Rightarrow> ('f, 'v) injector \<Rightarrow> (inj_error + unit) \<times> ('f, 'v) injector" where
  "provide_factory code name fn = provide_provider code name (ProviderObject (Some (Factory fn)))"

definition provide_service :: "('f, 'v) app_code \<Rightarrow> string \<Rightarrow> 'f injectable \<Rightarrow> ('f, 'v) injector \<Rightarrow> (inj_error + unit) \<times> ('f, 'v) injector" where
  "provide_service code name fn = provide_provider code name (ProviderObject (Some (Service fn)))"

definition provide_value :: "('f, 'v) app_code \<Rightarrow> string \<Rightarrow> 'v \<Rightarrow> ('f, 'v) injector \<Rightarrow> (inj_error + unit) \<times> ('f, 'v) injector" where
  "provide_value code name v = provide_provider code name (ProviderObject (Some (Value v)))"

definition provide_constant :: "string \<Rightarrow> 'v \<Rightarrow> ('f, 'v) injector \<Rightarrow> (inj_error + unit) \<times> ('f, 'v) injector" where
  "provide_constant name v st =
     (if name = ''hasOwnProperty'' then (Inl (BadName name), st)
      else (Inr (), st\<lparr>in_providers := (in_providers st)(name \<mapsto> Plain v), in_cache := (in_cache st)(name \<mapsto> Instance v)\<rparr>))"

definition provide_decorator :: "string \<Rightarrow> 'f injectable \<Rightarrow> ('f, 'v) injector \<Rightarrow> (inj_error + unit) \<times> ('f, 'v) injector" where
  "provide_decorator name fn st =
     (case get_provider (provider_key name) st of
        Inl e \<Rightarrow> (Inl e, st)
      | Inr (Provider get) \<Rightarrow> (Inr (), st\<lparr>in_providers := (in_providers st)(provider_key name \<mapsto> Provider (Decorated get fn))\<rparr>)
      | Inr _ \<Rightarrow> (Inr (), st))"

section \<open>Modules\<close>

text \<open>The calls that a module has queued.\<close>

datatype ('f, 'v) queued =
    QProvider string "('f, 'v) provider_arg"
  | QFactory string "'f injectable"
  | QService string "'f injectable"
  | QValue string 'v
  | QConstant string 'v
  | QConfig "'f injectable"

record ('f, 'v) module_obj =
  mo_requires :: "string list"
  mo_queue :: "('f, 'v) queued list"
  mo_runBlocks :: "'f injectable list"

text \<open>\<open>module(name, requires, configFn)\<close>: with \<open>requires\<close> a new module, in place of one of the same name; without it the module of that name.\<close>

definition angular_module :: "string \<Rightarrow> string list option \<Rightarrow> 'f injectable option \<Rightarrow> (string \<rightharpoonup> ('f, 'v) module_obj) \<Rightarrow>
     inj_error + (string \<rightharpoonup> ('f, 'v) module_obj)" where
  "angular_module name requires configFn modules =
     (if name = ''hasOwnProperty'' then Inl (BadName name)
      else (case requires of
              Some rs \<Rightarrow> Inr (modules(name \<mapsto> \<lparr>mo_requires = rs, mo_queue = (case configFn of None \<Rightarrow> [] | Some f \<Rightarrow> [QConfig f]), mo_runBlocks = []\<rparr>))
            | None \<Rightarrow> (case modules name of None \<Rightarrow> Inl (NoModule name) | Some _ \<Rightarrow> Inr modules)))"

text \<open>\<open>invokeLater\<close>: constants come first. \<open>run(block)\<close>.\<close>

definition invoke_later :: "('f, 'v) queued \<Rightarrow> ('f, 'v) module_obj \<Rightarrow> ('f, 'v) module_obj" where
  "invoke_later q m = m\<lparr>mo_queue := (case q of QConstant _ _ \<Rightarrow> q # mo_queue m | _ \<Rightarrow> mo_queue m @ [q])\<rparr>"

definition module_run :: "'f injectable \<Rightarrow> ('f, 'v) module_obj \<Rightarrow> ('f, 'v) module_obj" where
  "module_run block m = m\<lparr>mo_runBlocks := mo_runBlocks m @ [block]\<rparr>"

fun run_queued :: "('f, 'v) app_code \<Rightarrow> ('f, 'v) queued \<Rightarrow> ('f, 'v) injector \<Rightarrow> (inj_error + unit) \<times> ('f, 'v) injector" where
  "run_queued code (QProvider name arg) st = provide_provider code name arg st"
| "run_queued code (QFactory name fn) st = provide_factory code name fn st"
| "run_queued code (QService name fn) st = provide_service code name fn st"
| "run_queued code (QValue name v) st = provide_value code name v st"
| "run_queued code (QConstant name v) st = provide_constant name v st"
| "run_queued code (QConfig (keys, f)) st =
     (case provider_args keys st of
        Inl e \<Rightarrow> (Inl e, st)
      | Inr ps \<Rightarrow> (case co_config code f ps st of (Inl m, st) \<Rightarrow> (Inl (AppError m), st) | (Inr _, st) \<Rightarrow> (Inr (), st)))"

fun run_queue :: "('f, 'v) app_code \<Rightarrow> ('f, 'v) queued list \<Rightarrow> ('f, 'v) injector \<Rightarrow> (inj_error + unit) \<times> ('f, 'v) injector" where
  "run_queue code [] st = (Inr (), st)"
| "run_queue code (q # qs) st =
     (case run_queued code q st of (Inl e, st) \<Rightarrow> (Inl e, st) | (Inr _, st) \<Rightarrow> run_queue code qs st)"

text \<open>
  \<open>loadModules\<close> for modules that are given by name; the result is the blocks to run. The number bounds how deep modules require each other.
\<close>

definition module_error :: "string \<Rightarrow> ('a, 's) injected \<Rightarrow> ('a, 's) injected" where
  "module_error m out = (case out of Some (Inl e, st) \<Rightarrow> Some (Inl (ModuleError m e), st) | _ \<Rightarrow> out)"

text \<open>The queue of a module is run by the injector, whose state is the second part here; \<open>loadedModules\<close> is the first.\<close>

definition configure :: "('f, 'v) app_code \<Rightarrow> ('f, 'v) queued list \<Rightarrow> string list \<times> ('f, 'v) injector \<Rightarrow> (unit, string list \<times> ('f, 'v) injector) injected" where
  "configure code qs st = (case run_queue code qs (snd st) of (r, st') \<Rightarrow> Some (r, fst st, st'))"

fun load_modules :: "('f, 'v) app_code \<Rightarrow> (string \<rightharpoonup> ('f, 'v) module_obj) \<Rightarrow> nat \<Rightarrow> string list \<Rightarrow> string list \<times> ('f, 'v) injector \<Rightarrow>
     ('f injectable list, string list \<times> ('f, 'v) injector) injected" where
  "load_modules code modules n [] st = Some (Inr [], st)"
| "load_modules code modules 0 (m # ms) st = None"
| "load_modules code modules (Suc n) (m # ms) st =
     (if m \<in> set (fst st) then load_modules code modules (Suc n) ms st
      else
        inj_bind
          (let st = (fst st @ [m], snd st) in
           module_error m
             (case modules m of
                None \<Rightarrow> Some (Inl (NoModule m), st)
              | Some mo \<Rightarrow>
                  inj_bind (load_modules code modules n (mo_requires mo) st)
                    (\<lambda>blocks st. inj_bind (configure code (mo_queue mo) st)
                      (\<lambda>_ st. Some (Inr (blocks @ mo_runBlocks mo), st)))))
          (\<lambda>blocks st. inj_bind (load_modules code modules (Suc n) ms st) (\<lambda>later st. Some (Inr (blocks @ later), st))))"

text \<open>\<open>createInjector(modulesToLoad)\<close>; \<open>self\<close> is the injector as a value, \<open>n\<close> and \<open>k\<close> bound the depth of modules and of services.\<close>

fun run_blocks :: "('f, 'v) app_code \<Rightarrow> nat \<Rightarrow> 'f injectable list \<Rightarrow> ('f, 'v) injector \<Rightarrow> (unit, ('f, 'v) injector) injected" where
  "run_blocks code k [] st = Some (Inr (), st)"
| "run_blocks code k (b # bs) st = inj_bind (invoke_fn code k Map.empty b st) (\<lambda>_ st. run_blocks code k bs st)"

definition new_injector :: "'v \<Rightarrow> ('f, 'v) injector" where
  "new_injector self = \<lparr>in_providers = [''$provide'' \<mapsto> Internal, ''$injector'' \<mapsto> Internal], in_cache = [''$injector'' \<mapsto> Instance self],
     in_path = []\<rparr>"

definition createInjector :: "('f, 'v) app_code \<Rightarrow> (string \<rightharpoonup> ('f, 'v) module_obj) \<Rightarrow> nat \<Rightarrow> nat \<Rightarrow> 'v \<Rightarrow> string list \<Rightarrow>
     (unit, ('f, 'v) injector) injected" where
  "createInjector code modules n k self modulesToLoad =
     (case load_modules code modules n modulesToLoad ([], new_injector self) of
        None \<Rightarrow> None
      | Some (Inl e, st) \<Rightarrow> Some (Inl e, snd st)
      | Some (Inr blocks, st) \<Rightarrow> run_blocks code k blocks (snd st))"

end
