(* ===== verification/Angular_Inject.thy ===== *)
theory Angular_Inject
  imports Angular_Injector
begin

text \<open>
  What the injector computes: the value of a service is a function of the providers, the injector finds it
  whenever there is one, and it always returns and leaves its caches in order.
\<close>

section \<open>The value of a service\<close>

text \<open>
  A reference: the value of a service from the values of what its provider asks for, without caches. \<open>base\<close> has the
  instances that are there from the beginning. The number is a bound on the depth.
\<close>

definition fn_value :: "('f, 'v) app_code \<Rightarrow> (string \<Rightarrow> 'v option) \<Rightarrow> 'f injectable \<Rightarrow> 'v option" where
  "fn_value code val fn = Option.bind (those (map val (fst fn))) (\<lambda>vs. case call_body code (snd fn) vs of Inl e \<Rightarrow> None | Inr v \<Rightarrow> Some v)"

primrec recipe_value :: "('f, 'v) app_code \<Rightarrow> (string \<Rightarrow> 'v option) \<Rightarrow> ('f, 'v) recipe \<Rightarrow> 'v option" where
  "recipe_value code val (Factory fn) = fn_value code val fn"
| "recipe_value code val (Service fn) = Option.bind (val ''$injector'') (\<lambda>_. fn_value code val fn)"
| "recipe_value code val (Value v) = Some v"
| "recipe_value code val (Decorated get fn) =
     Option.bind (recipe_value code val get) (\<lambda>w. fn_value code (val(''$delegate'' \<mapsto> w)) fn)"

primrec service_value :: "('f, 'v) app_code \<Rightarrow> (string \<rightharpoonup> ('f, 'v) provider_obj) \<Rightarrow> (string \<rightharpoonup> 'v) \<Rightarrow> nat \<Rightarrow> string \<Rightarrow> 'v option" where
  "service_value code P base 0 = (\<lambda>name. None)"
| "service_value code P base (Suc n) = (\<lambda>name.
     case base name of Some v \<Rightarrow> Some v | None \<Rightarrow>
       (case P (provider_key name) of Some (Provider get) \<Rightarrow> recipe_value code (service_value code P base n) get | _ \<Rightarrow> None))"

definition has_value :: "('f, 'v) app_code \<Rightarrow> (string \<rightharpoonup> ('f, 'v) provider_obj) \<Rightarrow> (string \<rightharpoonup> 'v) \<Rightarrow> string \<Rightarrow> 'v \<Rightarrow> bool" where
  "has_value code P base name v \<longleftrightarrow> (\<exists>n. service_value code P base n name = Some v)"

text \<open>More depth gives the same values.\<close>

lemma map_leD: "f \<subseteq>\<^sub>m g \<Longrightarrow> f x = Some v \<Longrightarrow> g x = Some v"
  by (auto simp: map_le_def dom_def)

lemma map_leI: "(\<And>x v. f x = Some v \<Longrightarrow> g x = Some v) \<Longrightarrow> f \<subseteq>\<^sub>m g"
  by (auto simp: map_le_def dom_def)

lemma those_mono:
  assumes "f \<subseteq>\<^sub>m g" "those (map f xs) = Some vs"
  shows "those (map g xs) = Some vs"
  using assms(2) by (induction xs arbitrary: vs) (auto split: option.splits dest: map_leD [OF assms(1)])

lemma fn_value_mono: "f \<subseteq>\<^sub>m g \<Longrightarrow> fn_value code f fn = Some v \<Longrightarrow> fn_value code g fn = Some v"
  by (auto simp: fn_value_def bind_eq_Some_conv dest: those_mono)

lemma map_le_upd: "f \<subseteq>\<^sub>m g \<Longrightarrow> f(x \<mapsto> v) \<subseteq>\<^sub>m g(x \<mapsto> v)"
  by (auto simp: map_le_def)

lemma recipe_value_mono:
  assumes "f \<subseteq>\<^sub>m g" "recipe_value code f r = Some v"
  shows "recipe_value code g r = Some v"
  using assms(2)
  by (induction r arbitrary: v)
    (auto simp: bind_eq_Some_conv intro: fn_value_mono [OF assms(1)] fn_value_mono [OF map_le_upd [OF assms(1)]] dest: map_leD [OF assms(1)])

lemma service_value_Suc: "service_value code P base n \<subseteq>\<^sub>m service_value code P base (Suc n)"
proof (induction n)
  case (Suc n)
  show ?case
  proof (rule map_leI)
    fix name v
    assume v: "service_value code P base (Suc n) name = Some v"
    show "service_value code P base (Suc (Suc n)) name = Some v"
    proof (cases "base name")
      case None
      with v obtain g where g: "P (provider_key name) = Some (Provider g)" "recipe_value code (service_value code P base n) g = Some v"
        by (auto split: option.splits provider_obj.splits)
      with recipe_value_mono [OF Suc.IH g(2)] None show ?thesis by (simp del: service_value.simps add: service_value.simps(2) [of _ _ _ "Suc n"])
    qed (use v in simp)
  qed
qed (simp add: map_le_def)

lemma service_value_mono:
  assumes "n \<le> m" "service_value code P base n name = Some v"
  shows "service_value code P base m name = Some v"
  using assms by (induction rule: dec_induct) (auto dest: map_leD [OF service_value_Suc])

lemma has_value_unique: "has_value code P base name v \<Longrightarrow> has_value code P base name w \<Longrightarrow> v = w"
  unfolding has_value_def by (metis nle_le option.inject service_value_mono)

section \<open>What instantiation inj_keeps\<close>

text \<open>Instances are kept, what is being instantiated is as before, and so is the path.\<close>

definition inj_keeps :: "('f, 'v) injector \<Rightarrow> ('f, 'v) injector \<Rightarrow> bool" where
  "inj_keeps st st' \<longleftrightarrow> in_providers st' = in_providers st \<and> in_path st' = in_path st \<and>
     (\<forall>x s. in_cache st x = Some s \<longrightarrow> in_cache st' x = Some s) \<and>
     (\<forall>x. in_cache st' x = Some Instantiating \<longrightarrow> in_cache st x = Some Instantiating)"

lemma inj_keeps_refl [simp]: "inj_keeps st st"
  by (simp add: inj_keeps_def)

lemma inj_keepsD:
  assumes "inj_keeps st st'"
  shows "in_cache st x = Some s \<Longrightarrow> in_cache st' x = Some s" "in_cache st' x = Some Instantiating \<Longrightarrow> in_cache st x = Some Instantiating"
    "in_providers st' = in_providers st" "in_path st' = in_path st"
  using assms unfolding inj_keeps_def by blast+

lemma inj_keepsI:
  assumes "in_providers st' = in_providers st" "in_path st' = in_path st"
    "\<And>x s. in_cache st x = Some s \<Longrightarrow> in_cache st' x = Some s" "\<And>x. in_cache st' x = Some Instantiating \<Longrightarrow> in_cache st x = Some Instantiating"
  shows "inj_keeps st st'"
  using assms unfolding inj_keeps_def by blast

lemma inj_keeps_trans: "inj_keeps st st1 \<Longrightarrow> inj_keeps st1 st2 \<Longrightarrow> inj_keeps st st2"
  unfolding inj_keeps_def by metis

lemma inj_keeps_bind:
  assumes "inj_bind out k = Some (r, st')" "\<And>v st1. out = Some (v, st1) \<Longrightarrow> inj_keeps st st1"
    "\<And>v st1. out = Some (Inr v, st1) \<Longrightarrow> k v st1 = Some (r, st') \<Longrightarrow> inj_keeps st1 st'"
  shows "inj_keeps st st'"
proof -
  obtain v st1 where out: "out = Some (v, st1)" using assms(1) by (auto simp: inj_bind_def split: option.splits)
  note k = assms(2) [OF out]
  show ?thesis
  proof (cases v)
    case (Inr w)
    with out assms(1) have "inj_keeps st1 st'" by (intro assms(3)) (simp_all add: inj_bind_def)
    with k show ?thesis by (rule inj_keeps_trans)
  qed (use k out assms(1) in \<open>simp add: inj_bind_def\<close>)
qed

lemma inj_keeps_finish:
  assumes "inj_finish name out = Some (r, st')" "in_cache st name = None"
    "\<And>v st1. out = Some (v, st1) \<Longrightarrow> inj_keeps (inj_mark name st) st1"
  shows "inj_keeps st st'"
proof -
  obtain v st1 where out: "out = Some (v, st1)" using assms(1) by (auto simp: inj_finish_def split: option.splits)
  have k: "inj_keeps (inj_mark name st) st1" by (rule assms(3) [OF out])
  have m: "in_cache st1 name = Some Instantiating" by (rule inj_keepsD(1) [OF k]) (simp add: inj_mark_def)
  have grow: "in_cache st1 x = Some s" "x \<noteq> name" if "in_cache st x = Some s" for x s
    using that assms(2) inj_keepsD(1) [OF k, of x s] by (cases "x = name"; simp add: inj_mark_def)+
  have inst: "in_cache st x = Some Instantiating" if "in_cache st1 x = Some Instantiating" "x \<noteq> name" for x
    using that inj_keepsD(2) [OF k, of x] by (simp add: inj_mark_def)
  define s where "s = (case v of Inl e \<Rightarrow> None | Inr w \<Rightarrow> Some (Instance w))"
  have st': "st' = st1\<lparr>in_cache := (in_cache st1)(name := s), in_path := tl (in_path st1)\<rparr>"
    using assms(1) out m by (cases v) (auto simp: inj_finish_def s_def)
  show ?thesis
  proof (rule inj_keepsI)
    show "in_cache st' x = Some s" if "in_cache st x = Some s" for x s using grow [OF that] by (simp add: st')
    show "in_cache st x = Some Instantiating" if "in_cache st' x = Some Instantiating" for x
      using that inst [of x] by (cases v) (simp_all add: st' s_def split: if_splits)
  qed (use inj_keepsD(3,4) [OF k] in \<open>simp_all add: st' inj_mark_def\<close>)
qed

lemma get_keeps:
  "get_service code n name st = Some (r, st') \<Longrightarrow> inj_keeps st st'"
  "get_args code n locals keys st = Some (r2, st') \<Longrightarrow> inj_keeps st st'"
  "invoke_get code n g st = Some (r, st') \<Longrightarrow> inj_keeps st st'"
  "invoke_fn code n locals fn st = Some (r, st') \<Longrightarrow> inj_keeps st st'"
proof (induction code n name st and code n locals keys st and code n g st and code n locals fn st
    arbitrary: r st' and r2 st' and r st' and r st'
    rule: get_service_get_args_invoke_get_invoke_fn.induct)
  case (2 code n name st)
  show ?case
  proof (cases "in_cache st name")
    case None
    with 2(2) have "inj_finish name
        (case get_provider (provider_key name) (inj_mark name st) of
           Inl e \<Rightarrow> Some (Inl e, inj_mark name st)
         | Inr (Provider get) \<Rightarrow> invoke_get code n get (inj_mark name st)
         | Inr _ \<Rightarrow> Some (Inl NotAFunction, inj_mark name st)) = Some (r, st')" by simp
    then show ?thesis
      by (rule inj_keeps_finish [OF _ None]) (use 2(1) [OF None] in \<open>auto split: sum.splits provider_obj.splits\<close>)
  qed (use 2(2) in \<open>auto split: slot.splits\<close>)
next
  case (4 code n locals key keys st)
  from 4(3) [unfolded get_args.simps] show ?case
  proof (rule inj_keeps_bind)
    fix v st1
    assume a: "(case locals key of None \<Rightarrow> get_service code n key st | Some v \<Rightarrow> Some (Inr v, st)) = Some (Inr v, st1)"
    assume "inj_bind (get_args code n locals keys st1) (\<lambda>vs st. Some (Inr (v # vs), st)) = Some (r2, st')"
    then show "inj_keeps st1 st'" by (rule inj_keeps_bind) (use 4(2) [OF a] in auto)
  qed (use 4(1) in \<open>auto split: option.splits\<close>)
next
  case (6 code n fn st)
  from 6(3) [unfolded invoke_get.simps] show ?case by (rule inj_keeps_bind) (use 6(1,2) in \<open>simp_all del: get_args.simps invoke_fn.simps\<close>)
next
  case (8 code n g fn st)
  from 8(3) [unfolded invoke_get.simps] show ?case by (rule inj_keeps_bind) (rule 8(1), assumption, rule 8(2))
next
  case (9 code n locals fn st)
  from 9(2) [unfolded invoke_fn.simps] show ?case by (rule inj_keeps_bind) (use 9(1) in auto)
qed (auto elim!: inj_keeps_bind split: option.splits)

section \<open>The injector finds the value\<close>

definition consistent :: "('f, 'v) app_code \<Rightarrow> (string \<rightharpoonup> ('f, 'v) provider_obj) \<Rightarrow> (string \<rightharpoonup> 'v) \<Rightarrow> ('f, 'v) injector \<Rightarrow> bool" where
  "consistent code P base st \<longleftrightarrow> in_providers st = P \<and> (\<forall>x v. base x = Some v \<longrightarrow> in_cache st x = Some (Instance v)) \<and>
     (\<forall>x v. in_cache st x = Some (Instance v) \<longrightarrow> has_value code P base x v)"

lemma sv_le: "n \<le> m \<Longrightarrow> service_value code P base n \<subseteq>\<^sub>m service_value code P base m"
  by (rule map_leI) (rule service_value_mono)

lemma map_le_add: "f \<subseteq>\<^sub>m g \<Longrightarrow> f ++ h \<subseteq>\<^sub>m g ++ h"
  by (auto simp: map_le_def map_add_def dom_def split: option.splits)

lemma has_value_recipe:
  assumes "base name = None" "P (provider_key name) = Some (Provider g)" "\<exists>n. recipe_value code (service_value code P base n) g = Some v"
  shows "has_value code P base name v"
proof -
  obtain n where "recipe_value code (service_value code P base n) g = Some v" using assms(3) by blast
  with assms(1,2) have "service_value code P base (Suc n) name = Some v" by simp
  then show ?thesis unfolding has_value_def by blast
qed

definition inj_sound :: "('s \<Rightarrow> bool) \<Rightarrow> ('a \<Rightarrow> bool) \<Rightarrow> ('a, 's) injected \<Rightarrow> bool" where
  "inj_sound I Q out \<longleftrightarrow> (case out of None \<Rightarrow> True | Some (r, st) \<Rightarrow> I st \<and> (\<forall>v. r = Inr v \<longrightarrow> Q v))"

lemma inj_sound_bind:
  assumes "inj_sound I Q out" "\<And>v st. out = Some (Inr v, st) \<Longrightarrow> I st \<Longrightarrow> Q v \<Longrightarrow> inj_sound I R (k v st)"
  shows "inj_sound I R (inj_bind out k)"
  using assms by (auto simp: inj_sound_def inj_bind_def split: option.splits sum.splits)

lemma inj_sound_weaken: "inj_sound I Q out \<Longrightarrow> (\<And>v. Q v \<Longrightarrow> R v) \<Longrightarrow> inj_sound I R out"
  by (auto simp: inj_sound_def split: option.splits)

lemma base_uncached: "consistent code P base st \<Longrightarrow> in_cache st name = None \<Longrightarrow> base name = None"
  unfolding consistent_def by (metis not_None_eq)

lemma consistent_mark:
  assumes "consistent code P base st" "in_cache st name = None"
  shows "consistent code P base (inj_mark name st)"
  using assms base_uncached [OF assms] by (auto simp: consistent_def inj_mark_def)

lemma inj_sound_finish:
  assumes "inj_sound (consistent code P base) (has_value code P base name) out" "base name = None"
  shows "inj_sound (consistent code P base) (has_value code P base name) (inj_finish name out)"
proof -
  have "consistent code P base (st\<lparr>in_cache := (in_cache st)(name := None), in_path := p\<rparr>)" if "consistent code P base st" for st p
    using that assms(2) by (auto simp: consistent_def)
  moreover have "consistent code P base (st\<lparr>in_cache := (in_cache st)(name \<mapsto> Instance v), in_path := p\<rparr>)"
    if "consistent code P base st" "has_value code P base name v" for st p v
    using that assms(2) by (auto simp: consistent_def)
  moreover have "consistent code P base (st\<lparr>in_path := p\<rparr>)" if "consistent code P base st" for st p
    using that by (auto simp: consistent_def)
  ultimately show ?thesis using assms(1)
    by (auto simp: inj_sound_def inj_finish_def split: option.splits sum.splits slot.splits)
qed

lemma sound:
  "consistent code P base st \<Longrightarrow> inj_sound (consistent code P base) (has_value code P base name) (get_service code n name st)"
  "consistent code P base st \<Longrightarrow>
     inj_sound (consistent code P base) (\<lambda>vs. \<exists>m. those (map (service_value code P base m ++ locals) keys) = Some vs) (get_args code n locals keys st)"
  "consistent code P base st \<Longrightarrow>
     inj_sound (consistent code P base) (\<lambda>v. \<exists>m. recipe_value code (service_value code P base m) g = Some v) (invoke_get code n g st)"
  "consistent code P base st \<Longrightarrow>
     inj_sound (consistent code P base) (\<lambda>v. \<exists>m. fn_value code (service_value code P base m ++ locals) fn = Some v) (invoke_fn code n locals fn st)"
proof (induction code n name st and code n locals keys st and code n g st and code n locals fn st
    rule: get_service_get_args_invoke_get_invoke_fn.induct)
  case (2 code n name st)
  show ?case
  proof (cases "in_cache st name")
    case None
    let ?st = "inj_mark name st"
    have base: "base name = None" by (rule base_uncached [OF 2(2) None])
    have c: "consistent code P base ?st" by (rule consistent_mark [OF 2(2) None])
    then have P: "in_providers ?st = P" by (simp add: consistent_def)
    have "inj_sound (consistent code P base) (has_value code P base name)
      (case get_provider (provider_key name) ?st of Inl e \<Rightarrow> Some (Inl e, ?st)
       | Inr (Provider get) \<Rightarrow> invoke_get code n get ?st | Inr _ \<Rightarrow> Some (Inl NotAFunction, ?st))"
    proof (cases "P (provider_key name)")
      case (Some p)
      then have gp: "get_provider (provider_key name) ?st = Inr p" by (simp add: get_provider_def P)
      show ?thesis
      proof (cases p)
        case (Provider g)
        have "inj_sound (consistent code P base) (has_value code P base name) (invoke_get code n g ?st)"
          by (rule inj_sound_weaken [OF 2(1) [OF None gp Provider c]], rule has_value_recipe) (simp_all add: base Some Provider)
        with gp Provider show ?thesis by simp
      qed (use c gp in \<open>simp_all add: inj_sound_def\<close>)
    qed (use c P in \<open>simp add: inj_sound_def get_provider_def\<close>)
    from inj_sound_finish [OF this base] None show ?thesis by simp
  qed (use 2(2) in \<open>auto simp: inj_sound_def consistent_def split: slot.splits\<close>)
next
  case (4 code n locals key keys st)
  show ?case unfolding get_args.simps
  proof (rule inj_sound_bind)
    show "inj_sound (consistent code P base) (\<lambda>v. \<exists>m. (service_value code P base m ++ locals) key = Some v)
      (case locals key of None \<Rightarrow> get_service code n key st | Some v \<Rightarrow> Some (Inr v, st))"
      using 4(1,3) by (auto simp: inj_sound_def has_value_def map_add_def split: option.splits)
    fix v st1
    assume a: "(case locals key of None \<Rightarrow> get_service code n key st | Some v \<Rightarrow> Some (Inr v, st)) = Some (Inr v, st1)"
      and c: "consistent code P base st1" and ex: "\<exists>m. (service_value code P base m ++ locals) key = Some v"
    obtain m where m: "(service_value code P base m ++ locals) key = Some v" using ex by (elim exE) (erule that)
    show "inj_sound (consistent code P base) (\<lambda>vs. \<exists>m. those (map (service_value code P base m ++ locals) (key # keys)) = Some vs)
      (inj_bind (get_args code n locals keys st1) (\<lambda>vs st. Some (Inr (v # vs), st)))"
    proof (rule inj_sound_bind [OF 4(2) [OF a c]])
      fix vs st2
      assume c2: "consistent code P base st2" and "\<exists>m. those (map (service_value code P base m ++ locals) keys) = Some vs"
      then obtain k where k: "those (map (service_value code P base k ++ locals) keys) = Some vs" by blast
      let ?j = "max m k"
      have "(service_value code P base ?j ++ locals) key = Some v" by (rule map_leD [OF map_le_add [OF sv_le] m]) simp
      moreover have "those (map (service_value code P base ?j ++ locals) keys) = Some vs"
        by (rule those_mono [OF map_le_add [OF sv_le] k]) simp
      ultimately have "those (map (service_value code P base ?j ++ locals) (key # keys)) = Some (v # vs)" by simp
      with c2 show "inj_sound (consistent code P base) (\<lambda>vs. \<exists>m. those (map (service_value code P base m ++ locals) (key # keys)) = Some vs)
        (Some (Inr (v # vs), st2))" by (auto simp: inj_sound_def simp del: those.simps list.map intro: exI [of _ ?j])
    qed
  qed
next
  case (5 code n fn st)
  then show ?case by simp
next
  case (6 code n fn st)
  show ?case unfolding invoke_get.simps
  proof (rule inj_sound_bind [OF 6(1) [OF 6(3)]])
    fix vs st1
    assume a: "get_args code n Map.empty [''$injector''] st = Some (Inr vs, st1)" and c: "consistent code P base st1"
      and "\<exists>m. those (map (service_value code P base m ++ Map.empty) [''$injector'']) = Some vs"
    then obtain m v where m: "service_value code P base m ''$injector'' = Some v" by (auto split: option.splits)
    show "inj_sound (consistent code P base) (\<lambda>v. \<exists>m. recipe_value code (service_value code P base m) (Service fn) = Some v)
      (invoke_fn code n Map.empty fn st1)"
    proof (rule inj_sound_weaken [OF 6(2) [OF a c]])
      fix w
      assume "\<exists>k. fn_value code (service_value code P base k ++ Map.empty) fn = Some w"
      then obtain k where "fn_value code (service_value code P base k) fn = Some w" by auto
      then have "fn_value code (service_value code P base (max m k)) fn = Some w" by (rule fn_value_mono [OF sv_le, rotated]) simp
      moreover have "service_value code P base (max m k) ''$injector'' = Some v" by (rule service_value_mono [OF _ m]) simp
      ultimately show "\<exists>m. recipe_value code (service_value code P base m) (Service fn) = Some w"
        by (intro exI [of _ "max m k"]) simp
    qed
  qed
next
  case (8 code n g fn st)
  show ?case unfolding invoke_get.simps
  proof (rule inj_sound_bind [OF 8(1) [OF 8(3)]])
    fix v st1
    assume a: "invoke_get code n g st = Some (Inr v, st1)" and c: "consistent code P base st1"
      and "\<exists>m. recipe_value code (service_value code P base m) g = Some v"
    then obtain m where m: "recipe_value code (service_value code P base m) g = Some v" by blast
    show "inj_sound (consistent code P base) (\<lambda>v. \<exists>m. recipe_value code (service_value code P base m) (Decorated g fn) = Some v)
      (invoke_fn code n [''$delegate'' \<mapsto> v] fn st1)"
    proof (rule inj_sound_weaken [OF 8(2) [OF a c]])
      fix w
      assume "\<exists>k. fn_value code (service_value code P base k ++ [''$delegate'' \<mapsto> v]) fn = Some w"
      then obtain k where "fn_value code (service_value code P base k ++ [''$delegate'' \<mapsto> v]) fn = Some w" by blast
      then have "fn_value code (service_value code P base (max m k) ++ [''$delegate'' \<mapsto> v]) fn = Some w"
        by (rule fn_value_mono [OF map_le_add [OF sv_le], rotated]) simp
      moreover have "recipe_value code (service_value code P base (max m k)) g = Some v" by (rule recipe_value_mono [OF sv_le m]) simp
      ultimately show "\<exists>m. recipe_value code (service_value code P base m) (Decorated g fn) = Some w"
        by (intro exI [of _ "max m k"]) simp
    qed
  qed
next
  case (9 code n locals fn st)
  show ?case unfolding invoke_fn.simps
  proof (rule inj_sound_bind [OF 9(1) [OF 9(2)]])
    fix vs st1
    assume c: "consistent code P base st1" and "\<exists>m. those (map (service_value code P base m ++ locals) (fst fn)) = Some vs"
    then obtain m where "those (map (service_value code P base m ++ locals) (fst fn)) = Some vs" by blast
    then have "fn_value code (service_value code P base m ++ locals) fn = (case call_body code (snd fn) vs of Inl e \<Rightarrow> None | Inr v \<Rightarrow> Some v)"
      by (simp add: fn_value_def)
    with c show "inj_sound (consistent code P base) (\<lambda>v. \<exists>m. fn_value code (service_value code P base m ++ locals) fn = Some v)
      (Some (call_body code (snd fn) vs, st1))"
      by (auto simp: inj_sound_def)
  qed
qed (auto simp: inj_sound_def)

text \<open>Nothing that is being instantiated has a value within the depth \<open>n\<close>.\<close>

definition unblocked :: "('f, 'v) app_code \<Rightarrow> (string \<rightharpoonup> ('f, 'v) provider_obj) \<Rightarrow> (string \<rightharpoonup> 'v) \<Rightarrow> nat \<Rightarrow> ('f, 'v) injector \<Rightarrow> bool" where
  "unblocked code P base n st \<longleftrightarrow> consistent code P base st \<and>
     (\<forall>x. in_cache st x = Some Instantiating \<longrightarrow> service_value code P base n x = None)"

lemma unblocked_later:
  assumes "unblocked code P base n st" "inj_keeps st st'" "consistent code P base st'"
  shows "unblocked code P base n st'"
  using assms unfolding unblocked_def inj_keeps_def by blast

definition finds :: "('f, 'v) app_code \<Rightarrow> (string \<rightharpoonup> ('f, 'v) provider_obj) \<Rightarrow> (string \<rightharpoonup> 'v) \<Rightarrow> nat \<Rightarrow> nat \<Rightarrow> bool" where
  "finds code P base n k \<longleftrightarrow> (\<forall>name v st. service_value code P base n name = Some v \<longrightarrow> unblocked code P base n st \<longrightarrow>
     (\<exists>st'. get_service code k name st = Some (Inr v, st')))"

lemma later_service:
  assumes "get_service code k name st = Some (r, st')" "unblocked code P base n st"
  shows "unblocked code P base n st'"
  using unblocked_later [OF assms(2) get_keeps(1) [OF assms(1)]] sound(1) [of code P base st name k] assms
  by (simp add: unblocked_def inj_sound_def)

lemma later_args:
  assumes "get_args code k locals keys st = Some (r, st')" "unblocked code P base n st"
  shows "unblocked code P base n st'"
  using unblocked_later [OF assms(2) get_keeps(2) [OF assms(1)]] sound(2) [of code P base st locals keys k] assms
  by (simp add: unblocked_def inj_sound_def)

lemma later_get:
  assumes "invoke_get code k g st = Some (r, st')" "unblocked code P base n st"
  shows "unblocked code P base n st'"
  using unblocked_later [OF assms(2) get_keeps(3) [OF assms(1)]] sound(3) [of code P base st g k] assms
  by (simp add: unblocked_def inj_sound_def)

lemma finds_args:
  assumes "finds code P base n k" "unblocked code P base n st" "those (map (service_value code P base n ++ locals) keys) = Some vs"
  shows "\<exists>st'. get_args code k locals keys st = Some (Inr vs, st')"
  using assms(2,3)
proof (induction keys arbitrary: st vs)
  case (Cons key keys)
  then obtain v ws where v: "(service_value code P base n ++ locals) key = Some v" "those (map (service_value code P base n ++ locals) keys) = Some ws"
    "vs = v # ws" by (auto split: option.splits)
  obtain st1 where st1: "(case locals key of None \<Rightarrow> get_service code k key st | Some v \<Rightarrow> Some (Inr v, st)) = Some (Inr v, st1)"
    "unblocked code P base n st1"
  proof (cases "locals key")
    case None
    with v(1) assms(1) Cons.prems(1) obtain st1 where "get_service code k key st = Some (Inr v, st1)"
      unfolding finds_def by (metis map_add_None map_add_def option.simps(4))
    with None later_service [OF this Cons.prems(1)] that show ?thesis by simp
  qed (use v(1) Cons.prems(1) that in simp)
  from Cons.IH [OF st1(2) v(2)] st1(1) v(3) show ?case by (auto simp: inj_bind_def)
qed simp

lemma finds_fn:
  assumes "finds code P base n k" "unblocked code P base n st" "fn_value code (service_value code P base n ++ locals) fn = Some v"
  shows "\<exists>st'. invoke_fn code k locals fn st = Some (Inr v, st')"
proof -
  obtain vs where vs: "those (map (service_value code P base n ++ locals) (fst fn)) = Some vs" "call_body code (snd fn) vs = Inr v"
    using assms(3) by (cases "call_body code (snd fn) (the (those (map (service_value code P base n ++ locals) (fst fn))))")
      (auto simp: fn_value_def bind_eq_Some_conv)
  from finds_args [OF assms(1,2) vs(1)] vs(2) show ?thesis by (auto simp: inj_bind_def)
qed

lemma finds_recipe:
  assumes "finds code P base n k" "unblocked code P base n st" "recipe_value code (service_value code P base n) g = Some v"
  shows "\<exists>st'. invoke_get code k g st = Some (Inr v, st')"
  using assms(3)
proof (induction g arbitrary: v)
  case (Factory fn)
  with finds_fn [OF assms(1,2), of Map.empty] show ?case by (simp del: invoke_fn.simps)
next
  case (Service fn)
  then obtain w where w: "service_value code P base n ''$injector'' = Some w" "fn_value code (service_value code P base n) fn = Some v"
    by (auto simp: bind_eq_Some_conv)
  obtain st1 where st1: "get_args code k Map.empty [''$injector''] st = Some (Inr [w], st1)"
    using finds_args [OF assms(1,2), of Map.empty "[''$injector'']" "[w]"] w(1) by auto
  from finds_fn [OF assms(1) later_args [OF st1 assms(2)], of Map.empty fn v] w(2) st1 show ?case
    by (simp add: inj_bind_def del: get_args.simps invoke_fn.simps)
next
  case (Decorated g fn)
  then obtain w where w: "recipe_value code (service_value code P base n) g = Some w"
    "fn_value code (service_value code P base n ++ [''$delegate'' \<mapsto> w]) fn = Some v" by (auto simp: bind_eq_Some_conv)
  obtain st1 where st1: "invoke_get code k g st = Some (Inr w, st1)" using Decorated.IH [OF w(1)] by blast
  from finds_fn [OF assms(1) later_get [OF st1 assms(2)] w(2)] st1 show ?case
    by (simp add: inj_bind_def del: get_args.simps invoke_fn.simps)
qed simp

lemma get_complete: "n \<le> k \<Longrightarrow> finds code P base n k"
proof (induction n arbitrary: k)
  case (Suc n)
  then obtain j where k: "k = Suc j" "n \<le> j" by (cases k) auto
  show ?case unfolding finds_def
  proof (intro allI impI)
    fix name v st
    assume v: "service_value code P base (Suc n) name = Some v" and u: "unblocked code P base (Suc n) st"
    show "\<exists>st'. get_service code k name st = Some (Inr v, st')"
    proof (cases "in_cache st name")
      case None
      let ?st = "inj_mark name st"
      have c: "consistent code P base st" using u by (simp add: unblocked_def)
      have base: "base name = None" by (rule base_uncached [OF c None])
      have n: "service_value code P base n x = None" if "in_cache st x = Some Instantiating" for x
        using that u map_leD [OF service_value_Suc, of code P base n x] unfolding unblocked_def by (metis not_None_eq)
      show ?thesis
      proof (cases "service_value code P base n name")
        case (Some w)
        then have "w = v" using map_leD [OF service_value_Suc Some] v by simp
        moreover have "unblocked code P base n st" using c n by (simp add: unblocked_def)
        ultimately show ?thesis using Suc.IH [of k] Some Suc.prems unfolding finds_def by auto
      next
        case new: None
        from v base obtain g where g: "P (provider_key name) = Some (Provider g)" "recipe_value code (service_value code P base n) g = Some v"
          by (auto split: option.splits provider_obj.splits)
        have "unblocked code P base n ?st"
          using consistent_mark [OF c None] new n by (auto simp: unblocked_def inj_mark_def)
        from finds_recipe [OF Suc.IH [OF k(2)] this g(2)] obtain st1 where "invoke_get code j g ?st = Some (Inr v, st1)" by blast
        moreover have "in_providers ?st = P" using c by (simp add: consistent_def inj_mark_def)
        ultimately show ?thesis using None g(1) by (simp add: k(1) get_provider_def inj_finish_def)
      qed
    next
      case (Some s)
      show ?thesis
      proof (cases s)
        case (Instance w)
        then have "has_value code P base name w" using u Some by (simp add: unblocked_def consistent_def)
        moreover have "has_value code P base name v" using v unfolding has_value_def by blast
        ultimately show ?thesis using has_value_unique Some Instance by (fastforce simp: k(1))
      qed (use Some u v in \<open>auto simp: unblocked_def\<close>)
    qed
  qed
qed (simp add: finds_def)

section \<open>The injector returns\<close>

text \<open>Services that have a provider and neither an instance nor a mark.\<close>

definition open_services :: "('f, 'v) injector \<Rightarrow> string set" where
  "open_services st = {name. in_providers st (provider_key name) \<noteq> None \<and> in_cache st name = None}"

lemma provider_key_inj: "inj provider_key"
  by (rule injI) (simp add: provider_key_def)

lemma open_finite: "finite (dom (in_providers st)) \<Longrightarrow> finite (open_services st)"
  by (rule finite_subset [of _ "provider_key -` dom (in_providers st)"])
    (auto simp: open_services_def intro: finite_vimageI provider_key_inj)

lemma open_bound: "finite (dom (in_providers st)) \<Longrightarrow> card (open_services st) \<le> card (dom (in_providers st))"
  by (rule card_inj_on_le [of provider_key]) (auto simp: open_services_def intro: inj_on_subset [OF provider_key_inj])

lemma open_later: "inj_keeps st st' \<Longrightarrow> open_services st' \<subseteq> open_services st"
  unfolding open_services_def inj_keeps_def by (metis (mono_tags, lifting) mem_Collect_eq not_None_eq subsetI)

lemma open_mark:
  assumes "in_cache st name = None" "in_providers st (provider_key name) \<noteq> None"
  shows "open_services (inj_mark name st) = open_services st - {name}" "name \<in> open_services st"
  using assms by (auto simp: open_services_def inj_mark_def)

definition returns_to :: "('f, 'v) app_code \<Rightarrow> nat \<Rightarrow> bool" where
  "returns_to code n \<longleftrightarrow> (\<forall>name (st :: ('f, 'v) injector). finite (dom (in_providers st)) \<longrightarrow> card (open_services st) < n \<longrightarrow> get_service code n name st \<noteq> None)"

lemma inj_bind_returns: "out \<noteq> None \<Longrightarrow> (\<And>v st. out = Some (Inr v, st) \<Longrightarrow> k v st \<noteq> None) \<Longrightarrow> inj_bind out k \<noteq> None"
  by (auto simp: inj_bind_def split: option.splits sum.splits)

lemma args_return:
  assumes "returns_to code n" "finite (dom (in_providers st))" "card (open_services st) < n"
  shows "get_args code n locals keys st \<noteq> None"
  using assms(2,3)
proof (induction keys arbitrary: st)
  case (Cons key keys)
  let ?out = "case locals key of None \<Rightarrow> get_service code n key st | Some v \<Rightarrow> Some (Inr v, st)"
  have "?out \<noteq> None" using assms(1) Cons.prems by (auto simp: returns_to_def split: option.split)
  then obtain r st1 where out: "?out = Some (r, st1)" by auto
  have k: "inj_keeps st st1" using out by (auto split: option.splits dest: get_keeps(1))
  have "card (open_services st1) < n"
    using card_mono [OF open_finite [OF Cons.prems(1)] open_later [OF k]] Cons.prems(2) by simp
  then have "get_args code n locals keys st1 \<noteq> None" using Cons inj_keepsD(3) [OF k] by simp
  with out show ?case unfolding get_args.simps by (intro inj_bind_returns) auto
qed simp

lemma still_open:
  assumes "inj_keeps st st1" "finite (dom (in_providers st))" "card (open_services st) < n"
  shows "finite (dom (in_providers st1))" "card (open_services st1) < n"
  using card_mono [OF open_finite [OF assms(2)] open_later [OF assms(1)]] assms inj_keepsD(3) [OF assms(1)] by auto

lemma fn_returns:
  assumes "returns_to code n" "finite (dom (in_providers st))" "card (open_services st) < n"
  shows "invoke_fn code n locals fn st \<noteq> None"
  unfolding invoke_fn.simps by (rule inj_bind_returns [OF args_return [OF assms]]) simp

lemma get_returns:
  assumes "returns_to code n" "finite (dom (in_providers st))" "card (open_services st) < n"
  shows "invoke_get code n g st \<noteq> None"
proof (induction g)
  case (Service fn)
  show ?case unfolding invoke_get.simps
    by (rule inj_bind_returns [OF args_return [OF assms]])
      (rule fn_returns [OF assms(1)]; erule still_open [OF get_keeps(2) assms(2,3)])
next
  case (Decorated g fn)
  then show ?case unfolding invoke_get.simps
    by (rule inj_bind_returns) (rule fn_returns [OF assms(1)]; erule still_open [OF get_keeps(3) assms(2,3)])
qed (use fn_returns [OF assms] in simp_all)

lemma service_returns: "returns_to (code :: ('f, 'v) app_code) n"
proof (induction n)
  case (Suc n)
  have "get_service code (Suc n) name st \<noteq> None"
    if fin: "finite (dom (in_providers st))" and c: "card (open_services st) < Suc n" for name and st :: "('f, 'v) injector"
  proof (cases "in_cache st name")
    case None
    let ?st = "inj_mark name st"
    have same: "in_providers ?st = in_providers st" by (simp add: inj_mark_def)
    have "invoke_get code n g ?st \<noteq> None" if "in_providers st (provider_key name) = Some (Provider g)" for g
    proof (rule get_returns [OF Suc.IH])
      have "card (open_services ?st) < card (open_services st)"
        using open_mark [OF None] that open_finite [OF fin] by (metis card_Diff1_less option.distinct(1))
      then show "card (open_services ?st) < n" using c by simp
    qed (use fin same in simp)
    with None same show ?thesis
      by (auto simp: inj_finish_def get_provider_def split: option.splits provider_obj.splits sum.splits)
  qed (auto split: slot.split)
  then show ?case by (simp add: returns_to_def)
qed (simp add: returns_to_def)

text \<open>More depth does not change a result.\<close>

lemma more_depth_bind:
  assumes "inj_bind out k = Some z" "\<And>z. out = Some z \<Longrightarrow> out' = Some z" "\<And>v st. out = Some (Inr v, st) \<Longrightarrow> k v st = Some z \<Longrightarrow> k' v st = Some z"
  shows "inj_bind out' k' = Some z"
proof (cases out)
  case (Some y)
  with assms(2) have "out' = Some y" by simp
  with Some assms(1,3) show ?thesis by (cases y; cases "fst y") (auto simp: inj_bind_def)
qed (use assms(1) in \<open>simp add: inj_bind_def\<close>)

lemma more_depth:
  "get_service code n name st = Some z \<Longrightarrow> get_service code (n + m) name st = Some z"
  "get_args code n locals keys st = Some z2 \<Longrightarrow> get_args code (n + m) locals keys st = Some z2"
  "invoke_get code n g st = Some z \<Longrightarrow> invoke_get code (n + m) g st = Some z"
  "invoke_fn code n locals fn st = Some z \<Longrightarrow> invoke_fn code (n + m) locals fn st = Some z"
proof (induction code n name st and code n locals keys st and code n g st and code n locals fn st
    arbitrary: z and z2 and z and z
    rule: get_service_get_args_invoke_get_invoke_fn.induct)
  case (2 code n name st)
  show ?case
  proof (cases "in_cache st name")
    case None
    let ?prov = "get_provider (provider_key name) (inj_mark name st)"
    have "invoke_get code n g (inj_mark name st) = Some y \<Longrightarrow> invoke_get code (n + m) g (inj_mark name st) = Some y"
      if "?prov = Inr (Provider g)" for g y
      using 2(1) [OF None that refl] .
    with 2(2) None show ?thesis
      by (auto simp: inj_finish_def split: sum.splits provider_obj.splits option.splits)
  qed (use 2(2) in simp)
next
  case (4 code n locals key keys st)
  from 4(3) [unfolded get_args.simps] show ?case unfolding get_args.simps
  proof (rule more_depth_bind)
    fix y
    assume "(case locals key of None \<Rightarrow> get_service code n key st | Some v \<Rightarrow> Some (Inr v, st)) = Some y"
    with 4(1) show "(case locals key of None \<Rightarrow> get_service code (n + m) key st | Some v \<Rightarrow> Some (Inr v, st)) = Some y"
      by (auto split: option.splits)
  next
    fix v st1
    assume a: "(case locals key of None \<Rightarrow> get_service code n key st | Some v \<Rightarrow> Some (Inr v, st)) = Some (Inr v, st1)"
    assume "inj_bind (get_args code n locals keys st1) (\<lambda>vs st. Some (Inr (v # vs), st)) = Some z2"
    then show "inj_bind (get_args code (n + m) locals keys st1) (\<lambda>vs st. Some (Inr (v # vs), st)) = Some z2"
      by (rule more_depth_bind) (use 4(2) [OF a] in auto)
  qed
next
  case (6 code n fn st)
  from 6(3) [unfolded invoke_get.simps] show ?case unfolding invoke_get.simps
    by (rule more_depth_bind) (rule 6(1), assumption, rule 6(2))
next
  case (8 code n g fn st)
  from 8(3) [unfolded invoke_get.simps] show ?case unfolding invoke_get.simps
    by (rule more_depth_bind) (rule 8(1), assumption, rule 8(2))
next
  case (9 code n locals fn st)
  from 9(2) [unfolded invoke_fn.simps] show ?case unfolding invoke_fn.simps
    by (rule more_depth_bind) (use 9(1) in auto)
qed auto

lemma depth_agrees:
  assumes "get_service code n name st = Some y" "get_service code m name st = Some z"
  shows "y = z"
  using more_depth(1) [OF assms(1), of m] more_depth(1) [OF assms(2), of n] by (simp add: add.commute)

section \<open>Properties\<close>

text \<open>The instances of an injector; an injector at rest instantiates nothing.\<close>

definition instances :: "('f, 'v) injector \<Rightarrow> string \<rightharpoonup> 'v" where
  "instances st x = (case in_cache st x of Some (Instance v) \<Rightarrow> Some v | _ \<Rightarrow> None)"

definition inj_at_rest :: "('f, 'v) injector \<Rightarrow> bool" where
  "inj_at_rest st \<longleftrightarrow> finite (dom (in_providers st)) \<and> (\<forall>x. in_cache st x \<noteq> Some Instantiating)"

lemma rest_consistent: "inj_at_rest st \<Longrightarrow> consistent code (in_providers st) (instances st) st"
proof -
  assume "inj_at_rest st"
  have "has_value code (in_providers st) (instances st) x v" if "in_cache st x = Some (Instance v)" for x v
    unfolding has_value_def by (rule exI [of _ 1]) (simp add: that instances_def)
  then show ?thesis by (auto simp: consistent_def instances_def split: option.splits slot.splits)
qed

text \<open>
  C23. The injector finds a service exactly if its value can be computed from the providers: with a depth over the number of providers, \<open>get\<close>
  on an injector that is not busy returns \<open>v\<close> if and only if \<open>v\<close> is what the factory of the service computes from the
  values of its dependencies, which are computed likewise (or are there already). So the order in which services
  are asked for does not matter, every service is made from the same instances, and a cycle of dependencies gives an error.
\<close>

theorem injector_finds_value:
  assumes "inj_at_rest st" "card (dom (in_providers st)) < n"
  shows "(\<exists>st'. get_service code n name st = Some (Inr v, st')) \<longleftrightarrow> has_value code (in_providers st) (instances st) name v"
proof
  assume "\<exists>st'. get_service code n name st = Some (Inr v, st')"
  with sound(1) [OF rest_consistent [OF assms(1)], of code name n] show "has_value code (in_providers st) (instances st) name v"
    by (auto simp: inj_sound_def)
next
  assume "has_value code (in_providers st) (instances st) name v"
  then obtain k where k: "service_value code (in_providers st) (instances st) k name = Some v" by (auto simp: has_value_def)
  have "unblocked code (in_providers st) (instances st) k st"
    using rest_consistent [OF assms(1)] assms(1) by (simp add: unblocked_def inj_at_rest_def)
  with k get_complete [OF order_refl, of code "in_providers st" "instances st" k] obtain st1 where
    "get_service code k name st = Some (Inr v, st1)" unfolding finds_def by blast
  moreover have fin: "finite (dom (in_providers st))" using assms(1) by (simp add: inj_at_rest_def)
  then obtain y where "get_service code n name st = Some y"
    using service_returns [of code n] open_bound [OF fin] assms(2) unfolding returns_to_def by fastforce
  ultimately show "\<exists>st'. get_service code n name st = Some (Inr v, st')" using depth_agrees by blast
qed

text \<open>
  C24. \<open>get\<close> always returns, with a value or an error, and leaves the injector in order: no marks are left, the path is as before, and
  every instance that there was is the same (services are singletons). A depth over the number of providers suffices.
\<close>

theorem injector_returns:
  assumes "inj_at_rest st" "card (dom (in_providers st)) < n"
  shows "\<exists>r st'. get_service code n name st = Some (r, st') \<and> inj_at_rest st' \<and> in_path st' = in_path st \<and>
    in_providers st' = in_providers st \<and> instances st \<subseteq>\<^sub>m instances st' \<and> (\<forall>v. r = Inr v \<longrightarrow> instances st' name = Some v)"
proof -
  have fin: "finite (dom (in_providers st))" using assms(1) by (simp add: inj_at_rest_def)
  then obtain r st' where g: "get_service code n name st = Some (r, st')"
    using service_returns [of code n] open_bound [OF fin] assms(2) unfolding returns_to_def by fastforce
  have k: "inj_keeps st st'" by (rule get_keeps(1) [OF g])
  have "inj_at_rest st'" using assms(1) inj_keepsD(2,3) [OF k] fin by (auto simp: inj_at_rest_def)
  moreover have "instances st \<subseteq>\<^sub>m instances st'"
    by (rule map_leI) (auto simp: instances_def split: option.splits slot.splits dest: inj_keepsD(1) [OF k])
  moreover have "instances st' name = Some v" if "r = Inr v" for v
    using g that by (cases n) (auto simp: instances_def inj_finish_def split: option.splits slot.splits sum.splits provider_obj.splits)
  ultimately show ?thesis using g inj_keepsD(3,4) [OF k] by auto
qed

end
