(* ===== verification/Angular_Modules.thy ===== *)
theory Angular_Modules
  imports Angular_Inject
begin

text \<open>Loading modules: every module is configured once, after the modules it requires, and loading comes to an end.\<close>

section \<open>Order\<close>

abbreviation queue_of :: "(string \<rightharpoonup> ('f, 'v) module_obj) \<Rightarrow> string \<Rightarrow> ('f, 'v) queued list" where
  "queue_of modules m \<equiv> mo_queue (the (modules m))"

abbreviation blocks_of :: "(string \<rightharpoonup> ('f, 'v) module_obj) \<Rightarrow> string \<Rightarrow> 'f injectable list" where
  "blocks_of modules m \<equiv> mo_runBlocks (the (modules m))"

abbreviation requires_of :: "(string \<rightharpoonup> ('f, 'v) module_obj) \<Rightarrow> string \<Rightarrow> string list" where
  "requires_of modules m \<equiv> mo_requires (the (modules m))"

lemma run_queue_append:
  "run_queue code (qs @ rs) st = (case run_queue code qs st of (Inl e, st) \<Rightarrow> (Inl e, st) | (Inr _, st) \<Rightarrow> run_queue code rs st)"
  by (induction qs arbitrary: st) (auto split: prod.splits sum.splits)

text \<open>Modules that require each other only downwards.\<close>

definition ranked :: "(string \<Rightarrow> nat) \<Rightarrow> (string \<rightharpoonup> ('f, 'v) module_obj) \<Rightarrow> bool" where
  "ranked rank modules \<longleftrightarrow> (\<forall>m mo. modules m = Some mo \<longrightarrow> (\<forall>r \<in> set (mo_requires mo). rank r < rank m))"

text \<open>The modules \<open>order\<close> were configured one after the other, which were not among \<open>loaded\<close>.\<close>

definition configured :: "(string \<Rightarrow> nat) \<Rightarrow> ('f, 'v) app_code \<Rightarrow> (string \<rightharpoonup> ('f, 'v) module_obj) \<Rightarrow> string list \<Rightarrow>
    string list \<times> ('f, 'v) injector \<Rightarrow> string list \<Rightarrow> 'f injectable list \<Rightarrow> string list \<times> ('f, 'v) injector \<Rightarrow> bool" where
  "configured rank code modules ms st order blocks st' \<longleftrightarrow> distinct order \<and> set order \<inter> set (fst st) = {} \<and>
     set (fst st') = set (fst st) \<union> set order \<and> set ms \<subseteq> set (fst st') \<and>
     run_queue code (concat (map (queue_of modules) order)) (snd st) = (Inr (), snd st') \<and>
     blocks = concat (map (blocks_of modules) order) \<and> (\<forall>x \<in> set order. modules x \<noteq> None \<and> (\<exists>m \<in> set ms. rank x \<le> rank m)) \<and>
     (\<forall>xs m ys. order = xs @ m # ys \<longrightarrow> set (requires_of modules m) \<subseteq> set (fst st) \<union> set xs)"

lemma configured_none: "configured rank code modules [] st [] [] st"
  by (simp add: configured_def)

lemma configured_skip: "configured rank code modules ms st order blocks st' \<Longrightarrow> m \<in> set (fst st) \<Longrightarrow>
    configured rank code modules (m # ms) st order blocks st'"
  by (auto simp: configured_def)

lemma before_split:
  assumes "xs @ m # ys = as @ bs"
  shows "(\<exists>zs. as = xs @ m # zs) \<or> (\<exists>zs. xs = as @ zs \<and> bs = zs @ m # ys)"
  using assms by (auto simp: append_eq_append_conv2 Cons_eq_append_conv)

lemma configured_module:
  assumes "ranked rank modules" "modules m = Some mo" "m \<notin> set (fst st)"
    and req: "configured rank code modules (mo_requires mo) (fst st @ [m], snd st) order blocks st1"
    and q: "run_queue code (mo_queue mo) (snd st1) = (Inr u, inj2)"
  shows "configured rank code modules [m] st (order @ [m]) (blocks @ mo_runBlocks mo) (fst st1, inj2)"
proof -
  have low: "rank x < rank m" if x: "x \<in> set order" for x
  proof -
    obtain r where "r \<in> set (mo_requires mo)" "rank x \<le> rank r" using req x by (auto simp: configured_def)
    with assms(1,2) show ?thesis unfolding ranked_def by fastforce
  qed
  have before: "set (requires_of modules y) \<subseteq> set (fst st) \<union> set xs" if o: "order @ [m] = xs @ y # ys" for xs y ys
  proof (cases "y \<in> set order \<and> (\<exists>zs. order = xs @ y # zs)")
    case True
    then obtain zs where zs: "order = xs @ y # zs" and y: "y \<in> set order" by blast
    have "set (requires_of modules y) \<subseteq> set (fst st @ [m]) \<union> set xs" using req zs by (simp add: configured_def)
    moreover have "m \<notin> set (requires_of modules y)"
    proof
      assume m: "m \<in> set (requires_of modules y)"
      have "modules y \<noteq> None" using req y by (simp add: configured_def)
      then have "rank m < rank y" using assms(1) m by (auto simp: ranked_def)
      with low [OF y] show False by simp
    qed
    ultimately show ?thesis by auto
  next
    case False
    with before_split [OF o [symmetric]] obtain zs where zs: "xs = order @ zs" "[m] = zs @ y # ys" by fastforce
    then have "xs = order" "y = m" by (auto simp: Cons_eq_append_conv)
    moreover have "m \<notin> set (mo_requires mo)" using assms(1,2) by (auto simp: ranked_def)
    moreover have "set (mo_requires mo) \<subseteq> set (fst st) \<union> {m} \<union> set order" using req by (auto simp: configured_def)
    ultimately show ?thesis using assms(2) by auto
  qed
  have "run_queue code (concat (map (queue_of modules) (order @ [m]))) (snd st) = (Inr (), inj2)"
    using req q assms(2) by (simp add: configured_def run_queue_append)
  with before low req assms(2,3) show ?thesis unfolding configured_def by (fastforce intro: less_imp_le)
qed

lemma configured_more:
  assumes "configured rank code modules [m] st o1 b1 st1" "configured rank code modules ms st1 o2 b2 st2"
  shows "configured rank code modules (m # ms) st (o1 @ o2) (b1 @ b2) st2"
proof -
  have "set (requires_of modules y) \<subseteq> set (fst st) \<union> set xs" if "o1 @ o2 = xs @ y # ys" for xs y ys
    using before_split [OF that [symmetric]]
  proof
    assume "\<exists>zs. o1 = xs @ y # zs"
    with assms(1) show ?thesis by (auto simp: configured_def)
  next
    assume "\<exists>zs. xs = o1 @ zs \<and> o2 = zs @ y # ys"
    then obtain zs where "xs = o1 @ zs" "o2 = zs @ y # ys" by blast
    moreover then have "set (requires_of modules y) \<subseteq> set (fst st1) \<union> set zs" using assms(2) unfolding configured_def by blast
    moreover have "set (fst st1) = set (fst st) \<union> set o1" using assms(1) by (simp add: configured_def)
    ultimately show ?thesis by auto
  qed
  moreover have "run_queue code (concat (map (queue_of modules) (o1 @ o2))) (snd st) = (Inr (), snd st2)"
    using assms by (simp add: configured_def run_queue_append)
  moreover have "distinct (o1 @ o2)" "set (o1 @ o2) \<inter> set (fst st) = {}" "set (fst st2) = set (fst st) \<union> set (o1 @ o2)"
    "set (m # ms) \<subseteq> set (fst st2)"
    using assms by (auto simp: configured_def)
  moreover have "b1 @ b2 = concat (map (blocks_of modules) (o1 @ o2))" using assms by (simp add: configured_def)
  moreover have "\<forall>x \<in> set (o1 @ o2). modules x \<noteq> None \<and> (\<exists>y \<in> set (m # ms). rank x \<le> rank y)"
    using assms unfolding configured_def by (metis Un_iff list.set_intros(1,2) set_append set_ConsD empty_iff list.set(1))
  ultimately show ?thesis unfolding configured_def by blast
qed

lemma bind_Inr:
  assumes "inj_bind out k = Some (Inr v, st)"
  obtains w st1 where "out = Some (Inr w, st1)" "k w st1 = Some (Inr v, st)"
  using assms by (auto simp: inj_bind_def split: option.splits sum.splits)

lemma module_error_Inr: "module_error m out = Some (Inr v, st) \<Longrightarrow> out = Some (Inr v, st)"
  by (auto simp: module_error_def split: option.splits sum.splits)

lemma load_configures:
  assumes "ranked rank modules" "load_modules code modules n ms st = Some (Inr blocks, st')"
  shows "\<exists>order. configured rank code modules ms st order blocks st'"
  using assms
proof (induction code modules n ms st arbitrary: blocks st' rule: load_modules.induct)
  case (3 code modules n m ms st)
  show ?case
  proof (cases "m \<in> set (fst st)")
    case True
    then have "load_modules code modules (Suc n) ms st = Some (Inr blocks, st')" using 3(5) by simp
    from 3(1) [OF True 3(4) this] True show ?thesis by (auto intro: configured_skip)
  next
    case False
    let ?st = "(fst st @ [m], snd st)"
    let ?one = "module_error m (case modules m of None \<Rightarrow> Some (Inl (NoModule m), ?st)
      | Some mo \<Rightarrow> inj_bind (load_modules code modules n (mo_requires mo) ?st)
          (\<lambda>blocks st. inj_bind (configure code (mo_queue mo) st) (\<lambda>_ st. Some (Inr (blocks @ mo_runBlocks mo), st))))"
    have "inj_bind ?one (\<lambda>blocks st. inj_bind (load_modules code modules (Suc n) ms st) (\<lambda>later st. Some (Inr (blocks @ later), st))) =
        Some (Inr blocks, st')"
      using 3(5) False by (simp add: Let_def)
    then obtain b1 st1 where one: "?one = Some (Inr b1, st1)"
      and two: "inj_bind (load_modules code modules (Suc n) ms st1) (\<lambda>later st. Some (Inr (b1 @ later), st)) = Some (Inr blocks, st')"
      by (rule bind_Inr)
    from two obtain b2 where b2: "load_modules code modules (Suc n) ms st1 = Some (Inr b2, st')" "blocks = b1 @ b2"
      by (rule bind_Inr) auto
    from module_error_Inr [OF one] obtain mo where mo: "modules m = Some mo" and
      "inj_bind (load_modules code modules n (mo_requires mo) ?st)
          (\<lambda>blocks st. inj_bind (configure code (mo_queue mo) st) (\<lambda>_ st. Some (Inr (blocks @ mo_runBlocks mo), st))) = Some (Inr b1, st1)"
      by (auto split: option.splits)
    from this(2) obtain b0 st0 where req: "load_modules code modules n (mo_requires mo) ?st = Some (Inr b0, st0)"
      and "inj_bind (configure code (mo_queue mo) st0) (\<lambda>_ st. Some (Inr (b0 @ mo_runBlocks mo), st)) = Some (Inr b1, st1)"
      by (rule bind_Inr)
    from this(2) obtain u where q: "run_queue code (mo_queue mo) (snd st0) = (Inr u, snd st1)" and st1: "fst st1 = fst st0" "b1 = b0 @ mo_runBlocks mo"
      by (rule bind_Inr) (auto simp: configure_def split: prod.splits)
    obtain o0 where "configured rank code modules (mo_requires mo) ?st o0 b0 st0"
      using 3(2) [OF False refl mo 3(4) req] by blast
    from configured_module [OF 3(4) mo False this q] st1 have "configured rank code modules [m] st (o0 @ [m]) b1 st1" by (cases st1) simp
    moreover obtain o2 where "configured rank code modules ms st1 o2 b2 st'" 
      using 3(3) [OF False _ 3(4) b2(1)] one by (auto simp: Let_def)
    ultimately show ?thesis using configured_more b2(2) by blast
  qed
qed (auto intro: configured_none)

section \<open>Loading ends\<close>

text \<open>Loading one module, with \<open>L\<close> for the loading of what it requires.\<close>

definition load_one :: "('f, 'v) app_code \<Rightarrow> (string \<rightharpoonup> ('f, 'v) module_obj) \<Rightarrow> string \<Rightarrow> string list \<times> ('f, 'v) injector \<Rightarrow>
    (string list \<Rightarrow> ('f injectable list, string list \<times> ('f, 'v) injector) injected) \<Rightarrow> ('f injectable list, string list \<times> ('f, 'v) injector) injected" where
  "load_one code modules m st L = module_error m (case modules m of None \<Rightarrow> Some (Inl (NoModule m), st)
     | Some mo \<Rightarrow> inj_bind (L (mo_requires mo))
         (\<lambda>blocks st. inj_bind (configure code (mo_queue mo) st) (\<lambda>_ st. Some (Inr (blocks @ mo_runBlocks mo), st))))"

lemma load_modules_one:
  "m \<notin> set (fst st) \<Longrightarrow> load_modules code modules (Suc n) (m # ms) st =
    inj_bind (load_one code modules m (fst st @ [m], snd st) (\<lambda>rs. load_modules code modules n rs (fst st @ [m], snd st)))
      (\<lambda>blocks st. inj_bind (load_modules code modules (Suc n) ms st) (\<lambda>later st. Some (Inr (blocks @ later), st)))"
  by (simp add: load_one_def Let_def)

lemma load_one_grows:
  assumes "load_one code modules m st L = Some (y, st1)" "S \<subseteq> set (fst st)"
    "\<And>mo z st0. modules m = Some mo \<Longrightarrow> L (mo_requires mo) = Some (z, st0) \<Longrightarrow> S \<subseteq> set (fst st0)"
  shows "S \<subseteq> set (fst st1)"
proof (cases "modules m")
  case (Some mo)
  then obtain z st0 where z: "L (mo_requires mo) = Some (z, st0)"
    using assms(1) by (cases "L (mo_requires mo)") (auto simp: load_one_def module_error_def inj_bind_def)
  then have "S \<subseteq> set (fst st0)" by (rule assms(3) [OF Some])
  moreover have "fst st1 = fst st0" using assms(1) Some z
    by (auto simp: load_one_def module_error_def inj_bind_def configure_def split: option.splits sum.splits prod.splits)
  ultimately show ?thesis by simp
qed (use assms in \<open>auto simp: load_one_def module_error_def\<close>)

lemma load_one_returns:
  assumes "\<And>rs. modules m \<noteq> None \<Longrightarrow> L rs \<noteq> None"
  shows "load_one code modules m st L \<noteq> None"
proof (cases "modules m")
  case (Some mo)
  then have "L (mo_requires mo) \<noteq> None" by (intro assms) simp
  then have "inj_bind (L (mo_requires mo)) (\<lambda>blocks st. inj_bind (configure code (mo_queue mo) st) (\<lambda>_ st. Some (Inr (blocks @ mo_runBlocks mo), st))) \<noteq> None"
    by (intro inj_bind_returns) (auto simp: configure_def split: prod.split)
  with Some show ?thesis by (auto simp: load_one_def module_error_def split: sum.split)
qed (simp add: load_one_def module_error_def)

lemma bind_Some:
  assumes "inj_bind out k = Some (r, st)"
  obtains e where "out = Some (Inl e, st)" | w st1 where "out = Some (Inr w, st1)" "k w st1 = Some (r, st)"
  using assms by (auto simp: inj_bind_def split: option.splits sum.splits)

lemma load_grows: "load_modules code modules n ms st = Some (r, st') \<Longrightarrow> set (fst st) \<subseteq> set (fst st')"
proof (induction n arbitrary: ms st r st')
  case 0
  then show ?case by (cases ms) auto
next
  case (Suc n)
  show ?case using Suc.prems
  proof (induction ms arbitrary: st r st')
    case (Cons m ms)
    show ?case
    proof (cases "m \<in> set (fst st)")
      case False
      let ?one = "load_one code modules m (fst st @ [m], snd st) (\<lambda>rs. load_modules code modules n rs (fst st @ [m], snd st))"
      have one: "set (fst st) \<subseteq> set (fst st1)" if "?one = Some (y, st1)" for y st1
        by (rule load_one_grows [OF that]) (use Suc.IH in fastforce)+
      from Cons.prems [unfolded load_modules_one [OF False]] show ?thesis
      proof (rule bind_Some)
        fix w st1
        assume w: "?one = Some (Inr w, st1)"
          "inj_bind (load_modules code modules (Suc n) ms st1) (\<lambda>later st. Some (Inr (w @ later), st)) = Some (r, st')"
        obtain r2 where "load_modules code modules (Suc n) ms st1 = Some (r2, st')" using w(2) by (rule bind_Some) auto
        with Cons.IH one [OF w(1)] show ?thesis by blast
      qed (use one in blast)
    qed (use Cons in auto)
  qed simp
qed

lemma load_returns:
  assumes "finite (dom modules)"
  shows "card (dom modules - set (fst st)) < n \<Longrightarrow> load_modules code modules n ms st \<noteq> None"
proof (induction n arbitrary: ms st)
  case (Suc n)
  show ?case using Suc.prems
  proof (induction ms arbitrary: st)
    case (Cons m ms)
    show ?case
    proof (cases "m \<in> set (fst st)")
      case False
      let ?st = "(fst st @ [m], snd st)"
      let ?one = "load_one code modules m ?st (\<lambda>rs. load_modules code modules n rs ?st)"
      have "load_modules code modules n rs ?st \<noteq> None" if "modules m \<noteq> None" for rs
      proof (rule Suc.IH)
        have "dom modules - set (fst ?st) \<subset> dom modules - set (fst st)" using that False by auto
        then have "card (dom modules - set (fst ?st)) < card (dom modules - set (fst st))" using assms by (intro psubset_card_mono) auto
        with Cons.prems show "card (dom modules - set (fst ?st)) < n" by simp
      qed
      then have "?one \<noteq> None" by (rule load_one_returns)
      then show ?thesis unfolding load_modules_one [OF False]
      proof (rule inj_bind_returns)
        fix w st1
        assume "?one = Some (Inr w, st1)"
        then have "set (fst st) \<subseteq> set (fst st1)" by (rule load_one_grows) (use load_grows in fastforce)+
        then have "card (dom modules - set (fst st1)) \<le> card (dom modules - set (fst st))" using assms by (intro card_mono) auto
        with Cons.IH [of st1] Cons.prems have "load_modules code modules (Suc n) ms st1 \<noteq> None" by simp
        then show "inj_bind (load_modules code modules (Suc n) ms st1) (\<lambda>later st. Some (Inr (w @ later), st)) \<noteq> None"
          by (rule inj_bind_returns) simp
      qed
    qed (use Cons in simp)
  qed simp
qed simp

text \<open>
  C25. Modules are configured once each and after the modules they require: if modules do not require each other in a cycle and loading succeeds,
  the queues that were run are those of a list of distinct modules, with every module to be loaded among them, in which the modules
  that one requires come before it; and the blocks to run come in the same order.
\<close>

theorem modules_in_order:
  assumes "ranked rank modules" "load_modules code modules n ms ([], st) = Some (Inr blocks, st')"
  shows "\<exists>order. distinct order \<and> set ms \<subseteq> set order \<and>
    (\<forall>xs m ys. order = xs @ m # ys \<longrightarrow> set (mo_requires (the (modules m))) \<subseteq> set xs) \<and>
    run_queue code (concat (map (\<lambda>m. mo_queue (the (modules m))) order)) st = (Inr (), snd st') \<and>
    blocks = concat (map (\<lambda>m. mo_runBlocks (the (modules m))) order)"
  using load_configures [OF assms] by (auto simp: configured_def)

text \<open>
  Loading modules always ends, with success or an error, also if modules require each other in a cycle: a depth over the
  number of modules that are registered suffices.
\<close>

theorem loading_ends:
  assumes "finite (dom modules)" "card (dom modules) < n"
  shows "load_modules code modules n ms ([], st) \<noteq> None"
  by (rule load_returns [OF assms(1)]) (simp add: assms(2))

section \<open>Examples\<close>

text \<open>Code that adds up what it is given; a service \<open>a\<close> that asks for \<open>b\<close>, and services \<open>c\<close> and \<open>d\<close> that ask for each other.\<close>

definition demo_code :: "(nat, int) app_code" where
  "demo_code = \<lparr>co_body = \<lambda>f vs. Inr (int f + sum_list vs), co_provider = \<lambda>f ps. Inr None, co_config = \<lambda>f ps st. (Inr (), st)\<rparr>"

definition demo_modules :: "string \<rightharpoonup> (nat, int) module_obj" where
  "demo_modules = [''app'' \<mapsto> \<lparr>mo_requires = [''lib''], mo_queue = [QFactory ''a'' ([''b''], 1), QFactory ''c'' ([''d''], 2)], mo_runBlocks = [([''a''], 5)]\<rparr>,
     ''lib'' \<mapsto> \<lparr>mo_requires = [], mo_queue = [QValue ''b'' 3, QFactory ''d'' ([''c''], 4)], mo_runBlocks = []\<rparr>]"

definition demo_injector :: "(nat, int) injector" where
  "demo_injector = (case load_modules demo_code demo_modules 3 [''app''] ([], new_injector 0) of Some (_, _, st) \<Rightarrow> st | None \<Rightarrow> new_injector 0)"

lemma demo_load:
  "load_modules demo_code demo_modules 3 [''app''] ([], new_injector 0) = Some (Inr [([''a''], 5)], [''app'', ''lib''], demo_injector)"
  by (simp add: demo_injector_def demo_modules_def numeral_3_eq_3 inj_bind_def configure_def module_error_def provide_factory_def provide_value_def
    provide_provider_def)

lemma demo_providers: "in_providers demo_injector =
    [''$provide'' \<mapsto> Internal, ''$injector'' \<mapsto> Internal, ''bProvider'' \<mapsto> Provider (Value 3), ''dProvider'' \<mapsto> Provider (Factory ([''c''], 4)),
     ''aProvider'' \<mapsto> Provider (Factory ([''b''], 1)), ''cProvider'' \<mapsto> Provider (Factory ([''d''], 2))]"
  "in_cache demo_injector = [''$injector'' \<mapsto> Instance 0]" "in_path demo_injector = []"
  by (simp_all add: demo_injector_def demo_modules_def numeral_3_eq_3 inj_bind_def configure_def module_error_def provide_factory_def provide_value_def
    provide_provider_def new_injector_def provider_key_def)

lemma demo_inj_rest: "inj_at_rest demo_injector" "card (dom (in_providers demo_injector)) < 7"
  by (simp_all add: inj_at_rest_def demo_providers)

theorem injector_finds_value_witness: "\<exists>st'. get_service demo_code 7 ''a'' demo_injector = Some (Inr 4, st')"
proof -
  have "service_value demo_code (in_providers demo_injector) (instances demo_injector) 2 ''a'' = Some 4"
    by (simp add: numeral_2_eq_2 demo_providers instances_def provider_key_def fn_value_def call_body_def demo_code_def)
  then show ?thesis unfolding injector_finds_value [OF demo_inj_rest] has_value_def by blast
qed

theorem injector_returns_witness:
  "\<exists>r st'. get_service demo_code 7 ''c'' demo_injector = Some (r, st') \<and> inj_at_rest st' \<and> in_path st' = []"
  using injector_returns [OF demo_inj_rest, of demo_code "''c''"] by (auto simp: demo_providers)

text \<open>Services that ask for each other: the error has the path from the second request back to the first.\<close>

lemma demo_cycle: "map_option fst (get_service demo_code 7 ''c'' demo_injector) = Some (Inl (CircularDependency [''c'', ''d'', ''c'']))"
  by (simp add: eval_nat_numeral demo_providers provider_key_def get_provider_def inj_mark_def inj_bind_def inj_finish_def)

lemma demo_unknown: "map_option fst (get_service demo_code 7 ''e'' demo_injector) = Some (Inl (UnknownProvider [''eProvider'', ''e'']))"
  by (simp add: eval_nat_numeral demo_providers provider_key_def get_provider_def inj_mark_def inj_finish_def)

theorem modules_in_order_witness:
  "\<exists>order. distinct order \<and> ''app'' \<in> set order \<and> (\<forall>xs m ys. order = xs @ m # ys \<longrightarrow> set (mo_requires (the (demo_modules m))) \<subseteq> set xs)"
proof -
  have "ranked (\<lambda>m. if m = ''app'' then 1 else 0) demo_modules" by (simp add: ranked_def demo_modules_def)
  from modules_in_order [OF this demo_load] show ?thesis by auto
qed

theorem loading_ends_witness: "load_modules demo_code demo_modules 3 [''app''] ([], new_injector 0) \<noteq> None"
  by (rule loading_ends) (simp_all add: demo_modules_def)

end
