(* ===== verification/Angular_Hash.thy ===== *)
theory Angular_Hash
  imports Js_Prelude
begin

text \<open>
  Identifiers and tables of objects in \<open>angular-1.2.21.js\<close>: \<open>nextUid\<close>, \<open>hashKey\<close> and \<open>HashMap\<close>. An object is named by a number; its
  property \<open>$$hashKey\<close>, which the code writes, is part of the state. Objects whose \<open>$$hashKey\<close> is a function are left out.
\<close>

section \<open>Identifiers\<close>

text \<open>The loop of \<open>nextUid\<close> over the characters of \<open>uid\<close>, from the last to the first.\<close>

fun uid_loop :: "string \<Rightarrow> nat \<Rightarrow> string" where
  "uid_loop uid 0 = CHR ''0'' # uid"
| "uid_loop uid (Suc index) =
     (let digit = of_char (uid ! index) :: nat in
      if digit = 57 then uid[index := CHR ''A'']
      else if digit = 90 then uid_loop (uid[index := CHR ''0'']) index
      else uid[index := char_of (digit + 1)])"

definition nextUid :: "string \<Rightarrow> string" where
  "nextUid uid = uid_loop uid (length uid)"

definition first_uid :: string where
  "first_uid = ''000''"

section \<open>Keys\<close>

text \<open>What can be a key: a primitive value with its type and its text, or an object or function.\<close>

datatype hash_arg = Primitive string string | Reference string nat

record hash_heap =
  hh_keys :: "nat \<rightharpoonup> string"
  hh_uid :: string

text \<open>
  \<open>hashKey(obj, nextUidFn)\<close>: an object without a key gets the next number of \<open>nextUidFn\<close>, which is the counter of a table of its own or
  \<open>nextUid\<close> (\<open>None\<close>). The result is the key, the counter and the heap.
\<close>

fun hashKey :: "hash_arg \<Rightarrow> nat option \<Rightarrow> hash_heap \<Rightarrow> string \<times> nat option \<times> hash_heap" where
  "hashKey (Primitive ty repr) own h = (ty @ '':'' @ repr, own, h)"
| "hashKey (Reference ty r) own h =
     (case hh_keys h r of
        Some key \<Rightarrow> (ty @ '':'' @ key, own, h)
      | None \<Rightarrow>
          (case own of
             Some n \<Rightarrow> (let key = nat_str (n + 1) in (ty @ '':'' @ key, Some (n + 1), h\<lparr>hh_keys := (hh_keys h)(r \<mapsto> key)\<rparr>))
           | None \<Rightarrow> (let key = nextUid (hh_uid h) in (ty @ '':'' @ key, None, h\<lparr>hh_keys := (hh_keys h)(r \<mapsto> key), hh_uid := key\<rparr>))))"

section \<open>Tables\<close>

text \<open>A table: its entries by key, and its counter if it has one of its own (\<open>isolatedUid\<close>).\<close>

record 'v hash_map =
  hm_entries :: "string \<rightharpoonup> 'v"
  hm_own :: "nat option"

definition new_hash_map :: "bool \<Rightarrow> 'v hash_map" where
  "new_hash_map isolatedUid = \<lparr>hm_entries = Map.empty, hm_own = (if isolatedUid then Some 0 else None)\<rparr>"

definition hm_put :: "hash_arg \<Rightarrow> 'v \<Rightarrow> 'v hash_map \<times> hash_heap \<Rightarrow> 'v hash_map \<times> hash_heap" where
  "hm_put k v s = (case s of (m, h) \<Rightarrow> case hashKey k (hm_own m) h of (key, own, h) \<Rightarrow>
     (m\<lparr>hm_entries := (hm_entries m)(key \<mapsto> v), hm_own := own\<rparr>, h))"

definition hm_get :: "hash_arg \<Rightarrow> 'v hash_map \<times> hash_heap \<Rightarrow> 'v option \<times> 'v hash_map \<times> hash_heap" where
  "hm_get k s = (case s of (m, h) \<Rightarrow> case hashKey k (hm_own m) h of (key, own, h) \<Rightarrow>
     (hm_entries m key, m\<lparr>hm_own := own\<rparr>, h))"

definition hm_remove :: "hash_arg \<Rightarrow> 'v hash_map \<times> hash_heap \<Rightarrow> 'v option \<times> 'v hash_map \<times> hash_heap" where
  "hm_remove k s = (case s of (m, h) \<Rightarrow> case hashKey k (hm_own m) h of (key, own, h) \<Rightarrow>
     (hm_entries m key, m\<lparr>hm_entries := (hm_entries m)(key := None), hm_own := own\<rparr>, h))"

section \<open>Identifiers do not repeat\<close>

text \<open>The digits are \<open>0\<close> to \<open>9\<close> and \<open>A\<close> to \<open>Z\<close>; with digits that count from 1, every text is a number.\<close>

definition is_uid_char :: "char \<Rightarrow> bool" where
  "is_uid_char c \<longleftrightarrow> (let n = of_char c :: nat in 48 \<le> n \<and> n \<le> 57 \<or> 65 \<le> n \<and> n \<le> 90)"

definition uid_digit :: "char \<Rightarrow> nat" where
  "uid_digit c = (let n = of_char c :: nat in if n \<le> 57 then n - 47 else n - 54)"

definition uid_number :: "string \<Rightarrow> nat" where
  "uid_number = foldl (\<lambda>n c. 36 * n + uid_digit c) 0"

lemma uid_number_snoc [simp]: "uid_number [] = 0" "uid_number (xs @ [c]) = 36 * uid_number xs + uid_digit c"
  by (simp_all add: uid_number_def)

lemma uid_loop_append: "i \<le> length xs \<Longrightarrow> uid_loop (xs @ ys) i = uid_loop xs i @ ys"
  by (induction xs i rule: uid_loop.induct) (auto simp: Let_def nth_append list_update_append)

lemma nextUid_snoc:
  "nextUid (xs @ [c]) = (let digit = of_char c :: nat in
     if digit = 57 then xs @ ''A'' else if digit = 90 then nextUid xs @ ''0'' else xs @ [char_of (digit + 1)])"
  by (simp add: nextUid_def Let_def nth_append list_update_append uid_loop_append)

lemma nextUid_counts:
  assumes "list_all is_uid_char xs"
  shows "list_all is_uid_char (nextUid xs) \<and> uid_number (nextUid xs) = uid_number xs + 1"
  using assms
proof (induction xs rule: rev_induct)
  case Nil
  then show ?case by (simp add: nextUid_def is_uid_char_def uid_number_def uid_digit_def)
next
  case (snoc c xs)
  let ?n = "of_char c :: nat"
  have c: "is_uid_char c" and xs: "list_all is_uid_char xs" using snoc.prems by simp_all
  note ih = snoc.IH [OF xs]
  show ?case
  proof (cases "?n = 57 \<or> ?n = 90")
    case True
    have "uid_number (nextUid xs @ ''0'') = 36 * uid_number (nextUid xs) + uid_digit (CHR ''0'')"
      "uid_number (xs @ ''A'') = 36 * uid_number xs + uid_digit (CHR ''A'')" by simp_all
    moreover have "is_uid_char (CHR ''0'')" "is_uid_char (CHR ''A'')" by (simp_all add: is_uid_char_def)
    ultimately show ?thesis using True ih xs
      by (auto simp: nextUid_snoc uid_digit_def Let_def)
  next
    case False
    have "of_char (char_of (?n + 1) :: char) = ?n + 1" using c by (auto simp: is_uid_char_def Let_def)
    moreover from this False c have "is_uid_char (char_of (?n + 1))" by (auto simp: is_uid_char_def Let_def)
    ultimately show ?thesis using False c xs
      by (auto simp: nextUid_snoc uid_digit_def is_uid_char_def [of c] Let_def)
  qed
qed

lemma uid_digit_inj: "is_uid_char c \<Longrightarrow> is_uid_char d \<Longrightarrow> uid_digit c = uid_digit d \<Longrightarrow> c = d"
proof -
  define n m :: nat where "n = of_char c" and "m = of_char d"
  assume "is_uid_char c" "is_uid_char d" "uid_digit c = uid_digit d"
  then have "48 \<le> n \<and> n \<le> 57 \<or> 65 \<le> n \<and> n \<le> 90" "48 \<le> m \<and> m \<le> 57 \<or> 65 \<le> m \<and> m \<le> 90"
    "(if n \<le> 57 then n - 47 else n - 54) = (if m \<le> 57 then m - 47 else m - 54)"
    by (simp_all only: is_uid_char_def uid_digit_def Let_def n_def m_def)
  then have "n = m" by (auto split: if_splits)
  then show ?thesis by (simp add: n_def m_def)
qed

lemma digits_split:
  fixes a b c d :: nat
  assumes "36 * a + c = 36 * b + d" "1 \<le> c" "c \<le> 36" "1 \<le> d" "d \<le> 36"
  shows "a = b \<and> c = d"
  using assms by presburger

lemma uid_digit_range: "is_uid_char c \<Longrightarrow> 1 \<le> uid_digit c \<and> uid_digit c \<le> 36"
  by (auto simp: is_uid_char_def uid_digit_def Let_def)

lemma uid_number_inj:
  assumes "list_all is_uid_char xs" "list_all is_uid_char ys" "uid_number xs = uid_number ys"
  shows "xs = ys"
  using assms
proof (induction xs arbitrary: ys rule: rev_induct)
  case Nil
  show ?case
  proof (cases ys rule: rev_cases)
    case (snoc zs c)
    with Nil show ?thesis using uid_digit_range [of c] by simp
  qed simp
next
  case (snoc c xs)
  obtain zs d where ys: "ys = zs @ [d]"
    using snoc.prems uid_digit_range [of c] by (cases ys rule: rev_cases) auto
  have r: "1 \<le> uid_digit c" "uid_digit c \<le> 36" "1 \<le> uid_digit d" "uid_digit d \<le> 36"
    using snoc.prems uid_digit_range by (auto simp: ys)
  have "36 * uid_number xs + uid_digit c = 36 * uid_number zs + uid_digit d" using snoc.prems by (simp add: ys)
  from digits_split [OF this r] have "uid_number xs = uid_number zs" "uid_digit c = uid_digit d" by simp_all
  with snoc ys uid_digit_inj show ?case by auto
qed

lemma uid_steps: "list_all is_uid_char u \<Longrightarrow> list_all is_uid_char ((nextUid ^^ n) u) \<and> uid_number ((nextUid ^^ n) u) = uid_number u + n"
  by (induction n) (auto dest: nextUid_counts)

text \<open>
  \<open>nextUid\<close> counts: as numbers with the digits \<open>0\<close> to \<open>Z\<close>, which stand for 1 to 36, the identifiers are consecutive. So
  no identifier is ever issued twice.
\<close>

theorem nextUid_never_repeats:
  "uid_number ((nextUid ^^ n) first_uid) = uid_number first_uid + n \<and> inj (\<lambda>n. (nextUid ^^ n) first_uid)"
proof -
  have ok: "list_all is_uid_char first_uid" by (simp add: first_uid_def is_uid_char_def)
  have "inj (\<lambda>n. (nextUid ^^ n) first_uid)"
  proof (rule injI)
    fix i j
    assume "(nextUid ^^ i) first_uid = (nextUid ^^ j) first_uid"
    then have "uid_number ((nextUid ^^ i) first_uid) = uid_number ((nextUid ^^ j) first_uid)" by simp
    then show "i = j" using uid_steps [OF ok] by simp
  qed
  with uid_steps [OF ok] show ?thesis by simp
qed

section \<open>Tables of objects\<close>

text \<open>Entries that are set or removed, one after the other.\<close>

fun map_updates :: "('k \<times> 'v option) list \<Rightarrow> ('k \<rightharpoonup> 'v) \<Rightarrow> ('k \<rightharpoonup> 'v)" where
  "map_updates [] m = m"
| "map_updates ((k, v) # es) m = map_updates es (m(k := v))"

lemma map_updates_at: "f j = g j \<Longrightarrow> map_updates es f j = map_updates es g j"
proof (induction es arbitrary: f g)
  case (Cons e es)
  obtain k v where "e = (k, v)" by fastforce
  then show ?case using Cons.IH [of "f(k := v)" "g(k := v)"] Cons.prems by (simp del: fun_upd_apply add: fun_upd_def)
qed simp

text \<open>
  The contract of a table: what a lookup returns after an entry was put or removed. \<open>ok\<close> are the keys that may be used.
\<close>

locale object_table =
  fixes inv :: "'s \<Rightarrow> bool"
    and ok :: "'k \<Rightarrow> bool"
    and look :: "'k \<Rightarrow> 's \<Rightarrow> 'v option"
    and put :: "'k \<Rightarrow> 'v \<Rightarrow> 's \<Rightarrow> 's"
    and del :: "'k \<Rightarrow> 's \<Rightarrow> 's"
  assumes inv_put: "inv s \<Longrightarrow> ok k \<Longrightarrow> inv (put k v s)"
    and inv_del: "inv s \<Longrightarrow> ok k \<Longrightarrow> inv (del k s)"
    and look_put: "inv s \<Longrightarrow> ok k \<Longrightarrow> ok j \<Longrightarrow> look j (put k v s) = (if j = k then Some v else look j s)"
    and look_del: "inv s \<Longrightarrow> ok k \<Longrightarrow> ok j \<Longrightarrow> look j (del k s) = (if j = k then None else look j s)"
begin

definition upd :: "'k \<times> 'v option \<Rightarrow> 's \<Rightarrow> 's" where
  "upd e s = (case e of (k, Some v) \<Rightarrow> put k v s | (k, None) \<Rightarrow> del k s)"

lemma look_upd: "inv s \<Longrightarrow> ok k \<Longrightarrow> ok j \<Longrightarrow> look j (upd (k, v) s) = (if j = k then v else look j s)"
  by (cases v) (simp_all add: upd_def look_put look_del)

lemma inv_upd: "inv s \<Longrightarrow> ok k \<Longrightarrow> inv (upd (k, v) s)"
  by (cases v) (simp_all add: upd_def inv_put inv_del)

lemma look_fold:
  assumes "inv s" "\<forall>e \<in> set es. ok (fst e)" "ok j"
  shows "look j (fold upd es s) = map_updates es (\<lambda>j. look j s) j"
  using assms
proof (induction es arbitrary: s)
  case (Cons e es)
  obtain k v where e: "e = (k, v)" by fastforce
  have "look j (upd e s) = ((\<lambda>j. look j s)(k := v)) j" using Cons.prems by (simp add: e look_upd)
  then have "map_updates es (\<lambda>j. look j (upd e s)) j = map_updates es ((\<lambda>j. look j s)(k := v)) j" by (rule map_updates_at)
  moreover have "inv (upd e s)" using Cons.prems by (simp add: e inv_upd)
  ultimately show ?case using Cons.IH [of "upd e s"] Cons.prems by (simp add: e)
qed simp

end

text \<open>Keys: the types that \<open>typeof\<close> returns; an object is of type \<open>object\<close> or \<open>function\<close>, a primitive value is not, except \<open>null\<close>.\<close>

fun arg_ok :: "(nat \<Rightarrow> string) \<Rightarrow> hash_arg \<Rightarrow> bool" where
  "arg_ok ty (Primitive t x) \<longleftrightarrow> t \<in> {''string'', ''number'', ''boolean'', ''undefined''} \<or> t = ''object'' \<and> x = ''null''"
| "arg_ok ty (Reference t r) \<longleftrightarrow> t = ty r \<and> t \<in> {''object'', ''function''}"

text \<open>The heap: keys are identifiers that were issued, a different one for each object.\<close>

definition heap_ok :: "hash_heap \<Rightarrow> bool" where
  "heap_ok h \<longleftrightarrow> list_all is_uid_char (hh_uid h) \<and>
     (\<forall>r key. hh_keys h r = Some key \<longrightarrow> list_all is_uid_char key \<and> uid_number key \<le> uid_number (hh_uid h)) \<and> inj_on (hh_keys h) (dom (hh_keys h))"

fun key_of :: "hash_heap \<Rightarrow> hash_arg \<Rightarrow> string option" where
  "key_of h (Primitive t x) = Some (t @ '':'' @ x)"
| "key_of h (Reference t r) = map_option (\<lambda>key. t @ '':'' @ key) (hh_keys h r)"

definition table_ok :: "(nat \<Rightarrow> string) \<Rightarrow> 'v hash_map \<times> hash_heap \<Rightarrow> bool" where
  "table_ok ty s \<longleftrightarrow> heap_ok (snd s) \<and> hm_own (fst s) = None \<and>
     (\<forall>key v. hm_entries (fst s) key = Some v \<longrightarrow> (\<exists>k. arg_ok ty k \<and> key_of (snd s) k = Some key))"

lemma takeWhile_colon: "CHR '':'' \<notin> set t \<Longrightarrow> takeWhile (\<lambda>c. c \<noteq> CHR '':'') (t @ '':'' @ x) = t"
  by (induction t) auto

lemma type_split:
  assumes "t @ '':'' @ x = t' @ '':'' @ y" "CHR '':'' \<notin> set t" "CHR '':'' \<notin> set t'"
  shows "t = t' \<and> x = y"
  using takeWhile_colon [OF assms(2), of x] takeWhile_colon [OF assms(3), of y] assms(1) by simp

lemma type_chars: "arg_ok ty (Primitive t x) \<Longrightarrow> CHR '':'' \<notin> set t" "arg_ok ty (Reference t r) \<Longrightarrow> CHR '':'' \<notin> set t"
  by auto

lemma not_uid_null: "list_all is_uid_char ''null'' = False"
  by (simp add: is_uid_char_def)

text \<open>Different keys are stored under different names.\<close>

lemma key_of_inj:
  assumes "heap_ok h" "arg_ok ty j" "arg_ok ty k" "key_of h j = Some key" "key_of h k = Some key"
  shows "j = k"
proof -
  have uid: "list_all is_uid_char x" if "hh_keys h r = Some x" for r x using assms(1) that by (simp add: heap_ok_def)
  have inj: "r = r'" if "hh_keys h r = Some x" "hh_keys h r' = Some x" for r r' x
    using assms(1) that by (auto simp: heap_ok_def inj_on_def dom_def)
  show ?thesis
  proof (cases j)
    case (Primitive t x)
    show ?thesis
    proof (cases k)
      case k: (Primitive t' y)
      from type_split [of t x t' y] assms(2-5) Primitive k type_chars show ?thesis by auto
    next
      case k: (Reference t' r)
      then obtain y where y: "hh_keys h r = Some y" "t @ '':'' @ x = t' @ '':'' @ y" using assms(4,5) Primitive by auto
      have "t = t'" "x = y" using type_split [OF y(2)] type_chars assms(2,3) Primitive k by auto
      then show ?thesis using uid [OF y(1)] assms(2,3) Primitive k not_uid_null by auto
    qed
  next
    case (Reference t r)
    then obtain x where x: "hh_keys h r = Some x" "key = t @ '':'' @ x" using assms(4) by auto
    show ?thesis
    proof (cases k)
      case k: (Primitive t' y)
      then have *: "t @ '':'' @ x = t' @ '':'' @ y" using assms(5) x by simp
      have "t = t'" "x = y" using type_split [OF *] type_chars assms(2,3) Reference k by auto
      then show ?thesis using uid [OF x(1)] assms(2,3) Reference k not_uid_null by auto
    next
      case k: (Reference t' r')
      then obtain y where y: "hh_keys h r' = Some y" "t @ '':'' @ x = t' @ '':'' @ y" using assms(5) x by auto
      have "t = t'" "x = y" using type_split [OF y(2)] type_chars assms(2,3) Reference k by auto
      then show ?thesis using inj x y Reference k by auto
    qed
  qed
qed

text \<open>Asking for the key of an object: what it has already, or the next identifier.\<close>

lemma hashKey_spec:
  assumes "heap_ok h" "hashKey k None h = (key, own, h')"
  shows "own = None" "heap_ok h'" "key_of h' k = Some key" "\<And>j x. key_of h j = Some x \<Longrightarrow> key_of h' j = Some x"
    "\<And>j. j \<noteq> k \<Longrightarrow> arg_ok ty j \<Longrightarrow> arg_ok ty k \<Longrightarrow> key_of h j = None \<Longrightarrow> key_of h' j = None"
proof -
  have new: "list_all is_uid_char (nextUid (hh_uid h))" "uid_number (nextUid (hh_uid h)) = uid_number (hh_uid h) + 1"
    using assms(1) nextUid_counts by (auto simp: heap_ok_def)
  have fresh: "heap_ok (h\<lparr>hh_keys := (hh_keys h)(r \<mapsto> nextUid (hh_uid h)), hh_uid := nextUid (hh_uid h)\<rparr>)" for r
  proof -
    have "hh_keys h x \<noteq> Some (nextUid (hh_uid h))" for x using assms(1) new(2) by (fastforce simp: heap_ok_def)
    then show ?thesis using assms(1) new by (auto simp: heap_ok_def inj_on_def le_SucI)
  qed
  show "own = None" "heap_ok h'" "key_of h' k = Some key" using assms fresh
    by (cases k; auto split: option.splits simp: Let_def)+
  show "key_of h j = Some x \<Longrightarrow> key_of h' j = Some x" for j x
    using assms(2) by (cases k; cases j) (auto split: option.splits simp: Let_def)
  show "j \<noteq> k \<Longrightarrow> arg_ok ty j \<Longrightarrow> arg_ok ty k \<Longrightarrow> key_of h j = None \<Longrightarrow> key_of h' j = None" for j
    using assms(2) by (cases k; cases j) (auto split: option.splits simp: Let_def)
qed

lemma table_ok_key:
  assumes "table_ok ty (m, h)" "hashKey k (hm_own m) h = (key, own, h')"
  shows "own = None" "heap_ok h'" "key_of h' k = Some key"
    "\<And>x v. hm_entries m x = Some v \<Longrightarrow> \<exists>j. arg_ok ty j \<and> key_of h j = Some x \<and> key_of h' j = Some x"
proof -
  have h: "heap_ok h" "hashKey k None h = (key, own, h')" using assms by (simp_all add: table_ok_def)
  show "own = None" "heap_ok h'" "key_of h' k = Some key" by (rule hashKey_spec(1-3) [OF h])+
  show "\<exists>j. arg_ok ty j \<and> key_of h j = Some x \<and> key_of h' j = Some x" if x: "hm_entries m x = Some v" for x v
  proof -
    obtain j where "arg_ok ty j" "key_of h j = Some x" using assms(1) x by (auto simp: table_ok_def)
    with hashKey_spec(4) [OF h] show ?thesis by blast
  qed
qed

text \<open>The value of a key is that under its name, if it has one.\<close>

lemma look_is:
  assumes "table_ok ty (m, h)" "arg_ok ty k"
  shows "fst (hm_get k (m, h)) = Option.bind (key_of h k) (hm_entries m)"
proof -
  obtain key own h' where k: "hashKey k (hm_own m) h = (key, own, h')" by (metis prod_cases3)
  note t = table_ok_key [OF assms(1) k]
  show ?thesis
  proof (cases "key_of h k")
    case None
    have "hm_entries m key = None"
    proof (rule ccontr)
      assume "hm_entries m key \<noteq> None"
      then obtain j where j: "arg_ok ty j" "key_of h j = Some key" "key_of h' j = Some key" using t(4) by blast
      have "j = k" by (rule key_of_inj [OF t(2) j(1) assms(2) j(3) t(3)])
      with j(2) None show False by simp
    qed
    with None k show ?thesis by (simp add: hm_get_def)
  next
    case (Some x)
    have "x = key" using assms(1) k hashKey_spec(4) [of h k key own h', OF _ _ Some] t(3) by (simp add: table_ok_def)
    with Some k show ?thesis by (simp add: hm_get_def)
  qed
qed

lemma table_step:
  assumes "table_ok ty (m, h)" "arg_ok ty k" "hashKey k (hm_own m) h = (key, own, h')"
  shows "table_ok ty (m\<lparr>hm_entries := (hm_entries m)(key := v), hm_own := own\<rparr>, h')"
proof -
  note t = table_ok_key [OF assms(1,3)]
  have "\<exists>j. arg_ok ty j \<and> key_of h' j = Some x" if "((hm_entries m)(key := v)) x = Some w" for x w
    using that t(3,4) assms(2) by (cases "x = key") (auto split: if_splits)
  with t(1,2) show ?thesis by (auto simp: table_ok_def)
qed

lemma look_step:
  assumes "table_ok ty (m, h)" "arg_ok ty k" "arg_ok ty j" "hashKey k (hm_own m) h = (key, own, h')"
  shows "fst (hm_get j (m\<lparr>hm_entries := (hm_entries m)(key := v), hm_own := own\<rparr>, h')) = (if j = k then v else fst (hm_get j (m, h)))"
proof -
  note t = table_ok_key [OF assms(1,4)]
  have h: "heap_ok h" "hashKey k None h = (key, own, h')" using assms(1,4) by (simp_all add: table_ok_def)
  have l: "fst (hm_get j (m\<lparr>hm_entries := (hm_entries m)(key := v), hm_own := own\<rparr>, h')) = Option.bind (key_of h' j) ((hm_entries m)(key := v))"
    using look_is [OF table_step [OF assms(1,2,4)] assms(3)] by simp
  show ?thesis
  proof (cases "j = k")
    case False
    have "key_of h' j \<noteq> Some key" using key_of_inj [OF t(2) assms(3,2) _ t(3)] False by blast
    moreover have "key_of h' j = key_of h j"
      using hashKey_spec(4) [OF h, of j] hashKey_spec(5) [OF h False assms(3,2)] by (cases "key_of h j") auto
    ultimately show ?thesis using False l look_is [OF assms(1,3)] by (cases "key_of h j") auto
  qed (use l t(3) in simp)
qed

interpretation hash_table: object_table "table_ok ty" "arg_ok ty" "\<lambda>k s. fst (hm_get k s)" hm_put "\<lambda>k s. snd (hm_remove k s)" for ty
proof
  fix s :: "'a hash_map \<times> hash_heap" and k j v
  assume s: "table_ok ty s" and k: "arg_ok ty k"
  obtain m h where mh: "s = (m, h)" by fastforce
  obtain key own h' where key: "hashKey k (hm_own m) h = (key, own, h')" by (metis prod_cases3)
  show "table_ok ty (hm_put k v s)" "table_ok ty (snd (hm_remove k s))"
    using table_step [OF s [unfolded mh] k key] by (simp_all add: hm_put_def hm_remove_def mh key)
  assume j: "arg_ok ty j"
  show "fst (hm_get j (hm_put k v s)) = (if j = k then Some v else fst (hm_get j s))"
    "fst (hm_get j (snd (hm_remove k s))) = (if j = k then None else fst (hm_get j s))"
    using look_step [OF s [unfolded mh] k j key] by (simp_all add: hm_put_def hm_remove_def mh key)
qed

definition hm_update :: "hash_arg \<times> 'v option \<Rightarrow> 'v hash_map \<times> hash_heap \<Rightarrow> 'v hash_map \<times> hash_heap" where
  "hm_update e s = (case e of (k, Some v) \<Rightarrow> hm_put k v s | (k, None) \<Rightarrow> snd (hm_remove k s))"

text \<open>
  A \<open>HashMap\<close> that takes its identifiers from \<open>nextUid\<close> is a finite map whose keys are values and objects: after any sequence of entries that are put and removed
  a lookup returns the last value that was put under that very object or value and not removed since.
\<close>

theorem hash_map_is_map:
  assumes "heap_ok h" "\<forall>e \<in> set es. arg_ok ty (fst e)" "arg_ok ty k"
  shows "fst (hm_get k (fold hm_update es (new_hash_map False, h))) = map_updates es Map.empty k"
proof -
  have ok: "table_ok ty (new_hash_map False, h)" using assms(1) by (simp add: table_ok_def new_hash_map_def)
  have upd: "hash_table.upd = hm_update"
    by (simp add: hash_table.upd_def hm_update_def fun_eq_iff)
  have "fst (hm_get k (new_hash_map False, h)) = Map.empty k"
    using look_is [OF ok assms(3)] by (simp add: new_hash_map_def split: Option.bind_splits)
  then have "map_updates es (\<lambda>j. fst (hm_get j (new_hash_map False, h))) k = map_updates es Map.empty k" by (rule map_updates_at)
  with hash_table.look_fold [OF ok assms(2,3)] show ?thesis by (simp add: upd)
qed

theorem hash_map_is_map_witness:
  "fst (hm_get (Reference ''object'' 1) (fold hm_update
     [(Reference ''object'' 1, Some (5 :: int)), (Primitive ''number'' ''1'', Some 6)] (new_hash_map False, \<lparr>hh_keys = Map.empty, hh_uid = first_uid\<rparr>))) = Some 5"
  using hash_map_is_map [of "\<lparr>hh_keys = Map.empty, hh_uid = first_uid\<rparr>" "[(Reference ''object'' 1, Some (5 :: int)), (Primitive ''number'' ''1'', Some 6)]"
    "\<lambda>_. ''object''" "Reference ''object'' 1"]
  by (simp add: heap_ok_def first_uid_def is_uid_char_def)

text \<open>
  Tables with a counter of their own write their numbers into the objects, where other tables find them: after two objects were put into two
  such tables, the first table has an entry for the second object, which was never put there. The injector keeps the modules it has
  loaded in such a table, so that a module that is a function may be taken for loaded in an injector that was created later.
\<close>

theorem isolated_tables_collide:
  assumes "hh_keys h = Map.empty" "r \<noteq> s"
  shows "let (a, h1) = hm_put (Reference ''function'' r) x (new_hash_map True, h); (b, h2) = hm_put (Reference ''function'' s) y (new_hash_map True, h1)
    in fst (hm_get (Reference ''function'' s) (a, h2)) = Some x"
  using assms by (simp add: hm_put_def hm_get_def new_hash_map_def Let_def)

end
