(* ===== verification/Angular_Registry.thy ===== *)
theory Angular_Registry
  imports Angular_Cache
begin

text \<open>
  The registry of \<open>$cacheFactory\<close>: caches by name, their destruction and the information about them. A cache object that was destroyed
  can still be held by the application; it is named by the number of its creation.
\<close>

section \<open>Definitions\<close>

text \<open>
  A cache object. \<open>destroy\<close> sets \<open>data\<close> and \<open>lruHash\<close> (\<open>co_live\<close>) and \<open>stats\<close> (\<open>co_stats\<close>) to \<open>null\<close>; the options that
  \<open>stats\<close> holds apart from the name are left out.
\<close>

record 'v cache_obj =
  co_id :: string
  co_cache :: "'v cache"
  co_live :: bool
  co_stats :: bool

record 'v factory =
  fa_caches :: "string \<rightharpoonup> nat"
  fa_objs :: "'v cache_obj list"

definition new_factory :: "'v factory" where
  "new_factory = \<lparr>fa_caches = Map.empty, fa_objs = []\<rparr>"

definition cacheFactory :: "string \<Rightarrow> nat option \<Rightarrow> 'v factory \<Rightarrow> (nat \<times> 'v factory) result" where
  "cacheFactory cacheId capacity fa =
     (if fa_caches fa cacheId \<noteq> None then Inl (JsError ''[$cacheFactory:iid]'')
      else (let n = length (fa_objs fa)
            in Inr (n, \<lparr>fa_caches = (fa_caches fa)(cacheId \<mapsto> n),
                  fa_objs = fa_objs fa @ [\<lparr>co_id = cacheId, co_cache = new_cache capacity, co_live = True, co_stats = True\<rparr>]\<rparr>)))"

definition factory_get :: "string \<Rightarrow> 'v factory \<Rightarrow> nat option" where
  "factory_get cacheId fa = fa_caches fa cacheId"

definition upd_obj :: "nat \<Rightarrow> ('v cache_obj \<Rightarrow> 'v cache_obj) \<Rightarrow> 'v factory \<Rightarrow> 'v factory" where
  "upd_obj n f fa = fa\<lparr>fa_objs := (fa_objs fa)[n := f (fa_objs fa ! n)]\<rparr>"

text \<open>Reading a property of \<open>null\<close> throws. Putting \<open>undefined\<close> into a cache without capacity returns before it reads.\<close>

definition obj_put :: "nat \<Rightarrow> string \<Rightarrow> 'v option \<Rightarrow> 'v factory \<Rightarrow> 'v factory result" where
  "obj_put n k v fa =
     (let c = fa_objs fa ! n in
      if co_live c then Inr (upd_obj n (\<lambda>c. c\<lparr>co_cache := cache_put k v (co_cache c)\<rparr>) fa)
      else if ch_capacity (co_cache c) = None \<and> v = None then Inr fa else Inl TypeError)"

definition obj_get :: "nat \<Rightarrow> string \<Rightarrow> 'v factory \<Rightarrow> ('v option \<times> 'v factory) result" where
  "obj_get n k fa =
     (let c = fa_objs fa ! n in
      if co_live c then (case cache_get k (co_cache c) of (ch, v) \<Rightarrow> Inr (v, upd_obj n (\<lambda>c. c\<lparr>co_cache := ch\<rparr>) fa)) else Inl TypeError)"

definition obj_remove :: "nat \<Rightarrow> string \<Rightarrow> 'v factory \<Rightarrow> 'v factory result" where
  "obj_remove n k fa =
     (if co_live (fa_objs fa ! n) then Inr (upd_obj n (\<lambda>c. c\<lparr>co_cache := cache_remove k (co_cache c)\<rparr>) fa) else Inl TypeError)"

definition obj_removeAll :: "nat \<Rightarrow> 'v factory \<Rightarrow> 'v factory" where
  "obj_removeAll n fa = upd_obj n (\<lambda>c. c\<lparr>co_cache := cache_removeAll (co_cache c), co_live := True\<rparr>) fa"

definition obj_destroy :: "nat \<Rightarrow> 'v factory \<Rightarrow> 'v factory" where
  "obj_destroy n fa =
     (let fa = upd_obj n (\<lambda>c. c\<lparr>co_live := False, co_stats := False\<rparr>) fa
      in fa\<lparr>fa_caches := (fa_caches fa)(co_id (fa_objs fa ! n) := None)\<rparr>)"

text \<open>\<open>info\<close>: the name, which is missing after \<open>destroy\<close>, and the size.\<close>

definition obj_info :: "nat \<Rightarrow> 'v factory \<Rightarrow> string option \<times> int" where
  "obj_info n fa = (let c = fa_objs fa ! n in (if co_stats c then Some (co_id c) else None, ch_size (co_cache c)))"

definition factory_info :: "'v factory \<Rightarrow> string \<rightharpoonup> string option \<times> int" where
  "factory_info fa = (\<lambda>cacheId. map_option (\<lambda>n. obj_info n fa) (fa_caches fa cacheId))"

section \<open>Properties\<close>

datatype 'v factory_op = Create string "nat option" | OPut nat string "'v option" | OGet nat string | ORemove nat string | OClear nat | ODestroy nat

text \<open>An operation on an object that exists; an exception leaves the state as it is.\<close>

fun factory_run :: "'v factory_op \<Rightarrow> 'v factory \<Rightarrow> 'v factory" where
  "factory_run (Create i c) fa = (case cacheFactory i c fa of Inl e \<Rightarrow> fa | Inr (_, fa) \<Rightarrow> fa)"
| "factory_run (OPut n k v) fa = (if n < length (fa_objs fa) then case obj_put n k v fa of Inl e \<Rightarrow> fa | Inr fa \<Rightarrow> fa else fa)"
| "factory_run (OGet n k) fa = (if n < length (fa_objs fa) then case obj_get n k fa of Inl e \<Rightarrow> fa | Inr (_, fa) \<Rightarrow> fa else fa)"
| "factory_run (ORemove n k) fa = (if n < length (fa_objs fa) then case obj_remove n k fa of Inl e \<Rightarrow> fa | Inr fa \<Rightarrow> fa else fa)"
| "factory_run (OClear n) fa = (if n < length (fa_objs fa) then obj_removeAll n fa else fa)"
| "factory_run (ODestroy n) fa = (if n < length (fa_objs fa) then obj_destroy n fa else fa)"

definition factory_ok :: "'v factory \<Rightarrow> bool" where
  "factory_ok fa \<longleftrightarrow> (\<forall>i n. fa_caches fa i = Some n \<longrightarrow> n < length (fa_objs fa) \<and> co_id (fa_objs fa ! n) = i \<and>
     co_live (fa_objs fa ! n) \<and> co_stats (fa_objs fa ! n))"

lemma factory_ok_upd:
  assumes "factory_ok fa" "n < length (fa_objs fa)" "\<And>c. co_id (f c) = co_id c \<and> (co_live c \<longrightarrow> co_live (f c)) \<and> co_stats (f c) = co_stats c"
  shows "factory_ok (upd_obj n f fa)"
  using assms by (auto simp: factory_ok_def upd_obj_def nth_list_update)

lemma factory_ok_destroy: "factory_ok fa \<Longrightarrow> n < length (fa_objs fa) \<Longrightarrow> factory_ok (obj_destroy n fa)"
  by (auto simp: factory_ok_def obj_destroy_def upd_obj_def nth_list_update Let_def)

lemma factory_ok_run: "factory_ok fa \<Longrightarrow> factory_ok (factory_run op fa)"
proof (cases op)
  case (Create i c)
  then show "factory_ok fa \<Longrightarrow> ?thesis" by (auto simp: factory_ok_def cacheFactory_def Let_def nth_append intro: less_SucI split: if_splits)
qed (auto simp: obj_put_def obj_get_def obj_remove_def obj_removeAll_def Let_def split_def factory_ok_destroy intro: factory_ok_upd)

text \<open>
  The registry has only caches that work: whatever is done with caches, a name leads to a cache that was created under that name and has not
  been destroyed, so that its operations do not throw.
\<close>

theorem registry_has_live_caches:
  assumes "factory_get i (fold factory_run ops new_factory) = Some n"
  shows "let fa = fold factory_run ops new_factory
    in obj_info n fa = (Some i, ch_size (co_cache (fa_objs fa ! n))) \<and> (\<exists>fa'. obj_put n k v fa = Inr fa') \<and> (\<exists>x fa'. obj_get n k fa = Inr (x, fa'))"
proof -
  have "factory_ok (fold factory_run ops fa)" if "factory_ok fa" for fa :: "'a factory"
    using that by (induction ops arbitrary: fa) (auto simp: factory_ok_run)
  moreover have "factory_ok new_factory" by (simp add: factory_ok_def new_factory_def)
  ultimately have "factory_ok (fold factory_run ops new_factory)" by blast
  with assms show ?thesis
    by (auto simp: factory_ok_def factory_get_def obj_info_def obj_put_def obj_get_def Let_def split: prod.split)
qed

theorem registry_has_live_caches_witness:
  "let fa = fold factory_run [Create ''a'' (Some 2), OPut 0 ''x'' (Some (1 :: int))] new_factory in obj_info 0 fa = (Some ''a'', ch_size (co_cache (fa_objs fa ! 0)))"
  using registry_has_live_caches [of "''a''" "[Create ''a'' (Some 2), OPut 0 ''x'' (Some (1 :: int))]" 0]
  by (simp add: factory_get_def cacheFactory_def new_factory_def obj_put_def upd_obj_def Let_def)

text \<open>
  Destroying a cache object a second time takes the name away from a cache that was created under it in the meantime: that one
  is not found any more, and the name can be taken again although it still works.
\<close>

theorem destroy_twice_unregisters:
  "let fa = fold factory_run [Create i c, ODestroy 0, Create i c, ODestroy 0] new_factory
   in factory_get i fa = None \<and> co_live (fa_objs fa ! 1)"
  by (simp add: cacheFactory_def new_factory_def obj_destroy_def upd_obj_def factory_get_def Let_def)

end
