(* ===== verification/Angular_Url.thy ===== *)
theory Angular_Url
  imports Js_Prelude
begin

text \<open>
  The parts of URLs in \<open>angular-1.2.21.js\<close>: \<open>encodeUriQuery\<close>, \<open>encodeUriSegment\<close>, \<open>encodePath\<close> and query strings
  (\<open>parseKeyValue\<close>, \<open>toKeyValue\<close>), with \<open>encodeURIComponent\<close> and \<open>decodeURIComponent\<close> of the language. Texts have
  characters up to \<open>U+00FF\<close>; escapes of others count as malformed. The properties of an object are in the order of
  their insertion. The object of a query inherits from \<open>Object.prototype\<close>: a text assigned to its \<open>__proto__\<close> is lost, and
  \<open>forEach\<close> throws when a property of the object takes the place of a method that it calls.
\<close>

section \<open>Escapes\<close>

definition pct :: "nat \<Rightarrow> string" where
  "pct n = [CHR ''%'', hex_char (n div 16), hex_char (n mod 16)]"

text \<open>Letters, digits and \<open>- _ . ! ~ * ' ( )\<close>.\<close>

definition unescaped :: "char \<Rightarrow> bool" where
  "unescaped c \<longleftrightarrow> (let n = of_char c :: nat in
     65 \<le> n \<and> n \<le> 90 \<or> 97 \<le> n \<and> n \<le> 122 \<or> 48 \<le> n \<and> n \<le> 57 \<or> n \<in> {45, 95, 46, 33, 126, 42, 39, 40, 41})"

definition encode_char :: "char \<Rightarrow> string" where
  "encode_char c = (let n = of_char c :: nat in
     if unescaped c then [c] else if n < 128 then pct n else pct (192 + n div 64) @ pct (128 + n mod 64))"

definition encodeURIComponent :: "string \<Rightarrow> string" where
  "encodeURIComponent s = concat (map encode_char s)"

text \<open>The byte of an escape at the beginning of a text, and the rest.\<close>

fun take_pct :: "string \<Rightarrow> (nat \<times> string) option" where
  "take_pct (p # a # b # s) =
     (if p = CHR ''%'' then (case (hex_val a, hex_val b) of (Some x, Some y) \<Rightarrow> Some (16 * x + y, s) | _ \<Rightarrow> None) else None)"
| "take_pct _ = None"

lemma take_pct_shorter: "take_pct s = Some (n, t) \<Longrightarrow> length t < length s"
  by (induction s rule: take_pct.induct) (auto split: if_splits option.splits)

text \<open>\<open>None\<close> is a \<open>URIError\<close>.\<close>

function decodeURIComponent :: "string \<Rightarrow> string option" where
  "decodeURIComponent s =
     (case s of
        [] \<Rightarrow> Some []
      | c # cs \<Rightarrow>
          if c \<noteq> CHR ''%'' then map_option ((#) c) (decodeURIComponent cs)
          else (case take_pct s of
                  None \<Rightarrow> None
                | Some (n, t) \<Rightarrow>
                    if n < 128 then map_option ((#) (char_of n)) (decodeURIComponent t)
                    else if n \<in> {194, 195}
                    then (case take_pct t of
                            None \<Rightarrow> None
                          | Some (m, u) \<Rightarrow>
                              if 128 \<le> m \<and> m < 192 then map_option ((#) (char_of (64 * (n - 192) + (m - 128)))) (decodeURIComponent u)
                              else None)
                    else None))"
  by pat_completeness auto

termination
  by (relation "measure length") (auto dest!: take_pct_shorter)

declare decodeURIComponent.simps [simp del]

definition tryDecodeURIComponent :: "string \<Rightarrow> string option" where
  "tryDecodeURIComponent = decodeURIComponent"

section \<open>Encoding\<close>

text \<open>\<open>s.replace(/p/gi, r)\<close> for a pattern of plain characters; \<open>i\<close> tells whether letters of both cases match.\<close>

definition pattern_at :: "bool \<Rightarrow> string \<Rightarrow> string \<Rightarrow> bool" where
  "pattern_at i p s \<longleftrightarrow> (if i then starts_with (toUpperCase p) (toUpperCase s) else starts_with p s)"

function replace_all :: "bool \<Rightarrow> string \<Rightarrow> string \<Rightarrow> string \<Rightarrow> string" where
  "replace_all i p r s =
     (case s of
        [] \<Rightarrow> []
      | c # cs \<Rightarrow> if p \<noteq> [] \<and> pattern_at i p s then r @ replace_all i p r (drop (length p) s) else c # replace_all i p r cs)"
  by pat_completeness auto

termination
  by (relation "measure (\<lambda>(i, p, r, s). length s)") (auto simp: Suc_le_eq)

declare replace_all.simps [simp del]

definition encodeUriQuery :: "string \<Rightarrow> bool \<Rightarrow> string" where
  "encodeUriQuery val pctEncodeSpaces =
     replace_all False ''%20'' (if pctEncodeSpaces then ''%20'' else ''+'')
       (replace_all True ''%2C'' '',''
         (replace_all False ''%24'' ''$''
           (replace_all True ''%3A'' '':''
             (replace_all True ''%40'' ''@'' (encodeURIComponent val)))))"

definition encodeUriSegment :: "string \<Rightarrow> string" where
  "encodeUriSegment val =
     replace_all True ''%2B'' ''+'' (replace_all True ''%3D'' ''='' (replace_all True ''%26'' ''&'' (encodeUriQuery val True)))"

definition encodePath :: "string \<Rightarrow> string" where
  "encodePath path = join_char (CHR ''/'') (map encodeUriSegment (split_char (CHR ''/'') path))"

section \<open>Query strings\<close>

text \<open>A value: \<open>true\<close>, a text, or \<open>undefined\<close> for a text that could not be decoded; a property has one value or an array of them.\<close>

datatype kval = KTrue | KStr string | KUndef

datatype kentry = KOne kval | KArr "kval list"

text \<open>\<open>obj[key] = val\<close> for a key that \<open>obj\<close> does not have, or has.\<close>

fun set_entry :: "string \<Rightarrow> kentry \<Rightarrow> (string \<times> kentry) list \<Rightarrow> (string \<times> kentry) list" where
  "set_entry k v [] = [(k, v)]"
| "set_entry k v ((j, w) # es) = (if j = k then (k, v) # es else (j, w) # set_entry k v es)"

text \<open>The assignment to \<open>__proto__\<close> calls a setter, which ignores what is not an object.\<close>

definition add_value :: "string \<Rightarrow> kval \<Rightarrow> (string \<times> kentry) list \<Rightarrow> (string \<times> kentry) list" where
  "add_value key val obj =
     (if key = ''__proto__'' then obj else
      case map_of obj key of
        None \<Rightarrow> set_entry key (KOne val) obj
      | Some (KArr vs) \<Rightarrow> set_entry key (KArr (vs @ [val])) obj
      | Some (KOne v) \<Rightarrow> set_entry key (KArr [v, val]) obj)"

definition parse_pair :: "string \<Rightarrow> (string \<times> kentry) list \<Rightarrow> (string \<times> kentry) list" where
  "parse_pair keyValue obj =
     (if keyValue = [] then obj
      else
        (let key_value = split_char (CHR ''='') (replace_all False ''+'' ''%20'' keyValue) in
         case tryDecodeURIComponent (key_value ! 0) of
           None \<Rightarrow> obj
         | Some key \<Rightarrow>
             add_value key
               (if length key_value > 1 then (case tryDecodeURIComponent (key_value ! 1) of None \<Rightarrow> KUndef | Some v \<Rightarrow> KStr v) else KTrue) obj))"

definition parseKeyValue :: "string \<Rightarrow> (string \<times> kentry) list" where
  "parseKeyValue keyValue = fold parse_pair (split_char (CHR ''&'') keyValue) []"

definition kval_text :: "kval \<Rightarrow> string" where
  "kval_text v = (case v of KTrue \<Rightarrow> ''true'' | KStr s \<Rightarrow> s | KUndef \<Rightarrow> ''undefined'')"

definition key_part :: "string \<Rightarrow> kval \<Rightarrow> string" where
  "key_part key v = encodeUriQuery key True @ (if v = KTrue then [] else ''='' @ encodeUriQuery (kval_text v) True)"

definition entry_parts :: "string \<times> kentry \<Rightarrow> string list" where
  "entry_parts e = (case e of (key, KOne v) \<Rightarrow> [key_part key v] | (key, KArr vs) \<Rightarrow> map (key_part key) vs)"

definition query_text :: "(string \<times> kentry) list \<Rightarrow> string" where
  "query_text obj = join_char (CHR ''&'') (concat (map entry_parts obj))"

text \<open>
  \<open>forEach\<close> of an object with properties of these kinds: it calls a property \<open>forEach\<close> whose value counts as true, and the property
  \<open>hasOwnProperty\<close> for every key; neither is a function then.
\<close>

definition truthy_entry :: "kentry \<Rightarrow> bool" where
  "truthy_entry v \<longleftrightarrow> v \<noteq> KOne KUndef \<and> v \<noteq> KOne (KStr [])"

definition iterable :: "(string \<times> kentry) list \<Rightarrow> bool" where
  "iterable obj \<longleftrightarrow> \<not> list_ex (\<lambda>(k, v). k = ''forEach'' \<and> truthy_entry v) obj \<and> \<not> list_ex (\<lambda>(k, v). k = ''hasOwnProperty'') obj"

text \<open>\<open>None\<close> is a \<open>TypeError\<close>.\<close>

definition toKeyValue :: "(string \<times> kentry) list \<Rightarrow> string option" where
  "toKeyValue obj = (if iterable obj then Some (query_text obj) else None)"

section \<open>Encoded texts as sequences of characters and escapes\<close>

datatype utok = Lit char | Esc nat

primrec show_tok :: "utok \<Rightarrow> string" where
  "show_tok (Lit c) = [c]"
| "show_tok (Esc n) = pct n"

definition show_toks :: "utok list \<Rightarrow> string" where
  "show_toks ts = concat (map show_tok ts)"

primrec tok_ok :: "utok \<Rightarrow> bool" where
  "tok_ok (Lit c) \<longleftrightarrow> c \<noteq> CHR ''%''"
| "tok_ok (Esc n) \<longleftrightarrow> n < 256"

lemma show_toks_simps [simp]: "show_toks [] = []" "show_toks (t # ts) = show_tok t @ show_toks ts"
  "show_toks (ts @ us) = show_toks ts @ show_toks us"
  by (simp_all add: show_toks_def)

definition char_toks :: "char \<Rightarrow> utok list" where
  "char_toks c = (let n = of_char c :: nat in
     if unescaped c then [Lit c] else if n < 128 then [Esc n] else [Esc (192 + n div 64), Esc (128 + n mod 64)])"

lemma encode_char_toks: "encode_char c = show_toks (char_toks c)"
  by (simp add: encode_char_def char_toks_def Let_def)

lemma encodeURIComponent_toks: "encodeURIComponent s = show_toks (concat (map char_toks s))"
  by (induction s) (simp_all add: encodeURIComponent_def encode_char_toks)

lemma char_toks_ok: "t \<in> set (char_toks c) \<Longrightarrow> tok_ok t"
proof -
  have "of_char c div 64 < (4 :: nat)" using of_char_lt [of c] by (simp add: less_mult_imp_div_less)
  moreover have "\<not> unescaped (CHR ''%'')" by (simp add: unescaped_def)
  ultimately show "t \<in> set (char_toks c) \<Longrightarrow> ?thesis"
    by (auto simp: char_toks_def Let_def split: if_splits)
qed

text \<open>Hexadecimal digits.\<close>

lemma hex_char_not_pct [simp]: "n < 16 \<Longrightarrow> hex_char n \<noteq> CHR ''%''" "n < 16 \<Longrightarrow> ascii_upper (hex_char n) = hex_char n"
  by (drule hex_cases; auto simp: hex_char_def ascii_upper_def)+

lemma hex_char_inj: "n < 16 \<Longrightarrow> m < 16 \<Longrightarrow> hex_char n = hex_char m \<longleftrightarrow> n = m"
  by (metis hex_val_hex_char option.inject)

lemma take_pct_pct [simp]: "n < 256 \<Longrightarrow> take_pct (pct n @ s) = Some (n, s)"
  by (simp add: pct_def)

text \<open>Replacing an escape by a character.\<close>

definition subst_tok :: "nat \<Rightarrow> char \<Rightarrow> utok \<Rightarrow> utok" where
  "subst_tok n c t = (if t = Esc n then Lit c else t)"

lemma replace_all_Nil [simp]: "replace_all i p r [] = []"
  by (simp add: replace_all.simps)

lemma pattern_at_Cons: "pattern_at i (p # ps) (c # cs) \<longleftrightarrow> (if i then ascii_upper p = ascii_upper c else p = c) \<and> pattern_at i ps cs"
  by (auto simp: pattern_at_def starts_with_def toUpperCase_def)

lemma pattern_at_Nil [simp]: "pattern_at i [] s" "\<not> pattern_at i (p # ps) []"
  by (simp_all add: pattern_at_def starts_with_def toUpperCase_def)

lemma upper_pct: "ascii_upper c = CHR ''%'' \<longleftrightarrow> c = CHR ''%''"
proof
  assume a: "ascii_upper c = CHR ''%''"
  show "c = CHR ''%''"
  proof (cases "97 \<le> (of_char c :: nat) \<and> (of_char c :: nat) \<le> 122")
    case True
    have "(of_char c - 32) mod 256 = (of_char c - 32 :: nat)" using of_char_lt [of c] by (intro mod_less) linarith
    then have "of_char (ascii_upper c) = (of_char c - 32 :: nat)" using True by (simp add: ascii_upper_def Let_def)
    with a have "of_char c - 32 = (37 :: nat)" by simp
    with True show ?thesis by linarith
  qed (use a in \<open>auto simp: ascii_upper_def Let_def split: if_splits\<close>)
qed (simp add: ascii_upper_def)

lemma pattern_skip: "c \<noteq> CHR ''%'' \<Longrightarrow> \<not> pattern_at i (CHR ''%'' # ps) (c # cs)"
proof -
  have "ascii_upper (CHR ''%'') = CHR ''%''" by (simp add: ascii_upper_def)
  then show "c \<noteq> CHR ''%'' \<Longrightarrow> ?thesis" using upper_pct [of c] by (auto simp: pattern_at_Cons)
qed

lemma replace_all_skip: "c \<noteq> CHR ''%'' \<Longrightarrow> replace_all i (CHR ''%'' # ps) r (c # cs) = c # replace_all i (CHR ''%'' # ps) r cs"
  by (subst replace_all.simps) (simp add: pattern_skip)

lemma pattern_pct: "n < 256 \<Longrightarrow> m < 256 \<Longrightarrow> pattern_at i (pct n) (pct m @ s) \<longleftrightarrow> n = m"
proof -
  assume "n < 256" "m < 256"
  then have d: "n div 16 < 16" "m div 16 < 16" "n mod 16 < 16" "m mod 16 < 16" by auto
  have "n = m \<longleftrightarrow> n div 16 = m div 16 \<and> n mod 16 = m mod 16" by (metis div_mult_mod_eq)
  then show ?thesis using d by (auto simp: pct_def pattern_at_Cons hex_char_inj)
qed

lemma replace_toks:
  assumes "n < 256" "c \<noteq> CHR ''%''" "list_all tok_ok ts"
  shows "replace_all i (pct n) [c] (show_toks ts) = show_toks (map (subst_tok n c) ts)"
  using assms(3)
proof (induction ts)
  case (Cons t ts)
  show ?case
  proof (cases t)
    case (Lit d)
    with Cons have "replace_all i (pct n) [c] (show_toks (t # ts)) = d # replace_all i (pct n) [c] (show_toks ts)"
      unfolding pct_def by (simp add: replace_all_skip)
    with Lit Cons show ?thesis by (simp add: subst_tok_def)
  next
    case (Esc m)
    have m: "m < 256" using Cons.prems Esc by simp
    show ?thesis
    proof (cases "m = n")
      case True
      have "replace_all i (pct n) [c] (pct n @ s) = c # replace_all i (pct n) [c] s" for s
        using pattern_pct [OF assms(1) assms(1), of i s] by (subst replace_all.simps) (simp add: pct_def)
      with True Esc Cons show ?thesis by (simp add: subst_tok_def)
    next
      case False
      have "replace_all i (pct n) [c] (pct m @ s) = pct m @ replace_all i (pct n) [c] s" for s
      proof -
        have "\<not> pattern_at i (pct n) (pct m @ s)" using pattern_pct [OF assms(1) m, of i s] False by simp
        moreover have "m div 16 < 16" "m mod 16 < 16" using m by auto
        ultimately show ?thesis by (subst replace_all.simps) (simp add: pct_def replace_all_skip)
      qed
      with False Esc Cons show ?thesis by (simp add: subst_tok_def)
    qed
  qed
qed simp

lemma replace_same: "replace_all False p p s = s"
proof (induction "length s" arbitrary: s rule: less_induct)
  case less
  show ?case
  proof (cases "s = [] \<or> p = [] \<or> \<not> pattern_at False p s")
    case True
    with less show ?thesis by (subst replace_all.simps) (auto split: list.split)
  next
    case False
    then obtain t where t: "s = p @ t" by (metis append_take_drop_id pattern_at_def starts_with_def)
    with False less have "replace_all False p p t = t" by simp
    moreover have "replace_all False p p s = p @ replace_all False p p (drop (length p) s)"
      using False by (subst replace_all.simps) (auto split: list.split)
    ultimately show ?thesis using t by simp
  qed
qed

definition query_sub :: "utok \<Rightarrow> utok" where
  "query_sub = subst_tok 44 (CHR '','') \<circ> subst_tok 36 (CHR ''$'') \<circ> subst_tok 58 (CHR '':'') \<circ> subst_tok 64 (CHR ''@'')"

definition segment_sub :: "utok \<Rightarrow> utok" where
  "segment_sub = subst_tok 43 (CHR ''+'') \<circ> subst_tok 61 (CHR ''='') \<circ> subst_tok 38 (CHR ''&'') \<circ> query_sub"

definition val_toks :: "string \<Rightarrow> utok list" where
  "val_toks s = concat (map char_toks s)"

lemma val_toks_ok: "list_all tok_ok (val_toks s)"
  by (auto simp: list_all_iff val_toks_def intro: char_toks_ok)

lemma subst_tok_ok [simp]: "c \<noteq> CHR ''%'' \<Longrightarrow> list_all tok_ok ts \<Longrightarrow> list_all tok_ok (map (subst_tok n c) ts)"
  by (auto simp: list_all_iff subst_tok_def)

lemma pct_numerals: "''%40'' = pct 64" "''%3A'' = pct 58" "''%24'' = pct 36" "''%2C'' = pct 44" "''%20'' = pct 32"
  "''%26'' = pct 38" "''%3D'' = pct 61" "''%2B'' = pct 43"
  by (simp_all add: pct_def hex_char_def)

lemma encodeUriQuery_toks: "encodeUriQuery s True = show_toks (map query_sub (val_toks s))"
proof -
  have "encodeUriQuery s True = replace_all True (pct 44) [CHR '','']
      (replace_all False (pct 36) [CHR ''$''] (replace_all True (pct 58) [CHR '':''] (replace_all True (pct 64) [CHR ''@''] (show_toks (val_toks s)))))"
    by (simp only: encodeUriQuery_def if_True replace_same encodeURIComponent_toks pct_numerals val_toks_def)
  also have "\<dots> = show_toks (map query_sub (val_toks s))"
    by (simp add: replace_toks val_toks_ok del: map_map) (simp add: query_sub_def comp_assoc)
  finally show ?thesis .
qed

lemma encodeUriSegment_toks: "encodeUriSegment s = show_toks (map segment_sub (val_toks s))"
proof -
  have ok: "list_all tok_ok (map query_sub (val_toks s))"
    unfolding query_sub_def by (simp only: map_map [symmetric]) (simp add: val_toks_ok del: map_map)
  have "encodeUriSegment s = replace_all True (pct 43) [CHR ''+''] (replace_all True (pct 61) [CHR ''='']
      (replace_all True (pct 38) [CHR ''&''] (show_toks (map query_sub (val_toks s)))))"
    by (simp only: encodeUriSegment_def encodeUriQuery_toks pct_numerals)
  also have "\<dots> = show_toks (map segment_sub (val_toks s))"
    using ok by (simp add: replace_toks del: map_map) (simp add: segment_sub_def comp_assoc)
  finally show ?thesis .
qed

section \<open>Decoding\<close>

lemma decode_Nil [simp]: "decodeURIComponent [] = Some []"
  by (simp add: decodeURIComponent.simps)

lemma decode_plain [simp]: "c \<noteq> CHR ''%'' \<Longrightarrow> decodeURIComponent (c # s) = map_option ((#) c) (decodeURIComponent s)"
  by (subst decodeURIComponent.simps) simp

lemma decode_pct_low: "n < 128 \<Longrightarrow> decodeURIComponent (pct n @ s) = map_option ((#) (char_of n)) (decodeURIComponent s)"
  using take_pct_pct [of n s] by (subst decodeURIComponent.simps) (simp add: pct_def)

lemma decode_pct_high:
  assumes "n < 64" "k < 2"
  shows "decodeURIComponent (pct (194 + k) @ pct (128 + n) @ s) = map_option ((#) (char_of (128 + 64 * k + n))) (decodeURIComponent s)"
  using take_pct_pct [of "194 + k" "pct (128 + n) @ s"] take_pct_pct [of "128 + n" s] assms
  by (subst decodeURIComponent.simps) (cases k; simp add: pct_def)

text \<open>A substitution that writes some of the escapes of single characters as these characters.\<close>

definition writes_self :: "(utok \<Rightarrow> utok) \<Rightarrow> bool" where
  "writes_self f \<longleftrightarrow> (\<forall>c. f (Lit c) = Lit c) \<and> (\<forall>n < 128. f (Esc n) = Esc n \<or> f (Esc n) = Lit (char_of n) \<and> n \<noteq> 37) \<and> (\<forall>n \<ge> 128. f (Esc n) = Esc n)"

lemma decode_char_toks:
  assumes "writes_self f"
  shows "decodeURIComponent (show_toks (map f (char_toks c)) @ s) = map_option ((#) c) (decodeURIComponent s)"
proof -
  define n where "n = (of_char c :: nat)"
  have c: "c = char_of n" and n: "n < 256" by (simp_all add: n_def)
  have u: "\<not> unescaped (CHR ''%'')" by (simp add: unescaped_def)
  show ?thesis
  proof (cases "unescaped c")
    case True
    with u have "c \<noteq> CHR ''%''" by auto
    with True assms show ?thesis by (simp add: char_toks_def writes_self_def)
  next
    case False
    show ?thesis
    proof (cases "n < 128")
      case True
      have p: "c = CHR ''%'' \<Longrightarrow> n = 37" by (simp add: n_def)
      have "f (Esc n) = Esc n \<or> f (Esc n) = Lit (char_of n) \<and> n \<noteq> 37" using True assms by (simp add: writes_self_def)
      then have "f (Esc n) = Esc n \<or> f (Esc n) = Lit c \<and> c \<noteq> CHR ''%''" using p c by metis
      with True False show ?thesis using c by (auto simp: char_toks_def decode_pct_low simp flip: n_def)
    next
      case False2: False
      define k where "k = n div 64 - 2"
      have "2 \<le> n div 64" "n div 64 < 4" using False2 n by (simp_all add: less_mult_imp_div_less div_greater_zero_iff less_eq_div_iff_mult_less_eq)
      then have k: "n div 64 = 2 + k" "k < 2" unfolding k_def by linarith+
      have m: "128 + 64 * k + n mod 64 = n" using k(1) div_mult_mod_eq [of n 64] by simp
      have "char_toks c = [Esc (194 + k), Esc (128 + n mod 64)]"
        using False False2 k(1) by (simp add: char_toks_def flip: n_def)
      then have "map f (char_toks c) = [Esc (194 + k), Esc (128 + n mod 64)]" using assms by (simp add: writes_self_def)
      then show ?thesis using decode_pct_high [OF _ k(2), of "n mod 64" s] m c by simp
    qed
  qed
qed

lemma decode_val_toks: "writes_self f \<Longrightarrow> decodeURIComponent (show_toks (map f (val_toks s))) = Some s"
  by (induction s) (simp_all add: val_toks_def decode_char_toks)

lemma char_codes: "char_of (64 :: nat) = CHR ''@''" "char_of (58 :: nat) = CHR '':''" "char_of (36 :: nat) = CHR ''$''"
  "char_of (44 :: nat) = CHR '',''" "char_of (38 :: nat) = CHR ''&''" "char_of (61 :: nat) = CHR ''=''" "char_of (43 :: nat) = CHR ''+''"
  by (simp_all add: char_of_def bit_Suc_0_iff)

lemma subs_write_self: "writes_self query_sub" "writes_self segment_sub"
  by (simp_all add: writes_self_def query_sub_def segment_sub_def subst_tok_def char_codes)

lemma decode_query: "decodeURIComponent (encodeUriQuery s True) = Some s"
  by (simp add: encodeUriQuery_toks decode_val_toks subs_write_self)

lemma decode_segment: "decodeURIComponent (encodeUriSegment s) = Some s"
  by (simp add: encodeUriSegment_toks decode_val_toks subs_write_self)

section \<open>Query strings round trip\<close>

text \<open>The characters of an encoded query part.\<close>

definition query_chars :: "char \<Rightarrow> bool" where
  "query_chars c \<longleftrightarrow> unescaped c \<or> c \<in> {CHR ''@'', CHR '':'', CHR ''$'', CHR '','', CHR ''%''} \<or> c \<in> hex_char ` {..<16}"

lemma show_query_tok: "t \<in> set (char_toks c) \<Longrightarrow> x \<in> set (show_tok (query_sub t)) \<Longrightarrow> query_chars x"
proof -
  assume t: "t \<in> set (char_toks c)" and x: "x \<in> set (show_tok (query_sub t))"
  show ?thesis
  proof (cases t)
    case (Lit d)
    with t x show ?thesis by (auto simp: char_toks_def query_sub_def subst_tok_def query_chars_def Let_def split: if_splits)
  next
    case (Esc n)
    then have "n < 256" using char_toks_ok [OF t] by simp
    then have "n div 16 < 16" "n mod 16 < 16" by auto
    with Esc x show ?thesis by (auto simp: query_sub_def subst_tok_def query_chars_def pct_def split: if_splits)
  qed
qed

lemma encodeUriQuery_chars: "x \<in> set (encodeUriQuery s True) \<Longrightarrow> query_chars x"
  by (auto simp: encodeUriQuery_toks show_toks_def val_toks_def dest: show_query_tok)

lemma not_query_chars [simp]: "\<not> query_chars (CHR ''&'')" "\<not> query_chars (CHR ''='')" "\<not> query_chars (CHR ''+'')"
  "\<not> query_chars (CHR ''#'')" "\<not> query_chars (CHR ''?'')" "\<not> query_chars (CHR ''/'')"
  by (auto simp: query_chars_def unescaped_def hex_char_def lessThan_Suc numeral_eq_Suc)

lemma split_char_free: "d \<notin> set s \<Longrightarrow> split_char d s = [s]"
  by (induction s) auto

lemma split_char_append: "d \<notin> set s \<Longrightarrow> split_char d (s @ d # t) = s # split_char d t"
  by (induction s) auto

lemma split_join: "xs \<noteq> [] \<Longrightarrow> (\<And>x. x \<in> set xs \<Longrightarrow> d \<notin> set x) \<Longrightarrow> split_char d (join_char d xs) = xs"
  by (induction d xs rule: join_char.induct) (simp_all add: split_char_free split_char_append)

lemma replace_absent: "c \<notin> set s \<Longrightarrow> replace_all False [c] r s = s"
  by (induction s) (auto simp: replace_all.simps [of _ _ _ "_ # _"] pattern_at_Cons)

text \<open>The values that a query string can carry for a key, and the objects.\<close>

definition val_ok :: "string \<Rightarrow> kval \<Rightarrow> bool" where
  "val_ok key v \<longleftrightarrow> v \<noteq> KUndef \<and> (key = [] \<longrightarrow> v \<noteq> KTrue)"

fun entry_ok :: "string \<times> kentry \<Rightarrow> bool" where
  "entry_ok (key, KOne v) \<longleftrightarrow> val_ok key v"
| "entry_ok (key, KArr vs) \<longleftrightarrow> 2 \<le> length vs \<and> list_all (val_ok key) vs"

definition query_ok :: "(string \<times> kentry) list \<Rightarrow> bool" where
  "query_ok obj \<longleftrightarrow> distinct (map fst obj) \<and> list_all entry_ok obj \<and> iterable obj \<and> ''__proto__'' \<notin> set (map fst obj)"

lemma key_part_free: "c \<in> {CHR ''&'', CHR ''+'', CHR ''#''} \<Longrightarrow> c \<notin> set (key_part k v)"
  by (auto simp: key_part_def dest!: encodeUriQuery_chars)

lemma encodeUriQuery_empty: "encodeUriQuery s True = [] \<longleftrightarrow> s = []"
  by (metis decode_Nil decode_query encodeUriQuery_toks list.map(1) option.inject show_toks_simps(1) val_toks_def concat.simps(1))

lemma parse_key_part: "val_ok k v \<Longrightarrow> parse_pair (key_part k v) obj = add_value k v obj"
proof -
  assume ok: "val_ok k v"
  then have ne: "key_part k v \<noteq> []" by (auto simp: val_ok_def key_part_def encodeUriQuery_empty)
  have r: "replace_all False ''+'' ''%20'' (key_part k v) = key_part k v" by (intro replace_absent key_part_free) simp
  have e: "CHR ''='' \<notin> set (encodeUriQuery s True)" for s by (auto dest: encodeUriQuery_chars)
  show ?thesis
    using ok ne r e
    by (cases v) (simp_all add: parse_pair_def key_part_def split_char_free split_char_append tryDecodeURIComponent_def
        decode_query kval_text_def val_ok_def)
qed

lemma set_entry_new: "k \<notin> fst ` set obj \<Longrightarrow> set_entry k v obj = obj @ [(k, v)]"
  by (induction obj) auto

lemma set_entry_last: "k \<notin> fst ` set obj \<Longrightarrow> set_entry k v (obj @ [(k, w)]) = obj @ [(k, v)]"
  by (induction obj) auto

lemma add_value_new: "k \<noteq> ''__proto__'' \<Longrightarrow> k \<notin> fst ` set obj \<Longrightarrow> add_value k v obj = obj @ [(k, KOne v)]"
  by (simp add: add_value_def set_entry_new map_of_eq_None_iff [THEN iffD2])

lemma add_value_again:
  "k \<noteq> ''__proto__'' \<Longrightarrow> k \<notin> fst ` set obj \<Longrightarrow> add_value k v (obj @ [(k, KOne w)]) = obj @ [(k, KArr [w, v])]"
  "k \<noteq> ''__proto__'' \<Longrightarrow> k \<notin> fst ` set obj \<Longrightarrow> add_value k v (obj @ [(k, KArr ws)]) = obj @ [(k, KArr (ws @ [v]))]"
  by (simp_all add: add_value_def set_entry_last map_add_def map_of_eq_None_iff [THEN iffD2])

lemma add_values_more:
  "k \<noteq> ''__proto__'' \<Longrightarrow> k \<notin> fst ` set obj \<Longrightarrow> fold (add_value k) vs (obj @ [(k, KArr ws)]) = obj @ [(k, KArr (ws @ vs))]"
  by (induction vs arbitrary: ws) (simp_all add: add_value_again)

lemma fold_entry:
  assumes "entry_ok e" "fst e \<notin> fst ` set obj" "fst e \<noteq> ''__proto__''"
  shows "fold parse_pair (entry_parts e) obj = obj @ [e]"
proof (cases e)
  case (Pair k w)
  have parse: "list_all (val_ok k) vs \<Longrightarrow> fold parse_pair (map (key_part k) vs) obj' = fold (add_value k) vs obj'" for vs obj'
    by (induction vs arbitrary: obj') (simp_all add: parse_key_part)
  show ?thesis
  proof (cases w)
    case (KOne v)
    with assms Pair show ?thesis by (simp add: entry_parts_def parse_key_part add_value_new)
  next
    case (KArr vs)
    with assms Pair obtain a b us where vs: "vs = a # b # us" by (auto simp: Suc_le_length_iff numeral_eq_Suc)
    with assms Pair KArr show ?thesis
      by (simp add: entry_parts_def parse_key_part add_value_new add_value_again parse add_values_more)
  qed
qed

lemma fold_entries:
  "list_all entry_ok es \<Longrightarrow> distinct (map fst (obj @ es)) \<Longrightarrow> ''__proto__'' \<notin> fst ` set es \<Longrightarrow> fold parse_pair (concat (map entry_parts es)) obj = obj @ es"
  by (induction es arbitrary: obj) (auto simp: fold_entry)

lemma entry_parts_free: "x \<in> set (entry_parts e) \<Longrightarrow> CHR ''&'' \<notin> set x"
  by (cases e; cases "snd e") (auto simp: entry_parts_def key_part_free)

lemma parse_query_text: "query_ok obj \<Longrightarrow> parseKeyValue (query_text obj) = obj"
proof (cases "concat (map entry_parts obj) = []")
  case True
  assume "query_ok obj"
  with True have "obj = []" by (cases obj rule: list.exhaust) (auto simp: query_ok_def entry_parts_def split: kentry.splits prod.splits)
  then show ?thesis by (simp add: query_text_def parseKeyValue_def parse_pair_def)
next
  case False
  assume ok: "query_ok obj"
  have "split_char (CHR ''&'') (query_text obj) = concat (map entry_parts obj)"
    unfolding query_text_def using False
    by (rule split_join) (auto simp: entry_parts_free)
  with ok show ?thesis by (simp add: parseKeyValue_def query_ok_def fold_entries)
qed

lemma toKeyValue_reads: "query_ok obj \<Longrightarrow> \<exists>t. toKeyValue obj = Some t \<and> parseKeyValue t = obj"
  by (simp add: toKeyValue_def parse_query_text) (simp add: query_ok_def)

text \<open>
  C32. A query string carries an object: for an object whose keys are distinct, whose values are texts or \<open>true\<close> (the empty key
  has texts only) and whose arrays have two values at least, \<open>toKeyValue\<close> writes a text from which \<open>parseKeyValue\<close> reads the
  same object, values and arrays in the same order, whatever reserved characters the texts have. The keys \<open>__proto__\<close> and
  \<open>hasOwnProperty\<close>, and \<open>forEach\<close> with another value than the empty text, are excepted: the first is lost, the others make
  \<open>toKeyValue\<close> throw.
\<close>

theorem query_round_trip: "query_ok obj \<Longrightarrow> \<exists>t. toKeyValue obj = Some t \<and> parseKeyValue t = obj"
  by (rule toKeyValue_reads)

theorem query_round_trip_witness:
  "let obj = [(''a&b'', KOne (KStr ''1=2 +'')), (''c'', KArr [KTrue, KStr [], KStr ''#'']), ([], KOne (KStr ''/''))] in
     query_ok obj \<and> (\<exists>t. toKeyValue obj = Some t \<and> parseKeyValue t = obj)"
proof -
  have "query_ok [(''a&b'', KOne (KStr ''1=2 +'')), (''c'', KArr [KTrue, KStr [], KStr ''#'']), ([], KOne (KStr ''/''))]"
    by (simp add: query_ok_def val_ok_def iterable_def)
  then show ?thesis unfolding Let_def using query_round_trip by blast
qed

text \<open>The keys that are excepted: a query string may have them, but it is not read back or cannot be written again.\<close>

lemma forEach_key_throws: "toKeyValue (parseKeyValue ''forEach=x&a=b'') = None" "toKeyValue (parseKeyValue ''hasOwnProperty'') = None"
  "parseKeyValue ''__proto__=x&a=b'' = [(''a'', KOne (KStr ''b''))]" "toKeyValue (parseKeyValue ''forEach='') = Some ''forEach=''"
  by code_simp+

section \<open>Encoded paths\<close>

definition segment_chars :: "char \<Rightarrow> bool" where
  "segment_chars c \<longleftrightarrow> query_chars c \<or> c \<in> {CHR ''&'', CHR ''='', CHR ''+''}"

lemma show_segment_tok: "t \<in> set (char_toks c) \<Longrightarrow> x \<in> set (show_tok (segment_sub t)) \<Longrightarrow> segment_chars x"
  using show_query_tok [of t c x]
  by (cases "query_sub t") (auto simp: segment_sub_def subst_tok_def segment_chars_def split: if_splits)

lemma encodeUriSegment_chars: "x \<in> set (encodeUriSegment s) \<Longrightarrow> segment_chars x"
  by (auto simp: encodeUriSegment_toks show_toks_def val_toks_def dest: show_segment_tok)

lemma not_segment_chars [simp]: "\<not> segment_chars (CHR ''#'')" "\<not> segment_chars (CHR ''?'')" "\<not> segment_chars (CHR ''/'')"
  by (simp_all add: segment_chars_def)

lemma decode_val_toks_append:
  "writes_self f \<Longrightarrow> decodeURIComponent (show_toks (map f (val_toks s)) @ t) = map_option ((@) s) (decodeURIComponent t)"
proof (induction s)
  case (Cons c s)
  have "map_option ((#) c) (map_option ((@) s) r) = map_option (\<lambda>a. c # s @ a) r" for r by (cases r) simp_all
  with Cons show ?case by (simp add: val_toks_def decode_char_toks)
qed (simp add: val_toks_def option.map_ident_strong)

lemma decode_segment_append: "decodeURIComponent (encodeUriSegment s @ t) = map_option ((@) s) (decodeURIComponent t)"
  by (simp add: encodeUriSegment_toks decode_val_toks_append subs_write_self)

lemma decode_segments: "decodeURIComponent (join_char (CHR ''/'') (map encodeUriSegment ss)) = Some (join_char (CHR ''/'') ss)"
proof (induction ss)
  case (Cons s ss)
  then show ?case by (cases ss) (simp_all add: decode_segment decode_segment_append)
qed simp

lemma decode_path: "decodeURIComponent (encodePath path) = Some path"
  by (simp add: encodePath_def decode_segments join_split)

lemma encodePath_chars: "list_all (\<lambda>c. segment_chars c \<or> c = CHR ''/'') (encodePath path)"
proof -
  have "list_all (\<lambda>c. segment_chars c \<or> c = CHR ''/'') (join_char (CHR ''/'') (map encodeUriSegment ss))" for ss
  proof (induction ss)
    case (Cons s ss)
    then show ?case by (cases ss) (auto simp: list_all_iff dest: encodeUriSegment_chars)
  qed simp
  then show ?thesis by (simp add: encodePath_def)
qed

text \<open>
  A path is written so that it can be read back: \<open>decodeURIComponent\<close> of what \<open>encodePath\<close> writes is the path, and what is
  written has letters, digits, slashes and the characters that a path of a URL may have, so neither \<open>?\<close> nor \<open>#\<close>.
\<close>

theorem path_round_trip:
  "decodeURIComponent (encodePath path) = Some path \<and> list_all (\<lambda>c. segment_chars c \<or> c = CHR ''/'') (encodePath path)"
  by (simp add: decode_path encodePath_chars)

end
