(* ===== verification/Angular_Location.thy ===== *)
theory Angular_Location
  imports Angular_Url
begin

text \<open>
  The \<open>$location\<close> object of \<open>angular-1.2.21.js\<close>: its three forms (\<open>LocationHtml5Url\<close>, \<open>LocationHashbangUrl\<close>,
  \<open>LocationHashbangInHtml5Url\<close>) with \<open>$$parse\<close>, \<open>$$compose\<close> and \<open>$$rewrite\<close>, its setters, and \<open>urlResolve\<close> over the anchor
  element of the browser, which is a parameter. A method that throws gives the object as it has become, with the error.
\<close>

section \<open>The anchor of the browser\<close>

record anchor =
  a_href :: string
  a_protocol :: string
  a_host :: string
  a_search :: string
  a_hash :: string
  a_hostname :: string
  a_port :: string
  a_pathname :: string

text \<open>What the anchor reads after its \<open>href\<close> has been set to a text.\<close>

type_synonym parsing_node = "string \<Rightarrow> anchor"

text \<open>\<open>s.replace(/^c/, '')\<close> and \<open>s.replace(/c$/, '')\<close>\<close>

definition drop_first :: "char \<Rightarrow> string \<Rightarrow> string" where
  "drop_first c s = (case s of [] \<Rightarrow> [] | d # t \<Rightarrow> if d = c then t else s)"

definition drop_last :: "char \<Rightarrow> string \<Rightarrow> string" where
  "drop_last c s = (if s \<noteq> [] \<and> last s = c then butlast s else s)"

definition first_is :: "char \<Rightarrow> string \<Rightarrow> bool" where
  "first_is c s \<longleftrightarrow> s \<noteq> [] \<and> hd s = c"

definition urlResolve :: "bool \<Rightarrow> parsing_node \<Rightarrow> string \<Rightarrow> anchor" where
  "urlResolve msie node url =
     (let a = node (if msie then a_href (node url) else url) in
      \<lparr>a_href = a_href a,
       a_protocol = drop_last (CHR '':'') (a_protocol a),
       a_host = a_host a,
       a_search = drop_first (CHR ''?'') (a_search a),
       a_hash = drop_first (CHR ''#'') (a_hash a),
       a_hostname = a_hostname a,
       a_port = a_port a,
       a_pathname = (if first_is (CHR ''/'') (a_pathname a) then a_pathname a else CHR ''/'' # a_pathname a)\<rparr>)"

definition urlIsSameOrigin :: "bool \<Rightarrow> parsing_node \<Rightarrow> string \<Rightarrow> string \<Rightarrow> bool" where
  "urlIsSameOrigin msie node window_href requestUrl =
     (let originUrl = urlResolve msie node window_href; parsed = urlResolve msie node requestUrl in
      a_protocol parsed = a_protocol originUrl \<and> a_host parsed = a_host originUrl)"

section \<open>The object\<close>

datatype lmode = Html5Url | HashbangUrl | HashbangInHtml5Url

record location =
  l_mode :: lmode
  l_appBase :: string
  l_prefix :: string
  l_protocol :: string
  l_host :: string
  l_port :: "nat option"
  l_path :: string
  l_search :: "(string \<times> kentry) list"
  l_hash :: string
  l_url :: string
  l_absUrl :: string
  l_replace :: bool

text \<open>The last one is the \<open>TypeError\<close> of \<open>forEach\<close> over an object that hides the methods it needs.\<close>

datatype loc_error = Ipthprfx | Ihshprfx | Isrcharg | URIError | LTypeError | ForEachTypeError

type_synonym loc_result = "location \<times> loc_error option"

definition and_then :: "loc_result \<Rightarrow> (location \<Rightarrow> loc_result) \<Rightarrow> loc_result" where
  "and_then r f = (case r of (l, None) \<Rightarrow> f l | (l, Some e) \<Rightarrow> (l, Some e))"

text \<open>\<open>int(port) || DEFAULT_PORTS[protocol] || null\<close>\<close>

definition default_port :: "string \<Rightarrow> nat option" where
  "default_port protocol =
     (if protocol = ''http'' then Some 80 else if protocol = ''https'' then Some 443 else if protocol = ''ftp'' then Some 21 else None)"

definition port_number :: "string \<Rightarrow> string \<Rightarrow> nat option" where
  "port_number port protocol =
     (let n = digits_val (takeWhile is_digit port) in if n \<noteq> 0 then Some n else default_port protocol)"

definition parseAbsoluteUrl :: "bool \<Rightarrow> parsing_node \<Rightarrow> string \<Rightarrow> location \<Rightarrow> location" where
  "parseAbsoluteUrl msie node absoluteUrl l =
     (let parsedUrl = urlResolve msie node absoluteUrl in
      l\<lparr>l_protocol := a_protocol parsedUrl, l_host := a_hostname parsedUrl,
        l_port := port_number (a_port parsedUrl) (a_protocol parsedUrl)\<rparr>)"

definition parseAppUrl :: "bool \<Rightarrow> parsing_node \<Rightarrow> string \<Rightarrow> location \<Rightarrow> loc_result" where
  "parseAppUrl msie node relativeUrl l =
     (let prefixed = (\<not> first_is (CHR ''/'') relativeUrl);
          m = urlResolve msie node (if prefixed then CHR ''/'' # relativeUrl else relativeUrl)
      in case decodeURIComponent (if prefixed \<and> first_is (CHR ''/'') (a_pathname m) then tl (a_pathname m) else a_pathname m) of
           None \<Rightarrow> (l, Some URIError)
         | Some path \<Rightarrow>
             (let l = l\<lparr>l_path := path, l_search := parseKeyValue (a_search m)\<rparr> in
              case decodeURIComponent (a_hash m) of
                None \<Rightarrow> (l, Some URIError)
              | Some hash \<Rightarrow>
                  (l\<lparr>l_hash := hash, l_path := (if path \<noteq> [] \<and> \<not> first_is (CHR ''/'') path then CHR ''/'' # path else path)\<rparr>, None)))"

definition beginsWith :: "string \<Rightarrow> string \<Rightarrow> string option" where
  "beginsWith begin whole = (if starts_with begin whole then Some (drop (length begin) whole) else None)"

definition stripHash :: "string \<Rightarrow> string" where
  "stripHash url = (case index_of ''#'' url of None \<Rightarrow> url | Some index \<Rightarrow> take index url)"

text \<open>\<open>s.lastIndexOf(c) + 1\<close>, which is 0 when there is none.\<close>

definition last_index1 :: "char \<Rightarrow> string \<Rightarrow> nat" where
  "last_index1 c s = length (dropWhile (\<lambda>d. d \<noteq> c) (rev s))"

definition stripFile :: "string \<Rightarrow> string" where
  "stripFile url = take (last_index1 (CHR ''/'') (stripHash url)) url"

definition serverBase :: "string \<Rightarrow> string" where
  "serverBase url =
     (let from = (case index_of ''//'' url of None \<Rightarrow> 1 | Some i \<Rightarrow> i + 2) in
      case index_of ''/'' (drop from url) of None \<Rightarrow> [] | Some j \<Rightarrow> take (from + j) url)"

section \<open>Composing\<close>

definition url_text :: "string \<Rightarrow> location \<Rightarrow> string" where
  "url_text search l =
     (let hash = (if l_hash l \<noteq> [] then ''#'' @ encodeUriSegment (l_hash l) else [])
      in encodePath (l_path l) @ (if search \<noteq> [] then ''?'' @ search else []) @ hash)"

text \<open>\<open>$$compose\<close> of the three forms; in the first the URL always begins with a slash.\<close>

definition compose_html5 :: "location \<Rightarrow> loc_result" where
  "compose_html5 l =
     (case toKeyValue (l_search l) of
        None \<Rightarrow> (l, Some ForEachTypeError)
      | Some search \<Rightarrow> (let url = url_text search l in (l\<lparr>l_url := url, l_absUrl := stripFile (l_appBase l) @ drop 1 url\<rparr>, None)))"

definition compose_hashbang :: "location \<Rightarrow> loc_result" where
  "compose_hashbang l =
     (case toKeyValue (l_search l) of
        None \<Rightarrow> (l, Some ForEachTypeError)
      | Some search \<Rightarrow>
          (let url = url_text search l in (l\<lparr>l_url := url, l_absUrl := l_appBase l @ (if url \<noteq> [] then l_prefix l @ url else [])\<rparr>, None)))"

definition compose_hashbang_in_html5 :: "location \<Rightarrow> loc_result" where
  "compose_hashbang_in_html5 l =
     (case toKeyValue (l_search l) of
        None \<Rightarrow> (l, Some ForEachTypeError)
      | Some search \<Rightarrow> (let url = url_text search l in (l\<lparr>l_url := url, l_absUrl := l_appBase l @ l_prefix l @ url\<rparr>, None)))"

definition compose :: "location \<Rightarrow> loc_result" where
  "compose l = (case l_mode l of
     Html5Url \<Rightarrow> compose_html5 l | HashbangUrl \<Rightarrow> compose_hashbang l | HashbangInHtml5Url \<Rightarrow> compose_hashbang_in_html5 l)"

text \<open>The text of a location and the location with it, for a search that can be iterated.\<close>

definition loc_text :: "location \<Rightarrow> string" where
  "loc_text l = url_text (query_text (l_search l)) l"

definition composed :: "location \<Rightarrow> location" where
  "composed l =
     (let url = loc_text l;
          absUrl = (case l_mode l of
                      Html5Url \<Rightarrow> stripFile (l_appBase l) @ drop 1 url
                    | HashbangUrl \<Rightarrow> l_appBase l @ (if url \<noteq> [] then l_prefix l @ url else [])
                    | HashbangInHtml5Url \<Rightarrow> l_appBase l @ l_prefix l @ url)
      in l\<lparr>l_url := url, l_absUrl := absUrl\<rparr>)"

lemma compose_eq: "compose l = (if iterable (l_search l) then (composed l, None) else (l, Some ForEachTypeError))"
  by (cases "l_mode l")
    (simp_all add: compose_def compose_html5_def compose_hashbang_def compose_hashbang_in_html5_def composed_def loc_text_def toKeyValue_def Let_def)

section \<open>Parsing\<close>

text \<open>\<open>/^\/[A-Z]:(\/.*)/.exec(s)[1]\<close>; the dot stops at the end of a line.\<close>

definition windows_path :: "string \<Rightarrow> string option" where
  "windows_path s =
     (case s of
        a # c # b # d # t \<Rightarrow>
          if a = CHR ''/'' \<and> 65 \<le> (of_char c :: nat) \<and> (of_char c :: nat) \<le> 90 \<and> b = CHR '':'' \<and> d = CHR ''/''
          then Some (d # takeWhile (\<lambda>x. (of_char x :: nat) \<notin> {10, 13}) t) else None
      | _ \<Rightarrow> None)"

definition removeWindowsDriveName :: "string \<Rightarrow> string \<Rightarrow> string \<Rightarrow> string" where
  "removeWindowsDriveName path url base =
     (let url = (if starts_with base url then replace_first base [] url else url) in
      if windows_path url \<noteq> None then path
      else (case windows_path path of Some p \<Rightarrow> p | None \<Rightarrow> path))"

definition parse_html5 :: "bool \<Rightarrow> parsing_node \<Rightarrow> string \<Rightarrow> location \<Rightarrow> loc_result" where
  "parse_html5 msie node url l =
     (case beginsWith (stripFile (l_appBase l)) url of
        None \<Rightarrow> (l, Some Ipthprfx)
      | Some pathUrl \<Rightarrow>
          and_then (parseAppUrl msie node pathUrl l)
            (\<lambda>l. compose (if l_path l = [] then l\<lparr>l_path := ''/''\<rparr> else l)))"

definition parse_hashbang :: "bool \<Rightarrow> parsing_node \<Rightarrow> string \<Rightarrow> location \<Rightarrow> loc_result" where
  "parse_hashbang msie node url l =
     (case (case beginsWith (l_appBase l) url of
              Some (c # cs) \<Rightarrow> Some (c # cs)
            | _ \<Rightarrow> beginsWith (stripFile (l_appBase l)) url) of
        None \<Rightarrow> (l, Some LTypeError)
      | Some withoutBaseUrl \<Rightarrow>
          (case (if first_is (CHR ''#'') withoutBaseUrl then beginsWith (l_prefix l) withoutBaseUrl
                 else if l_mode l = HashbangInHtml5Url then Some withoutBaseUrl else Some []) of
             None \<Rightarrow> (l, Some Ihshprfx)
           | Some withoutHashUrl \<Rightarrow>
               and_then (parseAppUrl msie node withoutHashUrl l)
                 (\<lambda>l. compose (l\<lparr>l_path := removeWindowsDriveName (l_path l) withoutHashUrl (l_appBase l)\<rparr>))))"

definition parse :: "bool \<Rightarrow> parsing_node \<Rightarrow> string \<Rightarrow> location \<Rightarrow> loc_result" where
  "parse msie node url l = (if l_mode l = Html5Url then parse_html5 msie node url l else parse_hashbang msie node url l)"

section \<open>Links\<close>

definition rewrite_html5 :: "string \<Rightarrow> location \<Rightarrow> string option" where
  "rewrite_html5 url l =
     (let appBase = l_appBase l; appBaseNoFile = stripFile appBase in
      case beginsWith appBase url of
        Some prevAppUrl \<Rightarrow>
          (case beginsWith (l_prefix l) prevAppUrl of
             Some appUrl \<Rightarrow> Some (appBaseNoFile @ (case beginsWith ''/'' appUrl of Some (c # cs) \<Rightarrow> c # cs | _ \<Rightarrow> appUrl))
           | None \<Rightarrow> Some (appBase @ prevAppUrl))
      | None \<Rightarrow>
          (case beginsWith appBaseNoFile url of
             Some appUrl \<Rightarrow> Some (appBaseNoFile @ appUrl)
           | None \<Rightarrow> if appBaseNoFile = url @ ''/'' then Some appBaseNoFile else None))"

definition rewrite_hashbang :: "string \<Rightarrow> location \<Rightarrow> string option" where
  "rewrite_hashbang url l = (if stripHash (l_appBase l) = stripHash url then Some url else None)"

definition rewrite_hashbang_in_html5 :: "string \<Rightarrow> location \<Rightarrow> string option" where
  "rewrite_hashbang_in_html5 url l =
     (let appBase = l_appBase l; appBaseNoFile = stripFile appBase in
      if appBase = stripHash url then Some url
      else (case beginsWith appBaseNoFile url of
              Some (c # cs) \<Rightarrow> Some (appBase @ l_prefix l @ c # cs)
            | _ \<Rightarrow> if appBaseNoFile = url @ ''/'' then Some appBaseNoFile else None))"

definition rewrite :: "string \<Rightarrow> location \<Rightarrow> string option" where
  "rewrite url l = (case l_mode l of
     Html5Url \<Rightarrow> rewrite_html5 url l | HashbangUrl \<Rightarrow> rewrite_hashbang url l
   | HashbangInHtml5Url \<Rightarrow> rewrite_hashbang_in_html5 url l)"

section \<open>Setters\<close>

definition set_path :: "string \<Rightarrow> location \<Rightarrow> loc_result" where
  "set_path path l = compose (l\<lparr>l_path := (if first_is (CHR ''/'') path then path else CHR ''/'' # path)\<rparr>)"

definition set_hash :: "string \<Rightarrow> location \<Rightarrow> loc_result" where
  "set_hash hash l = compose (l\<lparr>l_hash := hash\<rparr>)"

text \<open>The arguments of \<open>search\<close>: a text, an object (with \<open>None\<close> for \<open>null\<close>), a name with a value, or something else.\<close>

datatype search_arg = SText string | SObject "(string \<times> kentry option) list" | SParam string "kentry option" | SOther

text \<open>\<open>value == null\<close>\<close>

definition nullish :: "kentry option \<Rightarrow> bool" where
  "nullish v \<longleftrightarrow> v = None \<or> v = Some (KOne KUndef)"

text \<open>
  \<open>forEach\<close> of an object that is given, where \<open>null\<close> and \<open>undefined\<close> are values, too. An array for the name \<open>__proto__\<close> would
  become the prototype of the search, which is left out; other values for it are lost.
\<close>

definition iterable_arg :: "(string \<times> kentry option) list \<Rightarrow> bool" where
  "iterable_arg obj \<longleftrightarrow> iterable (map (\<lambda>(k, v). (k, case v of None \<Rightarrow> KOne KUndef | Some w \<Rightarrow> w)) obj)"

definition set_search :: "search_arg \<Rightarrow> location \<Rightarrow> loc_result" where
  "set_search arg l =
     (case arg of
        SText search \<Rightarrow> compose (l\<lparr>l_search := parseKeyValue search\<rparr>)
      | SObject obj \<Rightarrow>
          if iterable_arg obj then compose (l\<lparr>l_search := map (\<lambda>(k, v). (k, the v)) (filter (\<lambda>(k, v). \<not> nullish v) obj)\<rparr>)
          else (l, Some ForEachTypeError)
      | SParam key paramValue \<Rightarrow>
          compose (l\<lparr>l_search := (if nullish paramValue then filter (\<lambda>(k, v). k \<noteq> key) (l_search l)
                                  else if key = ''__proto__'' then l_search l
                                  else set_entry key (the paramValue) (l_search l))\<rparr>)
      | SOther \<Rightarrow> (l, Some Isrcharg))"

text \<open>
  \<open>PATH_MATCH.exec(url)\<close> with \<open>/^([^\?#]*)(\?([^#]*))?(#(.*))?$/\<close>: the path, the text after the question mark if there is one,
  and the text after the hash if there is one; no match when that has an end of line.
\<close>

definition path_match :: "string \<Rightarrow> (string \<times> string option \<times> string option) option" where
  "path_match url =
     (let path = takeWhile (\<lambda>c. c \<notin> {CHR ''?'', CHR ''#''}) url;
          rest = drop (length path) url;
          query = (if first_is (CHR ''?'') rest then Some (takeWhile (\<lambda>c. c \<noteq> CHR ''#'') (tl rest)) else None);
          rest2 = (case query of None \<Rightarrow> rest | Some q \<Rightarrow> drop (length q) (tl rest));
          hash = (if rest2 = [] then None else Some (tl rest2))
      in if hash \<noteq> None \<and> (\<exists>c \<in> set (the hash). (of_char c :: nat) \<in> {10, 13}) then None else Some (path, query, hash))"

definition set_url :: "string \<Rightarrow> location \<Rightarrow> loc_result" where
  "set_url url l =
     (case path_match url of
        None \<Rightarrow> (l, Some LTypeError)
      | Some (path, query, hash) \<Rightarrow>
          and_then
            (if path \<noteq> [] then (case decodeURIComponent path of None \<Rightarrow> (l, Some URIError) | Some p \<Rightarrow> set_path p l)
             else (l, None))
            (\<lambda>l. and_then (if query \<noteq> None \<or> path \<noteq> [] then set_search (SText (case query of None \<Rightarrow> [] | Some q \<Rightarrow> q)) l else (l, None))
                   (set_hash (case hash of None \<Rightarrow> [] | Some h \<Rightarrow> h))))"

definition set_replace :: "location \<Rightarrow> location" where
  "set_replace l = l\<lparr>l_replace := True\<rparr>"

section \<open>Construction\<close>

definition new_location :: "bool \<Rightarrow> parsing_node \<Rightarrow> lmode \<Rightarrow> string \<Rightarrow> string \<Rightarrow> location" where
  "new_location msie node mode appBase prefix =
     parseAbsoluteUrl msie node appBase
       \<lparr>l_mode = mode, l_appBase = appBase, l_prefix = prefix, l_protocol = [], l_host = [], l_port = None,
        l_path = [], l_search = [], l_hash = [], l_url = [], l_absUrl = [], l_replace = False\<rparr>"

definition choose_mode :: "bool \<Rightarrow> bool \<Rightarrow> lmode" where
  "choose_mode html5Mode history =
     (if html5Mode then (if history then Html5Url else HashbangInHtml5Url) else HashbangUrl)"

definition app_base :: "bool \<Rightarrow> string \<Rightarrow> string \<Rightarrow> string" where
  "app_base html5Mode baseHref initialUrl =
     (if html5Mode then serverBase initialUrl @ (if baseHref \<noteq> [] then baseHref else ''/'') else stripHash initialUrl)"

definition init_location :: "bool \<Rightarrow> parsing_node \<Rightarrow> bool \<Rightarrow> bool \<Rightarrow> string \<Rightarrow> string \<Rightarrow> string \<Rightarrow> loc_result" where
  "init_location msie node html5Mode history hashPrefix baseHref initialUrl =
     (let l = new_location msie node (choose_mode html5Mode history) (app_base html5Mode baseHref initialUrl) (CHR ''#'' # hashPrefix) in
      case rewrite initialUrl l of None \<Rightarrow> (l, Some LTypeError) | Some url \<Rightarrow> parse msie node url l)"

section \<open>What is relied on of the anchor\<close>

definition opt_part :: "char \<Rightarrow> string \<Rightarrow> string" where
  "opt_part c s = (if s = [] then [] else c # s)"

text \<open>
  The segments that the URL standard takes out of a path: a dot or two, each of them maybe written as an escape with a small or a
  capital letter.
\<close>

definition dot_segments :: "string list" where
  "dot_segments = [''.'', ''%2e'', ''%2E'', ''..'', ''.%2e'', ''.%2E'', ''%2e.'', ''%2E.'', ''%2e%2e'', ''%2e%2E'', ''%2E%2e'', ''%2E%2E'']"

text \<open>A path of characters that need no further escape, not the beginning of a host, without such segments.\<close>

definition plain_path :: "string \<Rightarrow> bool" where
  "plain_path p \<longleftrightarrow> list_all (\<lambda>c. segment_chars c \<or> c = CHR ''/'') p \<and> first_is (CHR ''/'') p \<and> \<not> starts_with ''//'' p
     \<and> set dot_segments \<inter> set (split_char (CHR ''/'') p) = {}"

text \<open>The apostrophe is left out, as browsers write it as an escape.\<close>

definition plain_query :: "string \<Rightarrow> bool" where
  "plain_query s \<longleftrightarrow> list_all (\<lambda>c. query_chars c \<or> c \<in> {CHR ''&'', CHR ''=''}) s \<and> char_of (39 :: nat) \<notin> set s"

definition has_parts :: "string \<Rightarrow> string \<Rightarrow> string \<Rightarrow> anchor \<Rightarrow> bool" where
  "has_parts p s h a \<longleftrightarrow> a_pathname a = p \<and> a_search a = opt_part (CHR ''?'') s \<and> a_hash a = opt_part (CHR ''#'') h"

text \<open>
  The URL standard on a reference with a path from the root, on a page of \<open>http\<close> or \<open>https\<close>: the anchor shows its parts, and so it does
  for its own \<open>href\<close>.
\<close>

definition splits_urls :: "parsing_node \<Rightarrow> bool" where
  "splits_urls node \<longleftrightarrow>
     (\<forall>p s h. plain_path p \<longrightarrow> plain_query s \<longrightarrow> list_all segment_chars h \<longrightarrow>
        (let a = node (p @ opt_part (CHR ''?'') s @ opt_part (CHR ''#'') h) in has_parts p s h a \<and> has_parts p s h (node (a_href a))))"

section \<open>Parsing what was composed\<close>

definition path_ok :: "string \<Rightarrow> bool" where
  "path_ok p \<longleftrightarrow> first_is (CHR ''/'') p \<and> \<not> starts_with ''//'' p
     \<and> ''.'' \<notin> set (split_char (CHR ''/'') p) \<and> ''..'' \<notin> set (split_char (CHR ''/'') p)"

definition search_ok :: "(string \<times> kentry) list \<Rightarrow> bool" where
  "search_ok search \<longleftrightarrow> query_ok search \<and> char_of (39 :: nat) \<notin> set (query_text search)"

definition base_ok :: "location \<Rightarrow> bool" where
  "base_ok l \<longleftrightarrow> l_appBase l \<noteq> [] \<and> unescaped (hd (l_appBase l)) \<and> CHR ''#'' \<notin> set (l_appBase l) \<and> first_is (CHR ''#'') (l_prefix l)"

definition loc_ok :: "location \<Rightarrow> bool" where
  "loc_ok l \<longleftrightarrow> base_ok l \<and> search_ok (l_search l) \<and> (path_ok (l_path l) \<or> l_path l = [] \<and> l_mode l \<noteq> Html5Url)"

lemma first_is_Cons [simp]: "first_is c (d # s) \<longleftrightarrow> d = c" "\<not> first_is c []"
  by (auto simp: first_is_def)

lemma starts_with_append [simp]: "starts_with p (p @ s)"
  by (simp add: starts_with_def)

lemma beginsWith_append [simp]: "beginsWith p (p @ s) = Some s"
  by (simp add: beginsWith_def)

lemma encodeUriSegment_empty [simp]: "encodeUriSegment [] = []"
  by (simp add: encodeUriSegment_toks val_toks_def)

lemma encodePath_slash: "encodePath (CHR ''/'' # q) = CHR ''/'' # encodePath q"
  by (cases "split_char (CHR ''/'') q") (simp_all add: encodePath_def)

lemma encodePath_Nil [simp]: "encodePath [] = []"
  by (simp add: encodePath_def)

lemma split_encodePath: "split_char (CHR ''/'') (encodePath p) = map encodeUriSegment (split_char (CHR ''/'') p)"
  unfolding encodePath_def by (rule split_join) (auto dest: encodeUriSegment_chars)

lemma encodePath_first: "first_is (CHR ''/'') (encodePath p) \<longleftrightarrow> first_is (CHR ''/'') p"
proof (cases "p = [] \<or> first_is (CHR ''/'') p")
  case True
  then show ?thesis by (cases p) (auto simp: encodePath_slash)
next
  case False
  then obtain c q where p: "p = c # q" "c \<noteq> CHR ''/''" by (cases p) auto
  then obtain x xs where x: "split_char (CHR ''/'') p = x # xs" "x \<noteq> []"
    by (cases "split_char (CHR ''/'') q") auto
  moreover from x have "encodeUriSegment x \<noteq> []" using decode_segment [of x] by force
  ultimately have "first_is (CHR ''/'') (encodePath p) \<Longrightarrow> CHR ''/'' \<in> set (encodeUriSegment x)"
    by (cases xs; cases "encodeUriSegment x") (auto simp: encodePath_def)
  moreover have "CHR ''/'' \<notin> set (encodeUriSegment x)" using encodeUriSegment_chars not_segment_chars(3) by blast
  ultimately show ?thesis using False by blast
qed

lemma segment_dots: "encodeUriSegment x \<in> set dot_segments \<Longrightarrow> x \<in> {''.'', ''..''}"
proof -
  assume "encodeUriSegment x \<in> set dot_segments"
  then have "decodeURIComponent (encodeUriSegment x) \<in> decodeURIComponent ` set dot_segments" by (rule imageI)
  moreover have "decodeURIComponent ` set dot_segments = {Some ''.'', Some ''..''}" by code_simp
  ultimately show ?thesis by (auto simp: decode_segment)
qed

lemma plain_encodePath: "path_ok p \<Longrightarrow> plain_path (encodePath p)"
proof -
  assume ok: "path_ok p"
  then obtain q where q: "p = CHR ''/'' # q" by (cases p) (auto simp: path_ok_def)
  with ok have "\<not> first_is (CHR ''/'') q" by (cases q) (auto simp: path_ok_def starts_with_def)
  then have "\<not> first_is (CHR ''/'') (encodePath q)" by (simp add: encodePath_first)
  with q have "\<not> starts_with ''//'' (encodePath p)" by (cases "encodePath q") (auto simp: encodePath_slash starts_with_def)
  with ok show ?thesis
    using encodePath_chars [of p]
    by (auto simp: plain_path_def path_ok_def split_encodePath encodePath_first dest!: segment_dots)
qed

lemma query_text_chars: "list_all (\<lambda>c. query_chars c \<or> c \<in> {CHR ''&'', CHR ''=''}) (query_text obj)"
proof -
  have join: "(\<And>x. x \<in> set xs \<Longrightarrow> list_all P x) \<Longrightarrow> P d \<Longrightarrow> list_all P (join_char d xs)" for P d xs
    by (induction d xs rule: join_char.induct) simp_all
  have "x \<in> set (entry_parts e) \<Longrightarrow> list_all (\<lambda>c. query_chars c \<or> c \<in> {CHR ''&'', CHR ''=''}) x" for e x
    by (cases e; cases "snd e") (auto simp: entry_parts_def key_part_def list_all_iff dest!: encodeUriQuery_chars split: if_splits)
  then show ?thesis unfolding query_text_def by (intro join) auto
qed

lemma hash_chars: "list_all segment_chars (encodeUriSegment h)"
  by (auto simp: list_all_iff dest: encodeUriSegment_chars)

lemma loc_text_parts:
  "loc_text l = encodePath (l_path l) @ opt_part (CHR ''?'') (query_text (l_search l)) @ opt_part (CHR ''#'') (encodeUriSegment (l_hash l))"
proof -
  have "encodeUriSegment h = [] \<longleftrightarrow> h = []" for h using decode_segment [of h] by (auto simp: encodeUriSegment_toks val_toks_def)
  then show ?thesis by (simp add: loc_text_def url_text_def opt_part_def Let_def)
qed

lemma resolve_parts:
  assumes "splits_urls node" "path_ok p" "search_ok search"
  shows "let m = urlResolve msie node (encodePath p @ opt_part (CHR ''?'') (query_text search) @ opt_part (CHR ''#'') (encodeUriSegment h)) in
    a_pathname m = encodePath p \<and> a_search m = query_text search \<and> a_hash m = encodeUriSegment h"
proof -
  define u where "u = encodePath p @ opt_part (CHR ''?'') (query_text search) @ opt_part (CHR ''#'') (encodeUriSegment h)"
  have "plain_path (encodePath p)" "plain_query (query_text search)" "list_all segment_chars (encodeUriSegment h)"
    using assms query_text_chars [of search] by (simp_all add: plain_encodePath plain_query_def search_ok_def hash_chars)
  with assms(1) have "has_parts (encodePath p) (query_text search) (encodeUriSegment h) (node (if msie then a_href (node u) else u))"
    by (simp add: splits_urls_def u_def Let_def)
  moreover have "first_is (CHR ''/'') (encodePath p)" using assms(2) by (simp add: path_ok_def encodePath_first)
  moreover have "drop_first c (opt_part c t) = t" for c t by (simp add: drop_first_def opt_part_def)
  ultimately show ?thesis by (simp add: urlResolve_def has_parts_def Let_def flip: u_def)
qed

text \<open>\<open>parseAppUrl\<close> on a composed text without its first slash, and with it.\<close>

definition with_parts :: "string \<Rightarrow> (string \<times> kentry) list \<Rightarrow> string \<Rightarrow> location \<Rightarrow> location" where
  "with_parts p search h l = l\<lparr>l_path := p, l_search := search, l_hash := h\<rparr>"

lemma parseAppUrl_composed:
  assumes "splits_urls node" "path_ok p" "search_ok search"
    and r: "(if first_is (CHR ''/'') r then r else CHR ''/'' # r)
      = encodePath p @ opt_part (CHR ''?'') (query_text search) @ opt_part (CHR ''#'') (encodeUriSegment h)"
  shows "parseAppUrl msie node r l = (with_parts (if first_is (CHR ''/'') r \<or> p \<noteq> ''/'' then p else []) search h l, None)"
proof -
  define m where "m = urlResolve msie node (if first_is (CHR ''/'') r then r else CHR ''/'' # r)"
  have m: "a_pathname m = encodePath p" "a_search m = query_text search" "a_hash m = encodeUriSegment h"
    using resolve_parts [OF assms(1-3), of msie h] by (simp_all add: m_def r Let_def)
  obtain q where q: "p = CHR ''/'' # q" using assms(2) by (cases p) (auto simp: path_ok_def)
  have nq: "\<not> first_is (CHR ''/'') q" using assms(2) q by (cases q) (auto simp: path_ok_def starts_with_def)
  have s: "parseKeyValue (query_text search) = search" using assms(3) by (simp add: search_ok_def parse_query_text)
  show ?thesis
  proof (cases "first_is (CHR ''/'') r")
    case True
    then have "m = urlResolve msie node r" by (simp add: m_def)
    with True q m show ?thesis by (simp add: parseAppUrl_def Let_def decode_path decode_segment s with_parts_def)
  next
    case False
    then have "m = urlResolve msie node (CHR ''/'' # r)" by (simp add: m_def)
    with False q nq m show ?thesis
      by (simp add: parseAppUrl_def Let_def decode_path decode_segment s with_parts_def encodePath_slash)
  qed
qed

lemma composed_simps [simp]:
  "l_path (composed l) = l_path l" "l_search (composed l) = l_search l" "l_hash (composed l) = l_hash l" "l_mode (composed l) = l_mode l"
  "l_appBase (composed l) = l_appBase l" "l_prefix (composed l) = l_prefix l" "l_url (composed l) = loc_text l"
  by (simp_all add: composed_def Let_def)

lemma with_parts_simps [simp]:
  "l_path (with_parts p s h l) = p" "l_search (with_parts p s h l) = s" "l_hash (with_parts p s h l) = h"
  "l_mode (with_parts p s h l) = l_mode l" "l_appBase (with_parts p s h l) = l_appBase l" "l_prefix (with_parts p s h l) = l_prefix l"
  by (simp_all add: with_parts_def)

lemma compose_ok: "search_ok (l_search l) \<Longrightarrow> compose l = (composed l, None)"
  by (simp add: compose_eq search_ok_def query_ok_def)

lemma compose_with_parts: "search_ok s \<Longrightarrow> compose (with_parts p s h l) = (composed (with_parts p s h l), None)"
  by (intro compose_ok) simp

lemma with_parts_path [simp]: "(with_parts p s h l)\<lparr>l_path := q\<rparr> = with_parts q s h l"
  by (cases l) (simp add: with_parts_def)

text \<open>The application a location belongs to.\<close>

definition same_app :: "location \<Rightarrow> location \<Rightarrow> bool" where
  "same_app l m \<longleftrightarrow> l_mode l = l_mode m \<and> l_appBase l = l_appBase m \<and> l_prefix l = l_prefix m"

lemma parse_html5_composed:
  assumes "splits_urls node" "loc_ok l" "same_app l m" "l_mode l = Html5Url"
  shows "parse msie node (l_absUrl (composed l)) m = (composed (with_parts (l_path l) (l_search l) (l_hash l) m), None)"
proof -
  have ok: "path_ok (l_path l)" "search_ok (l_search l)" using assms by (auto simp: loc_ok_def)
  obtain q where q: "l_path l = CHR ''/'' # q" using ok(1) by (cases "l_path l") (auto simp: path_ok_def)
  have nq: "\<not> first_is (CHR ''/'') q" using ok(1) q by (cases q) (auto simp: path_ok_def starts_with_def)
  define r where "r = drop 1 (loc_text l)"
  have u: "loc_text l = CHR ''/'' # r" by (simp add: r_def loc_text_parts q encodePath_slash)
  have "r = encodePath q @ opt_part (CHR ''?'') (query_text (l_search l)) @ opt_part (CHR ''#'') (encodeUriSegment (l_hash l))"
    by (simp add: r_def loc_text_parts q encodePath_slash)
  with nq have nr: "\<not> first_is (CHR ''/'') r"
    using encodePath_first [of q] by (cases "encodePath q") (auto simp: opt_part_def)
  have "(if first_is (CHR ''/'') r then r else CHR ''/'' # r) = loc_text l" using nr u by simp
  from parseAppUrl_composed [OF assms(1) ok this [unfolded loc_text_parts], of msie m] nr
  have p: "parseAppUrl msie node r m = (with_parts (if l_path l \<noteq> ''/'' then l_path l else []) (l_search l) (l_hash l) m, None)" by simp
  have "l_absUrl (composed l) = stripFile (l_appBase m) @ r" using assms by (simp add: composed_def Let_def r_def same_app_def)
  with p show ?thesis using assms q compose_with_parts [OF ok(2)]
    by (auto simp: parse_def parse_html5_def and_then_def same_app_def)
qed

lemma letter_segment: "65 \<le> (of_char c :: nat) \<Longrightarrow> (of_char c :: nat) \<le> 90 \<Longrightarrow> encodeUriSegment [c, CHR '':''] = [c, CHR '':'']"
  by (simp add: encodeUriSegment_toks val_toks_def char_toks_def unescaped_def segment_sub_def query_sub_def subst_tok_def Let_def)

lemma encodePath_segment: "CHR ''/'' \<notin> set x \<Longrightarrow> encodePath (x @ CHR ''/'' # t) = encodeUriSegment x @ CHR ''/'' # encodePath t"
  by (cases "split_char (CHR ''/'') t") (simp_all add: encodePath_def split_char_append)

lemma windows_path_encoded: "windows_path p \<noteq> None \<Longrightarrow> windows_path (encodePath p @ rest) \<noteq> None"
proof -
  assume w: "windows_path p \<noteq> None"
  then obtain c t where p: "p = CHR ''/'' # [c, CHR '':''] @ CHR ''/'' # t" "65 \<le> (of_char c :: nat)" "(of_char c :: nat) \<le> 90"
    by (auto simp: windows_path_def split: list.splits if_splits)
  moreover have "CHR ''/'' \<notin> set [c, CHR '':'']" using p by auto
  ultimately have "encodePath p = CHR ''/'' # [c, CHR '':''] @ CHR ''/'' # encodePath t"
    by (metis encodePath_segment encodePath_slash letter_segment)
  with p show ?thesis by (simp add: windows_path_def)
qed

lemma drive_name_kept:
  assumes "base \<noteq> []" "unescaped (hd base)" "first_is (CHR ''/'') p"
  shows "removeWindowsDriveName p (encodePath p @ rest) base = p"
proof -
  obtain q where q: "p = CHR ''/'' # q" using assms by (cases p) auto
  have "\<not> starts_with base (encodePath p @ rest)"
    using assms by (cases base) (auto simp: starts_with_def q encodePath_slash unescaped_def)
  then show ?thesis using windows_path_encoded [of p rest] by (auto simp: removeWindowsDriveName_def split: option.split)
qed

lemma beginsWith_file: "beginsWith (stripFile b) b = Some (drop (length (stripFile b)) b)"
  by (simp add: beginsWith_def starts_with_def stripFile_def min_def)

lemma query_text_empty: "query_ok obj \<Longrightarrow> query_text obj = [] \<Longrightarrow> obj = []"
  using parse_query_text [of obj] by (simp add: parseKeyValue_def parse_pair_def)

lemma loc_text_empty: "query_ok (l_search l) \<Longrightarrow> loc_text l = [] \<Longrightarrow> l_path l = [] \<and> l_search l = [] \<and> l_hash l = []"
  using decode_path [of "l_path l"] decode_segment [of "l_hash l"] query_text_empty [of "l_search l"]
  by (simp add: loc_text_parts opt_part_def split: if_splits)

text \<open>What \<open>$$parse\<close> of the hashbang forms hands to \<open>parseAppUrl\<close>.\<close>

lemma parse_hashbang_text:
  assumes "loc_ok l" "same_app l m" "l_mode l \<noteq> Html5Url"
  shows "parse msie node (l_absUrl (composed l)) m =
    and_then (parseAppUrl msie node (loc_text l) m)
      (\<lambda>k. compose (k\<lparr>l_path := removeWindowsDriveName (l_path k) (loc_text l) (l_appBase k)\<rparr>))"
proof -
  have b: "l_appBase m = l_appBase l" "l_prefix m = l_prefix l" "l_mode m = l_mode l" using assms by (simp_all add: same_app_def)
  obtain ps where ps: "l_prefix l = CHR ''#'' # ps" using assms by (cases "l_prefix l") (auto simp: loc_ok_def base_ok_def)
  show ?thesis
  proof (cases "l_mode l = HashbangUrl \<and> loc_text l = []")
    case True
    have "CHR ''#'' \<notin> set (l_appBase l)" using assms by (simp add: loc_ok_def base_ok_def)
    then have nf: "\<not> first_is (CHR ''#'') (drop k (l_appBase l))" for k
      by (metis first_is_def hd_in_set in_set_dropD)
    have "l_absUrl (composed l) = l_appBase l" using True by (simp add: composed_def Let_def)
    moreover have "beginsWith (l_appBase l) (l_appBase l) = Some []" using beginsWith_append [of "l_appBase l" "[]"] by simp
    ultimately show ?thesis using True nf b assms
      by (simp add: parse_def parse_hashbang_def beginsWith_file)
  next
    case False
    then have "l_absUrl (composed l) = l_appBase l @ l_prefix l @ loc_text l"
      using assms by (cases "l_mode l") (auto simp: composed_def Let_def)
    moreover have "beginsWith (l_prefix l) (CHR ''#'' # ps @ loc_text l) = Some (loc_text l)"
      using ps beginsWith_append [of "l_prefix l" "loc_text l"] by simp
    ultimately show ?thesis using ps b assms by (simp add: parse_def parse_hashbang_def)
  qed
qed

lemma parse_hashbang_composed:
  assumes "splits_urls node" "loc_ok l" "same_app l m" "l_mode l \<noteq> Html5Url"
  shows "parse msie node (l_absUrl (composed l)) m = (composed (with_parts (l_path l) (l_search l) (l_hash l) m), None)"
proof -
  have ok: "search_ok (l_search l)" and base: "l_appBase m \<noteq> []" "unescaped (hd (l_appBase m))"
    using assms by (auto simp: loc_ok_def base_ok_def same_app_def)
  define rest where "rest = opt_part (CHR ''?'') (query_text (l_search l)) @ opt_part (CHR ''#'') (encodeUriSegment (l_hash l))"
  have u: "loc_text l = encodePath (l_path l) @ rest" by (simp add: loc_text_parts rest_def)
  show ?thesis
  proof (cases "l_path l = []")
    case True
    have r: "\<not> first_is (CHR ''/'') (loc_text l)" by (auto simp: u True rest_def opt_part_def)
    have "path_ok ''/''" by (simp add: path_ok_def starts_with_def)
    moreover have "(if first_is (CHR ''/'') (loc_text l) then loc_text l else CHR ''/'' # loc_text l) = encodePath ''/'' @ rest"
      using r by (simp add: u True encodePath_slash)
    ultimately have "parseAppUrl msie node (loc_text l) m = (with_parts [] (l_search l) (l_hash l) m, None)"
      using parseAppUrl_composed [OF assms(1) _ ok, of "''/''" "loc_text l" "l_hash l"] r by (simp add: rest_def)
    moreover have "removeWindowsDriveName [] v b = []" for v b by (simp add: removeWindowsDriveName_def windows_path_def)
    ultimately show ?thesis using True compose_with_parts [OF ok] by (simp add: parse_hashbang_text [OF assms(2-4)] and_then_def)
  next
    case False
    then have p: "path_ok (l_path l)" using assms by (auto simp: loc_ok_def)
    then have f: "first_is (CHR ''/'') (l_path l)" by (simp add: path_ok_def)
    then have r: "first_is (CHR ''/'') (loc_text l)"
      using encodePath_first [of "l_path l"] by (cases "encodePath (l_path l)") (auto simp: u)
    then have "parseAppUrl msie node (loc_text l) m = (with_parts (l_path l) (l_search l) (l_hash l) m, None)"
      using parseAppUrl_composed [OF assms(1) p ok, of "loc_text l" "l_hash l"] by (simp add: loc_text_parts)
    then show ?thesis using drive_name_kept [OF base f] compose_with_parts [OF ok] by (simp add: parse_hashbang_text [OF assms(2-4)] and_then_def u)
  qed
qed

lemma parse_composed:
  assumes "splits_urls node" "loc_ok l" "same_app l m"
  shows "parse msie node (l_absUrl (composed l)) m = (composed (with_parts (l_path l) (l_search l) (l_hash l) m), None)"
  using parse_html5_composed [OF assms] parse_hashbang_composed [OF assms] by (cases "l_mode l = Html5Url") simp_all

text \<open>An anchor that splits the text it is given.\<close>

definition text_node :: "parsing_node" where
  "text_node url =
     (case path_match url of
        None \<Rightarrow> \<lparr>a_href = url, a_protocol = [], a_host = [], a_search = [], a_hash = [], a_hostname = [], a_port = [], a_pathname = []\<rparr>
      | Some (p, q, h) \<Rightarrow>
          \<lparr>a_href = url, a_protocol = ''http:'', a_host = ''host'', a_search = opt_part (CHR ''?'') (case q of None \<Rightarrow> [] | Some s \<Rightarrow> s),
           a_hash = opt_part (CHR ''#'') (case h of None \<Rightarrow> [] | Some s \<Rightarrow> s), a_hostname = ''host'', a_port = [], a_pathname = p\<rparr>)"

lemma path_match_parts:
  assumes "list_all (\<lambda>c. segment_chars c \<or> c = CHR ''/'') p" "list_all (\<lambda>c. query_chars c \<or> c \<in> {CHR ''&'', CHR ''=''}) s" "list_all segment_chars h"
  shows "path_match (p @ opt_part (CHR ''?'') s @ opt_part (CHR ''#'') h)
    = Some (p, if s = [] then None else Some s, if h = [] then None else Some h)"
proof -
  have p: "takeWhile (\<lambda>c. c \<notin> {CHR ''?'', CHR ''#''}) (p @ opt_part (CHR ''?'') s @ opt_part (CHR ''#'') h) = p"
  proof -
    have "c \<in> set p \<Longrightarrow> c \<notin> {CHR ''?'', CHR ''#''}" for c using assms(1) by (auto simp: list_all_iff)
    moreover have "takeWhile (\<lambda>c. c \<notin> {CHR ''?'', CHR ''#''}) (opt_part (CHR ''?'') s @ opt_part (CHR ''#'') h) = []"
      by (simp add: opt_part_def)
    ultimately show ?thesis by (simp add: takeWhile_append)
  qed
  have s: "takeWhile (\<lambda>c. c \<noteq> CHR ''#'') (s @ opt_part (CHR ''#'') h) = s"
  proof -
    have "c \<in> set s \<Longrightarrow> c \<noteq> CHR ''#''" for c using assms(2) by (auto simp: list_all_iff)
    then show ?thesis by (simp add: takeWhile_append opt_part_def)
  qed
  have h: "\<not> (\<exists>c \<in> set h. (of_char c :: nat) \<in> {10, 13})"
  proof -
    have "\<not> segment_chars c" if "(of_char c :: nat) \<in> {10, 13}" for c
      using that by (auto simp: segment_chars_def query_chars_def unescaped_def hex_char_def lessThan_Suc numeral_eq_Suc)
    then show ?thesis using assms(3) by (auto simp: list_all_iff)
  qed
  show ?thesis unfolding path_match_def Let_def p using s h by (auto simp: opt_part_def)
qed

lemma text_node_parts:
  assumes "plain_path p" "plain_query s" "list_all segment_chars h"
  shows "has_parts p s h (text_node (p @ opt_part (CHR ''?'') s @ opt_part (CHR ''#'') h))"
    and "a_href (text_node (p @ opt_part (CHR ''?'') s @ opt_part (CHR ''#'') h)) = p @ opt_part (CHR ''?'') s @ opt_part (CHR ''#'') h"
proof -
  have "path_match (p @ opt_part (CHR ''?'') s @ opt_part (CHR ''#'') h) = Some (p, if s = [] then None else Some s, if h = [] then None else Some h)"
    using assms by (intro path_match_parts) (simp_all add: plain_path_def plain_query_def)
  then show "has_parts p s h (text_node (p @ opt_part (CHR ''?'') s @ opt_part (CHR ''#'') h))"
    "a_href (text_node (p @ opt_part (CHR ''?'') s @ opt_part (CHR ''#'') h)) = p @ opt_part (CHR ''?'') s @ opt_part (CHR ''#'') h"
    unfolding text_node_def has_parts_def by (simp_all del: append_assoc)
qed

lemma text_node_splits: "splits_urls text_node"
  by (simp add: splits_urls_def Let_def text_node_parts)

end
