(* ===== verification/Angular_Location_Props.thy ===== *)
theory Angular_Location_Props
  imports Angular_Location
begin

text \<open>
  Properties of \<open>$location\<close>: parsing gives back what was composed, the texts of the URL stay in step with its parts, and links
  that are rewritten belong to the application. The anchor of the browser is only relied on where a text is parsed.
\<close>

section \<open>Round trips\<close>

lemma composed_overwrites: "composed (m\<lparr>l_url := u, l_absUrl := a\<rparr>) = composed m"
proof -
  have "loc_text (m\<lparr>l_url := u, l_absUrl := a\<rparr>) = loc_text m" by (simp add: loc_text_def url_text_def)
  then show ?thesis by (cases "l_mode m") (simp_all add: composed_def Let_def)
qed

lemma composed_twice [simp]: "composed (composed l) = composed l"
  by (subst composed_def [of l]) (simp only: Let_def composed_overwrites)

lemma composed_again [simp]: "composed (with_parts p s h (composed l)) = composed (with_parts p s h l)"
proof -
  have "with_parts p s h (m\<lparr>l_url := u, l_absUrl := a\<rparr>) = (with_parts p s h m)\<lparr>l_url := u, l_absUrl := a\<rparr>" for m u a
    by (cases m) (simp add: with_parts_def)
  then show ?thesis by (simp add: composed_def [of l] Let_def composed_overwrites)
qed

lemma with_parts_again [simp]: "with_parts p s h (with_parts q t i l) = with_parts p s h l"
  by (cases l) (simp add: with_parts_def)

lemma setters_as_parts:
  "set_path p l = compose (with_parts (if first_is (CHR ''/'') p then p else CHR ''/'' # p) (l_search l) (l_hash l) l)"
  "set_hash h l = compose (with_parts (l_path l) (l_search l) h l)"
  "set_search (SText t) l = compose (with_parts (l_path l) (parseKeyValue t) (l_hash l) l)"
  by (cases l; simp add: set_path_def set_hash_def set_search_def with_parts_def)+

lemma parse_after_compose:
  assumes "splits_urls node" "loc_ok l" "same_app l m"
  shows "\<exists>k. compose l = (k, None) \<and> parse msie node (l_absUrl k) m = compose (with_parts (l_path l) (l_search l) (l_hash l) m)
    \<and> snd (compose (with_parts (l_path l) (l_search l) (l_hash l) m)) = None"
proof -
  have ok: "search_ok (l_search l)" using assms(2) by (simp add: loc_ok_def)
  show ?thesis using parse_composed [OF assms, of msie] compose_ok [OF ok] compose_with_parts [OF ok] by simp
qed

text \<open>
  C26. In each of its three forms \<open>$location\<close> reads back the URL it has written: \<open>$$compose\<close> does not throw and \<open>$$parse\<close> of the
  \<open>$$absUrl\<close> that it made gives any location of the same application the same path, search and hash, and composes the same texts, when the
  path begins with one slash (or is empty in a hashbang form) and has no segment \<open>.\<close> or \<open>..\<close>, the search is one that a query string
  can carry (without apostrophes), and the anchor of the browser splits URLs as the URL standard says, which takes out segments of
  one or two dots, written as they are or as escapes.
\<close>

theorem location_round_trip:
  assumes "splits_urls node" "loc_ok l" "same_app l m"
  shows "\<exists>k. compose l = (k, None) \<and> parse msie node (l_absUrl k) m = compose (with_parts (l_path l) (l_search l) (l_hash l) m)
    \<and> snd (compose (with_parts (l_path l) (l_search l) (l_hash l) m)) = None"
  using assms by (rule parse_after_compose)

definition demo_loc :: "lmode \<Rightarrow> location" where
  "demo_loc mode = with_parts ''/a b/C:/?#'' [(''k'', KArr [KStr ''1&2'', KTrue]), (''q'', KOne (KStr ''=+''))] ''x#y''
     (new_location False text_node mode ''http://host/app/index'' ''#!'')"

lemma demo_query: "query_ok [(''k'', KArr [KStr ''1&2'', KTrue]), (''q'', KOne (KStr ''=+''))]"
  by (simp add: query_ok_def val_ok_def iterable_def)

theorem location_round_trip_witness:
  "\<forall>mode. \<exists>k. compose (demo_loc mode) = (k, None) \<and> parse False text_node (l_absUrl k) (demo_loc mode) =
     compose (with_parts ''/a b/C:/?#'' [(''k'', KArr [KStr ''1&2'', KTrue]), (''q'', KOne (KStr ''=+''))] ''x#y'' (demo_loc mode))"
proof
  fix mode
  have "loc_ok (demo_loc mode)"
    by (simp add: loc_ok_def base_ok_def demo_loc_def new_location_def parseAbsoluteUrl_def Let_def path_ok_def starts_with_def
        search_ok_def demo_query unescaped_def) code_simp
  then show "\<exists>k. compose (demo_loc mode) = (k, None) \<and> parse False text_node (l_absUrl k) (demo_loc mode) =
     compose (with_parts ''/a b/C:/?#'' [(''k'', KArr [KStr ''1&2'', KTrue]), (''q'', KOne (KStr ''=+''))] ''x#y'' (demo_loc mode))"
    using location_round_trip [OF text_node_splits, of "demo_loc mode" "demo_loc mode" False]
    by (simp add: same_app_def) (auto simp: demo_loc_def)
qed

text \<open>The anchor that splits texts is not asked about segments of dots.\<close>

lemma dots_not_plain: "\<not> plain_path ''/%2E/x''" "\<not> plain_path ''/a/%2e%2e/b''" "\<not> plain_path ''/a/.%2E''"
  by code_simp+

text \<open>
  Setting a location to its own URL keeps the path and the search, but writes the hash as the escapes that the URL has: \<open>url\<close>
  decodes the path and the search of its argument, and not the hash. No call throws.
\<close>

theorem url_of_itself:
  assumes "path_ok (l_path l)" "query_ok (l_search l)"
  shows "set_url (l_url (composed l)) l = (composed (with_parts (l_path l) (l_search l) (encodeUriSegment (l_hash l)) l), None)"
proof -
  have m: "path_match (loc_text l) = Some (encodePath (l_path l), if query_text (l_search l) = [] then None else Some (query_text (l_search l)),
      if encodeUriSegment (l_hash l) = [] then None else Some (encodeUriSegment (l_hash l)))"
    unfolding loc_text_parts by (intro path_match_parts encodePath_chars query_text_chars hash_chars)
  have f: "first_is (CHR ''/'') (l_path l)" "encodePath (l_path l) \<noteq> []"
    using assms encodePath_first [of "l_path l"] by (auto simp: path_ok_def)
  have h: "(case if t = [] then None else Some t of None \<Rightarrow> [] | Some x \<Rightarrow> x) = t" for t :: string by simp
  have c: "compose (with_parts p (l_search l) i k) = (composed (with_parts p (l_search l) i k), None)" for p i k
    using assms(2) by (simp add: compose_eq query_ok_def)
  show ?thesis using f by (simp add: set_url_def m decode_path and_then_def setters_as_parts h parse_query_text [OF assms(2)] c)
qed

theorem url_of_itself_witness:
  "set_url (l_url (composed (demo_loc HashbangUrl))) (demo_loc HashbangUrl) =
     (composed (with_parts ''/a b/C:/?#'' [(''k'', KArr [KStr ''1&2'', KTrue]), (''q'', KOne (KStr ''=+''))] ''x%23y'' (demo_loc HashbangUrl)), None)"
proof -
  have "path_ok (l_path (demo_loc HashbangUrl))" "query_ok (l_search (demo_loc HashbangUrl))"
    by (simp_all add: demo_loc_def path_ok_def starts_with_def demo_query)
  moreover have "encodeUriSegment ''x#y'' = ''x%23y''" by code_simp
  ultimately show ?thesis using url_of_itself [of "demo_loc HashbangUrl"] by (simp add: demo_loc_def)
qed

section \<open>The URL and its parts\<close>

text \<open>The calls on a location, and what a caller sees after a sequence of them when it catches what they throw.\<close>

datatype loc_call = SetPath string | SetHash string | SetSearch search_arg | SetUrl string | SetReplace | Parse string

primrec call :: "bool \<Rightarrow> parsing_node \<Rightarrow> loc_call \<Rightarrow> location \<Rightarrow> loc_result" where
  "call msie node (SetPath p) l = set_path p l"
| "call msie node (SetHash h) l = set_hash h l"
| "call msie node (SetSearch s) l = set_search s l"
| "call msie node (SetUrl u) l = set_url u l"
| "call msie node SetReplace l = (set_replace l, None)"
| "call msie node (Parse u) l = parse msie node u l"

text \<open>
  The locations that calls lead to; a \<open>$$parse\<close> that meets a malformed escape is left out, and so is a call that makes \<open>forEach\<close> throw over
  the search.
\<close>

inductive leads_to :: "bool \<Rightarrow> parsing_node \<Rightarrow> location \<Rightarrow> location \<Rightarrow> bool" for msie node where
  here: "leads_to msie node l l"
| more: "leads_to msie node l m \<Longrightarrow> call msie node c m = (k, e) \<Longrightarrow> e \<noteq> Some ForEachTypeError \<Longrightarrow>
    (\<forall>u. c = Parse u \<longrightarrow> e \<noteq> Some URIError) \<Longrightarrow> leads_to msie node l k"

definition in_step :: "location \<Rightarrow> bool" where
  "in_step l \<longleftrightarrow> l_url l = loc_text l \<and> l_absUrl l = l_absUrl (composed l)
     \<and> (first_is (CHR ''/'') (l_path l) \<or> l_path l = [] \<and> l_mode l \<noteq> Html5Url)"

lemma in_step_composed: "first_is (CHR ''/'') (l_path l) \<or> l_path l = [] \<and> l_mode l \<noteq> Html5Url \<Longrightarrow> in_step (composed l)"
proof -
  have "loc_text (composed l) = loc_text l" by (simp add: loc_text_def url_text_def)
  then show "first_is (CHR ''/'') (l_path l) \<or> l_path l = [] \<and> l_mode l \<noteq> Html5Url \<Longrightarrow> ?thesis" by (simp add: in_step_def)
qed

text \<open>A result that is in step unless \<open>forEach\<close> has thrown.\<close>

definition stays_in_step :: "loc_result \<Rightarrow> bool" where
  "stays_in_step r \<longleftrightarrow> snd r \<noteq> Some ForEachTypeError \<longrightarrow> in_step (fst r)"

lemma stays_in_step_simps [simp]: "stays_in_step (l, None) \<longleftrightarrow> in_step l" "stays_in_step (l, Some ForEachTypeError)" "e \<noteq> ForEachTypeError \<Longrightarrow> stays_in_step (l, Some e) \<longleftrightarrow> in_step l"
  by (simp_all add: stays_in_step_def)

lemma compose_stays: "first_is (CHR ''/'') (l_path l) \<or> l_path l = [] \<and> l_mode l \<noteq> Html5Url \<Longrightarrow> stays_in_step (compose l)"
  by (simp add: compose_eq in_step_composed)

lemma compose_error: "compose l = (m, Some e) \<Longrightarrow> e = ForEachTypeError"
  by (simp add: compose_eq split: if_splits)

lemma parseAppUrl_keeps: "parseAppUrl msie node r l = (m, None) \<Longrightarrow>
    (l_path m = [] \<or> first_is (CHR ''/'') (l_path m)) \<and> same_app l m"
  by (auto simp: parseAppUrl_def Let_def same_app_def split: option.splits if_splits)

lemma parseAppUrl_error: "parseAppUrl msie node r l = (m, Some e) \<Longrightarrow> e = URIError"
  by (auto simp: parseAppUrl_def Let_def split: option.splits)

lemma windows_path_first: "windows_path p = Some q \<Longrightarrow> first_is (CHR ''/'') q"
  by (auto simp: windows_path_def split: list.splits if_splits)

lemma removeWindowsDriveName_first:
  "p = [] \<or> first_is (CHR ''/'') p \<Longrightarrow> removeWindowsDriveName p u b = [] \<or> first_is (CHR ''/'') (removeWindowsDriveName p u b)"
  by (auto simp: removeWindowsDriveName_def dest: windows_path_first split: option.splits)

lemma html5_parse_in_step: "parse_html5 msie node u l = (m, None) \<Longrightarrow> in_step m"
proof -
  assume p: "parse_html5 msie node u l = (m, None)"
  then obtain r k where k: "parseAppUrl msie node r l = (k, None)" "compose (if l_path k = [] then k\<lparr>l_path := ''/''\<rparr> else k) = (m, None)"
    by (auto simp: parse_html5_def and_then_def split: option.splits prod.splits)
  from parseAppUrl_keeps [OF k(1)] have "stays_in_step (compose (if l_path k = [] then k\<lparr>l_path := ''/''\<rparr> else k))" by (intro compose_stays) auto
  then show ?thesis unfolding k(2) by simp
qed

lemma hashbang_parse_in_step: "parse_hashbang msie node u l = (m, None) \<Longrightarrow> l_mode l \<noteq> Html5Url \<Longrightarrow> in_step m"
proof -
  assume p: "parse_hashbang msie node u l = (m, None)" and h: "l_mode l \<noteq> Html5Url"
  then obtain r k where k: "parseAppUrl msie node r l = (k, None)"
      "compose (k\<lparr>l_path := removeWindowsDriveName (l_path k) r (l_appBase k)\<rparr>) = (m, None)"
    by (auto simp: parse_hashbang_def and_then_def split: option.splits prod.splits if_splits)
  have "l_mode k \<noteq> Html5Url" "l_path k = [] \<or> first_is (CHR ''/'') (l_path k)" using parseAppUrl_keeps [OF k(1)] h by (auto simp: same_app_def)
  then have "stays_in_step (compose (k\<lparr>l_path := removeWindowsDriveName (l_path k) r (l_appBase k)\<rparr>))"
    using removeWindowsDriveName_first [of "l_path k" r "l_appBase k"] by (intro compose_stays) auto
  then show ?thesis unfolding k(2) by simp
qed

text \<open>A failing \<open>$$parse\<close> that is not about an escape or the search has changed nothing.\<close>

lemma parse_refused: "parse msie node u l = (m, Some e) \<Longrightarrow> e \<notin> {URIError, ForEachTypeError} \<Longrightarrow> m = l"
  by (auto simp: parse_def parse_html5_def parse_hashbang_def and_then_def dest: parseAppUrl_error compose_error
      split: option.splits prod.splits if_splits list.splits)

lemma setters_step: "in_step l \<Longrightarrow> stays_in_step (set_path p l)" "in_step l \<Longrightarrow> stays_in_step (set_hash h l)"
  "in_step l \<Longrightarrow> stays_in_step (set_search s l)" "in_step l \<Longrightarrow> in_step (set_replace l)"
proof -
  assume l: "in_step l"
  show "stays_in_step (set_path p l)" unfolding set_path_def by (intro compose_stays) simp
  show "stays_in_step (set_hash h l)" unfolding set_hash_def using l by (intro compose_stays) (simp add: in_step_def)
  show "stays_in_step (set_search s l)"
    using l by (cases s) (auto simp: set_search_def in_step_def [of l] intro!: compose_stays)
  have "loc_text (set_replace l) = loc_text l" by (simp add: loc_text_def url_text_def set_replace_def)
  then show "in_step (set_replace l)" using l by (cases "l_mode l") (simp_all add: in_step_def composed_def Let_def, simp_all add: set_replace_def)
qed

lemma and_then_stays:
  "stays_in_step r \<Longrightarrow> (\<And>k. in_step k \<Longrightarrow> stays_in_step (f k)) \<Longrightarrow> stays_in_step (and_then r f)"
  by (cases r; cases "snd r") (auto simp: and_then_def stays_in_step_def)

lemma set_url_stays: "in_step l \<Longrightarrow> stays_in_step (set_url u l)"
  by (auto simp: set_url_def split: option.split intro!: and_then_stays setters_step)

text \<open>
  C29. The texts of a location stay in step with its parts: from a location whose \<open>$$url\<close> and \<open>$$absUrl\<close> are those of its path, search
  and hash and whose path begins with a slash (or is empty in a hashbang form), every sequence of calls (\<open>path\<close>, \<open>hash\<close>,
  \<open>search\<close>, \<open>url\<close>, \<open>replace\<close>, \<open>$$parse\<close>), those that throw included, leads to such a location, with two exceptions: a \<open>$$parse\<close> that meets
  a malformed escape, and a call that gives the search a key \<open>hasOwnProperty\<close> or \<open>forEach\<close>, over which \<open>$$compose\<close> throws.
\<close>

theorem location_in_step:
  assumes "leads_to msie node l m" "in_step l"
  shows "in_step m"
  using assms
proof (induction rule: leads_to.induct)
  case (more l m c k e)
  then have m: "in_step m" by simp
  show ?case
  proof (cases c)
    case (Parse u)
    show ?thesis
    proof (cases e)
      case None
      with more Parse show ?thesis
        by (cases "l_mode m = Html5Url") (auto simp: parse_def intro: html5_parse_in_step hashbang_parse_in_step)
    next
      case (Some x)
      with more Parse m show ?thesis using parse_refused [of msie node u m k x] by auto
    qed
  next
    case (SetPath p)
    with more m show ?thesis using setters_step(1) [of m p] by (simp add: stays_in_step_def)
  next
    case (SetHash h)
    with more m show ?thesis using setters_step(2) [of m h] by (simp add: stays_in_step_def)
  next
    case (SetSearch s)
    with more m show ?thesis using setters_step(3) [of m s] by (simp add: stays_in_step_def)
  next
    case (SetUrl u)
    with more m show ?thesis using set_url_stays [of m u] by (simp add: stays_in_step_def)
  next
    case SetReplace
    with more m show ?thesis using setters_step(4) [of m] by simp
  qed
qed

theorem location_in_step_witness:
  "in_step (set_replace (fst (set_path ''x'' (composed (demo_loc Html5Url))))) \<and> \<not> in_step (demo_loc Html5Url)"
proof
  let ?l = "composed (demo_loc Html5Url)"
  have s: "iterable (l_search (demo_loc Html5Url))" using demo_query by (simp add: demo_loc_def query_ok_def)
  then have p: "snd (set_path ''x'' ?l) = None" by (simp add: setters_as_parts compose_eq)
  have "in_step ?l" by (intro in_step_composed) (simp add: demo_loc_def)
  moreover have "call False text_node (SetPath ''x'') ?l = (fst (set_path ''x'' ?l), None)" using p by (metis call.simps(1) prod.collapse)
  then have "leads_to False text_node ?l (fst (set_path ''x'' ?l))" by (rule more [OF here]) simp_all
  then have "leads_to False text_node ?l (set_replace (fst (set_path ''x'' ?l)))" by (rule more [where c = SetReplace and e = None]) simp_all
  ultimately show "in_step (set_replace (fst (set_path ''x'' ?l)))" by (rule location_in_step [rotated])
  have "l_url (demo_loc Html5Url) = []" by (simp add: demo_loc_def with_parts_def new_location_def parseAbsoluteUrl_def Let_def)
  moreover have "l_path (demo_loc Html5Url) \<noteq> []" "query_ok (l_search (demo_loc Html5Url))"
    by (simp_all add: demo_loc_def demo_query)
  ultimately show "\<not> in_step (demo_loc Html5Url)" using loc_text_empty [of "demo_loc Html5Url"] by (auto simp: in_step_def)
qed

text \<open>
  Both exceptions are real. Such a \<open>$$parse\<close> leaves the object half done: the path is the new one, the texts are the old ones, and so the
  next \<open>absUrl\<close> is not that of the path. A search with a key that stops \<open>forEach\<close> is stored before \<open>$$compose\<close> throws.
\<close>

lemma half_parsed:
  "let (l, e) = init_location False text_node False True [] [] ''http://host/app'' ;
       (m, d) = parse False text_node ''http://host/app#/new#%zz'' (fst (set_path ''/old'' l)) in
   e = None \<and> d = Some URIError \<and> l_path m = ''/new'' \<and> l_absUrl m = ''http://host/app#/old'' \<and> \<not> in_step m"
  by code_simp

lemma search_key_breaks:
  "let (l, e) = init_location False text_node False True [] [] ''http://host/app'' ;
       (m, d) = set_search (SParam ''forEach'' (Some (KOne (KStr ''x'')))) (fst (set_path ''/old'' l)) in
   e = None \<and> d = Some ForEachTypeError \<and> l_search m = [(''forEach'', KOne (KStr ''x''))] \<and> l_absUrl m = ''http://host/app#/old''
   \<and> \<not> in_step m \<and> snd (set_path ''/new'' m) = Some ForEachTypeError"
  by code_simp

text \<open>A path that begins with two slashes is read back without the first in the HTML5 form, as the base ends with one.\<close>

lemma double_slash_lost:
  "let l = fst (set_path ''//x/y'' (new_location False text_node Html5Url ''http://host/'' ''#'')) in
   l_absUrl l = ''http://host//x/y'' \<and> l_path (fst (parse False text_node (l_absUrl l) l)) = ''/x/y''"
  by code_simp

section \<open>Links\<close>

lemma stripHash_prefix: "starts_with (stripHash u) u"
proof -
  have "take (length (take n u)) u = take n u" for n by (metis append_take_drop_id append_eq_conv_conj)
  then show ?thesis by (simp add: stripHash_def starts_with_def split: option.split)
qed

lemma stripFile_prefix: "starts_with (stripFile b) b"
  by (simp add: stripFile_def starts_with_def min_def)

lemma starts_with_trans: "starts_with p q \<Longrightarrow> starts_with q s \<Longrightarrow> starts_with p s"
  by (simp add: starts_with_def) (metis length_take min.absorb2 take_take nat_le_linear take_all)

lemma beginsWith_Some: "starts_with p s \<Longrightarrow> \<exists>t. beginsWith p s = Some t"
  by (simp add: beginsWith_def)

lemma stripHash_free: "CHR ''#'' \<notin> set b \<Longrightarrow> stripHash b = b"
proof -
  have "CHR ''#'' \<notin> set b \<Longrightarrow> index_of ''#'' b = None" by (induction b) (auto simp: starts_with_def)
  then show "CHR ''#'' \<notin> set b \<Longrightarrow> ?thesis" by (simp add: stripHash_def)
qed

lemma rewritten_begins:
  "CHR ''#'' \<notin> set (l_appBase l) \<Longrightarrow> rewrite url l = Some u \<Longrightarrow>
     starts_with (l_appBase l) u \<or> starts_with (stripFile (l_appBase l)) u"
proof -
  have s: "starts_with p p" for p :: string by (simp add: starts_with_def)
  assume "CHR ''#'' \<notin> set (l_appBase l)" "rewrite url l = Some u"
  then show ?thesis
    using stripHash_free [of "l_appBase l"] stripHash_prefix [of url]
    by (cases "l_mode l")
      (auto simp: rewrite_def rewrite_html5_def rewrite_hashbang_def rewrite_hashbang_in_html5_def Let_def s
        split: option.splits if_splits list.splits)
qed

text \<open>
  A link that \<open>$$rewrite\<close> takes belongs to the application: \<open>$$parse\<close> never answers that the text has not the prefix of the
  application, nor fails on \<open>undefined\<close>; what remains possible is a malformed escape, a key of the query over which \<open>forEach\<close> throws and, in
  the hashbang forms, a missing hash prefix.
\<close>

theorem rewritten_urls_belong:
  assumes "CHR ''#'' \<notin> set (l_appBase l)" "rewrite url l = Some u"
  shows "snd (parse msie node u l) \<in> {None, Some URIError, Some ForEachTypeError} \<union> (if l_mode l = Html5Url then {} else {Some Ihshprfx})"
proof -
  have "starts_with (stripFile (l_appBase l)) u"
    using rewritten_begins [OF assms] stripFile_prefix starts_with_trans by blast
  then obtain t where b: "beginsWith (stripFile (l_appBase l)) u = Some t" using beginsWith_Some by blast
  have e: "y = URIError \<or> y = ForEachTypeError" if "snd (and_then (parseAppUrl msie node r l) (\<lambda>l. compose (f l))) = Some y" for r f y
    using that by (auto simp: and_then_def compose_eq dest: parseAppUrl_error split: prod.splits option.splits if_splits)
  have "y = URIError \<or> y = ForEachTypeError \<or> l_mode l \<noteq> Html5Url \<and> y = Ihshprfx" if "snd (parse msie node u l) = Some y" for y
    using that b by (auto simp: parse_def parse_html5_def parse_hashbang_def dest: e split: option.splits list.splits if_splits)
  then show ?thesis by (cases "snd (parse msie node u l)") auto
qed

theorem rewritten_urls_belong_witness:
  "\<exists>u. rewrite ''http://host/app/index#x'' (demo_loc HashbangUrl) = Some u \<and>
     snd (parse False text_node u (demo_loc HashbangUrl)) \<in> {None, Some URIError, Some ForEachTypeError, Some Ihshprfx}"
proof -
  have "rewrite ''http://host/app/index#x'' (demo_loc HashbangUrl) = Some ''http://host/app/index#x''" by code_simp
  moreover have "CHR ''#'' \<notin> set (l_appBase (demo_loc HashbangUrl))" by code_simp
  moreover have "l_mode (demo_loc HashbangUrl) = HashbangUrl" by code_simp
  ultimately show ?thesis using rewritten_urls_belong [of "demo_loc HashbangUrl" _ _ False text_node] by fastforce
qed

end
