(* ===== verification/Angular_Address.thy ===== *)
theory Angular_Address
  imports Angular_Location_Props
begin

text \<open>
  The address bar and \<open>$location\<close> of \<open>angular-1.2.21.js\<close>: \<open>$browser.url\<close>, \<open>fireUrlChange\<close> and \<open>onUrlChange\<close> over the history of
  the window, and the part of \<open>$LocationProvider\<close> that keeps the two in agreement with \<open>$evalAsync\<close> and a watcher of the root
  scope. What a listener of \<open>$locationChangeStart\<close> or \<open>$locationChangeSuccess\<close> does to the location is a parameter.
\<close>

section \<open>The address bar\<close>

text \<open>
  The \<open>href\<close> of the window and the entries of the history before it; \<open>lastBrowserUrl\<close>; \<open>newLocation\<close>, empty for \<open>null\<close>; whether
  \<open>$sniffer.history\<close> holds; the time it takes such that \<open>location.href\<close> shows an assigned URL, where old browsers are late; and how the
  browser writes a URL that it is given, for it parses the text and serialises it again, which takes out segments of dots and escapes
  some characters.
\<close>

record browser =
  b_href :: string
  b_past :: "string list"
  b_last :: string
  b_new :: string
  b_history :: bool
  b_late :: bool
  b_serial :: "string \<Rightarrow> string"

definition new_browser :: "bool \<Rightarrow> bool \<Rightarrow> (string \<Rightarrow> string) \<Rightarrow> string \<Rightarrow> browser" where
  "new_browser history late serial href =
     \<lparr>b_href = href, b_past = [], b_last = href, b_new = [], b_history = history, b_late = late, b_serial = serial\<rparr>"

text \<open>\<open>$browser.url()\<close>\<close>

definition browser_url :: "browser \<Rightarrow> string" where
  "browser_url b = (if b_new b \<noteq> [] then b_new b else replace_all False ''%27'' [char_of (39 :: nat)] (b_href b))"

text \<open>\<open>pushState\<close> or an assignment of \<open>location.href\<close>, and \<open>replaceState\<close> or \<open>location.replace\<close>.\<close>

definition visit :: "string \<Rightarrow> browser \<Rightarrow> browser" where
  "visit url b = b\<lparr>b_past := b_href b # b_past b, b_href := b_serial b url\<rparr>"

definition visit_instead :: "string \<Rightarrow> browser \<Rightarrow> browser" where
  "visit_instead url b = b\<lparr>b_href := b_serial b url\<rparr>"

text \<open>\<open>$browser.url(url, replace)\<close>; with the empty text it is the getter.\<close>

definition set_browser_url :: "string \<Rightarrow> bool \<Rightarrow> browser \<Rightarrow> browser" where
  "set_browser_url url replace b =
     (if url = [] \<or> b_last b = url then b
      else
        (let b = b\<lparr>b_last := url\<rparr> in
         if b_history b then (if replace then visit_instead url b else visit url b)
         else
           (let b = b\<lparr>b_new := url\<rparr> in
            if b_late b then b else if replace then visit_instead url b else visit url b)))"

text \<open>\<open>fireUrlChange\<close>: the listeners are called with the URL, or nothing is to be done.\<close>

definition fireUrlChange :: "browser \<Rightarrow> browser \<times> string option" where
  "fireUrlChange b =
     (let b = b\<lparr>b_new := []\<rparr> in
      if b_last b = browser_url b then (b, None) else (b\<lparr>b_last := browser_url b\<rparr>, Some (browser_url b)))"

section \<open>Agreement with the location\<close>

text \<open>The listeners: the location after them, and whether one has prevented the default.\<close>

record listeners =
  on_start :: "string \<Rightarrow> string \<Rightarrow> location \<Rightarrow> location \<times> bool"
  on_success :: "string \<Rightarrow> string \<Rightarrow> location \<Rightarrow> location"

text \<open>The functions that wait in the queue of \<open>$evalAsync\<close>.\<close>

datatype url_task = FromBrowser string | FromLocation string bool

record address =
  ad_loc :: location
  ad_browser :: browser
  ad_queue :: "url_task list"
  ad_counter :: nat

definition afterLocationChange :: "listeners \<Rightarrow> string \<Rightarrow> address \<Rightarrow> address" where
  "afterLocationChange h oldUrl s = s\<lparr>ad_loc := on_success h (l_absUrl (ad_loc s)) oldUrl (ad_loc s)\<rparr>"

definition parse_in :: "bool \<Rightarrow> parsing_node \<Rightarrow> string \<Rightarrow> address \<Rightarrow> address \<times> bool" where
  "parse_in msie node url s = (case parse msie node url (ad_loc s) of (l, e) \<Rightarrow> (s\<lparr>ad_loc := l\<rparr>, e = None))"

text \<open>A task of the queue; where \<open>$$parse\<close> throws, the rest of it is not done and the exception handler is called.\<close>

definition from_browser :: "bool \<Rightarrow> parsing_node \<Rightarrow> listeners \<Rightarrow> string \<Rightarrow> address \<Rightarrow> address" where
  "from_browser msie node h newUrl s =
     (let oldUrl = l_absUrl (ad_loc s) in
      case parse_in msie node newUrl s of
        (s, False) \<Rightarrow> s
      | (s, True) \<Rightarrow>
          (case on_start h newUrl oldUrl (ad_loc s) of
             (l, True) \<Rightarrow>
               (case parse_in msie node oldUrl (s\<lparr>ad_loc := l\<rparr>) of
                  (s, False) \<Rightarrow> s
                | (s, True) \<Rightarrow> s\<lparr>ad_browser := set_browser_url oldUrl False (ad_browser s)\<rparr>)
           | (l, False) \<Rightarrow> afterLocationChange h oldUrl (s\<lparr>ad_loc := l\<rparr>)))"

definition from_location :: "bool \<Rightarrow> parsing_node \<Rightarrow> listeners \<Rightarrow> string \<Rightarrow> bool \<Rightarrow> address \<Rightarrow> address" where
  "from_location msie node h oldUrl currentReplace s =
     (case on_start h (l_absUrl (ad_loc s)) oldUrl (ad_loc s) of
        (l, True) \<Rightarrow> fst (parse_in msie node oldUrl (s\<lparr>ad_loc := l\<rparr>))
      | (l, False) \<Rightarrow>
          afterLocationChange h oldUrl
            (s\<lparr>ad_loc := l, ad_browser := set_browser_url (l_absUrl l) currentReplace (ad_browser s)\<rparr>))"

definition run_url_task :: "bool \<Rightarrow> parsing_node \<Rightarrow> listeners \<Rightarrow> url_task \<Rightarrow> address \<Rightarrow> address" where
  "run_url_task msie node h t = (case t of FromBrowser url \<Rightarrow> from_browser msie node h url | FromLocation url r \<Rightarrow> from_location msie node h url r)"

text \<open>The listener that \<open>$location\<close> gives to \<open>onUrlChange\<close>, up to the digest that follows.\<close>

definition url_changed :: "string \<Rightarrow> address \<Rightarrow> address" where
  "url_changed newUrl s = (if l_absUrl (ad_loc s) \<noteq> newUrl then s\<lparr>ad_queue := ad_queue s @ [FromBrowser newUrl]\<rparr> else s)"

text \<open>The user or the history goes to a URL, and the event of the window is handled.\<close>

definition navigate :: "string \<Rightarrow> address \<Rightarrow> address" where
  "navigate url s =
     (case fireUrlChange (visit url (ad_browser s)) of
        (b, None) \<Rightarrow> s\<lparr>ad_browser := b\<rparr>
      | (b, Some newUrl) \<Rightarrow> url_changed newUrl (s\<lparr>ad_browser := b\<rparr>))"

text \<open>\<open>$locationWatch\<close>, whose value is the counter.\<close>

definition location_watch :: "address \<Rightarrow> address" where
  "location_watch s =
     (let oldUrl = browser_url (ad_browser s); currentReplace = l_replace (ad_loc s);
          s = (if ad_counter s = 0 \<or> oldUrl \<noteq> l_absUrl (ad_loc s)
               then s\<lparr>ad_counter := ad_counter s + 1, ad_queue := ad_queue s @ [FromLocation oldUrl currentReplace]\<rparr> else s)
      in s\<lparr>ad_loc := (ad_loc s)\<lparr>l_replace := False\<rparr>\<rparr>)"

text \<open>The tasks of the queue in order, a pass of the digest, and the passes; \<open>None\<close> is the error of too many of them.\<close>

definition drain_urls :: "bool \<Rightarrow> parsing_node \<Rightarrow> listeners \<Rightarrow> address \<Rightarrow> address" where
  "drain_urls msie node h s = fold (run_url_task msie node h) (ad_queue s) (s\<lparr>ad_queue := []\<rparr>)"

primrec url_digest :: "nat \<Rightarrow> bool \<Rightarrow> parsing_node \<Rightarrow> listeners \<Rightarrow> address \<Rightarrow> address option" where
  "url_digest 0 msie node h s = None"
| "url_digest (Suc n) msie node h s =
     (let s1 = drain_urls msie node h s; s2 = location_watch s1 in
      if ad_counter s2 = ad_counter s1 \<and> ad_queue s2 = [] then Some s2 else url_digest n msie node h s2)"

section \<open>The two come to agree\<close>

text \<open>Listeners that do nothing; a URL that the getter shows as it is, also when the browser has serialised it.\<close>

definition silent :: "listeners \<Rightarrow> bool" where
  "silent h \<longleftrightarrow> on_start h = (\<lambda>n p l. (l, False)) \<and> on_success h = (\<lambda>n p l. l)"

definition shown_url :: "browser \<Rightarrow> string \<Rightarrow> bool" where
  "shown_url b u \<longleftrightarrow> u \<noteq> [] \<and> replace_all False ''%27'' [char_of (39 :: nat)] (b_serial b u) = u"

definition browser_ok :: "browser \<Rightarrow> bool" where
  "browser_ok b \<longleftrightarrow> b_history b \<longrightarrow> b_new b = []"

lemma set_browser_url_shows:
  "browser_ok b \<Longrightarrow> shown_url b u \<Longrightarrow> b_last b = u \<longrightarrow> browser_url b = u \<Longrightarrow>
     browser_url (set_browser_url u r b) = u \<and> browser_ok (set_browser_url u r b)"
  by (auto simp: set_browser_url_def browser_url_def browser_ok_def shown_url_def visit_def visit_instead_def Let_def)

lemma browser_keeps: "browser_ok b \<Longrightarrow> browser_ok (set_browser_url u r b)" "browser_ok b \<Longrightarrow> browser_ok (visit u b)"
  "browser_ok b \<Longrightarrow> browser_ok (fst (fireUrlChange b))"
  by (auto simp: set_browser_url_def browser_ok_def visit_def visit_instead_def fireUrlChange_def Let_def)

lemma serial_keeps [simp]: "b_serial (set_browser_url u r b) = b_serial b" "b_serial (visit u b) = b_serial b"
  "b_serial (fst (fireUrlChange b)) = b_serial b"
  by (auto simp: set_browser_url_def visit_def visit_instead_def fireUrlChange_def Let_def)

text \<open>A location of an application at \<open>http://host/app\<close>; a browser that takes out a segment \<open>..\<close> with the one before it.\<close>

definition demo_at :: "string \<Rightarrow> location" where
  "demo_at p = fst (set_path p (new_location False text_node HashbangUrl ''http://host/app'' ''#''))"

definition demo_serial :: "string \<Rightarrow> string" where
  "demo_serial u = replace_all False ''/a/../'' ''/'' u"

lemma drain_urls_Nil [simp]: "ad_queue s = [] \<Longrightarrow> drain_urls msie node h s = s"
  by (simp add: drain_urls_def)

lemma silent_task:
  "silent h \<Longrightarrow> run_url_task msie node h (FromLocation p r) s = s\<lparr>ad_browser := set_browser_url (l_absUrl (ad_loc s)) r (ad_browser s)\<rparr>"
  by (simp add: silent_def run_url_task_def from_location_def afterLocationChange_def)

lemma watch_agreeing:
  "ad_counter s \<noteq> 0 \<Longrightarrow> browser_url (ad_browser s) = l_absUrl (ad_loc s) \<Longrightarrow> location_watch s = s\<lparr>ad_loc := (ad_loc s)\<lparr>l_replace := False\<rparr>\<rparr>"
  by (simp add: location_watch_def)

lemma watch_differing:
  "ad_counter s = 0 \<or> browser_url (ad_browser s) \<noteq> l_absUrl (ad_loc s) \<Longrightarrow>
     location_watch s = s\<lparr>ad_counter := ad_counter s + 1, ad_queue := ad_queue s @ [FromLocation (browser_url (ad_browser s)) (l_replace (ad_loc s))],
       ad_loc := (ad_loc s)\<lparr>l_replace := False\<rparr>\<rparr>"
  by (simp add: location_watch_def Let_def)

text \<open>
  C28. The address bar follows the location: when no listener interferes and the browser has reported its last change, a digest ends
  after two passes at most, with the URL of the location in the address bar, nothing left in the queue, and the parts of the
  location as they were. The browser has to show this URL as it is: a URL that it serialises to another one is not in the claim.
\<close>

theorem address_follows_location:
  assumes "silent h" "ad_queue s = []" "browser_ok (ad_browser s)" "shown_url (ad_browser s) (l_absUrl (ad_loc s))"
    and fresh: "b_last (ad_browser s) = l_absUrl (ad_loc s) \<longrightarrow> browser_url (ad_browser s) = l_absUrl (ad_loc s)"
  shows "\<exists>t. url_digest (Suc (Suc n)) msie node h s = Some t \<and> browser_url (ad_browser t) = l_absUrl (ad_loc s)
    \<and> ad_queue t = [] \<and> ad_loc t = (ad_loc s)\<lparr>l_replace := False\<rparr>"
proof (cases "ad_counter s = 0 \<or> browser_url (ad_browser s) \<noteq> l_absUrl (ad_loc s)")
  case False
  then show ?thesis using assms(2) by (simp add: watch_agreeing Let_def)
next
  case True
  define s1 where "s1 = location_watch s"
  define s2 where "s2 = drain_urls msie node h s1"
  have s1: "s1 = s\<lparr>ad_counter := ad_counter s + 1, ad_queue := [FromLocation (browser_url (ad_browser s)) (l_replace (ad_loc s))],
      ad_loc := (ad_loc s)\<lparr>l_replace := False\<rparr>\<rparr>"
    using True assms(2) by (simp add: s1_def watch_differing)
  have s2: "ad_queue s2 = []" "ad_counter s2 \<noteq> 0" "ad_loc s2 = (ad_loc s)\<lparr>l_replace := False\<rparr>"
    "ad_browser s2 = set_browser_url (l_absUrl (ad_loc s)) (l_replace (ad_loc s)) (ad_browser s)"
    by (simp_all add: s2_def s1 drain_urls_def silent_task [OF assms(1)])
  have b: "browser_url (ad_browser s2) = l_absUrl (ad_loc s2)"
    using set_browser_url_shows [OF assms(3,4) fresh] by (simp add: s2)
  have "ad_counter s1 \<noteq> ad_counter s" by (simp add: s1)
  then have "url_digest (Suc (Suc n)) msie node h s = url_digest (Suc n) msie node h s1"
    using assms(2) by (subst url_digest.simps) (simp add: Let_def flip: s1_def)
  also have "\<dots> = Some (location_watch s2)"
    using watch_agreeing [OF s2(2) b] s2(1) by (simp add: Let_def flip: s2_def)
  finally show ?thesis using watch_agreeing [OF s2(2) b] s2 b by simp
qed

theorem address_follows_location_witness:
  "\<exists>t. url_digest 10 False text_node \<lparr>on_start = \<lambda>n p l. (l, False), on_success = \<lambda>n p l. l\<rparr>
       \<lparr>ad_loc = demo_at ''/x'', ad_browser = new_browser True False demo_serial ''http://host/app#/y'', ad_queue = [], ad_counter = 0\<rparr> = Some t
     \<and> browser_url (ad_browser t) = ''http://host/app#/x''"
proof -
  have "l_absUrl (demo_at ''/x'') = ''http://host/app#/x''" by code_simp
  moreover have "shown_url (new_browser True False demo_serial ''http://host/app#/y'') ''http://host/app#/x''" by code_simp
  moreover have "browser_ok (new_browser True False demo_serial ''http://host/app#/y'')" "b_last (new_browser True False demo_serial ''http://host/app#/y'') \<noteq> ''http://host/app#/x''"
    by (simp_all add: browser_ok_def new_browser_def)
  ultimately show ?thesis
    using address_follows_location [of "\<lparr>on_start = \<lambda>n p l. (l, False), on_success = \<lambda>n p l. l\<rparr>"
        "\<lparr>ad_loc = demo_at ''/x'', ad_browser = new_browser True False demo_serial ''http://host/app#/y'', ad_queue = [], ad_counter = 0\<rparr>" 8 False text_node]
    by (simp add: silent_def del: url_digest.simps) blast
qed

text \<open>
  A digest between a change of the address bar and its report never settles: when the browser shows another URL than the location
  while the last URL that \<open>$browser\<close> remembers is that of the location, \<open>$browser.url\<close> declines to set it, the watcher counts on in
  every pass, and the digest fails whatever the limit of passes.
\<close>

theorem unreported_change_never_settles:
  assumes "silent h" "ad_queue s = []" "b_last (ad_browser s) = l_absUrl (ad_loc s)" "browser_url (ad_browser s) \<noteq> l_absUrl (ad_loc s)"
  shows "url_digest n msie node h s = None"
proof -
  have "url_digest n msie node h t = None"
    if "ad_browser t = ad_browser s" "l_absUrl (ad_loc t) = l_absUrl (ad_loc s)" "\<forall>x \<in> set (ad_queue t). \<exists>p r. x = FromLocation p r" for t
    using that
  proof (induction n arbitrary: t)
    case (Suc n)
    have tasks: "fold (run_url_task msie node h) q k = k"
      if "\<forall>x \<in> set q. \<exists>p r. x = FromLocation p r" "ad_browser k = ad_browser s" "l_absUrl (ad_loc k) = l_absUrl (ad_loc s)" for q k
      using that
    proof (induction q)
      case (Cons x q)
      then obtain p r where "x = FromLocation p r" by auto
      with Cons assms(3) have "run_url_task msie node h x k = k" by (simp add: silent_task [OF assms(1)] set_browser_url_def)
      with Cons show ?case by simp
    qed simp
    have d: "drain_urls msie node h t = t\<lparr>ad_queue := []\<rparr>" unfolding drain_urls_def using Suc.prems by (intro tasks) simp_all
    have w: "location_watch (t\<lparr>ad_queue := []\<rparr>) = t\<lparr>ad_queue := [FromLocation (browser_url (ad_browser t)) (l_replace (ad_loc t))],
        ad_counter := ad_counter t + 1, ad_loc := (ad_loc t)\<lparr>l_replace := False\<rparr>\<rparr>"
      using Suc.prems assms(4) by (subst watch_differing) simp_all
    have "url_digest n msie node h (location_watch (t\<lparr>ad_queue := []\<rparr>)) = None"
      unfolding w using Suc.prems by (intro Suc.IH) simp_all
    then show ?case using d w by (simp add: Let_def)
  qed simp
  then show ?thesis using assms(2) by simp
qed

theorem unreported_change_never_settles_witness:
  "url_digest 10 False text_node \<lparr>on_start = \<lambda>n p l. (l, False), on_success = \<lambda>n p l. l\<rparr>
     \<lparr>ad_loc = demo_at ''/x'', ad_browser = visit ''http://host/app#/y'' (new_browser True False demo_serial ''http://host/app#/x''), ad_queue = [],
       ad_counter = 1\<rparr> = None"
proof -
  have "l_absUrl (demo_at ''/x'') = ''http://host/app#/x''" by code_simp
  moreover have "browser_url (visit ''http://host/app#/y'' (new_browser True False demo_serial ''http://host/app#/x'')) = ''http://host/app#/y''" by code_simp
  ultimately show ?thesis
    by (intro unreported_change_never_settles) (simp_all add: silent_def new_browser_def visit_def)
qed

text \<open>
  The same happens when the browser shows another text than it was given. In HTML5 mode \<open>path('/a/../b')\<close> makes such a URL: the address bar shows
  it without the dots, \<open>$browser.url\<close> does not set it twice, and the digest fails.
\<close>

lemma serialised_away_never_settles:
  assumes "silent h" "ad_queue s = []" "b_history (ad_browser s)" "b_new (ad_browser s) = []"
    and "l_absUrl (ad_loc s) \<notin> {[], b_last (ad_browser s), browser_url (ad_browser s)}"
    and r: "replace_all False ''%27'' [char_of (39 :: nat)] (b_serial (ad_browser s) (l_absUrl (ad_loc s))) \<noteq> l_absUrl (ad_loc s)"
  shows "url_digest n msie node h s = None"
proof -
  define s1 where "s1 = location_watch s"
  define s2 where "s2 = drain_urls msie node h s1"
  have s1: "s1 = s\<lparr>ad_counter := ad_counter s + 1, ad_queue := [FromLocation (browser_url (ad_browser s)) (l_replace (ad_loc s))],
      ad_loc := (ad_loc s)\<lparr>l_replace := False\<rparr>\<rparr>"
    using assms(2,5) by (subst s1_def, subst watch_differing) auto
  have s2: "ad_queue s2 = []" "l_absUrl (ad_loc s2) = l_absUrl (ad_loc s)" "b_last (ad_browser s2) = l_absUrl (ad_loc s)"
    "browser_url (ad_browser s2) = replace_all False ''%27'' [char_of (39 :: nat)] (b_serial (ad_browser s) (l_absUrl (ad_loc s)))"
    using assms(3-5) by (auto simp: s2_def s1 drain_urls_def silent_task [OF assms(1)] set_browser_url_def browser_url_def visit_def visit_instead_def Let_def)
  have "url_digest m msie node h s1 = None" for m
  proof (cases m)
    case (Suc k)
    have "url_digest (Suc k) msie node h s1 = url_digest (Suc k) msie node h s2" using s2(1) by (simp add: Let_def flip: s2_def)
    then show ?thesis using Suc unreported_change_never_settles [OF assms(1) s2(1), of "Suc k" msie node] s2 r by simp
  qed simp
  moreover have "ad_counter s1 \<noteq> ad_counter s" by (simp add: s1)
  ultimately show ?thesis using assms(2) by (cases n) (simp_all add: Let_def flip: s1_def)
qed

lemma dots_never_settle:
  "let l = fst (set_path ''/a/../b'' (new_location False text_node Html5Url ''http://host/'' ''#'')) in
   l_absUrl l = ''http://host/a/../b'' \<and>
   url_digest n False text_node \<lparr>on_start = \<lambda>n p l. (l, False), on_success = \<lambda>n p l. l\<rparr>
     \<lparr>ad_loc = l, ad_browser = new_browser True False demo_serial ''http://host/'', ad_queue = [], ad_counter = 1\<rparr> = None"
proof -
  define l where "l = fst (set_path ''/a/../b'' (new_location False text_node Html5Url ''http://host/'' ''#''))"
  have u: "l_absUrl l = ''http://host/a/../b''" unfolding l_def by code_simp
  have "browser_url (new_browser True False demo_serial ''http://host/'') = ''http://host/''" by code_simp
  moreover have "replace_all False ''%27'' [char_of (39 :: nat)] (demo_serial ''http://host/a/../b'') = ''http://host/b''" by code_simp
  ultimately have "url_digest n False text_node \<lparr>on_start = \<lambda>n p l. (l, False), on_success = \<lambda>n p l. l\<rparr>
     \<lparr>ad_loc = l, ad_browser = new_browser True False demo_serial ''http://host/'', ad_queue = [], ad_counter = 1\<rparr> = None"
    by (intro serialised_away_never_settles) (simp_all add: silent_def u, simp_all add: new_browser_def)
  with u show ?thesis by (simp add: l_def)
qed

text \<open>Listeners that prevent every change and may set the parts of the location.\<close>

definition preventing :: "listeners \<Rightarrow> bool" where
  "preventing h \<longleftrightarrow> (\<forall>n p l. snd (on_start h n p l) \<and> same_app l (fst (on_start h n p l)))"

lemma same_app_trans: "same_app l m \<Longrightarrow> same_app m k \<Longrightarrow> same_app l k"
  by (simp add: same_app_def)

lemma parse_same_app: "parse msie node u l = (m, None) \<Longrightarrow> same_app l m"
proof -
  have c: "same_app l k \<Longrightarrow> same_app l (k\<lparr>l_path := p\<rparr>)" "same_app l k \<Longrightarrow> same_app l (composed k)" for k p
    by (simp_all add: same_app_def)
  show "parse msie node u l = (m, None) \<Longrightarrow> ?thesis"
    by (auto simp: parse_def parse_html5_def parse_hashbang_def and_then_def compose_eq intro!: c dest!: parseAppUrl_keeps
        split: option.splits prod.splits if_splits list.splits)
qed

text \<open>
  C27. A prevented change is undone: when the user goes to another URL that can be parsed and a listener of \<open>$locationChangeStart\<close>
  prevents the change, the location has the path, search, hash and URL that it had, and the address bar shows this URL again,
  whatever the listeners have done to the parts of the location. As for the round trip, the path has no segments of dots, and the browser
  shows the URL of the location as it is.
\<close>

theorem prevented_change_undone:
  assumes "splits_urls node" "preventing h" "loc_ok (ad_loc s)" "in_step (ad_loc s)" "shown_url (ad_browser s) (l_absUrl (ad_loc s))"
    and "browser_ok (ad_browser s)" "ad_queue s = []"
    and u: "snd (fireUrlChange (visit url (ad_browser s))) = Some u" "u \<noteq> l_absUrl (ad_loc s)" "snd (parse msie node u (ad_loc s)) = None"
  shows "let t = drain_urls msie node h (navigate url s) in
    l_path (ad_loc t) = l_path (ad_loc s) \<and> l_search (ad_loc t) = l_search (ad_loc s) \<and> l_hash (ad_loc t) = l_hash (ad_loc s)
    \<and> l_absUrl (ad_loc t) = l_absUrl (ad_loc s) \<and> browser_url (ad_browser t) = l_absUrl (ad_loc s)"
proof -
  let ?l = "ad_loc s" and ?old = "l_absUrl (ad_loc s)"
  obtain b where b: "fireUrlChange (visit url (ad_browser s)) = (b, Some u)" using u(1) by (cases "fireUrlChange (visit url (ad_browser s))") auto
  then have last: "b_last b = u" by (auto simp: fireUrlChange_def Let_def split: if_splits)
  have bo: "browser_ok b" using browser_keeps(2) [of "ad_browser s" url] browser_keeps(3) [of "visit url (ad_browser s)"] assms(6) b by simp
  have "b_serial b = b_serial (ad_browser s)" using serial_keeps(3) [of "visit url (ad_browser s)"] b by simp
  then have shown: "shown_url b ?old" using assms(5) by (simp add: shown_url_def)
  obtain m where m: "parse msie node u ?l = (m, None)" using u(3) by (cases "parse msie node u ?l") auto
  obtain k where k: "on_start h u ?old m = (k, True)" "same_app m k"
    using assms(2) by (cases "on_start h u ?old m") (metis preventing_def fst_conv snd_conv)
  have app: "same_app ?l k" using parse_same_app [OF m] k(2) by (rule same_app_trans)
  have abs: "l_absUrl (composed ?l) = ?old" using assms(4) by (simp add: in_step_def)
  have again: "parse msie node ?old k = (composed (with_parts (l_path ?l) (l_search ?l) (l_hash ?l) k), None)"
    using parse_composed [OF assms(1,3) app, of msie] by (simp add: abs)
  have same: "l_absUrl (composed (with_parts (l_path ?l) (l_search ?l) (l_hash ?l) k)) = ?old"
  proof -
    have "loc_text (with_parts (l_path ?l) (l_search ?l) (l_hash ?l) k) = loc_text ?l" by (simp add: loc_text_def url_text_def)
    then show ?thesis using app abs by (cases "l_mode k") (auto simp: composed_def Let_def same_app_def split: if_splits)
  qed
  have "drain_urls msie node h (navigate url s) = from_browser msie node h u (s\<lparr>ad_browser := b, ad_queue := []\<rparr>)"
    using assms(7) b u(2) by (simp add: navigate_def url_changed_def drain_urls_def run_url_task_def)
  also have "\<dots> = s\<lparr>ad_browser := set_browser_url ?old False b, ad_queue := [],
      ad_loc := composed (with_parts (l_path ?l) (l_search ?l) (l_hash ?l) k)\<rparr>"
    by (simp add: from_browser_def parse_in_def m k again)
  finally show ?thesis using set_browser_url_shows [OF bo shown, of False] last u(2) same by (simp add: Let_def)
qed

theorem prevented_change_undone_witness:
  "let t = drain_urls False text_node \<lparr>on_start = \<lambda>n p l. (fst (set_path ''/z'' l), True), on_success = \<lambda>n p l. l\<rparr>
       (navigate ''http://host/app#/y'' \<lparr>ad_loc = demo_at ''/x'', ad_browser = new_browser True False demo_serial ''http://host/app#/x'',
          ad_queue = [], ad_counter = 1\<rparr>) in
     l_path (ad_loc t) = ''/x'' \<and> browser_url (ad_browser t) = ''http://host/app#/x''"
proof -
  have at: "l_absUrl (demo_at ''/x'') = ''http://host/app#/x''" "l_path (demo_at ''/x'') = ''/x''" by code_simp+
  have "loc_ok (demo_at ''/x'')" "in_step (demo_at ''/x'')" "shown_url (new_browser True False demo_serial ''http://host/app#/x'') ''http://host/app#/x''" by code_simp+
  moreover have "preventing \<lparr>on_start = \<lambda>n p l. (fst (set_path ''/z'' l), True), on_success = \<lambda>n p l. l\<rparr>"
    by (simp add: preventing_def same_app_def set_path_def compose_eq)
  moreover have "browser_ok (new_browser True False demo_serial ''http://host/app#/x'')" by code_simp
  moreover have "snd (fireUrlChange (visit ''http://host/app#/y'' (new_browser True False demo_serial ''http://host/app#/x''))) = Some ''http://host/app#/y''"
    by code_simp
  moreover have "snd (parse False text_node ''http://host/app#/y'' (demo_at ''/x'')) = None" by code_simp
  ultimately show ?thesis
    using prevented_change_undone [OF text_node_splits, where h = "\<lparr>on_start = \<lambda>n p l. (fst (set_path ''/z'' l), True), on_success = \<lambda>n p l. l\<rparr>"
        and s = "\<lparr>ad_loc = demo_at ''/x'', ad_browser = new_browser True False demo_serial ''http://host/app#/x'', ad_queue = [], ad_counter = 1\<rparr>"
        and url = "''http://host/app#/y''" and u = "''http://host/app#/y''" and msie = False]
    by (simp add: at Let_def)
qed

end
