(* ===== verification/Angular_Lexer.thy ===== *)
theory Angular_Lexer
  imports Js_Prelude
begin

text \<open>
  The lexer of the expression language (\<open>Lexer\<close> in \<open>angular-1.2.21.js\<close>). A token comes with its position, which is for messages only, and has a text; its kind tells what
  its \<open>fn\<close>, \<open>string\<close>, \<open>literal\<close> and \<open>constant\<close> are. The value of a number is kept as the text that is converted to it. Texts have
  8-bit characters. Of the getter of an identifier, which is built here, only the check of its names takes part. Promises are not
  unwrapped, as it is the default.
\<close>

section \<open>Tokens\<close>

text \<open>
  A number; a string with its value; a word that \<open>OPERATORS\<close> has (\<open>null\<close>, \<open>true\<close>, \<open>false\<close>, \<open>undefined\<close>); an identifier, maybe with
  dots, whose \<open>fn\<close> is a getter; an operator with its function; a token without \<open>fn\<close>.
\<close>

datatype lex_kind = LNumber | LString string | LWord | LIdent | LOperator | LPlain

record lex_token =
  lt_text :: string
  lt_kind :: lex_kind

datatype lex_error = UnterminatedQuote | InvalidUnicodeEscape | InvalidExponent | UnexpectedCharacter | WideCharacter
  | DisallowedField

definition mk_token :: "string \<Rightarrow> lex_kind \<Rightarrow> lex_token" where
  "mk_token t k = \<lparr>lt_text = t, lt_kind = k\<rparr>"

text \<open>What a round of the lexer gives: tokens with their positions and the index after them, or an error.\<close>

type_synonym lexed = "lex_error + (nat \<times> lex_token) list \<times> nat"

definition operators :: "string list" where
  "operators = [''+'', ''-'', ''*'', ''/'', ''%'', ''^'', ''='', ''==='', ''!=='', ''=='', ''!='', ''<'', ''>'', ''<='', ''>='',
     ''&&'', ''||'', ''&'', ''|'', ''!'']"

definition operator_words :: "string list" where
  "operator_words = [''null'', ''true'', ''false'', ''undefined'']"

section \<open>Characters\<close>

text \<open>\<open>peek\<close>: the character some places after the current one, \<open>None\<close> for \<open>false\<close>.\<close>

definition lex_peek :: "string \<Rightarrow> nat \<Rightarrow> nat \<Rightarrow> char option" where
  "lex_peek text index num = (if index + num < length text then Some (text ! (index + num)) else None)"

definition isNumber :: "char \<Rightarrow> bool" where
  "isNumber ch \<longleftrightarrow> is_digit ch"

text \<open>\<open>isNumber(this.peek())\<close>: \<open>'0' <= false && false <= '9'\<close> compares numbers and holds.\<close>

definition isNumber_peek :: "char option \<Rightarrow> bool" where
  "isNumber_peek p = (case p of None \<Rightarrow> True | Some ch \<Rightarrow> isNumber ch)"

definition isWhitespace :: "char \<Rightarrow> bool" where
  "isWhitespace ch \<longleftrightarrow> (of_char ch :: nat) \<in> {32, 13, 9, 10, 11, 160}"

definition isIdent :: "char \<Rightarrow> bool" where
  "isIdent ch \<longleftrightarrow> (let n = of_char ch :: nat in 97 \<le> n \<and> n \<le> 122 \<or> 65 \<le> n \<and> n \<le> 90 \<or> n = 95 \<or> n = 36)"

definition isExpOperator :: "char option \<Rightarrow> bool" where
  "isExpOperator p \<longleftrightarrow> p = Some (CHR ''-'') \<or> p = Some (CHR ''+'') \<or> isNumber_peek p"

definition lex_quote :: "char \<Rightarrow> bool" where
  "lex_quote ch \<longleftrightarrow> (of_char ch :: nat) \<in> {34, 39}"

section \<open>Numbers\<close>

text \<open>The loop of \<open>readNumber\<close>: the text of the number and the index after it.\<close>

function number_loop :: "string \<Rightarrow> nat \<Rightarrow> string \<Rightarrow> lex_error + string \<times> nat" where
  "number_loop text index number =
     (if index < length text then
        let ch = ascii_lower (text ! index); peekCh = lex_peek text index 1; after_e = (number \<noteq> [] \<and> last number = CHR ''e'') in
        if ch = CHR ''.'' \<or> isNumber ch then number_loop text (index + 1) (number @ [ch])
        else if ch = CHR ''e'' \<and> isExpOperator peekCh then number_loop text (index + 1) (number @ [ch])
        else if isExpOperator (Some ch) \<and> peekCh \<noteq> None \<and> isNumber_peek peekCh \<and> after_e then number_loop text (index + 1) (number @ [ch])
        else if isExpOperator (Some ch) \<and> (peekCh = None \<or> \<not> isNumber_peek peekCh) \<and> after_e then Inl InvalidExponent
        else Inr (number, index)
      else Inr (number, index))"
  by pat_completeness auto

termination
  by (relation "measure (\<lambda>(text, index, number). length text - index)") auto

declare number_loop.simps [simp del]

definition readNumber :: "string \<Rightarrow> nat \<Rightarrow> lexed" where
  "readNumber text index =
     (case number_loop text index [] of
        Inl e \<Rightarrow> Inl e
      | Inr (number, index') \<Rightarrow> Inr ([(index, mk_token number LNumber)], index'))"

section \<open>Identifiers\<close>

definition ensureSafeMemberName :: "string \<Rightarrow> bool" where
  "ensureSafeMemberName name \<longleftrightarrow>
     name \<notin> {''__defineGetter__'', ''__defineSetter__'', ''__lookupGetter__'', ''__lookupSetter__'', ''__proto__''}"

text \<open>The check of \<open>getterFn\<close>; under a content security policy longer paths are checked when they are evaluated.\<close>

definition getter_ok :: "bool \<Rightarrow> string \<Rightarrow> bool" where
  "getter_ok csp path = (let pathKeys = split_char (CHR ''.'') path in
     if csp \<and> \<not> length pathKeys < 6 then True else list_all ensureSafeMemberName pathKeys)"

text \<open>The first loop of \<open>readIdent\<close>: the text, the place of the last dot, the index after it.\<close>

function ident_loop :: "string \<Rightarrow> nat \<Rightarrow> string \<Rightarrow> nat option \<Rightarrow> string \<times> nat option \<times> nat" where
  "ident_loop text index ident lastDot =
     (if index < length text then
        let ch = text ! index in
        if ch = CHR ''.'' \<or> isIdent ch \<or> isNumber ch
        then ident_loop text (index + 1) (ident @ [ch]) (if ch = CHR ''.'' then Some index else lastDot)
        else (ident, lastDot, index)
      else (ident, lastDot, index))"
  by pat_completeness auto

termination
  by (relation "measure (\<lambda>(text, index, ident, lastDot). length text - index)") auto

declare ident_loop.simps [simp del]

text \<open>The second loop: the place of a parenthesis that follows, after white space.\<close>

function paren_at :: "string \<Rightarrow> nat \<Rightarrow> nat option" where
  "paren_at text peekIndex =
     (if peekIndex < length text then
        let ch = text ! peekIndex in
        if ch = CHR ''('' then Some peekIndex else if isWhitespace ch then paren_at text (peekIndex + 1) else None
      else None)"
  by pat_completeness auto

termination
  by (relation "measure (\<lambda>(text, peekIndex). length text - peekIndex)") auto

declare paren_at.simps [simp del]

definition ident_token :: "string \<Rightarrow> lex_token" where
  "ident_token ident = mk_token ident (if ident \<in> set operator_words then LWord else LIdent)"

definition ident_ok :: "bool \<Rightarrow> string \<Rightarrow> bool" where
  "ident_ok csp ident \<longleftrightarrow> ident \<in> set operator_words \<or> getter_ok csp ident"

text \<open>A method that is called is split off; when its name is empty only the dot is dropped.\<close>

definition readIdent :: "bool \<Rightarrow> string \<Rightarrow> nat \<Rightarrow> lexed" where
  "readIdent csp text start =
     (case ident_loop text start [] None of
        (ident, lastDot, index) \<Rightarrow>
          (let (ident, methodName, index) =
             (case lastDot of
                None \<Rightarrow> (ident, [], index)
              | Some d \<Rightarrow>
                  (case paren_at text index of
                     None \<Rightarrow> (ident, [], index)
                   | Some p \<Rightarrow> (take (d - start) ident, drop (d - start + 1) ident, p)))
           in if ident_ok csp ident
              then Inr ((start, ident_token ident) #
                     (if methodName \<noteq> [] then [(the lastDot, mk_token ''.'' LPlain), (the lastDot + 1, mk_token methodName LPlain)] else []), index)
              else Inl DisallowedField))"

section \<open>Strings\<close>

definition hex4 :: "string \<Rightarrow> nat option" where
  "hex4 s = (case s of
     [a, b, c, d] \<Rightarrow> (case (hex_val a, hex_val b, hex_val c, hex_val d) of
         (Some w, Some x, Some y, Some z) \<Rightarrow> Some (4096 * w + 256 * x + 16 * y + z) | _ \<Rightarrow> None)
   | _ \<Rightarrow> None)"

text \<open>\<open>ESCAPE[ch] || ch\<close>\<close>

definition escape_char :: "char \<Rightarrow> char" where
  "escape_char ch =
     (if ch = CHR ''n'' then char_of (10 :: nat) else if ch = CHR ''f'' then char_of (12 :: nat)
      else if ch = CHR ''r'' then char_of (13 :: nat) else if ch = CHR ''t'' then char_of (9 :: nat)
      else if ch = CHR ''v'' then char_of (11 :: nat) else ch)"

text \<open>The loop of \<open>readString\<close>: the raw text (without the digits of unicode escapes), the value and the index after the quote.\<close>

function string_loop :: "char \<Rightarrow> string \<Rightarrow> nat \<Rightarrow> string \<Rightarrow> string \<Rightarrow> bool \<Rightarrow> lex_error + string \<times> string \<times> nat" where
  "string_loop quote text index raw val esc =
     (if index < length text then
        let ch = text ! index; raw = raw @ [ch] in
        if esc then
          if ch = CHR ''u'' then
            (case hex4 (take 4 (drop (index + 1) text)) of
               None \<Rightarrow> Inl InvalidUnicodeEscape
             | Some n \<Rightarrow> if n < 256 then string_loop quote text (index + 5) raw (val @ [char_of n]) False else Inl WideCharacter)
          else string_loop quote text (index + 1) raw (val @ [escape_char ch]) False
        else if (of_char ch :: nat) = 92 then string_loop quote text (index + 1) raw val True
        else if ch = quote then Inr (raw, val, index + 1)
        else string_loop quote text (index + 1) raw (val @ [ch]) False
      else Inl UnterminatedQuote)"
  by pat_completeness auto

termination
  by (relation "measure (\<lambda>(quote, text, index, raw, val, esc). length text - index)") auto

declare string_loop.simps [simp del]

definition readString :: "char \<Rightarrow> string \<Rightarrow> nat \<Rightarrow> lexed" where
  "readString quote text start =
     (case string_loop quote text (start + 1) [quote] [] False of
        Inl e \<Rightarrow> Inl e
      | Inr (raw, val, index) \<Rightarrow> Inr ([(start, mk_token raw (LString val))], index))"

section \<open>The lexer\<close>

text \<open>The text of the current character and the next ones; a missing one is \<open>false\<close>, so that no operator is spelt.\<close>

definition lex_chars :: "string \<Rightarrow> nat \<Rightarrow> nat \<Rightarrow> string option" where
  "lex_chars text index n = (if index + n \<le> length text then Some (take n (drop index text)) else None)"

definition lex_operator :: "string \<Rightarrow> nat \<Rightarrow> nat \<Rightarrow> string option" where
  "lex_operator text index n = (case lex_chars text index n of Some s \<Rightarrow> if s \<in> set operators then Some s else None | None \<Rightarrow> None)"

definition read_operator :: "string \<Rightarrow> nat \<Rightarrow> lexed" where
  "read_operator text index =
     (case lex_operator text index 3 of
        Some s \<Rightarrow> Inr ([(index, mk_token s LOperator)], index + 3)
      | None \<Rightarrow>
          (case lex_operator text index 2 of
             Some s \<Rightarrow> Inr ([(index, mk_token s LOperator)], index + 2)
           | None \<Rightarrow>
               (case lex_operator text index 1 of
                  Some s \<Rightarrow> Inr ([(index, mk_token s LOperator)], index + 1)
                | None \<Rightarrow> Inl UnexpectedCharacter)))"

text \<open>One round of the loop of \<open>lex\<close> at an index inside the text.\<close>

definition lex_step :: "bool \<Rightarrow> string \<Rightarrow> nat \<Rightarrow> lexed" where
  "lex_step csp text index =
     (let ch = text ! index in
      if lex_quote ch then readString ch text index
      else if isNumber ch \<or> ch = CHR ''.'' \<and> isNumber_peek (lex_peek text index 1) then readNumber text index
      else if isIdent ch then readIdent csp text index
      else if ch \<in> set ''(){}[].,;:?'' then Inr ([(index, mk_token [ch] LPlain)], index + 1)
      else if isWhitespace ch then Inr ([], index + 1)
      else read_operator text index)"

text \<open>Every round goes forward.\<close>

lemma number_loop_ge: "number_loop s i num = Inr (n, j) \<Longrightarrow> i \<le> j"
proof (induction "length s - i" arbitrary: i num rule: less_induct)
  case less
  have step: "i \<le> j" if "number_loop s (Suc i) nm = Inr (n, j)" "i < length s" for nm
  proof -
    have "length s - Suc i < length s - i" using that(2) by linarith
    from less.hyps [OF this that(1)] show ?thesis by simp
  qed
  from less.prems show ?case
    by (subst (asm) number_loop.simps) (auto simp: Let_def split: if_splits intro: step)
qed

lemma ident_loop_ge: "ident_loop s i ident d = (n, e, j) \<Longrightarrow> i \<le> j"
proof (induction "length s - i" arbitrary: i ident d rule: less_induct)
  case less
  have step: "i \<le> j" if "ident_loop s (Suc i) nm x = (n, e, j)" "i < length s" for nm x
  proof -
    have "length s - Suc i < length s - i" using that(2) by linarith
    from less.hyps [OF this that(1)] show ?thesis by simp
  qed
  from less.prems show ?case
    by (subst (asm) ident_loop.simps) (auto simp: Let_def split: if_splits intro: step)
qed

lemma paren_at_ge: "paren_at s i = Some j \<Longrightarrow> i \<le> j"
proof (induction "length s - i" arbitrary: i rule: less_induct)
  case less
  have step: "i \<le> j" if "paren_at s (Suc i) = Some j" "i < length s"
  proof -
    have "length s - Suc i < length s - i" using that(2) by linarith
    from less.hyps [OF this that(1)] show ?thesis by simp
  qed
  from less.prems show ?case
    by (subst (asm) paren_at.simps) (auto simp: Let_def split: if_splits intro: step)
qed

lemma string_loop_ge: "string_loop q s i raw val esc = Inr (r, v, j) \<Longrightarrow> i \<le> j"
proof (induction "length s - i" arbitrary: i raw val esc rule: less_induct)
  case less
  have step: "i \<le> j" if "string_loop q s k rw vl es = Inr (r, v, j)" "i < length s" "i < k" for k rw vl es
  proof -
    have "length s - k < length s - i" using that(2,3) by linarith
    from less.hyps [OF this that(1)] that(3) show ?thesis by simp
  qed
  from less.prems show ?case
    by (subst (asm) string_loop.simps) (auto simp: Let_def split: if_splits option.splits intro: step)
qed

lemma read_operator_gt: "read_operator s i = Inr (ts, j) \<Longrightarrow> i < j"
  by (auto simp: read_operator_def split: option.splits)

lemma lex_step_gt: "lex_step csp s i = Inr (ts, j) \<Longrightarrow> i < length s \<Longrightarrow> i < j"
proof -
  assume l: "lex_step csp s i = Inr (ts, j)" and i: "i < length s"
  have num: "i < j" if "readNumber s i = Inr (ts, j)" "isNumber (s ! i) \<or> s ! i = CHR ''.''"
  proof -
    have "ascii_lower (s ! i) = s ! i" using that(2) by (auto simp: isNumber_def is_digit_def ascii_lower_def)
    then have "number_loop s i [] = number_loop s (Suc i) [s ! i]"
      using that(2) i by (subst number_loop.simps) (auto simp: Let_def)
    with that(1) show ?thesis by (auto simp: readNumber_def split: sum.splits dest: number_loop_ge)
  qed
  have ident: "i < j" if "readIdent csp s i = Inr (ts, j)" "isIdent (s ! i)"
  proof -
    have "ident_loop s i [] None = ident_loop s (Suc i) [s ! i] (if s ! i = CHR ''.'' then Some i else None)"
      using that(2) i by (subst ident_loop.simps) (simp add: Let_def)
    then obtain n e k where k: "ident_loop s i [] None = (n, e, k)" "i < k"
      using ident_loop_ge [of s "Suc i"] by (metis Suc_le_eq prod_cases3)
    with that(1) show ?thesis
      using paren_at_ge [of s k] by (auto simp: readIdent_def Let_def split: option.splits if_splits)
  qed
  from l num ident show ?thesis
    by (auto simp: lex_step_def Let_def readString_def split: if_splits sum.splits dest!: string_loop_ge read_operator_gt)
qed

text \<open>The loop of \<open>lex\<close>.\<close>

function lex_loop :: "bool \<Rightarrow> string \<Rightarrow> nat \<Rightarrow> (nat \<times> lex_token) list \<Rightarrow> lex_error + (nat \<times> lex_token) list" where
  "lex_loop csp text index tokens =
     (if index < length text then
        (case lex_step csp text index of
           Inl e \<Rightarrow> Inl e
         | Inr (ts, index') \<Rightarrow> lex_loop csp text index' (tokens @ ts))
      else Inr tokens)"
  by pat_completeness auto

termination
  by (relation "measure (\<lambda>(csp, text, index, tokens). length text - index)") (auto dest!: lex_step_gt)

declare lex_loop.simps [simp del]

definition lex :: "bool \<Rightarrow> string \<Rightarrow> lex_error + (nat \<times> lex_token) list" where
  "lex csp text = lex_loop csp text 0 []"

end
