(* ===== verification/Angular_Parser.thy ===== *)
theory Angular_Parser
  imports Angular_Lexer
begin

text \<open>
  The parser of the expression language (\<open>Parser\<close> in \<open>angular-1.2.21.js\<close>). It gives a tree instead of a closure, with the
  properties \<open>assign\<close>, \<open>literal\<close> and \<open>constant\<close> of the closure as functions of the tree. Each method is a definition that
  takes the methods it calls as an argument (\<open>rec\<close>); loops are methods with their variables as arguments. The knot is tied by
  recursion on fuel, of which there is enough. Messages of errors, and with them the positions of tokens, are left out.
\<close>

section \<open>Trees and results\<close>

text \<open>
  A number with its text, a string, a word of \<open>OPERATORS\<close>, a getter for a path, an operator that stands where an operand should;
  the negation subtracts from \<open>Parser.ZERO\<close>; a filter has its name and arguments; a call has the function and the
  context (\<open>None\<close> where \<open>context\<close> is undefined or null); a sequence has no statement or several.
\<close>

datatype ex =
    ENum string | EStr string | EWord string | EPath string | EOp string
  | ENeg ex | ENot ex | EBin string ex ex | ETern ex ex ex | EAssign ex ex
  | EFilter ex string "ex list" | EField ex string | EIndex ex ex | ECall ex "ex option" "ex list"
  | EArr "ex list" | EObj "(string \<times> ex) list" | ESeq "ex list"

datatype parse_error =
    LexError lex_error | NotPrimary | UnexpectedToken | UnexpectedEnd | NotAssignable | ExpectedColon | ExpectedText string
  | FieldTypeError | DisallowedName | GeneratedSource | UnknownFilter | NumberKey | OutOfFuel

type_synonym parsed = "parse_error + ex \<times> lex_token list"

definition and_parse :: "parsed \<Rightarrow> (ex \<Rightarrow> lex_token list \<Rightarrow> parsed) \<Rightarrow> parsed" where
  "and_parse r f = (case r of Inl e \<Rightarrow> Inl e | Inr (x, ts) \<Rightarrow> f x ts)"

text \<open>The methods that a method may call.\<close>

datatype nterm =
    NStatements "ex list" | NFilterChain | NFilterLoop ex | NFilterArgs ex string "ex list" | NExpression | NTernary
  | NLogicalOR | NOrLoop ex | NLogicalAND | NEquality | NRelational | NAdditive | NAddLoop ex | NMultiplicative | NMulLoop ex
  | NUnary | NPrimary | NSuffix ex "ex option" | NCallArgs ex "ex option" "ex list" | NElements "ex list" | NKeys "(string \<times> ex) list"

section \<open>Tokens\<close>

text \<open>\<open>token.text === e\<close>; the text of a number token is a number.\<close>

definition has_text :: "string \<Rightarrow> lex_token \<Rightarrow> bool" where
  "has_text e t \<longleftrightarrow> lt_kind t \<noteq> LNumber \<and> lt_text t = e"

text \<open>\<open>peek(e1, e2, \<dots>)\<close> and \<open>expect(e1, e2, \<dots>)\<close> for given texts, and \<open>consume\<close>.\<close>

definition peek_text :: "string list \<Rightarrow> lex_token list \<Rightarrow> bool" where
  "peek_text es ts = (case ts of [] \<Rightarrow> False | t # _ \<Rightarrow> \<exists>e \<in> set es. has_text e t)"

definition expect :: "string list \<Rightarrow> lex_token list \<Rightarrow> (string \<times> lex_token list) option" where
  "expect es ts = (case ts of [] \<Rightarrow> None | t # ts' \<Rightarrow> if peek_text es ts then Some (lt_text t, ts') else None)"

definition consume :: "string \<Rightarrow> ex \<Rightarrow> lex_token list \<Rightarrow> parsed" where
  "consume e x ts = (case expect [e] ts of None \<Rightarrow> Inl (ExpectedText e) | Some (_, ts') \<Rightarrow> Inr (x, ts'))"

definition assignable :: "ex \<Rightarrow> bool" where
  "assignable x = (case x of EPath _ \<Rightarrow> True | EField _ _ \<Rightarrow> True | EIndex _ _ \<Rightarrow> True | _ \<Rightarrow> False)"

section \<open>The methods\<close>

type_synonym methods = "nterm \<Rightarrow> lex_token list \<Rightarrow> parsed"

definition statements :: "methods \<Rightarrow> ex list \<Rightarrow> lex_token list \<Rightarrow> parsed" where
  "statements rec xs ts =
     (let finish = (\<lambda>xs ts. case expect ['';''] ts of
                       Some (_, ts) \<Rightarrow> rec (NStatements xs) ts
                     | None \<Rightarrow> Inr (case xs of [x] \<Rightarrow> x | _ \<Rightarrow> ESeq xs, ts))
      in if ts \<noteq> [] \<and> \<not> peek_text [''}'', '')'', '';'', '']''] ts
         then and_parse (rec NFilterChain ts) (\<lambda>x ts. finish (xs @ [x]) ts)
         else finish xs ts)"

definition filterChain :: "methods \<Rightarrow> lex_token list \<Rightarrow> parsed" where
  "filterChain rec ts = and_parse (rec NExpression ts) (\<lambda>left ts. rec (NFilterLoop left) ts)"

text \<open>\<open>filters\<close> tells which names \<open>$filter\<close> knows; it is called with the text of any token, and with \<open>undefined\<close> at the end.\<close>

definition filterLoop :: "(string \<Rightarrow> bool) \<Rightarrow> methods \<Rightarrow> ex \<Rightarrow> lex_token list \<Rightarrow> parsed" where
  "filterLoop filters rec left ts =
     (case expect [''|''] ts of
        None \<Rightarrow> Inr (left, ts)
      | Some (_, []) \<Rightarrow> Inl UnknownFilter
      | Some (_, t # ts') \<Rightarrow> if filters (lt_text t) then rec (NFilterArgs left (lt_text t) []) ts' else Inl UnknownFilter)"

definition filterArgs :: "methods \<Rightarrow> ex \<Rightarrow> string \<Rightarrow> ex list \<Rightarrow> lex_token list \<Rightarrow> parsed" where
  "filterArgs rec left name args ts =
     (case expect ['':''] ts of
        Some (_, ts) \<Rightarrow> and_parse (rec NExpression ts) (\<lambda>x ts. rec (NFilterArgs left name (args @ [x])) ts)
      | None \<Rightarrow> rec (NFilterLoop (EFilter left name args)) ts)"

definition assignment :: "methods \<Rightarrow> lex_token list \<Rightarrow> parsed" where
  "assignment rec ts =
     and_parse (rec NTernary ts)
       (\<lambda>left ts. case expect [''=''] ts of
          None \<Rightarrow> Inr (left, ts)
        | Some (_, ts) \<Rightarrow>
            if assignable left then and_parse (rec NTernary ts) (\<lambda>right ts. Inr (EAssign left right, ts)) else Inl NotAssignable)"

definition ternary :: "methods \<Rightarrow> lex_token list \<Rightarrow> parsed" where
  "ternary rec ts =
     and_parse (rec NLogicalOR ts)
       (\<lambda>left ts. case expect [''?''] ts of
          None \<Rightarrow> Inr (left, ts)
        | Some (_, ts) \<Rightarrow>
            and_parse (rec NTernary ts)
              (\<lambda>middle ts. case expect ['':''] ts of
                 None \<Rightarrow> Inl ExpectedColon
               | Some (_, ts) \<Rightarrow> and_parse (rec NTernary ts) (\<lambda>right ts. Inr (ETern left middle right, ts))))"

definition logicalOR :: "methods \<Rightarrow> lex_token list \<Rightarrow> parsed" where
  "logicalOR rec ts = and_parse (rec NLogicalAND ts) (\<lambda>left ts. rec (NOrLoop left) ts)"

definition orLoop :: "methods \<Rightarrow> ex \<Rightarrow> lex_token list \<Rightarrow> parsed" where
  "orLoop rec left ts =
     (case expect [''||''] ts of
        None \<Rightarrow> Inr (left, ts)
      | Some (op, ts) \<Rightarrow> and_parse (rec NLogicalAND ts) (\<lambda>right ts. rec (NOrLoop (EBin op left right)) ts))"

definition logicalAND :: "methods \<Rightarrow> lex_token list \<Rightarrow> parsed" where
  "logicalAND rec ts =
     and_parse (rec NEquality ts)
       (\<lambda>left ts. case expect [''&&''] ts of
          None \<Rightarrow> Inr (left, ts)
        | Some (op, ts) \<Rightarrow> and_parse (rec NLogicalAND ts) (\<lambda>right ts. Inr (EBin op left right, ts)))"

definition equality :: "methods \<Rightarrow> lex_token list \<Rightarrow> parsed" where
  "equality rec ts =
     and_parse (rec NRelational ts)
       (\<lambda>left ts. case expect [''=='', ''!='', ''==='', ''!==''] ts of
          None \<Rightarrow> Inr (left, ts)
        | Some (op, ts) \<Rightarrow> and_parse (rec NEquality ts) (\<lambda>right ts. Inr (EBin op left right, ts)))"

definition relational :: "methods \<Rightarrow> lex_token list \<Rightarrow> parsed" where
  "relational rec ts =
     and_parse (rec NAdditive ts)
       (\<lambda>left ts. case expect [''<'', ''>'', ''<='', ''>=''] ts of
          None \<Rightarrow> Inr (left, ts)
        | Some (op, ts) \<Rightarrow> and_parse (rec NRelational ts) (\<lambda>right ts. Inr (EBin op left right, ts)))"

definition additive :: "methods \<Rightarrow> lex_token list \<Rightarrow> parsed" where
  "additive rec ts = and_parse (rec NMultiplicative ts) (\<lambda>left ts. rec (NAddLoop left) ts)"

definition addLoop :: "methods \<Rightarrow> ex \<Rightarrow> lex_token list \<Rightarrow> parsed" where
  "addLoop rec left ts =
     (case expect [''+'', ''-''] ts of
        None \<Rightarrow> Inr (left, ts)
      | Some (op, ts) \<Rightarrow> and_parse (rec NMultiplicative ts) (\<lambda>right ts. rec (NAddLoop (EBin op left right)) ts))"

definition multiplicative :: "methods \<Rightarrow> lex_token list \<Rightarrow> parsed" where
  "multiplicative rec ts = and_parse (rec NUnary ts) (\<lambda>left ts. rec (NMulLoop left) ts)"

definition mulLoop :: "methods \<Rightarrow> ex \<Rightarrow> lex_token list \<Rightarrow> parsed" where
  "mulLoop rec left ts =
     (case expect [''*'', ''/'', ''%''] ts of
        None \<Rightarrow> Inr (left, ts)
      | Some (op, ts) \<Rightarrow> and_parse (rec NUnary ts) (\<lambda>right ts. rec (NMulLoop (EBin op left right)) ts))"

definition unary :: "methods \<Rightarrow> lex_token list \<Rightarrow> parsed" where
  "unary rec ts =
     (case expect [''+''] ts of
        Some (_, ts) \<Rightarrow> rec NPrimary ts
      | None \<Rightarrow>
          (case expect [''-''] ts of
             Some (_, ts) \<Rightarrow> and_parse (rec NUnary ts) (\<lambda>x ts. Inr (ENeg x, ts))
           | None \<Rightarrow>
               (case expect [''!''] ts of
                  Some (_, ts) \<Rightarrow> and_parse (rec NUnary ts) (\<lambda>x ts. Inr (ENot x, ts))
                | None \<Rightarrow> rec NPrimary ts)))"

text \<open>The \<open>fn\<close> of a token, if it has one.\<close>

definition token_fn :: "lex_token \<Rightarrow> ex option" where
  "token_fn t =
     (case lt_kind t of
        LNumber \<Rightarrow> Some (ENum (lt_text t)) | LString s \<Rightarrow> Some (EStr s) | LWord \<Rightarrow> Some (EWord (lt_text t))
      | LIdent \<Rightarrow> Some (EPath (lt_text t)) | LOperator \<Rightarrow> Some (EOp (lt_text t)) | LPlain \<Rightarrow> None)"

definition more_than :: "lex_token list \<Rightarrow> string \<Rightarrow> (lex_token list \<Rightarrow> parsed) \<Rightarrow> (lex_token list \<Rightarrow> parsed) \<Rightarrow> parsed" where
  "more_than ts e some none =
     (case ts of [] \<Rightarrow> Inl UnexpectedEnd | t # _ \<Rightarrow> if has_text e t then none ts else some ts)"

definition primary :: "methods \<Rightarrow> lex_token list \<Rightarrow> parsed" where
  "primary rec ts =
     and_parse
       (case expect [''(''] ts of
          Some (_, ts) \<Rightarrow> and_parse (rec NFilterChain ts) (consume '')'')
        | None \<Rightarrow>
            (case expect [''[''] ts of
               Some (_, ts) \<Rightarrow> more_than ts '']'' (rec (NElements [])) (consume '']'' (EArr []))
             | None \<Rightarrow>
                 (case expect [''{''] ts of
                    Some (_, ts) \<Rightarrow> more_than ts ''}'' (rec (NKeys [])) (consume ''}'' (EObj []))
                  | None \<Rightarrow>
                      (case ts of
                         [] \<Rightarrow> Inl NotPrimary
                       | t # ts' \<Rightarrow> (case token_fn t of None \<Rightarrow> Inl NotPrimary | Some x \<Rightarrow> Inr (x, ts'))))))
       (\<lambda>x ts. rec (NSuffix x None) ts)"

text \<open>
  Without a content security policy \<open>getterFn\<close> writes the keys between double quotes into the source of a function. The raw text of a
  string token may end these quotes; what \<open>new Function\<close> makes of the source then, an error or a function with other code, is left
  out (\<open>GeneratedSource\<close>). Other tokens have none of these characters.
\<close>

definition source_key :: "lex_token \<Rightarrow> bool" where
  "source_key t \<longleftrightarrow> (case lt_kind t of LString _ \<Rightarrow> list_all (\<lambda>c. (of_char c :: nat) \<notin> {10, 13, 34, 92}) (lt_text t) | _ \<Rightarrow> True)"

text \<open>\<open>fieldAccess\<close>: the text of any token is the field; it is missing at the end, and a number for a number token.\<close>

definition fieldAccess :: "bool \<Rightarrow> ex \<Rightarrow> lex_token list \<Rightarrow> parsed" where
  "fieldAccess csp object ts =
     (case ts of
        [] \<Rightarrow> Inl FieldTypeError
      | t # ts' \<Rightarrow>
          if lt_kind t = LNumber then Inl FieldTypeError
          else if \<not> getter_ok csp (lt_text t) then Inl DisallowedName
          else if csp \<or> source_key t then Inr (EField object (lt_text t), ts')
          else Inl GeneratedSource)"

text \<open>The loop of \<open>primary\<close>, with \<open>objectIndex\<close> and the beginning of \<open>functionCall\<close>.\<close>

definition suffixLoop :: "bool \<Rightarrow> methods \<Rightarrow> ex \<Rightarrow> ex option \<Rightarrow> lex_token list \<Rightarrow> parsed" where
  "suffixLoop csp rec x context ts =
     (case expect [''('', ''['', ''.''] ts of
        None \<Rightarrow> Inr (x, ts)
      | Some (next, ts) \<Rightarrow>
          if next = ''('' then more_than ts '')'' (rec (NCallArgs x context []))
            (\<lambda>ts. and_parse (consume '')'' (ECall x context []) ts) (\<lambda>y ts. rec (NSuffix y None) ts))
          else if next = ''['' then
            and_parse (and_parse (rec NExpression ts) (\<lambda>i ts. consume '']'' (EIndex x i) ts)) (\<lambda>y ts. rec (NSuffix y (Some x)) ts)
          else and_parse (fieldAccess csp x ts) (\<lambda>y ts. rec (NSuffix y (Some x)) ts))"

definition callArgs :: "methods \<Rightarrow> ex \<Rightarrow> ex option \<Rightarrow> ex list \<Rightarrow> lex_token list \<Rightarrow> parsed" where
  "callArgs rec fn context args ts =
     and_parse (rec NExpression ts)
       (\<lambda>x ts. case expect ['',''] ts of
          Some (_, ts) \<Rightarrow> rec (NCallArgs fn context (args @ [x])) ts
        | None \<Rightarrow> and_parse (consume '')'' (ECall fn context (args @ [x])) ts) (\<lambda>y ts. rec (NSuffix y None) ts))"

definition elements :: "methods \<Rightarrow> ex list \<Rightarrow> lex_token list \<Rightarrow> parsed" where
  "elements rec xs ts =
     (if peek_text ['']''] ts then consume '']'' (EArr xs) ts
      else and_parse (rec NExpression ts)
        (\<lambda>x ts. case expect ['',''] ts of
           Some (_, ts) \<Rightarrow> rec (NElements (xs @ [x])) ts
         | None \<Rightarrow> consume '']'' (EArr (xs @ [x])) ts))"

text \<open>
  \<open>token.string || token.text\<close>; a number is a key by its decimal text, which is known here for whole numbers of 15 digits at most.
\<close>

definition token_key :: "lex_token \<Rightarrow> string option" where
  "token_key t =
     (case lt_kind t of
        LString s \<Rightarrow> Some (if s \<noteq> [] then s else lt_text t)
      | LNumber \<Rightarrow> if list_all is_digit (lt_text t) \<and> length (lt_text t) \<le> 15 then Some (nat_str (digits_val (lt_text t))) else None
      | _ \<Rightarrow> Some (lt_text t))"

definition keys :: "methods \<Rightarrow> (string \<times> ex) list \<Rightarrow> lex_token list \<Rightarrow> parsed" where
  "keys rec kvs ts =
     (if peek_text [''}''] ts then consume ''}'' (EObj kvs) ts
      else
        (case ts of
           [] \<Rightarrow> Inl (ExpectedText '':'')
         | t # ts' \<Rightarrow>
             (case token_key t of
                None \<Rightarrow> Inl NumberKey
              | Some key \<Rightarrow>
                  (case expect ['':''] ts' of
                     None \<Rightarrow> Inl (ExpectedText '':'')
                   | Some (_, ts) \<Rightarrow>
                       and_parse (rec NExpression ts)
                         (\<lambda>x ts. case expect ['',''] ts of
                            Some (_, ts) \<Rightarrow> rec (NKeys (kvs @ [(key, x)])) ts
                          | None \<Rightarrow> consume ''}'' (EObj (kvs @ [(key, x)])) ts)))))"

section \<open>The parser\<close>

definition run_method :: "bool \<Rightarrow> (string \<Rightarrow> bool) \<Rightarrow> methods \<Rightarrow> methods" where
  "run_method csp filters rec nt =
     (case nt of
        NStatements xs \<Rightarrow> statements rec xs | NFilterChain \<Rightarrow> filterChain rec | NFilterLoop left \<Rightarrow> filterLoop filters rec left
      | NFilterArgs left name args \<Rightarrow> filterArgs rec left name args | NExpression \<Rightarrow> assignment rec | NTernary \<Rightarrow> ternary rec
      | NLogicalOR \<Rightarrow> logicalOR rec | NOrLoop left \<Rightarrow> orLoop rec left | NLogicalAND \<Rightarrow> logicalAND rec | NEquality \<Rightarrow> equality rec
      | NRelational \<Rightarrow> relational rec | NAdditive \<Rightarrow> additive rec | NAddLoop left \<Rightarrow> addLoop rec left
      | NMultiplicative \<Rightarrow> multiplicative rec | NMulLoop left \<Rightarrow> mulLoop rec left | NUnary \<Rightarrow> unary rec | NPrimary \<Rightarrow> primary rec
      | NSuffix x context \<Rightarrow> suffixLoop csp rec x context | NCallArgs fn context args \<Rightarrow> callArgs rec fn context args
      | NElements xs \<Rightarrow> elements rec xs | NKeys kvs \<Rightarrow> keys rec kvs)"

primrec parse_at :: "bool \<Rightarrow> (string \<Rightarrow> bool) \<Rightarrow> nat \<Rightarrow> methods" where
  "parse_at csp filters 0 nt ts = Inl OutOfFuel"
| "parse_at csp filters (Suc n) nt ts = run_method csp filters (parse_at csp filters n) nt ts"

definition parse_tokens :: "bool \<Rightarrow> (string \<Rightarrow> bool) \<Rightarrow> lex_token list \<Rightarrow> parse_error + ex" where
  "parse_tokens csp filters ts =
     (case parse_at csp filters (20 * length ts + 20) (NStatements []) ts of
        Inl e \<Rightarrow> Inl e | Inr (x, []) \<Rightarrow> Inr x | Inr (x, _) \<Rightarrow> Inl UnexpectedToken)"

definition parse_expression :: "bool \<Rightarrow> (string \<Rightarrow> bool) \<Rightarrow> string \<Rightarrow> parse_error + ex" where
  "parse_expression csp filters text =
     (case lex csp text of Inl e \<Rightarrow> Inl (LexError e) | Inr ts \<Rightarrow> parse_tokens csp filters (map snd ts))"

text \<open>The properties \<open>literal\<close> and \<open>constant\<close> of the closure.\<close>

definition ex_literal :: "ex \<Rightarrow> bool" where
  "ex_literal x = (case x of ENum _ \<Rightarrow> True | EStr _ \<Rightarrow> True | EWord _ \<Rightarrow> True | EArr _ \<Rightarrow> True | EObj _ \<Rightarrow> True | _ \<Rightarrow> False)"

fun ex_constant :: "ex \<Rightarrow> bool" where
  "ex_constant (ENum _) = True"
| "ex_constant (EStr _) = True"
| "ex_constant (EWord _) = True"
| "ex_constant (ENeg x) = ex_constant x"
| "ex_constant (ENot x) = ex_constant x"
| "ex_constant (EBin _ x y) = (ex_constant x \<and> ex_constant y)"
| "ex_constant (ETern x y z) = (ex_constant x \<and> ex_constant y \<and> ex_constant z)"
| "ex_constant (EArr xs) = list_all ex_constant xs"
| "ex_constant (EObj kvs) = list_all (\<lambda>(k, x). ex_constant x) kvs"
| "ex_constant _ = False"

end
