(* ===== verification/Angular_Parser_Fuel.thy ===== *)
theory Angular_Parser_Fuel
  imports Angular_Parser
begin

text \<open>
  The parser always returns: every method leaves a shorter list of tokens or goes to a method of lower rank, so that the fuel of
  \<open>parse_tokens\<close> is never used up, and more fuel changes nothing.
\<close>

section \<open>Ranks\<close>

fun nt_rank :: "nterm \<Rightarrow> nat" where
  "nt_rank (NStatements _) = 14"
| "nt_rank NFilterChain = 13"
| "nt_rank NExpression = 12"
| "nt_rank NTernary = 11"
| "nt_rank NLogicalOR = 10"
| "nt_rank NLogicalAND = 9"
| "nt_rank NEquality = 8"
| "nt_rank NRelational = 7"
| "nt_rank NAdditive = 6"
| "nt_rank NMultiplicative = 5"
| "nt_rank NUnary = 4"
| "nt_rank NPrimary = 3"
| "nt_rank (NCallArgs _ _ _) = 13"
| "nt_rank (NElements _) = 13"
| "nt_rank (NKeys _) = 13"
| "nt_rank (NFilterArgs _ _ _) = 1"
| "nt_rank _ = 0"

text \<open>The methods that may return without having consumed a token.\<close>

fun nt_slack :: "nterm \<Rightarrow> nat" where
  "nt_slack (NStatements _) = 1"
| "nt_slack (NFilterLoop _) = 1"
| "nt_slack (NFilterArgs _ _ _) = 1"
| "nt_slack (NOrLoop _) = 1"
| "nt_slack (NAddLoop _) = 1"
| "nt_slack (NMulLoop _) = 1"
| "nt_slack (NSuffix _ _) = 1"
| "nt_slack _ = 0"

text \<open>A result that is not for want of fuel and leaves less than a number of tokens.\<close>

definition leaves :: "parsed \<Rightarrow> nat \<Rightarrow> bool" where
  "leaves r k \<longleftrightarrow> r \<noteq> Inl OutOfFuel \<and> (\<forall>x ts. r = Inr (x, ts) \<longrightarrow> length ts < k)"

lemma leaves_simps [simp]: "leaves (Inr (x, ts)) k \<longleftrightarrow> length ts < k" "leaves (Inl e) k \<longleftrightarrow> e \<noteq> OutOfFuel"
  by (simp_all add: leaves_def)

lemma leaves_mono: "leaves r j \<Longrightarrow> j \<le> k \<Longrightarrow> leaves r k"
  by (auto simp: leaves_def)

lemma leaves_and_parse: "leaves r j \<Longrightarrow> (\<And>x ts. length ts < j \<Longrightarrow> leaves (f x ts) k) \<Longrightarrow> leaves (and_parse r f) k"
  by (auto simp: leaves_def and_parse_def split: sum.splits prod.splits)

lemma expect_shorter: "expect es ts = Some (t, ts') \<Longrightarrow> length ts = Suc (length ts')"
  by (auto simp: expect_def split: list.splits if_splits)

lemma leaves_consume: "length ts \<le> k \<Longrightarrow> leaves (consume e x ts) k"
  by (auto simp: consume_def split: option.splits dest: expect_shorter)

lemma leaves_more_than: "(ts \<noteq> [] \<Longrightarrow> leaves (some ts) k) \<Longrightarrow> (ts \<noteq> [] \<Longrightarrow> leaves (none ts) k) \<Longrightarrow> leaves (more_than ts e some none) k"
  by (cases ts) (simp_all add: more_than_def)

section \<open>One method\<close>

definition enough :: "methods \<Rightarrow> nat \<Rightarrow> bool" where
  "enough rec m \<longleftrightarrow> (\<forall>nt ts. 20 * length ts + nt_rank nt < m \<longrightarrow> leaves (rec nt ts) (length ts + nt_slack nt))"

lemma enough_leaves: "enough rec m \<Longrightarrow> 20 * length ts + nt_rank nt < m \<Longrightarrow> length ts + nt_slack nt \<le> k \<Longrightarrow> leaves (rec nt ts) k"
  unfolding enough_def by (meson leaves_mono)

lemma nt_rank_lt: "nt_rank nt < 20"
  by (cases nt) auto

text \<open>On fewer tokens any method has enough fuel.\<close>

lemma enough_shorter: "enough rec m \<Longrightarrow> 20 * length ts + 20 \<le> m \<Longrightarrow> length ts + nt_slack nt \<le> k \<Longrightarrow> leaves (rec nt ts) k"
  using nt_rank_lt [of nt] by (intro enough_leaves [of rec m]) simp_all

lemma enough_first:
  assumes "enough rec (20 * length ts + r)" "nt_rank nt < r"
    and "\<And>x ts'. length ts' < length ts + nt_slack nt \<Longrightarrow> leaves (f x ts') k"
  shows "leaves (and_parse (rec nt ts) f) k"
  using assms by (intro leaves_and_parse [OF enough_leaves [OF assms(1) _ le_refl]]) simp_all

lemma enough_next:
  assumes "enough rec m" "20 * length ts + 20 \<le> m" "\<And>x ts'. length ts' < length ts + nt_slack nt \<Longrightarrow> leaves (f x ts') k"
  shows "leaves (and_parse (rec nt ts) f) k"
  using assms by (intro leaves_and_parse [OF enough_shorter [OF assms(1) _ le_refl]]) simp_all

text \<open>The methods on the tokens they are called with.\<close>

lemma binary_leaves:
  assumes "enough rec (20 * length ts + r)" "nt_rank nt1 < r" "nt_slack nt1 = 0" "nt_slack nt2 = 0"
  shows "leaves (and_parse (rec nt1 ts) (\<lambda>left ts. case expect es ts of None \<Rightarrow> Inr (left, ts)
     | Some (op, ts) \<Rightarrow> and_parse (rec nt2 ts) (\<lambda>right ts. Inr (EBin op left right, ts)))) (length ts)"
  using assms(3,4) by (intro enough_first [OF assms(1,2)])
    (auto split: option.split dest!: expect_shorter intro!: enough_next [OF assms(1)])

lemma loop_leaves:
  assumes "enough rec (20 * length ts)" "nt_slack nt2 = 0" "\<And>x. nt_slack (l x) = 1"
  shows "leaves (case expect es ts of None \<Rightarrow> Inr (left, ts)
     | Some (op, ts) \<Rightarrow> and_parse (rec nt2 ts) (\<lambda>right ts. rec (l (EBin op left right)) ts)) (Suc (length ts))"
  using assms(2,3) by (auto split: option.split dest!: expect_shorter intro!: enough_next [OF assms(1)] enough_shorter [OF assms(1)])

lemma head_leaves:
  assumes "enough rec (20 * length ts + r)" "nt_rank nt1 < r" "nt_slack nt1 = 0" "\<And>x. nt_slack (l x) = 1"
  shows "leaves (and_parse (rec nt1 ts) (\<lambda>left ts. rec (l left) ts)) (length ts)"
  using assms(3,4) by (intro enough_first [OF assms(1,2)]) (auto intro!: enough_shorter [OF assms(1)])

lemma statements_leaves:
  assumes r: "enough rec (20 * length ts + 14)"
  shows "leaves (statements rec xs ts) (Suc (length ts))"
proof -
  have finish: "leaves (case expect ['';''] us of Some (_, us) \<Rightarrow> rec (NStatements ys) us | None \<Rightarrow> Inr (case ys of [x] \<Rightarrow> x | _ \<Rightarrow> ESeq ys, us))
      (Suc (length ts))" if "length us \<le> length ts" for us ys
    using that by (auto split: option.split dest!: expect_shorter intro!: enough_shorter [OF r])
  show ?thesis unfolding statements_def Let_def
    using finish by (auto intro!: enough_first [OF r] simp del: option.case)
qed

lemma filterLoop_leaves:
  assumes r: "enough rec (20 * length ts)"
  shows "leaves (filterLoop filters rec left ts) (Suc (length ts))"
  unfolding filterLoop_def by (auto split: option.split list.split dest!: expect_shorter intro!: enough_shorter [OF r])

lemma filterArgs_leaves:
  assumes r: "enough rec (20 * length ts + 1)"
  shows "leaves (filterArgs rec left name args ts) (Suc (length ts))"
  unfolding filterArgs_def
  by (auto split: option.split dest!: expect_shorter intro!: enough_next [OF r] enough_shorter [OF r] enough_leaves [OF r, of ts])

lemma assignment_leaves:
  assumes r: "enough rec (20 * length ts + 12)"
  shows "leaves (assignment rec ts) (length ts)"
  unfolding assignment_def
  by (rule enough_first [OF r]) (auto split: option.split dest!: expect_shorter intro!: enough_next [OF r])

lemma ternary_leaves:
  assumes r: "enough rec (20 * length ts + 11)"
  shows "leaves (ternary rec ts) (length ts)"
  unfolding ternary_def
  by (rule enough_first [OF r]) (auto split: option.split dest!: expect_shorter intro!: enough_next [OF r])

lemma unary_leaves:
  assumes r: "enough rec (20 * length ts + 4)"
  shows "leaves (unary rec ts) (length ts)"
proof -
  have p: "leaves (rec NPrimary ts) (length ts)" by (rule enough_leaves [OF r]) simp_all
  show ?thesis unfolding unary_def
    using p by (auto split: option.split dest!: expect_shorter intro!: enough_next [OF r] enough_shorter [OF r])
qed

lemma primary_leaves:
  assumes r: "enough rec (20 * length ts + 3)"
  shows "leaves (primary rec ts) (length ts)"
  unfolding primary_def
proof (rule leaves_and_parse [of _ "length ts"])
  show "leaves (rec (NSuffix x None) us) (length ts)" if "length us < length ts" for x us
    using that by (intro enough_shorter [OF r]) simp_all
qed (auto split: option.split list.split dest!: expect_shorter
    intro!: enough_next [OF r] enough_shorter [OF r] leaves_consume leaves_more_than)

lemma suffixLoop_leaves:
  assumes r: "enough rec (20 * length ts)"
  shows "leaves (suffixLoop csp rec x context ts) (Suc (length ts))"
proof -
  have consume: "leaves (and_parse (consume e y us) (\<lambda>y us. rec (NSuffix y c) us)) (Suc (length ts))" if "length us < length ts" for e y us c
    using that by (intro leaves_and_parse [of _ "length us"] leaves_consume enough_shorter [OF r]) auto
  have index: "leaves (and_parse (and_parse (rec NExpression us) (\<lambda>i us. consume '']'' (EIndex x i) us)) (\<lambda>y us. rec (NSuffix y (Some x)) us)) (Suc (length ts))"
    if "length us < length ts" for us
    using that by (intro leaves_and_parse [of _ "length us"] enough_next [OF r] leaves_consume enough_shorter [OF r]) auto
  have field: "leaves (and_parse (fieldAccess csp x us) (\<lambda>y us. rec (NSuffix y (Some x)) us)) (Suc (length ts))" if "length us < length ts" for us
    using that by (intro leaves_and_parse [of _ "length us"] enough_shorter [OF r]) (auto simp: fieldAccess_def split: list.split)
  show ?thesis unfolding suffixLoop_def
    using consume index field
    by (auto split: option.split dest!: expect_shorter intro!: leaves_more_than enough_shorter [OF r])
qed

lemma callArgs_leaves:
  assumes r: "enough rec (20 * length ts + 13)"
  shows "leaves (callArgs rec fn context args ts) (length ts)"
  unfolding callArgs_def
proof (rule enough_first [OF r])
  fix x and us :: "lex_token list"
  assume us: "length us < length ts + nt_slack NExpression"
  have "leaves (and_parse (consume '')'' (ECall fn context (args @ [x])) us) (\<lambda>y us. rec (NSuffix y None) us)) (length ts)"
    using us by (intro leaves_and_parse [of _ "length us"] leaves_consume enough_shorter [OF r]) auto
  then show "leaves (case expect ['',''] us of Some (_, us) \<Rightarrow> rec (NCallArgs fn context (args @ [x])) us
      | None \<Rightarrow> and_parse (consume '')'' (ECall fn context (args @ [x])) us) (\<lambda>y us. rec (NSuffix y None) us)) (length ts)"
    using us by (auto split: option.split dest!: expect_shorter intro!: enough_shorter [OF r])
qed simp

lemma elements_leaves:
  assumes r: "enough rec (20 * length ts + 13)"
  shows "leaves (elements rec xs ts) (length ts)"
proof -
  have "leaves (and_parse (rec NExpression ts) (\<lambda>x us. case expect ['',''] us of Some (_, us) \<Rightarrow> rec (NElements (xs @ [x])) us
      | None \<Rightarrow> consume '']'' (EArr (xs @ [x])) us)) (length ts)"
    by (rule enough_first [OF r]) (auto split: option.split dest!: expect_shorter intro!: enough_shorter [OF r] leaves_consume)
  then show ?thesis unfolding elements_def by (simp add: leaves_consume)
qed

lemma keys_leaves:
  assumes r: "enough rec (20 * length ts + 13)"
  shows "leaves (keys rec kvs ts) (length ts)"
  unfolding keys_def
  by (auto split: option.split list.split dest!: expect_shorter intro!: leaves_consume enough_next [OF r] enough_shorter [OF r])

section \<open>The parser\<close>

lemma enough_mono: "enough rec m \<Longrightarrow> k \<le> m \<Longrightarrow> enough rec k"
  by (auto simp: enough_def)

lemma run_method_leaves:
  assumes r: "enough rec (20 * length ts + nt_rank nt)"
  shows "leaves (run_method csp filters rec nt ts) (length ts + nt_slack nt)"
  using r enough_mono [OF r, of "20 * length ts"]
  by (cases nt)
    (simp_all add: run_method_def statements_leaves filterLoop_leaves filterArgs_leaves assignment_leaves ternary_leaves unary_leaves
      primary_leaves suffixLoop_leaves callArgs_leaves elements_leaves keys_leaves filterChain_def logicalOR_def orLoop_def
      logicalAND_def equality_def relational_def additive_def addLoop_def multiplicative_def mulLoop_def
      binary_leaves loop_leaves head_leaves)

lemma parse_at_enough: "enough (parse_at csp filters n) n"
proof (induction n)
  case (Suc n)
  show ?case unfolding enough_def
  proof (intro allI impI)
    fix nt and ts :: "lex_token list"
    assume "20 * length ts + nt_rank nt < Suc n"
    then have "enough (parse_at csp filters n) (20 * length ts + nt_rank nt)" by (intro enough_mono [OF Suc]) simp
    then show "leaves (parse_at csp filters (Suc n) nt ts) (length ts + nt_slack nt)" by (simp add: run_method_leaves)
  qed
qed (simp add: enough_def)

text \<open>
  C30. Parsing returns: \<open>$parse\<close> of any text is a tree or an error of the lexer or the parser, and never the want of fuel that stands for a
  parser that does not return; twenty units for each token are enough.
\<close>

theorem parser_returns: "parse_expression csp filters text \<noteq> Inl OutOfFuel"
proof -
  have "leaves (parse_at csp filters (20 * length ts + 20) (NStatements []) ts) (Suc (length ts))" for ts
    using enough_leaves [OF parse_at_enough, of ts "NStatements []"] by simp
  then have "parse_tokens csp filters ts \<noteq> Inl OutOfFuel" for ts
    unfolding parse_tokens_def leaves_def by (auto split: sum.split prod.split list.split)
  then show ?thesis by (auto simp: parse_expression_def split: sum.split)
qed

end
