(* ===== verification/Angular_Grammar.thy ===== *)
theory Angular_Grammar
  imports Angular_Parser_Fuel
begin

text \<open>
  The language of the parser: it reads back every tree that it can build (apart from sequences and misplaced operators) from the tokens that
  are printed for it with the fewest parentheses, so that binding strengths and associativity are those of the printer.
\<close>

section \<open>The parser without fuel\<close>

text \<open>A result with less fuel is the same or the want of it.\<close>

definition extends :: "parsed \<Rightarrow> parsed \<Rightarrow> bool" where
  "extends r s \<longleftrightarrow> r = Inl OutOfFuel \<or> r = s"

lemma extends_refl [simp]: "extends r r"
  by (simp add: extends_def)

lemma extends_and_parse: "extends r s \<Longrightarrow> (\<And>x ts. extends (f x ts) (g x ts)) \<Longrightarrow> extends (and_parse r f) (and_parse s g)"
  by (auto simp: extends_def and_parse_def split: sum.splits)

lemma extends_option: "extends a b \<Longrightarrow> (\<And>p. extends (f p) (g p)) \<Longrightarrow> extends (case x of None \<Rightarrow> a | Some p \<Rightarrow> f p) (case x of None \<Rightarrow> b | Some p \<Rightarrow> g p)"
  by (cases x) simp_all

lemma extends_prod: "(\<And>a b. extends (f a b) (g a b)) \<Longrightarrow> extends (case p of (a, b) \<Rightarrow> f a b) (case p of (a, b) \<Rightarrow> g a b)"
  by (cases p) simp

lemma extends_list: "extends a b \<Longrightarrow> (\<And>y ys. extends (f y ys) (g y ys)) \<Longrightarrow> extends (case x of [] \<Rightarrow> a | y # ys \<Rightarrow> f y ys) (case x of [] \<Rightarrow> b | y # ys \<Rightarrow> g y ys)"
  by (cases x) simp_all

lemma extends_if: "extends a b \<Longrightarrow> extends c d \<Longrightarrow> extends (if p then a else c) (if p then b else d)"
  by simp

lemma extends_more_than: "(\<And>us. extends (f us) (f' us)) \<Longrightarrow> (\<And>us. extends (g us) (g' us)) \<Longrightarrow> extends (more_than ts e f g) (more_than ts e f' g')"
  by (simp add: more_than_def split: list.split)

lemma extends_method:
  assumes "\<And>nt ts. extends (r nt ts) (s nt ts)"
  shows "extends (run_method csp filters r nt ts) (run_method csp filters s nt ts)"
  by (cases nt)
    (simp_all add: run_method_def statements_def filterChain_def filterLoop_def filterArgs_def assignment_def ternary_def logicalOR_def
      orLoop_def logicalAND_def equality_def relational_def additive_def addLoop_def multiplicative_def mulLoop_def unary_def primary_def
      suffixLoop_def callArgs_def elements_def keys_def Let_def,
     (intro conjI impI assms extends_and_parse extends_option extends_prod extends_list extends_if extends_more_than extends_refl)+)

lemma parse_at_extends: "extends (parse_at csp filters n nt ts) (parse_at csp filters (n + k) nt ts)"
proof (induction n arbitrary: nt ts)
  case (Suc n)
  then show ?case using extends_method [of "parse_at csp filters n" "parse_at csp filters (n + k)"] by simp
qed (simp add: extends_def)

text \<open>A call of a method.\<close>

definition run :: "bool \<Rightarrow> (string \<Rightarrow> bool) \<Rightarrow> methods" where
  "run csp filters nt ts = parse_at csp filters (20 * length ts + nt_rank nt + 1) nt ts"

lemma run_final: "run csp filters nt ts \<noteq> Inl OutOfFuel"
  using enough_leaves [OF parse_at_enough, of ts nt "20 * length ts + nt_rank nt + 1" "length ts + nt_slack nt" csp filters]
  by (simp add: run_def leaves_def)

lemma parse_at_run: "extends (parse_at csp filters n nt ts) (run csp filters nt ts)"
proof -
  let ?m = "20 * length ts + nt_rank nt + 1"
  have "parse_at csp filters (?m + n) nt ts = run csp filters nt ts"
    using parse_at_extends [of csp filters ?m nt ts n] run_final [of csp filters nt ts] by (auto simp: extends_def run_def)
  then show ?thesis using parse_at_extends [of csp filters n nt ts ?m] by (simp add: add.commute)
qed

lemma run_unfold: "run csp filters nt ts = run_method csp filters (run csp filters) nt ts"
proof -
  let ?n = "20 * length ts + nt_rank nt"
  have "extends (run_method csp filters (parse_at csp filters ?n) nt ts) (run_method csp filters (run csp filters) nt ts)"
    by (intro extends_method parse_at_run)
  then show ?thesis using run_final [of csp filters nt ts] by (auto simp: extends_def run_def)
qed

lemma parse_tokens_run:
  "parse_tokens csp filters ts =
     (case run csp filters (NStatements []) ts of Inl e \<Rightarrow> Inl e | Inr (x, []) \<Rightarrow> Inr x | Inr (x, _) \<Rightarrow> Inl UnexpectedToken)"
proof -
  have "parse_at csp filters (20 * length ts + 20) (NStatements []) ts \<noteq> Inl OutOfFuel"
    using enough_leaves [OF parse_at_enough, of ts "NStatements []" "20 * length ts + 20" "Suc (length ts)" csp filters] by (simp add: leaves_def)
  then show ?thesis using parse_at_run [of csp filters "20 * length ts + 20" "NStatements []" ts] by (auto simp: parse_tokens_def extends_def)
qed

section \<open>Printing\<close>

definition tk :: "string \<Rightarrow> lex_token" where
  "tk s = mk_token s LPlain"

definition ident_tk :: "string \<Rightarrow> lex_token" where
  "ident_tk s = mk_token s LIdent"

definition op_tk :: "string \<Rightarrow> lex_token" where
  "op_tk s = mk_token s LOperator"

text \<open>A string between single quotes, with a backslash before quotes and backslashes.\<close>

definition quoted :: "string \<Rightarrow> string" where
  "quoted s = CHR 0x27 # concat (map (\<lambda>c. if c = CHR 0x27 \<or> c = CHR 0x5C then [CHR 0x5C, c] else [c]) s) @ [CHR 0x27]"

definition string_tk :: "string \<Rightarrow> lex_token" where
  "string_tk s = mk_token (quoted s) (LString s)"

text \<open>The strength of an operator, and that of a tree: 0 for filters up to 10 for what needs no parentheses.\<close>

definition op_level :: "string \<Rightarrow> nat" where
  "op_level op =
     (if op = ''||'' then 3 else if op = ''&&'' then 4 else if op \<in> {''=='', ''!='', ''==='', ''!==''} then 5
      else if op \<in> {''<'', ''>'', ''<='', ''>=''} then 6 else if op \<in> {''+'', ''-''} then 7 else 8)"

definition bin_ops :: "string list" where
  "bin_ops = [''||'', ''&&'', ''=='', ''!='', ''==='', ''!=='', ''<'', ''>'', ''<='', ''>='', ''+'', ''-'', ''*'', ''/'', ''%'']"

fun ex_level :: "ex \<Rightarrow> nat" where
  "ex_level (EFilter _ _ _) = 0"
| "ex_level (EAssign _ _) = 1"
| "ex_level (ETern _ _ _) = 2"
| "ex_level (EBin op _ _) = op_level op"
| "ex_level (ENeg _) = 9"
| "ex_level (ENot _) = 9"
| "ex_level _ = 10"

text \<open>Operators between the same strength: to the left for \<open>||\<close>, sums and products, to the right for the others.\<close>

definition left_level :: "string \<Rightarrow> nat" where
  "left_level op = (if op_level op \<in> {3, 7, 8} then op_level op else op_level op + 1)"

definition right_level :: "string \<Rightarrow> nat" where
  "right_level op = (if op_level op \<in> {3, 7, 8} then op_level op + 1 else op_level op)"

definition wrap :: "nat \<Rightarrow> ex \<Rightarrow> lex_token list \<Rightarrow> lex_token list" where
  "wrap p x ts = (if ex_level x < p then tk ''('' # ts @ [tk '')''] else ts)"

text \<open>The context that the loop of \<open>primary\<close> has after a tree that is not in parentheses.\<close>

definition context_of :: "ex \<Rightarrow> ex option" where
  "context_of x = (case x of EField o' _ \<Rightarrow> Some o' | EIndex o' _ \<Rightarrow> Some o' | _ \<Rightarrow> None)"

primrec sep :: "lex_token list list \<Rightarrow> lex_token list" where
  "sep [] = []"
| "sep (ts # tss) = ts @ (case tss of [] \<Rightarrow> [] | _ \<Rightarrow> tk '','' # sep tss)"

fun show_ex :: "ex \<Rightarrow> lex_token list" where
  "show_ex (ENum s) = [mk_token s LNumber]"
| "show_ex (EStr s) = [string_tk s]"
| "show_ex (EWord s) = [mk_token s LWord]"
| "show_ex (EPath s) = [ident_tk s]"
| "show_ex (EOp s) = [op_tk s]"
| "show_ex (ENeg x) = op_tk ''-'' # wrap 9 x (show_ex x)"
| "show_ex (ENot x) = op_tk ''!'' # wrap 9 x (show_ex x)"
| "show_ex (EBin op x y) = wrap (left_level op) x (show_ex x) @ op_tk op # wrap (right_level op) y (show_ex y)"
| "show_ex (ETern x y z) = wrap 3 x (show_ex x) @ tk ''?'' # wrap 2 y (show_ex y) @ tk '':'' # wrap 2 z (show_ex z)"
| "show_ex (EAssign x y) = wrap 2 x (show_ex x) @ op_tk ''='' # wrap 2 y (show_ex y)"
| "show_ex (EFilter x name args) = show_ex x @ op_tk ''|'' # ident_tk name # concat (map (\<lambda>a. tk '':'' # wrap 1 a (show_ex a)) args)"
| "show_ex (EField x f) = wrap 10 x (show_ex x) @ [tk ''.'', ident_tk f]"
| "show_ex (EIndex x i) = wrap 10 x (show_ex x) @ tk ''['' # wrap 1 i (show_ex i) @ [tk '']'']"
| "show_ex (ECall f c args) =
     (if c = context_of f then wrap 10 f (show_ex f) else tk ''('' # show_ex f @ [tk '')'']) @
     tk ''('' # sep (map (\<lambda>a. wrap 1 a (show_ex a)) args) @ [tk '')'']"
| "show_ex (EArr xs) = tk ''['' # sep (map (\<lambda>a. wrap 1 a (show_ex a)) xs) @ [tk '']'']"
| "show_ex (EObj kvs) = tk ''{'' # sep (map (\<lambda>(k, x). string_tk k # tk '':'' # wrap 1 x (show_ex x)) kvs) @ [tk ''}'']"
| "show_ex (ESeq xs) = []"

text \<open>The trees that are printed.\<close>

fun ex_ok :: "bool \<Rightarrow> (string \<Rightarrow> bool) \<Rightarrow> ex \<Rightarrow> bool" where
  "ex_ok csp filters (ENum s) = True"
| "ex_ok csp filters (EStr s) = True"
| "ex_ok csp filters (EWord s) = (s \<in> set operator_words)"
| "ex_ok csp filters (EPath s) = (s \<noteq> [] \<and> isIdent (hd s))"
| "ex_ok csp filters (EOp s) = False"
| "ex_ok csp filters (ENeg x) = ex_ok csp filters x"
| "ex_ok csp filters (ENot x) = ex_ok csp filters x"
| "ex_ok csp filters (EBin op x y) = (op \<in> set bin_ops \<and> ex_ok csp filters x \<and> ex_ok csp filters y)"
| "ex_ok csp filters (ETern x y z) = (ex_ok csp filters x \<and> ex_ok csp filters y \<and> ex_ok csp filters z)"
| "ex_ok csp filters (EAssign x y) = (assignable x \<and> ex_ok csp filters x \<and> ex_ok csp filters y)"
| "ex_ok csp filters (EFilter x name args) = (filters name \<and> ex_ok csp filters x \<and> list_all (ex_ok csp filters) args)"
| "ex_ok csp filters (EField x f) = (getter_ok csp f \<and> ex_ok csp filters x)"
| "ex_ok csp filters (EIndex x i) = (ex_ok csp filters x \<and> ex_ok csp filters i)"
| "ex_ok csp filters (ECall f c args) = (c \<in> {None, context_of f} \<and> ex_ok csp filters f \<and> list_all (ex_ok csp filters) args)"
| "ex_ok csp filters (EArr xs) = list_all (ex_ok csp filters) xs"
| "ex_ok csp filters (EObj kvs) = list_all (\<lambda>(k, x). k \<noteq> [] \<and> ex_ok csp filters x) kvs"
| "ex_ok csp filters (ESeq xs) = False"

section \<open>Reading\<close>

lemma peek_text_append [simp]: "peek_text (es @ fs) ts \<longleftrightarrow> peek_text es ts \<or> peek_text fs ts"
  by (auto simp: peek_text_def split: list.split)

lemma expect_None [simp]: "expect es ts = None \<longleftrightarrow> \<not> peek_text es ts"
  by (auto simp: expect_def peek_text_def split: list.split)

lemma peek_text_Nil [simp]: "\<not> peek_text es []"
  by (simp add: peek_text_def)

lemma tk_text [simp]: "has_text e (tk s) \<longleftrightarrow> e = s" "has_text e (op_tk s) \<longleftrightarrow> e = s" "has_text e (ident_tk s) \<longleftrightarrow> e = s"
  "\<not> has_text e (mk_token s LNumber)" "has_text e (mk_token s LWord) \<longleftrightarrow> e = s" "has_text e (string_tk s) \<longleftrightarrow> e = quoted s"
  "lt_text (tk s) = s" "lt_text (op_tk s) = s" "lt_text (ident_tk s) = s"
  by (auto simp: has_text_def tk_def op_tk_def ident_tk_def string_tk_def mk_token_def)

lemma quoted_first [simp]: "c \<noteq> CHR 0x27 \<Longrightarrow> c # e \<noteq> quoted s" "c \<noteq> CHR 0x27 \<Longrightarrow> quoted s \<noteq> c # e"
  by (auto simp: quoted_def)

lemma peek_text_Cons: "peek_text es (t # ts) \<longleftrightarrow> (\<exists>e \<in> set es. has_text e t)"
  by (simp add: peek_text_def)

lemma expect_Cons: "expect es (t # ts) = (if \<exists>e \<in> set es. has_text e t then Some (lt_text t, ts) else None)"
  by (simp add: expect_def peek_text_Cons)

lemmas token_simps = peek_text_Cons expect_Cons

lemma and_parse_simps [simp]: "and_parse (Inr (x, ts)) f = f x ts" "and_parse (Inl e) f = Inl e"
  by (simp_all add: and_parse_def)

lemma run_simps:
  "run csp filters (NStatements xs) ts = statements (run csp filters) xs ts"
  "run csp filters NFilterChain ts = filterChain (run csp filters) ts"
  "run csp filters (NFilterLoop x) ts = filterLoop filters (run csp filters) x ts"
  "run csp filters (NFilterArgs x name args) ts = filterArgs (run csp filters) x name args ts"
  "run csp filters NExpression ts = assignment (run csp filters) ts"
  "run csp filters NTernary ts = ternary (run csp filters) ts"
  "run csp filters NLogicalOR ts = logicalOR (run csp filters) ts"
  "run csp filters (NOrLoop x) ts = orLoop (run csp filters) x ts"
  "run csp filters NLogicalAND ts = logicalAND (run csp filters) ts"
  "run csp filters NEquality ts = equality (run csp filters) ts"
  "run csp filters NRelational ts = relational (run csp filters) ts"
  "run csp filters NAdditive ts = additive (run csp filters) ts"
  "run csp filters (NAddLoop x) ts = addLoop (run csp filters) x ts"
  "run csp filters NMultiplicative ts = multiplicative (run csp filters) ts"
  "run csp filters (NMulLoop x) ts = mulLoop (run csp filters) x ts"
  "run csp filters NUnary ts = unary (run csp filters) ts"
  "run csp filters NPrimary ts = primary (run csp filters) ts"
  "run csp filters (NSuffix x c) ts = suffixLoop csp (run csp filters) x c ts"
  "run csp filters (NCallArgs x c xs) ts = callArgs (run csp filters) x c xs ts"
  "run csp filters (NElements xs) ts = elements (run csp filters) xs ts"
  "run csp filters (NKeys kvs) ts = keys (run csp filters) kvs ts"
  by (simp_all add: run_unfold [of csp filters "NStatements xs"] run_unfold [of csp filters NFilterChain] run_unfold [of csp filters "NFilterLoop x"]
      run_unfold [of csp filters "NFilterArgs x name args"] run_unfold [of csp filters NExpression] run_unfold [of csp filters NTernary]
      run_unfold [of csp filters NLogicalOR] run_unfold [of csp filters "NOrLoop x"] run_unfold [of csp filters NLogicalAND]
      run_unfold [of csp filters NEquality] run_unfold [of csp filters NRelational] run_unfold [of csp filters NAdditive]
      run_unfold [of csp filters "NAddLoop x"] run_unfold [of csp filters NMultiplicative] run_unfold [of csp filters "NMulLoop x"]
      run_unfold [of csp filters NUnary] run_unfold [of csp filters NPrimary] run_unfold [of csp filters "NSuffix x c"]
      run_unfold [of csp filters "NCallArgs x c xs"] run_unfold [of csp filters "NElements xs"] run_unfold [of csp filters "NKeys kvs"] run_method_def)

text \<open>The loops stop where no operator of theirs follows.\<close>

lemma loops_stop:
  "\<not> peek_text [''*'', ''/'', ''%''] ts \<Longrightarrow> run csp filters (NMulLoop x) ts = Inr (x, ts)"
  "\<not> peek_text [''+'', ''-''] ts \<Longrightarrow> run csp filters (NAddLoop x) ts = Inr (x, ts)"
  "\<not> peek_text [''||''] ts \<Longrightarrow> run csp filters (NOrLoop x) ts = Inr (x, ts)"
  "\<not> peek_text [''|''] ts \<Longrightarrow> run csp filters (NFilterLoop x) ts = Inr (x, ts)"
  "\<not> peek_text [''('', ''['', ''.''] ts \<Longrightarrow> run csp filters (NSuffix x c) ts = Inr (x, ts)"
  by (simp_all add: run_simps mulLoop_def addLoop_def orLoop_def filterLoop_def suffixLoop_def iffD2 [OF expect_None])

text \<open>The method of a level, what it has read when it comes to the end of a tree, and what must not follow the tree.\<close>

fun level_start :: "nat \<Rightarrow> nterm" where
  "level_start 0 = NFilterChain"
| "level_start (Suc 0) = NExpression"
| "level_start n = (if n = 2 then NTernary else if n = 3 then NLogicalOR else if n = 4 then NLogicalAND else if n = 5 then NEquality
     else if n = 6 then NRelational else if n = 7 then NAdditive else if n = 8 then NMultiplicative else NUnary)"

definition level_end :: "bool \<Rightarrow> (string \<Rightarrow> bool) \<Rightarrow> nat \<Rightarrow> ex \<Rightarrow> lex_token list \<Rightarrow> parsed" where
  "level_end csp filters p x ts =
     (if p = 0 then run csp filters (NFilterLoop x) ts else if p = 3 then run csp filters (NOrLoop x) ts
      else if p = 7 then run csp filters (NAddLoop x) ts else if p = 8 then run csp filters (NMulLoop x) ts else Inr (x, ts))"

definition follow_table :: "(nat \<times> string list) list" where
  "follow_table = [(10, [''('', ''['', ''.'']), (7, [''*'', ''/'', ''%'']), (6, [''+'', ''-'']), (6, [''<'', ''>'', ''<='', ''>='']),
     (5, [''=='', ''!='', ''==='', ''!=='']), (4, [''&&'']), (2, [''||'']), (2, [''?'']), (1, [''='']), (0, ['':''])]"

definition follow :: "nat \<Rightarrow> string list" where
  "follow p = concat (map (\<lambda>(k, es). if p \<le> k then es else []) follow_table)"

definition reads :: "bool \<Rightarrow> (string \<Rightarrow> bool) \<Rightarrow> nat \<Rightarrow> ex \<Rightarrow> lex_token list \<Rightarrow> bool" where
  "reads csp filters p x ts \<longleftrightarrow>
     (\<forall>rest. \<not> peek_text (follow p) rest \<longrightarrow> run csp filters (level_start p) (ts @ rest) = level_end csp filters p x rest)"

definition reads_primary :: "bool \<Rightarrow> (string \<Rightarrow> bool) \<Rightarrow> ex \<Rightarrow> ex option \<Rightarrow> lex_token list \<Rightarrow> bool" where
  "reads_primary csp filters x c ts \<longleftrightarrow>
     ts \<noteq> [] \<and> \<not> peek_text [''+'', ''-'', ''!''] ts \<and> (\<forall>rest. run csp filters NPrimary (ts @ rest) = run csp filters (NSuffix x c) rest)"

lemma level_start_num: "level_start 2 = NTernary" "level_start 3 = NLogicalOR" "level_start 4 = NLogicalAND" "level_start 5 = NEquality"
  "level_start 6 = NRelational" "level_start 7 = NAdditive" "level_start 8 = NMultiplicative" "level_start 9 = NUnary"
  by (simp_all add: numeral_eq_Suc)

lemma level_cases: "p < 9 \<Longrightarrow> p \<in> {0, 1, 2, 3, 4, 5, 6, 7, 8}" for p :: nat
  by (simp, presburger)

lemma peek_text_mono: "\<not> peek_text es ts \<Longrightarrow> set fs \<subseteq> set es \<Longrightarrow> \<not> peek_text fs ts"
  by (auto simp: peek_text_def split: list.splits)

lemma follow_iff: "e \<in> set (follow p) \<longleftrightarrow> (\<exists>k es. (k, es) \<in> set follow_table \<and> p \<le> k \<and> e \<in> set es)"
  by (auto simp: follow_def split: if_splits)

lemma follow_stop: "\<not> peek_text (follow p) ts \<Longrightarrow> (k, es) \<in> set follow_table \<Longrightarrow> p \<le> k \<Longrightarrow> \<not> peek_text es ts"
  by (erule peek_text_mono) (unfold follow_iff subset_iff, blast)

lemma follow_Suc: "\<not> peek_text (follow p) ts \<Longrightarrow> \<not> peek_text (follow (Suc p)) ts"
proof (erule peek_text_mono, rule subsetI)
  fix e
  assume "e \<in> set (follow (Suc p))"
  then show "e \<in> set (follow p)" unfolding follow_iff by (meson Suc_leD)
qed

lemma follow_stops:
  assumes "\<not> peek_text (follow p) ts"
  shows "p \<le> 10 \<Longrightarrow> \<not> peek_text [''('', ''['', ''.''] ts" "p \<le> 7 \<Longrightarrow> \<not> peek_text [''*'', ''/'', ''%''] ts" "p \<le> 6 \<Longrightarrow> \<not> peek_text [''+'', ''-''] ts"
    "p \<le> 6 \<Longrightarrow> \<not> peek_text [''<'', ''>'', ''<='', ''>=''] ts" "p \<le> 5 \<Longrightarrow> \<not> peek_text [''=='', ''!='', ''==='', ''!==''] ts"
    "p \<le> 4 \<Longrightarrow> \<not> peek_text [''&&''] ts" "p \<le> 2 \<Longrightarrow> \<not> peek_text [''||''] ts" "p \<le> 2 \<Longrightarrow> \<not> peek_text [''?''] ts"
    "p \<le> 1 \<Longrightarrow> \<not> peek_text [''=''] ts" "p \<le> 0 \<Longrightarrow> \<not> peek_text ['':''] ts"
  by (rule follow_stop [OF assms]; simp add: follow_table_def)+

lemmas reading = level_start_num level_end_def loops_stop iffD2 [OF expect_None]

text \<open>What a level reads the weaker levels read too.\<close>

lemma reads_weaker: "reads csp filters (Suc p) x ts \<Longrightarrow> p < 9 \<Longrightarrow> reads csp filters p x ts"
proof -
  assume r: "reads csp filters (Suc p) x ts" and "p < 9"
  then consider "p = 0" | "p = 1" | "p = 2" | "p = 3" | "p = 4" | "p = 5" | "p = 6" | "p = 7" | "p = 8" by force
  then show ?thesis
    unfolding reads_def
  proof (cases; intro allI impI)
    fix rest
    assume f: "\<not> peek_text (follow p) rest"
    note stops = follow_stops [OF f]
    note r = r [unfolded reads_def, rule_format, OF follow_Suc [OF f]]
    show "run csp filters (level_start p) (ts @ rest) = level_end csp filters p x rest" if "p = 0"
      using r that by (simp add: reading) (subst run_simps(2), simp add: filterChain_def)
    show "run csp filters (level_start p) (ts @ rest) = level_end csp filters p x rest" if "p = 1"
      using r stops that by (simp add: reading) (subst run_simps(5), simp add: assignment_def reading)
    show "run csp filters (level_start p) (ts @ rest) = level_end csp filters p x rest" if "p = 2"
      using r stops that by (simp add: reading) (subst run_simps(6), simp add: ternary_def reading)
    show "run csp filters (level_start p) (ts @ rest) = level_end csp filters p x rest" if "p = 3"
      using r that by (simp add: reading) (subst run_simps(7), simp add: logicalOR_def)
    show "run csp filters (level_start p) (ts @ rest) = level_end csp filters p x rest" if "p = 4"
      using r stops that by (simp add: reading) (subst run_simps(9), simp add: logicalAND_def reading)
    show "run csp filters (level_start p) (ts @ rest) = level_end csp filters p x rest" if "p = 5"
      using r stops that by (simp add: reading) (subst run_simps(10), simp add: equality_def reading)
    show "run csp filters (level_start p) (ts @ rest) = level_end csp filters p x rest" if "p = 6"
      using r stops that by (simp add: reading) (subst run_simps(11), simp add: relational_def reading)
    show "run csp filters (level_start p) (ts @ rest) = level_end csp filters p x rest" if "p = 7"
      using r stops that by (simp add: reading) (subst run_simps(12), simp add: additive_def reading)
    show "run csp filters (level_start p) (ts @ rest) = level_end csp filters p x rest" if "p = 8"
      using r that by (simp add: reading) (subst run_simps(14), simp add: multiplicative_def)
  qed
qed

lemma reads_down: "p \<le> q \<Longrightarrow> reads csp filters q x ts \<Longrightarrow> q \<le> 9 \<Longrightarrow> reads csp filters p x ts"
proof (induction rule: inc_induct)
  case (step n)
  then have "reads csp filters (Suc n) x ts" "n < 9" by simp_all
  then show ?case by (rule reads_weaker)
qed

lemma primary_unary: "reads_primary csp filters x c ts \<Longrightarrow> reads csp filters 9 x ts"
  unfolding reads_def
proof (intro allI impI)
  fix rest
  assume p: "reads_primary csp filters x c ts" and f: "\<not> peek_text (follow 9) rest"
  have h: "expect [''+''] (ts @ rest) = None" "expect [''-''] (ts @ rest) = None" "expect [''!''] (ts @ rest) = None"
    using p by (cases ts; simp add: reads_primary_def peek_text_Cons)+
  have "run csp filters NPrimary (ts @ rest) = Inr (x, rest)"
    using p follow_stops(1) [OF f] by (simp add: reads_primary_def loops_stop)
  then show "run csp filters (level_start 9) (ts @ rest) = level_end csp filters 9 x rest"
    by (simp add: level_start_num level_end_def run_simps(16) [of csp filters "ts @ rest"] unary_def h)
qed

text \<open>In parentheses a tree is primary.\<close>

lemma reads_parens:
  assumes "reads csp filters 0 x ts"
  shows "reads_primary csp filters x None (tk ''('' # ts @ [tk '')''])"
proof -
  have "\<not> peek_text (follow 0) (tk '')'' # rest)" for rest by (simp add: follow_def follow_table_def token_simps)
  then have "run csp filters NFilterChain (ts @ tk '')'' # rest) = run csp filters (NFilterLoop x) (tk '')'' # rest)" for rest
    using assms by (simp add: reads_def level_end_def)
  then have "run csp filters NFilterChain (ts @ tk '')'' # rest) = Inr (x, tk '')'' # rest)" for rest
    by (simp add: loops_stop token_simps)
  then have "run csp filters NPrimary (tk ''('' # ts @ tk '')'' # rest) = run csp filters (NSuffix x None) rest" for rest
    by (subst run_simps(17)) (simp add: primary_def token_simps consume_def)
  then show ?thesis by (simp add: reads_primary_def token_simps)
qed

section \<open>Each kind of tree\<close>

lemma reads_at: "reads csp filters p x ts \<Longrightarrow> \<not> peek_text (follow p) rest \<Longrightarrow> run csp filters (level_start p) (ts @ rest) = level_end csp filters p x rest"
  by (simp add: reads_def)

lemma follow_Cons: "\<not> peek_text (follow p) (t # rest) \<longleftrightarrow> (\<forall>(k, es) \<in> set follow_table. p \<le> k \<longrightarrow> (\<forall>e \<in> set es. \<not> has_text e t))"
  unfolding peek_text_Cons Bex_def follow_iff by (auto; blast)

lemmas follow_token = follow_Cons [unfolded follow_table_def, simplified]

lemma reads_product:
  assumes "reads csp filters 8 x tx" "reads csp filters 9 y ty" "op \<in> {''*'', ''/'', ''%''}"
  shows "reads csp filters 8 (EBin op x y) (tx @ op_tk op # ty)"
  unfolding reads_def
proof (intro allI impI)
  fix rest
  assume "\<not> peek_text (follow 8) rest"
  then have "\<not> peek_text (follow 9) rest" using follow_Suc [of 8 rest] by simp
  then have y: "run csp filters NUnary (ty @ rest) = Inr (y, rest)" using reads_at [OF assms(2)] by (simp add: level_start_num level_end_def)
  have "run csp filters NMultiplicative (tx @ op_tk op # ty @ rest) = run csp filters (NMulLoop x) (op_tk op # ty @ rest)"
    using reads_at [OF assms(1), of "op_tk op # ty @ rest"] assms(3) by (auto simp: level_start_num level_end_def follow_token)
  also have "\<dots> = run csp filters (NMulLoop (EBin op x y)) rest"
    using assms(3) by (subst run_simps(15)) (auto simp: mulLoop_def token_simps y)
  finally show "run csp filters (level_start 8) ((tx @ op_tk op # ty) @ rest) = level_end csp filters 8 (EBin op x y) rest"
    by (simp add: level_start_num level_end_def)
qed

lemma reads_sum:
  assumes "reads csp filters 7 x tx" "reads csp filters 8 y ty" "op \<in> {''+'', ''-''}"
  shows "reads csp filters 7 (EBin op x y) (tx @ op_tk op # ty)"
  unfolding reads_def
proof (intro allI impI)
  fix rest
  assume f: "\<not> peek_text (follow 7) rest"
  then have "\<not> peek_text (follow 8) rest" using follow_Suc [of 7 rest] by simp
  then have y: "run csp filters NMultiplicative (ty @ rest) = Inr (y, rest)"
    using reads_at [OF assms(2)] follow_stops [OF f] by (simp add: level_start_num level_end_def loops_stop)
  have "run csp filters NAdditive (tx @ op_tk op # ty @ rest) = run csp filters (NAddLoop x) (op_tk op # ty @ rest)"
    using reads_at [OF assms(1), of "op_tk op # ty @ rest"] assms(3) by (auto simp: level_start_num level_end_def follow_token)
  also have "\<dots> = run csp filters (NAddLoop (EBin op x y)) rest"
    using assms(3) by (subst run_simps(13)) (auto simp: addLoop_def token_simps y)
  finally show "run csp filters (level_start 7) ((tx @ op_tk op # ty) @ rest) = level_end csp filters 7 (EBin op x y) rest"
    by (simp add: level_start_num level_end_def)
qed

lemma reads_or:
  assumes "reads csp filters 3 x tx" "reads csp filters 4 y ty"
  shows "reads csp filters 3 (EBin ''||'' x y) (tx @ op_tk ''||'' # ty)"
  unfolding reads_def
proof (intro allI impI)
  fix rest
  assume "\<not> peek_text (follow 3) rest"
  then have "\<not> peek_text (follow 4) rest" using follow_Suc [of 3 rest] by simp
  then have y: "run csp filters NLogicalAND (ty @ rest) = Inr (y, rest)" using reads_at [OF assms(2)] by (simp add: level_start_num level_end_def)
  have "run csp filters NLogicalOR (tx @ op_tk ''||'' # ty @ rest) = run csp filters (NOrLoop x) (op_tk ''||'' # ty @ rest)"
    using reads_at [OF assms(1), of "op_tk ''||'' # ty @ rest"] by (auto simp: level_start_num level_end_def follow_token)
  also have "\<dots> = run csp filters (NOrLoop (EBin ''||'' x y)) rest"
    by (subst run_simps(8)) (auto simp: orLoop_def token_simps y)
  finally show "run csp filters (level_start 3) ((tx @ op_tk ''||'' # ty) @ rest) = level_end csp filters 3 (EBin ''||'' x y) rest"
    by (simp add: level_start_num level_end_def)
qed

text \<open>Operators that bind to the right.\<close>

lemma reads_right:
  assumes x: "reads csp filters (Suc p) x tx" and y: "reads csp filters p y ty"
    and p: "p = 4 \<and> op = ''&&'' \<or> p = 5 \<and> op \<in> {''=='', ''!='', ''==='', ''!==''} \<or> p = 6 \<and> op \<in> {''<'', ''>'', ''<='', ''>=''}"
  shows "reads csp filters p (EBin op x y) (tx @ op_tk op # ty)"
  unfolding reads_def
proof (intro allI impI)
  fix rest
  assume f: "\<not> peek_text (follow p) rest"
  have "\<not> peek_text (follow (Suc p)) (op_tk op # ty @ rest)" using p by (auto simp: follow_token)
  from reads_at [OF x this] reads_at [OF y f]
  have "run csp filters (level_start (Suc p)) (tx @ op_tk op # ty @ rest) = Inr (x, op_tk op # ty @ rest)"
    "run csp filters (level_start p) (ty @ rest) = Inr (y, rest)"
    using p by (auto simp: level_start_num level_end_def loops_stop token_simps)
  then show "run csp filters (level_start p) ((tx @ op_tk op # ty) @ rest) = level_end csp filters p (EBin op x y) rest"
    using p by (elim disjE conjE; simp add: level_start_num level_end_def)
      (subst run_simps(9) run_simps(10) run_simps(11), auto simp: logicalAND_def equality_def relational_def token_simps)+
qed

lemma reads_unary:
  assumes "reads csp filters 9 x tx"
  shows "reads csp filters 9 (ENeg x) (op_tk ''-'' # tx)" "reads csp filters 9 (ENot x) (op_tk ''!'' # tx)"
proof -
  have "run csp filters NUnary (tx @ rest) = Inr (x, rest)" if "\<not> peek_text (follow 9) rest" for rest
    using reads_at [OF assms that] by (simp add: level_start_num level_end_def)
  then have "run csp filters NUnary (op_tk ''-'' # tx @ rest) = Inr (ENeg x, rest) \<and> run csp filters NUnary (op_tk ''!'' # tx @ rest) = Inr (ENot x, rest)"
    if "\<not> peek_text (follow 9) rest" for rest
    using that by (simp add: run_simps(16) [of _ _ "_ # _"] unary_def token_simps)
  then show "reads csp filters 9 (ENeg x) (op_tk ''-'' # tx)" "reads csp filters 9 (ENot x) (op_tk ''!'' # tx)"
    by (simp_all add: reads_def level_start_num level_end_def)
qed

lemma reads_ternary:
  assumes x: "reads csp filters 3 x tx" and y: "reads csp filters 2 y ty" and z: "reads csp filters 2 z tz"
  shows "reads csp filters 2 (ETern x y z) (tx @ tk ''?'' # ty @ tk '':'' # tz)"
  unfolding reads_def
proof (intro allI impI)
  fix rest
  assume f: "\<not> peek_text (follow 2) rest"
  have "\<not> peek_text (follow 3) (tk ''?'' # us)" for us by (simp add: follow_token)
  then have "run csp filters NLogicalOR (tx @ tk ''?'' # us) = Inr (x, tk ''?'' # us)" for us
    using reads_at [OF x, of "tk ''?'' # us"] by (simp add: level_start_num level_end_def loops_stop token_simps)
  moreover have "run csp filters NTernary (ty @ tk '':'' # us) = Inr (y, tk '':'' # us)" for us
    using reads_at [OF y, of "tk '':'' # us"] by (simp add: level_start_num level_end_def follow_token)
  moreover have "run csp filters NTernary (tz @ rest) = Inr (z, rest)"
    using reads_at [OF z f] by (simp add: level_start_num level_end_def)
  ultimately show "run csp filters (level_start 2) ((tx @ tk ''?'' # ty @ tk '':'' # tz) @ rest) = level_end csp filters 2 (ETern x y z) rest"
    by (simp add: level_start_num level_end_def) (subst run_simps(6), simp add: ternary_def token_simps)
qed

lemma reads_assignment:
  assumes x: "reads csp filters 2 x tx" "assignable x" and y: "reads csp filters 2 y ty"
  shows "reads csp filters 1 (EAssign x y) (tx @ op_tk ''='' # ty)"
  unfolding reads_def
proof (intro allI impI)
  fix rest
  assume f: "\<not> peek_text (follow 1) rest"
  have "run csp filters NTernary (tx @ op_tk ''='' # us) = Inr (x, op_tk ''='' # us)" for us
    using reads_at [OF x(1), of "op_tk ''='' # us"] by (simp add: level_start_num level_end_def follow_token)
  moreover have "\<not> peek_text (follow 2) rest" using follow_Suc [OF f] by (simp add: numeral_2_eq_2)
  then have "run csp filters NTernary (ty @ rest) = Inr (y, rest)"
    using reads_at [OF y] by (simp add: level_start_num level_end_def)
  ultimately show "run csp filters (level_start 1) ((tx @ op_tk ''='' # ty) @ rest) = level_end csp filters 1 (EAssign x y) rest"
    by (simp add: level_end_def) (subst run_simps(5), simp add: assignment_def token_simps x(2))
qed

lemma reads_filter_args:
  assumes "\<forall>a \<in> set args. reads csp filters 1 a (f a)" "\<not> peek_text (follow 0) rest"
  shows "run csp filters (NFilterArgs x name done) (concat (map (\<lambda>a. tk '':'' # f a) args) @ rest)
    = run csp filters (NFilterLoop (EFilter x name (done @ args))) rest"
  using assms(1)
proof (induction args arbitrary: "done")
  case Nil
  show ?case using follow_stops(10) [OF assms(2)] by (subst run_simps(4)) (simp add: filterArgs_def iffD2 [OF expect_None])
next
  case (Cons a args)
  let ?us = "concat (map (\<lambda>a. tk '':'' # f a) args) @ rest"
  have "\<not> peek_text (follow 1) ?us"
    using follow_Suc [OF assms(2)] by (cases args) (simp_all add: follow_token)
  then have "run csp filters NExpression (f a @ ?us) = Inr (a, ?us)"
    using reads_at [of csp filters 1 a "f a"] Cons.prems by (simp add: level_end_def)
  with Cons show ?case by (subst run_simps(4)) (simp add: filterArgs_def token_simps)
qed

lemma reads_filter:
  assumes "reads csp filters 0 x tx" "filters name" "\<forall>a \<in> set args. reads csp filters 1 a (f a)"
  shows "reads csp filters 0 (EFilter x name args) (tx @ op_tk ''|'' # ident_tk name # concat (map (\<lambda>a. tk '':'' # f a) args))"
  unfolding reads_def
proof (intro allI impI)
  fix rest
  assume rest: "\<not> peek_text (follow 0) rest"
  let ?us = "ident_tk name # concat (map (\<lambda>a. tk '':'' # f a) args) @ rest"
  have "run csp filters NFilterChain (tx @ op_tk ''|'' # ?us) = run csp filters (NFilterLoop x) (op_tk ''|'' # ?us)"
    using reads_at [OF assms(1), of "op_tk ''|'' # ?us"] by (simp add: level_end_def follow_token)
  also have "\<dots> = run csp filters (NFilterArgs x name []) (concat (map (\<lambda>a. tk '':'' # f a) args) @ rest)"
    using assms(2) by (subst run_simps(3)) (simp add: filterLoop_def token_simps)
  also have "\<dots> = run csp filters (NFilterLoop (EFilter x name args)) rest"
    using reads_filter_args [OF assms(3) rest] by simp
  finally show "run csp filters (level_start 0) ((tx @ op_tk ''|'' # ident_tk name # concat (map (\<lambda>a. tk '':'' # f a) args)) @ rest)
    = level_end csp filters 0 (EFilter x name args) rest"
    by (simp add: level_end_def)
qed

text \<open>Trees that need no parentheses.\<close>

lemma reads_token: "token_fn t = Some x \<Longrightarrow> \<not> peek_text [''+'', ''-'', ''!'', ''('', ''['', ''{''] [t] \<Longrightarrow> reads_primary csp filters x None [t]"
proof -
  assume t: "token_fn t = Some x" "\<not> peek_text [''+'', ''-'', ''!'', ''('', ''['', ''{''] [t]"
  then have "\<not> peek_text [e] (t # rest)" if "e \<in> {''+'', ''-'', ''!'', ''('', ''['', ''{''}" for e rest
    using that by (auto simp: peek_text_Cons)
  then have n: "expect [''(''] (t # rest) = None" "expect [''[''] (t # rest) = None" "expect [''{''] (t # rest) = None" for rest by simp_all
  have "run csp filters NPrimary (t # rest) = run csp filters (NSuffix x None) rest" for rest
    by (subst run_simps(17)) (simp add: primary_def n t(1))
  then show ?thesis using t(2) by (simp add: reads_primary_def peek_text_Cons)
qed

lemma primary_then:
  assumes "reads_primary csp filters x c tx" "\<And>rest. run csp filters (NSuffix x c) (us @ rest) = run csp filters (NSuffix y d) rest"
  shows "reads_primary csp filters y d (tx @ us)"
proof -
  obtain t ts where "tx = t # ts" using assms(1) by (cases tx) (auto simp: reads_primary_def)
  then show ?thesis using assms by (simp add: reads_primary_def peek_text_Cons)
qed

lemma reads_field:
  assumes "reads_primary csp filters x c tx" "getter_ok csp f"
  shows "reads_primary csp filters (EField x f) (Some x) (tx @ [tk ''.'', ident_tk f])"
  by (rule primary_then [OF assms(1)], subst run_simps(18))
    (simp add: suffixLoop_def token_simps fieldAccess_def assms(2), simp add: ident_tk_def mk_token_def source_key_def)

lemma reads_index:
  assumes "reads_primary csp filters x c tx" "reads csp filters 1 i ti"
  shows "reads_primary csp filters (EIndex x i) (Some x) (tx @ tk ''['' # ti @ [tk '']''])"
proof (rule primary_then [OF assms(1)])
  fix rest
  have "run csp filters NExpression (ti @ tk '']'' # rest) = Inr (i, tk '']'' # rest)"
    using reads_at [OF assms(2), of "tk '']'' # rest"] by (simp add: level_end_def follow_token)
  then show "run csp filters (NSuffix x c) ((tk ''['' # ti @ [tk '']'']) @ rest) = run csp filters (NSuffix (EIndex x i) (Some x)) rest"
    by (subst run_simps(18)) (simp add: suffixLoop_def token_simps consume_def)
qed

text \<open>Lists in brackets; no tree begins with a closing one.\<close>

definition starter :: "lex_token list \<Rightarrow> bool" where
  "starter ts \<longleftrightarrow> ts \<noteq> [] \<and> \<not> peek_text ['')'', '']'', ''}'', '';''] ts"

definition items_ok :: "bool \<Rightarrow> (string \<Rightarrow> bool) \<Rightarrow> (ex \<Rightarrow> lex_token list) \<Rightarrow> ex list \<Rightarrow> bool" where
  "items_ok csp filters f xs \<longleftrightarrow> (\<forall>a \<in> set xs. reads csp filters 1 a (f a) \<and> starter (f a))"

lemma starter_append: "starter ts \<Longrightarrow> starter (ts @ us)"
  by (cases ts) (auto simp: starter_def peek_text_Cons)

lemma starter_not: "starter ts \<Longrightarrow> e \<in> {'')'', '']'', ''}''} \<Longrightarrow> \<not> peek_text [e] (ts @ us)"
  by (cases ts) (auto simp: starter_def peek_text_Cons)

lemma more_than_starter: "starter ts \<Longrightarrow> e \<in> {'')'', '']'', ''}''} \<Longrightarrow> more_than (ts @ us) e some none = some (ts @ us)"
  by (cases ts) (auto simp: starter_def peek_text_Cons more_than_def)

lemma items_read:
  assumes "items_ok csp filters f (a # as)" "e \<in> {'')'', '']''}"
  shows "run csp filters NExpression (f a @ tk '','' # us) = Inr (a, tk '','' # us)"
    and "run csp filters NExpression (f a @ tk e # us) = Inr (a, tk e # us)" and "starter (f a)"
proof -
  have r: "reads csp filters 1 a (f a)" using assms(1) by (simp add: items_ok_def)
  show "run csp filters NExpression (f a @ tk '','' # us) = Inr (a, tk '','' # us)"
    using reads_at [OF r, of "tk '','' # us"] by (simp add: level_end_def follow_token)
  show "run csp filters NExpression (f a @ tk e # us) = Inr (a, tk e # us)"
    using reads_at [OF r, of "tk e # us"] assms(2) by (auto simp: level_end_def follow_token)
  show "starter (f a)" using assms(1) by (simp add: items_ok_def)
qed

lemma items_tl: "items_ok csp filters f (a # as) \<Longrightarrow> items_ok csp filters f as"
  by (simp add: items_ok_def)

lemma reads_args:
  "items_ok csp filters f args \<Longrightarrow> args \<noteq> [] \<Longrightarrow>
     run csp filters (NCallArgs fn c done) (sep (map f args) @ tk '')'' # rest) = run csp filters (NSuffix (ECall fn c (done @ args)) None) rest"
proof (induction args arbitrary: "done")
  case (Cons a args)
  note i = items_read [OF Cons.prems(1), of "'')''"]
  show ?case
  proof (cases args)
    case Nil
    with i show ?thesis by (subst run_simps(19)) (simp add: callArgs_def token_simps consume_def)
  next
    case (Cons b bs)
    with i Cons.IH [of "done @ [a]"] items_tl [OF Cons.prems(1)] show ?thesis
      by (subst run_simps(19)) (simp add: callArgs_def token_simps)
  qed
qed simp

lemma reads_elements:
  "items_ok csp filters f xs \<Longrightarrow> xs \<noteq> [] \<Longrightarrow>
     run csp filters (NElements done) (sep (map f xs) @ tk '']'' # rest) = Inr (EArr (done @ xs), rest)"
proof (induction xs arbitrary: "done")
  case (Cons a xs)
  note i = items_read [OF Cons.prems(1), of "'']''"]
  have n: "\<not> peek_text ['']''] (f a @ us)" for us using starter_not [OF i(3)] by simp
  show ?case
  proof (cases xs)
    case Nil
    with i n show ?thesis by (subst run_simps(20)) (simp add: elements_def token_simps consume_def)
  next
    case (Cons b bs)
    with i n Cons.IH [of "done @ [a]"] items_tl [OF Cons.prems(1)] show ?thesis
      by (subst run_simps(20)) (simp add: elements_def token_simps)
  qed
qed simp

lemma sep_starter: "items_ok csp filters f xs \<Longrightarrow> xs \<noteq> [] \<Longrightarrow> starter (sep (map f xs))"
  by (cases xs) (auto simp: items_ok_def intro: starter_append)

lemma reads_call:
  assumes "reads_primary csp filters fn c tf" "items_ok csp filters f args"
  shows "reads_primary csp filters (ECall fn c args) None (tf @ tk ''('' # sep (map f args) @ [tk '')''])"
proof (rule primary_then [OF assms(1)])
  fix rest
  show "run csp filters (NSuffix fn c) ((tk ''('' # sep (map f args) @ [tk '')'']) @ rest) = run csp filters (NSuffix (ECall fn c args) None) rest"
  proof (cases "args = []")
    case True
    then show ?thesis by (subst run_simps(18)) (simp add: suffixLoop_def token_simps more_than_def consume_def)
  next
    case False
    then show ?thesis
      using reads_args [OF assms(2) False, of fn c "[]" rest] more_than_starter [OF sep_starter [OF assms(2) False], of "'')''" "tk '')'' # rest"]
      by (subst run_simps(18)) (simp add: suffixLoop_def token_simps)
  qed
qed

lemma reads_array:
  assumes "items_ok csp filters f xs"
  shows "reads_primary csp filters (EArr xs) None (tk ''['' # sep (map f xs) @ [tk '']''])"
proof -
  have "run csp filters NPrimary (tk ''['' # sep (map f xs) @ tk '']'' # rest) = run csp filters (NSuffix (EArr xs) None) rest" for rest
  proof (cases "xs = []")
    case True
    then show ?thesis by (subst run_simps(17)) (simp add: primary_def token_simps more_than_def consume_def)
  next
    case False
    then show ?thesis
      using reads_elements [OF assms False, of "[]" rest] more_than_starter [OF sep_starter [OF assms False], of "'']''" "tk '']'' # rest"]
      by (subst run_simps(17)) (simp add: primary_def token_simps)
  qed
  then show ?thesis by (simp add: reads_primary_def token_simps)
qed

definition show_key :: "(ex \<Rightarrow> lex_token list) \<Rightarrow> string \<times> ex \<Rightarrow> lex_token list" where
  "show_key f kv = (case kv of (k, x) \<Rightarrow> string_tk k # tk '':'' # f x)"

lemma show_key_simp: "show_key f (k, x) = string_tk k # tk '':'' # f x"
  by (simp add: show_key_def)

lemma token_key_string: "k \<noteq> [] \<Longrightarrow> token_key (string_tk k) = Some k"
  by (simp add: token_key_def string_tk_def mk_token_def)

lemma reads_keys:
  "\<forall>(k, x) \<in> set kvs. k \<noteq> [] \<and> reads csp filters 1 x (f x) \<Longrightarrow> kvs \<noteq> [] \<Longrightarrow>
     run csp filters (NKeys done) (sep (map (show_key f) kvs) @ tk ''}'' # rest) = Inr (EObj (done @ kvs), rest)"
proof (induction kvs arbitrary: "done")
  case (Cons kv kvs)
  obtain k x where kv: "kv = (k, x)" by fastforce
  have k: "k \<noteq> []" and r: "reads csp filters 1 x (f x)" using Cons.prems(1) kv by simp_all
  have e: "run csp filters NExpression (f x @ tk e # us) = Inr (x, tk e # us)" if "e \<in> {'','', ''}''}" for e us
    using reads_at [OF r, of "tk e # us"] that by (auto simp: level_end_def follow_token)
  show ?case
  proof (cases kvs)
    case Nil
    with e [of "''}''"] k show ?thesis by (subst run_simps(21)) (simp add: keys_def kv show_key_simp token_simps token_key_string consume_def)
  next
    case (Cons b bs)
    with e [of "'',''"] k Cons.IH [of "done @ [kv]"] Cons.prems(1) show ?thesis
      by (subst run_simps(21)) (simp add: keys_def kv show_key_simp token_simps token_key_string)
  qed
qed simp

lemma reads_object:
  assumes "\<forall>(k, x) \<in> set kvs. k \<noteq> [] \<and> reads csp filters 1 x (f x)"
  shows "reads_primary csp filters (EObj kvs) None (tk ''{'' # sep (map (show_key f) kvs) @ [tk ''}''])"
proof -
  have "run csp filters NPrimary (tk ''{'' # sep (map (show_key f) kvs) @ tk ''}'' # rest) = run csp filters (NSuffix (EObj kvs) None) rest" for rest
  proof (cases "kvs = []")
    case True
    then show ?thesis by (subst run_simps(17)) (simp add: primary_def token_simps more_than_def consume_def)
  next
    case False
    then have "starter (sep (map (show_key f) kvs))"
      by (cases kvs) (auto simp: starter_def show_key_def token_simps split: prod.split)
    then show ?thesis
      using reads_keys [OF assms False, of "[]" rest] more_than_starter [of "sep (map (show_key f) kvs)" "''}''" "tk ''}'' # rest"]
      by (subst run_simps(17)) (simp add: primary_def token_simps)
  qed
  then show ?thesis by (simp add: reads_primary_def token_simps)
qed

section \<open>Every tree\<close>

text \<open>What is read of a tree at its own strength, and from that at every level.\<close>

definition reads_own :: "bool \<Rightarrow> (string \<Rightarrow> bool) \<Rightarrow> ex \<Rightarrow> bool" where
  "reads_own csp filters x \<longleftrightarrow>
     (if ex_level x = 10 then reads_primary csp filters x (context_of x) (show_ex x) else reads csp filters (ex_level x) x (show_ex x))"

definition reads_all :: "bool \<Rightarrow> (string \<Rightarrow> bool) \<Rightarrow> ex \<Rightarrow> bool" where
  "reads_all csp filters x \<longleftrightarrow> (\<forall>p \<le> 9. reads csp filters p x (wrap p x (show_ex x))) \<and>
     reads_primary csp filters x (if ex_level x = 10 then context_of x else None) (wrap 10 x (show_ex x))"

lemma ex_level_le: "ex_level x \<le> 10"
  by (cases x) (auto simp: op_level_def)

lemma own_all: "reads_own csp filters x \<Longrightarrow> reads_all csp filters x"
proof (cases "ex_level x = 10")
  case True
  assume "reads_own csp filters x"
  then have p: "reads_primary csp filters x (context_of x) (show_ex x)" using True by (simp add: reads_own_def)
  then have "reads csp filters q x (show_ex x)" if "q \<le> 9" for q using reads_down [OF that primary_unary [OF p]] by simp
  with p True show ?thesis by (simp add: reads_all_def wrap_def)
next
  case False
  assume "reads_own csp filters x"
  then have o: "reads csp filters (ex_level x) x (show_ex x)" and l: "ex_level x \<le> 9"
    using False ex_level_le [of x] by (simp_all add: reads_own_def)
  have weak: "reads csp filters q x (show_ex x)" if "q \<le> ex_level x" for q using reads_down [OF that o] l by simp
  then have p: "reads_primary csp filters x None (tk ''('' # show_ex x @ [tk '')''])" by (intro reads_parens) simp
  have "reads csp filters q x (wrap q x (show_ex x))" if "q \<le> 9" for q
    using weak [of q] reads_down [OF that primary_unary [OF p]] by (simp add: wrap_def)
  with p l show ?thesis by (simp add: reads_all_def wrap_def)
qed

lemma wrap_starter: "starter (show_ex x) \<Longrightarrow> starter (wrap p x (show_ex x))"
  by (simp add: wrap_def starter_def token_simps)

lemma starter_Cons: "starter (t # ts) \<longleftrightarrow> \<not> has_text '';'' t \<and> \<not> has_text '')'' t \<and> \<not> has_text '']'' t \<and> \<not> has_text ''}'' t"
  by (auto simp: starter_def peek_text_Cons)

lemma wrap_append: "starter (show_ex x) \<Longrightarrow> starter (wrap p x (show_ex x) @ us)"
  by (intro starter_append wrap_starter)

lemma show_starter: "ex_ok csp filters x \<Longrightarrow> starter (show_ex x)"
proof (induction x)
  case (EPath s)
  then have "s \<notin> {'')'', '']'', ''}'', '';''}" by (auto simp: isIdent_def)
  then show ?case by (auto simp: starter_Cons)
next
  case (EWord s)
  then show ?case by (auto simp: starter_Cons operator_words_def)
next
  case (ECall f c args)
  then have "starter (if c = context_of f then wrap 10 f (show_ex f) else tk ''('' # show_ex f @ [tk '')''])"
    by (simp add: wrap_starter starter_Cons)
  then show ?case unfolding show_ex.simps by (rule starter_append)
qed (auto simp: starter_Cons intro: wrap_append starter_append)

lemma wrap_items:
  assumes "\<forall>a \<in> set xs. ex_ok csp filters a \<and> reads_all csp filters a"
  shows "items_ok csp filters (\<lambda>a. wrap 1 a (show_ex a)) xs"
  using assms by (auto simp: items_ok_def reads_all_def intro: wrap_starter show_starter)

lemma context_primary: "ex_level f \<noteq> 10 \<Longrightarrow> context_of f = None"
  by (cases f) (auto simp: context_of_def)

lemma reads_primary_all: "reads_all csp filters x \<Longrightarrow> reads_primary csp filters x (context_of x) (wrap 10 x (show_ex x))"
  using context_primary [of x] by (auto simp: reads_all_def split: if_splits)

lemma reads_level: "reads_all csp filters x \<Longrightarrow> p \<le> 9 \<Longrightarrow> reads csp filters p x (wrap p x (show_ex x))"
  by (simp add: reads_all_def)

lemma reads_binary:
  assumes x: "reads_all csp filters x" and y: "reads_all csp filters y" and op: "op \<in> set bin_ops"
  shows "reads_own csp filters (EBin op x y)"
proof -
  note r = reads_level [OF x] and s = reads_level [OF y]
  have "op = ''||'' \<or> op = ''&&'' \<or> op \<in> {''=='', ''!='', ''==='', ''!==''} \<or> op \<in> {''<'', ''>'', ''<='', ''>=''}
      \<or> op \<in> {''+'', ''-''} \<or> op \<in> {''*'', ''/'', ''%''}"
    using op by (simp add: bin_ops_def)
  then show ?thesis
  proof (elim disjE)
    assume 1: "op = ''||''"
    then show ?thesis using reads_or [OF r [of 3] s [of 4]] by (simp add: reads_own_def op_level_def left_level_def right_level_def)
  next
    assume 2: "op = ''&&''"
    then show ?thesis using reads_right [OF r [of "Suc 4"] s [of 4], of op] by (simp add: reads_own_def op_level_def left_level_def right_level_def)
  next
    assume 3: "op \<in> {''=='', ''!='', ''==='', ''!==''}"
    then have "op_level op = 5" by (auto simp: op_level_def)
    then show ?thesis using 3 reads_right [OF r [of "Suc 5"] s [of 5], of op] by (simp add: reads_own_def left_level_def right_level_def)
  next
    assume 4: "op \<in> {''<'', ''>'', ''<='', ''>=''}"
    then have "op_level op = 6" by (auto simp: op_level_def)
    then show ?thesis using 4 reads_right [OF r [of "Suc 6"] s [of 6], of op] by (simp add: reads_own_def left_level_def right_level_def)
  next
    assume 5: "op \<in> {''+'', ''-''}"
    then have "op_level op = 7" by (auto simp: op_level_def)
    then show ?thesis using 5 reads_sum [OF r [of 7] s [of 8]] by (simp add: reads_own_def left_level_def right_level_def)
  next
    assume 6: "op \<in> {''*'', ''/'', ''%''}"
    then have "op_level op = 8" by (auto simp: op_level_def)
    then show ?thesis using 6 reads_product [OF r [of 8] s [of 9]] by (simp add: reads_own_def left_level_def right_level_def)
  qed
qed

lemma every_tree_reads: "ex_ok csp filters x \<Longrightarrow> reads_all csp filters x"
proof (induction x)
  case (ENum s)
  show ?case using reads_token [of "mk_token s LNumber" "ENum s"]
    by (intro own_all) (simp add: reads_own_def context_of_def token_simps token_fn_def, simp add: mk_token_def)
next
  case (EStr s)
  show ?case using reads_token [of "string_tk s" "EStr s"]
    by (intro own_all) (simp add: reads_own_def context_of_def token_simps token_fn_def, simp add: mk_token_def string_tk_def)
next
  case (EWord s)
  then show ?case using reads_token [of "mk_token s LWord" "EWord s"]
    by (intro own_all) (simp add: reads_own_def context_of_def token_simps token_fn_def operator_words_def, auto simp: mk_token_def)
next
  case (EPath s)
  then have "s \<notin> {''+'', ''-'', ''!'', ''('', ''['', ''{''}" by (auto simp: isIdent_def)
  then show ?case using reads_token [of "ident_tk s" "EPath s"]
    by (intro own_all) (simp add: reads_own_def context_of_def token_simps token_fn_def, simp add: mk_token_def ident_tk_def)
next
  case (ENeg x)
  then show ?case using reads_unary(1) [OF reads_level [of csp filters x 9]] by (intro own_all) (simp add: reads_own_def)
next
  case (ENot x)
  then show ?case using reads_unary(2) [OF reads_level [of csp filters x 9]] by (intro own_all) (simp add: reads_own_def)
next
  case (EBin op x y)
  then show ?case by (intro own_all [OF reads_binary]) simp_all
next
  case (ETern x y z)
  then show ?case
    using reads_ternary [OF reads_level [of csp filters x 3] reads_level [of csp filters y 2] reads_level [of csp filters z 2]]
    by (intro own_all) (simp add: reads_own_def)
next
  case (EAssign x y)
  then show ?case
    using reads_assignment [OF reads_level [of csp filters x 2] _ reads_level [of csp filters y 2]] by (intro own_all) (simp add: reads_own_def)
next
  case (EFilter x name args)
  then have "reads csp filters 0 x (show_ex x)" using reads_level [of csp filters x 0] by (simp add: wrap_def)
  moreover have "\<forall>a \<in> set args. reads csp filters 1 a (wrap 1 a (show_ex a))"
    using EFilter by (auto simp: list_all_iff intro!: reads_level)
  ultimately show ?case using EFilter.prems reads_filter [of csp filters x "show_ex x" name args "\<lambda>a. wrap 1 a (show_ex a)"]
    by (intro own_all) (simp add: reads_own_def)
next
  case (EField x f)
  then show ?case using reads_field [OF reads_primary_all [of csp filters x]] by (intro own_all) (simp add: reads_own_def context_of_def)
next
  case (EIndex x i)
  then show ?case using reads_index [OF reads_primary_all [of csp filters x] reads_level [of csp filters i 1]]
    by (intro own_all) (simp add: reads_own_def context_of_def)
next
  case (ECall f c args)
  have i: "items_ok csp filters (\<lambda>a. wrap 1 a (show_ex a)) args" using ECall by (intro wrap_items) (auto simp: list_all_iff)
  have f: "reads_all csp filters f" using ECall by simp
  have p: "reads_primary csp filters f None (tk ''('' # show_ex f @ [tk '')''])"
    using reads_level [OF f, of 0] by (intro reads_parens) (simp add: wrap_def)
  show ?case
    using ECall.prems reads_call [OF reads_primary_all [OF f] i] reads_call [OF p i]
    by (intro own_all) (auto simp: reads_own_def context_of_def [of "ECall _ _ _"])
next
  case (EArr xs)
  then show ?case using reads_array [OF wrap_items, of xs csp filters]
    by (intro own_all) (simp add: reads_own_def context_of_def list_all_iff)
next
  case (EObj kvs)
  have "\<forall>(k, x) \<in> set kvs. k \<noteq> [] \<and> reads csp filters 1 x (wrap 1 x (show_ex x))"
    using EObj by (fastforce simp: list_all_iff intro: reads_level)
  then show ?case using reads_object [of kvs csp filters "\<lambda>x. wrap 1 x (show_ex x)"]
    by (intro own_all) (simp add: reads_own_def context_of_def show_key_def [abs_def])
qed simp_all

lemma parse_show: "ex_ok csp filters x \<Longrightarrow> parse_tokens csp filters (show_ex x) = Inr x"
proof -
  assume ok: "ex_ok csp filters x"
  have "run csp filters NFilterChain (show_ex x) = run csp filters (NFilterLoop x) []"
    using reads_at [OF reads_level [OF every_tree_reads [OF ok], of 0], of "[]"] by (simp add: wrap_def level_end_def)
  then have "run csp filters NFilterChain (show_ex x) = Inr (x, [])" by (simp add: loops_stop)
  moreover have "show_ex x \<noteq> []" "\<not> peek_text [''}'', '')'', '';'', '']''] (show_ex x)"
    using show_starter [OF ok] by (auto simp: starter_def peek_text_def split: list.splits)
  ultimately have "run csp filters (NStatements []) (show_ex x) = Inr (x, [])"
    by (subst run_simps(1)) (simp add: statements_def expect_def)
  then show ?thesis by (simp add: parse_tokens_run)
qed

end
