(* ===== verification/Angular_Print.thy ===== *)
theory Angular_Print
  imports Angular_Grammar
begin

text \<open>
  Expressions as texts: the lexer reads back tokens that are written with a space after each, so that \<open>$parse\<close> reads back the text of
  every tree that it can build.
\<close>

section \<open>Tokens in a text\<close>

definition numeral_text :: "string \<Rightarrow> bool" where
  "numeral_text s \<longleftrightarrow> s \<noteq> [] \<and> is_digit (hd s) \<and> list_all (\<lambda>c. is_digit c \<or> c = CHR ''.'') s"

definition path_text :: "bool \<Rightarrow> string \<Rightarrow> bool" where
  "path_text csp s \<longleftrightarrow> s \<noteq> [] \<and> isIdent (hd s) \<and> list_all (\<lambda>c. isIdent c \<or> is_digit c \<or> c = CHR ''.'') s
     \<and> s \<notin> set operator_words \<and> getter_ok csp s"

text \<open>A token that is read back when another one follows: a path with dots must not be taken for a call of a method.\<close>

definition lexable :: "bool \<Rightarrow> lex_token \<Rightarrow> lex_token list \<Rightarrow> bool" where
  "lexable csp t ts \<longleftrightarrow>
     (case lt_kind t of
        LNumber \<Rightarrow> numeral_text (lt_text t)
      | LString s \<Rightarrow> lt_text t = quoted s
      | LWord \<Rightarrow> lt_text t \<in> set operator_words
      | LIdent \<Rightarrow> path_text csp (lt_text t) \<and> (CHR ''.'' \<in> set (lt_text t) \<longrightarrow> \<not> peek_text [''(''] ts)
      | LOperator \<Rightarrow> lt_text t \<in> set operators
      | LPlain \<Rightarrow> lt_text t \<in> (\<lambda>c. [c]) ` set ''(){}[].,;:?'')"

fun all_lexable :: "bool \<Rightarrow> lex_token list \<Rightarrow> bool" where
  "all_lexable csp [] = True"
| "all_lexable csp (t # ts) = (lexable csp t ts \<and> all_lexable csp ts)"

definition spaced :: "lex_token list \<Rightarrow> string" where
  "spaced ts = concat (map (\<lambda>t. lt_text t @ '' '') ts)"

lemma spaced_simps [simp]: "spaced [] = []" "spaced (t # ts) = lt_text t @ CHR '' '' # spaced ts"
  by (simp_all add: spaced_def)

section \<open>The loops of the lexer\<close>

lemma digit_code: "is_digit c \<Longrightarrow> 48 \<le> (of_char c :: nat) \<and> (of_char c :: nat) \<le> 57"
  by (auto simp: is_digit_def)

lemma number_loop_reads:
  "list_all (\<lambda>c. is_digit c \<or> c = CHR ''.'') s \<Longrightarrow>
     number_loop (pre @ s @ CHR '' '' # post) (length pre) acc = Inr (acc @ s, length pre + length s)"
proof (induction s arbitrary: pre acc)
  case Nil
  show ?case by (subst number_loop.simps) (simp add: Let_def nth_append ascii_lower_def isNumber_def is_digit_def isExpOperator_def isNumber_peek_def)
next
  case (Cons c s)
  have "ascii_lower c = c" using Cons.prems digit_code [of c] by (auto simp: ascii_lower_def Let_def)
  then have "number_loop (pre @ (c # s) @ CHR '' '' # post) (length pre) acc = number_loop (pre @ (c # s) @ CHR '' '' # post) (length pre + 1) (acc @ [c])"
    using Cons.prems by (subst number_loop.simps) (auto simp: Let_def nth_append isNumber_def)
  also have "\<dots> = Inr ((acc @ [c]) @ s, length (pre @ [c]) + length s)"
    using Cons.IH [of "pre @ [c]" "acc @ [c]"] Cons.prems by simp
  finally show ?case by simp
qed

lemma ident_loop_reads:
  "list_all (\<lambda>c. isIdent c \<or> is_digit c \<or> c = CHR ''.'') s \<Longrightarrow>
     \<exists>e. ident_loop (pre @ s @ CHR '' '' # post) (length pre) acc d = (acc @ s, e, length pre + length s)
       \<and> (CHR ''.'' \<notin> set s \<longrightarrow> e = d) \<and> (CHR ''.'' \<in> set s \<longrightarrow> e \<noteq> None)"
proof (induction s arbitrary: pre acc d)
  case Nil
  show ?case by (subst ident_loop.simps) (simp add: Let_def nth_append isIdent_def isNumber_def is_digit_def)
next
  case (Cons c s)
  let ?d = "if c = CHR ''.'' then Some (length pre) else d"
  have "ident_loop (pre @ (c # s) @ CHR '' '' # post) (length pre) acc d = ident_loop (pre @ (c # s) @ CHR '' '' # post) (length pre + 1) (acc @ [c]) ?d"
    using Cons.prems by (subst ident_loop.simps) (auto simp: Let_def nth_append isNumber_def)
  moreover obtain e where "ident_loop ((pre @ [c]) @ s @ CHR '' '' # post) (length (pre @ [c])) (acc @ [c]) ?d = ((acc @ [c]) @ s, e, length (pre @ [c]) + length s)"
      "CHR ''.'' \<notin> set s \<longrightarrow> e = ?d" "CHR ''.'' \<in> set s \<longrightarrow> e \<noteq> None"
    using Cons.IH [of "pre @ [c]" "acc @ [c]" ?d] Cons.prems by (auto simp del: append_assoc)
  ultimately show ?case by auto
qed

lemma string_loop_reads:
  "string_loop (CHR 0x27) (pre @ concat (map (\<lambda>c. if c = CHR 0x27 \<or> c = CHR 0x5C then [CHR 0x5C, c] else [c]) s) @ CHR 0x27 # post) (length pre) raw val False
    = Inr (raw @ concat (map (\<lambda>c. if c = CHR 0x27 \<or> c = CHR 0x5C then [CHR 0x5C, c] else [c]) s) @ [CHR 0x27], val @ s,
        length pre + length (concat (map (\<lambda>c. if c = CHR 0x27 \<or> c = CHR 0x5C then [CHR 0x5C, c] else [c]) s)) + 1)"
proof (induction s arbitrary: pre raw val)
  case Nil
  show ?case by (subst string_loop.simps) (simp add: Let_def nth_append)
next
  case (Cons c s)
  let ?q = "\<lambda>s. concat (map (\<lambda>c. if c = CHR 0x27 \<or> c = CHR 0x5C then [CHR 0x5C, c] else [c]) s)"
  have b: "(of_char c :: nat) = 92 \<longleftrightarrow> c = CHR 0x5C"
    using of_char_eq_iff [of c "CHR 0x5C", where 'a = nat] by simp
  show ?case
  proof (cases "c = CHR 0x27 \<or> c = CHR 0x5C")
    case True
    let ?t = "pre @ [CHR 0x5C, c] @ ?q s @ CHR 0x27 # post"
    have "string_loop (CHR 0x27) ?t (length pre) raw val False = string_loop (CHR 0x27) ?t (length pre + 1) (raw @ [CHR 0x5C]) val True"
      by (subst string_loop.simps) (simp add: Let_def nth_append)
    also have "\<dots> = string_loop (CHR 0x27) ?t (length pre + 2) (raw @ [CHR 0x5C, c]) (val @ [c]) False"
      using True by (subst string_loop.simps) (auto simp: Let_def nth_append escape_char_def)
    finally show ?thesis using True Cons.IH [of "pre @ [CHR 0x5C, c]" "raw @ [CHR 0x5C, c]" "val @ [c]"] by auto
  next
    case False
    let ?t = "pre @ [c] @ ?q s @ CHR 0x27 # post"
    have "string_loop (CHR 0x27) ?t (length pre) raw val False = string_loop (CHR 0x27) ?t (length pre + 1) (raw @ [c]) (val @ [c]) False"
      using False b by (subst string_loop.simps) (simp add: Let_def nth_append)
    then show ?thesis using False Cons.IH [of "pre @ [c]" "raw @ [c]" "val @ [c]"] by simp
  qed
qed

section \<open>One token\<close>

lemma lex_chars_at: "lex_chars (pre @ s) (length pre) n = (if n \<le> length s then Some (take n s) else None)"
  by (simp add: lex_chars_def)

lemma operators_spaceless: "s \<in> set operators \<Longrightarrow> CHR '' '' \<notin> set s" "s \<in> set operators \<Longrightarrow> s \<noteq> [] \<and> length s \<le> 3"
  by (auto simp: operators_def)

lemma lex_operator_longer:
  assumes "length s < n"
  shows "lex_operator (pre @ s @ CHR '' '' # post) (length pre) n = None"
proof -
  have "CHR '' '' \<in> set (take n (s @ CHR '' '' # post))" using assms by (simp add: take_Cons')
  then have "take n (s @ CHR '' '' # post) \<notin> set operators" using operators_spaceless(1) by blast
  then show ?thesis by (simp add: lex_operator_def lex_chars_at)
qed

lemma read_operator_reads:
  assumes "s \<in> set operators"
  shows "read_operator (pre @ s @ CHR '' '' # post) (length pre) = Inr ([(length pre, mk_token s LOperator)], length pre + length s)"
proof -
  have at: "lex_operator (pre @ s @ CHR '' '' # post) (length pre) (length s) = Some s"
    using assms by (simp add: lex_operator_def lex_chars_at)
  note longer = lex_operator_longer [of s _ pre post]
  have "length s = 1 \<or> length s = 2 \<or> length s = 3" using operators_spaceless(2) [OF assms] by (cases "length s") auto
  then show ?thesis
  proof (elim disjE)
    assume l: "length s = 1"
    then show ?thesis using at longer [of 3] longer [of 2] by (simp add: read_operator_def)
  next
    assume l: "length s = 2"
    then show ?thesis using at longer [of 3] by (simp add: read_operator_def)
  next
    assume l: "length s = 3"
    then show ?thesis using at by (simp add: read_operator_def)
  qed
qed

definition operator_start :: "char \<Rightarrow> bool" where
  "operator_start c \<longleftrightarrow> \<not> lex_quote c \<and> \<not> isNumber c \<and> c \<noteq> CHR ''.'' \<and> \<not> isIdent c \<and> c \<notin> set ''(){}[].,;:?'' \<and> \<not> isWhitespace c"

lemma operator_first: "s \<in> set operators \<Longrightarrow> s \<noteq> [] \<and> operator_start (hd s)"
proof -
  have "list_all (\<lambda>s. s \<noteq> [] \<and> operator_start (hd s)) operators" by code_simp
  then show "s \<in> set operators \<Longrightarrow> ?thesis" by (simp add: list_all_iff)
qed

definition no_paren :: "string \<Rightarrow> bool" where
  "no_paren s \<longleftrightarrow> (case s of [] \<Rightarrow> True | c # _ \<Rightarrow> c \<noteq> CHR ''('' \<and> \<not> isWhitespace c)"

lemma paren_at_none: "no_paren post \<Longrightarrow> paren_at (pre @ CHR '' '' # post) (length pre) = None"
proof -
  assume n: "no_paren post"
  have "paren_at (pre @ CHR '' '' # post) (length pre) = paren_at (pre @ CHR '' '' # post) (length pre + 1)"
    by (subst paren_at.simps) (simp add: Let_def nth_append isWhitespace_def)
  also have "\<dots> = None"
    using n by (subst paren_at.simps) (auto simp: Let_def nth_append no_paren_def split: list.splits)
  finally show ?thesis .
qed

lemma readIdent_reads:
  assumes "list_all (\<lambda>c. isIdent c \<or> is_digit c \<or> c = CHR ''.'') s" "ident_ok csp s" "CHR ''.'' \<in> set s \<longrightarrow> no_paren post"
  shows "readIdent csp (pre @ s @ CHR '' '' # post) (length pre) = Inr ([(length pre, ident_token s)], length pre + length s)"
proof -
  obtain e where e: "ident_loop (pre @ s @ CHR '' '' # post) (length pre) [] None = (s, e, length pre + length s)"
      "CHR ''.'' \<notin> set s \<longrightarrow> e = None"
    using ident_loop_reads [OF assms(1), of pre post "[]" None] by auto
  show ?thesis
  proof (cases e)
    case None
    with e assms(2) show ?thesis by (simp add: readIdent_def)
  next
    case (Some d)
    with e assms(3) have "paren_at ((pre @ s) @ CHR '' '' # post) (length (pre @ s)) = None" by (intro paren_at_none) auto
    with Some e assms(2) show ?thesis by (simp add: readIdent_def)
  qed
qed

lemma lex_step_reads:
  assumes t: "lexable csp t ts" and n: "\<not> peek_text [''(''] ts \<longrightarrow> no_paren post"
  shows "lex_step csp (pre @ lt_text t @ CHR '' '' # post) (length pre) = Inr ([(length pre, t)], length pre + length (lt_text t))"
proof (cases "lt_kind t")
  case LNumber
  with t obtain c s where s: "lt_text t = c # s" "is_digit c" "list_all (\<lambda>c. is_digit c \<or> c = CHR ''.'') (c # s)"
    by (cases "lt_text t") (auto simp: lexable_def numeral_text_def)
  have "t = mk_token (c # s) LNumber" using LNumber s by (simp add: mk_token_def)
  with s number_loop_reads [OF s(3), of pre post "[]"] digit_code [OF s(2)] show ?thesis
    by (simp add: lex_step_def Let_def lex_quote_def isNumber_def readNumber_def nth_append)
next
  case (LString s)
  with t have q: "lt_text t = quoted s" by (simp add: lexable_def)
  have m: "mk_token (quoted s) (LString s) = t" using LString q by (simp add: mk_token_def)
  let ?b = "concat (map (\<lambda>c. if c = CHR 0x27 \<or> c = CHR 0x5C then [CHR 0x5C, c] else [c]) s)"
  have "readString (CHR 0x27) (pre @ quoted s @ CHR '' '' # post) (length pre) = Inr ([(length pre, t)], length pre + length (quoted s))"
    using string_loop_reads [of "pre @ [CHR 0x27]" s "CHR '' '' # post" "[CHR 0x27]" "[]"] m
    by (simp add: readString_def quoted_def)
  moreover have "(pre @ quoted s @ CHR '' '' # post) ! length pre = CHR 0x27" by (simp add: quoted_def)
  ultimately show ?thesis by (simp add: q lex_step_def Let_def lex_quote_def)
next
  case LWord
  with t have w: "lt_text t \<in> set operator_words" by (simp add: lexable_def)
  then have "list_all (\<lambda>c. isIdent c \<or> is_digit c \<or> c = CHR ''.'') (lt_text t)" "CHR ''.'' \<notin> set (lt_text t)"
    by (auto simp: operator_words_def isIdent_def)
  moreover have "t = ident_token (lt_text t)" using LWord w by (simp add: ident_token_def mk_token_def)
  moreover obtain c s where s: "lt_text t = c # s" "isIdent c" using w by (auto simp: operator_words_def isIdent_def)
  moreover have "\<not> lex_quote c" "\<not> isNumber c" "c \<noteq> CHR ''.''"
    using s(2) digit_code [of c] by (auto simp: lex_quote_def isNumber_def isIdent_def Let_def)
  ultimately show ?thesis
    using readIdent_reads [of "lt_text t" csp post pre] w
    by (simp add: lex_step_def Let_def nth_append ident_ok_def)
next
  case LIdent
  with t have p: "path_text csp (lt_text t)" and d: "CHR ''.'' \<in> set (lt_text t) \<longrightarrow> no_paren post" using n by (auto simp: lexable_def)
  have "t = ident_token (lt_text t)" using LIdent p by (simp add: ident_token_def mk_token_def path_text_def)
  moreover obtain c s where s: "lt_text t = c # s" "isIdent c" using p by (cases "lt_text t") (auto simp: path_text_def)
  moreover have "\<not> lex_quote c" "\<not> isNumber c" "c \<noteq> CHR ''.''"
    using s(2) digit_code [of c] by (auto simp: lex_quote_def isNumber_def isIdent_def Let_def)
  ultimately show ?thesis
    using readIdent_reads [of "lt_text t" csp post pre] p d
    by (simp add: lex_step_def Let_def nth_append ident_ok_def path_text_def)
next
  case LOperator
  with t have o: "lt_text t \<in> set operators" by (simp add: lexable_def)
  have "t = mk_token (lt_text t) LOperator" using LOperator by (simp add: mk_token_def)
  moreover obtain c s where "lt_text t = c # s" "operator_start c" using operator_first [OF o] by (cases "lt_text t") auto
  ultimately show ?thesis using read_operator_reads [OF o, of pre post]
    by (simp add: lex_step_def Let_def nth_append operator_start_def)
next
  case LPlain
  with t obtain c where c: "lt_text t = [c]" "c \<in> set ''(){}[].,;:?''" by (auto simp: lexable_def)
  have "t = mk_token [c] LPlain" using LPlain c by (simp add: mk_token_def)
  moreover have "\<not> lex_quote c" "\<not> isNumber c" "\<not> isIdent c" using c(2) by (auto simp: lex_quote_def isNumber_def is_digit_def isIdent_def)
  ultimately show ?thesis using c
    by (auto simp: lex_step_def Let_def nth_append lex_peek_def isNumber_peek_def isNumber_def is_digit_def)
qed

section \<open>All tokens\<close>

lemma lexable_first:
  assumes "lexable csp t ts"
  shows "lt_text t \<noteq> [] \<and> \<not> isWhitespace (hd (lt_text t)) \<and> (hd (lt_text t) = CHR ''('' \<longrightarrow> has_text ''('' t)"
proof (cases "lt_kind t")
  case LOperator
  with assms operator_first [of "lt_text t"] show ?thesis by (auto simp: lexable_def operator_start_def)
next
  case LWord
  with assms show ?thesis by (auto simp: lexable_def operator_words_def isWhitespace_def)
next
  case LIdent
  with assms show ?thesis by (auto simp: lexable_def path_text_def isIdent_def isWhitespace_def Let_def)
next
  case LNumber
  with assms show ?thesis by (auto simp: lexable_def numeral_text_def isWhitespace_def is_digit_def)
next
  case (LString s)
  with assms show ?thesis by (auto simp: lexable_def quoted_def isWhitespace_def)
next
  case LPlain
  with assms show ?thesis by (auto simp: lexable_def isWhitespace_def has_text_def)
qed

lemma spaced_no_paren: "all_lexable csp ts \<Longrightarrow> \<not> peek_text [''(''] ts \<Longrightarrow> no_paren (spaced ts)"
proof (cases ts)
  case (Cons t us)
  assume "all_lexable csp ts" "\<not> peek_text [''(''] ts"
  with Cons lexable_first [of csp t us] show ?thesis by (cases "lt_text t") (auto simp: no_paren_def peek_text_Cons)
qed (simp add: no_paren_def)

lemma lex_loop_reads:
  "all_lexable csp ts \<Longrightarrow> \<exists>its. lex_loop csp (pre @ spaced ts) (length pre) acc = Inr (acc @ its) \<and> map snd its = ts"
proof (induction ts arbitrary: pre acc)
  case Nil
  show ?case by (subst lex_loop.simps) simp
next
  case (Cons t ts)
  let ?p = "pre @ lt_text t @ '' ''"
  let ?s = "pre @ spaced (t # ts)"
  have t: "lexable csp t ts" and ts: "all_lexable csp ts" using Cons.prems by simp_all
  have "lex_step csp ?s (length pre) = Inr ([(length pre, t)], length pre + length (lt_text t))"
    using lex_step_reads [OF t, of "spaced ts" pre] spaced_no_paren [OF ts] by simp
  then have a: "lex_loop csp ?s (length pre) acc = lex_loop csp ?s (length pre + length (lt_text t)) (acc @ [(length pre, t)])"
    by (subst lex_loop.simps) simp
  have "?s ! (length pre + length (lt_text t)) = CHR '' ''" by (simp add: nth_append)
  then have "lex_step csp ?s (length pre + length (lt_text t)) = Inr ([], length ?p)"
    by (simp add: lex_step_def Let_def lex_quote_def isNumber_def is_digit_def isIdent_def isWhitespace_def)
  then have b: "lex_loop csp ?s (length pre + length (lt_text t)) (acc @ [(length pre, t)]) = lex_loop csp (?p @ spaced ts) (length ?p) (acc @ [(length pre, t)])"
    by (subst lex_loop.simps) simp
  obtain its where "lex_loop csp (?p @ spaced ts) (length ?p) (acc @ [(length pre, t)]) = Inr ((acc @ [(length pre, t)]) @ its)" "map snd its = ts"
    using Cons.IH [OF ts] by blast
  then have "lex_loop csp ?s (length pre) acc = Inr (acc @ (length pre, t) # its) \<and> map snd ((length pre, t) # its) = t # ts"
    using a b by simp
  then show ?case by (rule exI)
qed

lemma lex_reads: "all_lexable csp ts \<Longrightarrow> \<exists>its. lex csp (spaced ts) = Inr its \<and> map snd its = ts"
  using lex_loop_reads [of csp ts "[]" "[]"] by (auto simp: lex_def)

section \<open>The tokens of a tree\<close>

text \<open>Every token of \<open>ts\<close> is read back when \<open>us\<close> follows.\<close>

fun lexes :: "bool \<Rightarrow> lex_token list \<Rightarrow> lex_token list \<Rightarrow> bool" where
  "lexes csp [] us = True"
| "lexes csp (t # ts) us = (lexable csp t (ts @ us) \<and> lexes csp ts us)"

lemma lexes_append [simp]: "lexes csp (ts @ ts') us \<longleftrightarrow> lexes csp ts (ts' @ us) \<and> lexes csp ts' us"
  by (induction ts) auto

lemma lexes_all: "lexes csp ts [] = all_lexable csp ts"
  by (induction ts) auto

definition dotted :: "ex \<Rightarrow> bool" where
  "dotted x = (case x of EPath s \<Rightarrow> CHR ''.'' \<in> set s | EField _ s \<Rightarrow> CHR ''.'' \<in> set s | _ \<Rightarrow> False)"

text \<open>The texts in a tree are those of tokens; a path with dots is not called without parentheses.\<close>

fun text_ok :: "bool \<Rightarrow> ex \<Rightarrow> bool" where
  "text_ok csp (ENum s) = numeral_text s"
| "text_ok csp (EStr s) = True"
| "text_ok csp (EWord s) = True"
| "text_ok csp (EPath s) = path_text csp s"
| "text_ok csp (EOp s) = True"
| "text_ok csp (ENeg x) = text_ok csp x"
| "text_ok csp (ENot x) = text_ok csp x"
| "text_ok csp (EBin op x y) = (text_ok csp x \<and> text_ok csp y)"
| "text_ok csp (ETern x y z) = (text_ok csp x \<and> text_ok csp y \<and> text_ok csp z)"
| "text_ok csp (EAssign x y) = (text_ok csp x \<and> text_ok csp y)"
| "text_ok csp (EFilter x name args) = (path_text csp name \<and> text_ok csp x \<and> list_all (text_ok csp) args)"
| "text_ok csp (EField x f) = (path_text csp f \<and> text_ok csp x)"
| "text_ok csp (EIndex x i) = (text_ok csp x \<and> text_ok csp i)"
| "text_ok csp (ECall f c args) = ((c = context_of f \<longrightarrow> \<not> dotted f) \<and> text_ok csp f \<and> list_all (text_ok csp) args)"
| "text_ok csp (EArr xs) = list_all (text_ok csp) xs"
| "text_ok csp (EObj kvs) = list_all (\<lambda>(k, x). text_ok csp x) kvs"
| "text_ok csp (ESeq xs) = True"

lemma lexable_simps [simp]:
  "lexable csp (tk s) ts \<longleftrightarrow> s \<in> (\<lambda>c. [c]) ` set ''(){}[].,;:?''"
  "lexable csp (op_tk s) ts \<longleftrightarrow> s \<in> set operators"
  "lexable csp (mk_token s LNumber) ts \<longleftrightarrow> numeral_text s"
  "lexable csp (mk_token s LWord) ts \<longleftrightarrow> s \<in> set operator_words"
  "lexable csp (string_tk s) ts"
  "lexable csp (ident_tk s) ts \<longleftrightarrow> path_text csp s \<and> (CHR ''.'' \<in> set s \<longrightarrow> \<not> peek_text [''(''] ts)"
  by (simp_all add: lexable_def tk_def op_tk_def mk_token_def string_tk_def ident_tk_def)

text \<open>What follows a tree: a parenthesis only after one that can be called.\<close>

definition follows :: "ex \<Rightarrow> lex_token list \<Rightarrow> bool" where
  "follows x us \<longleftrightarrow> (peek_text [''(''] us \<longrightarrow> ex_level x = 10 \<and> \<not> dotted x)"

lemma follows_other [simp]: "\<not> peek_text [''(''] us \<Longrightarrow> follows x us"
  by (simp add: follows_def)

lemma bin_ops_operators: "op \<in> set bin_ops \<Longrightarrow> op \<in> set operators" "op \<in> set bin_ops \<Longrightarrow> op_level op \<noteq> 10"
  by (auto simp: bin_ops_def operators_def op_level_def)

lemma operators_known [simp]: "''-'' \<in> set operators" "''!'' \<in> set operators" "''='' \<in> set operators" "''|'' \<in> set operators"
  by (simp_all add: operators_def)

lemma lexes_wrap:
  "(\<And>us. follows x us \<Longrightarrow> lexes csp (show_ex x) us) \<Longrightarrow> \<not> ex_level x < p \<longrightarrow> follows x us \<Longrightarrow> lexes csp (wrap p x (show_ex x)) us"
  by (auto simp: wrap_def peek_text_Cons)

lemma lexes_sep:
  assumes "\<And>ts us. ts \<in> set tss \<Longrightarrow> \<not> peek_text [''(''] us \<Longrightarrow> lexes csp ts us" "\<not> peek_text [''(''] us"
  shows "lexes csp (sep tss) us"
  using assms(1)
proof (induction tss)
  case (Cons ts tss)
  show ?case
  proof (cases tss)
    case Nil
    then show ?thesis using Cons.prems assms(2) by simp
  next
    case (Cons ts' tss')
    have "lexes csp ts (tk '','' # sep tss @ us)" using Cons.prems by (simp add: peek_text_Cons)
    moreover have "lexes csp (sep tss) us" using Cons.IH Cons.prems by (meson list.set_intros(2))
    ultimately show ?thesis using Cons by simp
  qed
qed simp

lemma lexes_args:
  assumes "\<And>a us. a \<in> set args \<Longrightarrow> follows a us \<Longrightarrow> lexes csp (show_ex a) us" "\<not> peek_text [''(''] us"
  shows "lexes csp (concat (map (\<lambda>a. tk '':'' # wrap 1 a (show_ex a)) args)) us"
  using assms(1)
proof (induction args)
  case (Cons a args)
  let ?r = "concat (map (\<lambda>a. tk '':'' # wrap 1 a (show_ex a)) args)"
  have "\<not> peek_text [''(''] (?r @ us)" using assms(2) by (cases args) (simp_all add: peek_text_Cons)
  then have "lexes csp (wrap 1 a (show_ex a)) (?r @ us)" using Cons.prems by (intro lexes_wrap) simp_all
  then show ?case using Cons by simp
qed simp

lemma args_no_paren: "\<not> peek_text [''(''] us \<Longrightarrow> \<not> peek_text [''(''] (concat (map (\<lambda>a. tk '':'' # f a) args) @ us)"
  by (cases args) (simp_all add: peek_text_Cons)

lemma lexes_callee:
  assumes "\<And>us. follows x us \<Longrightarrow> lexes csp (show_ex x) us" "\<not> dotted x"
  shows "lexes csp (wrap 10 x (show_ex x)) us"
proof -
  have "\<not> ex_level x < 10 \<longrightarrow> follows x us" using assms(2) ex_level_le [of x] by (auto simp: follows_def)
  then show ?thesis using lexes_wrap [of x csp 10 us] assms(1) by blast
qed

theorem lexes_show: "ex_ok csp filters x \<Longrightarrow> text_ok csp x \<Longrightarrow> follows x us \<Longrightarrow> lexes csp (show_ex x) us"
proof (induction x arbitrary: us rule: show_ex.induct)
  case (8 op x y)
  then have "\<not> peek_text [''(''] us" by (auto simp: follows_def dest: bin_ops_operators(2))
  moreover have "op \<noteq> ''(''" using 8 by (auto simp: bin_ops_def)
  ultimately show ?case using 8 by (auto simp: peek_text_Cons intro!: lexes_wrap bin_ops_operators(1))
next
  case (11 x name args)
  then have n: "\<not> peek_text [''(''] us" by (auto simp: follows_def)
  moreover have "lexes csp (concat (map (\<lambda>a. tk '':'' # wrap 1 a (show_ex a)) args)) us"
    using 11 n by (intro lexes_args) (auto simp: list_all_iff)
  moreover have "\<not> peek_text [''(''] (concat (map (\<lambda>a. tk '':'' # wrap 1 a (show_ex a)) args) @ us)" by (rule args_no_paren [OF n])
  ultimately show ?case using 11 by (simp add: peek_text_Cons)
next
  case (12 x f)
  then have "CHR ''.'' \<in> set f \<longrightarrow> \<not> peek_text [''(''] us" by (auto simp: follows_def dotted_def)
  with 12 show ?case by (auto simp: peek_text_Cons intro!: lexes_wrap)
next
  case (14 f c args)
  have "lexes csp (sep (map (\<lambda>a. wrap 1 a (show_ex a)) args)) (tk '')'' # us)"
    using 14 by (intro lexes_sep) (auto simp: list_all_iff peek_text_Cons intro!: lexes_wrap)
  moreover have "lexes csp (wrap 10 f (show_ex f)) ts" if "c = context_of f" for ts
    using 14 that by (intro lexes_callee) auto
  moreover have "lexes csp (show_ex f) (tk '')'' # ts)" if "c \<noteq> context_of f" for ts
    using 14 that by (simp add: peek_text_Cons)
  ultimately show ?case by simp
next
  case (15 xs)
  have "lexes csp (sep (map (\<lambda>a. wrap 1 a (show_ex a)) xs)) (tk '']'' # us)"
    using 15 by (intro lexes_sep) (auto simp: list_all_iff peek_text_Cons intro!: lexes_wrap)
  then show ?case by simp
next
  case (16 kvs)
  have kv: "lexes csp (show_ex x) us" if "(k, x) \<in> set kvs" "follows x us" for k x us
    using 16 that by (fastforce simp: list_all_iff)
  have "lexes csp (sep (map (\<lambda>(k, x). string_tk k # tk '':'' # wrap 1 x (show_ex x)) kvs)) (tk ''}'' # us)"
    by (intro lexes_sep) (auto simp: peek_text_Cons kv intro!: lexes_wrap)
  then show ?case by simp
qed (auto simp: peek_text_Cons follows_def dotted_def intro!: lexes_wrap)

lemma parse_spaced:
  assumes "ex_ok csp filters x" "text_ok csp x"
  shows "parse_expression csp filters (spaced (show_ex x)) = Inr x"
proof -
  have "all_lexable csp (show_ex x)" using lexes_show [OF assms, of "[]"] by (simp add: lexes_all)
  then obtain its where "lex csp (spaced (show_ex x)) = Inr its" "map snd its = show_ex x" using lex_reads by blast
  then show ?thesis using parse_show [OF assms(1)] by (simp add: parse_expression_def)
qed

text \<open>
  C31. \<open>$parse\<close> reads back the text of every tree that it can build from one statement without misplaced operators (\<open>ex_ok\<close>), when the names
  and numbers in it are those of tokens (\<open>text_ok\<close>): \<open>show_ex\<close> writes the tokens with the fewest parentheses and \<open>spaced\<close> a space after each. So
  operators bind as strongly as the printer says and associate to the left for \<open>||\<close>, sums and products, but to the right for
  \<open>==\<close>, \<open><\<close> and \<open>&&\<close>; strings come back unescaped, calls with the object of their method, filters with their arguments.
\<close>

theorem expression_round_trip:
  "ex_ok csp filters x \<Longrightarrow> text_ok csp x \<Longrightarrow> parse_expression csp filters (spaced (show_ex x)) = Inr x"
  by (rule parse_spaced)

theorem expression_round_trip_witness:
  "let x = EFilter (EAssign (EField (EIndex (EPath ''a.b'') (EStr ''it's'')) ''c'')
             (EBin ''*'' (EBin ''-'' (EBin ''-'' (ENum ''1.5'') (EPath ''d'')) (EPath ''e'')) (ENeg (ECall (EField (EPath ''f'') ''g'') (Some (EPath ''f'')) [EArr [], EWord ''true'']))))
             ''date'' [ETern (EPath ''u'') (EObj [(''k'', ENum ''2'')]) (EBin ''=='' (EPath ''v'') (EBin ''=='' (EPath ''w'') (EStr [])))]
   in parse_expression False (\<lambda>n. n = ''date'') (spaced (show_ex x)) = Inr x"
  unfolding Let_def by (rule expression_round_trip) code_simp+

section \<open>What else is accepted\<close>

text \<open>An operator is a primary expression, because its token has a function.\<close>

lemma operator_as_operand: "parse_expression False (\<lambda>_. True) ''1 + *'' = Inr (EBin ''+'' (ENum ''1'') (EOp ''*''))"
  by code_simp

text \<open>The end of the text counts as a digit, so that an exponent or a dot may stand there.\<close>

lemma exponent_at_end: "parse_expression False (\<lambda>_. True) ''1e'' = Inr (ENum ''1e'')" "parse_expression False (\<lambda>_. True) ''.'' = Inr (ENum ''.'')"
  "parse_expression False (\<lambda>_. True) ''1e )'' = Inl UnexpectedToken"
  by code_simp+

text \<open>Comparisons of the same strength associate to the right, while JavaScript's associate to the left.\<close>

lemma equality_to_the_right:
  "parse_expression False (\<lambda>_. True) ''a == b == c'' = Inr (EBin ''=='' (EPath ''a'') (EBin ''=='' (EPath ''b'') (EPath ''c'')))"
  by code_simp

text \<open>The right side of an assignment is not an assignment.\<close>

lemma no_chained_assignment: "parse_expression False (\<lambda>_. True) ''a = b = 1'' = Inl UnexpectedToken"
  by code_simp

text \<open>The empty key of an object is read as its quotes.\<close>

lemma empty_key: "parse_expression False (\<lambda>_. True) [CHR ''{'', CHR 0x22, CHR 0x22, CHR '':'', CHR ''1'', CHR ''}''] = Inr (EObj [([CHR 0x22, CHR 0x22], ENum ''1'')])"
  by code_simp

text \<open>A dot before a call is dropped.\<close>

lemma call_after_dot: "parse_expression False (\<lambda>_. True) ''a.(1)'' = Inr (ECall (EPath ''a'') None [ENum ''1''])"
  by code_simp

text \<open>
  The text of a string is taken for a field, with its quotes. One with double quotes goes into the source of a function, where it ends
  the quotes that are around it.
\<close>

lemma string_as_field:
  "parse_expression False (\<lambda>_. True) [CHR ''a'', CHR '' '', CHR ''.'', CHR 0x27, CHR ''x'', CHR 0x27] = Inr (EField (EPath ''a'') [CHR 0x27, CHR ''x'', CHR 0x27])"
  "parse_expression False (\<lambda>_. True) [CHR ''a'', CHR '' '', CHR ''.'', CHR 0x27, CHR 0x22, CHR 0x27] = Inl GeneratedSource"
  "parse_expression True (\<lambda>_. True) [CHR ''a'', CHR '' '', CHR ''.'', CHR 0x27, CHR 0x22, CHR 0x27] = Inr (EField (EPath ''a'') [CHR 0x27, CHR 0x22, CHR 0x27])"
  by code_simp+

end
