(* ===== verification/Spec2Isabelle.thy ===== *)
theory Spec2Isabelle
  imports Moment_Humanize Moment_Roundtrip Picker_Props Picker_Grid Bootstrap_Collapse Bootstrap_Carousel
    Bootstrap_Modal Bootstrap_Scroll Bootstrap_Tooltip Bootstrap_Controls
    Angular_Cache Angular_Progress Angular_Broadcast Angular_Deliver Angular_Modules
    Angular_Hash Angular_Registry Angular_Address Angular_Print
begin

text \<open>
  A verification development for the browser code of the Elan agent's captive portal: the JavaScript under
  \<open>src/captive_portal/static/captive-portal/js\<close>. The pages of the portal load these scripts: Angular
  (\<open>angular-1.2.21.js\<close>), Moment (\<open>moment-2.8.1.js\<close>), Bootstrap (\<open>bootstrap-3.2.0.js\<close>, with \<open>collapse-3.2.0.js\<close> and
  \<open>transition-3.2.0.js\<close> also as files of their own) and the date picker (\<open>bootstrap-datetimepicker-3.1.1.js\<close>), which
  builds on Moment for all dates and on the collapse plugin for its panels.

  \<^bold>\<open>Conventions.\<close> A theory has the definitions of a component in the order of the source and under its names, then
  its lemmas and properties. Objects are records and every function that changes one returns it; several
  objects that refer to each other are addresses of a heap. A thrown error is the left side of a sum. What a
  script takes from the browser, jQuery or its user is an argument: the clock and zone of the host, what an element
  measures, which events a listener prevents, the functions of an application.

  \<^bold>\<open>Language.\<close> \<open>Js_Prelude\<close> has numbers, strings and errors and the collections of simplification rules, \<open>Js_Date\<close> the
  \<open>Date\<close> object (ECMAScript 5.1, section 15.9), \<open>Js_Regex\<close> the regular expressions that the scripts use, matched by
  backtracking.

  \<^bold>\<open>Moment.\<close> \<open>Moment_Core\<close> has configurations and moments, raw getters and setters and overflow; \<open>Moment_Locale\<close> locales and
  their registry; \<open>Moment_Duration\<close> durations; \<open>Moment_Arith\<close> adding, start and end of units, comparison, weeks;
  \<open>Moment_Format\<close> and \<open>Moment_Parse\<close> text in both directions. \<open>Moment_Wall\<close> and \<open>Moment_Steady\<close> relate every operation to a calendar
  function of the wall time, for hosts whose clock has no gaps; \<open>Moment_Calendar\<close> has the properties of dates that
  follow, \<open>Moment_Humanize\<close> those of durations, \<open>Moment_Roundtrip\<close> those of formatting and parsing. A format is expanded
  by the six rounds of \<open>expandFormat\<close>.

  \<^bold>\<open>Date picker.\<close> \<open>Picker_State\<close> has the options, the index of enabled dates and the tables, \<open>Picker\<close> the handlers and public
  functions, \<open>Picker_Layout\<close> the template and the placement. \<open>Picker_Props\<close> shows invariants of the reachable states and what
  the handlers do; \<open>Picker_Grid\<close> shows that the table of days is a calendar. The loop over the days has fuel 42, six
  weeks, and \<open>fill_rows\<close> shows that more does not change the table.

  \<^bold>\<open>Bootstrap.\<close> \<open>Page\<close> has classes, transitions and a locale for machines that are driven by events, with the invariants
  they keep; every plugin with a life of its own is an interpretation of it. \<open>Bootstrap_Collapse\<close>,
  \<open>Bootstrap_Carousel\<close>, \<open>Bootstrap_Modal\<close>, \<open>Bootstrap_Scroll\<close> (ScrollSpy and Affix), \<open>Bootstrap_Tooltip\<close> (with popovers) and
  \<open>Bootstrap_Controls\<close> (dropdown, tab, button, alert) show what is left when all transitions have ended, what holds in
  every reachable state, and where clicks during a transition leave two panels open, backdrops behind or a
  tip removed. The search of \<open>getUID\<close> for a free name takes random numbers from a list and is shown to end.

  \<^bold>\<open>Angular, scopes.\<close> \<open>Angular_Scope\<close> has the tree of scopes as linked objects, shows that \<open>$new\<close> and \<open>$destroy\<close> change the tree as they
  should and that the walk over the links is its depth-first order. \<open>Angular_Events\<close> has the events of scopes with the counts of
  listeners, and \<open>Angular_Broadcast\<close> shows that the subtrees that \<open>$broadcast\<close> leaves out because of them have no listener.
  \<open>Angular_Digest\<close> has watchers, \<open>$digest\<close> and \<open>$apply\<close>; \<open>Angular_Settle\<close> shows what holds when \<open>$digest\<close> has ended and
  \<open>Angular_Progress\<close> when it does. Loops that end only if the application lets them (\<open>$broadcast\<close>, the
  traversal of scopes and the queues of \<open>$digest\<close>) are partial functions with the value \<open>None\<close> when they do not return; the outer
  loop of \<open>$digest\<close> is bounded by its TTL.

  \<^bold>\<open>Angular, services.\<close> \<open>Angular_Cache\<close> shows that a cache is a least recently used list, \<open>Angular_Registry\<close> what the factory of
  caches keeps, \<open>Angular_Hash\<close> that hash keys make the maps of objects. \<open>Angular_Promise\<close> has the deferred objects of \<open>$q\<close>,
  \<open>Angular_Continue\<close> and \<open>Angular_Deliver\<close> show what a chain of promises delivers and in which order. \<open>Angular_Injector\<close> has the
  injectors and the loading of modules; \<open>Angular_Inject\<close> and \<open>Angular_Modules\<close> show that the number of providers and of
  modules is fuel enough, and that failures leave no marks. \<open>Angular_Url\<close> encodes and decodes parts of URLs, \<open>Angular_Location\<close> has the
  three forms of \<open>$location\<close> with the properties in \<open>Angular_Location_Props\<close>, and \<open>Angular_Address\<close> the part of \<open>$browser\<close> that
  holds the address bar and the watcher and listener that keep it and the location equal. How the browser splits and serialises URLs are
  parameters; what is relied on of them is what the URL standard says, without paths that have segments of dots. \<open>Angular_Lexer\<close> and
  \<open>Angular_Parser\<close> are \<open>$parse\<close> up to its trees: the methods of the parser call each other through fuel, of which
  \<open>Angular_Parser_Fuel\<close> shows that twenty units for each token are enough; \<open>Angular_Grammar\<close> and \<open>Angular_Print\<close> have a printer with the fewest
  parentheses and show that its texts are read back.

  \<^bold>\<open>Not modelled.\<close> The minified files are the same scripts once more, and jQuery is only there in that form. Of Angular the
  compiler, the directives, the animations, jqLite and the services for the network work on the document and the
  browser; the evaluation of expressions depends on the objects of the application and the arithmetic of the host, the filters on its
  formats of numbers. Of Moment the parsing of duration strings and the decimal expansion in \<open>toISOString\<close> of durations are
  left out, of Bootstrap the delegation of tooltips to selectors, the insertion of HTML and the \<open>noConflict\<close> functions. The parts of the
  repository in Python and Perl and its configuration files are not JavaScript.
\<close>

end
